(* ===== verification/Net_Prelude.thy ===== *)
theory Net_Prelude
  imports Main "HOL-Library.Word" "HOL-Library.Monad_Syntax"
begin

text \<open>
  What the component theories share: the names of the C integer types, the error codes of
  \<^verbatim>\<open>kernel/include/timeros/net/net_err.h\<close>, the outcome type of an operation that may
  panic or run forever, and the lemmas on arrays (lists written at an index range).

  Conventions of the whole development.
  \<^item> \<open>u8\<close>, \<open>u16\<close>, \<open>u32\<close>, \<open>u64\<close> are words and wrap as in C. A C \<^verbatim>\<open>int\<close> that can
    be negative at an interface is an \<open>int\<close>; a stored size or count is a \<open>nat\<close>.
  \<^item> A pointer is an \<open>option\<close>: \<open>None\<close> is the null pointer, \<open>Some i\<close> names the object.
  \<^item> An operation that can hit an assertion, an endless loop or an access outside an object
    returns \<open>'a option\<close>: \<open>None\<close> says that it does not return. The component theories
    show that \<open>None\<close> does not occur in states that satisfy the invariant.
\<close>

unbundle bit_operations_syntax

type_synonym u8 = "8 word"
type_synonym u16 = "16 word"
type_synonym u32 = "32 word"
type_synonym u64 = "64 word"

named_theorems net_defs \<open>definitions unfolded when an operation is evaluated\<close>
named_theorems net_inv \<open>introduction rules: an operation keeps its invariant\<close>
named_theorems array_simps \<open>rewriting for array reads and writes\<close>


section \<open>Error codes\<close>

datatype net_err =
    NET_ERR_OK | NET_ERR_SYS | NET_ERR_MEM | NET_ERR_FULL | NET_ERR_TMO | NET_ERR_NONE
  | NET_ERR_SIZE | NET_ERR_PARAM | NET_ERR_EXIST | NET_ERR_STATE | NET_ERR_IO
  | NET_ERR_NOT_SUPPORT | NET_ERR_UNREACH | NET_ERR_CHKSUM | NET_ERR_FORMAT

fun net_err_code :: "net_err \<Rightarrow> int" where
  "net_err_code NET_ERR_OK = 0"
| "net_err_code NET_ERR_SYS = -1"
| "net_err_code NET_ERR_MEM = -2"
| "net_err_code NET_ERR_FULL = -3"
| "net_err_code NET_ERR_TMO = -4"
| "net_err_code NET_ERR_NONE = -5"
| "net_err_code NET_ERR_SIZE = -6"
| "net_err_code NET_ERR_PARAM = -7"
| "net_err_code NET_ERR_EXIST = -8"
| "net_err_code NET_ERR_STATE = -9"
| "net_err_code NET_ERR_IO = -10"
| "net_err_code NET_ERR_NOT_SUPPORT = -11"
| "net_err_code NET_ERR_UNREACH = -14"
| "net_err_code NET_ERR_CHKSUM = -15"
| "net_err_code NET_ERR_FORMAT = -28"

text \<open>The test \<^verbatim>\<open>err < 0\<close> of the sources.\<close>

definition is_err :: "net_err \<Rightarrow> bool" where
  "is_err e \<longleftrightarrow> net_err_code e < 0"

lemma is_err_iff [simp]: "is_err e \<longleftrightarrow> e \<noteq> NET_ERR_OK"
  by (cases e) (simp_all add: is_err_def)

lemma net_err_code_inj [simp]: "net_err_code a = net_err_code b \<longleftrightarrow> a = b"
  by (cases a; cases b) simp_all


section \<open>Total correctness\<close>

text \<open>The computation returns, with a result that satisfies \<open>P\<close>.\<close>

definition post :: "'a option \<Rightarrow> ('a \<Rightarrow> bool) \<Rightarrow> bool" where
  "post m P \<longleftrightarrow> (case m of None \<Rightarrow> False | Some x \<Rightarrow> P x)"

lemma post_simps [simp]: "post (Some x) P \<longleftrightarrow> P x" "\<not> post None P"
  by (simp_all add: post_def)

lemma post_bind [simp]: "post (m \<bind> f) P \<longleftrightarrow> post m (\<lambda>x. post (f x) P)"
  by (cases m) simp_all

lemma post_if [simp]: "post (if c then a else b) P \<longleftrightarrow> (if c then post a P else post b P)"
  by simp

lemma post_mono: "post m P \<Longrightarrow> (\<And>x. P x \<Longrightarrow> R x) \<Longrightarrow> post m R"
  by (cases m) simp_all

lemma post_ifI: "(c \<Longrightarrow> post m P) \<Longrightarrow> (\<not> c \<Longrightarrow> post m' P) \<Longrightarrow> post (if c then m else m') P"
  by simp

lemma post_pair: "post m (\<lambda>(e, s). P e s) \<Longrightarrow> (\<And>e s. P e s \<Longrightarrow> R (e, s)) \<Longrightarrow> post m R"
  by (cases m) auto

lemma post_bindI: "post m (\<lambda>x. post (f x) P) \<Longrightarrow> post (m \<bind> f) P"
  by simp

lemma post_option: "(x = None \<Longrightarrow> post m P) \<Longrightarrow> (\<And>y. x = Some y \<Longrightarrow> post (f y) P) \<Longrightarrow>
    post (case x of None \<Rightarrow> m | Some y \<Rightarrow> f y) P"
  by (cases x) simp_all

lemma postE: "post m P \<Longrightarrow> (\<And>x. m = Some x \<Longrightarrow> P x \<Longrightarrow> thesis) \<Longrightarrow> thesis"
  by (cases m) simp_all


section \<open>Sleeping\<close>

text \<open>One sleep of a task, with its deadline: what it returns, and the state when it returns.\<close>

type_synonym 's sleep = "u64 \<Rightarrow> 's \<Rightarrow> int \<times> 's"

definition WAIT_FOREVER :: u64 where "WAIT_FOREVER = -1"


section \<open>Writing into arrays\<close>

text \<open>
  \<open>put_at i bs xs\<close> is the array \<open>xs\<close> after the bytes \<open>bs\<close> have been copied to index \<open>i\<close>
  (\<^verbatim>\<open>memcpy(xs + i, bs, n)\<close>); the callers keep \<open>i + length bs \<le> length xs\<close>.
\<close>

definition put_at :: "nat \<Rightarrow> 'a list \<Rightarrow> 'a list \<Rightarrow> 'a list" where
  "put_at i bs xs = take i xs @ bs @ drop (i + length bs) xs"

definition get_at :: "nat \<Rightarrow> nat \<Rightarrow> 'a list \<Rightarrow> 'a list" where
  "get_at i n xs = take n (drop i xs)"

lemma length_put_at [simp, array_simps]:
  "i + length bs \<le> length xs \<Longrightarrow> length (put_at i bs xs) = length xs"
  by (simp add: put_at_def)

lemma length_get_at [simp, array_simps]:
  "i + n \<le> length xs \<Longrightarrow> length (get_at i n xs) = n"
  by (simp add: get_at_def)

lemma put_at_Nil [simp, array_simps]: "put_at i [] xs = xs"
  by (simp add: put_at_def)

lemma get_at_0 [simp, array_simps]: "get_at i 0 xs = []"
  by (simp add: get_at_def)

lemma get_at_put_at_same [simp, array_simps]:
  "i + length bs \<le> length xs \<Longrightarrow> get_at i (length bs) (put_at i bs xs) = bs"
  by (simp add: get_at_def put_at_def)

lemma nth_put_at:
  "i + length bs \<le> length xs \<Longrightarrow> k < length xs \<Longrightarrow>
   put_at i bs xs ! k = (if k < i then xs ! k else if k < i + length bs then bs ! (k - i) else xs ! k)"
  by (auto simp: put_at_def nth_append)

lemma nth_get_at [simp]: "k < n \<Longrightarrow> i + n \<le> length xs \<Longrightarrow> get_at i n xs ! k = xs ! (i + k)"
  by (simp add: get_at_def)

lemma put_at_append_left:
  "i + length bs \<le> length xs \<Longrightarrow> put_at i bs (xs @ ys) = put_at i bs xs @ ys"
  by (simp add: put_at_def)

lemma put_at_append_right:
  "length xs \<le> i \<Longrightarrow> put_at i bs (xs @ ys) = xs @ put_at (i - length xs) bs ys"
  by (simp add: put_at_def)

lemma put_at_append_mid:
  "length xs = i + length bs \<Longrightarrow> put_at i (bs @ cs) (xs @ ys) = put_at i bs xs @ put_at 0 cs ys"
  by (simp add: put_at_def)

lemma put_at_put_at_append:
  "i + length bs + length cs \<le> length xs \<Longrightarrow>
   put_at (i + length bs) cs (put_at i bs xs) = put_at i (bs @ cs) xs"
  by (simp add: put_at_def add.commute add.left_commute)

lemma get_at_append_left: "i + n \<le> length xs \<Longrightarrow> get_at i n (xs @ ys) = get_at i n xs"
  by (simp add: get_at_def)

lemma get_at_append_right: "length xs \<le> i \<Longrightarrow> get_at i n (xs @ ys) = get_at (i - length xs) n ys"
  by (simp add: get_at_def)

lemma get_at_add: "get_at i (m + n) xs = get_at i m xs @ get_at (i + m) n xs"
  by (simp add: get_at_def take_add add.commute)

lemma get_at_put_at_disjoint_before:
  "j + n \<le> i \<Longrightarrow> i + length bs \<le> length xs \<Longrightarrow> get_at j n (put_at i bs xs) = get_at j n xs"
  by (rule nth_equalityI) (simp_all add: nth_put_at)

lemma get_at_put_at_disjoint_after:
  "i + length bs \<le> j \<Longrightarrow> j + n \<le> length xs \<Longrightarrow> get_at j n (put_at i bs xs) = get_at j n xs"
  by (rule nth_equalityI) (simp_all add: nth_put_at)

lemma get_at_put_at_inside:
  "d \<le> i \<Longrightarrow> i + length bs \<le> d + n \<Longrightarrow> d + n \<le> length xs \<Longrightarrow>
   get_at d n (put_at i bs xs) = put_at (i - d) bs (get_at d n xs)"
  by (rule nth_equalityI) (auto simp: nth_put_at add.commute)

lemma put_at_full: "length bs = length xs \<Longrightarrow> put_at 0 bs xs = bs"
  by (simp add: put_at_def)

lemma concat_update_split:
  "i < length xs \<Longrightarrow> concat (xs[i := y]) = concat (take i xs) @ y @ concat (drop (Suc i) xs)"
  by (simp add: upd_conv_take_nth_drop)

lemma concat_split:
  "i < length xs \<Longrightarrow> concat xs = concat (take i xs) @ xs ! i @ concat (drop (Suc i) xs)"
  using concat_update_split [of i xs "xs ! i"] by simp


section \<open>First index with a property\<close>

text \<open>
  The search loops \<^verbatim>\<open>for (i = 0; i < n; i++) if (p(i)) return i;\<close> over a table are all
  the same function: the index of the first entry that satisfies the test, if there is one.
\<close>

fun find_index :: "('a \<Rightarrow> bool) \<Rightarrow> 'a list \<Rightarrow> nat option" where
  "find_index p [] = None"
| "find_index p (x # xs) = (if p x then Some 0 else map_option Suc (find_index p xs))"

lemma find_index_None [simp]: "find_index p xs = None \<longleftrightarrow> (\<forall>x\<in>set xs. \<not> p x)"
  by (induction xs) auto

lemma find_index_Some:
  "find_index p xs = Some i \<longleftrightarrow> i < length xs \<and> p (xs ! i) \<and> (\<forall>j<i. \<not> p (xs ! j))"
proof (induction xs arbitrary: i)
  case Nil
  then show ?case by simp
next
  case (Cons x xs)
  show ?case
    by (cases i) (auto simp: Cons less_Suc_eq_0_disj nth_Cons split: nat.splits)
qed

lemma find_index_SomeD:
  assumes "find_index p xs = Some i"
  shows "i < length xs" and "p (xs ! i)"
  using assms by (simp_all add: find_index_Some)

lemma find_index_exists: "x \<in> set xs \<Longrightarrow> p x \<Longrightarrow> \<exists>i. find_index p xs = Some i"
  by (cases "find_index p xs") auto

lemma find_index_filter: "find_index p xs = None \<longleftrightarrow> filter p xs = []"
  by (simp add: filter_empty_conv)

end
