(* ===== verification/Virtqueue.thy ===== *)
theory Virtqueue
  imports Net_Prelude "HOL-Library.Multiset"
begin

text \<open>
  The split virtqueue of \<^verbatim>\<open>kernel/src/virtqueue.c\<close>. The pages shared with the device are the fields \<open>vq_desc\<close>,
  \<open>vq_avail_idx\<close>, \<open>vq_avail_ring\<close> (written by the driver) and \<open>vq_dev_idx\<close>, \<open>vq_used_ring\<close> (written by the
  device); the remaining fields are the driver's own. Indices of both rings are \<open>u16\<close> and wrap.
\<close>

record virtq_desc =
  vd_addr :: u64
  vd_len :: u32
  vd_flags :: u16
  vd_next :: u16

record virtq_used_elem =
  ue_id :: u32
  ue_len :: u32

record virtqueue =
  vq_desc :: "virtq_desc list"
  vq_avail_idx :: u16
  vq_avail_ring :: "u16 list"
  vq_dev_idx :: u16
  vq_used_ring :: "virtq_used_elem list"
  vq_free :: "bool list"
  vq_active :: "bool list"
  vq_used_idx :: u16
  vq_free_count :: u16

definition VIRTQ_NUM :: nat where "VIRTQ_NUM = 8"
definition VIRTQ_PAGE_SIZE :: u64 where "VIRTQ_PAGE_SIZE = 4096"
definition VRING_DESC_F_NEXT :: u16 where "VRING_DESC_F_NEXT = 1"
definition VRING_DESC_F_WRITE :: u16 where "VRING_DESC_F_WRITE = 2"

definition desc_zero :: virtq_desc where
  "desc_zero = \<lparr>vd_addr = 0, vd_len = 0, vd_flags = 0, vd_next = 0\<rparr>"


section \<open>The operations\<close>

text \<open>\<open>pages\<close> is the address of the two pages; the result is \<open>Some\<close> queue where the code returns 0.\<close>

definition virtq_init :: "virtqueue option \<Rightarrow> u64 option \<Rightarrow> u16 \<Rightarrow> int \<times> virtqueue option" where
  "virtq_init q pages num =
     (case (q, pages) of
        (Some _, Some pg) \<Rightarrow>
          if num \<noteq> of_nat VIRTQ_NUM \<or> pg AND (VIRTQ_PAGE_SIZE - 1) \<noteq> 0 then (-1, q)
          else (0, Some \<lparr>vq_desc = replicate VIRTQ_NUM desc_zero, vq_avail_idx = 0, vq_avail_ring = replicate VIRTQ_NUM 0,
                  vq_dev_idx = 0, vq_used_ring = replicate VIRTQ_NUM \<lparr>ue_id = 0, ue_len = 0\<rparr>,
                  vq_free = replicate VIRTQ_NUM True, vq_active = replicate VIRTQ_NUM False,
                  vq_used_idx = 0, vq_free_count = of_nat VIRTQ_NUM\<rparr>)
      | _ \<Rightarrow> (-1, q))"

definition upd_desc :: "nat \<Rightarrow> (virtq_desc \<Rightarrow> virtq_desc) \<Rightarrow> virtqueue \<Rightarrow> virtqueue" where
  "upd_desc i f q = q\<lparr>vq_desc := (vq_desc q)[i := f (vq_desc q ! i)]\<rparr>"

definition alloc_desc :: "virtqueue \<Rightarrow> nat option \<times> virtqueue" where
  "alloc_desc q =
     (case find_index (\<lambda>b. b) (vq_free q) of
        None \<Rightarrow> (None, q)
      | Some i \<Rightarrow> (Some i, upd_desc i (\<lambda>_. desc_zero)
                    (q\<lparr>vq_free := (vq_free q)[i := False], vq_free_count := vq_free_count q - 1\<rparr>)))"

definition release_desc :: "nat \<Rightarrow> virtqueue \<Rightarrow> virtqueue" where
  "release_desc i q =
     (let q = upd_desc i (\<lambda>_. desc_zero) q
      in q\<lparr>vq_free := (vq_free q)[i := True], vq_free_count := vq_free_count q + 1\<rparr>)"

fun release_list :: "nat list \<Rightarrow> virtqueue \<Rightarrow> virtqueue" where
  "release_list [] q = q"
| "release_list (i # is) q = release_list is (release_desc i q)"

text \<open>The loop of \<^verbatim>\<open>virtq_alloc_chain\<close>: \<open>n\<close> descriptors to go, \<open>done\<close> have been allocated.\<close>

fun alloc_chain_loop :: "nat \<Rightarrow> nat list \<Rightarrow> virtqueue \<Rightarrow> nat list option \<times> virtqueue" where
  "alloc_chain_loop 0 done q = (Some done, q)"
| "alloc_chain_loop (Suc n) done q =
     (case alloc_desc q of
        (None, q) \<Rightarrow> (None, release_list done q)
      | (Some i, q) \<Rightarrow>
          let q = (if done = [] then q
                   else upd_desc (last done) (\<lambda>d. d\<lparr>vd_flags := vd_flags d OR VRING_DESC_F_NEXT, vd_next := of_nat i\<rparr>) q)
          in alloc_chain_loop n (done @ [i]) q)"

text \<open>The result of the C function is 0 with the indices stored through \<^verbatim>\<open>indices\<close> (\<open>Some\<close>), or -1 (\<open>None\<close>).\<close>

definition virtq_alloc_chain :: "int \<Rightarrow> virtqueue \<Rightarrow> nat list option \<times> virtqueue" where
  "virtq_alloc_chain cnt q =
     (if cnt < 1 \<or> cnt > int VIRTQ_NUM then (None, q) else alloc_chain_loop (nat cnt) [] q)"

text \<open>The walk of \<^verbatim>\<open>virtq_free_chain\<close>: \<open>chain\<close> are the descriptors seen so far, in order.\<close>

function free_chain_loop :: "u16 \<Rightarrow> nat list \<Rightarrow> virtqueue \<Rightarrow> nat list option" where
  "free_chain_loop index chain q =
     (if unat index \<ge> VIRTQ_NUM \<or> vq_free q ! unat index \<or> unat index \<in> set chain \<or> length chain \<ge> VIRTQ_NUM then None
      else if vd_flags (vq_desc q ! unat index) AND VRING_DESC_F_NEXT = 0 then Some (chain @ [unat index])
      else free_chain_loop (vd_next (vq_desc q ! unat index)) (chain @ [unat index]) q)"
  by pat_completeness auto
termination
  by (relation "measure (\<lambda>(_, chain, _). VIRTQ_NUM - length chain)") auto

declare free_chain_loop.simps [simp del]

definition virtq_free_chain :: "u16 \<Rightarrow> virtqueue \<Rightarrow> int \<times> virtqueue" where
  "virtq_free_chain head q =
     (if unat head \<ge> VIRTQ_NUM \<or> vq_free q ! unat head \<or> vq_active q ! unat head then (-1, q)
      else case free_chain_loop head [] q of
        None \<Rightarrow> (-1, q)
      | Some chain \<Rightarrow> (int (length chain), release_list chain q))"

definition virtq_submit :: "u16 \<Rightarrow> virtqueue \<Rightarrow> virtqueue" where
  "virtq_submit head q =
     (if unat head \<ge> VIRTQ_NUM \<or> vq_free q ! unat head \<or> vq_active q ! unat head then q
      else q\<lparr>vq_active := (vq_active q)[unat head := True],
             vq_avail_ring := (vq_avail_ring q)[unat (vq_avail_idx q) mod VIRTQ_NUM := head],
             vq_avail_idx := vq_avail_idx q + 1\<rparr>)"

text \<open>The result, with what is stored through \<^verbatim>\<open>head\<close> and \<^verbatim>\<open>length\<close> when it is 1.\<close>

definition virtq_pop_used_len :: "virtqueue \<Rightarrow> int \<times> (u16 \<times> u32) option \<times> virtqueue" where
  "virtq_pop_used_len q =
     (if vq_used_idx q = vq_dev_idx q then (0, None, q)
      else
        let used = vq_used_ring q ! (unat (vq_used_idx q) mod VIRTQ_NUM);
            q = q\<lparr>vq_used_idx := vq_used_idx q + 1\<rparr>
        in if unat (ue_id used) \<ge> VIRTQ_NUM then (-1, None, q)
           else if \<not> vq_active q ! unat (ue_id used) then (-1, None, q)
           else (1, Some (ucast (ue_id used), ue_len used), q\<lparr>vq_active := (vq_active q)[unat (ue_id used) := False]\<rparr>))"

definition virtq_pop_used :: "virtqueue \<Rightarrow> int \<times> u16 option \<times> virtqueue" where
  "virtq_pop_used q = (let (r, out, q) = virtq_pop_used_len q in (r, map_option fst out, q))"

definition virtq_free_count :: "virtqueue option \<Rightarrow> int" where
  "virtq_free_count q = (case q of None \<Rightarrow> -1 | Some q \<Rightarrow> uint (vq_free_count q))"


section \<open>Invariant\<close>

definition free_set :: "virtqueue \<Rightarrow> nat set" where
  "free_set q = {i. i < VIRTQ_NUM \<and> vq_free q ! i}"

definition active_set :: "virtqueue \<Rightarrow> nat set" where
  "active_set q = {i. i < VIRTQ_NUM \<and> vq_active q ! i}"

definition vq_inv :: "virtqueue \<Rightarrow> bool" where
  "vq_inv q \<longleftrightarrow> length (vq_desc q) = VIRTQ_NUM \<and> length (vq_avail_ring q) = VIRTQ_NUM \<and>
     length (vq_free q) = VIRTQ_NUM \<and> length (vq_active q) = VIRTQ_NUM \<and>
     vq_free_count q = of_nat (card (free_set q)) \<and> free_set q \<inter> active_set q = {} \<and>
     (\<forall>i\<in>free_set q. vq_desc q ! i = desc_zero)"

lemma finite_free_set [simp]: "finite (free_set q)"
  by (simp add: free_set_def)

lemma VIRTQ_NUM_u16 [simp]: "i < VIRTQ_NUM \<Longrightarrow> unat (of_nat i :: u16) = i"
  by (simp add: VIRTQ_NUM_def unat_of_nat take_bit_nat_eq_self)

lemma virtq_init_inv: "virtq_init q pages num = (0, Some q') \<Longrightarrow> vq_inv q' \<and> free_set q' = {..<VIRTQ_NUM} \<and> active_set q' = {}"
proof -
  assume "virtq_init q pages num = (0, Some q')"
  then have q': "vq_free q' = replicate VIRTQ_NUM True" "vq_active q' = replicate VIRTQ_NUM False" "vq_desc q' = replicate VIRTQ_NUM desc_zero"
    "vq_avail_ring q' = replicate VIRTQ_NUM 0" "vq_free_count q' = of_nat VIRTQ_NUM"
    by (auto simp: virtq_init_def split: option.splits if_splits)
  have "free_set q' = {..<VIRTQ_NUM}" by (auto simp: free_set_def q')
  moreover have "active_set q' = {}" by (auto simp: active_set_def q')
  ultimately show ?thesis by (auto simp: vq_inv_def q')
qed

lemma alloc_desc_spec:
  assumes "vq_inv q"
  shows "free_set q = {} \<Longrightarrow> alloc_desc q = (None, q)"
    and "free_set q \<noteq> {} \<Longrightarrow> \<exists>i. i \<in> free_set q \<and>
      alloc_desc q = (Some i, q\<lparr>vq_free := (vq_free q)[i := False], vq_free_count := vq_free_count q - 1\<rparr>)"
proof -
  from assms have len: "length (vq_free q) = VIRTQ_NUM" "length (vq_desc q) = VIRTQ_NUM" by (simp_all add: vq_inv_def)
  show "alloc_desc q = (None, q)" if "free_set q = {}"
    using that len by (auto simp: alloc_desc_def free_set_def in_set_conv_nth split: option.split dest: find_index_SomeD)
  show "\<exists>i. i \<in> free_set q \<and> alloc_desc q = (Some i, q\<lparr>vq_free := (vq_free q)[i := False], vq_free_count := vq_free_count q - 1\<rparr>)"
    if ne: "free_set q \<noteq> {}"
  proof -
    from ne obtain j where "j < VIRTQ_NUM" "vq_free q ! j" by (auto simp: free_set_def)
    then have "True \<in> set (vq_free q)" using nth_mem [of j "vq_free q"] len by simp
    then obtain i where i: "find_index (\<lambda>b. b) (vq_free q) = Some i"
      using find_index_exists [of True "vq_free q" "\<lambda>b. b"] by blast
    from find_index_SomeD [OF i] len have free: "i \<in> free_set q" by (simp add: free_set_def)
    then have "vq_desc q ! i = desc_zero" using assms by (simp add: vq_inv_def)
    then have "(vq_desc q)[i := desc_zero] = vq_desc q" by (metis list_update_id)
    with i free show ?thesis by (auto simp: alloc_desc_def upd_desc_def)
  qed
qed

text \<open>Taking descriptor \<open>i\<close> out of the free ones, and putting it back.\<close>

definition take_desc :: "nat \<Rightarrow> virtqueue \<Rightarrow> virtqueue" where
  "take_desc i q = q\<lparr>vq_free := (vq_free q)[i := False], vq_free_count := vq_free_count q - 1\<rparr>"

lemma take_desc_inv:
  assumes "vq_inv q" and "i \<in> free_set q"
  shows "vq_inv (take_desc i q)" and "free_set (take_desc i q) = free_set q - {i}" and "active_set (take_desc i q) = active_set q"
proof -
  from assms have len: "length (vq_free q) = VIRTQ_NUM" by (simp add: vq_inv_def)
  have eq: "vq_desc (take_desc i q) = vq_desc q" "vq_free (take_desc i q) = (vq_free q)[i := False]"
    "vq_free_count (take_desc i q) = vq_free_count q - 1"
    "vq_avail_ring (take_desc i q) = vq_avail_ring q" "vq_active (take_desc i q) = vq_active q"
    by (simp_all add: take_desc_def)
  have "(vq_free q)[i := False] ! j \<longleftrightarrow> vq_free q ! j \<and> j \<noteq> i" if "j < VIRTQ_NUM" for j
    using that len assms(2) by (auto simp: nth_list_update free_set_def)
  then show f: "free_set (take_desc i q) = free_set q - {i}" by (auto simp: free_set_def eq)
  show a: "active_set (take_desc i q) = active_set q" by (simp add: active_set_def eq)
  have "card (free_set q) = Suc (card (free_set q - {i}))" using card_Suc_Diff1 [OF finite_free_set assms(2)] by simp
  then have "vq_free_count (take_desc i q) = of_nat (card (free_set q - {i}))"
    using assms(1) by (simp add: vq_inv_def eq)
  then show "vq_inv (take_desc i q)"
    using assms(1) f a by (auto simp: vq_inv_def eq)
qed

lemma upd_desc_simps [simp]:
  "free_set (upd_desc i f q) = free_set q" "active_set (upd_desc i f q) = active_set q"
  "length (vq_desc (upd_desc i f q)) = length (vq_desc q)"
  "vq_free (upd_desc i f q) = vq_free q" "vq_active (upd_desc i f q) = vq_active q"
  by (simp_all add: free_set_def active_set_def upd_desc_def)

lemma upd_desc_inv: "vq_inv q \<Longrightarrow> i \<notin> free_set q \<Longrightarrow> vq_inv (upd_desc i f q)"
  by (auto simp: vq_inv_def) (auto simp: upd_desc_def, metis nth_list_update_neq)

lemma release_desc_inv:
  assumes "vq_inv q" and "i < VIRTQ_NUM" and "i \<notin> free_set q" and "i \<notin> active_set q"
  shows "vq_inv (release_desc i q)" and "free_set (release_desc i q) = insert i (free_set q)"
    and "active_set (release_desc i q) = active_set q"
proof -
  from assms have len: "length (vq_free q) = VIRTQ_NUM" "length (vq_desc q) = VIRTQ_NUM" by (simp_all add: vq_inv_def)
  show f: "free_set (release_desc i q) = insert i (free_set q)"
    using len assms(2) by (auto simp: free_set_def release_desc_def nth_list_update upd_desc_def)
  show a: "active_set (release_desc i q) = active_set q" by (simp add: active_set_def release_desc_def upd_desc_def)
  show "vq_inv (release_desc i q)"
    using assms f a len by (auto simp: vq_inv_def) (auto simp: release_desc_def upd_desc_def nth_list_update)
qed


section \<open>Chains\<close>

text \<open>The descriptors \<open>is\<close> are linked in this order, the last one ends the chain.\<close>

fun linked :: "virtqueue \<Rightarrow> nat list \<Rightarrow> bool" where
  "linked q [] = False"
| "linked q [i] \<longleftrightarrow> vd_flags (vq_desc q ! i) AND VRING_DESC_F_NEXT = 0"
| "linked q (i # j # is) \<longleftrightarrow> vd_flags (vq_desc q ! i) AND VRING_DESC_F_NEXT \<noteq> 0 \<and> vd_next (vq_desc q ! i) = of_nat j \<and>
     linked q (j # is)"

lemma linked_cong: "(\<And>i. i \<in> set is \<Longrightarrow> vq_desc q ! i = vq_desc q' ! i) \<Longrightarrow> linked q is = linked q' is"
  by (induction q "is" rule: linked.induct) auto

lemma linked_snoc:
  assumes "linked q is" and "distinct (is @ [i])" and "set (is @ [i]) \<subseteq> {..<VIRTQ_NUM}" and "length (vq_desc q) = VIRTQ_NUM"
    and "vd_flags (vq_desc q ! i) AND VRING_DESC_F_NEXT = 0"
  shows "linked (upd_desc (last is) (\<lambda>d. d\<lparr>vd_flags := vd_flags d OR VRING_DESC_F_NEXT, vd_next := of_nat i\<rparr>) q) (is @ [i])"
  using assms
proof (induction q "is" rule: linked.induct)
  case (2 q j)
  then show ?case by (auto simp: upd_desc_def nth_list_update VRING_DESC_F_NEXT_def)
next
  case (3 q j k "is")
  have "last (k # is) \<in> set (k # is)" by (rule last_in_set) simp
  then have "last (k # is) \<noteq> j" using 3(3) by auto
  with 3 show ?case by (simp add: upd_desc_def)
qed simp


text \<open>\<open>q\<close> is \<open>q0\<close> with the descriptors \<open>is\<close> allocated.\<close>

definition vq_taken :: "virtqueue \<Rightarrow> nat list \<Rightarrow> virtqueue \<Rightarrow> bool" where
  "vq_taken q0 is q \<longleftrightarrow> vq_inv q0 \<and> vq_inv q \<and> distinct is \<and> set is \<subseteq> free_set q0 \<and> free_set q = free_set q0 - set is \<and>
     (\<exists>d f. q = q0\<lparr>vq_desc := d, vq_free := f, vq_free_count := vq_free_count q0 - of_nat (length is)\<rparr>) \<and>
     (\<forall>j<VIRTQ_NUM. j \<notin> set is \<longrightarrow> vq_desc q ! j = vq_desc q0 ! j)"

lemma vq_taken_Nil: "vq_taken q0 [] q \<longleftrightarrow> vq_inv q0 \<and> q = q0"
proof
  assume t: "vq_taken q0 [] q"
  then obtain d f where q: "q = q0\<lparr>vq_desc := d, vq_free := f, vq_free_count := vq_free_count q0\<rparr>" by (auto simp: vq_taken_def)
  have "d = vq_desc q0" using t by (intro nth_equalityI) (auto simp: vq_taken_def vq_inv_def q)
  moreover have "f = vq_free q0"
    using t by (intro nth_equalityI) (auto simp: vq_taken_def vq_inv_def q free_set_def)
  ultimately show "vq_inv q0 \<and> q = q0" using t q by (simp add: vq_taken_def)
next
  have "q0 = q0\<lparr>vq_desc := vq_desc q0, vq_free := vq_free q0, vq_free_count := vq_free_count q0 - of_nat (length [])\<rparr>" by simp
  then show "vq_inv q0 \<and> q = q0 \<Longrightarrow> vq_taken q0 [] q" unfolding vq_taken_def by (metis Diff_empty distinct.simps(1) empty_subsetI list.set(1))
qed

lemma vq_taken_active: "vq_taken q0 is q \<Longrightarrow> active_set q = active_set q0"
  by (auto simp: vq_taken_def active_set_def)

lemma vq_taken_inv: "vq_taken q0 is q \<Longrightarrow> vq_inv q"
  by (simp add: vq_taken_def)

lemma vq_taken_snoc:
  assumes "vq_taken q0 is q" and "i \<in> free_set q"
  shows "vq_taken q0 (is @ [i]) (take_desc i q)"
proof -
  from assms(1) obtain d f where q: "q = q0\<lparr>vq_desc := d, vq_free := f, vq_free_count := vq_free_count q0 - of_nat (length is)\<rparr>"
    by (auto simp: vq_taken_def)
  have "take_desc i q = q0\<lparr>vq_desc := d, vq_free := f[i := False], vq_free_count := vq_free_count q0 - of_nat (length (is @ [i]))\<rparr>"
    by (simp add: take_desc_def q)
  moreover have "vq_desc (take_desc i q) = vq_desc q" by (simp add: take_desc_def)
  ultimately show ?thesis
    using assms take_desc_inv [of q i] by (auto simp: vq_taken_def)
qed

lemma vq_taken_upd:
  assumes "vq_taken q0 is q" and "i \<in> set is"
  shows "vq_taken q0 is (upd_desc i f q)"
proof -
  from assms(1) obtain d g where q: "q = q0\<lparr>vq_desc := d, vq_free := g, vq_free_count := vq_free_count q0 - of_nat (length is)\<rparr>"
    by (auto simp: vq_taken_def)
  have "\<exists>d g. upd_desc i f q = q0\<lparr>vq_desc := d, vq_free := g, vq_free_count := vq_free_count q0 - of_nat (length is)\<rparr>"
    by (rule exI [of _ "d[i := f (d ! i)]"], rule exI [of _ g]) (simp add: upd_desc_def q)
  moreover have "vq_inv (upd_desc i f q)" using assms by (intro upd_desc_inv) (auto simp: vq_taken_def)
  moreover have "\<forall>j<VIRTQ_NUM. j \<notin> set is \<longrightarrow> vq_desc (upd_desc i f q) ! j = vq_desc q ! j"
    using assms(2) by (simp add: upd_desc_def) (metis nth_list_update_neq)
  ultimately show ?thesis using assms by (simp add: vq_taken_def)
qed

lemma vq_taken_release_head:
  assumes "vq_taken q0 (i # is) q"
  shows "vq_taken q0 is (release_desc i q)"
proof -
  from assms obtain d f where q: "q = q0\<lparr>vq_desc := d, vq_free := f, vq_free_count := vq_free_count q0 - of_nat (length (i # is))\<rparr>"
    by (auto simp: vq_taken_def)
  from assms have i: "i < VIRTQ_NUM" "i \<notin> free_set q" "i \<in> free_set q0" "vq_inv q" "vq_inv q0" by (auto simp: vq_taken_def free_set_def)
  then have "i \<notin> active_set q" using vq_taken_active [OF assms] by (auto simp: vq_inv_def)
  note r = release_desc_inv [OF i(4,1,2) this]
  have "release_desc i q = q0\<lparr>vq_desc := d[i := desc_zero], vq_free := f[i := True],
      vq_free_count := vq_free_count q0 - of_nat (length is)\<rparr>"
    by (simp add: release_desc_def upd_desc_def q Let_def)
  moreover have "\<forall>j<VIRTQ_NUM. j \<notin> set is \<longrightarrow> vq_desc (release_desc i q) ! j = vq_desc q0 ! j"
  proof (intro allI impI)
    fix j assume j: "j < VIRTQ_NUM" "j \<notin> set is"
    have "vq_desc (release_desc i q) = (vq_desc q)[i := desc_zero]" by (simp add: release_desc_def upd_desc_def Let_def)
    moreover have "length (vq_desc q) = VIRTQ_NUM" "vq_desc q0 ! i = desc_zero" using i by (simp_all add: vq_inv_def)
    ultimately show "vq_desc (release_desc i q) ! j = vq_desc q0 ! j"
      using j i(1) assms by (cases "j = i") (auto simp: vq_taken_def)
  qed
  ultimately show ?thesis using assms r i by (auto simp: vq_taken_def)
qed

lemma vq_taken_release: "vq_taken q0 is q \<Longrightarrow> release_list is q = q0"
  by (induction "is" arbitrary: q) (auto simp: vq_taken_Nil dest: vq_taken_release_head)

lemma alloc_chain_loop_spec:
  assumes "vq_taken q0 done q" and "done = [] \<or> linked q done" and "alloc_chain_loop n done q = (r, q')"
  shows "case r of None \<Rightarrow> card (free_set q) < n \<and> q' = q0
    | Some is \<Rightarrow> n \<le> card (free_set q) \<and> vq_taken q0 is q' \<and> length is = length done + n \<and> (is = [] \<or> linked q' is)"
  using assms
proof (induction n "done" q arbitrary: r q' rule: alloc_chain_loop.induct)
  case (2 n "done" q)
  from 2(2) have inv: "vq_inv q" by (simp add: vq_taken_def)
  show ?case
  proof (cases "free_set q = {}")
    case True
    with 2(4) alloc_desc_spec(1) [OF inv] vq_taken_release [OF 2(2)] show ?thesis by auto
  next
    case False
    from alloc_desc_spec(2) [OF inv False] obtain i where i: "i \<in> free_set q" "alloc_desc q = (Some i, take_desc i q)"
      by (auto simp: take_desc_def)
    define q1 where "q1 = (if done = [] then take_desc i q else upd_desc (last done)
      (\<lambda>d. d\<lparr>vd_flags := vd_flags d OR VRING_DESC_F_NEXT, vd_next := of_nat i\<rparr>) (take_desc i q))"
    note t = vq_taken_snoc [OF 2(2) i(1)]
    have t1: "vq_taken q0 (done @ [i]) q1" using t vq_taken_upd [OF t, of "last done"] by (auto simp: q1_def)
    have z: "vq_desc (take_desc i q) = vq_desc q" "vq_desc q ! i = desc_zero" "length (vq_desc q) = VIRTQ_NUM"
      using inv i(1) by (simp_all add: take_desc_def vq_inv_def)
    have "linked q1 (done @ [i])"
    proof (cases "done = []")
      case True
      then show ?thesis by (simp add: q1_def z desc_zero_def)
    next
      case d: False
      with 2(3) have "linked (take_desc i q) done" using linked_cong [of "done" "take_desc i q" q] z(1) by simp
      moreover have "set (done @ [i]) \<subseteq> {..<VIRTQ_NUM}" "distinct (done @ [i])" using t by (auto simp: vq_taken_def free_set_def)
      ultimately show ?thesis using linked_snoc [of "take_desc i q" "done" i] z d by (simp add: q1_def desc_zero_def)
    qed
    moreover have "alloc_chain_loop n (done @ [i]) q1 = (r, q')" using 2(4) i(2) by (simp add: q1_def)
    ultimately have IH: "case r of None \<Rightarrow> card (free_set q1) < n \<and> q' = q0
      | Some is \<Rightarrow> n \<le> card (free_set q1) \<and> vq_taken q0 is q' \<and> length is = length (done @ [i]) + n \<and> (is = [] \<or> linked q' is)"
      using 2(1) [OF i(2) [symmetric] refl, of q1] t1 by (simp add: q1_def)
    have "card (free_set q) = Suc (card (free_set q1))"
      using i(1) take_desc_inv(2) [OF inv i(1)] card_Suc_Diff1 [OF finite_free_set i(1)] by (simp add: q1_def)
    with IH show ?thesis by (auto split: option.splits)
  qed
qed auto


lemma free_chain_loop_linked:
  assumes "linked q is" and "distinct (pre @ is)" and "set is \<subseteq> {..<VIRTQ_NUM}" and "length (pre @ is) \<le> VIRTQ_NUM"
    and "set is \<inter> free_set q = {}"
  shows "free_chain_loop (of_nat (hd is)) pre q = Some (pre @ is)"
  using assms
proof (induction q "is" arbitrary: pre rule: linked.induct)
  case (2 q i)
  then show ?case by (subst free_chain_loop.simps) (auto simp: free_set_def)
next
  case (3 q i j "is")
  have "free_chain_loop (of_nat j) (pre @ [i]) q = Some ((pre @ [i]) @ j # is)" using 3 by (auto simp: free_set_def)
  with 3(2-) show ?case by (subst free_chain_loop.simps) (auto simp: free_set_def)
qed simp

lemma vq_taken_free_chain:
  assumes "vq_taken q0 is q" and "linked q is"
  shows "virtq_free_chain (of_nat (hd is)) q = (int (length is), q0)"
proof -
  from assms(2) have ne: "is \<noteq> []" by auto
  from assms(1) have s: "distinct is" "set is \<subseteq> {..<VIRTQ_NUM}" "set is \<inter> free_set q = {}" "set is \<inter> active_set q = {}"
    using vq_taken_active [OF assms(1)] by (auto simp: vq_taken_def free_set_def vq_inv_def)
  then have "length is \<le> VIRTQ_NUM" by (metis card_lessThan card_mono distinct_card finite_lessThan)
  with free_chain_loop_linked [of q "is" "[]"] assms(2) s have "free_chain_loop (of_nat (hd is)) [] q = Some is" by simp
  moreover have "hd is \<in> set is" using ne by simp
  then have "hd is < VIRTQ_NUM" "\<not> vq_free q ! hd is" "\<not> vq_active q ! hd is"
    using s by (auto simp: free_set_def active_set_def)
  ultimately show ?thesis using vq_taken_release [OF assms(1)] by (simp add: virtq_free_chain_def)
qed

lemma virtq_alloc_chain_cases:
  assumes "vq_inv q" and "virtq_alloc_chain n q = (r, q')"
  shows "case r of None \<Rightarrow> (n < 1 \<or> int (card (free_set q)) < n) \<and> q' = q
    | Some is \<Rightarrow> 1 \<le> n \<and> n \<le> int (card (free_set q)) \<and> vq_taken q is q' \<and> int (length is) = n \<and> linked q' is"
proof (cases "n < 1 \<or> n > int VIRTQ_NUM")
  case True
  have "card (free_set q) \<le> VIRTQ_NUM"
    using card_mono [of "{..<VIRTQ_NUM}" "free_set q"] by (auto simp: free_set_def)
  with True assms(2) show ?thesis by (auto simp: virtq_alloc_chain_def split: if_splits)
next
  case False
  then have "alloc_chain_loop (nat n) [] q = (r, q')" using assms(2) by (simp add: virtq_alloc_chain_def)
  from alloc_chain_loop_spec [OF _ _ this, of q] assms(1) have "case r of None \<Rightarrow> card (free_set q) < nat n \<and> q' = q
    | Some is \<Rightarrow> nat n \<le> card (free_set q) \<and> vq_taken q is q' \<and> length is = nat n \<and> (is = [] \<or> linked q' is)"
    by (cases r) (simp_all add: vq_taken_Nil)
  with False show ?thesis by (cases r) auto
qed


section \<open>Completions\<close>

text \<open>A run of the driver against a device that may write anything at any time into its part of the shared pages.
  \<open>sub\<close> are the heads submitted so far, \<open>got\<close> those popped.\<close>

inductive vq_run :: "virtqueue \<Rightarrow> u16 multiset \<Rightarrow> u16 multiset \<Rightarrow> bool" where
  run_init: "virtq_init (Some q0) (Some pages) (of_nat VIRTQ_NUM) = (0, Some q) \<Longrightarrow> vq_run q {#} {#}"
| run_device: "vq_run q sub got \<Longrightarrow> vq_run (q\<lparr>vq_dev_idx := i, vq_used_ring := ring\<rparr>) sub got"
| run_alloc: "vq_run q sub got \<Longrightarrow> virtq_alloc_chain n q = (r, q') \<Longrightarrow> vq_run q' sub got"
| run_free: "vq_run q sub got \<Longrightarrow> virtq_free_chain head q = (r, q') \<Longrightarrow> free_set q' \<inter> active_set q = {} \<Longrightarrow>
    vq_run q' sub got"
| run_submit: "vq_run q sub got \<Longrightarrow> unat head < VIRTQ_NUM \<Longrightarrow> unat head \<notin> free_set q \<union> active_set q \<Longrightarrow>
    vq_run (virtq_submit head q) (add_mset head sub) got"
| run_pop: "vq_run q sub got \<Longrightarrow> virtq_pop_used_len q = (r, out, q') \<Longrightarrow>
    vq_run q' sub (case out of None \<Rightarrow> got | Some (head, len) \<Rightarrow> add_mset head got)"

lemma release_list_inv:
  assumes "vq_inv q" and "distinct is" and "set is \<subseteq> {..<VIRTQ_NUM}" and "set is \<inter> free_set q = {}" and "set is \<inter> active_set q = {}"
  shows "vq_inv (release_list is q) \<and> active_set (release_list is q) = active_set q"
  using assms
proof (induction "is" arbitrary: q)
  case (Cons i "is")
  then have i: "i < VIRTQ_NUM" "i \<notin> free_set q" "i \<notin> active_set q" by auto
  note r = release_desc_inv [OF Cons.prems(1) i]
  from Cons.prems r Cons.IH [of "release_desc i q"] show ?case by auto
qed simp

lemma release_list_free: "set is \<subseteq> {..<VIRTQ_NUM} \<Longrightarrow> length (vq_free q) = VIRTQ_NUM \<Longrightarrow> set is \<subseteq> free_set (release_list is q)"
proof (induction "is" arbitrary: q)
  case (Cons i "is")
  have mono: "i \<in> free_set q \<Longrightarrow> length (vq_free q) = VIRTQ_NUM \<Longrightarrow> i \<in> free_set (release_list is q)" for q
  proof (induction "is" arbitrary: q)
    case (Cons a as)
    then have "i \<in> free_set (release_desc a q)" "length (vq_free (release_desc a q)) = VIRTQ_NUM"
      by (cases "a = i"; auto simp: release_desc_def free_set_def upd_desc_def Let_def)+
    with Cons.IH show ?case by simp
  qed simp
  have "i \<in> free_set (release_desc i q)" "length (vq_free (release_desc i q)) = VIRTQ_NUM"
    using Cons.prems by (auto simp: release_desc_def free_set_def upd_desc_def Let_def)
  with mono Cons show ?case by auto
qed simp

lemma free_chain_loop_Some:
  assumes "free_chain_loop index chain q = Some is" and "distinct chain" and "set chain \<subseteq> {..<VIRTQ_NUM} - free_set q"
  shows "distinct is" and "set is \<subseteq> {..<VIRTQ_NUM} - free_set q"
proof -
  have "distinct is \<and> set is \<subseteq> {..<VIRTQ_NUM} - free_set q"
    using assms
  proof (induction index chain q rule: free_chain_loop.induct)
    case (1 index chain q)
    from 1(2) have c: "\<not> (unat index \<ge> VIRTQ_NUM \<or> vq_free q ! unat index \<or> unat index \<in> set chain \<or> length chain \<ge> VIRTQ_NUM)"
      by (subst (asm) free_chain_loop.simps) (auto split: if_splits)
    then have d: "distinct (chain @ [unat index])" "set (chain @ [unat index]) \<subseteq> {..<VIRTQ_NUM} - free_set q"
      using 1(3,4) by (auto simp: free_set_def)
    show ?case
    proof (cases "vd_flags (vq_desc q ! unat index) AND VRING_DESC_F_NEXT = 0")
      case True
      with 1(2) c d show ?thesis by (subst (asm) free_chain_loop.simps) auto
    next
      case False
      have "free_chain_loop (vd_next (vq_desc q ! unat index)) (chain @ [unat index]) q = Some is"
        using 1(2) c False by (subst (asm) free_chain_loop.simps) auto
      from 1(1) [OF c False this d] show ?thesis .
    qed
  qed
  then show "distinct is" "set is \<subseteq> {..<VIRTQ_NUM} - free_set q" by blast+
qed

lemma virtq_free_chain_inv:
  assumes "vq_inv q" and "virtq_free_chain head q = (r, q')" and "free_set q' \<inter> active_set q = {}"
  shows "vq_inv q' \<and> active_set q' = active_set q"
proof (cases "q' = q")
  case False
  with assms(2) obtain chain where c: "free_chain_loop head [] q = Some chain" "q' = release_list chain q"
    by (auto simp: virtq_free_chain_def split: if_splits option.splits)
  note d = free_chain_loop_Some [OF c(1)]
  have "set chain \<subseteq> free_set q'" using d release_list_free [of chain q] assms(1) c(2) by (auto simp: vq_inv_def)
  with d assms c(2) show ?thesis by (simp, intro release_list_inv) auto
qed (use assms in simp)

definition heads :: "virtqueue \<Rightarrow> u16 multiset" where
  "heads q = image_mset of_nat (mset_set (active_set q))"

lemma finite_active_set [simp]: "finite (active_set q)"
  by (simp add: active_set_def)

lemma virtq_submit_ok:
  assumes "vq_inv q" and "unat head < VIRTQ_NUM" and "unat head \<notin> free_set q \<union> active_set q"
  shows "vq_inv (virtq_submit head q) \<and> heads (virtq_submit head q) = add_mset head (heads q)"
proof -
  have eq: "virtq_submit head q = q\<lparr>vq_active := (vq_active q)[unat head := True],
      vq_avail_ring := (vq_avail_ring q)[unat (vq_avail_idx q) mod VIRTQ_NUM := head], vq_avail_idx := vq_avail_idx q + 1\<rparr>"
    using assms by (auto simp: virtq_submit_def free_set_def active_set_def)
  from assms(1) have len: "length (vq_active q) = VIRTQ_NUM" by (simp add: vq_inv_def)
  have a: "active_set (virtq_submit head q) = insert (unat head) (active_set q)"
    using len assms(2) by (auto simp: eq active_set_def nth_list_update)
  have f: "free_set (virtq_submit head q) = free_set q" by (simp add: eq free_set_def)
  have "vq_inv (virtq_submit head q)"
    using assms a f by (auto simp: vq_inv_def) (auto simp: eq)
  with a assms(3) show ?thesis by (simp add: heads_def)
qed

lemma virtq_pop_ok:
  assumes "vq_inv q" and "virtq_pop_used_len q = (r, out, q')"
  shows "vq_inv q' \<and> heads q = (case out of None \<Rightarrow> heads q' | Some (head, len) \<Rightarrow> add_mset head (heads q'))"
proof (cases out)
  case None
  with assms(2) obtain i where "q' = q\<lparr>vq_used_idx := i\<rparr> \<or> q' = q"
    by (auto simp: virtq_pop_used_len_def Let_def split: if_splits)
  with assms(1) None show ?thesis by (auto simp: vq_inv_def heads_def free_set_def active_set_def)
next
  case (Some hl)
  define id where "id = ue_id (vq_used_ring q ! (unat (vq_used_idx q) mod VIRTQ_NUM))"
  from assms(2) Some have p: "unat id < VIRTQ_NUM" "vq_active q ! unat id" "fst hl = ucast id"
    "q' = q\<lparr>vq_used_idx := vq_used_idx q + 1, vq_active := (vq_active q)[unat id := False]\<rparr>"
    by (auto simp: virtq_pop_used_len_def Let_def id_def split: if_splits)
  from assms(1) have len: "length (vq_active q) = VIRTQ_NUM" by (simp add: vq_inv_def)
  have a: "active_set q' = active_set q - {unat id}" "unat id \<in> active_set q"
    using p len by (auto simp: active_set_def nth_list_update split: if_splits)
  have f: "free_set q' = free_set q" by (simp add: p free_set_def)
  have "vq_inv q'" using assms(1) a f by (auto simp: vq_inv_def) (auto simp: p)
  moreover have "(of_nat (unat id) :: u16) = ucast id" by (simp add: of_nat_unat)
  ultimately show ?thesis
    using a Some p(3) by (cases hl) (simp add: heads_def mset_set.remove [of "active_set q" "unat id"])
qed

lemma vq_run_inv:
  assumes "vq_run q sub got"
  shows "vq_inv q \<and> sub = got + heads q"
  using assms
proof (induction rule: vq_run.induct)
  case (run_init q0 pages q)
  then show ?case using virtq_init_inv [of "Some q0" "Some pages" _ q] by (simp add: heads_def)
next
  case (run_device q sub got i ring)
  then show ?case by (simp add: vq_inv_def heads_def free_set_def active_set_def)
next
  case (run_alloc q sub got n r q')
  have "active_set q' = active_set q \<and> vq_inv q'"
  proof (cases r)
    case None
    with virtq_alloc_chain_cases [of q n r q'] run_alloc show ?thesis by simp
  next
    case (Some l)
    with virtq_alloc_chain_cases [of q n r q'] run_alloc have "vq_taken q l q'" by simp
    then show ?thesis using vq_taken_active vq_taken_inv by blast
  qed
  with run_alloc show ?case by (simp add: heads_def)
next
  case (run_free q sub got head r q')
  then show ?case using virtq_free_chain_inv [of q head r q'] by (simp add: heads_def)
next
  case (run_submit q sub got head)
  then show ?case using virtq_submit_ok [of q head] by simp
next
  case (run_pop q sub got r out q')
  then show ?case using virtq_pop_ok [of q r out q'] by (cases out) (auto simp: case_prod_beta)
qed

end
