(* ===== verification/Virtio_Mmio.thy ===== *)
theory Virtio_Mmio
  imports Virtqueue
begin

text \<open>
  The register interface of virtio devices, \<^verbatim>\<open>kernel/src/virtio_mmio.c\<close>. The device is hardware: what it answers to a
  read may depend on everything that has been read and written before. \<open>mm_log\<close> is that history, and the
  answers are the functions of \<open>mmio_dev\<close>, an argument of the operations that read.
\<close>

datatype mmio_event = MRead u32 | MRead8 u32 | MWrite u32 u32

record mmio_dev =
  dv_read :: "mmio_event list \<Rightarrow> u32 \<Rightarrow> u32"
  dv_read8 :: "mmio_event list \<Rightarrow> u32 \<Rightarrow> u8"

record virtio_mmio =
  mm_base :: u64
  mm_device_id :: u32
  mm_log :: "mmio_event list"

definition VIRTIO_MMIO_MAGIC_VALUE :: u32 where "VIRTIO_MMIO_MAGIC_VALUE = 0x000"
definition VIRTIO_MMIO_VERSION :: u32 where "VIRTIO_MMIO_VERSION = 0x004"
definition VIRTIO_MMIO_DEVICE_ID :: u32 where "VIRTIO_MMIO_DEVICE_ID = 0x008"
definition VIRTIO_MMIO_VENDOR_ID :: u32 where "VIRTIO_MMIO_VENDOR_ID = 0x00c"
definition VIRTIO_MMIO_DEVICE_FEATURES :: u32 where "VIRTIO_MMIO_DEVICE_FEATURES = 0x010"
definition VIRTIO_MMIO_DRIVER_FEATURES :: u32 where "VIRTIO_MMIO_DRIVER_FEATURES = 0x020"
definition VIRTIO_MMIO_GUEST_PAGE_SIZE :: u32 where "VIRTIO_MMIO_GUEST_PAGE_SIZE = 0x028"
definition VIRTIO_MMIO_QUEUE_SEL :: u32 where "VIRTIO_MMIO_QUEUE_SEL = 0x030"
definition VIRTIO_MMIO_QUEUE_NUM_MAX :: u32 where "VIRTIO_MMIO_QUEUE_NUM_MAX = 0x034"
definition VIRTIO_MMIO_QUEUE_NUM :: u32 where "VIRTIO_MMIO_QUEUE_NUM = 0x038"
definition VIRTIO_MMIO_QUEUE_ALIGN :: u32 where "VIRTIO_MMIO_QUEUE_ALIGN = 0x03c"
definition VIRTIO_MMIO_QUEUE_PFN :: u32 where "VIRTIO_MMIO_QUEUE_PFN = 0x040"
definition VIRTIO_MMIO_QUEUE_NOTIFY :: u32 where "VIRTIO_MMIO_QUEUE_NOTIFY = 0x050"
definition VIRTIO_MMIO_INTERRUPT_STATUS :: u32 where "VIRTIO_MMIO_INTERRUPT_STATUS = 0x060"
definition VIRTIO_MMIO_INTERRUPT_ACK :: u32 where "VIRTIO_MMIO_INTERRUPT_ACK = 0x064"
definition VIRTIO_MMIO_STATUS :: u32 where "VIRTIO_MMIO_STATUS = 0x070"
definition VIRTIO_MMIO_CONFIG :: u32 where "VIRTIO_MMIO_CONFIG = 0x100"

definition VIRTIO_CONFIG_S_ACKNOWLEDGE :: u32 where "VIRTIO_CONFIG_S_ACKNOWLEDGE = 1"
definition VIRTIO_CONFIG_S_DRIVER :: u32 where "VIRTIO_CONFIG_S_DRIVER = 2"
definition VIRTIO_CONFIG_S_DRIVER_OK :: u32 where "VIRTIO_CONFIG_S_DRIVER_OK = 4"
definition VIRTIO_CONFIG_S_FEATURES_OK :: u32 where "VIRTIO_CONFIG_S_FEATURES_OK = 8"


section \<open>The operations\<close>

definition mmio_get :: "'e mmio_dev_scheme \<Rightarrow> u32 \<Rightarrow> virtio_mmio \<Rightarrow> u32 \<times> virtio_mmio" where
  "mmio_get dv off m = (dv_read dv (mm_log m) off, m\<lparr>mm_log := mm_log m @ [MRead off]\<rparr>)"

definition mmio_set :: "u32 \<Rightarrow> u32 \<Rightarrow> virtio_mmio \<Rightarrow> virtio_mmio" where
  "mmio_set off v m = m\<lparr>mm_log := mm_log m @ [MWrite off v]\<rparr>"

text \<open>The identification: the four tests of the first condition, evaluated from left to right.\<close>

definition mmio_identify :: "'e mmio_dev_scheme \<Rightarrow> u32 \<Rightarrow> virtio_mmio \<Rightarrow> bool \<times> virtio_mmio" where
  "mmio_identify dv device_id m =
     (let (v, m) = mmio_get dv VIRTIO_MMIO_MAGIC_VALUE m
      in if v \<noteq> 0x74726976 then (False, m)
         else let (v, m) = mmio_get dv VIRTIO_MMIO_VERSION m
      in if v \<noteq> 1 then (False, m)
         else let (v, m) = mmio_get dv VIRTIO_MMIO_DEVICE_ID m
      in if v \<noteq> device_id then (False, m)
         else let (v, m) = mmio_get dv VIRTIO_MMIO_VENDOR_ID m
      in (v = 0x554d4551, m))"

text \<open>The result and the features stored through \<^verbatim>\<open>negotiated_features\<close>.\<close>

definition virtio_mmio_init ::
  "'e mmio_dev_scheme \<Rightarrow> u64 \<Rightarrow> u32 \<Rightarrow> u32 \<Rightarrow> u32 \<Rightarrow> virtio_mmio option \<Rightarrow>
     int \<times> u32 option \<times> virtio_mmio option" where
  "virtio_mmio_init dv base device_id rejected_features required_features dev =
     (case dev of None \<Rightarrow> (-1, None, None) | Some m \<Rightarrow>
      let m = m\<lparr>mm_base := base, mm_device_id := device_id\<rparr>;
          (ok, m) = mmio_identify dv device_id m
      in if \<not> ok then (-1, None, Some m)
         else
           let status = 0;
               m = mmio_set VIRTIO_MMIO_STATUS status m;
               status = status OR VIRTIO_CONFIG_S_ACKNOWLEDGE;
               m = mmio_set VIRTIO_MMIO_STATUS status m;
               status = status OR VIRTIO_CONFIG_S_DRIVER;
               m = mmio_set VIRTIO_MMIO_STATUS status m;
               (features, m) = mmio_get dv VIRTIO_MMIO_DEVICE_FEATURES m
           in if features AND required_features \<noteq> required_features then (-1, None, Some m)
              else
                let features = features AND NOT rejected_features;
                    m = mmio_set VIRTIO_MMIO_DRIVER_FEATURES features m;
                    status = status OR VIRTIO_CONFIG_S_FEATURES_OK;
                    m = mmio_set VIRTIO_MMIO_STATUS status m;
                    (answer, m) = mmio_get dv VIRTIO_MMIO_STATUS m
                in if answer AND VIRTIO_CONFIG_S_FEATURES_OK = 0 then (-1, None, Some m)
                   else (0, Some features, Some m))"

definition virtio_mmio_setup_queue ::
  "'e mmio_dev_scheme \<Rightarrow> u16 \<Rightarrow> virtqueue option \<Rightarrow> u64 option \<Rightarrow> virtio_mmio option \<Rightarrow>
     int \<times> virtqueue option \<times> virtio_mmio option" where
  "virtio_mmio_setup_queue dv queue vq pages dev =
     (if dev = None \<or> vq = None \<or> pages = None then (-1, vq, dev)
      else
        let m = the dev;
            m = mmio_set VIRTIO_MMIO_GUEST_PAGE_SIZE (ucast VIRTQ_PAGE_SIZE) m;
            m = mmio_set VIRTIO_MMIO_QUEUE_SEL (ucast queue) m;
            (mx, m) = mmio_get dv VIRTIO_MMIO_QUEUE_NUM_MAX m
        in if mx < of_nat VIRTQ_NUM then (-1, vq, Some m)
           else
             let (r, vq) = virtq_init vq pages (of_nat VIRTQ_NUM)
             in if r < 0 then (-1, vq, Some m)
                else
                  let m = mmio_set VIRTIO_MMIO_QUEUE_NUM (of_nat VIRTQ_NUM) m;
                      m = mmio_set VIRTIO_MMIO_QUEUE_ALIGN (ucast VIRTQ_PAGE_SIZE) m;
                      m = mmio_set VIRTIO_MMIO_QUEUE_PFN (ucast (drop_bit 12 (the pages))) m
                  in (0, vq, Some m))"

definition virtio_mmio_driver_ok :: "'e mmio_dev_scheme \<Rightarrow> virtio_mmio \<Rightarrow> virtio_mmio" where
  "virtio_mmio_driver_ok dv m =
     (let (status, m) = mmio_get dv VIRTIO_MMIO_STATUS m
      in mmio_set VIRTIO_MMIO_STATUS (status OR VIRTIO_CONFIG_S_DRIVER_OK) m)"

definition virtio_mmio_notify :: "u16 \<Rightarrow> virtio_mmio \<Rightarrow> virtio_mmio" where
  "virtio_mmio_notify queue m = mmio_set VIRTIO_MMIO_QUEUE_NOTIFY (ucast queue) m"

definition virtio_mmio_ack_interrupt :: "'e mmio_dev_scheme \<Rightarrow> virtio_mmio \<Rightarrow> u32 \<times> virtio_mmio" where
  "virtio_mmio_ack_interrupt dv m =
     (let (v, m) = mmio_get dv VIRTIO_MMIO_INTERRUPT_STATUS m;
          pending = v AND 3
      in (pending, mmio_set VIRTIO_MMIO_INTERRUPT_ACK pending m))"

definition virtio_mmio_config64 :: "'e mmio_dev_scheme \<Rightarrow> u32 \<Rightarrow> virtio_mmio \<Rightarrow> u64 \<times> virtio_mmio" where
  "virtio_mmio_config64 dv off m =
     (let (low, m) = mmio_get dv (VIRTIO_MMIO_CONFIG + off) m;
          (high, m) = mmio_get dv (VIRTIO_MMIO_CONFIG + off + 4) m
      in (ucast low OR push_bit 32 (ucast high), m))"

definition virtio_mmio_config8 :: "'e mmio_dev_scheme \<Rightarrow> u32 \<Rightarrow> virtio_mmio \<Rightarrow> u8 \<times> virtio_mmio" where
  "virtio_mmio_config8 dv off m =
     (dv_read8 dv (mm_log m) (VIRTIO_MMIO_CONFIG + off), m\<lparr>mm_log := mm_log m @ [MRead8 (VIRTIO_MMIO_CONFIG + off)]\<rparr>)"

text \<open>The loop of \<^verbatim>\<open>virtio_mmio_reset\<close> with \<open>polls\<close> left.\<close>

fun mmio_reset_loop :: "'e mmio_dev_scheme \<Rightarrow> nat \<Rightarrow> virtio_mmio \<Rightarrow> int \<times> virtio_mmio" where
  "mmio_reset_loop dv polls m =
     (let (v, m) = mmio_get dv VIRTIO_MMIO_STATUS m
      in if v = 0 then (0, m)
         else case polls of
           0 \<Rightarrow> (-1, m)
         | Suc p \<Rightarrow> if p = 0 then (-1, m) else mmio_reset_loop dv p m)"

declare mmio_reset_loop.simps [simp del]

definition virtio_mmio_reset :: "'e mmio_dev_scheme \<Rightarrow> virtio_mmio option \<Rightarrow> int \<times> virtio_mmio option" where
  "virtio_mmio_reset dv dev =
     (case dev of
        None \<Rightarrow> (-1, None)
      | Some m \<Rightarrow>
          let (r, m) = mmio_reset_loop dv 1000000 (mmio_set VIRTIO_MMIO_STATUS 0 m)
          in (r, Some m))"

end
