(* ===== verification/Ring.thy ===== *)
theory Ring
  imports Net_Prelude
begin

text \<open>
  Circular arrays and bounded queues, for the message queue \<open>Fixq\<close> and the completion ring \<open>Completion\<close>: \<open>ring_items\<close> are
  the items of a circular array in the order they will be taken. The locale \<open>bounded_fifo\<close> is the contract of a bounded queue;
  its lemma \<open>fifo_run_order\<close> says that under any sequence of requests items leave in the order in which they were
  accepted, none lost or repeated.
\<close>

section \<open>Circular arrays\<close>

definition ring_items :: "'x list \<Rightarrow> nat \<Rightarrow> nat \<Rightarrow> nat \<Rightarrow> 'x list" where
  "ring_items buf rd n cap = map (\<lambda>i. buf ! ((rd + i) mod cap)) [0..<n]"

lemma length_ring_items [simp]: "length (ring_items buf rd n cap) = n"
  by (simp add: ring_items_def)

lemma ring_items_0 [simp]: "ring_items buf rd 0 cap = []"
  by (simp add: ring_items_def)

lemma ring_index_distinct:
  fixes i n rd cap :: nat
  assumes "i < n" and "n < cap"
  shows "(rd + i) mod cap \<noteq> (rd + n) mod cap"
proof
  assume "(rd + i) mod cap = (rd + n) mod cap"
  then have "cap dvd (rd + n) - (rd + i)"
    using mod_eq_dvd_iff_nat [of "rd + i" "rd + n" cap] assms by simp
  with assms show False
    by (auto dest: dvd_imp_le)
qed

lemma ring_items_push:
  assumes "n < cap" and "cap \<le> length buf"
  shows "ring_items (buf[(rd + n) mod cap := x]) rd (Suc n) cap = ring_items buf rd n cap @ [x]"
proof -
  have "(rd + n) mod cap < length buf"
    using assms mod_less_divisor [of cap "rd + n"] by linarith
  then show ?thesis
    using assms ring_index_distinct [of _ n cap rd, THEN not_sym] by (auto simp: ring_items_def)
qed

lemma ring_items_pop:
  assumes "0 < n"
  shows "ring_items buf rd n cap = buf ! (rd mod cap) # ring_items buf ((rd + 1) mod cap) (n - 1) cap"
proof -
  obtain m where n: "n = Suc m" using assms by (cases n) auto
  have "[0..<Suc m] = 0 # map Suc [0..<m]" by (simp add: upt_conv_Cons map_Suc_upt del: upt_Suc)
  then show ?thesis
    unfolding n ring_items_def by (simp add: mod_simps comp_def del: upt_Suc)
qed


section \<open>The contract of a bounded queue\<close>

datatype 'x queue_op = QPush 'x | QPop

text \<open>A run of requests on a queue, recording the items accepted and the items taken.\<close>

fun queue_step ::
  "('x \<Rightarrow> 's \<Rightarrow> bool \<times> 's) \<Rightarrow> ('s \<Rightarrow> 'x option \<times> 's) \<Rightarrow> 'x queue_op
   \<Rightarrow> 's \<times> 'x list \<times> 'x list \<Rightarrow> 's \<times> 'x list \<times> 'x list" where
  "queue_step push pop (QPush x) (s, acc, got) =
     (let (ok, s) = push x s in (s, if ok then acc @ [x] else acc, got))"
| "queue_step push pop QPop (s, acc, got) =
     (let (r, s) = pop s in (s, acc, case r of None \<Rightarrow> got | Some x \<Rightarrow> got @ [x]))"

definition queue_run ::
  "('x \<Rightarrow> 's \<Rightarrow> bool \<times> 's) \<Rightarrow> ('s \<Rightarrow> 'x option \<times> 's) \<Rightarrow> 'x queue_op list
   \<Rightarrow> 's \<Rightarrow> 's \<times> 'x list \<times> 'x list" where
  "queue_run push pop ops s = fold (queue_step push pop) ops (s, [], [])"

locale bounded_fifo =
  fixes qinv :: "'s \<Rightarrow> bool"
    and contents :: "'s \<Rightarrow> 'x list"
    and capacity :: "'s \<Rightarrow> nat"
    and push :: "'x \<Rightarrow> 's \<Rightarrow> bool \<times> 's"
    and pop :: "'s \<Rightarrow> 'x option \<times> 's"
  assumes bounded: "qinv s \<Longrightarrow> length (contents s) \<le> capacity s"
    and push_room: "qinv s \<Longrightarrow> length (contents s) < capacity s \<Longrightarrow> push x s = (ok, s') \<Longrightarrow>
      ok \<and> qinv s' \<and> contents s' = contents s @ [x] \<and> capacity s' = capacity s"
    and push_full: "qinv s \<Longrightarrow> length (contents s) = capacity s \<Longrightarrow> push x s = (False, s)"
    and pop_empty: "qinv s \<Longrightarrow> contents s = [] \<Longrightarrow> pop s = (None, s)"
    and pop_first: "qinv s \<Longrightarrow> contents s = x # xs \<Longrightarrow> pop s = (r, s') \<Longrightarrow>
      r = Some x \<and> qinv s' \<and> contents s' = xs \<and> capacity s' = capacity s"
begin

lemma queue_step_order:
  assumes "qinv s" and "queue_step push pop op (s, acc, got) = (s', acc', got')"
  shows "qinv s' \<and> capacity s' = capacity s \<and>
    (\<exists>a g. acc' = acc @ a \<and> got' = got @ g \<and> g @ contents s' = contents s @ a)"
proof (cases op)
  case (QPush x)
  obtain ok s1 where p: "push x s = (ok, s1)" by (metis surj_pair)
  show ?thesis
  proof (cases "length (contents s) < capacity s")
    case True
    from push_room [OF assms(1) this p] assms(2) QPush p show ?thesis by auto
  next
    case False
    with bounded [OF assms(1)] have "length (contents s) = capacity s" by simp
    from push_full [OF assms(1) this, of x] assms QPush p show ?thesis by auto
  qed
next
  case QPop
  obtain r s1 where p: "pop s = (r, s1)" by (metis surj_pair)
  show ?thesis
  proof (cases "contents s")
    case Nil
    from pop_empty [OF assms(1) this] assms QPop p Nil show ?thesis by auto
  next
    case (Cons x xs)
    from pop_first [OF assms(1) this p] assms(2) QPop p Cons show ?thesis by auto
  qed
qed

lemma fifo_run_gen:
  assumes "qinv s" and "fold (queue_step push pop) ops (s, acc, got) = (s', acc', got')"
    and "got @ contents s = c0 @ acc"
  shows "qinv s' \<and> capacity s' = capacity s \<and> got' @ contents s' = c0 @ acc'"
  using assms
proof (induction ops arbitrary: s acc got)
  case (Cons op ops)
  obtain s1 acc1 got1 where st: "queue_step push pop op (s, acc, got) = (s1, acc1, got1)"
    by (metis prod_cases3)
  from queue_step_order [OF Cons.prems(1) st] obtain a g
    where 1: "qinv s1" "capacity s1 = capacity s"
      and 2: "acc1 = acc @ a" "got1 = got @ g" "g @ contents s1 = contents s @ a"
    by blast
  from 2 Cons.prems(3) have "got1 @ contents s1 = c0 @ acc1"
    by (metis append_assoc)
  with 1 Cons.IH [of s1 acc1 got1] Cons.prems(2) st show ?case by simp
qed simp

text \<open>Items leave in the order in which they were accepted; none is lost, none is repeated.\<close>

theorem fifo_run_order:
  assumes "qinv s" and "queue_run push pop ops s = (s', accepted, taken)"
  shows "taken @ contents s' = contents s @ accepted" and "length (contents s') \<le> capacity s"
  using fifo_run_gen [of s ops "[]" "[]" s' accepted taken "contents s"] assms bounded [of s']
  by (auto simp: queue_run_def)

end

end
