(* ===== verification/Completion.thy ===== *)
theory Completion
  imports Ring
begin

text \<open>
  The ring of completed receive slots of the network driver, \<^verbatim>\<open>kernel/src/virtio_net_completion.c\<close>. It is a
  queue of capacity eight: an interpretation of \<open>bounded_fifo\<close>.
\<close>

definition NET_COMPLETION_CAPACITY :: nat where "NET_COMPLETION_CAPACITY = 8"

record net_completion_ring =
  nc_slots :: "u16 list"
  nc_read_index :: u16
  nc_write_index :: u16
  nc_count :: u16

definition net_completion_init :: "net_completion_ring option \<Rightarrow> net_completion_ring option" where
  "net_completion_init ring =
     map_option (\<lambda>r. r\<lparr>nc_read_index := 0, nc_write_index := 0, nc_count := 0\<rparr>) ring"

definition net_completion_reset :: "net_completion_ring option \<Rightarrow> net_completion_ring option" where
  "net_completion_reset ring = net_completion_init ring"

definition net_completion_push ::
  "net_completion_ring option \<Rightarrow> u16 \<Rightarrow> int \<times> net_completion_ring option" where
  "net_completion_push ring slot =
     (case ring of
        None \<Rightarrow> (-1, ring)
      | Some r \<Rightarrow>
          if nc_count r = of_nat NET_COMPLETION_CAPACITY then (-1, ring)
          else (0, Some (r\<lparr>nc_slots := (nc_slots r)[unat (nc_write_index r) := slot],
                  nc_write_index := of_nat ((unat (nc_write_index r) + 1) mod NET_COMPLETION_CAPACITY),
                  nc_count := nc_count r + 1\<rparr>)))"

text \<open>The second argument is what the pointer \<^verbatim>\<open>slot\<close> points to, \<open>None\<close> for a null pointer.\<close>

definition net_completion_pop ::
  "net_completion_ring option \<Rightarrow> u16 option \<Rightarrow> int \<times> u16 option \<times> net_completion_ring option" where
  "net_completion_pop ring slot =
     (case (ring, slot) of
        (Some r, Some _) \<Rightarrow>
          if nc_count r = 0 then (0, slot, ring)
          else (1, Some (nc_slots r ! unat (nc_read_index r)),
                Some (r\<lparr>nc_read_index := of_nat ((unat (nc_read_index r) + 1) mod NET_COMPLETION_CAPACITY),
                        nc_count := nc_count r - 1\<rparr>))
      | _ \<Rightarrow> (-1, slot, ring))"

definition net_completion_count :: "net_completion_ring option \<Rightarrow> int" where
  "net_completion_count ring = (case ring of None \<Rightarrow> -1 | Some r \<Rightarrow> uint (nc_count r))"


section \<open>The completion ring satisfies the contract\<close>

definition nc_items :: "net_completion_ring \<Rightarrow> u16 list" where
  "nc_items r = ring_items (nc_slots r) (unat (nc_read_index r)) (unat (nc_count r)) NET_COMPLETION_CAPACITY"

definition nc_inv :: "net_completion_ring \<Rightarrow> bool" where
  "nc_inv r \<longleftrightarrow> length (nc_slots r) = NET_COMPLETION_CAPACITY \<and>
     unat (nc_read_index r) < NET_COMPLETION_CAPACITY \<and> unat (nc_count r) \<le> NET_COMPLETION_CAPACITY \<and>
     unat (nc_write_index r) = (unat (nc_read_index r) + unat (nc_count r)) mod NET_COMPLETION_CAPACITY"

definition nc_push :: "u16 \<Rightarrow> net_completion_ring \<Rightarrow> bool \<times> net_completion_ring" where
  "nc_push x r = (let (rc, r') = net_completion_push (Some r) x in (rc = 0, the r'))"

definition nc_pop :: "net_completion_ring \<Rightarrow> u16 option \<times> net_completion_ring" where
  "nc_pop r = (let (rc, slot, r') = net_completion_pop (Some r) (Some 0)
               in (if rc = 1 then slot else None, the r'))"

lemma nc_items_length [simp]: "length (nc_items r) = unat (nc_count r)"
  by (simp add: nc_items_def)

lemma unat_of_nat_cap: "unat (of_nat (n mod NET_COMPLETION_CAPACITY) :: u16) = n mod NET_COMPLETION_CAPACITY"
proof -
  have "n mod NET_COMPLETION_CAPACITY < 8"
    by (simp add: NET_COMPLETION_CAPACITY_def)
  then show ?thesis
    by (simp add: unat_of_nat take_bit_nat_eq_self)
qed

lemma unat_inc: "x \<noteq> of_nat NET_COMPLETION_CAPACITY \<Longrightarrow> unat (x :: u16) \<le> NET_COMPLETION_CAPACITY \<Longrightarrow>
   unat x < NET_COMPLETION_CAPACITY \<and> unat (x + 1) = Suc (unat x)"
  by (auto simp: NET_COMPLETION_CAPACITY_def unat_word_ariths word_unat_eq_iff)

lemma unat_dec: "x \<noteq> 0 \<Longrightarrow> unat (x :: u16) = Suc (unat (x - 1))"
  using unat_minus_one [of x] by (cases "unat x") (simp_all add: unsigned_eq_0_iff)

interpretation nc: bounded_fifo nc_inv nc_items "\<lambda>_. NET_COMPLETION_CAPACITY" nc_push nc_pop
proof unfold_locales
  fix r :: net_completion_ring
  assume inv: "nc_inv r"
  then show "length (nc_items r) \<le> NET_COMPLETION_CAPACITY"
    by (simp add: nc_inv_def)
  show "nc_push x r = (False, r)" if "length (nc_items r) = NET_COMPLETION_CAPACITY" for x
    using that by (auto simp: nc_push_def net_completion_push_def word_unat_eq_iff NET_COMPLETION_CAPACITY_def)
  show "nc_pop r = (None, r)" if "nc_items r = []"
    using that nc_items_length [of r] by (simp add: nc_pop_def net_completion_pop_def unsigned_eq_0_iff)
  show "ok \<and> nc_inv r' \<and> nc_items r' = nc_items r @ [x] \<and> NET_COMPLETION_CAPACITY = NET_COMPLETION_CAPACITY"
    if "length (nc_items r) < NET_COMPLETION_CAPACITY" "nc_push x r = (ok, r')" for x ok r'
  proof -
    from that have "nc_count r \<noteq> of_nat NET_COMPLETION_CAPACITY"
      by (auto simp: NET_COMPLETION_CAPACITY_def)
    with unat_inc [OF this] inv that show ?thesis
      by (auto simp: nc_inv_def nc_items_def nc_push_def net_completion_push_def unat_of_nat_cap
          ring_items_push mod_simps)
  qed
  show "v = Some x \<and> nc_inv r' \<and> nc_items r' = xs \<and> NET_COMPLETION_CAPACITY = NET_COMPLETION_CAPACITY"
    if "nc_items r = x # xs" "nc_pop r = (v, r')" for x xs v r'
  proof -
    from that(1) nc_items_length [of r] have "nc_count r \<noteq> 0" by auto
    with unat_dec [OF this] inv that
      ring_items_pop [of "unat (nc_count r)" "nc_slots r" "unat (nc_read_index r)" NET_COMPLETION_CAPACITY]
    show ?thesis
      by (auto simp: nc_inv_def nc_items_def nc_pop_def net_completion_pop_def unat_of_nat_cap mod_simps)
  qed
qed

end
