(* ===== verification/Virtio_Net.thy ===== *)
theory Virtio_Net
  imports Virtio_Mmio Completion
begin

text \<open>
  The network driver, \<^verbatim>\<open>kernel/src/virtio_net.c\<close>: its state and the sections it runs under \<^verbatim>\<open>net.lock\<close>. The two entry
  points that sleep, \<^verbatim>\<open>virtio_net_send\<close> and \<^verbatim>\<open>virtio_net_receive\<close>, are composed from these sections in \<open>Virtio_Net_Sys\<close>, where
  the state of the other tasks is at hand.

  \<open>net_env\<close> adds to the registers of the device the addresses that the linker gives the static object \<^verbatim>\<open>net\<close>. Messages on
  the console and the marks of the self test are not part of the model. \<^verbatim>\<open>task_wake\<close> on one of the two wait queues
  is recorded in \<open>vn_wakes\<close>. What the device writes into the rings and the buffers it writes between these sections.
\<close>

section \<open>State\<close>

definition VIRTIO_NET_DEVICE_ID :: u32 where "VIRTIO_NET_DEVICE_ID = 1"
definition VIRTIO_NET_RX_QUEUE :: u16 where "VIRTIO_NET_RX_QUEUE = 0"
definition VIRTIO_NET_TX_QUEUE :: u16 where "VIRTIO_NET_TX_QUEUE = 1"
definition VIRTIO_NET_HDR_SIZE :: nat where "VIRTIO_NET_HDR_SIZE = 10"
definition ETHERNET_HEADER_SIZE :: nat where "ETHERNET_HEADER_SIZE = 14"
definition ETHERNET_MIN_FRAME :: nat where "ETHERNET_MIN_FRAME = 60"
definition ETHERNET_MAX_FRAME :: nat where "ETHERNET_MAX_FRAME = 1514"
definition VIRTIO1 :: u64 where "VIRTIO1 = 0x10101000"

abbreviation NET_SLOT_SIZE :: nat where "NET_SLOT_SIZE \<equiv> VIRTIO_NET_HDR_SIZE + ETHERNET_MAX_FRAME"

text \<open>The feature bits, by their numbers in \<^verbatim>\<open>virtio_net.h\<close> and \<^verbatim>\<open>virtio.h\<close>.\<close>

definition VIRTIO_NET_REQUIRED_FEATURES :: u32 where
  "VIRTIO_NET_REQUIRED_FEATURES = push_bit 5 1"

definition VIRTIO_NET_REJECTED_FEATURES :: u32 where
  "VIRTIO_NET_REJECTED_FEATURES =
     foldr (\<lambda>b w. push_bit b 1 OR w) [0, 1, 6, 7, 8, 9, 10, 11, 12, 13, 14, 15, 16, 17, 18, 19, 21, 22, 23, 27, 29, 28] 0"

record net_rx_slot =
  rx_bytes :: "u8 list"
  rx_descriptor :: u16
  rx_state :: u8

record net_tx_slot =
  tx_bytes :: "u8 list"
  tx_descriptor :: u16
  tx_in_use :: bool

definition NET_RX_POSTED :: u8 where "NET_RX_POSTED = 1"
definition NET_RX_COMPLETED :: u8 where "NET_RX_COMPLETED = 2"

record virtio_net_stats =
  st_rx_packets :: u64
  st_tx_packets :: u64
  st_rx_dropped :: u64
  st_tx_errors :: u64
  st_interrupts :: u64
  st_resets :: u64

datatype net_wait = RX_WAIT | TX_WAIT

record virtio_net =
  vn_mmio :: virtio_mmio
  vn_rx_queue :: virtqueue
  vn_tx_queue :: virtqueue
  vn_rx_completions :: net_completion_ring
  vn_rx :: "net_rx_slot list"
  vn_tx :: "net_tx_slot list"
  vn_mac :: "u8 list"
  vn_features :: u32
  vn_pending_tx :: u32
  vn_irq_reported :: u32
  vn_stats :: virtio_net_stats
  vn_active :: bool
  vn_failed :: bool
  vn_resetting :: bool
  vn_wakes :: "net_wait list"

text \<open>The static object before the driver runs: all bytes are zero.\<close>

definition vq_zero :: virtqueue where
  "vq_zero = \<lparr>vq_desc = replicate VIRTQ_NUM desc_zero, vq_avail_idx = 0, vq_avail_ring = replicate VIRTQ_NUM 0,
     vq_dev_idx = 0, vq_used_ring = replicate VIRTQ_NUM \<lparr>ue_id = 0, ue_len = 0\<rparr>,
     vq_free = replicate VIRTQ_NUM False, vq_active = replicate VIRTQ_NUM False, vq_used_idx = 0, vq_free_count = 0\<rparr>"

definition virtio_net_zero :: virtio_net where
  "virtio_net_zero = \<lparr>vn_mmio = \<lparr>mm_base = 0, mm_device_id = 0, mm_log = []\<rparr>,
     vn_rx_queue = vq_zero, vn_tx_queue = vq_zero,
     vn_rx_completions = \<lparr>nc_slots = replicate NET_COMPLETION_CAPACITY 0, nc_read_index = 0, nc_write_index = 0, nc_count = 0\<rparr>,
     vn_rx = replicate VIRTQ_NUM \<lparr>rx_bytes = replicate NET_SLOT_SIZE 0, rx_descriptor = 0, rx_state = 0\<rparr>,
     vn_tx = replicate VIRTQ_NUM \<lparr>tx_bytes = replicate NET_SLOT_SIZE 0, tx_descriptor = 0, tx_in_use = False\<rparr>,
     vn_mac = replicate 6 0, vn_features = 0, vn_pending_tx = 0, vn_irq_reported = 0,
     vn_stats = \<lparr>st_rx_packets = 0, st_tx_packets = 0, st_rx_dropped = 0, st_tx_errors = 0, st_interrupts = 0, st_resets = 0\<rparr>,
     vn_active = False, vn_failed = False, vn_resetting = False, vn_wakes = []\<rparr>"

record net_env = mmio_dev +
  rx_pages :: u64
  tx_pages :: u64
  rx_bytes_at :: "nat \<Rightarrow> u64"
  tx_bytes_at :: "nat \<Rightarrow> u64"

abbreviation rx_slot :: "virtio_net \<Rightarrow> nat \<Rightarrow> net_rx_slot" where "rx_slot v i \<equiv> vn_rx v ! i"
abbreviation tx_slot :: "virtio_net \<Rightarrow> nat \<Rightarrow> net_tx_slot" where "tx_slot v i \<equiv> vn_tx v ! i"

abbreviation vn_generation :: "virtio_net \<Rightarrow> u64" where
  "vn_generation v \<equiv> st_resets (vn_stats v)"

definition upd_rx :: "nat \<Rightarrow> (net_rx_slot \<Rightarrow> net_rx_slot) \<Rightarrow> virtio_net \<Rightarrow> virtio_net" where
  "upd_rx i f v = v\<lparr>vn_rx := (vn_rx v)[i := f (rx_slot v i)]\<rparr>"

definition upd_tx :: "nat \<Rightarrow> (net_tx_slot \<Rightarrow> net_tx_slot) \<Rightarrow> virtio_net \<Rightarrow> virtio_net" where
  "upd_tx i f v = v\<lparr>vn_tx := (vn_tx v)[i := f (tx_slot v i)]\<rparr>"

definition upd_rxq :: "(virtqueue \<Rightarrow> virtqueue) \<Rightarrow> virtio_net \<Rightarrow> virtio_net" where
  "upd_rxq f v = v\<lparr>vn_rx_queue := f (vn_rx_queue v)\<rparr>"

definition upd_txq :: "(virtqueue \<Rightarrow> virtqueue) \<Rightarrow> virtio_net \<Rightarrow> virtio_net" where
  "upd_txq f v = v\<lparr>vn_tx_queue := f (vn_tx_queue v)\<rparr>"

definition upd_bus :: "(virtio_mmio \<Rightarrow> virtio_mmio) \<Rightarrow> virtio_net \<Rightarrow> virtio_net" where
  "upd_bus f v = v\<lparr>vn_mmio := f (vn_mmio v)\<rparr>"

definition upd_stats :: "(virtio_net_stats \<Rightarrow> virtio_net_stats) \<Rightarrow> virtio_net \<Rightarrow> virtio_net" where
  "upd_stats f v = v\<lparr>vn_stats := f (vn_stats v)\<rparr>"

definition net_wake :: "net_wait \<Rightarrow> virtio_net \<Rightarrow> virtio_net" where
  "net_wake w v = v\<lparr>vn_wakes := vn_wakes v @ [w]\<rparr>"


section \<open>Receive slots\<close>

definition net_post_rx_locked :: "'e net_env_scheme \<Rightarrow> nat \<Rightarrow> virtio_net \<Rightarrow> int \<times> virtio_net" where
  "net_post_rx_locked env slot v =
     (case virtq_alloc_chain 1 (vn_rx_queue v) of
        (None, q) \<Rightarrow> (-1, v\<lparr>vn_rx_queue := q\<rparr>)
      | (Some indices, q) \<Rightarrow>
          let descriptor = hd indices;
              v = v\<lparr>vn_rx_queue := q\<rparr>;
              v = upd_rx slot (\<lambda>r. r\<lparr>rx_bytes := replicate NET_SLOT_SIZE 0,
                    rx_descriptor := of_nat descriptor, rx_state := NET_RX_POSTED\<rparr>) v;
              v = upd_rxq (upd_desc descriptor (\<lambda>d. d\<lparr>vd_addr := rx_bytes_at env slot,
                    vd_len := of_nat NET_SLOT_SIZE, vd_flags := VRING_DESC_F_WRITE\<rparr>)) v
          in (0, upd_rxq (virtq_submit (of_nat descriptor)) v))"

definition net_repost_rx_locked :: "nat \<Rightarrow> virtio_net \<Rightarrow> virtio_net" where
  "net_repost_rx_locked slot v =
     (let v = upd_rx slot (\<lambda>r. r\<lparr>rx_bytes := put_at 0 (replicate VIRTIO_NET_HDR_SIZE 0) (rx_bytes r)\<rparr>) v;
          v = upd_rxq (upd_desc (unat (rx_descriptor (rx_slot v slot))) (\<lambda>d. d\<lparr>vd_len := of_nat NET_SLOT_SIZE\<rparr>)) v;
          v = upd_rx slot (\<lambda>r. r\<lparr>rx_state := NET_RX_POSTED\<rparr>) v;
          v = upd_rxq (virtq_submit (rx_descriptor (rx_slot v slot))) v
      in upd_bus (virtio_mmio_notify VIRTIO_NET_RX_QUEUE) v)"

definition net_drop_rx_locked :: "nat \<Rightarrow> virtio_net \<Rightarrow> virtio_net" where
  "net_drop_rx_locked slot v =
     net_repost_rx_locked slot (upd_stats (\<lambda>t. t\<lparr>st_rx_dropped := st_rx_dropped t + 1\<rparr>) v)"

definition net_find_rx_slot_locked :: "u16 \<Rightarrow> virtio_net \<Rightarrow> nat option" where
  "net_find_rx_slot_locked descriptor v =
     find_index (\<lambda>r. rx_descriptor r = descriptor \<and> rx_state r = NET_RX_POSTED) (vn_rx v)"

definition net_validate_header_locked :: "nat \<Rightarrow> virtio_net \<Rightarrow> int" where
  "net_validate_header_locked slot v =
     (if \<exists>i<VIRTIO_NET_HDR_SIZE. rx_bytes (rx_slot v slot) ! i \<noteq> 0 then -1 else 0)"


section \<open>Transmit slots\<close>

definition net_find_free_tx_slot_locked :: "virtio_net \<Rightarrow> nat option" where
  "net_find_free_tx_slot_locked v = find_index (\<lambda>t. \<not> tx_in_use t) (vn_tx v)"

definition net_find_tx_slot_locked :: "u16 \<Rightarrow> virtio_net \<Rightarrow> nat option" where
  "net_find_tx_slot_locked descriptor v =
     find_index (\<lambda>t. tx_in_use t \<and> tx_descriptor t = descriptor) (vn_tx v)"

definition net_fail_locked :: "virtio_net \<Rightarrow> virtio_net" where
  "net_fail_locked v =
     (let v = (if vn_failed v then v else upd_stats (\<lambda>t. t\<lparr>st_tx_errors := st_tx_errors t + 1\<rparr>) v);
          v = v\<lparr>vn_active := False, vn_failed := True\<rparr>
      in net_wake TX_WAIT (net_wake RX_WAIT v))"

text \<open>What \<^verbatim>\<open>virtio_net_send\<close> does once it has found the free slot \<open>slot\<close>.\<close>

definition net_send_locked :: "'e net_env_scheme \<Rightarrow> u8 list \<Rightarrow> u32 \<Rightarrow> nat \<Rightarrow> virtio_net \<Rightarrow> int \<times> virtio_net" where
  "net_send_locked env frame len slot v =
     (case virtq_alloc_chain 1 (vn_tx_queue v) of
        (None, q) \<Rightarrow> (-1, net_fail_locked (v\<lparr>vn_tx_queue := q\<rparr>))
      | (Some indices, q) \<Rightarrow>
          let descriptor = hd indices;
              v = v\<lparr>vn_tx_queue := q\<rparr>;
              v = upd_tx slot (\<lambda>t. t\<lparr>tx_bytes := put_at VIRTIO_NET_HDR_SIZE (take (unat len) frame)
                      (put_at 0 (replicate VIRTIO_NET_HDR_SIZE 0) (tx_bytes t)),
                    tx_descriptor := of_nat descriptor, tx_in_use := True\<rparr>) v;
              v = upd_txq (upd_desc descriptor (\<lambda>d. d\<lparr>vd_addr := tx_bytes_at env slot,
                    vd_len := of_nat VIRTIO_NET_HDR_SIZE + len\<rparr>)) v;
              v = v\<lparr>vn_pending_tx := vn_pending_tx v + 1\<rparr>;
              v = upd_txq (virtq_submit (of_nat descriptor)) v
          in (0, upd_bus (virtio_mmio_notify VIRTIO_NET_TX_QUEUE) v))"

text \<open>
  What \<^verbatim>\<open>virtio_net_receive\<close> does after its waiting loop: the result, and the bytes copied to \<^verbatim>\<open>frame\<close> (their number
  is stored through \<^verbatim>\<open>length\<close>). \<open>None\<close> is a copy that reads past the end of the slot.
\<close>

definition net_receive_locked :: "u64 \<Rightarrow> u32 \<Rightarrow> virtio_net \<Rightarrow> (int \<times> u8 list \<times> virtio_net) option" where
  "net_receive_locked generation capacity v =
     (if \<not> vn_active v \<or> vn_failed v \<or> generation \<noteq> st_resets (vn_stats v) then Some (-1, [], v)
      else case net_completion_pop (Some (vn_rx_completions v)) (Some 0) of
        (r, completion_slot, ring) \<Rightarrow>
          let v = v\<lparr>vn_rx_completions := the ring\<rparr>
          in if r \<le> 0 then Some (-1, [], v)
             else
               let slot = unat (the completion_slot)
               in if slot \<ge> VIRTQ_NUM \<or> rx_state (rx_slot v slot) \<noteq> NET_RX_COMPLETED
                  then Some (-1, [], if vn_active v \<and> \<not> vn_failed v then net_fail_locked v else v)
                  else
                    let used_length = vd_len (vq_desc (vn_rx_queue v) ! unat (rx_descriptor (rx_slot v slot)));
                        frame_length = used_length - of_nat VIRTIO_NET_HDR_SIZE
                    in if capacity < frame_length then
                         let v = upd_stats (\<lambda>t. t\<lparr>st_rx_dropped := st_rx_dropped t + 1\<rparr>) v
                         in Some (-1, [], net_repost_rx_locked slot v)
                       else if VIRTIO_NET_HDR_SIZE + unat frame_length > length (rx_bytes (rx_slot v slot)) then None
                       else
                         let bytes = get_at VIRTIO_NET_HDR_SIZE (unat frame_length) (rx_bytes (rx_slot v slot));
                             v = upd_stats (\<lambda>t. t\<lparr>st_rx_packets := st_rx_packets t + 1\<rparr>) v
                         in Some (0, bytes, net_repost_rx_locked slot v))"


section \<open>Start and reset\<close>

definition expected_mac :: "u8 list" where
  "expected_mac = [0x52, 0x54, 0x00, 0x12, 0x34, 0x56]"

text \<open>The loop that reads the hardware address, from byte \<open>i\<close>: whether it did not leave by \<^verbatim>\<open>goto fail\<close>.\<close>

fun net_read_mac :: "'e net_env_scheme \<Rightarrow> nat \<Rightarrow> nat \<Rightarrow> virtio_net \<Rightarrow> bool \<times> virtio_net" where
  "net_read_mac env 0 i v = (True, v)"
| "net_read_mac env (Suc n) i v =
     (let (b, m) = virtio_mmio_config8 env (of_nat i) (vn_mmio v);
          v = v\<lparr>vn_mmio := m, vn_mac := (vn_mac v)[i := b]\<rparr>
      in if vn_mac v ! i \<noteq> expected_mac ! i then (False, v) else net_read_mac env n (Suc i) v)"

fun net_post_all :: "'e net_env_scheme \<Rightarrow> nat list \<Rightarrow> virtio_net \<Rightarrow> bool \<times> virtio_net" where
  "net_post_all env [] v = (True, v)"
| "net_post_all env (i # is) v =
     (let (r, v) = net_post_rx_locked env i v
      in if r < 0 then (False, v) else net_post_all env is v)"

definition net_setup_queue ::
  "'e net_env_scheme \<Rightarrow> u16 \<Rightarrow> u64 \<Rightarrow> virtqueue \<Rightarrow> virtio_mmio \<Rightarrow> int \<times> virtqueue \<times> virtio_mmio" where
  "net_setup_queue env queue pages q m =
     (let (r, q', m') = virtio_mmio_setup_queue env queue (Some q) (Some pages) (Some m)
      in (r, the q', the m'))"

text \<open>\<^verbatim>\<open>net_start_locked\<close> from the set-up of the queues up to the label \<^verbatim>\<open>fail\<close>: whether the label was not reached.\<close>

definition net_start_queues :: "'e net_env_scheme \<Rightarrow> virtio_net \<Rightarrow> bool \<times> virtio_net" where
  "net_start_queues env v =
     (let (r, q, m) = net_setup_queue env VIRTIO_NET_RX_QUEUE (rx_pages env) (vn_rx_queue v) (vn_mmio v);
          v = v\<lparr>vn_rx_queue := q, vn_mmio := m\<rparr>
      in if r < 0 then (False, v)
         else
           let (r, q, m) = net_setup_queue env VIRTIO_NET_TX_QUEUE (tx_pages env) (vn_tx_queue v) (vn_mmio v);
               v = v\<lparr>vn_tx_queue := q, vn_mmio := m\<rparr>
           in if r < 0 then (False, v)
              else
                let (ok, v) = net_post_all env [0..<VIRTQ_NUM] v
                in if \<not> ok then (False, v)
                   else
                     let v = upd_bus (virtio_mmio_driver_ok env) v;
                         v = upd_bus (virtio_mmio_notify VIRTIO_NET_RX_QUEUE) v
                     in (True, v\<lparr>vn_failed := False, vn_active := True\<rparr>))"

text \<open>The first assignments of \<^verbatim>\<open>net_start_locked\<close>.\<close>

definition net_clear :: "virtio_net \<Rightarrow> virtio_net" where
  "net_clear v = v\<lparr>vn_rx_completions := the (net_completion_init (Some (vn_rx_completions v))),
     vn_active := False, vn_pending_tx := 0, vn_irq_reported := 0,
     vn_rx := map (\<lambda>r. r\<lparr>rx_state := 0\<rparr>) (vn_rx v),
     vn_tx := map (\<lambda>t. t\<lparr>tx_in_use := False\<rparr>) (vn_tx v)\<rparr>"

definition net_start_try :: "'e net_env_scheme \<Rightarrow> virtio_net \<Rightarrow> bool \<times> virtio_net" where
  "net_start_try env v =
     (let v = net_clear v;
          (r, features, m) = virtio_mmio_init env VIRTIO1 VIRTIO_NET_DEVICE_ID VIRTIO_NET_REJECTED_FEATURES
             VIRTIO_NET_REQUIRED_FEATURES (Some (vn_mmio v));
          v = v\<lparr>vn_mmio := the m, vn_features := (case features of None \<Rightarrow> vn_features v | Some f \<Rightarrow> f)\<rparr>
      in if r < 0 then (False, v)
         else
           let (ok, v) = net_read_mac env 6 0 v
           in if \<not> ok then (False, v) else net_start_queues env v)"

definition net_reset_bus :: "'e net_env_scheme \<Rightarrow> virtio_net \<Rightarrow> int \<times> virtio_net" where
  "net_reset_bus env v =
     (let (r, m) = virtio_mmio_reset env (Some (vn_mmio v)) in (r, v\<lparr>vn_mmio := the m\<rparr>))"

definition net_start_locked :: "'e net_env_scheme \<Rightarrow> virtio_net \<Rightarrow> int \<times> virtio_net" where
  "net_start_locked env v =
     (let (ok, v) = net_start_try env v
      in if ok then (0, v)
         else let (_, v) = net_reset_bus env v in (-1, v\<lparr>vn_active := False, vn_failed := True\<rparr>))"

definition virtio_net_init :: "'e net_env_scheme \<Rightarrow> virtio_net \<Rightarrow> int \<times> virtio_net" where
  "virtio_net_init env v =
     (let v = v\<lparr>vn_stats := \<lparr>st_rx_packets = 0, st_tx_packets = 0, st_rx_dropped = 0, st_tx_errors = 0,
                  st_interrupts = 0, st_resets = 0\<rparr>, vn_resetting := False, vn_failed := True\<rparr>;
          (result, v) = net_start_locked env v
      in if result < 0 then (-1, v) else (0, v))"

definition virtio_net_get_mac :: "virtio_net \<Rightarrow> u8 list option \<Rightarrow> int \<times> u8 list option" where
  "virtio_net_get_mac v mac =
     (case mac of
        None \<Rightarrow> (-1, None)
      | Some old \<Rightarrow> if \<not> vn_active v \<or> vn_failed v then (-1, mac) else (0, Some (put_at 0 (vn_mac v) old)))"

definition virtio_net_reset :: "'e net_env_scheme \<Rightarrow> virtio_net \<Rightarrow> int \<times> virtio_net" where
  "virtio_net_reset env v =
     (if vn_resetting v then (-1, v)
      else
        let v = v\<lparr>vn_resetting := True, vn_active := False\<rparr>;
            v = net_wake TX_WAIT (net_wake RX_WAIT v);
            (r, v) = net_reset_bus env v
        in if r < 0 then (-1, v\<lparr>vn_failed := True, vn_resetting := False\<rparr>)
           else
             let (result, v) = net_start_locked env v
             in if result = 0
                then (0, (upd_stats (\<lambda>t. t\<lparr>st_resets := st_resets t + 1\<rparr>) v)\<lparr>vn_resetting := False\<rparr>)
                else (-1, v\<lparr>vn_failed := True, vn_resetting := False\<rparr>))"


section \<open>Counters\<close>

definition virtio_net_free_tx_slots :: "virtio_net \<Rightarrow> int" where
  "virtio_net_free_tx_slots v = int (length (filter (\<lambda>t. \<not> tx_in_use t) (vn_tx v)))"

definition virtio_net_posted_rx_buffers :: "virtio_net \<Rightarrow> int" where
  "virtio_net_posted_rx_buffers v = int (length (filter (\<lambda>r. rx_state r = NET_RX_POSTED) (vn_rx v)))"

definition virtio_net_get_stats :: "virtio_net \<Rightarrow> virtio_net_stats option \<Rightarrow> virtio_net_stats option" where
  "virtio_net_get_stats v stats = map_option (\<lambda>_. vn_stats v) stats"

definition virtio_net_free_tx_descriptors :: "virtio_net \<Rightarrow> int" where
  "virtio_net_free_tx_descriptors v = virtq_free_count (Some (vn_tx_queue v))"

definition virtio_net_pending_tx :: "virtio_net \<Rightarrow> int" where
  "virtio_net_pending_tx v = sint (vn_pending_tx v)"

definition virtio_net_rx_completions :: "virtio_net \<Rightarrow> int" where
  "virtio_net_rx_completions v = uint (nc_count (vn_rx_completions v))"


section \<open>The interrupt handler\<close>

text \<open>One round of the first loop: whether it goes on, and the state.\<close>

definition net_rx_round :: "virtio_net \<Rightarrow> bool \<times> virtio_net" where
  "net_rx_round v =
     (case virtq_pop_used_len (vn_rx_queue v) of
        (result, out, q) \<Rightarrow>
          let v = v\<lparr>vn_rx_queue := q\<rparr>
          in if result = 0 then (False, v)
             else if result < 0 then (False, net_fail_locked v)
             else case out of
               None \<Rightarrow> (False, v)
             | Some (descriptor, used_length) \<Rightarrow>
                 (case net_find_rx_slot_locked descriptor v of
                    None \<Rightarrow> (False, net_fail_locked v)
                  | Some slot \<Rightarrow>
                      if unat used_length > NET_SLOT_SIZE then (False, net_fail_locked v)
                      else if net_validate_header_locked slot v < 0 \<or>
                              unat used_length < VIRTIO_NET_HDR_SIZE + ETHERNET_HEADER_SIZE
                      then (True, net_drop_rx_locked slot v)
                      else
                        let v = upd_rxq (upd_desc (unat descriptor) (\<lambda>d. d\<lparr>vd_len := used_length\<rparr>)) v;
                            v = upd_rx slot (\<lambda>r. r\<lparr>rx_state := NET_RX_COMPLETED\<rparr>) v;
                            (r, ring) = net_completion_push (Some (vn_rx_completions v)) (of_nat slot);
                            v = (if r < 0 then net_drop_rx_locked slot v
                                 else net_wake RX_WAIT (v\<lparr>vn_rx_completions := the ring\<rparr>))
                        in (True, v\<lparr>vn_irq_reported := 1\<rparr>)))"

definition net_tx_round :: "virtio_net \<Rightarrow> bool \<times> virtio_net" where
  "net_tx_round v =
     (case virtq_pop_used (vn_tx_queue v) of
        (result, out, q) \<Rightarrow>
          let v = v\<lparr>vn_tx_queue := q\<rparr>
          in if result = 0 then (False, v)
             else if result < 0 then (False, net_fail_locked v)
             else case out of
               None \<Rightarrow> (False, v)
             | Some descriptor \<Rightarrow>
                 (case net_find_tx_slot_locked descriptor v of
                    None \<Rightarrow> (False, net_fail_locked v)
                  | Some slot \<Rightarrow>
                      let (n, q) = virtq_free_chain descriptor (vn_tx_queue v);
                          v = v\<lparr>vn_tx_queue := q\<rparr>
                      in if n \<noteq> 1 then (False, net_fail_locked v)
                         else
                           let v = upd_tx slot (\<lambda>t. t\<lparr>tx_in_use := False\<rparr>) v;
                               v = v\<lparr>vn_pending_tx := vn_pending_tx v - 1\<rparr>;
                               v = upd_stats (\<lambda>t. t\<lparr>st_tx_packets := st_tx_packets t + 1\<rparr>) v;
                               v = net_wake TX_WAIT v
                           in (True, v\<lparr>vn_irq_reported := 1\<rparr>)))"

text \<open>
  The loops end because every round that goes on has taken one element off the used ring: \<open>backlog\<close> counts
  the elements that the device has published and the driver has not taken.
\<close>

definition backlog :: "virtqueue \<Rightarrow> nat" where
  "backlog q = unat (vq_dev_idx q - vq_used_idx q)"

lemma queue_index_simps [simp]:
  "vq_dev_idx (upd_desc i f q) = vq_dev_idx q" "vq_used_idx (upd_desc i f q) = vq_used_idx q"
  "vq_dev_idx (virtq_submit h q) = vq_dev_idx q" "vq_used_idx (virtq_submit h q) = vq_used_idx q"
  "vq_dev_idx (release_desc i q) = vq_dev_idx q" "vq_used_idx (release_desc i q) = vq_used_idx q"
  by (simp_all add: upd_desc_def virtq_submit_def release_desc_def Let_def)

lemma queue_index_release_list [simp]:
  "vq_dev_idx (release_list is q) = vq_dev_idx q" "vq_used_idx (release_list is q) = vq_used_idx q"
  by (induction "is" arbitrary: q) simp_all

lemma queue_index_free_chain [simp]:
  "vq_dev_idx (snd (virtq_free_chain h q)) = vq_dev_idx q" "vq_used_idx (snd (virtq_free_chain h q)) = vq_used_idx q"
  by (simp_all add: virtq_free_chain_def split: option.split)

lemma backlog_Suc: "vq_used_idx q \<noteq> vq_dev_idx q \<Longrightarrow> unat (vq_dev_idx q - (vq_used_idx q + 1)) < backlog q"
proof -
  assume "vq_used_idx q \<noteq> vq_dev_idx q"
  then have "vq_dev_idx q - vq_used_idx q \<noteq> 0" by simp
  then have "unat (vq_dev_idx q - vq_used_idx q - 1) < unat (vq_dev_idx q - vq_used_idx q)"
    by (metis diff_add_cancel less_add_one not_less_iff_gr_or_eq unat_minus_one word_less_sub1 unat_gt_0 diff_less zero_less_one)
  then show ?thesis by (simp add: backlog_def diff_diff_eq)
qed

lemma virtq_pop_used_len_idx:
  "virtq_pop_used_len q = (r, x, q') \<Longrightarrow> r \<noteq> 0 \<Longrightarrow>
     vq_used_idx q \<noteq> vq_dev_idx q \<and> vq_dev_idx q' = vq_dev_idx q \<and> vq_used_idx q' = vq_used_idx q + 1"
  by (auto simp: virtq_pop_used_len_def Let_def split: if_splits)

lemma backlog_pop: "virtq_pop_used_len q = (r, x, q') \<Longrightarrow> r \<noteq> 0 \<Longrightarrow> backlog q' < backlog q"
  using virtq_pop_used_len_idx [of q r x q'] backlog_Suc [of q] by (simp add: backlog_def)

lemma backlog_cong: "vq_dev_idx q = vq_dev_idx q' \<Longrightarrow> vq_used_idx q = vq_used_idx q' \<Longrightarrow> backlog q = backlog q'"
  by (simp add: backlog_def)

lemmas vn_upd_defs = upd_rx_def upd_tx_def upd_rxq_def upd_txq_def upd_bus_def upd_stats_def net_wake_def

lemma backlog_drop_rx [simp]: "backlog (vn_rx_queue (net_drop_rx_locked slot v)) = backlog (vn_rx_queue v)"
  by (rule backlog_cong) (simp_all add: net_drop_rx_locked_def net_repost_rx_locked_def vn_upd_defs Let_def)

lemma net_rx_round_backlog:
  assumes "net_rx_round v = (True, v')" shows "backlog (vn_rx_queue v') < backlog (vn_rx_queue v)"
proof -
  obtain r x q where pop: "virtq_pop_used_len (vn_rx_queue v) = (r, x, q)" by (metis prod_cases3)
  with assms have "r \<noteq> 0" by (auto simp: net_rx_round_def)
  moreover have "backlog (vn_rx_queue v') = backlog q"
    using assms pop
    by (auto simp: net_rx_round_def Let_def split: if_splits option.splits prod.splits) (auto simp: vn_upd_defs backlog_def)
  ultimately show ?thesis using backlog_pop [OF pop] by simp
qed

lemma net_tx_round_backlog:
  assumes "net_tx_round v = (True, v')" shows "backlog (vn_tx_queue v') < backlog (vn_tx_queue v)"
proof -
  obtain r x q where pop: "virtq_pop_used_len (vn_tx_queue v) = (r, x, q)" by (metis prod_cases3)
  with assms have r: "r \<noteq> 0" by (auto simp: net_tx_round_def virtq_pop_used_def)
  from assms pop have "\<exists>d. vn_tx_queue v' = snd (virtq_free_chain d q)"
    by (auto simp: net_tx_round_def virtq_pop_used_def Let_def vn_upd_defs split: if_splits option.splits prod.splits)
      (metis snd_conv)
  then obtain d where "vn_tx_queue v' = snd (virtq_free_chain d q)" ..
  then have "backlog (vn_tx_queue v') = backlog q" by (simp add: backlog_def)
  then show ?thesis using backlog_pop [OF pop r] by simp
qed

function net_rx_loop :: "virtio_net \<Rightarrow> virtio_net" where
  "net_rx_loop v = (let (cont, v') = net_rx_round v in if cont then net_rx_loop v' else v')"
  by pat_completeness auto
termination
  by (relation "measure (\<lambda>v. backlog (vn_rx_queue v))") (auto intro: net_rx_round_backlog)

function net_tx_loop :: "virtio_net \<Rightarrow> virtio_net" where
  "net_tx_loop v = (let (cont, v') = net_tx_round v in if cont then net_tx_loop v' else v')"
  by pat_completeness auto
termination
  by (relation "measure (\<lambda>v. backlog (vn_tx_queue v))") (auto intro: net_tx_round_backlog)

declare net_rx_loop.simps [simp del] net_tx_loop.simps [simp del]

definition virtio_net_intr :: "'e net_env_scheme \<Rightarrow> virtio_net \<Rightarrow> virtio_net" where
  "virtio_net_intr env v =
     (let v = upd_bus (\<lambda>m. snd (virtio_mmio_ack_interrupt env m)) v;
          v = upd_stats (\<lambda>t. t\<lparr>st_interrupts := st_interrupts t + 1\<rparr>) v
      in net_tx_loop (net_rx_loop v))"

end
