(* ===== verification/Net_Sys.thy ===== *)
theory Net_Sys
  imports Virtio_Net
begin

text \<open>
  The counting semaphores of \<^verbatim>\<open>kernel/src/wait.c\<close> and the semaphore pool and clock of
  \<^verbatim>\<open>kernel/src/net/net_sys.c\<close> (its kernel half, under \<^verbatim>\<open>__riscv\<close>).

  A handle of type \<^verbatim>\<open>sys_sem_t\<close> is the index of its pool entry, \<open>None\<close> being
  \<^verbatim>\<open>SYS_SEM_INVALID\<close>. Each section between \<^verbatim>\<open>spin_lock\<close> and \<^verbatim>\<open>spin_unlock\<close> is one atomic
  step. \<open>task_sleep\<close> gives the processor away: what the other tasks do to the state during one
  sleep, and the result with which the sleep ends, is one element of a list of sleeps, an argument
  of every operation that may block. An operation that is still asleep at the end of the list
  has the value \<open>None\<close>. \<open>task_wake\<close> is recorded in the trace \<open>wakes\<close>.
\<close>

record net_sys_sem =
  sem_count :: int
  sem_waiters :: u32
  sem_used :: bool

record net_sys_state =
  sem_pool :: "net_sys_sem list"
  mtime :: u64
  wakes :: "nat list"
  vnet :: virtio_net

type_synonym sys_sem_t = "nat option"

definition NET_SYS_SEM_MAX :: nat where "NET_SYS_SEM_MAX = 68"

definition INT_MAX :: int where "INT_MAX = 2147483647"

definition NET_TIME_TICKS_PER_MS :: u64 where "NET_TIME_TICKS_PER_MS = 10000"


section \<open>Semaphores\<close>

abbreviation sem_of :: "'a net_sys_state_scheme \<Rightarrow> nat \<Rightarrow> net_sys_sem" where
  "sem_of s i \<equiv> sem_pool s ! i"

definition upd_sem ::
  "nat \<Rightarrow> (net_sys_sem \<Rightarrow> net_sys_sem) \<Rightarrow> 'a net_sys_state_scheme \<Rightarrow> 'a net_sys_state_scheme" where
  "upd_sem i f s = s\<lparr>sem_pool := (sem_pool s)[i := f (sem_of s i)]\<rparr>"

definition wait_queue_init :: "net_sys_sem \<Rightarrow> net_sys_sem" where
  "wait_queue_init sem = sem\<lparr>sem_waiters := 0\<rparr>"

definition sem_init :: "net_sys_sem \<Rightarrow> int \<Rightarrow> net_sys_sem option" where
  "sem_init sem initial =
     (if initial < 0 then None else Some (wait_queue_init (sem\<lparr>sem_count := initial\<rparr>)))"

definition task_wake :: "nat \<Rightarrow> 'a net_sys_state_scheme \<Rightarrow> 'a net_sys_state_scheme" where
  "task_wake i s = s\<lparr>wakes := wakes s @ [i]\<rparr>"

abbreviation dec_count :: "net_sys_sem \<Rightarrow> net_sys_sem" where
  "dec_count m \<equiv> m\<lparr>sem_count := sem_count m - 1\<rparr>"

fun sem_timedwait ::
  "nat \<Rightarrow> u64 \<Rightarrow> 'a net_sys_state_scheme sleep list \<Rightarrow> 'a net_sys_state_scheme
   \<Rightarrow> (int \<times> 'a net_sys_state_scheme) option" where
  "sem_timedwait i deadline [] s =
     (if sem_count (sem_of s i) = 0 then None else Some (0, upd_sem i dec_count s))"
| "sem_timedwait i deadline (sleep # rest) s =
     (if sem_count (sem_of s i) = 0 then
        let s = upd_sem i (\<lambda>m. m\<lparr>sem_waiters := sem_waiters m + 1\<rparr>) s;
            (result, s) = sleep deadline s;
            s = upd_sem i (\<lambda>m. m\<lparr>sem_waiters := sem_waiters m - 1\<rparr>) s
        in if result < 0 then Some (-1, s) else sem_timedwait i deadline rest s
      else Some (0, upd_sem i dec_count s))"

definition sem_wait ::
  "nat \<Rightarrow> 'a net_sys_state_scheme sleep list \<Rightarrow> 'a net_sys_state_scheme
   \<Rightarrow> (int \<times> 'a net_sys_state_scheme) option" where
  "sem_wait i sleeps s = sem_timedwait i WAIT_FOREVER sleeps s"

definition sem_post :: "nat \<Rightarrow> 'a net_sys_state_scheme \<Rightarrow> 'a net_sys_state_scheme" where
  "sem_post i s =
     (let s = upd_sem i (\<lambda>m. m\<lparr>sem_count := sem_count m + 1\<rparr>) s
      in if sem_waiters (sem_of s i) \<noteq> 0 then task_wake i s else s)"


section \<open>The pool of the network stack\<close>

definition sem_pool_index :: "sys_sem_t \<Rightarrow> int" where
  "sem_pool_index sem =
     (case sem of Some i \<Rightarrow> if i < NET_SYS_SEM_MAX then int i else -1 | None \<Rightarrow> -1)"

definition net_sys_init :: "'a net_sys_state_scheme \<Rightarrow> net_err \<times> 'a net_sys_state_scheme" where
  "net_sys_init s =
     (NET_ERR_OK, s\<lparr>sem_pool := map (\<lambda>m. m\<lparr>sem_used := False\<rparr>) (sem_pool s)\<rparr>)"

definition sys_time_curr :: "'a net_sys_state_scheme \<Rightarrow> u64" where
  "sys_time_curr s = mtime s div NET_TIME_TICKS_PER_MS"

definition sys_time_goes :: "u64 \<Rightarrow> 'a net_sys_state_scheme \<Rightarrow> int \<times> u64" where
  "sys_time_goes previous s =
     (let current = sys_time_curr s;
          elapsed = current - previous
      in (if uint elapsed > INT_MAX then INT_MAX else uint elapsed, current))"

definition sys_sem_create ::
  "int \<Rightarrow> 'a net_sys_state_scheme \<Rightarrow> sys_sem_t \<times> 'a net_sys_state_scheme" where
  "sys_sem_create initial_count s =
     (if initial_count < 0 then (None, s)
      else case find_index (\<lambda>m. \<not> sem_used m) (sem_pool s) of
             None \<Rightarrow> (None, s)
           | Some i \<Rightarrow>
               (case sem_init (sem_of s i\<lparr>sem_used := True\<rparr>) initial_count of
                  None \<Rightarrow> (None, s)
                | Some m \<Rightarrow> (Some i, upd_sem i (\<lambda>_. m) s)))"

definition sys_sem_free :: "sys_sem_t \<Rightarrow> 'a net_sys_state_scheme \<Rightarrow> 'a net_sys_state_scheme" where
  "sys_sem_free sem s =
     (if sem_pool_index sem \<ge> 0
      then upd_sem (nat (sem_pool_index sem)) (\<lambda>m. m\<lparr>sem_used := False\<rparr>) s
      else s)"

definition sys_sem_valid :: "sys_sem_t \<Rightarrow> 'a net_sys_state_scheme \<Rightarrow> bool" where
  "sys_sem_valid sem s \<longleftrightarrow>
     sem_pool_index sem \<ge> 0 \<and> sem_used (sem_of s (nat (sem_pool_index sem)))"

definition sys_sem_wait ::
  "sys_sem_t \<Rightarrow> int \<Rightarrow> 'a net_sys_state_scheme sleep list \<Rightarrow> 'a net_sys_state_scheme
   \<Rightarrow> (net_err \<times> 'a net_sys_state_scheme) option" where
  "sys_sem_wait sem timeout_ms sleeps s =
     (case sem of
        None \<Rightarrow> Some (NET_ERR_PARAM, s)
      | Some i \<Rightarrow>
          if \<not> sys_sem_valid sem s then Some (NET_ERR_PARAM, s)
          else if timeout_ms < 0 then
            (if sem_count (sem_of s i) > 0 then Some (NET_ERR_OK, upd_sem i dec_count s)
             else Some (NET_ERR_TMO, s))
          else if timeout_ms = 0 then
            map_option (\<lambda>(r, s). (if r = 0 then NET_ERR_OK else NET_ERR_SYS, s))
              (sem_wait i sleeps s)
          else
            let deadline = mtime s + word_of_int timeout_ms * NET_TIME_TICKS_PER_MS
            in map_option (\<lambda>(r, s). (if r = 0 then NET_ERR_OK else NET_ERR_TMO, s))
                 (sem_timedwait i deadline sleeps s))"

definition sys_sem_notify :: "sys_sem_t \<Rightarrow> 'a net_sys_state_scheme \<Rightarrow> 'a net_sys_state_scheme" where
  "sys_sem_notify sem s =
     (case sem of
        None \<Rightarrow> s
      | Some i \<Rightarrow>
          if \<not> sys_sem_valid sem s then s
          else
            let s = (if sem_count (sem_of s i) < INT_MAX
                     then upd_sem i (\<lambda>m. m\<lparr>sem_count := sem_count m + 1\<rparr>) s else s)
            in if sem_waiters (sem_of s i) \<noteq> 0 then task_wake i s else s)"


section \<open>Invariant and laws\<close>

text \<open>Every count of the pool is a non-negative C \<^verbatim>\<open>int\<close>.\<close>

definition sem_inv :: "'a net_sys_state_scheme \<Rightarrow> bool" where
  "sem_inv s \<longleftrightarrow> length (sem_pool s) = NET_SYS_SEM_MAX \<and>
     (\<forall>m\<in>set (sem_pool s). 0 \<le> sem_count m \<and> sem_count m \<le> INT_MAX)"

lemma sem_inv_length [simp]: "sem_inv s \<Longrightarrow> length (sem_pool s) = NET_SYS_SEM_MAX"
  by (simp add: sem_inv_def)

lemma sem_inv_count:
  "sem_inv s \<Longrightarrow> i < NET_SYS_SEM_MAX \<Longrightarrow> 0 \<le> sem_count (sem_of s i) \<and> sem_count (sem_of s i) \<le> INT_MAX"
  by (simp add: sem_inv_def)

lemma sem_of_upd_sem [simp]:
  "i < length (sem_pool s) \<Longrightarrow> sem_of (upd_sem i f s) j = (if j = i then f (sem_of s i) else sem_of s j)"
  by (simp add: upd_sem_def)

lemma length_upd_sem [simp]: "length (sem_pool (upd_sem i f s)) = length (sem_pool s)"
  by (simp add: upd_sem_def)

lemma upd_sem_other_fields [simp]:
  "mtime (upd_sem i f s) = mtime s" "wakes (upd_sem i f s) = wakes s"
  "vnet (upd_sem i f s) = vnet s" "net_sys_state.more (upd_sem i f s) = net_sys_state.more s"
  by (simp_all add: upd_sem_def)

lemma task_wake_fields [simp]:
  "sem_pool (task_wake i s) = sem_pool s" "mtime (task_wake i s) = mtime s"
  "vnet (task_wake i s) = vnet s" "net_sys_state.more (task_wake i s) = net_sys_state.more s"
  by (simp_all add: task_wake_def)

lemma sem_inv_upd:
  assumes "sem_inv s" and "0 \<le> sem_count (f (sem_of s i))" and "sem_count (f (sem_of s i)) \<le> INT_MAX"
  shows "sem_inv (upd_sem i f s)"
  using assms set_update_subset_insert [of "sem_pool s" i "f (sem_of s i)"]
  by (auto simp: sem_inv_def upd_sem_def)

lemma sem_inv_task_wake [simp]: "sem_inv (task_wake i s) = sem_inv s"
  by (simp add: sem_inv_def)

lemma sem_pool_index_Some [simp]: "i < NET_SYS_SEM_MAX \<Longrightarrow> sem_pool_index (Some i) = int i"
  by (simp add: sem_pool_index_def)

lemma sys_sem_valid_Some:
  "sys_sem_valid (Some i) s \<longleftrightarrow> i < NET_SYS_SEM_MAX \<and> sem_used (sem_of s i)"
  by (simp add: sys_sem_valid_def sem_pool_index_def)

lemma sem_init_fresh:
  "0 \<le> c \<Longrightarrow> sem_init (m\<lparr>sem_used := True\<rparr>) c = Some \<lparr>sem_count = c, sem_waiters = 0, sem_used = True\<rparr>"
  by (cases m) (simp add: sem_init_def wait_queue_init_def)

text \<open>Creation takes the first entry that is not in use, and fails exactly when the count is
  negative or all entries are in use.\<close>

lemma sys_sem_create_Some:
  assumes "sem_inv s" and "c \<le> INT_MAX" and "sys_sem_create c s = (Some i, s')"
  shows "i < NET_SYS_SEM_MAX" and "\<not> sem_used (sem_of s i)"
    and "s' = upd_sem i (\<lambda>_. \<lparr>sem_count = c, sem_waiters = 0, sem_used = True\<rparr>) s"
    and "sem_inv s'"
proof -
  from assms obtain j where j: "find_index (\<lambda>m. \<not> sem_used m) (sem_pool s) = Some j" and "0 \<le> c"
    by (auto simp: sys_sem_create_def split: if_splits option.splits)
  from j assms have "i = j"
    by (auto simp: sys_sem_create_def sem_init_def split: if_splits)
  from find_index_SomeD [OF j] assms(1) \<open>i = j\<close>
  show "i < NET_SYS_SEM_MAX" "\<not> sem_used (sem_of s i)" by simp_all
  from j assms(3) \<open>i = j\<close> \<open>0 \<le> c\<close>
  show s': "s' = upd_sem i (\<lambda>_. \<lparr>sem_count = c, sem_waiters = 0, sem_used = True\<rparr>) s"
    by (auto simp: sys_sem_create_def sem_init_fresh)
  show "sem_inv s'"
    unfolding s' using assms(1,2) \<open>0 \<le> c\<close> by (intro sem_inv_upd) simp_all
qed

lemma sys_sem_create_None:
  "sys_sem_create c s = (None, s') \<longleftrightarrow> s' = s \<and> (c < 0 \<or> (\<forall>m\<in>set (sem_pool s). sem_used m))"
  by (auto simp: sys_sem_create_def sem_init_def split: option.splits dest: find_index_SomeD nth_mem)

lemma sys_sem_wait_poll:
  assumes "sys_sem_valid (Some i) s" and "timeout < 0"
  shows "sys_sem_wait (Some i) timeout sleeps s =
    Some (if sem_count (sem_of s i) > 0 then (NET_ERR_OK, upd_sem i dec_count s) else (NET_ERR_TMO, s))"
  using assms by (simp add: sys_sem_wait_def)

lemma sys_sem_notify_used:
  assumes "sem_inv s" and "sys_sem_valid (Some i) s" and "sem_count (sem_of s i) < INT_MAX"
  shows "\<exists>w. sys_sem_notify (Some i) s =
    upd_sem i (\<lambda>m. m\<lparr>sem_count := sem_count m + 1\<rparr>) (s\<lparr>wakes := w\<rparr>)"
proof (cases "sem_waiters (sem_of s i) = 0")
  case True
  then show ?thesis
    using assms by (intro exI [of _ "wakes s"])
      (simp add: sys_sem_notify_def sys_sem_valid_Some upd_sem_def Let_def)
next
  case False
  then show ?thesis
    using assms by (intro exI [of _ "wakes s @ [i]"])
      (simp add: sys_sem_notify_def sys_sem_valid_Some task_wake_def upd_sem_def Let_def)
qed

text \<open>Waiting: with sleeps that keep the invariant the wait keeps it, and a wait that reports
  success has taken exactly one unit from a count that was positive.\<close>

definition keeps :: "('s \<Rightarrow> bool) \<Rightarrow> 's sleep list \<Rightarrow> bool" where
  "keeps P sleeps \<longleftrightarrow> (\<forall>e\<in>set sleeps. \<forall>d s. P s \<longrightarrow> P (snd (e d s)))"

lemma keeps_Cons: "keeps P (e # es) \<Longrightarrow> keeps P es" "keeps P (e # es) \<Longrightarrow> P s \<Longrightarrow> P (snd (e d s))"
  by (auto simp: keeps_def)

lemma sem_timedwait_inv:
  assumes "sem_timedwait i d sleeps s = Some (r, s')" and "sem_inv s" and "keeps sem_inv sleeps"
    and "i < NET_SYS_SEM_MAX"
  shows "sem_inv s'"
  using assms
proof (induction i d sleeps s rule: sem_timedwait.induct)
  case (1 i d s)
  with sem_inv_count [OF 1(2) 1(4)] show ?case
    by (auto split: if_splits intro!: sem_inv_upd)
next
  case (2 i d e es s)
  note cnt = sem_inv_count [OF 2(3) 2(5)]
  show ?case
  proof (cases "sem_count (sem_of s i) = 0")
    case False
    with 2 cnt show ?thesis by (auto intro!: sem_inv_upd)
  next
    case True
    let ?s1 = "upd_sem i (\<lambda>m. m\<lparr>sem_waiters := sem_waiters m + 1\<rparr>) s"
    have "sem_inv ?s1" using 2(3) cnt by (intro sem_inv_upd) simp_all
    then have 3: "sem_inv (snd (e d ?s1))" by (rule keeps_Cons(2) [OF 2(4)])
    let ?s2 = "upd_sem i (\<lambda>m. m\<lparr>sem_waiters := sem_waiters m - 1\<rparr>) (snd (e d ?s1))"
    have 4: "sem_inv ?s2" using 3 sem_inv_count [OF 3 2(5)] by (intro sem_inv_upd) simp_all
    show ?thesis
      using 2(1) [OF True refl prod.collapse refl] 2(2) True 4 keeps_Cons(1) [OF 2(4)] 2(5)
      by (auto simp: Let_def case_prod_beta split: if_splits)
  qed
qed

end
