(* ===== verification/Nlist.thy ===== *)
theory Nlist
  imports Net_Prelude
begin

text \<open>
  The intrusive doubly linked list of \<^verbatim>\<open>kernel/include/timeros/net/nlist.h\<close> and
  \<^verbatim>\<open>kernel/src/net/nlist.c\<close>, at the level of its pointers: a node is an address, the
  store \<open>nheap\<close> holds the \<^verbatim>\<open>next\<close> and \<^verbatim>\<open>pre\<close> fields of every node, and a list header
  holds its first and last node and its count. A null header is \<open>None\<close>.

  \<open>nlist_abs h l xs\<close> says that the header \<open>l\<close> and the store \<open>h\<close> represent the list of nodes
  \<open>xs\<close>. Every operation is shown to refine the list operation of its name, and to leave every
  list on other nodes alone. On these lemmas rest the theories that keep a list of nodes as a
  HOL list (packet blocks, timers, address resolution entries).
\<close>

type_synonym addr = nat

record nheap =
  nx :: "addr \<Rightarrow> addr option"
  pr :: "addr \<Rightarrow> addr option"

record nlist =
  nl_first :: "addr option"
  nl_last :: "addr option"
  nl_count :: int


section \<open>The operations\<close>

definition set_nx :: "addr \<Rightarrow> addr option \<Rightarrow> nheap \<Rightarrow> nheap" where
  "set_nx a v h = h\<lparr>nx := (nx h)(a := v)\<rparr>"

definition set_pr :: "addr \<Rightarrow> addr option \<Rightarrow> nheap \<Rightarrow> nheap" where
  "set_pr a v h = h\<lparr>pr := (pr h)(a := v)\<rparr>"

definition nlist_node_init :: "addr option \<Rightarrow> nheap \<Rightarrow> nheap" where
  "nlist_node_init node h =
     (case node of None \<Rightarrow> h | Some a \<Rightarrow> set_pr a None (set_nx a None h))"

definition nlist_node_next :: "addr option \<Rightarrow> nheap \<Rightarrow> addr option" where
  "nlist_node_next node h = (case node of None \<Rightarrow> None | Some a \<Rightarrow> nx h a)"

definition nlist_node_pre :: "addr option \<Rightarrow> nheap \<Rightarrow> addr option" where
  "nlist_node_pre node h = (case node of None \<Rightarrow> None | Some a \<Rightarrow> pr h a)"

definition nlist_node_set_next :: "addr option \<Rightarrow> addr option \<Rightarrow> nheap \<Rightarrow> nheap" where
  "nlist_node_set_next pre next h = (case pre of None \<Rightarrow> h | Some a \<Rightarrow> set_nx a next h)"

definition nlist_init :: "nlist option \<Rightarrow> nlist option" where
  "nlist_init list = map_option (\<lambda>l. \<lparr>nl_first = None, nl_last = None, nl_count = 0\<rparr>) list"

definition nlist_is_empty :: "nlist option \<Rightarrow> bool" where
  "nlist_is_empty list = (case list of None \<Rightarrow> True | Some l \<Rightarrow> nl_count l = 0)"

definition nlist_count :: "nlist option \<Rightarrow> int" where
  "nlist_count list = (case list of None \<Rightarrow> 0 | Some l \<Rightarrow> nl_count l)"

definition nlist_first :: "nlist option \<Rightarrow> addr option" where
  "nlist_first list = (case list of None \<Rightarrow> None | Some l \<Rightarrow> nl_first l)"

definition nlist_last :: "nlist option \<Rightarrow> addr option" where
  "nlist_last list = (case list of None \<Rightarrow> None | Some l \<Rightarrow> nl_last l)"

fun nlist_insert_first :: "nlist option \<Rightarrow> addr option \<Rightarrow> nheap \<Rightarrow> nlist option \<times> nheap" where
  "nlist_insert_first (Some l) (Some a) h =
     (let h = set_nx a (nl_first l) (set_pr a None h);
          (l, h) = (case nl_first l of
                      Some f \<Rightarrow> (l, set_pr f (Some a) h)
                    | None \<Rightarrow> (l\<lparr>nl_last := Some a\<rparr>, h))
      in (Some (l\<lparr>nl_first := Some a, nl_count := nl_count l + 1\<rparr>), h))"
| "nlist_insert_first list node h = (list, h)"

fun nlist_remove :: "nlist option \<Rightarrow> addr option \<Rightarrow> nheap \<Rightarrow> addr option \<times> nlist option \<times> nheap" where
  "nlist_remove (Some l) (Some a) h =
     (if nl_count l = 0 then (None, Some l, h)
      else
        let l = (if Some a = nl_first l then l\<lparr>nl_first := nx h a\<rparr> else l);
            l = (if Some a = nl_last l then l\<lparr>nl_last := pr h a\<rparr> else l);
            h = (case pr h a of None \<Rightarrow> h | Some p \<Rightarrow> set_nx p (nx h a) h);
            h = (case nx h a of None \<Rightarrow> h | Some n \<Rightarrow> set_pr n (pr h a) h);
            h = set_nx a None (set_pr a None h)
        in (Some a, Some (l\<lparr>nl_count := nl_count l - 1\<rparr>), h))"
| "nlist_remove list node h = (None, list, h)"

fun nlist_insert_last :: "nlist option \<Rightarrow> addr option \<Rightarrow> nheap \<Rightarrow> nlist option \<times> nheap" where
  "nlist_insert_last (Some l) (Some a) h =
     (let h = set_pr a (nl_last l) (set_nx a None h);
          (l, h) = (case nl_last l of
                      Some e \<Rightarrow> (l, set_nx e (Some a) h)
                    | None \<Rightarrow> (l\<lparr>nl_first := Some a\<rparr>, h))
      in (Some (l\<lparr>nl_last := Some a, nl_count := nl_count l + 1\<rparr>), h))"
| "nlist_insert_last list node h = (list, h)"

fun nlist_insert_after ::
  "nlist option \<Rightarrow> addr option \<Rightarrow> addr option \<Rightarrow> nheap \<Rightarrow> nlist option \<times> nheap" where
  "nlist_insert_after (Some l) (Some p) (Some a) h =
     (if nl_count l = 0 then nlist_insert_first (Some l) (Some a) h
      else
        let h = set_nx a (nx h p) (set_pr a (Some p) h);
            (l, h) = (case nx h p of
                        Some n \<Rightarrow> (l, set_pr n (Some a) h)
                      | None \<Rightarrow> (l\<lparr>nl_last := Some a\<rparr>, h))
        in (Some (l\<lparr>nl_count := nl_count l + 1\<rparr>), set_nx p (Some a) h))"
| "nlist_insert_after list pre node h = (list, h)"

definition nlist_remove_first :: "nlist option \<Rightarrow> nheap \<Rightarrow> addr option \<times> nlist option \<times> nheap" where
  "nlist_remove_first list h =
     (let first = nlist_first list
      in case first of
           None \<Rightarrow> (first, list, h)
         | Some _ \<Rightarrow> (let (_, list, h) = nlist_remove list first h in (first, list, h)))"

definition nlist_remove_last :: "nlist option \<Rightarrow> nheap \<Rightarrow> addr option \<times> nlist option \<times> nheap" where
  "nlist_remove_last list h =
     (let last = nlist_last list
      in case last of
           None \<Rightarrow> (last, list, h)
         | Some _ \<Rightarrow> (let (_, list, h) = nlist_remove list last h in (last, list, h)))"


section \<open>The list a header represents\<close>

definition first_of :: "addr list \<Rightarrow> addr option \<Rightarrow> addr option" where
  "first_of xs n = (case xs of [] \<Rightarrow> n | x # _ \<Rightarrow> Some x)"

definition last_of :: "addr option \<Rightarrow> addr list \<Rightarrow> addr option" where
  "last_of p xs = (if xs = [] then p else Some (last xs))"

text \<open>\<open>dseg h p xs n\<close>: the nodes \<open>xs\<close> are chained both ways, with \<open>p\<close> before and \<open>n\<close> after.\<close>

fun dseg :: "nheap \<Rightarrow> addr option \<Rightarrow> addr list \<Rightarrow> addr option \<Rightarrow> bool" where
  "dseg h p [] n = True"
| "dseg h p (x # xs) n \<longleftrightarrow> pr h x = p \<and> nx h x = first_of xs n \<and> dseg h (Some x) xs n"

fun nlist_abs :: "nheap \<Rightarrow> nlist option \<Rightarrow> addr list \<Rightarrow> bool" where
  "nlist_abs h None xs = False"
| "nlist_abs h (Some l) xs \<longleftrightarrow>
     nl_first l = first_of xs None \<and> nl_last l = last_of None xs \<and>
     nl_count l = int (length xs) \<and> distinct xs \<and> dseg h None xs None"

text \<open>\<open>same_off A h h'\<close>: the stores agree on every node outside \<open>A\<close>.\<close>

definition same_off :: "addr set \<Rightarrow> nheap \<Rightarrow> nheap \<Rightarrow> bool" where
  "same_off A h h' \<longleftrightarrow> (\<forall>b. b \<notin> A \<longrightarrow> nx h' b = nx h b \<and> pr h' b = pr h b)"

lemma first_of_simps [simp]:
  "first_of [] n = n" "first_of (x # xs) n = Some x" "first_of (xs @ ys) n = first_of xs (first_of ys n)"
  by (auto simp: first_of_def split: list.splits)

lemma last_of_simps [simp]:
  "last_of p [] = p" "last_of p (x # xs) = last_of (Some x) xs" "last_of p (xs @ ys) = last_of (last_of p xs) ys"
  by (auto simp: last_of_def)

lemma set_nx_simps [simp]: "nx (set_nx a v h) = (nx h)(a := v)" "pr (set_nx a v h) = pr h"
  by (simp_all add: set_nx_def)

lemma set_pr_simps [simp]: "nx (set_pr a v h) = nx h" "pr (set_pr a v h) = (pr h)(a := v)"
  by (simp_all add: set_pr_def)

lemma dseg_append:
  "dseg h p (xs @ ys) n \<longleftrightarrow> dseg h p xs (first_of ys n) \<and> dseg h (last_of p xs) ys n"
  by (induction xs arbitrary: p) auto

lemma dseg_cong:
  "(\<And>x. x \<in> set xs \<Longrightarrow> nx h x = nx h' x \<and> pr h x = pr h' x) \<Longrightarrow> dseg h p xs n = dseg h' p xs n"
  by (induction xs arbitrary: p) auto

lemma dseg_set_nx [simp]: "a \<notin> set xs \<Longrightarrow> dseg (set_nx a v h) p xs n = dseg h p xs n"
  by (rule dseg_cong) auto

lemma dseg_set_pr [simp]: "a \<notin> set xs \<Longrightarrow> dseg (set_pr a v h) p xs n = dseg h p xs n"
  by (rule dseg_cong) auto

text \<open>Changing what follows the last node, or precedes the first one.\<close>

lemma dseg_relink_last:
  "dseg h p (xs @ [x]) n \<Longrightarrow> x \<notin> set xs \<Longrightarrow> dseg (set_nx x n' h) p (xs @ [x]) n'"
  by (simp add: dseg_append)

lemma dseg_relink_first:
  "dseg h p (x # xs) n \<Longrightarrow> x \<notin> set xs \<Longrightarrow> dseg (set_pr x p' h) p' (x # xs) n"
  by simp

lemma last_of_Some: "xs \<noteq> [] \<Longrightarrow> last_of p xs = Some (last xs)"
  by (simp add: last_of_def)

lemma first_of_None_iff [simp]: "first_of xs None = None \<longleftrightarrow> xs = []"
  by (cases xs) simp_all

lemma first_of_eq: "first_of xs (Some y) = Some (if xs = [] then y else hd xs)"
  by (cases xs) simp_all

lemma last_of_None_iff [simp]: "last_of None xs = None \<longleftrightarrow> xs = []"
  by (simp add: last_of_def)


section \<open>Refinement: each operation is the list operation of its name\<close>

lemma nlist_abs_count: "nlist_abs h lo xs \<Longrightarrow> nlist_count lo = int (length xs)"
  by (cases lo) (simp_all add: nlist_count_def)

lemma nlist_abs_empty: "nlist_abs h lo xs \<Longrightarrow> nlist_is_empty lo \<longleftrightarrow> xs = []"
  by (cases lo) (simp_all add: nlist_is_empty_def)

lemma nlist_abs_first: "nlist_abs h lo xs \<Longrightarrow> nlist_first lo = first_of xs None"
  by (cases lo) (simp_all add: nlist_first_def)

lemma nlist_abs_last: "nlist_abs h lo xs \<Longrightarrow> nlist_last lo = last_of None xs"
  by (cases lo) (simp_all add: nlist_last_def)

lemma nlist_abs_distinct: "nlist_abs h lo xs \<Longrightarrow> distinct xs"
  by (cases lo) simp_all

lemma nlist_init_abs: "nlist_abs h (nlist_init (Some l)) []"
  by (simp add: nlist_init_def)

lemma nlist_abs_next:
  assumes "nlist_abs h lo (xs @ x # ys)"
  shows "nlist_node_next (Some x) h = first_of ys None" and "nlist_node_pre (Some x) h = last_of None xs"
  using assms by (cases lo; simp add: nlist_node_next_def nlist_node_pre_def dseg_append)+

lemma nlist_insert_first_abs:
  assumes "nlist_abs h lo xs" and "a \<notin> set xs"
  shows "case nlist_insert_first lo (Some a) h of
           (lo', h') \<Rightarrow> nlist_abs h' lo' (a # xs) \<and> same_off (insert a (set xs)) h h'"
  using assms by (cases lo; cases xs) (auto simp: Let_def same_off_def)

lemma nlist_insert_last_abs:
  assumes "nlist_abs h lo xs" and "a \<notin> set xs"
  shows "case nlist_insert_last lo (Some a) h of
           (lo', h') \<Rightarrow> nlist_abs h' lo' (xs @ [a]) \<and> same_off (insert a (set xs)) h h'"
  using assms by (cases lo; cases xs rule: rev_cases) (auto simp: Let_def same_off_def dseg_append)

lemma nlist_insert_after_abs:
  assumes "nlist_abs h lo (xs @ p # ys)" and "a \<notin> set (xs @ p # ys)"
  shows "case nlist_insert_after lo (Some p) (Some a) h of
           (lo', h') \<Rightarrow> nlist_abs h' lo' (xs @ p # a # ys) \<and> same_off (set (xs @ p # a # ys)) h h'"
  using assms by (cases lo; cases ys) (auto simp: Let_def same_off_def dseg_append)

lemma nlist_remove_abs:
  assumes "nlist_abs h lo (xs @ a # ys)"
  shows "case nlist_remove lo (Some a) h of
           (r, lo', h') \<Rightarrow> r = Some a \<and> nlist_abs h' lo' (xs @ ys) \<and>
             same_off (set (xs @ a # ys)) h h' \<and> nx h' a = None \<and> pr h' a = None"
  using assms
  by (cases lo; cases xs rule: rev_cases; cases ys)
    (auto simp: Let_def same_off_def dseg_append last_of_def first_of_eq split: if_splits)

lemma nlist_remove_first_abs:
  assumes "nlist_abs h lo (a # ys)"
  shows "case nlist_remove_first lo h of
           (r, lo', h') \<Rightarrow> r = Some a \<and> nlist_abs h' lo' ys \<and>
             same_off (set (a # ys)) h h' \<and> nx h' a = None \<and> pr h' a = None"
  using nlist_remove_abs [of h lo "[]" a ys] assms nlist_abs_first [OF assms]
  by (auto simp: nlist_remove_first_def split: prod.splits)

lemma nlist_remove_first_empty: "nlist_abs h lo [] \<Longrightarrow> nlist_remove_first lo h = (None, lo, h)"
  by (simp add: nlist_remove_first_def nlist_abs_first)

lemma nlist_remove_last_abs:
  assumes "nlist_abs h lo (xs @ [a])"
  shows "case nlist_remove_last lo h of
           (r, lo', h') \<Rightarrow> r = Some a \<and> nlist_abs h' lo' xs \<and>
             same_off (set (xs @ [a])) h h' \<and> nx h' a = None \<and> pr h' a = None"
  using nlist_remove_abs [of h lo xs a "[]"] assms nlist_abs_last [OF assms]
  by (auto simp: nlist_remove_last_def split: prod.splits)

text \<open>The frame: a list on nodes that an operation does not touch is still represented.\<close>

lemma nlist_abs_frame:
  "same_off A h h' \<Longrightarrow> set ys \<inter> A = {} \<Longrightarrow> nlist_abs h lo ys \<Longrightarrow> nlist_abs h' lo ys"
  by (cases lo) (auto simp: same_off_def disjoint_iff elim!: dseg_cong [THEN iffD1, rotated])

text \<open>A list is determined by its header and store: walking \<^verbatim>\<open>next\<close> from the first node, at
  most \<^verbatim>\<open>count\<close> steps, visits exactly the nodes represented, in order.\<close>

fun nlist_walk :: "nat \<Rightarrow> nheap \<Rightarrow> addr option \<Rightarrow> addr list" where
  "nlist_walk 0 h node = []"
| "nlist_walk (Suc n) h node =
     (case node of None \<Rightarrow> [] | Some a \<Rightarrow> a # nlist_walk n h (nlist_node_next node h))"

lemma nlist_walk_None [simp]: "nlist_walk n h None = []"
  by (cases n) simp_all

lemma nlist_walk_dseg: "dseg h p xs None \<Longrightarrow> length xs \<le> n \<Longrightarrow> nlist_walk n h (first_of xs None) = xs"
proof (induction xs arbitrary: p n)
  case (Cons a xs)
  then obtain m where "n = Suc m" "length xs \<le> m"
    by (auto dest!: Suc_le_D)
  with Cons show ?case
    by (auto simp: nlist_node_next_def)
qed simp

lemma nlist_walk_abs:
  "nlist_abs h lo xs \<Longrightarrow> nlist_walk (nat (nlist_count lo)) h (nlist_first lo) = xs"
  by (cases lo) (auto simp: nlist_count_def nlist_first_def intro!: nlist_walk_dseg)

end
