(* ===== verification/Mblock.thy ===== *)
theory Mblock
  imports Nlist Net_Sys "HOL-Library.Multiset"
begin

text \<open>
  The fixed-size block allocator of \<^verbatim>\<open>kernel/src/net/mblock.c\<close>, on the pointer-level list of
  \<open>Nlist\<close> and the semaphores of \<open>Net_Sys\<close>. The blocks of all allocators live in one store
  \<open>mb_heap\<close>; an allocator is named by the address of its \<^verbatim>\<open>mblock_t\<close>.

  The interface of an allocator, as its clients use it, is the locale \<open>free_pool\<close>: allocation
  hands out the block that has been free longest, release puts a block behind all free ones. The
  conservation of blocks under every sequence of requests is proved once in the locale, and the
  allocator of \<^verbatim>\<open>mblock.c\<close> is shown to satisfy it.
\<close>

datatype nlocker_type = NLOCKER_NONE | NLOCKER_THREAD

record mblock =
  mb_start :: "addr option"
  mb_free_list :: nlist
  mb_alloc_sem :: sys_sem_t
  mb_locker_type :: nlocker_type

record mblock_state = net_sys_state +
  mb_heap :: nheap
  mblocks :: "nat \<Rightarrow> mblock"


section \<open>The operations\<close>

definition upd_mblock ::
  "nat \<Rightarrow> (mblock \<Rightarrow> mblock) \<Rightarrow> 'a mblock_state_scheme \<Rightarrow> 'a mblock_state_scheme" where
  "upd_mblock b f s = s\<lparr>mblocks := (mblocks s)(b := f (mblocks s b))\<rparr>"

text \<open>The loop of \<^verbatim>\<open>mblock_init\<close>, from the block at \<open>cursor\<close>, with \<open>n\<close> blocks left.\<close>

fun mblock_fill :: "nat \<Rightarrow> addr \<Rightarrow> nat \<Rightarrow> nlist option \<Rightarrow> nheap \<Rightarrow> nlist option \<times> nheap" where
  "mblock_fill 0 cursor blk_size l h = (l, h)"
| "mblock_fill (Suc n) cursor blk_size l h =
     (let h = nlist_node_init (Some cursor) h;
          (l, h) = nlist_insert_last l (Some cursor) h
      in mblock_fill n (cursor + blk_size) blk_size l h)"

definition mblock_init ::
  "nat option \<Rightarrow> addr option \<Rightarrow> int \<Rightarrow> int \<Rightarrow> nlocker_type \<Rightarrow> 'a mblock_state_scheme
   \<Rightarrow> net_err \<times> 'a mblock_state_scheme" where
  "mblock_init block mem blk_size cnt type s =
     (case (block, mem) of
        (Some b, Some m) \<Rightarrow>
          if blk_size < 16 \<or> cnt \<le> 0 then (NET_ERR_PARAM, s)
          else
            let (l, h) = mblock_fill (nat cnt) m (nat blk_size)
                           (nlist_init (Some (mb_free_list (mblocks s b)))) (mb_heap s);
                s = upd_mblock b (\<lambda>_. \<lparr>mb_start = mem, mb_free_list = the l, mb_alloc_sem = None,
                                      mb_locker_type = type\<rparr>) (s\<lparr>mb_heap := h\<rparr>)
            in if type = NLOCKER_THREAD then
                 let (sem, s) = sys_sem_create cnt s;
                     s = upd_mblock b (\<lambda>k. k\<lparr>mb_alloc_sem := sem\<rparr>) s
                 in (if sem = None then NET_ERR_MEM else NET_ERR_OK, s)
               else (NET_ERR_OK, s)
      | _ \<Rightarrow> (NET_ERR_PARAM, s))"

definition mblock_alloc ::
  "nat option \<Rightarrow> int \<Rightarrow> 'a mblock_state_scheme sleep list \<Rightarrow> 'a mblock_state_scheme
   \<Rightarrow> (addr option \<times> 'a mblock_state_scheme) option" where
  "mblock_alloc block timeout sleeps s =
     (case block of
        None \<Rightarrow> Some (None, s)
      | Some b \<Rightarrow> do {
          (err, s) \<leftarrow> (if mb_locker_type (mblocks s b) = NLOCKER_THREAD
                      then sys_sem_wait (mb_alloc_sem (mblocks s b)) timeout sleeps s
                      else Some (NET_ERR_OK, s));
          if is_err err then Some (None, s)
          else
            let (node, l, h) = nlist_remove_first (Some (mb_free_list (mblocks s b))) (mb_heap s)
            in Some (node, upd_mblock b (\<lambda>k. k\<lparr>mb_free_list := the l\<rparr>) (s\<lparr>mb_heap := h\<rparr>))
        })"

definition mblock_free_cnt :: "nat option \<Rightarrow> 'a mblock_state_scheme \<Rightarrow> int" where
  "mblock_free_cnt block s =
     (case block of None \<Rightarrow> -1 | Some b \<Rightarrow> nlist_count (Some (mb_free_list (mblocks s b))))"

definition mblock_free :: "nat option \<Rightarrow> addr option \<Rightarrow> 'a mblock_state_scheme \<Rightarrow> 'a mblock_state_scheme" where
  "mblock_free block item s =
     (case (block, item) of
        (Some b, Some a) \<Rightarrow>
          let (l, h) = nlist_insert_last (Some (mb_free_list (mblocks s b))) item (mb_heap s);
              s = upd_mblock b (\<lambda>k. k\<lparr>mb_free_list := the l\<rparr>) (s\<lparr>mb_heap := h\<rparr>)
          in if mb_locker_type (mblocks s b) = NLOCKER_THREAD
             then sys_sem_notify (mb_alloc_sem (mblocks s b)) s else s
      | _ \<Rightarrow> s)"

definition mblock_destroy :: "nat option \<Rightarrow> 'a mblock_state_scheme \<Rightarrow> 'a mblock_state_scheme" where
  "mblock_destroy block s =
     (case block of
        None \<Rightarrow> s
      | Some b \<Rightarrow> if mb_locker_type (mblocks s b) = NLOCKER_THREAD
                 then sys_sem_free (mb_alloc_sem (mblocks s b)) s else s)"


section \<open>The interface of an allocator\<close>

text \<open>What a client that releases only what it holds does with an allocator: \<open>out\<close> are the items
  it holds.\<close>

datatype 'i pool_op = PAlloc | PFree 'i

fun pool_step ::
  "('s \<Rightarrow> 'i option \<times> 's) \<Rightarrow> ('i \<Rightarrow> 's \<Rightarrow> 's) \<Rightarrow> 'i pool_op \<Rightarrow> 's \<times> 'i list \<Rightarrow> 's \<times> 'i list" where
  "pool_step alloc release PAlloc (s, out) =
     (case alloc s of (None, s') \<Rightarrow> (s', out) | (Some x, s') \<Rightarrow> (s', x # out))"
| "pool_step alloc release (PFree x) (s, out) =
     (if x \<in> set out then (release x s, remove1 x out) else (s, out))"

definition pool_run ::
  "('s \<Rightarrow> 'i option \<times> 's) \<Rightarrow> ('i \<Rightarrow> 's \<Rightarrow> 's) \<Rightarrow> 'i pool_op list \<Rightarrow> 's \<times> 'i list \<Rightarrow> 's \<times> 'i list" where
  "pool_run alloc release ops = fold (pool_step alloc release) ops"

locale free_pool =
  fixes pinv :: "'s \<Rightarrow> bool"
    and free_items :: "'s \<Rightarrow> 'i list"
    and alloc :: "'s \<Rightarrow> 'i option \<times> 's"
    and release :: "'i \<Rightarrow> 's \<Rightarrow> 's"
  assumes alloc_empty: "pinv s \<Longrightarrow> free_items s = [] \<Longrightarrow> alloc s = (None, s)"
    and alloc_first: "pinv s \<Longrightarrow> free_items s = x # xs \<Longrightarrow>
      fst (alloc s) = Some x \<and> free_items (snd (alloc s)) = xs \<and> pinv (snd (alloc s))"
    and release_last: "pinv s \<Longrightarrow> x \<notin> set (free_items s) \<Longrightarrow>
      free_items (release x s) = free_items s @ [x] \<and> pinv (release x s)"
begin

definition pool_ok :: "'s \<times> 'i list \<Rightarrow> bool" where
  "pool_ok c \<longleftrightarrow> pinv (fst c) \<and> distinct (free_items (fst c) @ snd c)"

lemma pool_step_ok:
  assumes "pool_ok (s, out)" and "pool_step alloc release op (s, out) = (s', out')"
  shows "pool_ok (s', out')" and "mset (free_items s' @ out') = mset (free_items s @ out)"
proof (atomize (full), cases op)
  case PAlloc
  show "pool_ok (s', out') \<and> mset (free_items s' @ out') = mset (free_items s @ out)"
  proof (cases "free_items s")
    case Nil
    with assms PAlloc alloc_empty [of s] show ?thesis by (simp add: pool_ok_def)
  next
    case (Cons x xs)
    with assms PAlloc alloc_first [of s x xs] show ?thesis
      by (cases "alloc s") (auto simp: pool_ok_def)
  qed
next
  case (PFree x)
  show "pool_ok (s', out') \<and> mset (free_items s' @ out') = mset (free_items s @ out)"
  proof (cases "x \<in> set out")
    case True
    with assms(1) have "pinv s" and "x \<notin> set (free_items s)"
      by (auto simp: pool_ok_def)
    from release_last [OF this] True PFree assms show ?thesis
      by (auto simp: pool_ok_def)
  next
    case False
    with PFree assms show ?thesis by simp
  qed
qed

theorem pool_run_ok:
  assumes "pool_ok c" and "pool_run alloc release ops c = c'"
  shows "pool_ok c'" and "mset (free_items (fst c') @ snd c') = mset (free_items (fst c) @ snd c)"
proof (atomize (full), use assms in \<open>induction ops arbitrary: c\<close>)
  case Nil
  then show ?case by (simp add: pool_run_def)
next
  case (Cons op ops)
  obtain s out s1 out1 where c: "c = (s, out)" and st: "pool_step alloc release op (s, out) = (s1, out1)"
    by (metis surj_pair)
  from Cons.prems c st have "pool_run alloc release ops (s1, out1) = c'"
    by (simp add: pool_run_def)
  with Cons.IH [of "(s1, out1)"] pool_step_ok [OF Cons.prems(1) [unfolded c] st] c
  show ?case by simp
qed

text \<open>An allocation fails only when the client holds every item of the pool.\<close>

lemma alloc_fails_iff: "pinv s \<Longrightarrow> fst (alloc s) = None \<longleftrightarrow> free_items s = []"
  using alloc_empty [of s] alloc_first [of s] by (cases "free_items s") fastforce+

end


section \<open>The allocator satisfies the interface\<close>

text \<open>The blocks free in allocator \<open>b\<close>, in the order in which they will be handed out.\<close>

definition mblock_items :: "nat \<Rightarrow> 'a mblock_state_scheme \<Rightarrow> addr list" where
  "mblock_items b s =
     (let l = Some (mb_free_list (mblocks s b))
      in nlist_walk (nat (nlist_count l)) (mb_heap s) (nlist_first l))"

definition mblock_inv :: "nat \<Rightarrow> 'a mblock_state_scheme \<Rightarrow> bool" where
  "mblock_inv b s \<longleftrightarrow> mb_locker_type (mblocks s b) = NLOCKER_NONE \<and>
     nlist_abs (mb_heap s) (Some (mb_free_list (mblocks s b))) (mblock_items b s)"

definition mblock_take :: "nat \<Rightarrow> 'a mblock_state_scheme \<Rightarrow> addr option \<times> 'a mblock_state_scheme" where
  "mblock_take b s = the (mblock_alloc (Some b) (-1) [] s)"

definition mblock_give :: "nat \<Rightarrow> addr \<Rightarrow> 'a mblock_state_scheme \<Rightarrow> 'a mblock_state_scheme" where
  "mblock_give b a s = mblock_free (Some b) (Some a) s"

lemma mblock_invI:
  assumes "mb_locker_type (mblocks s b) = NLOCKER_NONE"
    and "nlist_abs (mb_heap s) (Some (mb_free_list (mblocks s b))) xs"
  shows "mblock_inv b s \<and> mblock_items b s = xs"
proof -
  from nlist_walk_abs [OF assms(2)] have "mblock_items b s = xs"
    by (simp add: mblock_items_def Let_def)
  with assms show ?thesis by (simp add: mblock_inv_def)
qed

lemma nlist_abs_Some_the: "nlist_abs h l xs \<Longrightarrow> nlist_abs h (Some (the l)) xs"
  by (cases l) simp_all

lemma mblock_take_first:
  assumes "mblock_inv b s" and "mblock_items b s = a # xs"
  shows "fst (mblock_take b s) = Some a \<and> mblock_items b (snd (mblock_take b s)) = xs \<and>
    mblock_inv b (snd (mblock_take b s))"
proof -
  let ?l = "Some (mb_free_list (mblocks s b))"
  obtain r l h where rm: "nlist_remove_first ?l (mb_heap s) = (r, l, h)"
    by (metis prod_cases3)
  from assms have "nlist_abs (mb_heap s) ?l (a # xs)" by (simp add: mblock_inv_def)
  from nlist_remove_first_abs [OF this] rm
  have 1: "r = Some a" and "nlist_abs h l xs" by simp_all
  note 2 = nlist_abs_Some_the [OF this(2)]
  from assms(1) have 3: "mb_locker_type (mblocks s b) = NLOCKER_NONE"
    by (simp add: mblock_inv_def)
  from rm 1 3 have "mblock_take b s = (Some a, upd_mblock b (\<lambda>k. k\<lparr>mb_free_list := the l\<rparr>) (s\<lparr>mb_heap := h\<rparr>))"
    by (simp add: mblock_take_def mblock_alloc_def)
  with 2 3 mblock_invI [of "snd (mblock_take b s)" b xs] show ?thesis
    by (simp add: upd_mblock_def del: nlist_abs.simps)
qed

lemma mblock_take_empty:
  assumes "mblock_inv b s" and "mblock_items b s = []"
  shows "mblock_take b s = (None, s)"
proof -
  from assms have "nlist_abs (mb_heap s) (Some (mb_free_list (mblocks s b))) []"
    by (simp add: mblock_inv_def)
  from nlist_remove_first_empty [OF this] assms(1) show ?thesis
    by (simp add: mblock_take_def mblock_alloc_def mblock_inv_def upd_mblock_def)
qed

lemma mblock_give_last:
  assumes "mblock_inv b s" and "a \<notin> set (mblock_items b s)"
  shows "mblock_items b (mblock_give b a s) = mblock_items b s @ [a] \<and> mblock_inv b (mblock_give b a s)"
proof -
  let ?l = "Some (mb_free_list (mblocks s b))"
  obtain l h where ins: "nlist_insert_last ?l (Some a) (mb_heap s) = (l, h)"
    by (metis surj_pair)
  from assms(1) have "nlist_abs (mb_heap s) ?l (mblock_items b s)" by (simp add: mblock_inv_def)
  from nlist_insert_last_abs [OF this assms(2)] ins
  have "nlist_abs h l (mblock_items b s @ [a])" by (simp del: nlist_insert_last.simps)
  note nlist_abs_Some_the [OF this]
  moreover from ins assms(1)
  have "mblock_give b a s = upd_mblock b (\<lambda>k. k\<lparr>mb_free_list := the l\<rparr>) (s\<lparr>mb_heap := h\<rparr>)"
    by (simp add: mblock_give_def mblock_free_def mblock_inv_def upd_mblock_def
        del: nlist_insert_last.simps)
  moreover from assms(1) have "mb_locker_type (mblocks s b) = NLOCKER_NONE"
    by (simp add: mblock_inv_def)
  ultimately show ?thesis
    using mblock_invI [of "mblock_give b a s" b "mblock_items b s @ [a]"]
    by (simp add: upd_mblock_def del: nlist_abs.simps)
qed

interpretation mb: free_pool "mblock_inv b" "mblock_items b" "mblock_take b" "mblock_give b" for b
  by unfold_locales (use mblock_take_empty mblock_take_first mblock_give_last in blast)+

text \<open>After initialisation the pool holds the \<^verbatim>\<open>count\<close> blocks of the memory area, in order.\<close>

fun block_addrs :: "nat \<Rightarrow> addr \<Rightarrow> nat \<Rightarrow> addr list" where
  "block_addrs 0 m sz = []"
| "block_addrs (Suc n) m sz = m # block_addrs n (m + sz) sz"

lemma block_addrs_ge: "a \<in> set (block_addrs n m sz) \<Longrightarrow> m \<le> a"
  by (induction n arbitrary: m) fastforce+

lemma nlist_abs_node_init:
  "nlist_abs h l xs \<Longrightarrow> a \<notin> set xs \<Longrightarrow> nlist_abs (nlist_node_init (Some a) h) l xs"
  by (cases l) (simp_all add: nlist_node_init_def)

lemma mblock_fill_abs:
  assumes "nlist_abs h l xs" and "0 < sz" and "\<forall>x\<in>set xs. x < cursor"
  shows "case mblock_fill n cursor sz l h of (l', h') \<Rightarrow> nlist_abs h' l' (xs @ block_addrs n cursor sz)"
  using assms
proof (induction n arbitrary: cursor xs l h)
  case (Suc n)
  let ?h = "nlist_node_init (Some cursor) h"
  from Suc.prems have ni: "cursor \<notin> set xs" by auto
  obtain l1 h1 where ins: "nlist_insert_last l (Some cursor) ?h = (l1, h1)" by (metis surj_pair)
  from nlist_insert_last_abs [OF nlist_abs_node_init [OF Suc.prems(1) ni] ni] ins
  have "nlist_abs h1 l1 (xs @ [cursor])" by simp
  moreover from Suc.prems(2,3) have "\<forall>x\<in>set (xs @ [cursor]). x < cursor + sz" by auto
  ultimately show ?case
    using Suc.IH [of h1 l1 "xs @ [cursor]" "cursor + sz"] Suc.prems(2) ins
    by (simp add: Let_def del: nlist_insert_last.simps)
qed simp

lemma mblock_init_items:
  assumes "16 \<le> blk_size" and "0 < cnt"
    and "mblock_init (Some b) (Some m) blk_size cnt NLOCKER_NONE s = (err, s')"
  shows "err = NET_ERR_OK \<and> mblock_inv b s' \<and> mblock_items b s' = block_addrs (nat cnt) m (nat blk_size)"
proof -
  let ?l0 = "nlist_init (Some (mb_free_list (mblocks s b)))"
  obtain l h where f: "mblock_fill (nat cnt) m (nat blk_size) ?l0 (mb_heap s) = (l, h)"
    by (metis surj_pair)
  from mblock_fill_abs [OF nlist_init_abs [of "mb_heap s" "mb_free_list (mblocks s b)"],
      of "nat blk_size" m "nat cnt"] f assms(1)
  have "nlist_abs h l (block_addrs (nat cnt) m (nat blk_size))" by simp
  note nlist_abs_Some_the [OF this]
  moreover from assms f have "err = NET_ERR_OK" and
    "s' = upd_mblock b (\<lambda>_. \<lparr>mb_start = Some m, mb_free_list = the l, mb_alloc_sem = None,
                             mb_locker_type = NLOCKER_NONE\<rparr>) (s\<lparr>mb_heap := h\<rparr>)"
    by (simp_all add: mblock_init_def)
  ultimately show ?thesis
    using mblock_invI [of s' b "block_addrs (nat cnt) m (nat blk_size)"]
    by (simp add: upd_mblock_def del: nlist_abs.simps)
qed

end
