(* ===== verification/Fixq.thy ===== *)
theory Fixq
  imports Net_Sys Mblock
begin

text \<open>
  The bounded message queue of \<^verbatim>\<open>kernel/src/net/fixq.c\<close>, and that it is an instance of the contract
  \<open>bounded_fifo\<close>. The last section treats senders and receivers that run concurrently, at the granularity of the
  lock regions of the code.
\<close>

record fixq =
  fq_size :: nat
  fq_buf :: "addr list"
  fq_in :: nat
  fq_out :: nat
  fq_count :: nat
  fq_send_sem :: sys_sem_t
  fq_recv_sem :: sys_sem_t
  fq_locker_type :: nlocker_type

record fixq_state = net_sys_state +
  fixqs :: "nat \<Rightarrow> fixq"


section \<open>The operations of the message queue\<close>

definition upd_fixq ::
  "nat \<Rightarrow> (fixq \<Rightarrow> fixq) \<Rightarrow> 'a fixq_state_scheme \<Rightarrow> 'a fixq_state_scheme" where
  "upd_fixq q f s = s\<lparr>fixqs := (fixqs s)(q := f (fixqs s q))\<rparr>"

definition fixq_init ::
  "nat option \<Rightarrow> addr list option \<Rightarrow> int \<Rightarrow> nlocker_type \<Rightarrow> 'a fixq_state_scheme
   \<Rightarrow> net_err \<times> 'a fixq_state_scheme" where
  "fixq_init queue buf qsize type s =
     (case (queue, buf) of
        (Some q, Some bf) \<Rightarrow>
          if qsize \<le> 0 then (NET_ERR_PARAM, s)
          else
            let s = upd_fixq q (\<lambda>_. \<lparr>fq_size = nat qsize, fq_buf = bf, fq_in = 0, fq_out = 0,
                      fq_count = 0, fq_send_sem = None, fq_recv_sem = None,
                      fq_locker_type = type\<rparr>) s;
                (sem, s) = sys_sem_create qsize s;
                s = upd_fixq q (\<lambda>k. k\<lparr>fq_send_sem := sem\<rparr>) s
            in if sem = None then (NET_ERR_MEM, s)
               else
                 let (sem, s) = sys_sem_create 0 s;
                     s = upd_fixq q (\<lambda>k. k\<lparr>fq_recv_sem := sem\<rparr>) s
                 in if sem = None then
                      let s = sys_sem_free (fq_send_sem (fixqs s q)) s
                      in (NET_ERR_MEM, upd_fixq q (\<lambda>k. k\<lparr>fq_send_sem := None\<rparr>) s)
                    else (NET_ERR_OK, s)
      | _ \<Rightarrow> (NET_ERR_PARAM, s))"

text \<open>The two critical regions: storing a message at \<^verbatim>\<open>in\<close>, and taking the one at \<^verbatim>\<open>out\<close>.\<close>

definition fixq_put :: "addr \<Rightarrow> fixq \<Rightarrow> fixq" where
  "fixq_put msg k = k\<lparr>fq_buf := (fq_buf k)[fq_in k := msg],
                     fq_in := (fq_in k + 1) mod fq_size k, fq_count := fq_count k + 1\<rparr>"

definition fixq_take :: "fixq \<Rightarrow> addr option \<times> fixq" where
  "fixq_take k =
     (if fq_count k = 0 then (None, k)
      else (Some (fq_buf k ! fq_out k),
            k\<lparr>fq_out := (fq_out k + 1) mod fq_size k, fq_count := fq_count k - 1\<rparr>))"

definition fixq_send ::
  "nat option \<Rightarrow> addr option \<Rightarrow> int \<Rightarrow> 'a fixq_state_scheme sleep list \<Rightarrow> 'a fixq_state_scheme
   \<Rightarrow> (net_err \<times> 'a fixq_state_scheme) option" where
  "fixq_send queue msg timeout sleeps s =
     (case (queue, msg) of
        (Some q, Some m) \<Rightarrow>
          if timeout < 0 \<and> fq_count (fixqs s q) = fq_size (fixqs s q) then Some (NET_ERR_FULL, s)
          else do {
            (error, s) \<leftarrow> sys_sem_wait (fq_send_sem (fixqs s q)) timeout sleeps s;
            if is_err error
            then Some (if timeout < 0 \<and> error = NET_ERR_TMO then NET_ERR_FULL else error, s)
            else
              let s = upd_fixq q (fixq_put m) s
              in Some (NET_ERR_OK, sys_sem_notify (fq_recv_sem (fixqs s q)) s)
          }
      | _ \<Rightarrow> Some (NET_ERR_PARAM, s))"

definition fixq_recv ::
  "nat option \<Rightarrow> int \<Rightarrow> 'a fixq_state_scheme sleep list \<Rightarrow> 'a fixq_state_scheme
   \<Rightarrow> (addr option \<times> 'a fixq_state_scheme) option" where
  "fixq_recv queue timeout sleeps s =
     (case queue of
        None \<Rightarrow> Some (None, s)
      | Some q \<Rightarrow>
          if timeout < 0 \<and> fq_count (fixqs s q) = 0 then Some (None, s)
          else do {
            (error, s) \<leftarrow> sys_sem_wait (fq_recv_sem (fixqs s q)) timeout sleeps s;
            if is_err error then Some (None, s)
            else
              let (msg, k) = fixq_take (fixqs s q);
                  s = upd_fixq q (\<lambda>_. k) s
              in Some (msg, if msg = None then s else sys_sem_notify (fq_send_sem (fixqs s q)) s)
          })"

definition fixq_wake_receiver :: "nat option \<Rightarrow> 'a fixq_state_scheme \<Rightarrow> 'a fixq_state_scheme" where
  "fixq_wake_receiver queue s =
     (case queue of None \<Rightarrow> s | Some q \<Rightarrow> sys_sem_notify (fq_recv_sem (fixqs s q)) s)"

definition fixq_destroy :: "nat option \<Rightarrow> 'a fixq_state_scheme \<Rightarrow> 'a fixq_state_scheme" where
  "fixq_destroy queue s =
     (case queue of
        None \<Rightarrow> s
      | Some q \<Rightarrow> sys_sem_free (fq_recv_sem (fixqs s q)) (sys_sem_free (fq_send_sem (fixqs s q)) s))"

definition fixq_count :: "nat option \<Rightarrow> 'a fixq_state_scheme \<Rightarrow> int" where
  "fixq_count queue s = (case queue of None \<Rightarrow> -1 | Some q \<Rightarrow> int (fq_count (fixqs s q)))"


section \<open>The message queue satisfies the contract\<close>

definition fixq_items :: "nat \<Rightarrow> 'a fixq_state_scheme \<Rightarrow> addr list" where
  "fixq_items q s = (let k = fixqs s q in ring_items (fq_buf k) (fq_out k) (fq_count k) (fq_size k))"

definition fixq_wf :: "fixq \<Rightarrow> bool" where
  "fixq_wf k \<longleftrightarrow> 0 < fq_size k \<and> int (fq_size k) \<le> INT_MAX \<and> fq_size k \<le> length (fq_buf k) \<and>
     fq_out k < fq_size k \<and> fq_count k \<le> fq_size k \<and>
     fq_in k = (fq_out k + fq_count k) mod fq_size k"

text \<open>Between calls the send semaphore counts the free places, and the receive semaphore counts at
  least the messages; it counts more after \<^verbatim>\<open>fixq_wake_receiver\<close>.\<close>

definition fixq_sems :: "nat \<Rightarrow> 'a fixq_state_scheme \<Rightarrow> bool" where
  "fixq_sems q s \<longleftrightarrow>
     (case (fq_send_sem (fixqs s q), fq_recv_sem (fixqs s q)) of
        (Some i, Some j) \<Rightarrow>
          i \<noteq> j \<and> sys_sem_valid (Some i) s \<and> sys_sem_valid (Some j) s \<and>
          sem_count (sem_of s i) + int (fq_count (fixqs s q)) = int (fq_size (fixqs s q)) \<and>
          int (fq_count (fixqs s q)) \<le> sem_count (sem_of s j)
      | _ \<Rightarrow> False)"

definition fixq_inv :: "nat \<Rightarrow> 'a fixq_state_scheme \<Rightarrow> bool" where
  "fixq_inv q s \<longleftrightarrow> sem_inv s \<and> fixq_wf (fixqs s q) \<and> fixq_sems q s"

definition fixq_push :: "nat \<Rightarrow> addr \<Rightarrow> 'a fixq_state_scheme \<Rightarrow> bool \<times> 'a fixq_state_scheme" where
  "fixq_push q m s = (case fixq_send (Some q) (Some m) (-1) [] s of
                        Some (err, s') \<Rightarrow> (err = NET_ERR_OK, s') | None \<Rightarrow> (False, s))"

definition fixq_pop :: "nat \<Rightarrow> 'a fixq_state_scheme \<Rightarrow> addr option \<times> 'a fixq_state_scheme" where
  "fixq_pop q s = (case fixq_recv (Some q) (-1) [] s of Some r \<Rightarrow> r | None \<Rightarrow> (None, s))"

lemma fixq_put_items:
  assumes "fixq_wf k" and "fq_count k < fq_size k"
  shows "fixq_wf (fixq_put m k)"
    and "ring_items (fq_buf (fixq_put m k)) (fq_out k) (Suc (fq_count k)) (fq_size k)
       = ring_items (fq_buf k) (fq_out k) (fq_count k) (fq_size k) @ [m]"
  using assms by (auto simp: fixq_wf_def fixq_put_def ring_items_push mod_simps)

lemma fixq_take_items:
  assumes "fixq_wf k" and "0 < fq_count k" and "fixq_take k = (r, k')"
  shows "fixq_wf k'" and "fq_size k' = fq_size k" and "fq_count k = Suc (fq_count k')"
    and "r = Some (fq_buf k ! fq_out k)"
    and "fq_send_sem k' = fq_send_sem k" and "fq_recv_sem k' = fq_recv_sem k"
    and "ring_items (fq_buf k) (fq_out k) (fq_count k) (fq_size k)
       = fq_buf k ! fq_out k # ring_items (fq_buf k') (fq_out k') (fq_count k') (fq_size k')"
  using assms ring_items_pop [of "fq_count k" "fq_buf k" "fq_out k" "fq_size k"]
  by (cases "fq_count k"; auto simp: fixq_wf_def fixq_take_def mod_simps)+

lemma fixqs_upd_sem [simp]: "fixqs (upd_sem i f s) = fixqs s"
  by (simp add: upd_sem_def)

lemma fixqs_upd_fixq [simp]:
  "fixqs (upd_fixq q f s) = (fixqs s)(q := f (fixqs s q))"
  "sem_pool (upd_fixq q f s) = sem_pool s" "wakes (upd_fixq q f s) = wakes s"
  by (simp_all add: upd_fixq_def)

lemma sem_inv_cong: "sem_pool s = sem_pool s' \<Longrightarrow> sem_inv s = sem_inv s'"
  by (simp add: sem_inv_def)

lemma sys_sem_valid_cong: "sem_pool s = sem_pool s' \<Longrightarrow> sys_sem_valid x s = sys_sem_valid x s'"
  by (simp add: sys_sem_valid_def)

lemma sys_sem_notify_fixqs [simp]: "fixqs (sys_sem_notify x s) = fixqs s"
  by (simp add: sys_sem_notify_def Let_def task_wake_def split: option.splits)

lemma sys_sem_notify_pool:
  assumes "sem_inv s" and "sys_sem_valid (Some i) s"
  shows "sem_inv (sys_sem_notify (Some i) s)"
    and "sys_sem_valid x (sys_sem_notify (Some i) s) = sys_sem_valid x s"
    and "sem_count (sem_of (sys_sem_notify (Some i) s) j) =
      (if j = i \<and> sem_count (sem_of s i) < INT_MAX then sem_count (sem_of s i) + 1 else sem_count (sem_of s j))"
proof -
  from assms(2) have i: "i < NET_SYS_SEM_MAX" by (simp add: sys_sem_valid_Some)
  note cnt = sem_inv_count [OF assms(1) i]
  show "sem_inv (sys_sem_notify (Some i) s)"
    using assms i cnt by (auto simp: sys_sem_notify_def Let_def intro!: sem_inv_upd)
  show "sys_sem_valid x (sys_sem_notify (Some i) s) = sys_sem_valid x s"
    using assms i by (auto simp: sys_sem_notify_def Let_def sys_sem_valid_def)
  show "sem_count (sem_of (sys_sem_notify (Some i) s) j) =
      (if j = i \<and> sem_count (sem_of s i) < INT_MAX then sem_count (sem_of s i) + 1 else sem_count (sem_of s j))"
    using assms i by (auto simp: sys_sem_notify_def Let_def)
qed

lemma fixq_invE:
  assumes "fixq_inv q s"
  obtains i j where "sem_inv s" "fixq_wf (fixqs s q)" "fq_send_sem (fixqs s q) = Some i"
    "fq_recv_sem (fixqs s q) = Some j" "i \<noteq> j" "sys_sem_valid (Some i) s" "sys_sem_valid (Some j) s"
    "i < NET_SYS_SEM_MAX" "j < NET_SYS_SEM_MAX"
    "sem_count (sem_of s i) + int (fq_count (fixqs s q)) = int (fq_size (fixqs s q))"
    "int (fq_count (fixqs s q)) \<le> sem_count (sem_of s j)"
  using assms by (auto simp: fixq_inv_def fixq_sems_def sys_sem_valid_Some split: option.splits)

lemma sys_sem_valid_dec:
  "sem_inv s \<Longrightarrow> i < NET_SYS_SEM_MAX \<Longrightarrow> sys_sem_valid x (upd_sem i dec_count s) = sys_sem_valid x s"
  by (auto simp: sys_sem_valid_def)

text \<open>A poll for space on a queue that is not full always succeeds, whatever the timeout; the
  message is stored behind the others.\<close>

lemma fixq_send_room:
  assumes "fixq_inv q s" and "fq_count (fixqs s q) < fq_size (fixqs s q)"
  obtains s' where "fixq_send (Some q) (Some m) timeout sleeps s = Some (NET_ERR_OK, s')"
    and "fixq_inv q s'" and "fixq_items q s' = fixq_items q s @ [m]"
    and "fq_size (fixqs s' q) = fq_size (fixqs s q)" and "\<And>r. r \<noteq> q \<Longrightarrow> fixqs s' r = fixqs s r"
proof -
  from assms(1) obtain i j where inv: "sem_inv s" "fixq_wf (fixqs s q)"
    "fq_send_sem (fixqs s q) = Some i" "fq_recv_sem (fixqs s q) = Some j" "i \<noteq> j"
    "sys_sem_valid (Some i) s" "sys_sem_valid (Some j) s" "i < NET_SYS_SEM_MAX" "j < NET_SYS_SEM_MAX"
    "sem_count (sem_of s i) + int (fq_count (fixqs s q)) = int (fq_size (fixqs s q))"
    "int (fq_count (fixqs s q)) \<le> sem_count (sem_of s j)"
    by (rule fixq_invE)
  let ?s1 = "upd_sem i dec_count s" and ?k = "fixqs s q"
  let ?s2 = "upd_fixq q (fixq_put m) ?s1"
  let ?s' = "sys_sem_notify (Some j) ?s2"
  from inv assms(2) have pos: "0 < sem_count (sem_of s i)" by simp
  have wait: "sys_sem_wait (Some i) timeout sleeps s = Some (NET_ERR_OK, ?s1)"
    using pos inv(6) by (cases sleeps) (auto simp: sys_sem_wait_def sem_wait_def Let_def)
  from sem_inv_count [OF inv(1,8)] pos have "sem_inv ?s1"
    by (intro sem_inv_upd inv) simp_all
  then have si: "sem_inv ?s2" by (simp add: sem_inv_def)
  have v: "sys_sem_valid x ?s2 = sys_sem_valid x s" for x
    using sys_sem_valid_dec [OF inv(1,8)] by (simp add: sys_sem_valid_def)
  with inv have vj: "sys_sem_valid (Some j) ?s2" by simp
  note n = sys_sem_notify_pool [OF si vj]
  note put = fixq_put_items [OF inv(2) assms(2)]
  have k: "fixqs ?s' = (fixqs s)(q := fixq_put m ?k)" by simp
  show thesis
  proof
    show "fixq_send (Some q) (Some m) timeout sleeps s = Some (NET_ERR_OK, ?s')"
      using wait assms(2) inv(3,4) by (simp add: fixq_send_def fixq_put_def Let_def)
    show "fixq_items q ?s' = fixq_items q s @ [m]"
      unfolding fixq_items_def k using put(2) by (simp add: fixq_put_def Let_def)
    have c: "sem_count (sem_of ?s2 i) = sem_count (sem_of s i) - 1" "sem_count (sem_of ?s2 j) = sem_count (sem_of s j)"
      using inv by simp_all
    have "int (fq_count ?k) + 1 \<le> INT_MAX"
      using inv(2) assms(2) by (simp add: fixq_wf_def)
    then have "fixq_sems q ?s'"
      using inv(3-5,10,11) c n(2,3) v inv(6,7) by (simp add: fixq_sems_def k fixq_put_def)
    then show "fixq_inv q ?s'"
      using n(1) put(1) by (simp add: fixq_inv_def k)
    show "fq_size (fixqs ?s' q) = fq_size ?k" by (simp add: k fixq_put_def)
    show "\<And>r. r \<noteq> q \<Longrightarrow> fixqs ?s' r = fixqs s r" by (simp add: k)
  qed
qed

lemma fixq_recv_item:
  assumes "fixq_inv q s" and "0 < fq_count (fixqs s q)"
  obtains s' where "fixq_recv (Some q) timeout sleeps s = Some (Some (hd (fixq_items q s)), s')"
    and "fixq_inv q s'" and "fixq_items q s = hd (fixq_items q s) # fixq_items q s'"
    and "fq_size (fixqs s' q) = fq_size (fixqs s q)" and "\<And>r. r \<noteq> q \<Longrightarrow> fixqs s' r = fixqs s r"
proof -
  from assms(1) obtain i j where inv: "sem_inv s" "fixq_wf (fixqs s q)"
    "fq_send_sem (fixqs s q) = Some i" "fq_recv_sem (fixqs s q) = Some j" "i \<noteq> j"
    "sys_sem_valid (Some i) s" "sys_sem_valid (Some j) s" "i < NET_SYS_SEM_MAX" "j < NET_SYS_SEM_MAX"
    "sem_count (sem_of s i) + int (fq_count (fixqs s q)) = int (fq_size (fixqs s q))"
    "int (fq_count (fixqs s q)) \<le> sem_count (sem_of s j)"
    by (rule fixq_invE)
  obtain r k' where tk: "fixq_take (fixqs s q) = (r, k')" by (metis surj_pair)
  note take = fixq_take_items [OF inv(2) assms(2) tk]
  let ?s1 = "upd_sem j dec_count s" and ?k = "fixqs s q"
  let ?s2 = "upd_fixq q (\<lambda>_. k') ?s1"
  let ?s' = "sys_sem_notify (Some i) ?s2"
  from inv assms(2) have pos: "0 < sem_count (sem_of s j)" by simp
  have wait: "sys_sem_wait (Some j) timeout sleeps s = Some (NET_ERR_OK, ?s1)"
    using pos inv(7) by (cases sleeps) (auto simp: sys_sem_wait_def sem_wait_def Let_def)
  from sem_inv_count [OF inv(1,9)] pos have "sem_inv ?s1"
    by (intro sem_inv_upd inv) simp_all
  then have si: "sem_inv ?s2" by (simp add: sem_inv_def)
  have v: "sys_sem_valid x ?s2 = sys_sem_valid x s" for x
    using sys_sem_valid_dec [OF inv(1,9)] by (simp add: sys_sem_valid_def)
  with inv have vi: "sys_sem_valid (Some i) ?s2" by simp
  note n = sys_sem_notify_pool [OF si vi]
  have k: "fixqs ?s' = (fixqs s)(q := k')" by simp
  show thesis
  proof
    show items: "fixq_items q s = hd (fixq_items q s) # fixq_items q ?s'"
      unfolding fixq_items_def k Let_def using take(7) by simp
    have "hd (fixq_items q s) = fq_buf ?k ! fq_out ?k"
      unfolding fixq_items_def Let_def using take(7) by simp
    then show "fixq_recv (Some q) timeout sleeps s = Some (Some (hd (fixq_items q s)), ?s')"
      using wait assms(2) inv(3,4) tk take(4,5) by (simp add: fixq_recv_def Let_def)
    have c: "sem_count (sem_of ?s2 i) = sem_count (sem_of s i)" "sem_count (sem_of ?s2 j) = sem_count (sem_of s j) - 1"
      using inv by simp_all
    have "sem_count (sem_of s i) < INT_MAX"
      using inv(2,10) assms(2) by (simp add: fixq_wf_def)
    then have "fixq_sems q ?s'"
      using inv(3-5,10,11) c n(2,3) v inv(6,7) take(2,3,5,6) by (simp add: fixq_sems_def k)
    then show "fixq_inv q ?s'"
      using n(1) take(1) by (simp add: fixq_inv_def k)
    show "fq_size (fixqs ?s' q) = fq_size ?k" by (simp add: k take(2))
    show "\<And>r. r \<noteq> q \<Longrightarrow> fixqs ?s' r = fixqs s r" by (simp add: k)
  qed
qed

lemma fixq_items_length [simp]: "length (fixq_items q s) = fq_count (fixqs s q)"
  by (simp add: fixq_items_def Let_def)

lemma fixq_items_Nil [simp]: "fixq_items q s = [] \<longleftrightarrow> fq_count (fixqs s q) = 0"
  using fixq_items_length [of q s] by (metis length_0_conv)

lemma fixq_send_full:
  "fq_count (fixqs s q) = fq_size (fixqs s q) \<Longrightarrow> timeout < 0 \<Longrightarrow>
   fixq_send (Some q) (Some m) timeout sleeps s = Some (NET_ERR_FULL, s)"
  by (simp add: fixq_send_def)

lemma fixq_recv_empty:
  "fq_count (fixqs s q) = 0 \<Longrightarrow> timeout < 0 \<Longrightarrow> fixq_recv (Some q) timeout sleeps s = Some (None, s)"
  by (simp add: fixq_recv_def)

interpretation fq: bounded_fifo "fixq_inv q" "fixq_items q" "\<lambda>s. fq_size (fixqs s q)" "fixq_push q" "fixq_pop q"
  for q
proof unfold_locales
  fix s :: "'a fixq_state_scheme"
  assume inv: "fixq_inv q s"
  then show "length (fixq_items q s) \<le> fq_size (fixqs s q)"
    by (simp add: fixq_inv_def fixq_wf_def)
  show "fixq_push q x s = (False, s)" if "length (fixq_items q s) = fq_size (fixqs s q)" for x
    using that by (simp add: fixq_push_def fixq_send_full)
  show "fixq_pop q s = (None, s)" if "fixq_items q s = []"
    using that by (simp add: fixq_pop_def fixq_recv_empty)
  show "ok \<and> fixq_inv q s' \<and> fixq_items q s' = fixq_items q s @ [x] \<and> fq_size (fixqs s' q) = fq_size (fixqs s q)"
    if "length (fixq_items q s) < fq_size (fixqs s q)" "fixq_push q x s = (ok, s')" for x ok s'
    by (rule fixq_send_room [OF inv, of x "-1" "[]"]) (use that in \<open>auto simp: fixq_push_def\<close>)
  show "r = Some x \<and> fixq_inv q s' \<and> fixq_items q s' = xs \<and> fq_size (fixqs s' q) = fq_size (fixqs s q)"
    if "fixq_items q s = x # xs" "fixq_pop q s = (r, s')" for x xs r s'
  proof -
    from that(1) have "0 < fq_count (fixqs s q)" using fixq_items_length [of q s] by simp
    then show ?thesis
      by (rule fixq_recv_item [OF inv, of "-1" "[]"]) (use that in \<open>auto simp: fixq_pop_def\<close>)
  qed
qed


section \<open>Concurrent senders and receivers\<close>

text \<open>
  Any number of senders and receivers use one queue at the same time. A sender takes a unit of the
  send semaphore (\<open>send_enter\<close>), stores its message under the lock (\<open>send_store\<close>) and posts the
  receive semaphore (\<open>send_exit\<close>); a receiver goes the other way round. \<open>c_s1\<close> and \<open>c_s2\<close> count the
  senders between the first two and the last two of these steps, \<open>c_r1\<close> and \<open>c_r2\<close> the
  receivers. \<open>c_sent\<close> and \<open>c_got\<close> are the messages stored and taken so far, in this order.
\<close>

record fq_conf =
  c_q :: fixq
  c_st :: int
  c_rt :: int
  c_s1 :: nat
  c_s2 :: nat
  c_r1 :: nat
  c_r2 :: nat
  c_sent :: "addr list"
  c_got :: "addr list"

definition notify_count :: "int \<Rightarrow> int" where
  "notify_count n = (if n < INT_MAX then n + 1 else n)"

inductive fq_step :: "fq_conf \<Rightarrow> fq_conf \<Rightarrow> bool" where
  send_enter: "0 < c_st c \<Longrightarrow> fq_step c (c\<lparr>c_st := c_st c - 1, c_s1 := Suc (c_s1 c)\<rparr>)"
| send_store: "c_s1 c = Suc n \<Longrightarrow>
    fq_step c (c\<lparr>c_q := fixq_put m (c_q c), c_s1 := n, c_s2 := Suc (c_s2 c), c_sent := c_sent c @ [m]\<rparr>)"
| send_exit: "c_s2 c = Suc n \<Longrightarrow> fq_step c (c\<lparr>c_rt := notify_count (c_rt c), c_s2 := n\<rparr>)"
| recv_enter: "0 < c_rt c \<Longrightarrow> fq_step c (c\<lparr>c_rt := c_rt c - 1, c_r1 := Suc (c_r1 c)\<rparr>)"
| recv_none: "c_r1 c = Suc n \<Longrightarrow> fixq_take (c_q c) = (None, k) \<Longrightarrow> fq_step c (c\<lparr>c_q := k, c_r1 := n\<rparr>)"
| recv_take: "c_r1 c = Suc n \<Longrightarrow> fixq_take (c_q c) = (Some m, k) \<Longrightarrow>
    fq_step c (c\<lparr>c_q := k, c_r1 := n, c_r2 := Suc (c_r2 c), c_got := c_got c @ [m]\<rparr>)"
| recv_exit: "c_r2 c = Suc n \<Longrightarrow> fq_step c (c\<lparr>c_st := notify_count (c_st c), c_r2 := n\<rparr>)"
| wake: "fq_step c (c\<lparr>c_rt := notify_count (c_rt c)\<rparr>)"

definition fq_conf_items :: "fq_conf \<Rightarrow> addr list" where
  "fq_conf_items c = ring_items (fq_buf (c_q c)) (fq_out (c_q c)) (fq_count (c_q c)) (fq_size (c_q c))"

definition fq_conf_init :: "nat \<Rightarrow> addr list \<Rightarrow> fq_conf" where
  "fq_conf_init sz buf =
     \<lparr>c_q = \<lparr>fq_size = sz, fq_buf = buf, fq_in = 0, fq_out = 0, fq_count = 0, fq_send_sem = None,
             fq_recv_sem = None, fq_locker_type = NLOCKER_THREAD\<rparr>,
      c_st = int sz, c_rt = 0, c_s1 = 0, c_s2 = 0, c_r1 = 0, c_r2 = 0, c_sent = [], c_got = []\<rparr>"

text \<open>Every place of the ring is accounted for: free with a unit of the send semaphore, reserved by a
  sender, holding a message, or just emptied by a receiver. No message lacks its receive unit.\<close>

definition fq_conf_inv :: "fq_conf \<Rightarrow> bool" where
  "fq_conf_inv c \<longleftrightarrow> fixq_wf (c_q c) \<and> 0 \<le> c_st c \<and> 0 \<le> c_rt c \<and>
     c_st c + int (c_s1 c) + int (fq_count (c_q c)) + int (c_r2 c) = int (fq_size (c_q c)) \<and>
     int (fq_count (c_q c)) \<le> c_rt c + int (c_r1 c) + int (c_s2 c) \<and>
     c_sent c = c_got c @ fq_conf_items c"

lemma fixq_put_simps [simp]:
  "fq_size (fixq_put m k) = fq_size k" "fq_count (fixq_put m k) = Suc (fq_count k)"
  "fq_out (fixq_put m k) = fq_out k"
  by (simp_all add: fixq_put_def)

lemma fixq_take_None: "fixq_take k = (None, k') \<longleftrightarrow> fq_count k = 0 \<and> k' = k"
  by (auto simp: fixq_take_def)

lemma fixq_take_Some_pos: "fixq_take k = (Some m, k') \<Longrightarrow> 0 < fq_count k"
  by (auto simp: fixq_take_def split: if_splits)

lemma fq_conf_init_inv:
  "0 < sz \<Longrightarrow> int sz \<le> INT_MAX \<Longrightarrow> sz \<le> length buf \<Longrightarrow> fq_conf_inv (fq_conf_init sz buf)"
  by (simp add: fq_conf_inv_def fq_conf_init_def fixq_wf_def fq_conf_items_def)

lemma fq_step_inv: "fq_step c c' \<Longrightarrow> fq_conf_inv c \<Longrightarrow> fq_conf_inv c'"
proof (induction rule: fq_step.induct)
  case (send_store c n m)
  then have "fq_count (c_q c) < fq_size (c_q c)" by (simp add: fq_conf_inv_def)
  with send_store fixq_put_items [of "c_q c" m] show ?case
    by (simp add: fq_conf_inv_def fq_conf_items_def)
next
  case (recv_take c n m k)
  from fixq_take_items [OF _ fixq_take_Some_pos [OF recv_take(2)] recv_take(2)] recv_take show ?case
    by (simp add: fq_conf_inv_def fq_conf_items_def)
qed (auto simp: fq_conf_inv_def notify_count_def fixq_take_None fixq_wf_def fq_conf_items_def)

lemma fq_steps_inv: "fq_step\<^sup>*\<^sup>* c c' \<Longrightarrow> fq_conf_inv c \<Longrightarrow> fq_conf_inv c'"
  by (induction rule: rtranclp_induct) (auto intro: fq_step_inv)

end
