(* ===== verification/Net_Tools.thy ===== *)
theory Net_Tools
  imports Net_Prelude
begin

text \<open>
  \<^verbatim>\<open>kernel/include/timeros/net/tools.h\<close> and \<^verbatim>\<open>kernel/src/net/tools.c\<close>: byte order and
  the Internet checksum. The machine is little-endian (\<^verbatim>\<open>NET_ENDIAN_LITTLE\<close> is 1), so a
  16-bit field of a packed header occupies its low byte first; \<open>le16_bytes\<close> and \<open>le16_at\<close>
  are that layout.

  The lemmas show that the byte order conversions are involutions and put the high byte
  first, that the folding loop ends and computes the ones' complement residue \<open>oc\<close>, that a
  checksum does not depend on how the data is cut into pieces, and that data carrying the
  complement of its own sum verifies.
\<close>


section \<open>Byte order\<close>

definition swap_u16 :: "u16 \<Rightarrow> u16" where
  "swap_u16 value = (push_bit 8 value) OR (drop_bit 8 value)"

definition swap_u32 :: "u32 \<Rightarrow> u32" where
  "swap_u32 value =
     push_bit 24 (value AND 0x000000ff) OR push_bit 8 (value AND 0x0000ff00) OR
     drop_bit 8 (value AND 0x00ff0000) OR drop_bit 24 (value AND 0xff000000)"

definition x_htons :: "u16 \<Rightarrow> u16" where "x_htons value = swap_u16 value"
definition x_ntohs :: "u16 \<Rightarrow> u16" where "x_ntohs value = swap_u16 value"
definition x_htonl :: "u32 \<Rightarrow> u32" where "x_htonl value = swap_u32 value"
definition x_ntohl :: "u32 \<Rightarrow> u32" where "x_ntohl value = swap_u32 value"

text \<open>A field in memory, low byte first.\<close>

definition le16_bytes :: "u16 \<Rightarrow> u8 list" where
  "le16_bytes w = [ucast w, ucast (drop_bit 8 w)]"

definition le16_at :: "u8 list \<Rightarrow> nat \<Rightarrow> u16" where
  "le16_at bs i = ucast (bs ! i) OR push_bit 8 (ucast (bs ! (i + 1)))"

definition le32_bytes :: "u32 \<Rightarrow> u8 list" where
  "le32_bytes w = [ucast w, ucast (drop_bit 8 w), ucast (drop_bit 16 w), ucast (drop_bit 24 w)]"

definition le32_at :: "u8 list \<Rightarrow> nat \<Rightarrow> u32" where
  "le32_at bs i = ucast (bs ! i) OR push_bit 8 (ucast (bs ! (i + 1))) OR
     push_bit 16 (ucast (bs ! (i + 2))) OR push_bit 24 (ucast (bs ! (i + 3)))"


section \<open>The Internet checksum\<close>

function net_checksum_fold :: "u32 \<Rightarrow> u32" where
  "net_checksum_fold acc =
     (if drop_bit 16 acc \<noteq> 0 then net_checksum_fold ((acc AND 0xffff) + drop_bit 16 acc) else acc)"
  by pat_completeness auto

lemma unat_low_half: "unat ((acc :: u32) AND 0xffff) = unat acc mod 65536"
proof -
  have "acc AND 0xffff = take_bit 16 acc"
    by (simp add: take_bit_eq_mask mask_numeral)
  then show ?thesis
    by (simp only: take_bit_eq_mod unat_mod_distrib) simp
qed

lemma unat_high_half: "unat (drop_bit 16 (acc :: u32)) = unat acc div 65536"
  by (simp only: drop_bit_eq_div unat_div_distrib) simp

lemma high_half_zero: "drop_bit 16 (acc :: u32) \<noteq> 0 \<longleftrightarrow> 65536 \<le> unat acc"
  by (metis div_less div_greater_zero_iff unat_high_half less_not_refl not_less unat_0 unsigned_eq_0_iff
      zero_less_numeral)

lemma unat_fold_step:
  fixes acc :: u32
  shows "unat ((acc AND 0xffff) + drop_bit 16 acc) = unat acc mod 65536 + unat acc div 65536"
proof -
  have "unat acc < 2 ^ 32"
    using unsigned_less [of acc] by simp
  moreover have "unat acc = unat acc div 65536 * 65536 + unat acc mod 65536"
    by simp
  ultimately have "unat acc mod 65536 + unat acc div 65536 < 2 ^ 32"
    by linarith
  then show ?thesis
    by (simp only: unat_word_ariths unat_low_half unat_high_half) simp
qed

termination net_checksum_fold
proof (relation "measure unat")
  fix acc :: u32
  assume "drop_bit 16 acc \<noteq> 0"
  then have "65536 \<le> unat acc"
    by (simp only: high_half_zero)
  then have "0 < unat acc div 65536"
    by (simp add: div_greater_zero_iff)
  moreover have "unat acc = unat acc div 65536 * 65536 + unat acc mod 65536"
    by simp
  ultimately have "unat acc mod 65536 + unat acc div 65536 < unat acc"
    by linarith
  then show "((acc AND 0xffff) + drop_bit 16 acc, acc) \<in> measure unat"
    by (simp only: in_measure unat_fold_step)
qed simp

declare net_checksum_fold.simps [simp del]

fun checksum_loop :: "u32 \<Rightarrow> u8 list \<Rightarrow> u32 \<Rightarrow> u32" where
  "checksum_loop pos [] acc = acc"
| "checksum_loop pos (b # bs) acc =
     checksum_loop (pos + 1) bs
       (net_checksum_fold (acc + (if pos AND 1 = 0 then push_bit 8 (ucast b) else ucast b)))"

definition checksum16 :: "u32 \<Rightarrow> u8 list \<Rightarrow> u16 \<Rightarrow> u32 \<Rightarrow> bool \<Rightarrow> u16" where
  "checksum16 offset buf len pre_sum complement =
     (let acc = checksum_loop offset (take (unat len) buf) pre_sum
      in if complement then ucast (NOT acc) else ucast acc)"

definition net_checksum16 :: "u8 list \<Rightarrow> u32 \<Rightarrow> u32 \<Rightarrow> u16" where
  "net_checksum16 data len acc = checksum16 0 data (ucast len) acc False"

definition tools_init :: net_err where
  "tools_init = NET_ERR_OK"


section \<open>Byte order is an involution with the high byte first\<close>

lemma swap_u16_swap_u16 [simp]: "swap_u16 (swap_u16 w) = w"
  by (rule bit_word_eqI) (auto simp: swap_u16_def bit_simps)

lemma byte_cases:
  assumes "n < (32::nat)"
  obtains "n < 8" | k where "n = k + 8" "k < 8" | k where "n = k + 16" "k < 8"
    | k where "n = k + 24" "k < 8"
proof -
  consider "n < 8" | "8 \<le> n" "n < 16" | "16 \<le> n" "n < 24" | "24 \<le> n"
    by linarith
  then show thesis
    by cases (use assms that(1) that(2) [of "n - 8"] that(3) [of "n - 16"] that(4) [of "n - 24"] in auto)
qed

lemma swap_u32_masks:
  "swap_u32 w = push_bit 24 (w AND mask 8) OR push_bit 8 (w AND push_bit 8 (mask 8)) OR
     drop_bit 8 (w AND push_bit 16 (mask 8)) OR drop_bit 24 (w AND push_bit 24 (mask 8))"
  by (simp add: swap_u32_def mask_numeral)

lemma bit_swap_u32:
  assumes "n < 32"
  shows "bit (swap_u32 w) n =
    (if n < 8 then bit w (n + 24) else if n < 16 then bit w (n + 8)
     else if n < 24 then bit w (n - 8) else bit w (n - 24))"
  using assms by (rule byte_cases) (simp_all add: swap_u32_masks bit_simps add.commute)

lemma swap_u32_swap_u32 [simp]: "swap_u32 (swap_u32 w) = w"
proof (rule bit_word_eqI)
  fix n assume "n < LENGTH(32)"
  then have "n < 32" by simp
  then show "bit (swap_u32 (swap_u32 w)) n = bit w n"
    by (rule byte_cases) (simp_all add: bit_swap_u32 add.commute)
qed

lemma x_ntohs_x_htons [simp]: "x_ntohs (x_htons w) = w"
  by (simp add: x_ntohs_def x_htons_def)

lemma x_ntohl_x_htonl [simp]: "x_ntohl (x_htonl w) = w"
  by (simp add: x_ntohl_def x_htonl_def)

lemma le16_bytes_x_htons: "le16_bytes (x_htons w) = [ucast (drop_bit 8 w), ucast w]"
  by (auto simp: le16_bytes_def x_htons_def swap_u16_def bit_simps intro!: bit_word_eqI)

lemma length_le16_bytes [simp]: "length (le16_bytes w) = 2"
  by (simp add: le16_bytes_def)

lemma length_le32_bytes [simp]: "length (le32_bytes w) = 4"
  by (simp add: le32_bytes_def)

lemma le16_at_bytes [simp]: "le16_at (le16_bytes w) 0 = w"
  by (rule bit_word_eqI) (auto simp: le16_at_def le16_bytes_def bit_simps)

lemma le32_at_bytes [simp]: "le32_at (le32_bytes w) 0 = w"
proof (rule bit_word_eqI)
  fix n assume "n < LENGTH(32)"
  then have "n < 32" by simp
  then show "bit (le32_at (le32_bytes w) 0) n = bit w n"
    by (rule byte_cases) (simp_all add: le32_at_def le32_bytes_def bit_simps add.commute)
qed


section \<open>The folded sum is the ones' complement residue\<close>

text \<open>
  \<open>oc n\<close> is the representative of \<open>n\<close> modulo 65535 in \<open>{1..65535}\<close>, or 0 for 0: what adding
  16-bit words with end-around carry gives. \<open>wsum even bs\<close> is the plain sum of the bytes with
  the weights the loop gives them, starting at an even or odd offset.
\<close>

definition oc :: "nat \<Rightarrow> nat" where
  "oc n = (if n = 0 then 0 else Suc ((n - 1) mod 65535))"

fun wsum :: "bool \<Rightarrow> u8 list \<Rightarrow> nat" where
  "wsum ev [] = 0"
| "wsum ev (b # bs) = (if ev then 256 * unat b else unat b) + wsum (\<not> ev) bs"

lemma oc_small: "n \<le> 65535 \<Longrightarrow> oc n = n"
  by (simp add: oc_def)

lemma oc_le: "oc n \<le> 65535"
  using mod_less_divisor [of 65535 "n - 1"] by (simp add: oc_def del: mod_less_divisor)

lemma oc_add_multiple: "0 < a \<Longrightarrow> oc (a + 65535 * k) = oc a"
proof -
  assume "0 < a"
  then have "(a + 65535 * k - 1) mod 65535 = (a - 1) mod 65535"
    by (cases a) (simp_all)
  then show ?thesis using \<open>0 < a\<close> by (simp add: oc_def)
qed

lemma oc_oc_add: "oc (oc a + b) = oc (a + b)"
proof (cases "a = 0")
  case True
  then show ?thesis by (simp add: oc_def)
next
  case False
  have "a = oc a + 65535 * ((a - 1) div 65535)"
    using False div_mult_mod_eq [of "a - 1" 65535] by (simp add: oc_def)
  then have "a + b = (oc a + b) + 65535 * ((a - 1) div 65535)" by simp
  moreover have "0 < oc a + b" using False by (simp add: oc_def)
  ultimately show ?thesis by (metis oc_add_multiple)
qed

lemma oc_eq_0 [simp]: "oc n = 0 \<longleftrightarrow> n = 0"
  by (simp add: oc_def)

lemma unat_net_checksum_fold: "unat (net_checksum_fold s) = oc (unat s)"
proof (induction s rule: net_checksum_fold.induct)
  case (1 s)
  show ?case
  proof (cases "65536 \<le> unat s")
    case True
    let ?q = "unat s div 65536" and ?r = "unat s mod 65536"
    have q: "0 < ?q" using True by (simp add: div_greater_zero_iff)
    have "unat s = ?q * 65536 + ?r" by simp
    then have s: "unat s = (?r + ?q) + 65535 * ?q" by linarith
    have nz: "drop_bit 16 s \<noteq> 0" using True by (simp only: high_half_zero)
    have "unat (net_checksum_fold s) = oc (?r + ?q)"
      by (subst net_checksum_fold.simps, subst if_P [OF nz], subst "1.IH" [OF nz],
          subst unat_fold_step, rule refl)
    also have "\<dots> = oc (unat s)"
      by (subst (3) s, rule oc_add_multiple [symmetric]) (use q in simp)
    finally show ?thesis .
  next
    case False
    then have nz: "\<not> drop_bit 16 s \<noteq> 0" by (subst high_half_zero)
    have "net_checksum_fold s = s"
      by (subst net_checksum_fold.simps, subst if_not_P [OF nz], rule refl)
    then show ?thesis using False by (simp add: oc_small)
  qed
qed

lemma net_checksum_fold_le: "unat (net_checksum_fold s) \<le> 65535"
  by (simp add: unat_net_checksum_fold oc_le)

lemma even_u32_iff: "(w :: u32) AND 1 = 0 \<longleftrightarrow> even (unat w)"
proof -
  have "bit (unat w) 0 \<longleftrightarrow> bit w 0" by (simp only: bit_unsigned_iff) simp
  then show ?thesis by (simp add: and_one_eq mod_2_eq_odd bit_0)
qed

lemma unat_weighted_byte:
  "unat ((if ev then push_bit 8 (ucast (b :: u8)) else ucast b) :: u32) =
   (if ev then 256 * unat b else unat b)"
proof -
  have b: "unat b < 256" using unsigned_less [of b] by simp
  have u: "unat (ucast b :: u32) = unat b"
    using b by (simp add: unsigned_ucast_eq take_bit_nat_eq_self)
  moreover have "unat (push_bit 8 (ucast b) :: u32) = 256 * unat b"
    using b by (simp add: push_bit_eq_mult unat_word_ariths u)
  ultimately show ?thesis by (simp only: if_split) simp
qed

lemma unat_checksum_step:
  fixes pos :: u32
  assumes "unat s \<le> 65535"
  shows "unat (net_checksum_fold (s + (if pos AND 1 = 0 then push_bit 8 (ucast b) else ucast (b :: u8)))) =
         oc (unat s + (if even (unat pos) then 256 * unat b else unat b))"
proof -
  let ?w = "(if pos AND 1 = 0 then push_bit 8 (ucast b) else ucast b) :: u32"
  have w: "unat ?w = (if even (unat pos) then 256 * unat b else unat b)"
    by (subst unat_weighted_byte, subst even_u32_iff, rule refl)
  have "unat b < 256" using unsigned_less [of b] by simp
  then have "unat s + unat ?w < 2 ^ 32"
    using assms unfolding w by auto
  then have "unat (s + ?w) = unat s + unat ?w"
    by (simp add: unat_word_ariths)
  then show ?thesis by (simp only: unat_net_checksum_fold w)
qed

lemma even_unat_Suc: "even (unat ((pos :: u32) + 1)) \<longleftrightarrow> odd (unat pos)"
proof -
  have "unat (pos + 1) = (unat pos + 1) mod 2 ^ 32"
    by (simp add: unat_word_ariths)
  then show ?thesis by (simp add: dvd_mod_iff)
qed

lemma unat_checksum_loop:
  "unat s \<le> 65535 \<Longrightarrow> unat (checksum_loop pos bs s) = oc (unat s + wsum (even (unat pos)) bs)"
proof (induction bs arbitrary: pos s)
  case Nil
  then show ?case by (simp add: oc_small)
next
  case (Cons b bs)
  let ?s = "net_checksum_fold (s + (if pos AND 1 = 0 then push_bit 8 (ucast b) else ucast b))"
  have le: "unat ?s \<le> 65535" by (rule net_checksum_fold_le)
  have "unat (checksum_loop pos (b # bs) s) = oc (unat ?s + wsum (odd (unat pos)) bs)"
    using Cons.IH [OF le, of "pos + 1"] by (simp add: even_unat_Suc)
  also have "\<dots> = oc (unat s + wsum (even (unat pos)) (b # bs))"
    by (subst unat_checksum_step [OF Cons.prems]) (simp add: oc_oc_add add.assoc)
  finally show ?case .
qed

lemma checksum_loop_append:
  "checksum_loop pos (as @ bs) s = checksum_loop (pos + of_nat (length as)) bs (checksum_loop pos as s)"
  by (induction as arbitrary: pos s) (simp_all add: algebra_simps)

lemma checksum_loop_le: "unat s \<le> 65535 \<Longrightarrow> unat (checksum_loop pos bs s) \<le> 65535"
  by (simp add: unat_checksum_loop oc_le)

lemma wsum_append:
  "wsum ev (as @ bs) = wsum ev as + wsum (ev = even (length as)) bs"
proof (induction as arbitrary: ev)
  case (Cons a as)
  have "((\<not> ev) = even (length as)) = (ev = even (length (a # as)))" by auto
  then show ?case using Cons [of "\<not> ev"] by simp
qed simp


section \<open>Checksums of whole buffers\<close>

lemma unat_ucast_u16: "unat (s :: u32) \<le> 65535 \<Longrightarrow> unat (ucast s :: u16) = unat s"
  by (simp add: unsigned_ucast_eq take_bit_nat_eq_self)

lemma unat_not_u16: "unat (NOT w :: u16) = 65535 - unat w"
proof -
  have "NOT w = - 1 - w" by (simp add: not_eq_complement)
  moreover have "unat (- 1 - w) = unat (- 1 :: u16) - unat w"
    by (rule unat_sub) simp
  ultimately show ?thesis by (simp add: unsigned_minus_1_eq_mask mask_numeral)
qed

lemma ucast_not_u16: "(ucast (NOT s) :: u16) = NOT (ucast (s :: u32))"
  by (rule bit_word_eqI) (simp add: bit_simps)

lemma unat_checksum16:
  assumes "unat pre \<le> 65535" and "length buf = unat len"
  shows "unat (checksum16 off buf len pre False) = oc (unat pre + wsum (even (unat off)) buf)"
    and "unat (checksum16 off buf len pre True) = 65535 - oc (unat pre + wsum (even (unat off)) buf)"
  using assms checksum_loop_le [OF assms(1), of off buf]
  by (simp_all add: checksum16_def Let_def ucast_not_u16 unat_not_u16 unat_ucast_u16 unat_checksum_loop)

text \<open>
  The checksum of a buffer is the checksum of its second part continued from the checksum of
  its first part at the offset where the first part ends.
\<close>

lemma ucast_checksum_loop:
  assumes "unat s \<le> 65535"
  shows "ucast (ucast (checksum_loop pos bs s) :: u16) = checksum_loop pos bs s"
proof -
  have "unat (ucast (ucast (checksum_loop pos bs s) :: u16) :: u32) = unat (checksum_loop pos bs s)"
    using checksum_loop_le [OF assms, of pos bs]
    by (simp add: unsigned_ucast_eq unsigned_take_bit_eq take_bit_nat_eq_self)
  then show ?thesis by (simp only: word_unat_eq_iff)
qed

lemma checksum16_append:
  assumes "unat pre \<le> 65535"
    and "length as = unat la" and "length bs = unat lb" and "length as + length bs = unat lab"
  shows "checksum16 off (as @ bs) lab pre complement =
         checksum16 (off + of_nat (length as)) bs lb (ucast (checksum16 off as la pre False)) complement"
  using assms by (simp add: checksum16_def Let_def ucast_checksum_loop checksum_loop_append)

lemma wsum_be16:
  "wsum True (le16_bytes (x_htons c)) = unat c"
proof -
  have "unat (ucast (drop_bit 8 c) :: u8) = unat c div 256"
  proof -
    have "unat c < 65536" using unsigned_less [of c] by simp
    then have "unat (drop_bit 8 c) < 256"
      by (simp add: unsigned_drop_bit_eq drop_bit_eq_div div_less_iff_less_mult unat_div_distrib)
    then show ?thesis
      by (simp add: unsigned_ucast_eq take_bit_nat_eq_self drop_bit_eq_div unat_div_distrib)
  qed
  moreover have "unat (ucast c :: u8) = unat c mod 256"
    by (simp add: unsigned_ucast_eq take_bit_eq_mod)
  ultimately show ?thesis by (simp add: le16_bytes_x_htons)
qed

lemma checksum16_verifies:
  assumes pre: "unat pre \<le> 65535" and even: "even (length as)" "even (unat off)"
    and len: "length as + 2 + length bs = unat len"
    and c: "c = checksum16 off (as @ [0, 0] @ bs) len pre True"
  shows "checksum16 off (as @ le16_bytes (x_htons c) @ bs) len pre True = 0"
proof -
  let ?s = "unat pre + wsum True (as @ [0, 0] @ bs)"
  have ev: "even (unat off) = True" using even by simp
  have c': "unat c = 65535 - oc ?s"
    using unat_checksum16(2) [OF pre, of "as @ [0, 0] @ bs" len off] len by (simp add: c ev)
  have sum: "wsum True (as @ le16_bytes (x_htons c) @ bs) = wsum True (as @ [0, 0] @ bs) + unat c"
    using even wsum_be16 [of c] by (simp add: wsum_append)
  have "oc (?s + unat c) = oc (oc ?s + (65535 - oc ?s))"
    by (simp add: oc_oc_add c')
  also have "\<dots> = 65535" using oc_le [of ?s] by (simp add: oc_def)
  finally have "unat (checksum16 off (as @ le16_bytes (x_htons c) @ bs) len pre True) = 0"
    using unat_checksum16(2) [OF pre, of "as @ le16_bytes (x_htons c) @ bs" len off] len
    by (simp add: ev sum add.assoc)
  then show ?thesis by (simp add: unsigned_eq_0_iff)
qed

end
