(* ===== verification/Pktbuf.thy ===== *)
theory Pktbuf
  imports Fixq Net_Tools
begin

text \<open>
  Packet buffers, \<^verbatim>\<open>kernel/src/net/pktbuf.c\<close>. A packet is a chain of blocks; each block has an
  area of 1024 bytes of which the \<^verbatim>\<open>size\<close> bytes from \<^verbatim>\<open>data\<close> on are used. A buffer has a cursor
  (\<^verbatim>\<open>pos\<close>, \<^verbatim>\<open>curr_blk\<close>, \<^verbatim>\<open>blk_offset\<close>).

  A block is a value carrying its identity and its bytes; a chain is the list of its blocks (see
  \<open>Nlist\<close> for the pointers). \<^verbatim>\<open>data\<close> and \<^verbatim>\<open>blk_offset\<close> are offsets into the area of their
  block, \<open>None\<close> when null; \<^verbatim>\<open>curr_blk\<close> is the position of the block in the chain. The two
  allocators hand out the block or buffer that has been free longest (see \<open>Mblock\<close>).

  The value \<open>None\<close> of an operation is a failed assertion, an access outside the memory concerned, or
  a loop that goes round for ever without progress.
\<close>

definition PKTBUF_BLK_SIZE :: nat where "PKTBUF_BLK_SIZE = 1024"

definition PKTBUF_BLK_CNT :: nat where "PKTBUF_BLK_CNT = 256"

definition PKTBUF_BUF_CNT :: nat where "PKTBUF_BUF_CNT = 128"

record pktblk =
  blk_id :: nat
  blk_size :: nat
  blk_data :: "nat option"
  blk_payload :: "u8 list"

record pktbuf =
  total_size :: nat
  blk_list :: "pktblk list"
  ref :: nat
  pos :: nat
  curr_blk :: "nat option"
  blk_offset :: "nat option"

record pkt_state = fixq_state +
  block_list :: "pktblk list"
  pktbuf_list :: "nat list"
  pktbufs :: "nat \<Rightarrow> pktbuf"

abbreviation blk_off :: "pktblk \<Rightarrow> nat" where
  "blk_off b \<equiv> the (blk_data b)"

text \<open>An operation of a buffer works on the buffer and the list of free blocks.\<close>

type_synonym buf_fun = "pktbuf \<Rightarrow> pktblk list \<Rightarrow> (net_err \<times> pktbuf \<times> pktblk list) option"


section \<open>Blocks and chains\<close>

definition total_blk_remain :: "pktbuf \<Rightarrow> int" where
  "total_blk_remain b = int (total_size b) - int (pos b)"

text \<open>A cursor that does not stand in the chain has nothing left.\<close>

definition curr_blk_remain :: "pktbuf \<Rightarrow> nat" where
  "curr_blk_remain b =
     (case (curr_blk b, blk_offset b) of
        (Some i, Some off) \<Rightarrow>
          if i < length (blk_list b)
          then blk_off (blk_list b ! i) + blk_size (blk_list b ! i) - off else 0
      | _ \<Rightarrow> 0)"

definition curr_blk_tail_free :: "pktblk \<Rightarrow> nat" where
  "curr_blk_tail_free k = PKTBUF_BLK_SIZE - blk_off k - blk_size k"

definition pktbuf_reset_acc :: "pktbuf \<Rightarrow> pktbuf" where
  "pktbuf_reset_acc b =
     b\<lparr>pos := 0, curr_blk := (if blk_list b = [] then None else Some 0),
       blk_offset := (case blk_list b of [] \<Rightarrow> None | k # _ \<Rightarrow> blk_data k)\<rparr>"

definition pktblock_free :: "pktblk \<Rightarrow> pktblk list \<Rightarrow> pktblk list" where
  "pktblock_free k free = free @ [k]"

primrec pktblock_free_list :: "pktblk list \<Rightarrow> pktblk list \<Rightarrow> pktblk list" where
  "pktblock_free_list [] free = free"
| "pktblock_free_list (k # ks) free = pktblock_free_list ks (pktblock_free k free)"

definition pktblock_alloc :: "pktblk list \<Rightarrow> pktblk option \<times> pktblk list" where
  "pktblock_alloc free =
     (case free of
        [] \<Rightarrow> (None, free)
      | k # ks \<Rightarrow> (Some (k\<lparr>blk_size := 0, blk_data := None\<rparr>), ks))"

text \<open>The loop of \<^verbatim>\<open>pktblock_alloc_list\<close>: \<open>chain\<close> is what has been allocated so far.\<close>

function alloc_list_loop ::
  "nat \<Rightarrow> bool \<Rightarrow> pktblk list \<Rightarrow> pktblk list \<Rightarrow> pktblk list option \<times> pktblk list" where
  "alloc_list_loop sz add_front chain free =
     (if sz = 0 then (Some chain, free)
      else
        case pktblock_alloc free of
          (None, free) \<Rightarrow> (None, pktblock_free_list chain free)
        | (Some k, free) \<Rightarrow>
            let curr_size = (if sz > PKTBUF_BLK_SIZE then PKTBUF_BLK_SIZE else sz)
            in if add_front
               then alloc_list_loop (sz - curr_size) add_front
                      (k\<lparr>blk_size := curr_size, blk_data := Some (PKTBUF_BLK_SIZE - curr_size)\<rparr> # chain) free
               else alloc_list_loop (sz - curr_size) add_front
                      (chain @ [k\<lparr>blk_size := curr_size, blk_data := Some 0\<rparr>]) free)"
  by pat_completeness auto
termination
  by (relation "measure (\<lambda>(sz, _). sz)") (auto simp: PKTBUF_BLK_SIZE_def)

declare alloc_list_loop.simps [simp del]

definition pktblock_alloc_list :: "int \<Rightarrow> bool \<Rightarrow> pktblk list \<Rightarrow> pktblk list option \<times> pktblk list" where
  "pktblock_alloc_list sz add_front free =
     (if sz \<le> 0 then (None, free) else alloc_list_loop (nat sz) add_front [] free)"

definition chain_size :: "pktblk list \<Rightarrow> nat" where
  "chain_size ks = sum_list (map blk_size ks)"

definition pktbuf_insert_blk_list :: "pktbuf \<Rightarrow> pktblk list \<Rightarrow> bool \<Rightarrow> pktbuf" where
  "pktbuf_insert_blk_list b chain add_last =
     b\<lparr>blk_list := (if add_last then blk_list b @ chain else chain @ blk_list b),
       total_size := total_size b + chain_size chain\<rparr>"


section \<open>Headers and size\<close>

definition add_header :: "int \<Rightarrow> bool \<Rightarrow> buf_fun" where
  "add_header sz cont b free =
     (if sz < 0 then Some (NET_ERR_PARAM, b, free)
      else if sz = 0 then Some (NET_ERR_OK, b, free)
      else if ref b = 0 then None
      else case blk_list b of
        [] \<Rightarrow>
          (case pktblock_alloc_list sz True free of
             (None, free) \<Rightarrow> Some (NET_ERR_MEM, b, free)
           | (Some ks, free) \<Rightarrow>
               Some (NET_ERR_OK, pktbuf_reset_acc (pktbuf_insert_blk_list b ks False), free))
      | k # rest \<Rightarrow>
          let resv_size = blk_off k
          in if sz \<le> int resv_size then
               Some (NET_ERR_OK, pktbuf_reset_acc
                 (b\<lparr>blk_list := k\<lparr>blk_size := blk_size k + nat sz,
                                  blk_data := Some (resv_size - nat sz)\<rparr> # rest,
                    total_size := total_size b + nat sz\<rparr>), free)
             else if cont then
               (if sz > int PKTBUF_BLK_SIZE then Some (NET_ERR_SIZE, b, free)
                else case pktblock_alloc_list sz True free of
                  (None, free) \<Rightarrow> Some (NET_ERR_MEM, b, free)
                | (Some ks, free) \<Rightarrow>
                    Some (NET_ERR_OK, pktbuf_reset_acc (pktbuf_insert_blk_list b ks False), free))
             else
               (case pktblock_alloc_list (sz - int resv_size) True free of
                  (None, free) \<Rightarrow> Some (NET_ERR_MEM, b, free)
                | (Some ks, free) \<Rightarrow>
                    let b = b\<lparr>blk_list := k\<lparr>blk_data := Some 0, blk_size := blk_size k + resv_size\<rparr> # rest,
                              total_size := total_size b + resv_size\<rparr>
                    in Some (NET_ERR_OK, pktbuf_reset_acc (pktbuf_insert_blk_list b ks False), free)))"

text \<open>The loop of \<^verbatim>\<open>pktbuf_remove_header\<close>; running off the chain is a null pointer.\<close>

fun remove_header_loop :: "nat \<Rightarrow> pktblk list \<Rightarrow> nat \<Rightarrow> pktblk list \<Rightarrow> (pktblk list \<times> nat \<times> pktblk list) option" where
  "remove_header_loop sz [] tot free = (if sz = 0 then Some ([], tot, free) else None)"
| "remove_header_loop sz (k # ks) tot free =
     (if sz = 0 then Some (k # ks, tot, free)
      else if sz < blk_size k then
        Some (k\<lparr>blk_data := Some (blk_off k + sz), blk_size := blk_size k - sz\<rparr> # ks, tot - sz, free)
      else remove_header_loop (sz - blk_size k) ks (tot - blk_size k) (pktblock_free k free))"

definition remove_header :: "int \<Rightarrow> buf_fun" where
  "remove_header sz b free =
     (if sz < 0 then Some (NET_ERR_PARAM, b, free)
      else if sz = 0 then Some (NET_ERR_OK, b, free)
      else if sz > int (total_size b) then Some (NET_ERR_SIZE, b, free)
      else if ref b = 0 then None
      else do {
        (ks, tot, free) \<leftarrow> remove_header_loop (nat sz) (blk_list b) (total_size b) free;
        Some (NET_ERR_OK, pktbuf_reset_acc (b\<lparr>blk_list := ks, total_size := tot\<rparr>), free)
      })"

text \<open>Shrinking: find the last block to keep, as the position of the first block at which the
  running total reaches \<open>to_size\<close>.\<close>

fun find_tail :: "pktblk list \<Rightarrow> nat \<Rightarrow> nat \<Rightarrow> nat option" where
  "find_tail [] tot to_size = None"
| "find_tail (k # ks) tot to_size =
     (if tot + blk_size k \<ge> to_size then Some 0
      else map_option Suc (find_tail ks (tot + blk_size k) to_size))"

definition pktbuf_resize_core :: "int \<Rightarrow> buf_fun" where
  "pktbuf_resize_core to_size b free =
     (if to_size < 0 then Some (NET_ERR_PARAM, b, free)
      else if ref b = 0 then None
      else if nat to_size = total_size b then Some (NET_ERR_OK, b, free)
      else if to_size = 0 then
        Some (NET_ERR_OK, pktbuf_reset_acc (b\<lparr>blk_list := [], total_size := 0\<rparr>),
              pktblock_free_list (blk_list b) free)
      else if total_size b = 0 then
        (case pktblock_alloc_list to_size False free of
           (None, free) \<Rightarrow> Some (NET_ERR_MEM, b, free)
         | (Some ks, free) \<Rightarrow>
             Some (NET_ERR_OK, pktbuf_reset_acc (pktbuf_insert_blk_list b ks True), free))
      else if nat to_size > total_size b then
        (if blk_list b = [] then None
         else
           let tail_blk = last (blk_list b);
               inc_size = nat to_size - total_size b;
               remain_size = curr_blk_tail_free tail_blk
           in if remain_size \<ge> inc_size then
                Some (NET_ERR_OK, pktbuf_reset_acc
                  (b\<lparr>blk_list := butlast (blk_list b) @ [tail_blk\<lparr>blk_size := blk_size tail_blk + inc_size\<rparr>],
                     total_size := total_size b + inc_size\<rparr>), free)
              else
                (case pktblock_alloc_list (int (inc_size - remain_size)) False free of
                   (None, free) \<Rightarrow> Some (NET_ERR_MEM, b, free)
                 | (Some ks, free) \<Rightarrow>
                     let b = b\<lparr>blk_list := butlast (blk_list b) @ [tail_blk\<lparr>blk_size := blk_size tail_blk + remain_size\<rparr>],
                               total_size := total_size b + remain_size\<rparr>
                     in Some (NET_ERR_OK, pktbuf_reset_acc (pktbuf_insert_blk_list b ks True), free)))
      else
        (case find_tail (blk_list b) 0 (nat to_size) of
           None \<Rightarrow> Some (NET_ERR_SIZE, b, free)
         | Some i \<Rightarrow>
             let tail_blk = blk_list b ! i;
                 dropped = drop (Suc i) (blk_list b)
             in Some (NET_ERR_OK, pktbuf_reset_acc
                  (b\<lparr>blk_list := take i (blk_list b) @
                       [tail_blk\<lparr>blk_size := blk_size tail_blk - (total_size b - chain_size dropped - nat to_size)\<rparr>],
                     total_size := nat to_size\<rparr>),
                  pktblock_free_list dropped free)))"

text \<open>Making the first \<open>size\<close> bytes contiguous: the first block \<open>k\<close> takes bytes of the following
  blocks until nothing remains to be moved.\<close>

fun set_cont_loop :: "nat \<Rightarrow> pktblk \<Rightarrow> pktblk list \<Rightarrow> pktblk list \<Rightarrow> pktblk \<times> pktblk list \<times> pktblk list" where
  "set_cont_loop remain k [] free = (k, [], free)"
| "set_cont_loop remain k (c # cs) free =
     (if remain = 0 then (k, c # cs, free)
      else
        let curr_size = (if blk_size c > remain then remain else blk_size c);
            k = k\<lparr>blk_payload := put_at (blk_size k) (get_at (blk_off c) curr_size (blk_payload c)) (blk_payload k),
                  blk_size := blk_size k + curr_size\<rparr>;
            c = c\<lparr>blk_data := Some (blk_off c + curr_size), blk_size := blk_size c - curr_size\<rparr>
        in if blk_size c = 0 then set_cont_loop (remain - curr_size) k cs (pktblock_free c free)
           else (k, c # cs, free))"

definition set_cont :: "int \<Rightarrow> buf_fun" where
  "set_cont sz b free =
     (if sz < 0 then Some (NET_ERR_PARAM, b, free)
      else if sz = 0 then Some (NET_ERR_OK, b, free)
      else if ref b = 0 then None
      else if sz > int (total_size b) then Some (NET_ERR_SIZE, b, free)
      else if sz > int PKTBUF_BLK_SIZE then Some (NET_ERR_SIZE, b, free)
      else case blk_list b of
        [] \<Rightarrow> Some (NET_ERR_SIZE, b, free)
      | k # ks \<Rightarrow>
          if sz \<le> int (blk_size k) then Some (NET_ERR_OK, pktbuf_reset_acc b, free)
          else
            let k = k\<lparr>blk_payload := put_at 0 (get_at (blk_off k) (blk_size k) (blk_payload k)) (blk_payload k),
                      blk_data := Some 0\<rparr>;
                (k, ks, free) = set_cont_loop (nat sz - blk_size k) k ks free
            in Some (NET_ERR_OK, pktbuf_reset_acc (b\<lparr>blk_list := k # ks\<rparr>), free))"


section \<open>The cursor\<close>

definition move_forward :: "nat \<Rightarrow> pktbuf \<Rightarrow> pktbuf" where
  "move_forward n b =
     (case (curr_blk b, blk_offset b) of
        (Some i, Some off) \<Rightarrow>
          if n = 0 then b
          else
            let k = blk_list b ! i;
                b = b\<lparr>pos := pos b + n, blk_offset := Some (off + n)\<rparr>
            in if off + n \<ge> blk_off k + blk_size k then
                 (if Suc i < length (blk_list b)
                  then b\<lparr>curr_blk := Some (Suc i), blk_offset := blk_data (blk_list b ! Suc i)\<rparr>
                  else b\<lparr>curr_blk := None, blk_offset := None\<rparr>)
               else b
      | _ \<Rightarrow> b)"

text \<open>Memory at the cursor: the bytes of the area of the current block from \<^verbatim>\<open>blk_offset\<close> on.\<close>

definition cursor_put :: "u8 list \<Rightarrow> pktbuf \<Rightarrow> pktbuf" where
  "cursor_put bs b =
     (case (curr_blk b, blk_offset b) of
        (Some i, Some off) \<Rightarrow>
          b\<lparr>blk_list := (blk_list b)[i := (blk_list b ! i)\<lparr>blk_payload := put_at off bs (blk_payload (blk_list b ! i))\<rparr>]\<rparr>
      | _ \<Rightarrow> b)"

definition cursor_get :: "nat \<Rightarrow> pktbuf \<Rightarrow> u8 list" where
  "cursor_get n b =
     (case (curr_blk b, blk_offset b) of
        (Some i, Some off) \<Rightarrow> get_at off n (blk_payload (blk_list b ! i))
      | _ \<Rightarrow> [])"

text \<open>The loops of the cursor operations. A round that moves by nothing repeats for ever.\<close>

function write_loop :: "nat \<Rightarrow> u8 list \<Rightarrow> pktbuf \<Rightarrow> pktbuf option" where
  "write_loop sz src b =
     (if sz = 0 then Some b
      else
        let curr_copy = (if sz > curr_blk_remain b then curr_blk_remain b else sz)
        in if curr_copy = 0 \<or> length src < curr_copy then None
           else write_loop (sz - curr_copy) (drop curr_copy src)
                  (move_forward curr_copy (cursor_put (take curr_copy src) b)))"
  by pat_completeness auto
termination
  by (relation "measure (\<lambda>(sz, _). sz)") (auto split: if_splits)

function read_loop :: "nat \<Rightarrow> pktbuf \<Rightarrow> (u8 list \<times> pktbuf) option" where
  "read_loop sz b =
     (if sz = 0 then Some ([], b)
      else
        let curr_copy = (if sz > curr_blk_remain b then curr_blk_remain b else sz)
        in if curr_copy = 0 then None
           else do {
             (rest, b') \<leftarrow> read_loop (sz - curr_copy) (move_forward curr_copy b);
             Some (cursor_get curr_copy b @ rest, b')
           })"
  by pat_completeness auto
termination
  by (relation "measure (\<lambda>(sz, _). sz)") (auto split: if_splits)

function seek_loop :: "nat \<Rightarrow> pktbuf \<Rightarrow> pktbuf option" where
  "seek_loop move_bytes b =
     (if move_bytes = 0 then Some b
      else
        let curr_move = (if move_bytes > curr_blk_remain b then curr_blk_remain b else move_bytes)
        in if curr_move = 0 then None
           else seek_loop (move_bytes - curr_move) (move_forward curr_move b))"
  by pat_completeness auto
termination
  by (relation "measure (\<lambda>(sz, _). sz)") (auto split: if_splits)

function fill_loop :: "nat \<Rightarrow> u8 \<Rightarrow> pktbuf \<Rightarrow> pktbuf option" where
  "fill_loop sz v b =
     (if sz = 0 then Some b
      else
        let curr_fill = (if sz > curr_blk_remain b then curr_blk_remain b else sz)
        in if curr_fill = 0 then None
           else fill_loop (sz - curr_fill) v
                  (move_forward curr_fill (cursor_put (replicate curr_fill v) b)))"
  by pat_completeness auto
termination
  by (relation "measure (\<lambda>(sz, _). sz)") (auto split: if_splits)

text \<open>The loop also checks \<^verbatim>\<open>blk_offset + curr_size \<le> data + PKTBUF_BLK_SIZE\<close>.\<close>

definition checksum_bound :: "nat \<Rightarrow> pktbuf \<Rightarrow> bool" where
  "checksum_bound n b =
     (case (curr_blk b, blk_offset b) of
        (Some i, Some off) \<Rightarrow> off + n \<le> blk_off (blk_list b ! i) + PKTBUF_BLK_SIZE
      | _ \<Rightarrow> False)"

function checksum16_loop :: "nat \<Rightarrow> u32 \<Rightarrow> u32 \<Rightarrow> pktbuf \<Rightarrow> (u32 \<times> pktbuf) option" where
  "checksum16_loop sz acc offset b =
     (if sz = 0 then Some (acc, b)
      else
        let curr_size = (if curr_blk_remain b > sz then sz else curr_blk_remain b);
            acc = ucast (checksum16 offset (cursor_get curr_size b) (of_nat curr_size) acc False)
        in if curr_size = 0 \<or> \<not> checksum_bound curr_size b then None
           else checksum16_loop (sz - curr_size) acc (offset + of_nat curr_size) (move_forward curr_size b))"
  by pat_completeness auto
termination
  by (relation "measure (\<lambda>(sz, _). sz)") (auto split: if_splits)

declare write_loop.simps [simp del] read_loop.simps [simp del] seek_loop.simps [simp del]
  fill_loop.simps [simp del] checksum16_loop.simps [simp del]

definition write_buf :: "u8 list option \<Rightarrow> int \<Rightarrow> buf_fun" where
  "write_buf src sz b free =
     (if sz < 0 \<or> (sz > 0 \<and> src = None) then Some (NET_ERR_PARAM, b, free)
      else if sz = 0 then Some (NET_ERR_OK, b, free)
      else if ref b = 0 then None
      else if total_blk_remain b < sz then Some (NET_ERR_SIZE, b, free)
      else do {
        b \<leftarrow> write_loop (nat sz) (the src) b;
        Some (NET_ERR_OK, b, free)
      })"

definition seek_buf :: "int \<Rightarrow> buf_fun" where
  "seek_buf offset b free =
     (if offset < 0 then Some (NET_ERR_PARAM, b, free)
      else if ref b = 0 then None
      else if pos b = nat offset then Some (NET_ERR_OK, b, free)
      else if nat offset > total_size b then Some (NET_ERR_SIZE, b, free)
      else do {
        (move_bytes, b) \<leftarrow>
          (if nat offset < pos b then
             (case blk_list b of
                [] \<Rightarrow> None
              | k # _ \<Rightarrow> Some (nat offset, b\<lparr>curr_blk := Some 0, blk_offset := blk_data k, pos := 0\<rparr>))
           else Some (nat offset - pos b, b));
        b \<leftarrow> seek_loop move_bytes b;
        Some (NET_ERR_OK, b, free)
      })"

definition fill_buf :: "u8 \<Rightarrow> int \<Rightarrow> buf_fun" where
  "fill_buf v sz b free =
     (if sz < 0 then Some (NET_ERR_PARAM, b, free)
      else if sz = 0 then Some (NET_ERR_OK, b, free)
      else if ref b = 0 then None
      else if total_blk_remain b < sz then Some (NET_ERR_SIZE, b, free)
      else do {
        b \<leftarrow> fill_loop (nat sz) v b;
        Some (NET_ERR_OK, b, free)
      })"


section \<open>The operations on the state\<close>

definition on_buf ::
  "nat option \<Rightarrow> buf_fun \<Rightarrow> 'a pkt_state_scheme \<Rightarrow> (net_err \<times> 'a pkt_state_scheme) option" where
  "on_buf buf f s =
     (case buf of
        None \<Rightarrow> Some (NET_ERR_PARAM, s)
      | Some i \<Rightarrow> do {
          (err, b, free) \<leftarrow> f (pktbufs s i) (block_list s);
          Some (err, s\<lparr>pktbufs := (pktbufs s)(i := b), block_list := free\<rparr>)
        })"

definition pktbuf_add_header where
  "pktbuf_add_header buf sz cont = on_buf buf (add_header sz cont)"

definition pktbuf_remove_header where
  "pktbuf_remove_header buf sz = on_buf buf (remove_header sz)"

definition pktbuf_resize where
  "pktbuf_resize buf to_size = on_buf buf (pktbuf_resize_core to_size)"

definition pktbuf_set_cont where
  "pktbuf_set_cont buf sz = on_buf buf (set_cont sz)"

definition pktbuf_write where
  "pktbuf_write buf src sz = on_buf buf (write_buf src sz)"

definition pktbuf_seek where
  "pktbuf_seek buf offset = on_buf buf (seek_buf offset)"

definition pktbuf_fill where
  "pktbuf_fill buf v sz = on_buf buf (fill_buf v sz)"

text \<open>Reading returns the bytes stored through the pointer \<^verbatim>\<open>dest\<close>, whose nullness is \<open>dest_null\<close>.\<close>

definition pktbuf_read ::
  "nat option \<Rightarrow> bool \<Rightarrow> int \<Rightarrow> 'a pkt_state_scheme \<Rightarrow> (net_err \<times> u8 list \<times> 'a pkt_state_scheme) option" where
  "pktbuf_read buf dest_null sz s =
     (case buf of
        None \<Rightarrow> Some (NET_ERR_PARAM, [], s)
      | Some i \<Rightarrow>
          if sz < 0 \<or> (sz > 0 \<and> dest_null) then Some (NET_ERR_PARAM, [], s)
          else if sz = 0 then Some (NET_ERR_OK, [], s)
          else if ref (pktbufs s i) = 0 then None
          else if total_blk_remain (pktbufs s i) < sz then Some (NET_ERR_SIZE, [], s)
          else do {
            (bytes, b) \<leftarrow> read_loop (nat sz) (pktbufs s i);
            Some (NET_ERR_OK, bytes, s\<lparr>pktbufs := (pktbufs s)(i := b)\<rparr>)
          })"

definition pktbuf_checksum16 ::
  "nat option \<Rightarrow> int \<Rightarrow> u32 \<Rightarrow> bool \<Rightarrow> 'a pkt_state_scheme \<Rightarrow> (u16 \<times> 'a pkt_state_scheme) option" where
  "pktbuf_checksum16 buf sz pre_sum complement s =
     (case buf of
        None \<Rightarrow> Some (0, s)
      | Some i \<Rightarrow>
          if sz < 0 then Some (0, s)
          else if ref (pktbufs s i) = 0 then None
          else if total_blk_remain (pktbufs s i) < sz then Some (0, s)
          else do {
            (acc, b) \<leftarrow> checksum16_loop (nat sz) pre_sum 0 (pktbufs s i);
            Some (if complement then ucast (NOT acc) else ucast acc, s\<lparr>pktbufs := (pktbufs s)(i := b)\<rparr>)
          })"

definition pktbuf_alloc :: "int \<Rightarrow> 'a pkt_state_scheme \<Rightarrow> nat option \<times> 'a pkt_state_scheme" where
  "pktbuf_alloc sz s =
     (if sz < 0 then (None, s)
      else case pktbuf_list s of
        [] \<Rightarrow> (None, s)
      | i # rest \<Rightarrow>
          let b = (pktbufs s i)\<lparr>ref := 1, total_size := 0, blk_list := []\<rparr>;
              s = s\<lparr>pktbuf_list := rest, pktbufs := (pktbufs s)(i := b)\<rparr>
          in if sz \<noteq> 0 then
               (case pktblock_alloc_list sz False (block_list s) of
                  (None, free) \<Rightarrow> (None, s\<lparr>block_list := free, pktbuf_list := rest @ [i]\<rparr>)
                | (Some ks, free) \<Rightarrow>
                    (Some i, s\<lparr>block_list := free,
                       pktbufs := (pktbufs s)(i := pktbuf_reset_acc ((pktbuf_insert_blk_list b ks True)\<lparr>ref := 1\<rparr>))\<rparr>))
             else (Some i, s\<lparr>pktbufs := (pktbufs s)(i := pktbuf_reset_acc (b\<lparr>ref := 1\<rparr>))\<rparr>))"

definition pktbuf_free :: "nat option \<Rightarrow> 'a pkt_state_scheme \<Rightarrow> 'a pkt_state_scheme" where
  "pktbuf_free buf s =
     (case buf of
        None \<Rightarrow> s
      | Some i \<Rightarrow>
          if ref (pktbufs s i) > 0 then
            let b = (pktbufs s i)\<lparr>ref := ref (pktbufs s i) - 1\<rparr>;
                s = s\<lparr>pktbufs := (pktbufs s)(i := b)\<rparr>
            in if ref b = 0
               then s\<lparr>block_list := pktblock_free_list (blk_list b) (block_list s),
                      pktbuf_list := pktbuf_list s @ [i]\<rparr>
               else s
          else s)"

definition pktbuf_inc_ref :: "nat option \<Rightarrow> 'a pkt_state_scheme \<Rightarrow> 'a pkt_state_scheme" where
  "pktbuf_inc_ref buf s =
     (case buf of
        None \<Rightarrow> s
      | Some i \<Rightarrow>
          if ref (pktbufs s i) > 0
          then s\<lparr>pktbufs := (pktbufs s)(i := (pktbufs s i)\<lparr>ref := ref (pktbufs s i) + 1\<rparr>)\<rparr> else s)"

definition pktbuf_join ::
  "nat option \<Rightarrow> nat option \<Rightarrow> 'a pkt_state_scheme \<Rightarrow> (net_err \<times> 'a pkt_state_scheme) option" where
  "pktbuf_join dest src s =
     (case (dest, src) of
        (Some d, Some i) \<Rightarrow>
          if d = i then Some (NET_ERR_PARAM, s)
          else if ref (pktbufs s d) = 0 \<or> ref (pktbufs s i) = 0 then None
          else
            let s = s\<lparr>pktbufs := (pktbufs s)
                      (d := pktbuf_insert_blk_list (pktbufs s d) (blk_list (pktbufs s i)) True,
                       i := (pktbufs s i)\<lparr>blk_list := []\<rparr>)\<rparr>;
                s = pktbuf_free src s
            in Some (NET_ERR_OK, s\<lparr>pktbufs := (pktbufs s)(d := pktbuf_reset_acc (pktbufs s d))\<rparr>)
      | _ \<Rightarrow> Some (NET_ERR_PARAM, s))"

text \<open>Copying between two buffers, at both cursors.\<close>

function copy_loop :: "nat \<Rightarrow> nat \<Rightarrow> nat \<Rightarrow> (nat \<Rightarrow> pktbuf) \<Rightarrow> (nat \<Rightarrow> pktbuf) option" where
  "copy_loop sz d i bufs =
     (if sz = 0 then Some bufs
      else
        let dest_remain = curr_blk_remain (bufs d);
            src_remain = curr_blk_remain (bufs i);
            copy_size = (if dest_remain > src_remain then src_remain else dest_remain);
            copy_size = (if copy_size > sz then sz else copy_size)
        in if copy_size = 0 then None
           else
             let bufs = bufs(d := cursor_put (cursor_get copy_size (bufs i)) (bufs d));
                 bufs = bufs(d := move_forward copy_size (bufs d));
                 bufs = bufs(i := move_forward copy_size (bufs i))
             in copy_loop (sz - copy_size) d i bufs)"
  by pat_completeness auto
termination
  by (relation "measure (\<lambda>(sz, _). sz)") (auto split: if_splits)

declare copy_loop.simps [simp del]

definition pktbuf_copy ::
  "nat option \<Rightarrow> nat option \<Rightarrow> int \<Rightarrow> 'a pkt_state_scheme \<Rightarrow> (net_err \<times> 'a pkt_state_scheme) option" where
  "pktbuf_copy dest src sz s =
     (case (dest, src) of
        (Some d, Some i) \<Rightarrow>
          if sz < 0 then Some (NET_ERR_PARAM, s)
          else if sz = 0 then Some (NET_ERR_OK, s)
          else if ref (pktbufs s i) = 0 \<or> ref (pktbufs s d) = 0 then None
          else if total_blk_remain (pktbufs s d) < sz \<or> total_blk_remain (pktbufs s i) < sz
          then Some (NET_ERR_SIZE, s)
          else do {
            bufs \<leftarrow> copy_loop (nat sz) d i (pktbufs s);
            Some (NET_ERR_OK, s\<lparr>pktbufs := bufs\<rparr>)
          }
      | _ \<Rightarrow> Some (NET_ERR_PARAM, s))"

text \<open>\<open>areas i\<close> is what the area of block \<open>i\<close> of \<^verbatim>\<open>block_buffer\<close> contains.\<close>

definition pktbuf_init :: "(nat \<Rightarrow> u8 list) \<Rightarrow> 'a pkt_state_scheme \<Rightarrow> net_err \<times> 'a pkt_state_scheme" where
  "pktbuf_init areas s =
     (NET_ERR_OK,
      s\<lparr>block_list := map (\<lambda>i. \<lparr>blk_id = i, blk_size = 0, blk_data = None, blk_payload = areas i\<rparr>)
                       [0..<PKTBUF_BLK_CNT],
        pktbuf_list := [0..<PKTBUF_BUF_CNT]\<rparr>)"

text \<open>Access through the pointer \<^verbatim>\<open>pktbuf_data\<close>: \<open>n\<close> bytes at offset \<open>off\<close> of the first block's data. The
  area of the block is all the memory there is behind the pointer.\<close>

definition hdr_get :: "nat \<Rightarrow> nat \<Rightarrow> pktbuf \<Rightarrow> u8 list option" where
  "hdr_get off n b =
     (case blk_list b of
        [] \<Rightarrow> None
      | k # _ \<Rightarrow> if blk_off k + off + n \<le> length (blk_payload k)
                 then Some (get_at (blk_off k + off) n (blk_payload k)) else None)"

definition hdr_put :: "nat \<Rightarrow> u8 list \<Rightarrow> pktbuf \<Rightarrow> pktbuf option" where
  "hdr_put off bs b =
     (case blk_list b of
        [] \<Rightarrow> None
      | k # ks \<Rightarrow> if blk_off k + off + length bs \<le> length (blk_payload k)
                  then Some (b\<lparr>blk_list := k\<lparr>blk_payload := put_at (blk_off k + off) bs (blk_payload k)\<rparr> # ks\<rparr>)
                  else None)"

definition pktbuf_get :: "nat \<Rightarrow> nat \<Rightarrow> nat \<Rightarrow> 'a pkt_state_scheme \<Rightarrow> u8 list option" where
  "pktbuf_get i off n s = hdr_get off n (pktbufs s i)"

definition pktbuf_put :: "nat \<Rightarrow> nat \<Rightarrow> u8 list \<Rightarrow> 'a pkt_state_scheme \<Rightarrow> 'a pkt_state_scheme option" where
  "pktbuf_put i off bs s =
     map_option (\<lambda>b. s\<lparr>pktbufs := (pktbufs s)(i := b)\<rparr>) (hdr_put off bs (pktbufs s i))"

end
