(* ===== verification/Pktbuf_Laws.thy ===== *)
theory Pktbuf_Laws
  imports Pktbuf
begin

text \<open>
  The laws of packet buffers. A well-formed buffer (\<open>buf_wf\<close>) stands for the list of its bytes
  (\<open>buf_bytes\<close>), and its cursor for a position in this list; each operation of \<open>Pktbuf\<close> is shown
  to be the list operation it is meant to be, whatever the division into blocks. The locale
  \<open>buf_op\<close> is the contract of an operation on one buffer; it gives, once for all, that the
  operation returns, keeps the invariant of the whole pool (\<open>pkt_inv\<close>: no block is lost or owned
  twice) and leaves the other buffers alone.
\<close>

section \<open>Well-formed blocks and chains\<close>

definition blk_wf :: "pktblk \<Rightarrow> bool" where
  "blk_wf k \<longleftrightarrow> length (blk_payload k) = PKTBUF_BLK_SIZE \<and> blk_data k \<noteq> None \<and>
     blk_off k + blk_size k \<le> PKTBUF_BLK_SIZE \<and> 0 < blk_size k"

definition chain_wf :: "pktblk list \<Rightarrow> bool" where
  "chain_wf ks \<longleftrightarrow> (\<forall>k\<in>set ks. blk_wf k)"

definition free_wf :: "pktblk list \<Rightarrow> bool" where
  "free_wf ks \<longleftrightarrow> (\<forall>k\<in>set ks. length (blk_payload k) = PKTBUF_BLK_SIZE)"

definition blk_bytes :: "pktblk \<Rightarrow> u8 list" where
  "blk_bytes k = get_at (blk_off k) (blk_size k) (blk_payload k)"

definition chain_bytes :: "pktblk list \<Rightarrow> u8 list" where
  "chain_bytes ks = concat (map blk_bytes ks)"

definition ids :: "pktblk list \<Rightarrow> nat multiset" where
  "ids ks = mset (map blk_id ks)"

lemma chain_wf_simps [simp]:
  "chain_wf []" "chain_wf (k # ks) \<longleftrightarrow> blk_wf k \<and> chain_wf ks" "chain_wf (ks @ ls) \<longleftrightarrow> chain_wf ks \<and> chain_wf ls"
  by (auto simp: chain_wf_def)

lemma free_wf_simps [simp]:
  "free_wf []" "free_wf (k # ks) \<longleftrightarrow> length (blk_payload k) = PKTBUF_BLK_SIZE \<and> free_wf ks"
  "free_wf (ks @ ls) \<longleftrightarrow> free_wf ks \<and> free_wf ls"
  by (auto simp: free_wf_def)

lemma ids_simps [simp]: "ids [] = {#}" "ids (k # ks) = add_mset (blk_id k) (ids ks)" "ids (ks @ ls) = ids ks + ids ls"
  by (simp_all add: ids_def)

lemma chain_size_simps [simp]:
  "chain_size [] = 0" "chain_size (k # ks) = blk_size k + chain_size ks" "chain_size (ks @ ls) = chain_size ks + chain_size ls"
  by (simp_all add: chain_size_def)

lemma chain_bytes_simps [simp]:
  "chain_bytes [] = []" "chain_bytes (k # ks) = blk_bytes k @ chain_bytes ks"
  "chain_bytes (ks @ ls) = chain_bytes ks @ chain_bytes ls"
  by (simp_all add: chain_bytes_def)

lemma chain_wf_free_wf: "chain_wf ks \<Longrightarrow> free_wf ks"
  by (auto simp: chain_wf_def free_wf_def blk_wf_def)

lemma length_blk_bytes [simp]: "blk_wf k \<Longrightarrow> length (blk_bytes k) = blk_size k"
  by (simp add: blk_bytes_def blk_wf_def)

lemma length_chain_bytes [simp]: "chain_wf ks \<Longrightarrow> length (chain_bytes ks) = chain_size ks"
  by (induction ks) auto

lemma chain_size_0 [simp]: "chain_wf ks \<Longrightarrow> chain_size ks = 0 \<longleftrightarrow> ks = []"
  by (cases ks) (auto simp: blk_wf_def)

lemma pktblock_free_list_append [simp]: "pktblock_free_list ks free = free @ ks"
  by (induction ks arbitrary: free) (simp_all add: pktblock_free_def)


section \<open>Allocation of a chain\<close>

text \<open>The number of blocks a chain of \<open>sz\<close> bytes takes.\<close>

definition blks_for :: "nat \<Rightarrow> nat" where
  "blks_for sz = (sz + PKTBUF_BLK_SIZE - 1) div PKTBUF_BLK_SIZE"

lemma blks_for_step:
  "0 < sz \<Longrightarrow> blks_for sz = Suc (blks_for (sz - (if sz > PKTBUF_BLK_SIZE then PKTBUF_BLK_SIZE else sz)))"
  by (auto simp: blks_for_def PKTBUF_BLK_SIZE_def div_add_self2 le_div_geq)

lemma blks_for_0 [simp]: "blks_for 0 = 0"
  by (simp add: blks_for_def PKTBUF_BLK_SIZE_def)

lemma alloc_list_loop_0 [simp]: "alloc_list_loop 0 front chain free = (Some chain, free)"
  by (simp add: alloc_list_loop.simps)

lemma alloc_list_loop_Nil: "0 < sz \<Longrightarrow> alloc_list_loop sz front chain [] = (None, chain)"
  by (simp add: alloc_list_loop.simps [of sz] pktblock_alloc_def)

lemma alloc_list_loop_Cons:
  assumes "0 < sz" and "length (blk_payload f) = PKTBUF_BLK_SIZE"
    and "c = (if sz > PKTBUF_BLK_SIZE then PKTBUF_BLK_SIZE else sz)"
  obtains k where "blk_wf k" and "blk_id k = blk_id f" and "blk_size k = c"
    and "alloc_list_loop sz front chain (f # fs) =
      alloc_list_loop (sz - c) front (if front then k # chain else chain @ [k]) fs"
proof
  let ?k = "f\<lparr>blk_size := c, blk_data := Some (if front then PKTBUF_BLK_SIZE - c else 0)\<rparr>"
  show "blk_wf ?k" "blk_id ?k = blk_id f" "blk_size ?k = c"
    using assms by (auto simp: blk_wf_def PKTBUF_BLK_SIZE_def)
  show "alloc_list_loop sz front chain (f # fs) =
      alloc_list_loop (sz - c) front (if front then ?k # chain else chain @ [?k]) fs"
    using assms by (subst alloc_list_loop.simps) (simp add: pktblock_alloc_def Let_def)
qed

lemma alloc_list_loop_spec:
  assumes "chain_wf chain" and "free_wf free"
    and "alloc_list_loop sz front chain free = (r, free')"
  shows "case r of
      Some ks \<Rightarrow> blks_for sz \<le> length free \<and> free' = drop (blks_for sz) free \<and>
        ids ks + ids free' = ids chain + ids free \<and>
        (\<exists>new. chain_wf new \<and> chain_size new = sz \<and> ks = (if front then new @ chain else chain @ new))
    | None \<Rightarrow> length free < blks_for sz \<and> free_wf free' \<and> ids free' = ids chain + ids free"
  using assms
proof (induction free arbitrary: sz chain)
  case Nil
  then show ?case
    by (cases "sz = 0")
      (auto simp: alloc_list_loop_Nil chain_wf_free_wf blks_for_step [of sz] intro!: exI [of _ "[]"])
next
  case (Cons f fs)
  show ?case
  proof (cases "sz = 0")
    case True
    with Cons.prems show ?thesis by (auto intro!: exI [of _ "[]"])
  next
    case False
    define c where "c = (if sz > PKTBUF_BLK_SIZE then PKTBUF_BLK_SIZE else sz)"
    from False have b: "blks_for sz = Suc (blks_for (sz - c))" and c: "c \<le> sz"
      using blks_for_step [of sz] by (auto simp: c_def)
    from Cons.prems False obtain k where k: "blk_wf k" "blk_id k = blk_id f" "blk_size k = c"
      and eq: "alloc_list_loop sz front chain (f # fs) =
        alloc_list_loop (sz - c) front (if front then k # chain else chain @ [k]) fs"
      using alloc_list_loop_Cons [of sz f c front chain fs] c_def by auto
    note IH = Cons.IH [of "if front then k # chain else chain @ [k]" "sz - c"]
    show ?thesis
    proof (cases r)
      case None
      have "chain_wf (if front then k # chain else chain @ [k])" using Cons.prems(1) k(1) by simp
      from IH [OF this] Cons.prems(2,3) eq None
      have "length fs < blks_for (sz - c) \<and> free_wf free' \<and>
        ids free' = ids (if front then k # chain else chain @ [k]) + ids fs" by simp
      with b k(2) None show ?thesis by (cases front) simp_all
    next
      case (Some ks)
      have "chain_wf (if front then k # chain else chain @ [k])" using Cons.prems(1) k(1) by simp
      moreover from Cons.prems(2) have "free_wf fs" by simp
      moreover have "alloc_list_loop (sz - c) front (if front then k # chain else chain @ [k]) fs = (r, free')"
        using Cons.prems(3) eq by simp
      ultimately obtain new
        where new: "chain_wf new" "chain_size new = sz - c"
          "ks = (if front then new @ (if front then k # chain else chain @ [k])
                 else (if front then k # chain else chain @ [k]) @ new)"
        and rest: "blks_for (sz - c) \<le> length fs" "free' = drop (blks_for (sz - c)) fs"
        "ids ks + ids free' = ids (if front then k # chain else chain @ [k]) + ids fs"
        using IH [unfolded Some option.case] unfolding Some by blast
      define new' where "new' = (if front then new @ [k] else k # new)"
      have "chain_wf new' \<and> chain_size new' = sz \<and> ks = (if front then new' @ chain else chain @ new')"
        using new k c by (cases front) (simp_all add: new'_def)
      moreover have "ids ks + ids free' = ids chain + ids (f # fs)"
        using rest(3) k(2) by (cases front) simp_all
      ultimately show ?thesis
        using rest(1,2) b Some by auto
    qed
  qed
qed

text \<open>Allocation of \<open>sz\<close> bytes succeeds exactly when enough blocks are free; on failure every
  block is free again.\<close>

lemma pktblock_alloc_list_spec:
  assumes "free_wf free" and "0 < sz" and "pktblock_alloc_list sz front free = (r, free')"
  shows "free_wf free'" and "r = None \<longleftrightarrow> length free < blks_for (nat sz)"
    and "r = None \<Longrightarrow> ids free' = ids free"
    and "r = Some ks \<Longrightarrow> chain_wf ks" and "r = Some ks \<Longrightarrow> chain_size ks = nat sz"
    and "r = Some ks \<Longrightarrow> ids ks + ids free' = ids free"
    and "r = Some ks \<Longrightarrow> free' = drop (blks_for (nat sz)) free"
  using alloc_list_loop_spec [of "[]" free "nat sz" front r free'] assms
  by (auto simp: pktblock_alloc_list_def free_wf_def dest: in_set_dropD split: option.splits if_splits)


section \<open>Well-formed buffers\<close>

definition buf_bytes :: "pktbuf \<Rightarrow> u8 list" where
  "buf_bytes b = chain_bytes (blk_list b)"

text \<open>The cursor stands behind the last byte, or at byte \<open>d\<close> of some block \<open>k\<close>.\<close>

definition cursor_at :: "pktbuf \<Rightarrow> pktblk list \<Rightarrow> pktblk \<Rightarrow> pktblk list \<Rightarrow> nat \<Rightarrow> bool" where
  "cursor_at b as k cs d \<longleftrightarrow> blk_list b = as @ k # cs \<and> curr_blk b = Some (length as) \<and>
     blk_offset b = Some (blk_off k + d) \<and> d < blk_size k \<and> pos b = chain_size as + d"

definition cursor_ok :: "pktbuf \<Rightarrow> bool" where
  "cursor_ok b \<longleftrightarrow> (curr_blk b = None \<and> blk_offset b = None \<and> pos b = chain_size (blk_list b)) \<or>
     (\<exists>as k cs d. cursor_at b as k cs d)"

definition buf_wf :: "pktbuf \<Rightarrow> bool" where
  "buf_wf b \<longleftrightarrow> chain_wf (blk_list b) \<and> total_size b = chain_size (blk_list b) \<and> cursor_ok b"

lemma length_buf_bytes [simp]: "buf_wf b \<Longrightarrow> length (buf_bytes b) = total_size b"
  by (simp add: buf_wf_def buf_bytes_def)

lemma buf_wf_pos: "buf_wf b \<Longrightarrow> pos b \<le> total_size b"
  by (auto simp: buf_wf_def cursor_ok_def cursor_at_def)

lemma pktbuf_reset_acc_simps [simp]:
  "blk_list (pktbuf_reset_acc b) = blk_list b" "total_size (pktbuf_reset_acc b) = total_size b"
  "ref (pktbuf_reset_acc b) = ref b" "pos (pktbuf_reset_acc b) = 0"
  "buf_bytes (pktbuf_reset_acc b) = buf_bytes b"
  by (simp_all add: pktbuf_reset_acc_def buf_bytes_def)

lemma reset_acc_wf:
  assumes "chain_wf (blk_list b)" and "total_size b = chain_size (blk_list b)"
  shows "buf_wf (pktbuf_reset_acc b)"
proof (cases "blk_list b")
  case Nil
  with assms show ?thesis by (simp add: buf_wf_def cursor_ok_def pktbuf_reset_acc_def)
next
  case (Cons k ks)
  with assms have "cursor_at (pktbuf_reset_acc b) [] k ks 0"
    by (auto simp: cursor_at_def pktbuf_reset_acc_def blk_wf_def)
  with assms show ?thesis by (auto simp: buf_wf_def cursor_ok_def)
qed

text \<open>What every operation on a buffer keeps: the buffer is well-formed, its references are
  unchanged, and the blocks it gains or loses come from or go to the free list.\<close>

definition op_keeps :: "pktbuf \<Rightarrow> pktblk list \<Rightarrow> pktbuf \<Rightarrow> pktblk list \<Rightarrow> bool" where
  "op_keeps b free b' free' \<longleftrightarrow> buf_wf b' \<and> ref b' = ref b \<and> free_wf free' \<and>
     ids (blk_list b') + ids free' = ids (blk_list b) + ids free"

lemma op_keeps_refl: "buf_wf b \<Longrightarrow> free_wf free \<Longrightarrow> op_keeps b free b free"
  by (simp add: op_keeps_def)

lemma op_keeps_reset:
  assumes "chain_wf (blk_list b')" and "total_size b' = chain_size (blk_list b')" and "ref b' = ref b"
    and "free_wf free'" and "ids (blk_list b') + ids free' = ids (blk_list b) + ids free"
  shows "op_keeps b free (pktbuf_reset_acc b') free'"
  using assms by (simp add: op_keeps_def reset_acc_wf)


section \<open>Headers\<close>

text \<open>A block whose first bytes were in the reserved space in front.\<close>

lemma blk_grow_front:
  assumes "blk_wf k" and "n \<le> blk_off k"
  shows "blk_wf (k\<lparr>blk_size := blk_size k + n, blk_data := Some (blk_off k - n)\<rparr>)"
    and "\<exists>h. length h = n \<and> blk_bytes (k\<lparr>blk_size := blk_size k + n, blk_data := Some (blk_off k - n)\<rparr>) = h @ blk_bytes k"
proof -
  show "blk_wf (k\<lparr>blk_size := blk_size k + n, blk_data := Some (blk_off k - n)\<rparr>)"
    using assms by (auto simp: blk_wf_def)
  have "get_at (blk_off k - n) (n + blk_size k) (blk_payload k) =
        get_at (blk_off k - n) n (blk_payload k) @ blk_bytes k"
    using assms by (simp add: get_at_add blk_bytes_def)
  then show "\<exists>h. length h = n \<and>
      blk_bytes (k\<lparr>blk_size := blk_size k + n, blk_data := Some (blk_off k - n)\<rparr>) = h @ blk_bytes k"
    using assms by (intro exI [of _ "get_at (blk_off k - n) n (blk_payload k)"])
      (auto simp: blk_bytes_def blk_wf_def add.commute)
qed

lemma insert_front_keeps:
  assumes "buf_wf b" and "free_wf free" and "0 < sz" and "pktblock_alloc_list sz True free = (Some ks, free')"
  shows "op_keeps b free (pktbuf_reset_acc (pktbuf_insert_blk_list b ks False)) free'"
    and "length (chain_bytes ks) = nat sz"
    and "buf_bytes (pktbuf_insert_blk_list b ks False) = chain_bytes ks @ buf_bytes b"
  using pktblock_alloc_list_spec [OF assms(2-4)] assms(1)
  by (auto simp: pktbuf_insert_blk_list_def buf_wf_def buf_bytes_def ac_simps intro!: op_keeps_reset)

text \<open>A successful \<^verbatim>\<open>pktbuf_add_header\<close> puts \<open>sz\<close> bytes in front; otherwise the buffer is as before.\<close>

fun hdr_post :: "pktbuf \<Rightarrow> pktblk list \<Rightarrow> int \<Rightarrow> (net_err \<times> pktbuf \<times> pktblk list) option \<Rightarrow> bool" where
  "hdr_post b free sz None = False"
| "hdr_post b free sz (Some (e, b', free')) \<longleftrightarrow> op_keeps b free b' free' \<and>
     (if e = NET_ERR_OK then 0 \<le> sz \<and> (\<exists>h. length h = nat sz \<and> buf_bytes b' = h @ buf_bytes b) else b' = b)"

lemma hdr_post_alloc:
  assumes "buf_wf b" and "free_wf free" and "0 < sz"
  shows "hdr_post b free sz
    (case pktblock_alloc_list sz True free of
       (None, free) \<Rightarrow> Some (NET_ERR_MEM, b, free)
     | (Some ks, free) \<Rightarrow> Some (NET_ERR_OK, pktbuf_reset_acc (pktbuf_insert_blk_list b ks False), free))"
proof -
  obtain r free' where al: "pktblock_alloc_list sz True free = (r, free')" by (metis surj_pair)
  show ?thesis
  proof (cases r)
    case None
    with pktblock_alloc_list_spec [OF assms(2,3) al] assms(1) al show ?thesis
      by (simp add: op_keeps_def)
  next
    case (Some ks)
    from insert_front_keeps [OF assms al [unfolded Some]] assms(3) al Some show ?thesis
      by auto
  qed
qed

lemma hdr_post_reserve:
  assumes "buf_wf b" and "free_wf free" and "0 < sz" and "blk_list b = k # rest" and "sz \<le> int (blk_off k)"
  shows "hdr_post b free sz (Some (NET_ERR_OK, pktbuf_reset_acc
     (b\<lparr>blk_list := k\<lparr>blk_size := blk_size k + nat sz, blk_data := Some (blk_off k - nat sz)\<rparr> # rest,
        total_size := total_size b + nat sz\<rparr>), free))"
proof -
  from assms have k: "blk_wf k" "nat sz \<le> blk_off k" "chain_wf rest" "total_size b = blk_size k + chain_size rest"
    by (simp_all add: buf_wf_def)
  from blk_grow_front [OF k(1,2)] k(3,4) assms(2-4) show ?thesis
    by (auto simp: buf_bytes_def intro!: op_keeps_reset)
qed

lemma hdr_post_split:
  assumes "buf_wf b" and "free_wf free" and "blk_list b = k # rest" and "int (blk_off k) < sz"
  shows "hdr_post b free sz
    (case pktblock_alloc_list (sz - int (blk_off k)) True free of
       (None, free) \<Rightarrow> Some (NET_ERR_MEM, b, free)
     | (Some ks, free) \<Rightarrow>
         let b = b\<lparr>blk_list := k\<lparr>blk_data := Some 0, blk_size := blk_size k + blk_off k\<rparr> # rest,
                   total_size := total_size b + blk_off k\<rparr>
         in Some (NET_ERR_OK, pktbuf_reset_acc (pktbuf_insert_blk_list b ks False), free))"
proof -
  obtain r free' where al: "pktblock_alloc_list (sz - int (blk_off k)) True free = (r, free')"
    by (metis surj_pair)
  from assms(4) have pos: "0 < sz - int (blk_off k)" by simp
  from assms have k: "blk_wf k" "chain_wf rest" "total_size b = blk_size k + chain_size rest"
    by (simp_all add: buf_wf_def)
  note spec = pktblock_alloc_list_spec [OF assms(2) pos al]
  show ?thesis
  proof (cases r)
    case None
    with spec assms(1) al show ?thesis by (simp add: op_keeps_def)
  next
    case (Some ks)
    let ?k = "k\<lparr>blk_data := Some 0, blk_size := blk_size k + blk_off k\<rparr>"
    from blk_grow_front [OF k(1), of "blk_off k"]
    have g: "blk_wf ?k" "\<exists>h. length h = blk_off k \<and> blk_bytes ?k = h @ blk_bytes k"
      by (simp_all add: blk_wf_def blk_bytes_def)
    then obtain h where h: "length h = blk_off k" "blk_bytes ?k = h @ blk_bytes k" by blast
    have "buf_bytes (b\<lparr>blk_list := ks @ ?k # rest\<rparr>) = (chain_bytes ks @ h) @ buf_bytes b"
      using h assms(3) by (simp add: buf_bytes_def)
    moreover have "length (chain_bytes ks @ h) = nat sz"
      using spec(4,5) Some h(1) assms(4) by simp
    moreover have "op_keeps b free (pktbuf_reset_acc
        (b\<lparr>blk_list := ks @ ?k # rest, total_size := total_size b + blk_off k + chain_size ks\<rparr>)) free'"
      using spec(1,4,6) Some g(1) k assms(3) by (intro op_keeps_reset) (auto simp: ac_simps)
    ultimately show ?thesis
      using al Some assms(4) by (auto simp: pktbuf_insert_blk_list_def buf_bytes_def)
  qed
qed

lemma add_header_post:
  assumes "buf_wf b" and "free_wf free" and "0 < ref b"
  shows "hdr_post b free sz (add_header sz cont b free)"
proof (cases "sz \<le> 0")
  case True
  with assms show ?thesis
    by (auto simp: add_header_def op_keeps_refl)
next
  case False
  then have sz: "0 < sz" by simp
  show ?thesis
  proof (cases "blk_list b")
    case Nil
    with hdr_post_alloc [OF assms(1,2) sz] sz assms(3) show ?thesis
      by (simp add: add_header_def)
  next
    case (Cons k rest)
    consider "sz \<le> int (blk_off k)" | "int (blk_off k) < sz" "cont" "sz > int PKTBUF_BLK_SIZE"
      | "int (blk_off k) < sz" "cont" "\<not> sz > int PKTBUF_BLK_SIZE" | "int (blk_off k) < sz" "\<not> cont"
      by linarith
    then show ?thesis
    proof cases
      case 1
      with hdr_post_reserve [OF assms(1,2) sz Cons] Cons sz assms(3) show ?thesis
        by (simp add: add_header_def)
    next
      case 2
      with Cons sz assms show ?thesis by (simp add: add_header_def op_keeps_refl)
    next
      case 3
      with hdr_post_alloc [OF assms(1,2) sz] Cons sz assms(3) show ?thesis
        by (simp add: add_header_def)
    next
      case 4
      with hdr_post_split [OF assms(1,2) Cons] Cons sz assms(3) show ?thesis
        by (simp add: add_header_def Let_def)
    qed
  qed
qed

text \<open>\<^verbatim>\<open>pktbuf_remove_header\<close> drops the first \<open>sz\<close> bytes.\<close>

lemma blk_drop_front:
  assumes "blk_wf k" and "n < blk_size k"
  shows "blk_wf (k\<lparr>blk_data := Some (blk_off k + n), blk_size := blk_size k - n\<rparr>)"
    and "blk_bytes (k\<lparr>blk_data := Some (blk_off k + n), blk_size := blk_size k - n\<rparr>) = drop n (blk_bytes k)"
  using assms by (auto simp: blk_wf_def blk_bytes_def get_at_def drop_take add.commute)

lemma remove_header_loop_spec:
  assumes "chain_wf ks" and "sz \<le> chain_size ks" and "tot = chain_size ks" and "free_wf free"
  obtains ks' free' where "remove_header_loop sz ks tot free = Some (ks', tot - sz, free')"
    and "chain_wf ks'" and "chain_size ks' = tot - sz" and "chain_bytes ks' = drop sz (chain_bytes ks)"
    and "free_wf free'" and "ids ks' + ids free' = ids ks + ids free"
proof -
  have "\<exists>ks' free'. remove_header_loop sz ks tot free = Some (ks', tot - sz, free') \<and> chain_wf ks' \<and>
      chain_size ks' = tot - sz \<and> chain_bytes ks' = drop sz (chain_bytes ks) \<and> free_wf free' \<and>
      ids ks' + ids free' = ids ks + ids free"
    using assms
  proof (induction sz ks tot free rule: remove_header_loop.induct)
    case (2 sz k ks tot free)
    show ?case
    proof (cases "sz < blk_size k")
      case True
      with 2(2-5) blk_drop_front [of k sz] show ?thesis by auto
    next
      case False
      with 2(2) have "sz \<noteq> 0" by (auto simp: blk_wf_def)
      moreover from False 2(2-5) have "chain_wf ks" "sz - blk_size k \<le> chain_size ks"
        "tot - blk_size k = chain_size ks" "free_wf (pktblock_free k free)"
        by (auto simp: pktblock_free_def blk_wf_def)
      ultimately show ?thesis
        using 2(1) False 2(2-5) by (auto simp: pktblock_free_def)
    qed
  qed simp
  then show thesis using that by blast
qed

text \<open>A result of an operation on a buffer: the operation keeps the buffer and the blocks; it reports
  success exactly when \<open>ok\<close>, and then the bytes are as \<open>P\<close> says; otherwise the buffer is as before.\<close>

fun buf_post ::
  "pktbuf \<Rightarrow> pktblk list \<Rightarrow> (pktbuf \<Rightarrow> bool) \<Rightarrow> (net_err \<times> pktbuf \<times> pktblk list) option \<Rightarrow> bool" where
  "buf_post b free P None = False"
| "buf_post b free P (Some (e, b', free')) \<longleftrightarrow> op_keeps b free b' free' \<and>
     (if e = NET_ERR_OK then P b' else b' = b)"

lemma remove_header_post:
  assumes "buf_wf b" and "free_wf free" and "0 < ref b"
  shows "buf_post b free (\<lambda>b'. 0 \<le> sz \<and> sz \<le> int (total_size b) \<and> buf_bytes b' = drop (nat sz) (buf_bytes b))
    (remove_header sz b free)"
proof (cases "0 < sz \<and> sz \<le> int (total_size b)")
  case False
  with assms show ?thesis by (auto simp: remove_header_def op_keeps_refl buf_bytes_def)
next
  case True
  with assms(1) have "chain_wf (blk_list b)" "nat sz \<le> chain_size (blk_list b)"
    "total_size b = chain_size (blk_list b)"
    by (auto simp: buf_wf_def)
  from remove_header_loop_spec [OF this assms(2)] obtain ks' free' where
    "remove_header_loop (nat sz) (blk_list b) (total_size b) free = Some (ks', total_size b - nat sz, free')"
    "chain_wf ks'" "chain_size ks' = total_size b - nat sz"
    "chain_bytes ks' = drop (nat sz) (chain_bytes (blk_list b))"
    "free_wf free'" "ids ks' + ids free' = ids (blk_list b) + ids free" by blast
  with True assms(3) show ?thesis
    by (auto simp: remove_header_def buf_bytes_def intro!: op_keeps_reset)
qed


section \<open>Resizing\<close>

lemma blk_grow_back:
  assumes "blk_wf k" and "n \<le> curr_blk_tail_free k"
  shows "blk_wf (k\<lparr>blk_size := blk_size k + n\<rparr>)"
    and "\<exists>t. length t = n \<and> blk_bytes (k\<lparr>blk_size := blk_size k + n\<rparr>) = blk_bytes k @ t"
proof -
  show "blk_wf (k\<lparr>blk_size := blk_size k + n\<rparr>)"
    using assms by (auto simp: blk_wf_def curr_blk_tail_free_def)
  show "\<exists>t. length t = n \<and> blk_bytes (k\<lparr>blk_size := blk_size k + n\<rparr>) = blk_bytes k @ t"
    using assms by (intro exI [of _ "get_at (blk_off k + blk_size k) n (blk_payload k)"])
      (auto simp: blk_wf_def blk_bytes_def curr_blk_tail_free_def get_at_add)
qed

lemma blk_shrink:
  assumes "blk_wf k" and "0 < n" and "n \<le> blk_size k"
  shows "blk_wf (k\<lparr>blk_size := n\<rparr>)" and "blk_bytes (k\<lparr>blk_size := n\<rparr>) = take n (blk_bytes k)"
  using assms by (auto simp: blk_wf_def blk_bytes_def get_at_def)

lemma find_tail_spec:
  assumes "t < to_size" and "to_size \<le> t + chain_size ks"
  obtains i where "find_tail ks t to_size = Some i" and "i < length ks"
    and "t + chain_size (take i ks) < to_size" and "to_size \<le> t + chain_size (take i ks) + blk_size (ks ! i)"
proof -
  have "\<exists>i. find_tail ks t to_size = Some i \<and> i < length ks \<and> t + chain_size (take i ks) < to_size \<and>
      to_size \<le> t + chain_size (take i ks) + blk_size (ks ! i)"
    using assms
  proof (induction ks t to_size rule: find_tail.induct)
    case (2 k ks t to_size)
    show ?case
    proof (cases "to_size \<le> t + blk_size k")
      case False
      with 2 obtain i where "find_tail ks (t + blk_size k) to_size = Some i" "i < length ks"
        "t + blk_size k + chain_size (take i ks) < to_size"
        "to_size \<le> t + blk_size k + chain_size (take i ks) + blk_size (ks ! i)" by auto
      with False show ?thesis by (intro exI [of _ "Suc i"]) simp
    qed (use 2 in auto)
  qed simp
  then show thesis using that by blast
qed

text \<open>\<^verbatim>\<open>pktbuf_resize\<close> cuts the bytes to \<open>to_size\<close>, or extends them at the end.\<close>

abbreviation resized :: "int \<Rightarrow> pktbuf \<Rightarrow> pktbuf \<Rightarrow> bool" where
  "resized n b b' \<equiv> 0 \<le> n \<and> length (buf_bytes b') = nat n \<and> (\<exists>pad. buf_bytes b' = take (nat n) (buf_bytes b) @ pad)"

lemma resize_grow_alloc:
  assumes "chain_wf ks0" and "total_size b0 = chain_size ks0" and "blk_list b0 = ks0" and "ref b0 = ref b"
    and "ids ks0 = ids (blk_list b)" and "free_wf free" and "buf_wf b" and "0 < inc"
    and "\<exists>pad. chain_bytes ks0 = buf_bytes b @ pad" and "n = int (chain_size ks0) + inc" and "total_size b \<le> nat n"
  shows "buf_post b free (resized n b)
    (case pktblock_alloc_list inc False free of
       (None, free) \<Rightarrow> Some (NET_ERR_MEM, b, free)
     | (Some ks, free) \<Rightarrow> Some (NET_ERR_OK, pktbuf_reset_acc (pktbuf_insert_blk_list b0 ks True), free))"
proof -
  obtain r free' where al: "pktblock_alloc_list inc False free = (r, free')" by (metis surj_pair)
  note spec = pktblock_alloc_list_spec [OF assms(6,8) al]
  show ?thesis
  proof (cases r)
    case None
    with spec assms(7) al show ?thesis by (simp add: op_keeps_def)
  next
    case (Some ks)
    from assms(9) obtain pad where pad: "chain_bytes ks0 = buf_bytes b @ pad" by blast
    let ?b = "pktbuf_insert_blk_list b0 ks True"
    have bl: "blk_list ?b = ks0 @ ks" "total_size ?b = chain_size (ks0 @ ks)" "ref ?b = ref b"
      using assms(2-4) by (simp_all add: pktbuf_insert_blk_list_def)
    have "op_keeps b free (pktbuf_reset_acc ?b) free'"
      using spec(1,4,6) Some bl assms(1,5) by (intro op_keeps_reset) (auto simp: ac_simps)
    moreover have "buf_bytes ?b = take (nat n) (buf_bytes b) @ (pad @ chain_bytes ks)"
      using bl(1) pad assms(11) length_buf_bytes [OF assms(7)] by (simp add: buf_bytes_def)
    moreover have "length (buf_bytes ?b) = nat n"
      using bl(1) spec(4,5) Some assms(1,8,10) by (simp add: buf_bytes_def nat_add_distrib)
    ultimately show ?thesis
      using al Some assms(8,10) by auto
  qed
qed

lemma resize_grow:
  assumes "buf_wf b" and "free_wf free" and "0 < ref b" and "0 < total_size b" and "total_size b < nat n"
  shows "buf_post b free (resized n b) (pktbuf_resize_core n b free)"
proof -
  from assms(1,4) have ne: "blk_list b \<noteq> []" by (auto simp: buf_wf_def)
  define k where "k = last (blk_list b)"
  define ks where "ks = butlast (blk_list b)"
  from ne have bl: "blk_list b = ks @ [k]" by (simp add: k_def ks_def)
  define inc where "inc = nat n - total_size b"
  from assms(1) bl have wf: "chain_wf ks" "blk_wf k" "total_size b = chain_size ks + blk_size k"
    by (simp_all add: buf_wf_def)
  have n: "0 \<le> n" "nat n = total_size b + inc" "0 < inc" using assms(5) by (simp_all add: inc_def)
  show ?thesis
  proof (cases "inc \<le> curr_blk_tail_free k")
    case True
    from blk_grow_back [OF wf(2) True] obtain t where t: "length t = inc"
      "blk_wf (k\<lparr>blk_size := blk_size k + inc\<rparr>)" "blk_bytes (k\<lparr>blk_size := blk_size k + inc\<rparr>) = blk_bytes k @ t"
      by blast
    have "op_keeps b free (pktbuf_reset_acc
        (b\<lparr>blk_list := ks @ [k\<lparr>blk_size := blk_size k + inc\<rparr>], total_size := total_size b + inc\<rparr>)) free"
      using wf t(2) assms(2) bl by (intro op_keeps_reset) auto
    moreover have "pktbuf_resize_core n b free = Some (NET_ERR_OK, pktbuf_reset_acc
        (b\<lparr>blk_list := ks @ [k\<lparr>blk_size := blk_size k + inc\<rparr>], total_size := total_size b + inc\<rparr>), free)"
      using True n assms(3-5) bl by (auto simp: pktbuf_resize_core_def inc_def [symmetric])
    moreover have "chain_bytes (ks @ [k\<lparr>blk_size := blk_size k + inc\<rparr>]) = take (nat n) (buf_bytes b) @ t"
      "length (buf_bytes b @ t) = nat n"
      using t n bl length_buf_bytes [OF assms(1)] by (simp_all add: buf_bytes_def)
    ultimately show ?thesis
      using n(1,2) length_buf_bytes [OF assms(1)] by (simp add: buf_bytes_def)
  next
    case False
    let ?rem = "curr_blk_tail_free k"
    from blk_grow_back [OF wf(2), of ?rem] obtain t where t:
      "blk_wf (k\<lparr>blk_size := blk_size k + ?rem\<rparr>)" "blk_bytes (k\<lparr>blk_size := blk_size k + ?rem\<rparr>) = blk_bytes k @ t"
      by blast
    from False n have "n = int (chain_size (ks @ [k\<lparr>blk_size := blk_size k + ?rem\<rparr>])) + int (inc - ?rem)"
      using wf(3) by simp
    then have "buf_post b free (resized n b)
      (case pktblock_alloc_list (int (inc - ?rem)) False free of
         (None, free) \<Rightarrow> Some (NET_ERR_MEM, b, free)
       | (Some ls, free) \<Rightarrow> Some (NET_ERR_OK, pktbuf_reset_acc (pktbuf_insert_blk_list
           (b\<lparr>blk_list := ks @ [k\<lparr>blk_size := blk_size k + ?rem\<rparr>], total_size := total_size b + ?rem\<rparr>) ls True), free))"
      using wf t bl assms(1,2,5) False
      by (intro resize_grow_alloc [where ?ks0.0 = "ks @ [k\<lparr>blk_size := blk_size k + ?rem\<rparr>]"])
        (auto simp: buf_bytes_def)
    with False n bl assms(3,4,5) show ?thesis
      by (auto simp: pktbuf_resize_core_def inc_def [symmetric] Let_def cong: option.case_cong prod.case_cong)
  qed
qed

lemma resize_shrink:
  assumes "buf_wf b" and "free_wf free" and "0 < ref b" and "0 < nat n" and "nat n < total_size b"
  shows "buf_post b free (resized n b) (pktbuf_resize_core n b free)"
proof -
  from assms(1,5) have "nat n \<le> 0 + chain_size (blk_list b)" by (simp add: buf_wf_def)
  from find_tail_spec [OF assms(4) this] obtain i where i: "find_tail (blk_list b) 0 (nat n) = Some i"
    "i < length (blk_list b)" "chain_size (take i (blk_list b)) < nat n"
    "nat n \<le> chain_size (take i (blk_list b)) + blk_size (blk_list b ! i)" by auto
  define as k cs where "as = take i (blk_list b)" and "k = blk_list b ! i" and "cs = drop (Suc i) (blk_list b)"
  have bl: "blk_list b = as @ k # cs" using i(2) by (simp add: as_def k_def cs_def id_take_nth_drop)
  from assms(1) bl have wf: "chain_wf as" "blk_wf k" "chain_wf cs"
    "total_size b = chain_size as + blk_size k + chain_size cs"
    by (simp_all add: buf_wf_def)
  define m where "m = nat n - chain_size as"
  have m: "0 < m" "m \<le> blk_size k" "nat n = chain_size as + m"
    using i(3,4) by (simp_all add: m_def as_def k_def)
  note k' = blk_shrink [OF wf(2) m(1,2)]
  have "op_keeps b free (pktbuf_reset_acc (b\<lparr>blk_list := as @ [k\<lparr>blk_size := m\<rparr>], total_size := nat n\<rparr>)) (free @ cs)"
    using wf k' m(3) bl assms(2) chain_wf_free_wf by (intro op_keeps_reset) auto
  moreover have "pktbuf_resize_core n b free =
    Some (NET_ERR_OK, pktbuf_reset_acc (b\<lparr>blk_list := as @ [k\<lparr>blk_size := m\<rparr>], total_size := nat n\<rparr>), free @ cs)"
  proof -
    have "blk_size k - (total_size b - chain_size cs - nat n) = m" using wf(4) m by simp
    with i(1) assms(3-5) show ?thesis
      by (simp add: pktbuf_resize_core_def Let_def as_def [symmetric] k_def [symmetric] cs_def [symmetric])
  qed
  moreover have "chain_bytes (as @ [k\<lparr>blk_size := m\<rparr>]) = take (nat n) (buf_bytes b)"
    using bl k'(2) m wf by (simp add: buf_bytes_def)
  ultimately show ?thesis
    using assms(1,4,5) length_buf_bytes [OF assms(1)] by (simp add: buf_bytes_def)
qed

lemma resize_post:
  assumes "buf_wf b" and "free_wf free" and "0 < ref b"
  shows "buf_post b free (resized n b) (pktbuf_resize_core n b free)"
proof -
  consider "n < 0" | "0 \<le> n" "nat n = total_size b" | "n = 0" "total_size b \<noteq> 0"
    | "0 < n" "total_size b = 0" | "0 < total_size b" "total_size b < nat n" | "0 < nat n" "nat n < total_size b"
    by linarith
  then show ?thesis
  proof cases
    case 1
    with assms show ?thesis by (simp add: pktbuf_resize_core_def op_keeps_refl)
  next
    case 2
    with assms show ?thesis by (simp add: pktbuf_resize_core_def op_keeps_refl)
  next
    case 3
    with assms show ?thesis
      by (auto simp: pktbuf_resize_core_def buf_bytes_def buf_wf_def chain_wf_free_wf intro!: op_keeps_reset)
  next
    case 4
    with assms have bl: "blk_list b = []" by (auto simp: buf_wf_def)
    with resize_grow_alloc [of "[]" b b free n n] 4 assms show ?thesis
      by (simp add: pktbuf_resize_core_def buf_bytes_def)
  next
    case 5
    with resize_grow [OF assms] show ?thesis by blast
  next
    case 6
    with resize_shrink [OF assms] show ?thesis by blast
  qed
qed


section \<open>Contiguous headers\<close>

lemma set_cont_loop_spec:
  assumes "blk_wf k" and "blk_off k = 0" and "blk_size k + remain \<le> PKTBUF_BLK_SIZE" and "chain_wf cs"
    and "remain \<le> chain_size cs" and "free_wf free" and "set_cont_loop remain k cs free = (k', cs', free')"
  shows "blk_wf k' \<and> blk_size k' = blk_size k + remain \<and> chain_wf cs' \<and> free_wf free' \<and>
    blk_bytes k' @ chain_bytes cs' = blk_bytes k @ chain_bytes cs \<and>
    blk_size k' + chain_size cs' = blk_size k + chain_size cs \<and>
    ids (k' # cs') + ids free' = ids (k # cs) + ids free"
  using assms
proof (induction remain k cs free rule: set_cont_loop.induct)
  case (2 remain k c cs free)
  define n where "n = (if blk_size c > remain then remain else blk_size c)"
  define k1 where "k1 = k\<lparr>blk_payload := put_at (blk_size k) (get_at (blk_off c) n (blk_payload c)) (blk_payload k),
                  blk_size := blk_size k + n\<rparr>"
  define c1 where "c1 = c\<lparr>blk_data := Some (blk_off c + n), blk_size := blk_size c - n\<rparr>"
  have n: "n \<le> remain" "n \<le> blk_size c" by (simp_all add: n_def)
  have c: "blk_wf c" "chain_wf cs" using 2(5) by simp_all
  from 2(2-4) c n have len: "length (get_at (blk_off c) n (blk_payload c)) = n"
    "length (blk_payload k) = PKTBUF_BLK_SIZE" "blk_size k + n \<le> PKTBUF_BLK_SIZE"
    by (auto simp: blk_wf_def)
  have k1: "blk_wf k1" "blk_off k1 = 0" "blk_size k1 = blk_size k + n" "blk_id k1 = blk_id k"
    "blk_bytes k1 = blk_bytes k @ get_at (blk_off c) n (blk_payload c)"
    using 2(2,3) len by (auto simp: k1_def blk_wf_def blk_bytes_def put_at_def get_at_def)
  have split: "get_at (blk_off c) n (blk_payload c) @ get_at (blk_off c + n) (blk_size c - n) (blk_payload c) = blk_bytes c"
    using n get_at_add [of "blk_off c" n "blk_size c - n" "blk_payload c"] by (simp add: blk_bytes_def)
  show ?case
  proof (cases "remain = 0")
    case True
    with 2 show ?thesis by auto
  next
    case False
    show ?thesis
    proof (cases "blk_size c \<le> remain")
      case True
      then have neq: "n = blk_size c" by (simp add: n_def)
      with 2(8) False have eq: "set_cont_loop (remain - n) k1 cs (pktblock_free c1 free) = (k', cs', free')"
        by (simp add: Let_def n_def [symmetric] k1_def c1_def)
      have "free_wf (pktblock_free c1 free)" using 2(7) c(1) by (simp add: pktblock_free_def c1_def blk_wf_def)
      moreover have "remain - n \<le> chain_size cs" using 2(6) neq by simp
      ultimately have "blk_wf k' \<and> blk_size k' = blk_size k1 + (remain - n) \<and> chain_wf cs' \<and> free_wf free' \<and>
        blk_bytes k' @ chain_bytes cs' = blk_bytes k1 @ chain_bytes cs \<and>
        blk_size k' + chain_size cs' = blk_size k1 + chain_size cs \<and>
        ids (k' # cs') + ids free' = ids (k1 # cs) + ids (pktblock_free c1 free)"
        using 2(1) [OF False n_def k1_def c1_def] k1(1-3) 2(4) c(2) neq eq True
        by (simp add: c1_def)
      moreover have "blk_bytes k1 @ chain_bytes cs = blk_bytes k @ chain_bytes (c # cs)"
        using k1(5) neq by (simp add: blk_bytes_def)
      ultimately show ?thesis
        using k1 n neq by (auto simp: pktblock_free_def c1_def)
    next
      case False
      then have neq: "n = remain" "n < blk_size c" by (simp_all add: n_def)
      with 2(8) \<open>remain \<noteq> 0\<close> have "k' = k1" "cs' = c1 # cs" "free' = free"
        by (simp_all add: Let_def n_def [symmetric] k1_def c1_def)
      moreover have "blk_wf c1" "blk_bytes c1 = get_at (blk_off c + n) (blk_size c - n) (blk_payload c)"
        "blk_size c1 = blk_size c - n" "blk_id c1 = blk_id c"
        using c(1) neq by (auto simp: c1_def blk_wf_def blk_bytes_def)
      ultimately show ?thesis
        using k1 c neq 2(7) split by simp
    qed
  qed
qed simp

lemma set_cont_post:
  assumes "buf_wf b" and "free_wf free" and "0 < ref b"
  shows "buf_post b free (\<lambda>b'. buf_bytes b' = buf_bytes b \<and> 0 \<le> sz \<and>
      (0 < sz \<longrightarrow> (\<exists>k ks. blk_list b' = k # ks \<and> nat sz \<le> blk_size k)))
    (set_cont sz b free)"
proof (cases "0 < sz \<and> sz \<le> int (total_size b) \<and> sz \<le> int PKTBUF_BLK_SIZE")
  case False
  with assms show ?thesis by (auto simp: set_cont_def op_keeps_refl)
next
  case True
  with assms(1) obtain k ks where bl: "blk_list b = k # ks"
    by (cases "blk_list b") (auto simp: buf_wf_def)
  from assms(1) bl have wf: "blk_wf k" "chain_wf ks" "total_size b = blk_size k + chain_size ks"
    by (simp_all add: buf_wf_def)
  show ?thesis
  proof (cases "sz \<le> int (blk_size k)")
    case le: True
    have "op_keeps b free (pktbuf_reset_acc b) free"
      using assms wf bl by (intro op_keeps_reset) auto
    with le True bl assms(3) show ?thesis by (simp add: set_cont_def)
  next
    case gt: False
    define k0 where "k0 = k\<lparr>blk_payload := put_at 0 (get_at (blk_off k) (blk_size k) (blk_payload k)) (blk_payload k),
                      blk_data := Some 0\<rparr>"
    have k0: "blk_wf k0" "blk_off k0 = 0" "blk_size k0 = blk_size k" "blk_bytes k0 = blk_bytes k" "blk_id k0 = blk_id k"
      using wf(1) get_at_put_at_same [of 0 "blk_bytes k" "blk_payload k"]
      by (auto simp: k0_def blk_wf_def blk_bytes_def)
    obtain k' ks' free' where lp: "set_cont_loop (nat sz - blk_size k0) k0 ks free = (k', ks', free')"
      by (metis prod_cases3)
    from True gt wf(3) k0(3) have "blk_size k0 + (nat sz - blk_size k0) \<le> PKTBUF_BLK_SIZE"
      "nat sz - blk_size k0 \<le> chain_size ks" by auto
    note spec = set_cont_loop_spec [OF k0(1,2) this(1) wf(2) this(2) assms(2) lp]
    have "op_keeps b free (pktbuf_reset_acc (b\<lparr>blk_list := k' # ks'\<rparr>)) free'"
      using spec k0 bl wf(3) by (intro op_keeps_reset) auto
    with spec k0 bl lp gt True assms(3) show ?thesis
      by (auto simp: set_cont_def k0_def [symmetric] Let_def buf_bytes_def)
  qed
qed


section \<open>The cursor\<close>

lemma cursor_cases:
  assumes "buf_wf b" and "pos b < total_size b"
  obtains as k cs d where "cursor_at b as k cs d"
  using assms by (auto simp: buf_wf_def cursor_ok_def)

lemma cursor_remain: "cursor_at b as k cs d \<Longrightarrow> curr_blk_remain b = blk_size k - d"
  by (simp add: cursor_at_def curr_blk_remain_def)

text \<open>As long as there are bytes behind the cursor, the current block has some of them.\<close>

lemma curr_blk_remain_pos:
  assumes "buf_wf b" and "pos b < total_size b"
  shows "0 < curr_blk_remain b" and "pos b + curr_blk_remain b \<le> total_size b"
proof -
  obtain as k cs d where "cursor_at b as k cs d" using assms by (rule cursor_cases)
  with assms(1) cursor_remain [OF this] show "0 < curr_blk_remain b" "pos b + curr_blk_remain b \<le> total_size b"
    by (auto simp: cursor_at_def buf_wf_def)
qed

lemma move_forward_spec:
  assumes "buf_wf b" and "0 < n" and "n \<le> curr_blk_remain b"
  shows "buf_wf (move_forward n b)" and "pos (move_forward n b) = pos b + n"
    and "blk_list (move_forward n b) = blk_list b" and "total_size (move_forward n b) = total_size b"
    and "ref (move_forward n b) = ref b"
proof -
  from assms(2,3) have "0 < curr_blk_remain b" by simp
  then obtain as k cs d where c: "cursor_at b as k cs d"
    using assms(1) by (auto simp: buf_wf_def cursor_ok_def curr_blk_remain_def)
  from cursor_remain [OF c] assms(2,3) have n: "0 < n" "d + n \<le> blk_size k" by auto
  let ?b = "move_forward n b"
  show "pos ?b = pos b + n" "blk_list ?b = blk_list b" "total_size ?b = total_size b" "ref ?b = ref b"
    using c n by (auto simp: move_forward_def cursor_at_def Let_def)
  have "cursor_ok ?b"
  proof (cases "d + n < blk_size k")
    case True
    with c n have "cursor_at ?b as k cs (d + n)"
      by (auto simp: move_forward_def cursor_at_def Let_def)
    then show ?thesis by (auto simp: cursor_ok_def)
  next
    case False
    with n have d: "d + n = blk_size k" by simp
    show ?thesis
    proof (cases cs)
      case Nil
      with c n d show ?thesis
        by (auto simp: move_forward_def cursor_at_def cursor_ok_def Let_def)
    next
      case (Cons k' cs')
      moreover from assms(1) c Cons have "blk_wf k'" by (simp add: buf_wf_def cursor_at_def)
      ultimately have "cursor_at ?b (as @ [k]) k' cs' 0"
        using c n d by (auto simp: move_forward_def cursor_at_def Let_def blk_wf_def nth_append)
      then show ?thesis by (auto simp: cursor_ok_def)
    qed
  qed
  with assms(1) \<open>blk_list ?b = blk_list b\<close> \<open>total_size ?b = total_size b\<close> show "buf_wf ?b"
    by (simp add: buf_wf_def)
qed

lemma cursor_get_spec:
  assumes "buf_wf b" and "n \<le> curr_blk_remain b"
  shows "cursor_get n b = get_at (pos b) n (buf_bytes b)"
proof (cases "n = 0")
  case True
  then show ?thesis by (simp add: cursor_get_def split: option.splits)
next
  case False
  with assms obtain as k cs d where c: "cursor_at b as k cs d"
    by (auto simp: buf_wf_def cursor_ok_def curr_blk_remain_def)
  from cursor_remain [OF c] assms(2) False have n: "d + n \<le> blk_size k" by auto
  from assms(1) c have wf: "chain_wf as" "blk_wf k" by (simp_all add: buf_wf_def cursor_at_def)
  have "get_at (pos b) n (buf_bytes b) = get_at d n (blk_bytes k)"
    using c n wf by (simp add: cursor_at_def buf_bytes_def get_at_append_right get_at_append_left)
  also have "\<dots> = get_at (blk_off k + d) n (blk_payload k)"
    using n by (simp add: blk_bytes_def get_at_def drop_take min_def add.commute)
  finally show ?thesis
    using c by (simp add: cursor_get_def cursor_at_def)
qed

lemma cursor_put_spec:
  assumes "buf_wf b" and "length bs \<le> curr_blk_remain b"
  shows "buf_wf (cursor_put bs b)" and "buf_bytes (cursor_put bs b) = put_at (pos b) bs (buf_bytes b)"
    and "pos (cursor_put bs b) = pos b" and "total_size (cursor_put bs b) = total_size b"
    and "ref (cursor_put bs b) = ref b" and "ids (blk_list (cursor_put bs b)) = ids (blk_list b)"
    and "curr_blk_remain (cursor_put bs b) = curr_blk_remain b"
proof -
  let ?b = "cursor_put bs b"
  show p: "pos ?b = pos b" and t: "total_size ?b = total_size b" and "ref ?b = ref b"
    by (simp_all add: cursor_put_def split: option.splits)
  have "buf_wf ?b \<and> buf_bytes ?b = put_at (pos b) bs (buf_bytes b) \<and> ids (blk_list ?b) = ids (blk_list b) \<and>
    curr_blk_remain ?b = curr_blk_remain b"
  proof (cases "\<exists>as k cs d. cursor_at b as k cs d")
    case False
    with assms have "curr_blk b = None" "bs = []"
      by (auto simp: buf_wf_def cursor_ok_def curr_blk_remain_def)
    with assms(1) show ?thesis by (simp add: cursor_put_def)
  next
    case True
    then obtain as k cs d where c: "cursor_at b as k cs d" by blast
    from cursor_remain [OF c] assms(2) have n: "d + length bs \<le> blk_size k" using c by (auto simp: cursor_at_def)
    from assms(1) c have wf: "chain_wf as" "blk_wf k" "chain_wf cs" by (simp_all add: buf_wf_def cursor_at_def)
    define k' where "k' = k\<lparr>blk_payload := put_at (blk_off k + d) bs (blk_payload k)\<rparr>"
    have k': "blk_wf k'" "blk_size k' = blk_size k" "blk_id k' = blk_id k" "blk_off k' = blk_off k"
      "blk_bytes k' = put_at d bs (blk_bytes k)"
      using wf(2) n by (auto simp: k'_def blk_wf_def blk_bytes_def get_at_put_at_inside)
    have bl: "blk_list ?b = as @ k' # cs" "curr_blk ?b = curr_blk b" "blk_offset ?b = blk_offset b"
      using c by (simp_all add: cursor_put_def cursor_at_def k'_def)
    then have c': "cursor_at ?b as k' cs d"
      using c k' p by (simp add: cursor_at_def)
    have "buf_bytes ?b = put_at (pos b) bs (buf_bytes b)"
      using bl(1) k'(5) c n wf by (simp add: buf_bytes_def cursor_at_def put_at_append_right put_at_append_left)
    moreover have "buf_wf ?b"
    proof -
      have "cursor_ok ?b" using c' by (auto simp: cursor_ok_def)
      moreover have "total_size b = chain_size (as @ k # cs)" using assms(1) c by (simp add: buf_wf_def cursor_at_def)
      ultimately show ?thesis using bl(1) k' wf t by (simp add: buf_wf_def)
    qed
    ultimately show ?thesis
      using bl(1) k' c cursor_remain [OF c] cursor_remain [OF c'] by (simp add: cursor_at_def)
  qed
  then show "buf_wf ?b" "buf_bytes ?b = put_at (pos b) bs (buf_bytes b)" "ids (blk_list ?b) = ids (blk_list b)"
    "curr_blk_remain ?b = curr_blk_remain b" by blast+
qed

text \<open>One round of a loop that stores bytes at the cursor and moves on.\<close>

lemma put_move_spec:
  assumes "buf_wf b" and "0 < length bs" and "length bs \<le> curr_blk_remain b"
  defines "b' \<equiv> move_forward (length bs) (cursor_put bs b)"
  shows "buf_wf b'" and "pos b' = pos b + length bs" and "total_size b' = total_size b" and "ref b' = ref b"
    and "buf_bytes b' = put_at (pos b) bs (buf_bytes b)" and "ids (blk_list b') = ids (blk_list b)"
  using cursor_put_spec [OF assms(1,3)] move_forward_spec [of "cursor_put bs b" "length bs"] assms(2,3)
  by (simp_all add: b'_def buf_bytes_def)

text \<open>What a cursor operation over \<open>n\<close> bytes keeps.\<close>

definition moved :: "nat \<Rightarrow> pktbuf \<Rightarrow> pktbuf \<Rightarrow> bool" where
  "moved n b b' \<longleftrightarrow> buf_wf b' \<and> pos b' = pos b + n \<and> total_size b' = total_size b \<and> ref b' = ref b \<and>
     ids (blk_list b') = ids (blk_list b)"

lemma moved_0 [simp]: "buf_wf b \<Longrightarrow> moved 0 b b"
  by (simp add: moved_def)

lemma moved_trans: "moved m b b1 \<Longrightarrow> moved n b1 b2 \<Longrightarrow> moved (m + n) b b2"
  by (simp add: moved_def)

lemma moved_wf: "moved n b b' \<Longrightarrow> buf_wf b'"
  by (simp add: moved_def)

lemma moved_put: "buf_wf b \<Longrightarrow> 0 < length bs \<Longrightarrow> length bs \<le> curr_blk_remain b \<Longrightarrow>
    moved (length bs) b (move_forward (length bs) (cursor_put bs b))"
  by (simp add: moved_def put_move_spec)

lemma moved_move: "buf_wf b \<Longrightarrow> 0 < n \<Longrightarrow> n \<le> curr_blk_remain b \<Longrightarrow> moved n b (move_forward n b)"
  by (simp add: moved_def move_forward_spec)

lemma cursor_loops_0 [simp]:
  "write_loop 0 src b = Some b" "read_loop 0 b = Some ([], b)" "seek_loop 0 b = Some b"
  "checksum16_loop 0 acc offset b = Some (acc, b)" "copy_loop 0 d i bufs = Some bufs"
  by (simp_all add: write_loop.simps read_loop.simps seek_loop.simps checksum16_loop.simps copy_loop.simps)

lemma write_loop_spec:
  assumes "buf_wf b" and "pos b + sz \<le> total_size b" and "sz \<le> length src"
  shows "\<exists>b'. write_loop sz src b = Some b' \<and> moved sz b b' \<and>
    buf_bytes b' = put_at (pos b) (take sz src) (buf_bytes b)"
  using assms
proof (induction sz src b rule: write_loop.induct)
  case (1 sz src b)
  show ?case
  proof (cases "sz = 0")
    case True
    with 1(2) show ?thesis by simp
  next
    case False
    define n where "n = (if sz > curr_blk_remain b then curr_blk_remain b else sz)"
    from curr_blk_remain_pos [OF 1(2)] 1(3) False have n: "0 < n" "n \<le> sz" "n \<le> curr_blk_remain b"
      by (auto simp: n_def)
    define b1 where "b1 = move_forward n (cursor_put (take n src) b)"
    have len: "length (take n src) = n" using n 1(4) by simp
    from n 1(4) have "src \<noteq> []" by auto
    with len n moved_put [OF 1(2), of "take n src"] put_move_spec(5) [OF 1(2), of "take n src"]
    have b1: "moved n b b1" "buf_bytes b1 = put_at (pos b) (take n src) (buf_bytes b)"
      by (simp_all add: b1_def)
    have eq: "write_loop sz src b = write_loop (sz - n) (drop n src) b1"
      using False n 1(4) by (subst write_loop.simps) (simp add: Let_def n_def [symmetric] b1_def)
    have "sz - n \<le> length src - n" using 1(4) by linarith
    moreover have "n \<le> length src" using n(2) 1(4) by linarith
    ultimately obtain b' where b': "write_loop (sz - n) (drop n src) b1 = Some b'" "moved (sz - n) b1 b'"
      "buf_bytes b' = put_at (pos b1) (take (sz - n) (drop n src)) (buf_bytes b1)"
      using 1(1) [OF False n_def] b1(1) 1(3) n by (auto simp: b1_def moved_def)
    have "put_at (pos b + n) (take (sz - n) (drop n src)) (put_at (pos b) (take n src) (buf_bytes b)) =
        put_at (pos b) (take n src @ take (sz - n) (drop n src)) (buf_bytes b)"
      using len 1(2-4) put_at_put_at_append [of "pos b" "take n src" "take (sz - n) (drop n src)" "buf_bytes b"]
      by (simp add: n(2))
    moreover have "take n src @ take (sz - n) (drop n src) = take sz src"
      using n(2) by (metis take_add le_add_diff_inverse)
    ultimately show ?thesis
      using b' b1 eq moved_trans [OF b1(1) b'(2)] n(2) by (auto simp: moved_def)
  qed
qed

lemma fill_loop_write: "fill_loop sz v b = write_loop sz (replicate sz v) b"
proof (induction sz v b rule: fill_loop.induct)
  case (1 sz v b)
  define n where "n = (if sz > curr_blk_remain b then curr_blk_remain b else sz)"
  have "n \<le> sz" by (simp add: n_def)
  with 1 [OF _ n_def] show ?case
    by (subst fill_loop.simps, subst write_loop.simps) (simp add: Let_def n_def [symmetric] min_def)
qed

lemma seek_loop_spec:
  assumes "buf_wf b" and "pos b + sz \<le> total_size b"
  shows "\<exists>b'. seek_loop sz b = Some b' \<and> moved sz b b' \<and> blk_list b' = blk_list b"
  using assms
proof (induction sz b rule: seek_loop.induct)
  case (1 sz b)
  show ?case
  proof (cases "sz = 0")
    case True
    with 1(2) show ?thesis by simp
  next
    case False
    define n where "n = (if sz > curr_blk_remain b then curr_blk_remain b else sz)"
    from curr_blk_remain_pos [OF 1(2)] 1(3) False have n: "0 < n" "n \<le> sz" "n \<le> curr_blk_remain b"
      by (auto simp: n_def)
    note m = moved_move [OF 1(2) n(1,3)]
    have eq: "seek_loop sz b = seek_loop (sz - n) (move_forward n b)"
      using False n by (subst seek_loop.simps) (simp add: Let_def n_def [symmetric])
    from m 1(3) n obtain b' where "seek_loop (sz - n) (move_forward n b) = Some b'" "moved (sz - n) (move_forward n b) b'"
      "blk_list b' = blk_list (move_forward n b)"
      using 1(1) [OF False n_def] by (auto simp: moved_def)
    with eq moved_trans [OF m this(2)] n(2) move_forward_spec(3) [OF 1(2) n(1,3)] show ?thesis by auto
  qed
qed

lemma read_loop_spec:
  assumes "buf_wf b" and "pos b + sz \<le> total_size b"
  shows "\<exists>b'. read_loop sz b = Some (get_at (pos b) sz (buf_bytes b), b') \<and> moved sz b b' \<and> blk_list b' = blk_list b"
  using assms
proof (induction sz b rule: read_loop.induct)
  case (1 sz b)
  show ?case
  proof (cases "sz = 0")
    case True
    with 1(2) show ?thesis by simp
  next
    case False
    define n where "n = (if sz > curr_blk_remain b then curr_blk_remain b else sz)"
    from curr_blk_remain_pos [OF 1(2)] 1(3) False have n: "0 < n" "n \<le> sz" "n \<le> curr_blk_remain b"
      by (auto simp: n_def)
    note m = moved_move [OF 1(2) n(1,3)] and mf = move_forward_spec [OF 1(2) n(1,3)]
    from m 1(3) n obtain b' where b': "read_loop (sz - n) (move_forward n b) =
        Some (get_at (pos b + n) (sz - n) (buf_bytes b), b')" "moved (sz - n) (move_forward n b) b'" "blk_list b' = blk_list b"
      using 1(1) [OF False n_def] mf by (auto simp: moved_def buf_bytes_def)
    have "get_at (pos b) n (buf_bytes b) @ get_at (pos b + n) (sz - n) (buf_bytes b) = get_at (pos b) sz (buf_bytes b)"
      using n(2) get_at_add [of "pos b" n "sz - n" "buf_bytes b"] by simp
    moreover have "read_loop sz b = Some (cursor_get n b @ get_at (pos b + n) (sz - n) (buf_bytes b), b')"
      using False n b'(1) by (subst read_loop.simps) (simp add: Let_def n_def [symmetric])
    ultimately show ?thesis
      using moved_trans [OF m b'(2)] n(2) b'(3) cursor_get_spec [OF 1(2) n(3)] by simp
  qed
qed

text \<open>The checksum over the blocks is the checksum over the bytes, wherever the blocks divide them:
  \<^verbatim>\<open>offset\<close> keeps the parity of the position.\<close>

lemma checksum_bound_ok:
  assumes "buf_wf b" and "0 < n" and "n \<le> curr_blk_remain b"
  shows "checksum_bound n b"
proof -
  from assms obtain as k cs d where c: "cursor_at b as k cs d"
    by (auto simp: buf_wf_def cursor_ok_def curr_blk_remain_def)
  with assms have "blk_wf k" by (simp add: buf_wf_def cursor_at_def)
  with c assms(3) cursor_remain [OF c] show ?thesis
    by (auto simp: checksum_bound_def cursor_at_def blk_wf_def)
qed

lemma curr_blk_remain_le: "buf_wf b \<Longrightarrow> curr_blk_remain b \<le> PKTBUF_BLK_SIZE"
  by (auto simp: buf_wf_def cursor_ok_def cursor_remain cursor_at_def blk_wf_def)
    (auto simp: curr_blk_remain_def)

lemma ucast_checksum16_chunk:
  assumes "unat acc \<le> 65535" and "length bs \<le> PKTBUF_BLK_SIZE"
  shows "ucast (checksum16 offset bs (of_nat (length bs)) acc False) = checksum_loop offset bs acc"
proof -
  have "unat (of_nat (length bs) :: u16) = length bs"
    using assms(2) by (simp add: unat_of_nat take_bit_nat_eq_self PKTBUF_BLK_SIZE_def)
  with assms(1) show ?thesis by (simp add: checksum16_def Let_def ucast_checksum_loop)
qed

lemma checksum16_loop_spec:
  assumes "buf_wf b" and "pos b + sz \<le> total_size b" and "unat acc \<le> 65535"
  shows "\<exists>b'. checksum16_loop sz acc offset b =
      Some (checksum_loop offset (get_at (pos b) sz (buf_bytes b)) acc, b') \<and> moved sz b b' \<and> blk_list b' = blk_list b"
  using assms
proof (induction sz acc offset b rule: checksum16_loop.induct)
  case (1 sz acc offset b)
  show ?case
  proof (cases "sz = 0")
    case True
    with 1(2) show ?thesis by simp
  next
    case False
    define n where "n = (if curr_blk_remain b > sz then sz else curr_blk_remain b)"
    from curr_blk_remain_pos [OF 1(2)] 1(3) False have n: "0 < n" "n \<le> sz" "n \<le> curr_blk_remain b"
      by (auto simp: n_def)
    note m = moved_move [OF 1(2) n(1,3)] and mf = move_forward_spec [OF 1(2) n(1,3)]
    define acc' where "acc' = (ucast (checksum16 offset (cursor_get n b) (of_nat n) acc False) :: u32)"
    let ?g = "get_at (pos b) n (buf_bytes b)"
    have "length ?g = n" using 1(2,3) n(2) by simp
    with ucast_checksum16_chunk [OF 1(4), of ?g offset] n(3) curr_blk_remain_le [OF 1(2)]
    have acc': "acc' = checksum_loop offset ?g acc"
      by (simp add: acc'_def cursor_get_spec [OF 1(2) n(3)])
    have bnd: "\<not> (n = 0 \<or> \<not> checksum_bound n b)" using checksum_bound_ok [OF 1(2) n(1,3)] n(1) by simp
    from checksum_loop_le [OF 1(4)] acc' have "unat acc' \<le> 65535" by simp
    with m 1(3) n obtain b' where b': "checksum16_loop (sz - n) acc' (offset + of_nat n) (move_forward n b) =
        Some (checksum_loop (offset + of_nat n) (get_at (pos b + n) (sz - n) (buf_bytes b)) acc', b')"
        "moved (sz - n) (move_forward n b) b'" "blk_list b' = blk_list b"
      using 1(1) [OF False n_def acc'_def bnd] mf by (auto simp: moved_def buf_bytes_def)
    have "checksum16_loop sz acc offset b = checksum16_loop (sz - n) acc' (offset + of_nat n) (move_forward n b)"
      using False bnd by (subst checksum16_loop.simps) (simp add: Let_def n_def [symmetric] acc'_def)
    moreover have "get_at (pos b) sz (buf_bytes b) = ?g @ get_at (pos b + n) (sz - n) (buf_bytes b)"
      using n(2) get_at_add [of "pos b" n "sz - n" "buf_bytes b"] by simp
    ultimately show ?thesis
      using b' acc' \<open>length ?g = n\<close> moved_trans [OF m b'(2)] n(2) by (simp add: checksum_loop_append)
  qed
qed


section \<open>The cursor operations on a buffer\<close>

lemma op_keeps_moved: "moved n b b' \<Longrightarrow> free_wf free \<Longrightarrow> op_keeps b free b' free"
  by (simp add: op_keeps_def moved_def)

lemma write_buf_post:
  assumes "buf_wf b" and "free_wf free" and "0 < ref b" and "0 < sz \<Longrightarrow> src = None \<or> nat sz \<le> length (the src)"
  shows "buf_post b free (\<lambda>b'. 0 \<le> sz \<and> pos b' = pos b + nat sz \<and>
      (0 < sz \<longrightarrow> buf_bytes b' = put_at (pos b) (take (nat sz) (the src)) (buf_bytes b)))
    (write_buf src sz b free)"
proof (cases "0 < sz \<and> src \<noteq> None \<and> sz \<le> total_blk_remain b")
  case False
  with assms show ?thesis by (auto simp: write_buf_def op_keeps_refl)
next
  case True
  then have "pos b + nat sz \<le> total_size b" unfolding total_blk_remain_def by linarith
  from write_loop_spec [OF assms(1) this, of "the src"] True assms(4)
  obtain b' where b': "write_loop (nat sz) (the src) b = Some b'" "moved (nat sz) b b'"
    "buf_bytes b' = put_at (pos b) (take (nat sz) (the src)) (buf_bytes b)" by auto
  with True assms(3) op_keeps_moved [OF b'(2) assms(2)] show ?thesis
    by (auto simp: write_buf_def moved_def)
qed

lemma fill_buf_post:
  assumes "buf_wf b" and "free_wf free" and "0 < ref b"
  shows "buf_post b free (\<lambda>b'. 0 \<le> sz \<and> pos b' = pos b + nat sz \<and>
      buf_bytes b' = put_at (pos b) (replicate (nat sz) v) (buf_bytes b))
    (fill_buf v sz b free)"
proof (cases "0 < sz \<and> sz \<le> total_blk_remain b")
  case False
  with assms show ?thesis by (auto simp: fill_buf_def op_keeps_refl)
next
  case True
  then have "pos b + nat sz \<le> total_size b" unfolding total_blk_remain_def by linarith
  from write_loop_spec [OF assms(1) this, of "replicate (nat sz) v"]
  obtain b' where b': "fill_loop (nat sz) v b = Some b'" "moved (nat sz) b b'"
    "buf_bytes b' = put_at (pos b) (replicate (nat sz) v) (buf_bytes b)" by (auto simp: fill_loop_write)
  with True assms(3) op_keeps_moved [OF b'(2) assms(2)] show ?thesis
    by (auto simp: fill_buf_def moved_def)
qed

lemma seek_buf_post:
  assumes "buf_wf b" and "free_wf free" and "0 < ref b"
  shows "buf_post b free (\<lambda>b'. 0 \<le> off \<and> pos b' = nat off \<and> blk_list b' = blk_list b) (seek_buf off b free)"
proof (cases "0 \<le> off \<and> pos b \<noteq> nat off \<and> nat off \<le> total_size b")
  case False
  with assms show ?thesis by (auto simp: seek_buf_def op_keeps_refl)
next
  case True
  show ?thesis
  proof (cases "nat off < pos b")
    case bw: True
    with buf_wf_pos [OF assms(1)] have "0 < total_size b" by linarith
    with assms(1) obtain k ks where bl: "blk_list b = k # ks"
      by (cases "blk_list b") (auto simp: buf_wf_def)
    let ?b = "b\<lparr>curr_blk := Some 0, blk_offset := blk_data k, pos := 0\<rparr>"
    have "?b = pktbuf_reset_acc b" using bl by (simp add: pktbuf_reset_acc_def)
    with reset_acc_wf [of b] assms(1) have wf: "buf_wf ?b" by (simp add: buf_wf_def)
    from seek_loop_spec [OF wf, of "nat off"] True obtain b'
      where "seek_loop (nat off) ?b = Some b'" "moved (nat off) ?b b'" "blk_list b' = blk_list b" by auto
    with True bw bl assms(2,3) show ?thesis
      by (auto simp: seek_buf_def moved_def op_keeps_def)
  next
    case False
    with True seek_loop_spec [OF assms(1), of "nat off - pos b"] obtain b'
      where b': "seek_loop (nat off - pos b) b = Some b'" "moved (nat off - pos b) b b'" "blk_list b' = blk_list b" by auto
    with True False assms(3) op_keeps_moved [OF b'(2) assms(2)] show ?thesis
      by (auto simp: seek_buf_def moved_def)
  qed
qed


section \<open>The pool\<close>

text \<open>A buffer that is not on the free list is live. Live buffers are well-formed and referenced; every
  one of the 256 blocks is free or in exactly one live buffer.\<close>

definition live :: "'a pkt_state_scheme \<Rightarrow> nat set" where
  "live s = {i. i < PKTBUF_BUF_CNT \<and> i \<notin> set (pktbuf_list s)}"

definition all_ids :: "'a pkt_state_scheme \<Rightarrow> nat multiset" where
  "all_ids s = ids (block_list s) + (\<Sum>i\<in>live s. ids (blk_list (pktbufs s i)))"

definition pkt_inv :: "'a pkt_state_scheme \<Rightarrow> bool" where
  "pkt_inv s \<longleftrightarrow> distinct (pktbuf_list s) \<and> set (pktbuf_list s) \<subseteq> {..<PKTBUF_BUF_CNT} \<and>
     free_wf (block_list s) \<and> (\<forall>i\<in>live s. buf_wf (pktbufs s i) \<and> 0 < ref (pktbufs s i)) \<and>
     all_ids s = mset [0..<PKTBUF_BLK_CNT]"

lemma finite_live [simp]: "finite (live s)"
  by (simp add: live_def)

lemma all_ids_remove:
  "i \<in> live s \<Longrightarrow> all_ids s = ids (block_list s) + ids (blk_list (pktbufs s i)) +
     (\<Sum>j\<in>live s - {i}. ids (blk_list (pktbufs s j)))"
  by (simp add: all_ids_def sum.remove)

lemma live_update [simp]:
  "live (s\<lparr>pktbufs := f\<rparr>) = live s" "live (s\<lparr>block_list := g\<rparr>) = live s"
  by (simp_all add: live_def)

lemma mset_subset_distinct:
  assumes "mset xs \<subseteq># mset ys" and "distinct ys"
  shows "distinct xs"
proof -
  obtain zs where "mset zs = mset ys - mset xs" using ex_mset by blast
  with assms(1) have "mset (xs @ zs) = mset ys" by simp
  from mset_eq_imp_distinct_iff [OF this] assms(2) show ?thesis by simp
qed

text \<open>No block is in two places.\<close>

lemma pkt_inv_distinct:
  assumes "pkt_inv s"
  shows "distinct (map blk_id (block_list s))"
    and "i \<in> live s \<Longrightarrow> distinct (map blk_id (blk_list (pktbufs s i) @ block_list s))"
    and "i \<in> live s \<Longrightarrow> j \<in> live s \<Longrightarrow> i \<noteq> j \<Longrightarrow>
      distinct (map blk_id (blk_list (pktbufs s i) @ blk_list (pktbufs s j)))"
proof -
  have sub: "distinct (map blk_id ks)" if "ids ks \<subseteq># all_ids s" for ks
    using mset_subset_distinct [of "map blk_id ks" "[0..<PKTBUF_BLK_CNT]"] that assms
    by (simp add: pkt_inv_def ids_def)
  show "distinct (map blk_id (block_list s))"
    by (rule sub) (simp add: all_ids_def)
  show "distinct (map blk_id (blk_list (pktbufs s i) @ block_list s))" if "i \<in> live s"
    by (rule sub) (simp add: all_ids_remove [OF that] add.commute)
  show "distinct (map blk_id (blk_list (pktbufs s i) @ blk_list (pktbufs s j)))"
    if "i \<in> live s" "j \<in> live s" "i \<noteq> j"
  proof (rule sub)
    from that have "(\<Sum>j\<in>live s - {i}. ids (blk_list (pktbufs s j))) =
        ids (blk_list (pktbufs s j)) + (\<Sum>j\<in>live s - {i} - {j}. ids (blk_list (pktbufs s j)))"
      by (intro sum.remove) auto
    then show "ids (blk_list (pktbufs s i) @ blk_list (pktbufs s j)) \<subseteq># all_ids s"
      by (simp add: all_ids_remove [OF that(1)] add.assoc add.left_commute)
  qed
qed


section \<open>The contract of an operation on one buffer\<close>

lemma pkt_inv_update:
  assumes "pkt_inv s" and "i \<in> live s" and "op_keeps (pktbufs s i) (block_list s) b' free'"
  shows "pkt_inv (s\<lparr>pktbufs := (pktbufs s)(i := b'), block_list := free'\<rparr>)"
proof -
  let ?s = "s\<lparr>pktbufs := (pktbufs s)(i := b'), block_list := free'\<rparr>"
  have live: "live ?s = live s" by (simp add: live_def)
  have "(\<Sum>j\<in>live s - {i}. ids (blk_list (pktbufs ?s j))) = (\<Sum>j\<in>live s - {i}. ids (blk_list (pktbufs s j)))"
    by (rule sum.cong) auto
  with assms(2,3) all_ids_remove [of i ?s] all_ids_remove [of i s] live have "all_ids ?s = all_ids s"
    by (simp add: op_keeps_def add.commute)
  with assms live show ?thesis
    by (auto simp: pkt_inv_def op_keeps_def)
qed

locale buf_op =
  fixes f :: buf_fun
  assumes returns: "buf_wf b \<Longrightarrow> free_wf free \<Longrightarrow> 0 < ref b \<Longrightarrow>
    \<exists>e b' free'. f b free = Some (e, b', free') \<and> op_keeps b free b' free'"
begin

lemma on_buf_live:
  assumes "pkt_inv s" and "i \<in> live s"
  obtains e b' free' where "f (pktbufs s i) (block_list s) = Some (e, b', free')"
    and "on_buf (Some i) f s = Some (e, s\<lparr>pktbufs := (pktbufs s)(i := b'), block_list := free'\<rparr>)"
    and "pkt_inv (s\<lparr>pktbufs := (pktbufs s)(i := b'), block_list := free'\<rparr>)"
proof -
  from assms have "buf_wf (pktbufs s i)" "free_wf (block_list s)" "0 < ref (pktbufs s i)"
    by (simp_all add: pkt_inv_def)
  from returns [OF this] obtain e b' free' where
    "f (pktbufs s i) (block_list s) = Some (e, b', free')" "op_keeps (pktbufs s i) (block_list s) b' free'"
    by blast
  with that pkt_inv_update [OF assms] show thesis by (simp add: on_buf_def)
qed

text \<open>The operation returns, keeps the invariant of the pool, the set of live buffers and all other
  buffers.\<close>

theorem on_buf_keeps:
  assumes "pkt_inv s" and "i \<in> live s"
  obtains e s' where "on_buf (Some i) f s = Some (e, s')" and "pkt_inv s'" and "live s' = live s"
    and "\<And>j. j \<noteq> i \<Longrightarrow> pktbufs s' j = pktbufs s j" and "ref (pktbufs s' i) = ref (pktbufs s i)"
proof -
  from assms have "buf_wf (pktbufs s i)" "free_wf (block_list s)" "0 < ref (pktbufs s i)"
    by (simp_all add: pkt_inv_def)
  from returns [OF this] obtain e b' free' where
    "f (pktbufs s i) (block_list s) = Some (e, b', free')" "op_keeps (pktbufs s i) (block_list s) b' free'"
    by blast
  with that [of e "s\<lparr>pktbufs := (pktbufs s)(i := b'), block_list := free'\<rparr>"] pkt_inv_update [OF assms]
  show thesis by (auto simp: on_buf_def live_def op_keeps_def)
qed

end

lemma buf_post_returns: "buf_post b free P r \<Longrightarrow> \<exists>e b' free'. r = Some (e, b', free') \<and> op_keeps b free b' free'"
  by (cases "(b, free, P, r)" rule: buf_post.cases) auto

lemma hdr_post_returns: "hdr_post b free n r \<Longrightarrow> \<exists>e b' free'. r = Some (e, b', free') \<and> op_keeps b free b' free'"
  by (cases "(b, free, n, r)" rule: hdr_post.cases) auto

interpretation add_hdr: buf_op "add_header sz cont" for sz cont
  by unfold_locales (rule hdr_post_returns [OF add_header_post])

interpretation rm_hdr: buf_op "remove_header sz" for sz
  by unfold_locales (rule buf_post_returns [OF remove_header_post])

interpretation resize: buf_op "pktbuf_resize_core n" for n
  by unfold_locales (rule buf_post_returns [OF resize_post])

interpretation cont: buf_op "set_cont sz" for sz
  by unfold_locales (rule buf_post_returns [OF set_cont_post])

interpretation seek: buf_op "seek_buf off" for off
  by unfold_locales (rule buf_post_returns [OF seek_buf_post])

interpretation fill: buf_op "fill_buf v sz" for v sz
  by unfold_locales (rule buf_post_returns [OF fill_buf_post])

text \<open>The bytes written must be there to be read.\<close>

lemma write_buf_op: "src = None \<or> nat sz \<le> length (the src) \<Longrightarrow> buf_op (write_buf src sz)"
  by unfold_locales (rule buf_post_returns [OF write_buf_post], auto)

text \<open>The effect on the state of an operation with postcondition \<open>P\<close> on the buffer.\<close>

lemma on_buf_post:
  assumes "pkt_inv s" and "i \<in> live s"
    and "buf_post (pktbufs s i) (block_list s) P (f (pktbufs s i) (block_list s))"
  obtains e s' where "on_buf (Some i) f s = Some (e, s')" and "pkt_inv s'" and "live s' = live s"
    and "\<And>j. j \<noteq> i \<Longrightarrow> pktbufs s' j = pktbufs s j" and "ref (pktbufs s' i) = ref (pktbufs s i)"
    and "if e = NET_ERR_OK then P (pktbufs s' i) else pktbufs s' i = pktbufs s i"
proof -
  from buf_post_returns [OF assms(3)] obtain e b' free' where r:
    "f (pktbufs s i) (block_list s) = Some (e, b', free')" "op_keeps (pktbufs s i) (block_list s) b' free'" by blast
  with assms(3) have "if e = NET_ERR_OK then P b' else b' = pktbufs s i" by simp
  with that [of e "s\<lparr>pktbufs := (pktbufs s)(i := b'), block_list := free'\<rparr>"] r pkt_inv_update [OF assms(1,2) r(2)]
  show thesis by (auto simp: on_buf_def live_def op_keeps_def)
qed


section \<open>Allocation, release, joining\<close>

lemma all_ids_cong:
  assumes "live s' = live s" and "\<And>j. j \<in> live s \<Longrightarrow> blk_list (pktbufs s' j) = blk_list (pktbufs s j)"
    and "ids (block_list s') = ids (block_list s)"
  shows "all_ids s' = all_ids s"
proof -
  have "(\<Sum>j\<in>live s. ids (blk_list (pktbufs s' j))) = (\<Sum>j\<in>live s. ids (blk_list (pktbufs s j)))"
    by (rule sum.cong) (simp_all add: assms(2))
  with assms(1,3) show ?thesis by (simp add: all_ids_def)
qed

text \<open>A buffer becomes live.\<close>

lemma pkt_inv_take:
  assumes "pkt_inv s" and "pktbuf_list s = i # rest" and "buf_wf b" and "0 < ref b" and "free_wf free'"
    and "ids (blk_list b) + ids free' = ids (block_list s)"
  defines "s' \<equiv> s\<lparr>pktbuf_list := rest, block_list := free', pktbufs := (pktbufs s)(i := b)\<rparr>"
  shows "pkt_inv s'" and "live s' = insert i (live s)" and "i \<notin> live s"
proof -
  from assms(1,2) have d: "distinct (i # rest)" "set (i # rest) \<subseteq> {..<PKTBUF_BUF_CNT}"
    by (auto simp: pkt_inv_def)
  show ni: "i \<notin> live s" using assms(2) by (simp add: live_def)
  show live: "live s' = insert i (live s)" using d assms(2) by (auto simp: live_def s'_def)
  have "(\<Sum>j\<in>live s. ids (blk_list (pktbufs s' j))) = (\<Sum>j\<in>live s. ids (blk_list (pktbufs s j)))"
    using ni by (intro sum.cong) (auto simp: s'_def)
  then have "all_ids s' = all_ids s"
    using live ni assms(6) by (simp add: all_ids_def) (simp add: s'_def ac_simps)
  with assms(1,3-5) d live ni show "pkt_inv s'"
    by (auto simp: pkt_inv_def) (auto simp: s'_def)
qed

text \<open>A buffer goes to the end of the free list.\<close>

lemma pkt_inv_give:
  fixes b :: pktbuf
  assumes "pkt_inv s" and "i \<in> live s" and "free_wf free'"
    and "ids free' = ids (blk_list (pktbufs s i)) + ids (block_list s)"
  defines "s' \<equiv> s\<lparr>pktbufs := (pktbufs s)(i := b), block_list := free', pktbuf_list := pktbuf_list s @ [i]\<rparr>"
  shows "pkt_inv s'" and "live s' = live s - {i}"
proof -
  show live: "live s' = live s - {i}" by (auto simp: live_def s'_def)
  have "(\<Sum>j\<in>live s - {i}. ids (blk_list (pktbufs s' j))) = (\<Sum>j\<in>live s - {i}. ids (blk_list (pktbufs s j)))"
    by (intro sum.cong) (auto simp: s'_def)
  then have "all_ids s' = all_ids s"
    using all_ids_remove [OF assms(2)] assms(4) by (simp add: all_ids_def live) (simp add: s'_def ac_simps)
  with assms(1-3) live show "pkt_inv s'"
    by (auto simp: pkt_inv_def) (auto simp: s'_def live_def)
qed

text \<open>\<^verbatim>\<open>pktbuf_alloc\<close> fails only when the size is negative, or there is no free buffer, or not enough free
  blocks; then nothing has been taken.\<close>

definition alloc_fails :: "int \<Rightarrow> 'a pkt_state_scheme \<Rightarrow> bool" where
  "alloc_fails sz s \<longleftrightarrow> sz < 0 \<or> pktbuf_list s = [] \<or> length (block_list s) < blks_for (nat sz)"

lemma pktbuf_alloc_ok:
  assumes "pkt_inv s" and "\<not> alloc_fails sz s"
  obtains i b free' where "pktbuf_alloc sz s = (Some i, s\<lparr>pktbuf_list := tl (pktbuf_list s),
      block_list := free', pktbufs := (pktbufs s)(i := b)\<rparr>)"
    and "i = hd (pktbuf_list s)" and "buf_wf b" and "ref b = 1" and "total_size b = nat sz" and "pos b = 0"
    and "free_wf free'" and "ids (blk_list b) + ids free' = ids (block_list s)"
    and "free' = drop (blks_for (nat sz)) (block_list s)"
proof -
  from assms(2) obtain i rest where pl: "pktbuf_list s = i # rest" and sz: "0 \<le> sz"
    by (cases "pktbuf_list s") (auto simp: alloc_fails_def)
  from assms(1) have fw: "free_wf (block_list s)" by (simp add: pkt_inv_def)
  show thesis
  proof (cases "sz = 0")
    case True
    let ?b = "pktbuf_reset_acc ((pktbufs s i)\<lparr>total_size := 0, blk_list := [], ref := 1\<rparr>)"
    have "pktbuf_alloc sz s = (Some i, s\<lparr>pktbuf_list := tl (pktbuf_list s),
        block_list := block_list s, pktbufs := (pktbufs s)(i := ?b)\<rparr>)"
      using pl True by (simp add: pktbuf_alloc_def Let_def)
    then show thesis
      by (rule that) (use pl fw True in \<open>simp_all add: reset_acc_wf\<close>)
  next
    case False
    with sz have "0 < sz" by simp
    obtain r free' where al: "pktblock_alloc_list sz False (block_list s) = (r, free')" by (metis surj_pair)
    note spec = pktblock_alloc_list_spec [OF fw \<open>0 < sz\<close> al]
    from spec(2) assms(2) obtain ks where r: "r = Some ks" by (auto simp: alloc_fails_def)
    let ?b = "pktbuf_reset_acc ((pktbufs s i)\<lparr>blk_list := ks, total_size := chain_size ks, ref := 1\<rparr>)"
    have "pktbuf_alloc sz s = (Some i, s\<lparr>pktbuf_list := rest, block_list := free', pktbufs := (pktbufs s)(i := ?b)\<rparr>)"
      using pl sz False al r by (simp add: pktbuf_alloc_def Let_def pktbuf_insert_blk_list_def)
    then have "pktbuf_alloc sz s = (Some i, s\<lparr>pktbuf_list := tl (pktbuf_list s),
        block_list := free', pktbufs := (pktbufs s)(i := ?b)\<rparr>)"
      using pl by simp
    then show thesis
      by (rule that) (use pl spec r in \<open>simp_all add: reset_acc_wf\<close>)
  qed
qed

lemma pktbuf_alloc_fail:
  assumes "pkt_inv s" and "alloc_fails sz s" and "pktbuf_alloc sz s = (r, s')"
  shows "r = None" and "pkt_inv s'" and "live s' = live s" and "\<And>j. j \<in> live s \<Longrightarrow> pktbufs s' j = pktbufs s j"
proof -
  have "r = None \<and> pkt_inv s' \<and> live s' = live s \<and> (\<forall>j\<in>live s. pktbufs s' j = pktbufs s j)"
  proof (cases "sz < 0 \<or> pktbuf_list s = []")
    case True
    with assms show ?thesis by (auto simp: pktbuf_alloc_def split: if_splits)
  next
    case False
    then obtain i rest where pl: "pktbuf_list s = i # rest" and "\<not> sz < 0" by (cases "pktbuf_list s") auto
    with assms(2) have sz: "0 < sz" by (cases "sz = 0") (auto simp: alloc_fails_def)
    from assms(1) have fw: "free_wf (block_list s)" by (simp add: pkt_inv_def)
    obtain q free' where al: "pktblock_alloc_list sz False (block_list s) = (q, free')" by (metis surj_pair)
    note spec = pktblock_alloc_list_spec [OF fw sz al]
    from spec(2) assms(2) False have q: "q = None" by (auto simp: alloc_fails_def)
    let ?b = "(pktbufs s i)\<lparr>ref := 1, total_size := 0, blk_list := []\<rparr>"
    have eq: "r = None" "s' = s\<lparr>pktbufs := (pktbufs s)(i := ?b), block_list := free', pktbuf_list := rest @ [i]\<rparr>"
      using assms(3) pl sz al q by (simp_all add: pktbuf_alloc_def Let_def)
    have live: "live s' = live s" using pl by (auto simp: live_def eq)
    have same: "\<forall>j\<in>live s. pktbufs s' j = pktbufs s j" using pl by (auto simp: live_def eq)
    have "all_ids s' = all_ids s" using live same spec(3) q by (intro all_ids_cong) (simp_all add: eq)
    with assms(1) live same spec(1) pl have "pkt_inv s'" by (auto simp: pkt_inv_def) (auto simp: eq)
    with eq live same show ?thesis by blast
  qed
  then show "r = None" "pkt_inv s'" "live s' = live s" "\<And>j. j \<in> live s \<Longrightarrow> pktbufs s' j = pktbufs s j" by blast+
qed

text \<open>\<^verbatim>\<open>pktbuf_free\<close> gives a reference back; with the last one the buffer and its blocks are free.\<close>

lemma pktbuf_free_spec:
  assumes "pkt_inv s" and "i \<in> live s"
  shows "pkt_inv (pktbuf_free (Some i) s)"
    and "live (pktbuf_free (Some i) s) = (if ref (pktbufs s i) = 1 then live s - {i} else live s)"
    and "\<And>j. j \<noteq> i \<Longrightarrow> pktbufs (pktbuf_free (Some i) s) j = pktbufs s j"
    and "ref (pktbufs s i) = 1 \<Longrightarrow> ids (block_list (pktbuf_free (Some i) s)) = ids (blk_list (pktbufs s i)) + ids (block_list s)"
proof -
  from assms have wf: "buf_wf (pktbufs s i)" "0 < ref (pktbufs s i)" "free_wf (block_list s)"
    by (simp_all add: pkt_inv_def)
  show "\<And>j. j \<noteq> i \<Longrightarrow> pktbufs (pktbuf_free (Some i) s) j = pktbufs s j"
    by (simp add: pktbuf_free_def Let_def)
  let ?b = "(pktbufs s i)\<lparr>ref := ref (pktbufs s i) - 1\<rparr>"
  show "pkt_inv (pktbuf_free (Some i) s)"
    "live (pktbuf_free (Some i) s) = (if ref (pktbufs s i) = 1 then live s - {i} else live s)"
    "ref (pktbufs s i) = 1 \<Longrightarrow> ids (block_list (pktbuf_free (Some i) s)) = ids (blk_list (pktbufs s i)) + ids (block_list s)"
  proof (atomize (full), cases "ref (pktbufs s i) = 1")
    case True
    have eq: "pktbuf_free (Some i) s = s\<lparr>pktbufs := (pktbufs s)(i := ?b),
        block_list := block_list s @ blk_list (pktbufs s i), pktbuf_list := pktbuf_list s @ [i]\<rparr>"
      using True by (simp add: pktbuf_free_def Let_def)
    from wf have "free_wf (block_list s @ blk_list (pktbufs s i))"
      by (simp add: buf_wf_def chain_wf_free_wf)
    from pkt_inv_give [OF assms this, of ?b] True
    show "pkt_inv (pktbuf_free (Some i) s) \<and>
      live (pktbuf_free (Some i) s) = (if ref (pktbufs s i) = 1 then live s - {i} else live s) \<and>
      (ref (pktbufs s i) = 1 \<longrightarrow> ids (block_list (pktbuf_free (Some i) s)) = ids (blk_list (pktbufs s i)) + ids (block_list s))"
      unfolding eq by (simp add: add.commute)
  next
    case False
    have eq: "pktbuf_free (Some i) s = s\<lparr>pktbufs := (pktbufs s)(i := ?b)\<rparr>"
      using False wf(2) by (simp add: pktbuf_free_def Let_def)
    have "all_ids (s\<lparr>pktbufs := (pktbufs s)(i := ?b)\<rparr>) = all_ids s" by (rule all_ids_cong) auto
    moreover have "buf_wf ?b" using wf(1) by (auto simp: buf_wf_def cursor_ok_def cursor_at_def)
    ultimately have "pkt_inv (s\<lparr>pktbufs := (pktbufs s)(i := ?b)\<rparr>)"
      using assms wf(2) False by (auto simp: pkt_inv_def)
    with False show "pkt_inv (pktbuf_free (Some i) s) \<and>
      live (pktbuf_free (Some i) s) = (if ref (pktbufs s i) = 1 then live s - {i} else live s) \<and>
      (ref (pktbufs s i) = 1 \<longrightarrow> ids (block_list (pktbuf_free (Some i) s)) = ids (blk_list (pktbufs s i)) + ids (block_list s))"
      unfolding eq by simp
  qed
qed

lemma pktbuf_inc_ref_spec:
  assumes "pkt_inv s" and "i \<in> live s"
  shows "pkt_inv (pktbuf_inc_ref (Some i) s)" and "live (pktbuf_inc_ref (Some i) s) = live s"
    and "ref (pktbufs (pktbuf_inc_ref (Some i) s) i) = Suc (ref (pktbufs s i))"
proof -
  from assms have wf: "buf_wf (pktbufs s i)" "0 < ref (pktbufs s i)" by (simp_all add: pkt_inv_def)
  let ?b = "(pktbufs s i)\<lparr>ref := ref (pktbufs s i) + 1\<rparr>"
  have eq: "pktbuf_inc_ref (Some i) s = s\<lparr>pktbufs := (pktbufs s)(i := ?b)\<rparr>"
    using wf(2) by (simp add: pktbuf_inc_ref_def)
  show "live (pktbuf_inc_ref (Some i) s) = live s" "ref (pktbufs (pktbuf_inc_ref (Some i) s) i) = Suc (ref (pktbufs s i))"
    by (simp_all add: eq)
  have "all_ids (s\<lparr>pktbufs := (pktbufs s)(i := ?b)\<rparr>) = all_ids s" by (rule all_ids_cong) auto
  moreover have "buf_wf ?b" using wf(1) by (auto simp: buf_wf_def cursor_ok_def cursor_at_def)
  ultimately show "pkt_inv (pktbuf_inc_ref (Some i) s)"
    unfolding eq using assms by (auto simp: pkt_inv_def)
qed

text \<open>Joining two buffers of which the second has no other owner.\<close>

lemma pktbuf_join_spec:
  assumes "pkt_inv s" and "d \<in> live s" and "i \<in> live s" and "d \<noteq> i" and "ref (pktbufs s i) = 1"
  obtains s' where "pktbuf_join (Some d) (Some i) s = Some (NET_ERR_OK, s')" and "pkt_inv s'"
    and "live s' = live s - {i}" and "buf_bytes (pktbufs s' d) = buf_bytes (pktbufs s d) @ buf_bytes (pktbufs s i)"
    and "\<And>j. j \<in> live s' \<Longrightarrow> j \<noteq> d \<Longrightarrow> pktbufs s' j = pktbufs s j"
proof -
  let ?bd = "pktbufs s d" and ?bi = "pktbufs s i"
  from assms have wf: "buf_wf ?bd" "0 < ref ?bd" "buf_wf ?bi" by (simp_all add: pkt_inv_def)
  let ?b = "pktbuf_reset_acc (pktbuf_insert_blk_list ?bd (blk_list ?bi) True)"
  define f where "f = (pktbufs s)(d := ?b, i := ?bi\<lparr>blk_list := [], ref := 0\<rparr>)"
  define s' where "s' = s\<lparr>pktbufs := f, pktbuf_list := pktbuf_list s @ [i]\<rparr>"
  have fd: "f d = ?b" and fo: "j \<noteq> i \<Longrightarrow> j \<noteq> d \<Longrightarrow> f j = pktbufs s j" for j
    using assms(4) by (simp_all add: f_def)
  have s': "pktbufs s' = f" "block_list s' = block_list s" "pktbuf_list s' = pktbuf_list s @ [i]"
    by (simp_all add: s'_def)
  have eq: "pktbuf_join (Some d) (Some i) s = Some (NET_ERR_OK, s')"
    using assms(4,5) wf(2) by (simp add: pktbuf_join_def pktbuf_free_def Let_def fun_upd_twist s'_def f_def)
  have live: "live s' = live s - {i}" by (auto simp: live_def s')
  have "buf_wf ?b"
    using wf by (intro reset_acc_wf) (simp_all add: pktbuf_insert_blk_list_def buf_wf_def)
  then have b: "buf_wf ?b" "ref ?b = ref ?bd" "ids (blk_list ?b) = ids (blk_list ?bd) + ids (blk_list ?bi)"
    "buf_bytes ?b = buf_bytes ?bd @ buf_bytes ?bi"
    by (simp_all add: pktbuf_insert_blk_list_def buf_bytes_def)
  have r: "(\<Sum>j\<in>live s - {i}. ids (blk_list (g j))) =
      ids (blk_list (g d)) + (\<Sum>j\<in>live s - {i} - {d}. ids (blk_list (g j)))" for g :: "nat \<Rightarrow> pktbuf"
    using assms(2,4) by (intro sum.remove) auto
  have "(\<Sum>j\<in>live s - {i} - {d}. ids (blk_list (f j))) = (\<Sum>j\<in>live s - {i} - {d}. ids (blk_list (pktbufs s j)))"
    by (intro sum.cong) (auto simp: fo)
  with r [of f] r [of "pktbufs s"] b(3) have "all_ids s' = all_ids s"
    unfolding all_ids_remove [OF assms(3)] by (simp add: all_ids_def live s' fd ac_simps)
  moreover have "buf_wf (f j) \<and> 0 < ref (f j)" if "j \<in> live s - {i}" for j
    using that assms(1) wf(2) b(1,2) fd fo [of j] by (cases "j = d") (auto simp: pkt_inv_def)
  ultimately have "pkt_inv s'"
    using assms(1,3) live by (auto simp: pkt_inv_def s') (auto simp: live_def)
  with eq live fd fo b(4) show thesis
    by (intro that [of s']) (auto simp: s')
qed

lemma copy_loop_spec:
  assumes "d \<noteq> i" and "buf_wf (bufs d)" and "buf_wf (bufs i)"
    and "pos (bufs d) + sz \<le> total_size (bufs d)" and "pos (bufs i) + sz \<le> total_size (bufs i)"
  shows "\<exists>bufs'. copy_loop sz d i bufs = Some bufs' \<and> moved sz (bufs d) (bufs' d) \<and> moved sz (bufs i) (bufs' i) \<and>
    blk_list (bufs' i) = blk_list (bufs i) \<and> (\<forall>j. j \<noteq> d \<longrightarrow> j \<noteq> i \<longrightarrow> bufs' j = bufs j) \<and>
    buf_bytes (bufs' d) = put_at (pos (bufs d)) (get_at (pos (bufs i)) sz (buf_bytes (bufs i))) (buf_bytes (bufs d))"
  using assms
proof (induction sz arbitrary: bufs rule: less_induct)
  case (less sz)
  show ?case
  proof (cases "sz = 0")
    case True
    with less.prems show ?thesis by simp
  next
    case False
    let ?d = "bufs d" and ?i = "bufs i"
    define n where "n = min sz (min (curr_blk_remain ?d) (curr_blk_remain ?i))"
    from curr_blk_remain_pos [of ?d] curr_blk_remain_pos [of ?i] less.prems False
    have n: "0 < n" "n \<le> sz" "n \<le> curr_blk_remain ?d" "n \<le> curr_blk_remain ?i" by (auto simp: n_def)
    let ?g = "get_at (pos ?i) n (buf_bytes ?i)"
    have g: "cursor_get n ?i = ?g" using cursor_get_spec less.prems(3) n(4) by blast
    have len: "length ?g = n" using less.prems(3,5) n(2) by simp
    define b1 where "b1 = move_forward n (cursor_put ?g ?d)"
    define b2 where "b2 = move_forward n ?i"
    have b1: "moved n ?d b1" "buf_bytes b1 = put_at (pos ?d) ?g (buf_bytes ?d)"
      using moved_put [OF less.prems(2), of ?g] put_move_spec(5) [OF less.prems(2), of ?g] len n by (simp_all add: b1_def)
    have b2: "moved n ?i b2" "blk_list b2 = blk_list ?i"
      using moved_move [OF less.prems(3) n(1,4)] move_forward_spec(3) [OF less.prems(3) n(1,4)] by (simp_all add: b2_def)
    define bufs1 where "bufs1 = bufs(d := b1, i := b2)"
    have bufs1: "bufs1 d = b1" "bufs1 i = b2" "\<And>j. j \<noteq> d \<Longrightarrow> j \<noteq> i \<Longrightarrow> bufs1 j = bufs j"
      using less.prems(1) by (simp_all add: bufs1_def)
    have nn: "(if (if curr_blk_remain ?d > curr_blk_remain ?i then curr_blk_remain ?i else curr_blk_remain ?d) > sz
        then sz else (if curr_blk_remain ?d > curr_blk_remain ?i then curr_blk_remain ?i else curr_blk_remain ?d)) = n"
      by (auto simp: n_def)
    have eq: "copy_loop sz d i bufs = copy_loop (sz - n) d i bufs1"
      using False n less.prems(1) g
      by (subst copy_loop.simps) (simp add: Let_def nn b1_def b2_def bufs1_def)
    have "sz - n < sz" using n False by simp
    have p: "buf_wf (bufs1 d)" "buf_wf (bufs1 i)" "pos (bufs1 d) + (sz - n) \<le> total_size (bufs1 d)"
      "pos (bufs1 i) + (sz - n) \<le> total_size (bufs1 i)"
      using b1(1) b2(1) less.prems n(2) bufs1(1,2) by (simp_all add: moved_def)
    from less.IH [OF \<open>sz - n < sz\<close> less.prems(1) p] obtain bufs'
      where c: "copy_loop (sz - n) d i bufs1 = Some bufs'" "moved (sz - n) b1 (bufs' d)" "moved (sz - n) b2 (bufs' i)"
        "blk_list (bufs' i) = blk_list b2" "\<forall>j. j \<noteq> d \<longrightarrow> j \<noteq> i \<longrightarrow> bufs' j = bufs1 j"
        "buf_bytes (bufs' d) = put_at (pos b1) (get_at (pos b2) (sz - n) (buf_bytes b2)) (buf_bytes b1)"
      unfolding bufs1(1,2) by blast
    have "buf_bytes b2 = buf_bytes ?i" "pos b1 = pos ?d + n" "pos b2 = pos ?i + n"
      using b1(1) b2 by (simp_all add: moved_def buf_bytes_def)
    moreover have "put_at (pos ?d + n) (get_at (pos ?i + n) (sz - n) (buf_bytes ?i)) (put_at (pos ?d) ?g (buf_bytes ?d)) =
        put_at (pos ?d) (?g @ get_at (pos ?i + n) (sz - n) (buf_bytes ?i)) (buf_bytes ?d)"
      using put_at_put_at_append [of "pos ?d" ?g "get_at (pos ?i + n) (sz - n) (buf_bytes ?i)" "buf_bytes ?d"]
        len less.prems n(2) by simp
    moreover have "?g @ get_at (pos ?i + n) (sz - n) (buf_bytes ?i) = get_at (pos ?i) sz (buf_bytes ?i)"
      using n(2) get_at_add [of "pos ?i" n "sz - n" "buf_bytes ?i"] by simp
    ultimately show ?thesis
      using eq c b1(2) b2(2) bufs1(3) moved_trans [OF b1(1) c(2)] moved_trans [OF b2(1) c(3)] n(2) by simp
  qed
qed


section \<open>Reading, checksums and copying on the state\<close>

lemma pkt_inv_moved:
  assumes "pkt_inv s" and "i \<in> live s" and "moved n (pktbufs s i) b"
  shows "pkt_inv (s\<lparr>pktbufs := (pktbufs s)(i := b)\<rparr>)"
proof -
  have "op_keeps (pktbufs s i) (block_list s) b (block_list s)"
    using assms by (intro op_keeps_moved [OF assms(3)]) (simp add: pkt_inv_def)
  from pkt_inv_update [OF assms(1,2) this] show ?thesis by simp
qed

lemma live_bufD:
  assumes "pkt_inv s" and "i \<in> live s"
  shows "buf_wf (pktbufs s i)" and "0 < ref (pktbufs s i)"
  using assms by (simp_all add: pkt_inv_def)

lemma pktbuf_read_spec:
  assumes "pkt_inv s" and "i \<in> live s" and "0 < sz" and "sz \<le> total_blk_remain (pktbufs s i)"
  obtains b where "pktbuf_read (Some i) False sz s =
      Some (NET_ERR_OK, get_at (pos (pktbufs s i)) (nat sz) (buf_bytes (pktbufs s i)), s\<lparr>pktbufs := (pktbufs s)(i := b)\<rparr>)"
    and "moved (nat sz) (pktbufs s i) b" and "blk_list b = blk_list (pktbufs s i)"
    and "pkt_inv (s\<lparr>pktbufs := (pktbufs s)(i := b)\<rparr>)"
proof -
  note b = live_bufD [OF assms(1,2)]
  from assms(3,4) have "pos (pktbufs s i) + nat sz \<le> total_size (pktbufs s i)"
    unfolding total_blk_remain_def by linarith
  from read_loop_spec [OF b(1) this] obtain b' where
    r: "read_loop (nat sz) (pktbufs s i) = Some (get_at (pos (pktbufs s i)) (nat sz) (buf_bytes (pktbufs s i)), b')"
    "moved (nat sz) (pktbufs s i) b'" "blk_list b' = blk_list (pktbufs s i)" by blast
  have "pktbuf_read (Some i) False sz s =
      Some (NET_ERR_OK, get_at (pos (pktbufs s i)) (nat sz) (buf_bytes (pktbufs s i)), s\<lparr>pktbufs := (pktbufs s)(i := b')\<rparr>)"
    using r(1) b(2) assms(3,4) by (simp add: pktbuf_read_def)
  from that [OF this r(2,3) pkt_inv_moved [OF assms(1,2) r(2)]] show thesis .
qed

lemma pktbuf_checksum16_spec:
  assumes "pkt_inv s" and "i \<in> live s" and "0 \<le> sz" and "sz \<le> total_blk_remain (pktbufs s i)" and "unat pre \<le> 65535"
  obtains b where "pktbuf_checksum16 (Some i) sz pre complement s =
      Some (let acc = checksum_loop 0 (get_at (pos (pktbufs s i)) (nat sz) (buf_bytes (pktbufs s i))) pre
            in if complement then ucast (NOT acc) else ucast acc, s\<lparr>pktbufs := (pktbufs s)(i := b)\<rparr>)"
    and "moved (nat sz) (pktbufs s i) b" and "blk_list b = blk_list (pktbufs s i)"
    and "pkt_inv (s\<lparr>pktbufs := (pktbufs s)(i := b)\<rparr>)"
proof -
  note b = live_bufD [OF assms(1,2)]
  from assms(3,4) have "pos (pktbufs s i) + nat sz \<le> total_size (pktbufs s i)"
    unfolding total_blk_remain_def by linarith
  from checksum16_loop_spec [OF b(1) this assms(5), of 0] obtain b' where
    r: "checksum16_loop (nat sz) pre 0 (pktbufs s i) =
      Some (checksum_loop 0 (get_at (pos (pktbufs s i)) (nat sz) (buf_bytes (pktbufs s i))) pre, b')"
    "moved (nat sz) (pktbufs s i) b'" "blk_list b' = blk_list (pktbufs s i)" by blast
  have "pktbuf_checksum16 (Some i) sz pre complement s =
      Some (let acc = checksum_loop 0 (get_at (pos (pktbufs s i)) (nat sz) (buf_bytes (pktbufs s i))) pre
            in if complement then ucast (NOT acc) else ucast acc, s\<lparr>pktbufs := (pktbufs s)(i := b')\<rparr>)"
    using r(1) b(2) assms(3,4) by (simp add: pktbuf_checksum16_def Let_def)
  from that [OF this r(2,3) pkt_inv_moved [OF assms(1,2) r(2)]] show thesis .
qed

lemma pktbuf_copy_spec:
  assumes "pkt_inv s" and "d \<in> live s" and "i \<in> live s" and "d \<noteq> i" and "0 < sz"
    and "sz \<le> total_blk_remain (pktbufs s d)" and "sz \<le> total_blk_remain (pktbufs s i)"
  obtains s' where "pktbuf_copy (Some d) (Some i) sz s = Some (NET_ERR_OK, s')" and "pkt_inv s'" and "live s' = live s"
    and "buf_bytes (pktbufs s' d) = put_at (pos (pktbufs s d))
      (get_at (pos (pktbufs s i)) (nat sz) (buf_bytes (pktbufs s i))) (buf_bytes (pktbufs s d))"
    and "blk_list (pktbufs s' i) = blk_list (pktbufs s i)"
    and "\<And>j. j \<noteq> d \<Longrightarrow> j \<noteq> i \<Longrightarrow> pktbufs s' j = pktbufs s j"
proof -
  note d = live_bufD [OF assms(1,2)] and i = live_bufD [OF assms(1,3)]
  from assms(5-7) have "pos (pktbufs s d) + nat sz \<le> total_size (pktbufs s d)"
    "pos (pktbufs s i) + nat sz \<le> total_size (pktbufs s i)"
    unfolding total_blk_remain_def by linarith+
  from copy_loop_spec [where bufs = "pktbufs s", OF assms(4) d(1) i(1) this] obtain bufs' where c: "copy_loop (nat sz) d i (pktbufs s) = Some bufs'"
    "moved (nat sz) (pktbufs s d) (bufs' d)" "moved (nat sz) (pktbufs s i) (bufs' i)"
    "blk_list (bufs' i) = blk_list (pktbufs s i)" "\<forall>j. j \<noteq> d \<longrightarrow> j \<noteq> i \<longrightarrow> bufs' j = pktbufs s j"
    "buf_bytes (bufs' d) = put_at (pos (pktbufs s d))
      (get_at (pos (pktbufs s i)) (nat sz) (buf_bytes (pktbufs s i))) (buf_bytes (pktbufs s d))" by blast
  have b: "bufs' = (pktbufs s)(d := bufs' d, i := bufs' i)" using c(5) by auto
  let ?s1 = "s\<lparr>pktbufs := (pktbufs s)(d := bufs' d)\<rparr>"
  have "pkt_inv ?s1" by (rule pkt_inv_moved [OF assms(1,2) c(2)])
  moreover have "i \<in> live ?s1" "pktbufs ?s1 i = pktbufs s i" using assms(3,4) by simp_all
  ultimately have "pkt_inv (?s1\<lparr>pktbufs := (pktbufs ?s1)(i := bufs' i)\<rparr>)"
    using c(3) pkt_inv_moved [of ?s1 i "nat sz" "bufs' i"] by simp
  then have "pkt_inv (s\<lparr>pktbufs := bufs'\<rparr>)" by (subst b) simp
  moreover have "pktbuf_copy (Some d) (Some i) sz s = Some (NET_ERR_OK, s\<lparr>pktbufs := bufs'\<rparr>)"
    using c(1) d(2) i(2) assms(5-7) by (simp add: pktbuf_copy_def)
  ultimately show thesis using that [of "s\<lparr>pktbufs := bufs'\<rparr>"] c(4-6) by simp
qed

text \<open>The state after initialisation: every buffer and every block is free.\<close>

lemma pktbuf_init_inv:
  assumes "\<And>i. i < PKTBUF_BLK_CNT \<Longrightarrow> length (areas i) = PKTBUF_BLK_SIZE"
  shows "pkt_inv (snd (pktbuf_init areas s))"
proof -
  have "live (snd (pktbuf_init areas s)) = {}" by (auto simp: live_def pktbuf_init_def)
  with assms show ?thesis
    by (auto simp: pkt_inv_def pktbuf_init_def all_ids_def ids_def free_wf_def comp_def)
qed


section \<open>Headers in place\<close>

text \<open>The first \<open>n\<close> bytes of the buffer lie in its first block.\<close>

definition contiguous :: "nat \<Rightarrow> pktbuf \<Rightarrow> bool" where
  "contiguous n b \<longleftrightarrow> n = 0 \<or> (\<exists>k ks. blk_list b = k # ks \<and> n \<le> blk_size k)"

lemma contiguous_mono: "contiguous n b \<Longrightarrow> m \<le> n \<Longrightarrow> contiguous m b"
  by (auto simp: contiguous_def)

lemma contiguous_le: "buf_wf b \<Longrightarrow> contiguous n b \<Longrightarrow> n \<le> total_size b"
  by (auto simp: contiguous_def buf_wf_def)

lemma contiguousE:
  assumes "buf_wf b" and "contiguous n b" and "0 < n"
  obtains k ks where "blk_list b = k # ks" and "n \<le> blk_size k" and "blk_wf k" and "chain_wf ks"
  using assms by (auto simp: contiguous_def buf_wf_def)

lemma hdr_get_spec:
  assumes "buf_wf b" and "contiguous (off + n) b" and "0 < n"
  shows "hdr_get off n b = Some (get_at off n (buf_bytes b))"
proof -
  have "0 < off + n" using assms(3) by simp
  from contiguousE [OF assms(1,2) this] obtain k ks where k: "blk_list b = k # ks" "off + n \<le> blk_size k" "blk_wf k"
    by blast
  then have "get_at off n (buf_bytes b) = get_at off n (blk_bytes k)"
    by (simp add: buf_bytes_def get_at_append_left)
  also have "\<dots> = get_at (blk_off k + off) n (blk_payload k)"
    using k(2) by (simp add: blk_bytes_def get_at_def drop_take min_def add.commute)
  finally show ?thesis
    using k by (auto simp: hdr_get_def blk_wf_def)
qed

lemma hdr_put_spec:
  assumes "buf_wf b" and "contiguous (off + length bs) b" and "bs \<noteq> []"
  obtains b' where "hdr_put off bs b = Some b'" and "buf_wf b'" and "buf_bytes b' = put_at off bs (buf_bytes b)"
    and "total_size b' = total_size b" and "pos b' = pos b" and "ref b' = ref b" and "ids (blk_list b') = ids (blk_list b)"
    and "\<And>n. contiguous n b' = contiguous n b"
proof -
  have "0 < off + length bs" using assms(3) by simp
  from contiguousE [OF assms(1,2) this] obtain k ks
    where k: "blk_list b = k # ks" "off + length bs \<le> blk_size k" "blk_wf k" "chain_wf ks" by blast
  define k' where "k' = k\<lparr>blk_payload := put_at (blk_off k + off) bs (blk_payload k)\<rparr>"
  have k': "blk_wf k'" "blk_size k' = blk_size k" "blk_off k' = blk_off k" "blk_data k' = blk_data k" "blk_id k' = blk_id k"
    "blk_bytes k' = put_at off bs (blk_bytes k)"
    using k(2,3) by (auto simp: k'_def blk_wf_def blk_bytes_def get_at_put_at_inside)
  let ?b = "b\<lparr>blk_list := k' # ks\<rparr>"
  have "cursor_ok ?b"
  proof -
    from assms(1) have "cursor_ok b" by (simp add: buf_wf_def)
    then consider "curr_blk b = None" "blk_offset b = None" "pos b = chain_size (blk_list b)"
      | as c cs d where "cursor_at b as c cs d" by (auto simp: cursor_ok_def)
    then show ?thesis
    proof cases
      case 1
      with k(1) k'(2) show ?thesis by (simp add: cursor_ok_def)
    next
      case (2 as c cs d)
      show ?thesis
      proof (cases as)
        case Nil
        with 2 k(1) k' have "cursor_at ?b [] k' ks d" by (simp add: cursor_at_def)
        then show ?thesis by (auto simp: cursor_ok_def)
      next
        case (Cons a as')
        with 2 k(1) k' have "cursor_at ?b (k' # as') c cs d" by (simp add: cursor_at_def)
        then show ?thesis by (auto simp: cursor_ok_def)
      qed
    qed
  qed
  with assms(1) k k' have "buf_wf ?b" by (simp add: buf_wf_def)
  moreover have "hdr_put off bs b = Some ?b"
    using k by (auto simp: hdr_put_def k'_def blk_wf_def)
  moreover have "buf_bytes ?b = put_at off bs (buf_bytes b)"
    using k k'(6) by (simp add: buf_bytes_def put_at_append_left)
  ultimately show thesis
    using that [of ?b] k(1) k'(2,5) by (simp add: contiguous_def)
qed

text \<open>Up to one block, a header fits if one block is free.\<close>

lemma alloc_one:
  assumes "0 < sz" and "sz \<le> int PKTBUF_BLK_SIZE" and "free_wf (f # fs)"
  obtains k where "pktblock_alloc_list sz front (f # fs) = (Some [k], fs)" and "blk_wf k" and "blk_size k = nat sz"
    and "blk_id k = blk_id f"
proof -
  have c: "nat sz = (if nat sz > PKTBUF_BLK_SIZE then PKTBUF_BLK_SIZE else nat sz)"
    using assms(2) by auto
  have "0 < nat sz" "length (blk_payload f) = PKTBUF_BLK_SIZE" using assms by simp_all
  from alloc_list_loop_Cons [OF this c, of front "[]" fs] obtain k
    where k: "blk_wf k" "blk_id k = blk_id f" "blk_size k = nat sz"
    and "alloc_list_loop (nat sz) front [] (f # fs) =
      alloc_list_loop (nat sz - nat sz) front (if front then k # [] else [] @ [k]) fs" by blast
  then have "pktblock_alloc_list sz front (f # fs) = (Some [k], fs)"
    using assms(1) by (simp add: pktblock_alloc_list_def)
  with that k show thesis by blast
qed

lemma add_header_ok:
  assumes "buf_wf b" and "free_wf free" and "0 < ref b" and "0 \<le> sz" and "sz \<le> int PKTBUF_BLK_SIZE" and "free \<noteq> []"
  obtains b' free' where "add_header sz cont b free = Some (NET_ERR_OK, b', free')"
    and "op_keeps b free b' free'" and "\<exists>h. length h = nat sz \<and> buf_bytes b' = h @ buf_bytes b"
    and "cont \<Longrightarrow> contiguous (nat sz) b'" and "0 < sz \<Longrightarrow> pos b' = 0"
proof -
  have "\<exists>b' free'. add_header sz cont b free = Some (NET_ERR_OK, b', free') \<and> (cont \<longrightarrow> contiguous (nat sz) b') \<and>
    (0 < sz \<longrightarrow> pos b' = 0)"
  proof (cases "sz = 0")
    case True
    then show ?thesis by (simp add: add_header_def contiguous_def)
  next
    case False
    with assms(4) have sz: "0 < sz" by simp
    from assms(6) obtain f fs where free: "free = f # fs" by (cases free) auto
    obtain k where k: "pktblock_alloc_list sz True (f # fs) = (Some [k], fs)" "blk_size k = nat sz"
      using alloc_one [OF sz assms(5)] assms(2) free by blast
    show ?thesis
    proof (cases "blk_list b")
      case Nil
      with k sz assms(3) free show ?thesis
        by (simp add: add_header_def contiguous_def pktbuf_insert_blk_list_def)
    next
      case (Cons c cs)
      show ?thesis
      proof (cases "sz \<le> int (blk_off c) \<or> cont")
        case True
        with k sz assms(3,5) free Cons show ?thesis
          by (auto simp: add_header_def contiguous_def pktbuf_insert_blk_list_def Let_def)
      next
        case False
        then have p: "0 < sz - int (blk_off c)" "sz - int (blk_off c) \<le> int PKTBUF_BLK_SIZE" using assms(5) by auto
        obtain k' where "pktblock_alloc_list (sz - int (blk_off c)) True (f # fs) = (Some [k'], fs)"
          using alloc_one [OF p] assms(2) free by blast
        with False sz assms(3) free Cons show ?thesis by (auto simp: add_header_def Let_def)
      qed
    qed
  qed
  then obtain b' free' where r: "add_header sz cont b free = Some (NET_ERR_OK, b', free')"
    "cont \<longrightarrow> contiguous (nat sz) b'" "0 < sz \<longrightarrow> pos b' = 0" by blast
  with add_header_post [OF assms(1-3), of sz cont] that show thesis by simp
qed


section \<open>Access at a position\<close>

text \<open>Seeking, writing and reading succeed where the packet has the bytes; the state above the buffers stays.\<close>

lemma pktbuf_seek_ok:
  assumes "pkt_inv s" and "i \<in> live s" and "off \<le> total_size (pktbufs s i)"
  obtains s' where "pktbuf_seek (Some i) (int off) s = Some (NET_ERR_OK, s')" and "pkt_inv s'" and "live s' = live s"
    and "pos (pktbufs s' i) = off" and "buf_bytes (pktbufs s' i) = buf_bytes (pktbufs s i)"
    and "total_size (pktbufs s' i) = total_size (pktbufs s i)" and "\<exists>x y. s' = s\<lparr>pktbufs := x, block_list := y\<rparr>"
proof -
  note b = live_bufD [OF assms(1,2)]
  from assms(1) have fw: "free_wf (block_list s)" by (simp add: pkt_inv_def)
  obtain e s' where r: "on_buf (Some i) (seek_buf (int off)) s = Some (e, s')" "pkt_inv s'" "live s' = live s"
    "if e = NET_ERR_OK then 0 \<le> int off \<and> pos (pktbufs s' i) = nat (int off) \<and> blk_list (pktbufs s' i) = blk_list (pktbufs s i)
     else pktbufs s' i = pktbufs s i"
    using on_buf_post [where f = "seek_buf (int off)", OF assms(1,2) seek_buf_post [OF b(1) fw b(2)]] by metis
  have e: "e = NET_ERR_OK" using r(1) assms(3) b(2) by (auto simp: on_buf_def seek_buf_def split: if_splits bind_splits)
  have frame: "\<exists>x y. s' = s\<lparr>pktbufs := x, block_list := y\<rparr>" using r(1) by (auto simp: on_buf_def split: bind_splits)
  from e r have bytes: "buf_bytes (pktbufs s' i) = buf_bytes (pktbufs s i)" by (simp add: buf_bytes_def)
  moreover have "total_size (pktbufs s' i) = total_size (pktbufs s i)"
    using length_buf_bytes [OF b(1)] length_buf_bytes [OF live_bufD(1) [OF r(2), of i]] assms(2) r(3) unfolding bytes by simp
  ultimately show thesis using that [of s'] r e frame by (simp add: pktbuf_seek_def)
qed

lemma pktbuf_write_ok:
  assumes "pkt_inv s" and "i \<in> live s" and "src \<noteq> []" and "pos (pktbufs s i) + length src \<le> total_size (pktbufs s i)"
  obtains s' where "pktbuf_write (Some i) (Some src) (int (length src)) s = Some (NET_ERR_OK, s')" and "pkt_inv s'"
    and "live s' = live s" and "buf_bytes (pktbufs s' i) = put_at (pos (pktbufs s i)) src (buf_bytes (pktbufs s i))"
    and "total_size (pktbufs s' i) = total_size (pktbufs s i)"
proof -
  note b = live_bufD [OF assms(1,2)]
  from assms(1) have fw: "free_wf (block_list s)" by (simp add: pkt_inv_def)
  have src: "0 < int (length src) \<Longrightarrow> Some src = None \<or> nat (int (length src)) \<le> length (the (Some src))" by simp
  obtain e s' where r: "on_buf (Some i) (write_buf (Some src) (int (length src))) s = Some (e, s')" "pkt_inv s'" "live s' = live s"
    "if e = NET_ERR_OK then 0 \<le> int (length src) \<and> pos (pktbufs s' i) = pos (pktbufs s i) + nat (int (length src)) \<and>
      (0 < int (length src) \<longrightarrow> buf_bytes (pktbufs s' i) =
        put_at (pos (pktbufs s i)) (take (nat (int (length src))) (the (Some src))) (buf_bytes (pktbufs s i)))
     else pktbufs s' i = pktbufs s i"
    using on_buf_post [where f = "write_buf (Some src) (int (length src))", OF assms(1,2) write_buf_post [OF b(1) fw b(2) src]]
    by metis
  have e: "e = NET_ERR_OK"
    using r(1) assms(3,4) b(2) by (auto simp: on_buf_def write_buf_def total_blk_remain_def split: if_splits bind_splits)
  with r(4) assms(3) have bytes: "buf_bytes (pktbufs s' i) = put_at (pos (pktbufs s i)) src (buf_bytes (pktbufs s i))" by simp
  moreover have "total_size (pktbufs s' i) = total_size (pktbufs s i)"
    using length_buf_bytes [OF b(1)] length_buf_bytes [OF live_bufD(1) [OF r(2), of i]] assms(2,4) r(3) unfolding bytes by simp
  ultimately show thesis using that [of s'] r e by (simp add: pktbuf_write_def)
qed

lemma pktbuf_read_ok:
  assumes "pkt_inv s" and "i \<in> live s" and "0 < n" and "pos (pktbufs s i) + n \<le> total_size (pktbufs s i)"
  obtains s' where "pktbuf_read (Some i) False (int n) s = Some (NET_ERR_OK, get_at (pos (pktbufs s i)) n (buf_bytes (pktbufs s i)), s')"
    and "pkt_inv s'" and "buf_bytes (pktbufs s' i) = buf_bytes (pktbufs s i)" and "\<exists>x. s' = s\<lparr>pktbufs := x\<rparr>"
proof -
  have "0 < int n" "int n \<le> total_blk_remain (pktbufs s i)" using assms(3,4) by (simp_all add: total_blk_remain_def)
  from pktbuf_read_spec [OF assms(1,2) this] obtain b where b:
    "pktbuf_read (Some i) False (int n) s =
      Some (NET_ERR_OK, get_at (pos (pktbufs s i)) (nat (int n)) (buf_bytes (pktbufs s i)), s\<lparr>pktbufs := (pktbufs s)(i := b)\<rparr>)"
    "blk_list b = blk_list (pktbufs s i)" "pkt_inv (s\<lparr>pktbufs := (pktbufs s)(i := b)\<rparr>)" by metis
  with that [of "s\<lparr>pktbufs := (pktbufs s)(i := b)\<rparr>"] show thesis by (auto simp: buf_bytes_def)
qed

end
