(* ===== verification/Pktbuf_Props.thy ===== *)
theory Pktbuf_Props
  imports Pktbuf_Laws
begin

text \<open>
  The properties of packet buffers. They speak of a state of the whole pool in which \<open>pkt_inv\<close> holds, as it
  does after \<^verbatim>\<open>pktbuf_init\<close> and as every operation keeps it, and of live buffers, those that have been
  allocated and not yet released. All of them include that the operation returns: no assertion fails and
  no loop runs for ever.
\<close>

text \<open>A state for the examples: a fresh pool, then buffers 0 and 1 of 1500 and 40 bytes.\<close>

definition ex_pkt0 :: pkt_state where
  "ex_pkt0 = snd (pktbuf_init (\<lambda>_. replicate 1024 0)
     \<lparr>sem_pool = [], mtime = 0, wakes = [], vnet = virtio_net_zero, fixqs = (\<lambda>_. \<lparr>fq_size = 0, fq_buf = [], fq_in = 0, fq_out = 0, fq_count = 0,
        fq_send_sem = None, fq_recv_sem = None, fq_locker_type = NLOCKER_NONE\<rparr>),
      block_list = [], pktbuf_list = [],
      pktbufs = (\<lambda>_. \<lparr>total_size = 0, blk_list = [], ref = 0, pos = 0, curr_blk = None, blk_offset = None\<rparr>)\<rparr>)"

definition ex_pkt1 :: pkt_state where
  "ex_pkt1 = snd (pktbuf_alloc 1500 ex_pkt0)"

definition ex_pkt2 :: pkt_state where
  "ex_pkt2 = snd (pktbuf_alloc 40 ex_pkt1)"

lemma ex_pkt0: "pkt_inv ex_pkt0" "pktbuf_list ex_pkt0 = [0..<128]" "length (block_list ex_pkt0) = 256"
proof -
  show "pkt_inv ex_pkt0"
    unfolding ex_pkt0_def by (rule pktbuf_init_inv) (simp add: PKTBUF_BLK_SIZE_def)
qed (simp_all add: ex_pkt0_def pktbuf_init_def PKTBUF_BUF_CNT_def PKTBUF_BLK_CNT_def)

lemma pktbuf_alloc_live:
  assumes "pkt_inv s" and "\<not> alloc_fails sz s" and "pktbuf_alloc sz s = (r, s')"
  obtains i where "r = Some i" and "i = hd (pktbuf_list s)" and "pkt_inv s'" and "i \<notin> live s" and "live s' = insert i (live s)"
    and "total_size (pktbufs s' i) = nat sz" and "pos (pktbufs s' i) = 0" and "ref (pktbufs s' i) = 1"
    and "\<And>j. j \<noteq> i \<Longrightarrow> pktbufs s' j = pktbufs s j" and "pktbuf_list s' = tl (pktbuf_list s)"
    and "block_list s' = drop (blks_for (nat sz)) (block_list s)"
proof -
  from pktbuf_alloc_ok [OF assms(1,2)] obtain i b free' where a:
    "pktbuf_alloc sz s = (Some i, s\<lparr>pktbuf_list := tl (pktbuf_list s), block_list := free', pktbufs := (pktbufs s)(i := b)\<rparr>)"
    "i = hd (pktbuf_list s)" "buf_wf b" "ref b = 1" "total_size b = nat sz" "pos b = 0" "free_wf free'"
    "ids (blk_list b) + ids free' = ids (block_list s)" "free' = drop (blks_for (nat sz)) (block_list s)" by blast
  from assms(2) a(2) have pl: "pktbuf_list s = i # tl (pktbuf_list s)"
    by (cases "pktbuf_list s") (auto simp: alloc_fails_def)
  have "0 < ref b" using a(4) by simp
  note t = pkt_inv_take [OF assms(1) pl a(3) this a(7,8)]
  from assms(3) a(1) have s': "r = Some i" "s' = s\<lparr>pktbuf_list := tl (pktbuf_list s), block_list := free', pktbufs := (pktbufs s)(i := b)\<rparr>"
    by simp_all
  show thesis
    by (rule that [OF s'(1) a(2)]) (use t a(4-6,9) in \<open>simp_all add: s'(2)\<close>)
qed

lemma alloc_next:
  assumes "pkt_inv s" and "\<not> alloc_fails sz s" and "pktbuf_list s = i # rest" and "s' = snd (pktbuf_alloc sz s)"
  shows "pkt_inv s'" and "live s' = insert i (live s)" and "total_size (pktbufs s' i) = nat sz" and "pos (pktbufs s' i) = 0"
    and "ref (pktbufs s' i) = 1" and "\<And>j. j \<noteq> i \<Longrightarrow> pktbufs s' j = pktbufs s j" and "pktbuf_list s' = rest"
    and "block_list s' = drop (blks_for (nat sz)) (block_list s)"
  using pktbuf_alloc_live [OF assms(1,2) prod.collapse [symmetric]] assms(3,4) by (metis list.sel(1,3))+

lemma ex_pkt1: "pkt_inv ex_pkt1" "live ex_pkt1 = {0}" "total_size (pktbufs ex_pkt1 0) = 1500" "pos (pktbufs ex_pkt1 0) = 0"
  "ref (pktbufs ex_pkt1 0) = 1" "pktbuf_list ex_pkt1 = [1..<128]" "length (block_list ex_pkt1) = 254"
proof -
  have nf: "\<not> alloc_fails 1500 ex_pkt0" by (simp add: alloc_fails_def ex_pkt0 blks_for_def PKTBUF_BLK_SIZE_def)
  have l: "live ex_pkt0 = {}" using ex_pkt0(2) by (auto simp: live_def PKTBUF_BUF_CNT_def)
  have p: "pktbuf_list ex_pkt0 = 0 # [1..<128]" by (simp add: ex_pkt0(2) upt_conv_Cons)
  note a = alloc_next [OF ex_pkt0(1) nf p ex_pkt1_def]
  show "pkt_inv ex_pkt1" "live ex_pkt1 = {0}" "total_size (pktbufs ex_pkt1 0) = 1500" "pos (pktbufs ex_pkt1 0) = 0"
    "ref (pktbufs ex_pkt1 0) = 1" "pktbuf_list ex_pkt1 = [1..<128]"
    using a(1-5,7) l by simp_all
  show "length (block_list ex_pkt1) = 254"
    unfolding a(8) using ex_pkt0(3) by (simp add: blks_for_def PKTBUF_BLK_SIZE_def)
qed

lemma ex_pkt2: "pkt_inv ex_pkt2" "live ex_pkt2 = {0, 1}" "total_size (pktbufs ex_pkt2 1) = 40" "total_size (pktbufs ex_pkt2 0) = 1500"
  "ref (pktbufs ex_pkt2 1) = 1" "pos (pktbufs ex_pkt2 1) = 0" "pos (pktbufs ex_pkt2 0) = 0" "length (block_list ex_pkt2) = 253"
proof -
  have nf: "\<not> alloc_fails 40 ex_pkt1"
    using ex_pkt1(7) by (auto simp: alloc_fails_def ex_pkt1(6) blks_for_def PKTBUF_BLK_SIZE_def)
  have p: "pktbuf_list ex_pkt1 = 1 # [2..<128]" by (simp add: ex_pkt1(6) upt_conv_Cons)
  note a = alloc_next [OF ex_pkt1(1) nf p ex_pkt2_def]
  show "pkt_inv ex_pkt2" "live ex_pkt2 = {0, 1}" "total_size (pktbufs ex_pkt2 1) = 40"
    "ref (pktbufs ex_pkt2 1) = 1" "pos (pktbufs ex_pkt2 1) = 0"
    using a(1-5) ex_pkt1(2) by auto
  show "total_size (pktbufs ex_pkt2 0) = 1500" "pos (pktbufs ex_pkt2 0) = 0"
    using a(6) [of 0] ex_pkt1(3,4) by simp_all
  show "length (block_list ex_pkt2) = 253"
    unfolding a(8) using ex_pkt1(7) by (simp add: blks_for_def PKTBUF_BLK_SIZE_def)
qed

lemma ex_pkt2_ne: "block_list ex_pkt2 \<noteq> []"
  using ex_pkt2(8) by auto


section \<open>The properties\<close>

text \<open>C8. \<^verbatim>\<open>pktbuf_alloc\<close> hands out a buffer that nobody has: it is not live before, is live with one
  reference, the size asked for and its cursor at the start afterwards, and all other buffers are
  untouched. It fails exactly when the size is negative or buffers or blocks have run out, and then
  nothing has been taken.\<close>

theorem pktbuf_alloc_fresh:
  assumes "pkt_inv s" and "pktbuf_alloc sz s = (r, s')"
  shows "pkt_inv s' \<and> (r = None \<longleftrightarrow> alloc_fails sz s) \<and> (\<forall>j\<in>live s. pktbufs s' j = pktbufs s j) \<and>
    (case r of None \<Rightarrow> live s' = live s
     | Some i \<Rightarrow> i \<notin> live s \<and> live s' = insert i (live s) \<and> total_size (pktbufs s' i) = nat sz \<and>
         length (buf_bytes (pktbufs s' i)) = nat sz \<and> pos (pktbufs s' i) = 0 \<and> ref (pktbufs s' i) = 1)"
proof (cases "alloc_fails sz s")
  case True
  from pktbuf_alloc_fail [OF assms(1) True assms(2)] True show ?thesis by auto
next
  case False
  from pktbuf_alloc_live [OF assms(1) False assms(2)] obtain i where i: "r = Some i" "pkt_inv s'" "i \<notin> live s"
    "live s' = insert i (live s)" "total_size (pktbufs s' i) = nat sz" "pos (pktbufs s' i) = 0"
    "ref (pktbufs s' i) = 1" "\<And>j. j \<noteq> i \<Longrightarrow> pktbufs s' j = pktbufs s j" by metis
  moreover have "buf_wf (pktbufs s' i)" using i(2,4) by (simp add: pkt_inv_def)
  moreover have "\<forall>j\<in>live s. pktbufs s' j = pktbufs s j" using i(3,8) by metis
  ultimately show ?thesis using False by simp
qed

theorem pktbuf_alloc_fresh_witness:
  "\<exists>i s'. pktbuf_alloc 40 ex_pkt1 = (Some i, s') \<and> i \<notin> live ex_pkt1 \<and> length (buf_bytes (pktbufs s' i)) = 40"
proof -
  obtain r s' where a: "pktbuf_alloc 40 ex_pkt1 = (r, s')" by (metis surj_pair)
  have "\<not> alloc_fails 40 ex_pkt1"
    using ex_pkt1(7) by (auto simp: alloc_fails_def ex_pkt1(6) blks_for_def PKTBUF_BLK_SIZE_def)
  with pktbuf_alloc_fresh [OF ex_pkt1(1) a] a show ?thesis by (cases r) auto
qed

text \<open>C9. Blocks are neither lost nor shared: in a state with \<open>pkt_inv\<close>, releasing a live buffer keeps
  \<open>pkt_inv\<close>; when it was the last reference the buffer is no longer live and exactly its blocks have been
  added to the free ones. Moreover a live buffer shares no block with the free list or with another
  live buffer.\<close>

theorem pktbuf_free_returns_blocks:
  assumes "pkt_inv s" and "i \<in> live s"
  shows "pkt_inv (pktbuf_free (Some i) s) \<and>
    (ref (pktbufs s i) = 1 \<longrightarrow> live (pktbuf_free (Some i) s) = live s - {i} \<and>
       ids (block_list (pktbuf_free (Some i) s)) = ids (blk_list (pktbufs s i)) + ids (block_list s)) \<and>
    (ref (pktbufs s i) \<noteq> 1 \<longrightarrow> live (pktbuf_free (Some i) s) = live s) \<and>
    distinct (map blk_id (blk_list (pktbufs s i) @ block_list s)) \<and>
    (\<forall>j\<in>live s. j \<noteq> i \<longrightarrow> distinct (map blk_id (blk_list (pktbufs s i) @ blk_list (pktbufs s j))))"
  using pktbuf_free_spec [OF assms] pkt_inv_distinct [OF assms(1)] assms(2) by simp

theorem pktbuf_free_returns_blocks_witness:
  "pkt_inv (pktbuf_free (Some 0) ex_pkt2) \<and> pkt_inv ex_pkt2 \<and>
   distinct (map blk_id (blk_list (pktbufs ex_pkt2 0) @ blk_list (pktbufs ex_pkt2 1)))"
  using pktbuf_free_returns_blocks [of ex_pkt2 0] ex_pkt2 by simp



text \<open>C11. Removing a header: \<^verbatim>\<open>pktbuf_remove_header\<close> returns; for a size between 0 and the size of the packet
  it succeeds and drops exactly the first \<open>sz\<close> bytes, whatever blocks they are in; for any other size it reports
  an error and changes nothing.\<close>

theorem remove_header_drops:
  assumes "pkt_inv s" and "i \<in> live s"
  shows "\<exists>e s'. pktbuf_remove_header (Some i) sz s = Some (e, s') \<and> pkt_inv s' \<and>
    (e = NET_ERR_OK \<longleftrightarrow> 0 \<le> sz \<and> sz \<le> int (total_size (pktbufs s i))) \<and>
    buf_bytes (pktbufs s' i) = (if e = NET_ERR_OK then drop (nat sz) (buf_bytes (pktbufs s i)) else buf_bytes (pktbufs s i)) \<and>
    (\<forall>j. j \<noteq> i \<longrightarrow> pktbufs s' j = pktbufs s j)"
proof -
  note b = live_bufD [OF assms(1,2)]
  from assms(1) have fw: "free_wf (block_list s)" by (simp add: pkt_inv_def)
  obtain e s' where r: "on_buf (Some i) (remove_header sz) s = Some (e, s')" "pkt_inv s'"
    "\<And>j. j \<noteq> i \<Longrightarrow> pktbufs s' j = pktbufs s j"
    "if e = NET_ERR_OK then 0 \<le> sz \<and> sz \<le> int (total_size (pktbufs s i)) \<and>
       buf_bytes (pktbufs s' i) = drop (nat sz) (buf_bytes (pktbufs s i)) else pktbufs s' i = pktbufs s i"
    using on_buf_post [where f = "remove_header sz", OF assms remove_header_post [OF b(1) fw b(2)]] by metis
  moreover have "e = NET_ERR_OK" if "0 \<le> sz" "sz \<le> int (total_size (pktbufs s i))"
    using that r(1) b(2) by (auto simp: on_buf_def remove_header_def split: if_splits bind_splits)
  ultimately show ?thesis by (auto simp: pktbuf_remove_header_def)
qed

theorem remove_header_drops_witness:
  "\<exists>s'. pktbuf_remove_header (Some 0) 1100 ex_pkt2 = Some (NET_ERR_OK, s') \<and>
     buf_bytes (pktbufs s' 0) = drop 1100 (buf_bytes (pktbufs ex_pkt2 0)) \<and> length (buf_bytes (pktbufs ex_pkt2 0)) = 1500"
  using remove_header_drops [of ex_pkt2 0 1100] live_bufD(1) [of ex_pkt2 0] ex_pkt2 by auto

text \<open>C12. Resizing: \<^verbatim>\<open>pktbuf_resize\<close> returns; on success the packet has \<open>n\<close> bytes and as many of its old bytes
  as fit are kept at the front; on failure (a negative size, or no blocks to grow) the packet is as
  before.\<close>

theorem resize_keeps_prefix:
  assumes "pkt_inv s" and "i \<in> live s"
  shows "\<exists>e s'. pktbuf_resize (Some i) n s = Some (e, s') \<and> pkt_inv s' \<and>
    (if e = NET_ERR_OK
     then 0 \<le> n \<and> length (buf_bytes (pktbufs s' i)) = nat n \<and>
       (\<exists>pad. buf_bytes (pktbufs s' i) = take (nat n) (buf_bytes (pktbufs s i)) @ pad)
     else pktbufs s' i = pktbufs s i) \<and> (n \<le> int (total_size (pktbufs s i)) \<longrightarrow> 0 \<le> n \<longrightarrow> e = NET_ERR_OK) \<and>
    (\<forall>j. j \<noteq> i \<longrightarrow> pktbufs s' j = pktbufs s j)"
proof -
  note b = live_bufD [OF assms(1,2)]
  from assms(1) have fw: "free_wf (block_list s)" by (simp add: pkt_inv_def)
  obtain e s' where r: "on_buf (Some i) (pktbuf_resize_core n) s = Some (e, s')" "pkt_inv s'"
    "\<And>j. j \<noteq> i \<Longrightarrow> pktbufs s' j = pktbufs s j"
    "if e = NET_ERR_OK then resized n (pktbufs s i) (pktbufs s' i) else pktbufs s' i = pktbufs s i"
    using on_buf_post [where f = "pktbuf_resize_core n", OF assms resize_post [OF b(1) fw b(2)]] by metis
  moreover have "e = NET_ERR_OK" if "0 \<le> n" "n \<le> int (total_size (pktbufs s i))"
  proof -
    have "find_tail (blk_list (pktbufs s i)) 0 (nat n) \<noteq> None" if "0 < n"
      using that \<open>n \<le> _\<close> b(1) by (metis add_0 buf_wf_def find_tail_spec nat_le_iff option.distinct(1) zero_less_nat_eq)
    with that r(1) b(2) show ?thesis
      by (auto simp: on_buf_def pktbuf_resize_core_def Let_def nat_le_iff split: if_splits bind_splits option.splits prod.splits)
  qed
  ultimately show ?thesis by (auto simp: pktbuf_resize_def)
qed

theorem resize_keeps_prefix_witness:
  "\<exists>s' pad. pktbuf_resize (Some 0) 700 ex_pkt2 = Some (NET_ERR_OK, s') \<and>
     buf_bytes (pktbufs s' 0) = take 700 (buf_bytes (pktbufs ex_pkt2 0)) @ pad"
  using resize_keeps_prefix [of ex_pkt2 0 700] ex_pkt2 by auto

text \<open>C13. Making a header contiguous moves bytes between blocks but not within the packet:
  \<^verbatim>\<open>pktbuf_set_cont\<close> succeeds for every size up to one block and the size of the packet, afterwards the first
  block holds at least that many bytes, and the bytes of the packet are unchanged; for other sizes
  it reports an error and changes nothing.\<close>

theorem set_cont_contiguous:
  assumes "pkt_inv s" and "i \<in> live s"
  shows "\<exists>e s'. pktbuf_set_cont (Some i) sz s = Some (e, s') \<and> pkt_inv s' \<and>
    (e = NET_ERR_OK \<longleftrightarrow> 0 \<le> sz \<and> sz \<le> int (total_size (pktbufs s i)) \<and> sz \<le> int PKTBUF_BLK_SIZE) \<and>
    buf_bytes (pktbufs s' i) = buf_bytes (pktbufs s i) \<and>
    (e = NET_ERR_OK \<longrightarrow> contiguous (nat sz) (pktbufs s' i)) \<and> (\<forall>j. j \<noteq> i \<longrightarrow> pktbufs s' j = pktbufs s j)"
proof -
  note b = live_bufD [OF assms(1,2)]
  from assms(1) have fw: "free_wf (block_list s)" by (simp add: pkt_inv_def)
  obtain e s' where r: "on_buf (Some i) (set_cont sz) s = Some (e, s')" "pkt_inv s'"
    "\<And>j. j \<noteq> i \<Longrightarrow> pktbufs s' j = pktbufs s j"
    "if e = NET_ERR_OK then buf_bytes (pktbufs s' i) = buf_bytes (pktbufs s i) \<and> 0 \<le> sz \<and>
      (0 < sz \<longrightarrow> (\<exists>k ks. blk_list (pktbufs s' i) = k # ks \<and> nat sz \<le> blk_size k)) else pktbufs s' i = pktbufs s i"
    using on_buf_post [where f = "set_cont sz", OF assms set_cont_post [OF b(1) fw b(2)]] by metis
  moreover have "e = NET_ERR_OK \<longleftrightarrow> 0 \<le> sz \<and> sz \<le> int (total_size (pktbufs s i)) \<and> sz \<le> int PKTBUF_BLK_SIZE"
  proof (cases "blk_list (pktbufs s i)")
    case Nil
    with b(1) have "total_size (pktbufs s i) = 0" by (simp add: buf_wf_def)
    with Nil r(1) b(2) show ?thesis by (auto simp: on_buf_def set_cont_def split: if_splits)
  next
    case (Cons k ks)
    with r(1) b(2) show ?thesis
      by (auto simp: on_buf_def set_cont_def Let_def split: if_splits prod.splits)
  qed
  moreover have "buf_bytes (pktbufs s' i) = buf_bytes (pktbufs s i)" using r(4) by (simp split: if_splits)
  moreover have "e = NET_ERR_OK \<longrightarrow> contiguous (nat sz) (pktbufs s' i)" using r(4) by (auto simp: contiguous_def)
  ultimately show ?thesis unfolding pktbuf_set_cont_def by blast
qed

theorem set_cont_contiguous_witness:
  "\<exists>s'. pktbuf_set_cont (Some 0) 1024 ex_pkt2 = Some (NET_ERR_OK, s') \<and> contiguous 1024 (pktbufs s' 0) \<and>
     buf_bytes (pktbufs s' 0) = buf_bytes (pktbufs ex_pkt2 0)"
  using set_cont_contiguous [of ex_pkt2 0 1024] ex_pkt2 by (auto simp: PKTBUF_BLK_SIZE_def)

text \<open>C14. Written bytes are read back: seek to \<open>off\<close>, write \<open>src\<close>, seek to \<open>off\<close> again and read as many bytes.
  All four calls succeed, the bytes read are \<open>src\<close>, and of the packet exactly these positions have changed,
  whatever its division into blocks.\<close>

theorem write_read_roundtrip:
  assumes "pkt_inv s" and "i \<in> live s" and "src \<noteq> []" and "off + length src \<le> total_size (pktbufs s i)"
  shows "\<exists>s1 s2 s3 s4. pktbuf_seek (Some i) (int off) s = Some (NET_ERR_OK, s1) \<and>
    pktbuf_write (Some i) (Some src) (int (length src)) s1 = Some (NET_ERR_OK, s2) \<and>
    pktbuf_seek (Some i) (int off) s2 = Some (NET_ERR_OK, s3) \<and>
    pktbuf_read (Some i) False (int (length src)) s3 = Some (NET_ERR_OK, src, s4) \<and>
    buf_bytes (pktbufs s4 i) = put_at off src (buf_bytes (pktbufs s i)) \<and> pkt_inv s4"
proof -
  have n: "0 < length src" using assms(3) by simp
  have off: "off \<le> total_size (pktbufs s i)" using assms(4) by simp
  obtain s1 where s1: "pktbuf_seek (Some i) (int off) s = Some (NET_ERR_OK, s1)" "pkt_inv s1" "i \<in> live s1" "pos (pktbufs s1 i) = off"
    "buf_bytes (pktbufs s1 i) = buf_bytes (pktbufs s i)" "total_size (pktbufs s1 i) = total_size (pktbufs s i)"
    by (rule pktbuf_seek_ok [OF assms(1,2) off]) (use assms(2) in simp)
  have "pos (pktbufs s1 i) + length src \<le> total_size (pktbufs s1 i)" using assms(4) s1(4,6) by simp
  then obtain s2 where s2: "pktbuf_write (Some i) (Some src) (int (length src)) s1 = Some (NET_ERR_OK, s2)" "pkt_inv s2" "i \<in> live s2"
    "buf_bytes (pktbufs s2 i) = put_at off src (buf_bytes (pktbufs s i))" "total_size (pktbufs s2 i) = total_size (pktbufs s i)"
    by (rule pktbuf_write_ok [OF s1(2,3) assms(3)]) (use s1 in simp)
  from off s2(5) have "off \<le> total_size (pktbufs s2 i)" by simp
  then obtain s3 where s3: "pktbuf_seek (Some i) (int off) s2 = Some (NET_ERR_OK, s3)" "pkt_inv s3" "i \<in> live s3" "pos (pktbufs s3 i) = off"
    "buf_bytes (pktbufs s3 i) = buf_bytes (pktbufs s2 i)" "total_size (pktbufs s3 i) = total_size (pktbufs s i)"
    by (rule pktbuf_seek_ok [OF s2(2,3)]) (use s2 in simp)
  have "pos (pktbufs s3 i) + length src \<le> total_size (pktbufs s3 i)" using assms(4) s3(4,6) by simp
  then obtain s4 where s4: "pktbuf_read (Some i) False (int (length src)) s3 =
      Some (NET_ERR_OK, get_at off (length src) (buf_bytes (pktbufs s3 i)), s4)" "pkt_inv s4"
    "buf_bytes (pktbufs s4 i) = buf_bytes (pktbufs s3 i)"
    by (rule pktbuf_read_ok [OF s3(2,3) n]) (use s3(4) in simp)
  have "get_at off (length src) (put_at off src (buf_bytes (pktbufs s i))) = src"
    using assms(4) length_buf_bytes [OF live_bufD(1) [OF assms(1,2)]] by simp
  with s4 s3(5) s2(4) have "pktbuf_read (Some i) False (int (length src)) s3 = Some (NET_ERR_OK, src, s4)"
    "buf_bytes (pktbufs s4 i) = put_at off src (buf_bytes (pktbufs s i))" by simp_all
  with s1(1) s2(1) s3(1) s4(2) show ?thesis by blast
qed

theorem write_read_roundtrip_witness:
  "\<exists>s1 s2 s3 s4. pktbuf_seek (Some 0) 1020 ex_pkt2 = Some (NET_ERR_OK, s1) \<and>
    pktbuf_write (Some 0) (Some [1, 2, 3, 4, 5, 6]) 6 s1 = Some (NET_ERR_OK, s2) \<and>
    pktbuf_seek (Some 0) 1020 s2 = Some (NET_ERR_OK, s3) \<and>
    pktbuf_read (Some 0) False 6 s3 = Some (NET_ERR_OK, [1, 2, 3, 4, 5, 6], s4)"
  using write_read_roundtrip [of ex_pkt2 0 "[1, 2, 3, 4, 5, 6]" 1020] ex_pkt2 by auto

text \<open>C15. The checksum of a packet is the checksum of its bytes: from the cursor on, \<^verbatim>\<open>pktbuf_checksum16\<close>, which sums
  block by block, returns what \<^verbatim>\<open>checksum16\<close> returns on the flat array of the same bytes, moves the cursor
  behind them and changes nothing else.\<close>

theorem pktbuf_checksum_flat:
  assumes "pkt_inv s" and "i \<in> live s" and "0 \<le> sz" and "sz \<le> total_blk_remain (pktbufs s i)" and "unat pre \<le> 65535"
    and "sz \<le> 65535"
  shows "\<exists>s'. pktbuf_checksum16 (Some i) sz pre complement s =
      Some (checksum16 0 (get_at (pos (pktbufs s i)) (nat sz) (buf_bytes (pktbufs s i))) (of_int sz) pre complement, s') \<and>
    pkt_inv s' \<and> buf_bytes (pktbufs s' i) = buf_bytes (pktbufs s i) \<and> pos (pktbufs s' i) = pos (pktbufs s i) + nat sz"
proof -
  obtain b where c: "pktbuf_checksum16 (Some i) sz pre complement s =
      Some (let acc = checksum_loop 0 (get_at (pos (pktbufs s i)) (nat sz) (buf_bytes (pktbufs s i))) pre
            in if complement then ucast (NOT acc) else ucast acc, s\<lparr>pktbufs := (pktbufs s)(i := b)\<rparr>)"
    "moved (nat sz) (pktbufs s i) b" "blk_list b = blk_list (pktbufs s i)" "pkt_inv (s\<lparr>pktbufs := (pktbufs s)(i := b)\<rparr>)"
    using pktbuf_checksum16_spec [OF assms(1-5)] by metis
  have "unat (of_int sz :: u16) = nat sz"
    using assms(3,6) unat_of_nat [where 'a = 16, of "nat sz"] by (simp add: take_bit_nat_eq_self of_nat_nat)
  moreover have "length (get_at (pos (pktbufs s i)) (nat sz) (buf_bytes (pktbufs s i))) = nat sz"
    using assms(3,4) length_buf_bytes [OF live_bufD(1) [OF assms(1,2)]] unfolding total_blk_remain_def
    by (intro length_get_at) linarith
  ultimately show ?thesis
    using c by (auto simp: checksum16_def Let_def moved_def buf_bytes_def)
qed

theorem pktbuf_checksum_flat_witness:
  "\<exists>s'. pktbuf_checksum16 (Some 0) 1500 0 True ex_pkt2 =
     Some (checksum16 0 (get_at 0 1500 (buf_bytes (pktbufs ex_pkt2 0))) 1500 0 True, s') \<and> pkt_inv s'"
  using pktbuf_checksum_flat [of ex_pkt2 0 1500 0 True] ex_pkt2 by (auto simp: total_blk_remain_def)

text \<open>C16. Joining appends: if the source has no other owner, \<^verbatim>\<open>pktbuf_join\<close> makes the bytes of the destination
  its bytes followed by those of the source, releases the source buffer and keeps every block
  accounted for.\<close>

theorem join_appends:
  assumes "pkt_inv s" and "d \<in> live s" and "i \<in> live s" and "d \<noteq> i" and "ref (pktbufs s i) = 1"
  shows "\<exists>s'. pktbuf_join (Some d) (Some i) s = Some (NET_ERR_OK, s') \<and> pkt_inv s' \<and> live s' = live s - {i} \<and>
    buf_bytes (pktbufs s' d) = buf_bytes (pktbufs s d) @ buf_bytes (pktbufs s i)"
  using pktbuf_join_spec [OF assms] by metis

theorem join_appends_witness:
  "\<exists>s'. pktbuf_join (Some 0) (Some 1) ex_pkt2 = Some (NET_ERR_OK, s') \<and>
     buf_bytes (pktbufs s' 0) = buf_bytes (pktbufs ex_pkt2 0) @ buf_bytes (pktbufs ex_pkt2 1)"
  using join_appends [of ex_pkt2 0 1] ex_pkt2 by auto



end
