(* ===== verification/Base_Props.thy ===== *)
theory Base_Props
  imports Net_Tools Mblock Fixq
begin

text \<open>
  The properties of the data structures at the bottom of the stack: checksums, lists, block
  allocators, message queues and the completion ring. Each is stated over the definitions of its
  component; the proofs apply the component's lemmas and the interfaces it implements.
\<close>

section \<open>Checksums\<close>

text \<open>C1. The Internet checksum round trip: when the complemented checksum of a packet whose checksum
  field is zero is stored in the field, in network byte order, the packet verifies, that is, the
  complemented checksum over all of it is zero. The field is at an even offset, \<open>as\<close> and \<open>bs\<close> are
  the bytes before and after it, and \<open>pre\<close> is the sum of a pseudo header.\<close>

theorem checksum_roundtrip:
  assumes "unat pre \<le> 65535" and "even (length as)" and "length as + 2 + length bs = unat len"
  shows "checksum16 0 (as @ le16_bytes (x_htons (checksum16 0 (as @ [0, 0] @ bs) len pre True)) @ bs) len pre True = 0"
  by (rule checksum16_verifies [OF assms(1,2) _ assms(3) refl]) simp

theorem checksum_roundtrip_witness:
  "checksum16 0 ([1, 2] @ le16_bytes (x_htons (checksum16 0 ([1, 2] @ [0, 0] @ [3]) 5 7 True)) @ [3]) 5 7 True = 0"
  using checksum_roundtrip [of 7 "[1, 2]" "[3]" 5] by simp

text \<open>C2. The checksum of a packet does not depend on how it is cut into blocks, provided the running
  offset is passed on: summing \<open>as\<close> and then \<open>bs\<close>, starting from the partial sum and at the offset
  where \<open>as\<close> ends, is summing \<open>as @ bs\<close>. This is what lets a packet be summed block by block even when
  a block has odd length.\<close>

theorem checksum_split:
  assumes "unat pre \<le> 65535" and "length as + length bs \<le> 65535"
  shows "checksum16 off (as @ bs) (of_nat (length as + length bs)) pre complement =
    checksum16 (off + of_nat (length as)) bs (of_nat (length bs))
      (ucast (checksum16 off as (of_nat (length as)) pre False)) complement"
proof -
  have u: "unat (of_nat n :: u16) = n" if "n \<le> 65535" for n
    using that by (simp add: unat_of_nat take_bit_nat_eq_self)
  show ?thesis
    using assms by (intro checksum16_append) (simp_all only: u)
qed

theorem checksum_split_witness:
  "checksum16 0 ([1, 2, 3] @ [4, 5]) 5 0 True = checksum16 (0 + 3) [4, 5] 2 (ucast (checksum16 0 [1, 2, 3] 3 0 False)) True"
  using checksum_split [of 0 "[1, 2, 3]" "[4, 5]" 0 True] by simp


section \<open>Lists and block allocators\<close>

text \<open>C3. Unlinking from a doubly linked list: if the header \<open>lo\<close> represents the nodes \<open>xs @ a # ys\<close>, then
  \<^verbatim>\<open>nlist_remove\<close> returns \<open>a\<close>, leaves a well-linked list \<open>xs @ ys\<close> and a node \<open>a\<close> with null links, and every
  other list \<open>lo2\<close> on other nodes of the same memory is still represented.\<close>

theorem nlist_remove_refines:
  assumes "nlist_abs h lo (xs @ a # ys)" and "nlist_abs h lo2 zs" and "set zs \<inter> set (xs @ a # ys) = {}"
    and "nlist_remove lo (Some a) h = (r, lo', h')"
  shows "r = Some a \<and> nlist_abs h' lo' (xs @ ys) \<and> nlist_node_next (Some a) h' = None \<and>
    nlist_node_pre (Some a) h' = None \<and> nlist_abs h' lo2 zs"
  using nlist_remove_abs [OF assms(1)] assms(2-4) nlist_abs_frame
  by (auto simp: nlist_node_next_def nlist_node_pre_def)

definition ex_heap :: nheap where
  "ex_heap = \<lparr>nx = (\<lambda>_. None)(1 := Some 2, 2 := Some 3), pr = (\<lambda>_. None)(2 := Some 1, 3 := Some 2)\<rparr>"

theorem nlist_remove_refines_witness:
  "fst (nlist_remove (Some \<lparr>nl_first = Some 1, nl_last = Some 3, nl_count = 3\<rparr>) (Some 2) ex_heap) = Some 2 \<and>
   nlist_abs (snd (snd (nlist_remove (Some \<lparr>nl_first = Some 1, nl_last = Some 3, nl_count = 3\<rparr>) (Some 2) ex_heap)))
     (fst (snd (nlist_remove (Some \<lparr>nl_first = Some 1, nl_last = Some 3, nl_count = 3\<rparr>) (Some 2) ex_heap))) [1, 3]"
proof -
  let ?l = "Some \<lparr>nl_first = Some 1, nl_last = Some 3, nl_count = 3\<rparr>"
  let ?l2 = "Some \<lparr>nl_first = Some 9, nl_last = Some 9, nl_count = 1\<rparr>"
  have "nlist_abs ex_heap ?l ([1] @ 2 # [3])" "nlist_abs ex_heap ?l2 [9]"
    by (simp_all add: ex_heap_def)
  from nlist_remove_refines [OF this, of "fst (nlist_remove ?l (Some 2) ex_heap)"
      "fst (snd (nlist_remove ?l (Some 2) ex_heap))" "snd (snd (nlist_remove ?l (Some 2) ex_heap))"]
  show ?thesis by (simp del: nlist_abs.simps)
qed


definition ex_mblock_state :: mblock_state where
  "ex_mblock_state = \<lparr>sem_pool = [], mtime = 0, wakes = [], vnet = virtio_net_zero, mb_heap = \<lparr>nx = (\<lambda>_. None), pr = (\<lambda>_. None)\<rparr>,
     mblocks = (\<lambda>_. \<lparr>mb_start = None, mb_free_list = \<lparr>nl_first = None, nl_last = None, nl_count = 0\<rparr>,
                     mb_alloc_sem = None, mb_locker_type = NLOCKER_NONE\<rparr>)\<rparr>"



section \<open>Queues\<close>

text \<open>C5. A message queue delivers in order and loses nothing: in any sequence of sends and receives that do
  not wait, the messages received, followed by those still in the queue, are the messages in the queue
  at the start followed by the accepted ones; the queue never holds more than its size.\<close>

theorem fixq_delivers_in_order:
  assumes "fixq_inv q s" and "queue_run (fixq_push q) (fixq_pop q) ops s = (s', accepted, received)"
  shows "received @ fixq_items q s' = fixq_items q s @ accepted \<and>
    length (fixq_items q s') \<le> fq_size (fixqs s q) \<and> fixq_inv q s'"
  using fq.fifo_run_order [OF assms] fq.fifo_run_gen [of q s ops "[]" "[]" s' accepted received "fixq_items q s"] assms
  by (simp add: queue_run_def)

definition ex_sem :: "int \<Rightarrow> net_sys_sem" where
  "ex_sem n = \<lparr>sem_count = n, sem_waiters = 0, sem_used = True\<rparr>"

definition ex_fixq_state :: fixq_state where
  "ex_fixq_state = \<lparr>sem_pool = ex_sem 2 # ex_sem 0 # replicate 66 \<lparr>sem_count = 0, sem_waiters = 0, sem_used = False\<rparr>,
     mtime = 0, wakes = [], vnet = virtio_net_zero,
     fixqs = (\<lambda>_. \<lparr>fq_size = 2, fq_buf = [0, 0], fq_in = 0, fq_out = 0, fq_count = 0, fq_send_sem = Some 0,
                   fq_recv_sem = Some 1, fq_locker_type = NLOCKER_THREAD\<rparr>)\<rparr>"

lemma ex_fixq_inv: "fixq_inv q ex_fixq_state"
  by (simp add: fixq_inv_def fixq_wf_def fixq_sems_def sem_inv_def sys_sem_valid_Some ex_fixq_state_def ex_sem_def
      NET_SYS_SEM_MAX_def INT_MAX_def)

theorem fixq_delivers_in_order_witness:
  "\<exists>s' accepted received. queue_run (fixq_push 7) (fixq_pop 7) [QPush 5, QPush 6, QPush 8, QPop] ex_fixq_state =
     (s', accepted, received) \<and> received @ fixq_items 7 s' = accepted \<and> length (fixq_items 7 s') \<le> 2"
proof -
  obtain s' accepted received where
    r: "queue_run (fixq_push 7) (fixq_pop 7) [QPush 5, QPush 6, QPush 8, QPop] ex_fixq_state = (s', accepted, received)"
    by (metis prod_cases3)
  have "fixq_items 7 ex_fixq_state = []" "fq_size (fixqs ex_fixq_state 7) = 2" by (simp_all add: ex_fixq_state_def)
  with fixq_delivers_in_order [OF ex_fixq_inv r] r show ?thesis by auto
qed

text \<open>C6. Concurrent senders and receivers: in every interleaving of the lock regions, from the initial state,
  a sender that has its unit of the send semaphore finds a free place in the ring, messages leave in
  the order in which they were stored, and a stored message with no thread on the way to it has a unit
  of the receive semaphore waiting, so a receiver that comes will not sleep.\<close>

theorem fixq_concurrent_safe:
  assumes "0 < sz" and "int sz \<le> INT_MAX" and "sz \<le> length buf" and "fq_step\<^sup>*\<^sup>* (fq_conf_init sz buf) c"
  shows "(0 < c_s1 c \<longrightarrow> fq_count (c_q c) < fq_size (c_q c)) \<and> fq_count (c_q c) \<le> fq_size (c_q c) \<and>
    c_sent c = c_got c @ fq_conf_items c \<and>
    (0 < fq_count (c_q c) \<and> c_s2 c = 0 \<and> c_r1 c = 0 \<longrightarrow> 0 < c_rt c)"
proof -
  have "fq_conf_inv c"
    using fq_steps_inv [OF assms(4)] fq_conf_init_inv [OF assms(1-3)] by blast
  then show ?thesis by (auto simp: fq_conf_inv_def)
qed

theorem fixq_concurrent_safe_witness:
  "\<exists>c. fq_step\<^sup>*\<^sup>* (fq_conf_init 2 [0, 0]) c \<and> 0 < c_s1 c \<and> fq_count (c_q c) < fq_size (c_q c)"
proof -
  define c0 where "c0 = fq_conf_init 2 [0, 0]"
  define c where "c = c0\<lparr>c_st := c_st c0 - 1, c_s1 := Suc (c_s1 c0)\<rparr>"
  have "0 < c_st c0" by (simp add: c0_def fq_conf_init_def)
  then have "fq_step c0 c" unfolding c_def by (rule fq_step.send_enter)
  then have st: "fq_step\<^sup>*\<^sup>* (fq_conf_init 2 [0, 0]) c" unfolding c0_def by (rule r_into_rtranclp)
  have "0 < c_s1 c" by (simp add: c_def)
  moreover have "0 < c_s1 c \<longrightarrow> fq_count (c_q c) < fq_size (c_q c)"
    using fixq_concurrent_safe [of 2 "[0, 0]" c] st by (simp add: INT_MAX_def)
  ultimately show ?thesis using st by blast
qed

text \<open>C7. The completion ring of the network driver is a queue of capacity eight: under any sequence of
  pushes and pops the slots leave in the order in which they were accepted, and the \<^verbatim>\<open>u16\<close> indices stay in range.\<close>

theorem net_completion_in_order:
  assumes "nc_inv r" and "queue_run nc_push nc_pop ops r = (r', accepted, popped)"
  shows "popped @ nc_items r' = nc_items r @ accepted \<and> length (nc_items r') \<le> NET_COMPLETION_CAPACITY \<and>
    unat (nc_write_index r') < NET_COMPLETION_CAPACITY \<and> unat (nc_read_index r') < NET_COMPLETION_CAPACITY"
proof -
  from nc.fifo_run_gen [of r ops "[]" "[]" r' accepted popped "nc_items r"] assms have "nc_inv r'"
    by (simp add: queue_run_def)
  moreover from this have "unat (nc_write_index r') < NET_COMPLETION_CAPACITY"
    by (simp add: nc_inv_def NET_COMPLETION_CAPACITY_def)
  ultimately show ?thesis
    using nc.fifo_run_order [OF assms] by (simp add: nc_inv_def)
qed

theorem net_completion_in_order_witness:
  "\<exists>r' accepted popped. queue_run nc_push nc_pop [QPush 3, QPush 4, QPop]
       \<lparr>nc_slots = replicate 8 0, nc_read_index = 7, nc_write_index = 7, nc_count = 0\<rparr> = (r', accepted, popped) \<and>
     popped @ nc_items r' = accepted"
proof -
  let ?r = "\<lparr>nc_slots = replicate 8 0, nc_read_index = 7, nc_write_index = 7, nc_count = 0\<rparr>"
  have inv: "nc_inv ?r" and nil: "nc_items ?r = []"
    by (simp_all add: nc_inv_def nc_items_def NET_COMPLETION_CAPACITY_def)
  obtain r' accepted popped where r: "queue_run nc_push nc_pop [QPush 3, QPush 4, QPop] ?r = (r', accepted, popped)"
    by (metis prod_cases3)
  from net_completion_in_order [OF inv r] r nil show ?thesis by auto
qed

end
