(* ===== verification/Timer.thy ===== *)
theory Timer
  imports Pktbuf
begin

text \<open>
  The timers of the network stack, \<^verbatim>\<open>kernel/src/net/timer.c\<close>. Scheduled timers are in a list ordered by the time
  at which they are due; a timer's \<^verbatim>\<open>curr\<close> is the time between it and its predecessor. A timer is named by
  its address. While \<^verbatim>\<open>net_timer_check_tmo\<close> runs the timers that have become due they are in a wait list on
  its stack; the wait lists of nested calls form the stack \<open>pending_timers\<close>.

  The function of a timer is code of its user: \<open>fire t s\<close> is the call \<^verbatim>\<open>timer->proc(timer, timer->arg)\<close>,
  a parameter of \<open>net_timer_check_tmo\<close>. Lists of timers are HOL lists (see \<open>Nlist\<close>).
\<close>

record net_timer =
  tm_name :: string
  tm_flags :: u32
  tm_curr :: int
  tm_reload :: int
  tm_proc :: nat
  tm_arg :: "nat option"

record timer_state = pkt_state +
  timer_list :: "nat list"
  pending_timers :: "nat list list"
  timers :: "nat \<Rightarrow> net_timer"

definition NET_TIMER_RELOAD :: u32 where "NET_TIMER_RELOAD = 1"

definition TIMER_NAME_SIZE :: nat where "TIMER_NAME_SIZE = 32"


section \<open>The operations\<close>

definition set_curr :: "nat \<Rightarrow> int \<Rightarrow> (nat \<Rightarrow> net_timer) \<Rightarrow> nat \<Rightarrow> net_timer" where
  "set_curr t v tms = tms(t := (tms t)\<lparr>tm_curr := v\<rparr>)"

definition timer_is_scheduled :: "nat \<Rightarrow> 'a timer_state_scheme \<Rightarrow> bool" where
  "timer_is_scheduled t s \<longleftrightarrow> t \<in> set (timer_list s) \<or> (\<exists>l\<in>set (pending_timers s). t \<in> set l)"

definition timer_name_copy :: "string \<Rightarrow> string" where
  "timer_name_copy src = take (TIMER_NAME_SIZE - 1) src"

text \<open>The walk of \<^verbatim>\<open>insert_timer\<close> along the rest of the list.\<close>

fun insert_timer_loop :: "nat \<Rightarrow> nat list \<Rightarrow> (nat \<Rightarrow> net_timer) \<Rightarrow> nat list \<times> (nat \<Rightarrow> net_timer)" where
  "insert_timer_loop t [] tms = ([t], tms)"
| "insert_timer_loop t (c # cs) tms =
     (if tm_curr (tms t) > tm_curr (tms c) then
        let (cs', tms') = insert_timer_loop t cs (set_curr t (tm_curr (tms t) - tm_curr (tms c)) tms)
        in (c # cs', tms')
      else if tm_curr (tms t) = tm_curr (tms c) then (c # t # cs, set_curr t 0 tms)
      else (t # c # cs, set_curr c (tm_curr (tms c) - tm_curr (tms t)) tms))"

definition insert_timer :: "nat \<Rightarrow> 'a timer_state_scheme \<Rightarrow> 'a timer_state_scheme" where
  "insert_timer t s =
     (let (l, tms) = insert_timer_loop t (timer_list s) (timers s)
      in s\<lparr>timer_list := l, timers := tms\<rparr>)"

definition net_timer_init :: "'a timer_state_scheme \<Rightarrow> net_err \<times> 'a timer_state_scheme" where
  "net_timer_init s = (NET_ERR_OK, s\<lparr>timer_list := [], pending_timers := []\<rparr>)"

definition net_timer_add ::
  "nat option \<Rightarrow> string option \<Rightarrow> nat option \<Rightarrow> nat option \<Rightarrow> int \<Rightarrow> u32 \<Rightarrow> 'a timer_state_scheme
   \<Rightarrow> net_err \<times> 'a timer_state_scheme" where
  "net_timer_add timer name proc arg ms flags s =
     (case (timer, name, proc) of
        (Some t, Some nm, Some f) \<Rightarrow>
          if ms \<le> 0 then (NET_ERR_PARAM, s)
          else if timer_is_scheduled t s then (NET_ERR_EXIST, s)
          else
            let s = s\<lparr>timers := (timers s)(t := \<lparr>tm_name = timer_name_copy nm, tm_flags = flags, tm_curr = ms,
                                               tm_reload = ms, tm_proc = f, tm_arg = arg\<rparr>)\<rparr>
            in (NET_ERR_OK, insert_timer t s)
      | _ \<Rightarrow> (NET_ERR_PARAM, s))"

fun remove_timer_loop :: "nat \<Rightarrow> nat list \<Rightarrow> (nat \<Rightarrow> net_timer) \<Rightarrow> nat list \<times> (nat \<Rightarrow> net_timer)" where
  "remove_timer_loop t [] tms = ([], tms)"
| "remove_timer_loop t (c # cs) tms =
     (if c = t then
        (cs, case cs of [] \<Rightarrow> tms | n # _ \<Rightarrow> set_curr n (tm_curr (tms n) + tm_curr (tms c)) tms)
      else let (cs', tms') = remove_timer_loop t cs tms in (c # cs', tms'))"

definition net_timer_remove :: "nat option \<Rightarrow> 'a timer_state_scheme \<Rightarrow> 'a timer_state_scheme" where
  "net_timer_remove timer s =
     (case timer of
        None \<Rightarrow> s
      | Some t \<Rightarrow>
          let (l, tms) = remove_timer_loop t (timer_list s) (timers s)
          in s\<lparr>timer_list := l, timers := tms\<rparr>)"

text \<open>The first inner loop of \<^verbatim>\<open>net_timer_check_tmo\<close> moves the timers at the front with no time left to the wait
  list.\<close>

fun collect_due :: "nat list \<Rightarrow> (nat \<Rightarrow> net_timer) \<Rightarrow> nat list \<times> nat list" where
  "collect_due [] tms = ([], [])"
| "collect_due (t # ts) tms =
     (if tm_curr (tms t) \<noteq> 0 then ([], t # ts)
      else let (due, rest) = collect_due ts tms in (t # due, rest))"

text \<open>The second inner loop runs the timers of the wait list, the top of \<open>pending_timers\<close>.\<close>

partial_function (option) run_due ::
  "(nat \<Rightarrow> 'a timer_state_scheme \<Rightarrow> 'a timer_state_scheme option) \<Rightarrow> 'a timer_state_scheme
   \<Rightarrow> 'a timer_state_scheme option" where
  "run_due fire s =
     (case pending_timers s of
        [] \<Rightarrow> Some s
      | wait # prev \<Rightarrow>
          (case wait of
             [] \<Rightarrow> Some s
           | t # rest \<Rightarrow> do {
               s \<leftarrow> fire t (s\<lparr>pending_timers := rest # prev\<rparr>);
               let s = (if tm_flags (timers s t) AND NET_TIMER_RELOAD \<noteq> 0 \<and> \<not> timer_is_scheduled t s
                        then insert_timer t (s\<lparr>timers := set_curr t (tm_reload (timers s t)) (timers s)\<rparr>)
                        else s);
               run_due fire s
             }))"

partial_function (option) check_tmo_loop ::
  "(nat \<Rightarrow> 'a timer_state_scheme \<Rightarrow> 'a timer_state_scheme option) \<Rightarrow> int \<Rightarrow> 'a timer_state_scheme
   \<Rightarrow> 'a timer_state_scheme option" where
  "check_tmo_loop fire diff_ms s =
     (case timer_list s of
        [] \<Rightarrow> Some s
      | first # ts \<Rightarrow>
          if diff_ms = 0 \<and> tm_curr (timers s first) \<noteq> 0 then Some s
          else if tm_curr (timers s first) > diff_ms then
            Some (s\<lparr>timers := set_curr first (tm_curr (timers s first) - diff_ms) (timers s)\<rparr>)
          else
            let diff_ms = diff_ms - tm_curr (timers s first);
                s = s\<lparr>timers := set_curr first 0 (timers s)\<rparr>;
                (due, rest) = collect_due (timer_list s) (timers s);
                s = s\<lparr>timer_list := rest,
                      pending_timers := (hd (pending_timers s) @ due) # tl (pending_timers s)\<rparr>
            in do {
              s \<leftarrow> run_due fire s;
              check_tmo_loop fire diff_ms s
            })"

definition net_timer_check_tmo ::
  "(nat \<Rightarrow> 'a timer_state_scheme \<Rightarrow> 'a timer_state_scheme option) \<Rightarrow> int \<Rightarrow> 'a timer_state_scheme
   \<Rightarrow> (net_err \<times> 'a timer_state_scheme) option" where
  "net_timer_check_tmo fire diff_ms s =
     (if diff_ms < 0 then Some (NET_ERR_PARAM, s)
      else do {
        let previous = pending_timers s;
        s \<leftarrow> check_tmo_loop fire diff_ms (s\<lparr>pending_timers := [] # previous\<rparr>);
        Some (NET_ERR_OK, s\<lparr>pending_timers := previous\<rparr>)
      })"

definition net_timer_first_tmo :: "'a timer_state_scheme \<Rightarrow> int" where
  "net_timer_first_tmo s = (case timer_list s of [] \<Rightarrow> 0 | t # _ \<Rightarrow> tm_curr (timers s t))"


section \<open>The agenda: scheduled timers with the time they have left\<close>

type_synonym agenda = "(int \<times> nat) list"

fun agenda :: "int \<Rightarrow> nat list \<Rightarrow> (nat \<Rightarrow> net_timer) \<Rightarrow> agenda" where
  "agenda base [] tms = []"
| "agenda base (c # cs) tms = (base + tm_curr (tms c), c) # agenda (base + tm_curr (tms c)) cs tms"

text \<open>Where a timer due at time \<open>v\<close> goes: behind the timers due earlier, and directly behind the first timer due at
  the same time if there is one.\<close>

fun ins :: "int \<Rightarrow> nat \<Rightarrow> agenda \<Rightarrow> agenda" where
  "ins v t [] = [(v, t)]"
| "ins v t ((u, c) # xs) =
     (if v > u then (u, c) # ins v t xs
      else if v = u then (u, c) # (v, t) # xs else (v, t) # (u, c) # xs)"

definition later :: "int \<Rightarrow> agenda \<Rightarrow> agenda" where
  "later d A = map (\<lambda>(v, t). (v + d, t)) A"

lemma later_simps [simp]:
  "later d [] = []" "later d ((v, t) # A) = (v + d, t) # later d A" "later d (A @ B) = later d A @ later d B"
  "later 0 A = A" "later d (later e A) = later (e + d) A"
  by (auto simp: later_def)

lemma set_curr_simps [simp]:
  "tm_curr (set_curr t v tms u) = (if u = t then v else tm_curr (tms u))"
  "tm_reload (set_curr t v tms u) = tm_reload (tms u)" "tm_flags (set_curr t v tms u) = tm_flags (tms u)"
  by (simp_all add: set_curr_def)

lemma agenda_cong: "(\<And>c. c \<in> set l \<Longrightarrow> tm_curr (tms c) = tm_curr (tms' c)) \<Longrightarrow> agenda b l tms = agenda b l tms'"
  by (induction l arbitrary: b) auto

lemma agenda_set_curr [simp]: "c \<notin> set l \<Longrightarrow> agenda b l (set_curr c v tms) = agenda b l tms"
  by (rule agenda_cong) auto

lemma agenda_later: "agenda (b + d) l tms = later d (agenda b l tms)"
proof (induction l arbitrary: b)
  case (Cons c l)
  have "b + d + tm_curr (tms c) = b + tm_curr (tms c) + d" by simp
  then show ?case by (simp only: agenda.simps later_simps Cons)
qed simp

lemma map_snd_agenda [simp]: "map snd (agenda b l tms) = l"
  by (induction l arbitrary: b) auto

lemma ins_later: "ins (v + d) t (later d A) = later d (ins v t A)"
  by (induction v t A rule: ins.induct) auto

lemma set_ins [simp]: "set (ins v t A) = insert (v, t) (set A)"
  by (induction v t A rule: ins.induct) auto

lemma sorted_ins: "sorted (map fst A) \<Longrightarrow> sorted (map fst (ins v t A))"
  by (induction v t A rule: ins.induct) fastforce+

text \<open>Inserting and removing a timer, as operations on the agenda.\<close>

lemma insert_timer_loop_frame:
  assumes "insert_timer_loop t l tms = (l', tms')" and "t \<notin> set l" and "distinct l"
  shows "set l' = insert t (set l) \<and> distinct l' \<and> (\<forall>c. c \<notin> insert t (set l) \<longrightarrow> tms' c = tms c) \<and>
    (\<forall>c. tm_reload (tms' c) = tm_reload (tms c) \<and> tm_flags (tms' c) = tm_flags (tms c))"
  using assms
proof (induction t l tms arbitrary: l' tms' rule: insert_timer_loop.induct)
  case (2 t c cs tms)
  show ?case
  proof (cases "tm_curr (tms t) > tm_curr (tms c)")
    case True
    obtain cs' tms1 where r: "insert_timer_loop t cs (set_curr t (tm_curr (tms t) - tm_curr (tms c)) tms) = (cs', tms1)"
      by (metis surj_pair)
    from 2(1) [OF True r] 2(2-4) True r show ?thesis by (auto simp: set_curr_def)
  next
    case False
    with 2(2-4) show ?thesis by (auto simp: set_curr_def split: if_splits)
  qed
qed auto

lemma insert_timer_loop_agenda:
  assumes "insert_timer_loop t l tms = (l', tms')" and "t \<notin> set l" and "distinct l"
  shows "agenda b l' tms' = ins (b + tm_curr (tms t)) t (agenda b l tms)"
  using assms
proof (induction t l tms arbitrary: b l' tms' rule: insert_timer_loop.induct)
  case (2 t c cs tms)
  show ?case
  proof (cases "tm_curr (tms t) > tm_curr (tms c)")
    case True
    let ?tms = "set_curr t (tm_curr (tms t) - tm_curr (tms c)) tms"
    obtain cs' tms1 where r: "insert_timer_loop t cs ?tms = (cs', tms1)" by (metis surj_pair)
    from 2(2) True r have l': "l' = c # cs'" "tms' = tms1" by simp_all
    have "tms1 c = tms c"
      using insert_timer_loop_frame [OF r] 2(3,4) by (auto simp: set_curr_def)
    with 2(1) [OF True r, of "b + tm_curr (tms c)"] 2(3,4) l' True show ?thesis by simp
  next
    case False
    with 2(2-4) show ?thesis by (auto split: if_splits)
  qed
qed auto

lemma remove_timer_loop_frame:
  assumes "remove_timer_loop t l tms = (l', tms')"
  shows "l' = remove1 t l \<and> (\<forall>c. c \<notin> set l' \<longrightarrow> tms' c = tms c) \<and>
    (\<forall>c. tm_reload (tms' c) = tm_reload (tms c) \<and> tm_flags (tms' c) = tm_flags (tms c))"
  using assms
proof (induction t l tms arbitrary: l' tms' rule: remove_timer_loop.induct)
  case (2 t c cs tms)
  show ?case
  proof (cases "c = t")
    case True
    with 2(2) show ?thesis by (cases cs) (auto simp: set_curr_def)
  next
    case False
    obtain cs' tms1 where r: "remove_timer_loop t cs tms = (cs', tms1)" by (metis surj_pair)
    from 2(2) False r have "l' = c # cs'" "tms' = tms1" by simp_all
    with 2(1) [OF False r] False show ?thesis by simp
  qed
qed auto

lemma agenda_filter: "t \<notin> set l \<Longrightarrow> filter (\<lambda>(v, c). c \<noteq> t) (agenda b l tms) = agenda b l tms"
  by (induction l arbitrary: b) auto

lemma remove_timer_loop_agenda:
  assumes "remove_timer_loop t l tms = (l', tms')" and "distinct l"
  shows "agenda b l' tms' = filter (\<lambda>(v, c). c \<noteq> t) (agenda b l tms)"
  using assms
proof (induction t l tms arbitrary: b l' tms' rule: remove_timer_loop.induct)
  case (2 t c cs tms)
  show ?case
  proof (cases "c = t")
    case True
    with 2(2,3) show ?thesis
      by (cases cs) (auto simp: agenda_filter algebra_simps)
  next
    case False
    obtain cs' tms1 where r: "remove_timer_loop t cs tms = (cs', tms1)" by (metis surj_pair)
    from 2(2,3) False r remove_timer_loop_frame [OF r] have "l' = c # cs'" "tms' = tms1" "tms1 c = tms c"
      by auto
    with 2(1) [OF False r] 2(3) False show ?thesis by simp
  qed
qed auto


section \<open>Invariant\<close>

text \<open>No scheduled timer has a negative distance to its predecessor, and between calls the first one has time left.\<close>

definition pos_list :: "nat list \<Rightarrow> (nat \<Rightarrow> net_timer) \<Rightarrow> bool" where
  "pos_list l tms \<longleftrightarrow> (\<forall>c\<in>set l. 0 \<le> tm_curr (tms c)) \<and> (l \<noteq> [] \<longrightarrow> 0 < tm_curr (tms (hd l)))"

definition periodic :: "net_timer \<Rightarrow> bool" where
  "periodic tm \<longleftrightarrow> tm_flags tm AND NET_TIMER_RELOAD \<noteq> 0"

definition timer_wf :: "'a timer_state_scheme \<Rightarrow> bool" where
  "timer_wf s \<longleftrightarrow> distinct (timer_list s @ concat (pending_timers s)) \<and> pos_list (timer_list s) (timers s) \<and>
     (\<forall>c. periodic (timers s c) \<longrightarrow> 0 < tm_reload (timers s c))"

lemma periodic_set_curr [simp]: "periodic (set_curr t v tms c) = periodic (tms c)"
  by (simp add: periodic_def)

lemma insert_timer_loop_nonneg:
  assumes "insert_timer_loop t l tms = (l', tms')" and "t \<notin> set l" and "distinct l"
    and "\<forall>c\<in>set l. 0 \<le> tm_curr (tms c)" and "0 < tm_curr (tms t)"
  shows "\<forall>c\<in>set l'. 0 \<le> tm_curr (tms' c)"
  using assms
proof (induction t l tms arbitrary: l' tms' rule: insert_timer_loop.induct)
  case (2 t c cs tms)
  show ?case
  proof (cases "tm_curr (tms t) > tm_curr (tms c)")
    case True
    obtain cs' tms1 where r: "insert_timer_loop t cs (set_curr t (tm_curr (tms t) - tm_curr (tms c)) tms) = (cs', tms1)"
      by (metis surj_pair)
    from 2(2) True r have l': "l' = c # cs'" "tms' = tms1" by simp_all
    have "tms1 c = tms c"
      using insert_timer_loop_frame [OF r] 2(3,4) by (auto simp: set_curr_def)
    moreover have "\<forall>c\<in>set cs'. 0 \<le> tm_curr (tms1 c)"
      using 2(1) [OF True r] 2(3-6) True by auto
    ultimately show ?thesis using l' 2(5) by simp
  next
    case False
    with 2(2-6) show ?thesis by (auto split: if_splits)
  qed
qed auto

lemma insert_timer_loop_pos:
  assumes "insert_timer_loop t l tms = (l', tms')" and "t \<notin> set l" and "distinct l" and "pos_list l tms" and "0 < tm_curr (tms t)"
  shows "pos_list l' tms'"
proof -
  have "0 < tm_curr (tms' (hd l'))"
  proof (cases l)
    case Nil
    with assms(1,5) show ?thesis by auto
  next
    case (Cons c cs)
    obtain cs' tms1 where r: "insert_timer_loop t cs (set_curr t (tm_curr (tms t) - tm_curr (tms c)) tms) = (cs', tms1)"
      by (metis surj_pair)
    have "tms1 c = tms c"
      using insert_timer_loop_frame [OF r] assms(2,3) Cons by (auto simp: set_curr_def)
    with r assms Cons show ?thesis by (auto simp: pos_list_def split: if_splits)
  qed
  with insert_timer_loop_nonneg [OF assms(1-3) _ assms(5)] assms(4) show ?thesis
    by (simp add: pos_list_def)
qed

lemma insert_timer_wf:
  assumes "timer_wf s" and "\<not> timer_is_scheduled t s" and "0 < tm_curr (timers s t)"
  shows "timer_wf (insert_timer t s)" and "pending_timers (insert_timer t s) = pending_timers s"
    and "agenda 0 (timer_list (insert_timer t s)) (timers (insert_timer t s)) =
      ins (tm_curr (timers s t)) t (agenda 0 (timer_list s) (timers s))"
    and "tm_reload (timers (insert_timer t s) c) = tm_reload (timers s c)"
    and "periodic (timers (insert_timer t s) c) = periodic (timers s c)"
proof -
  obtain l tms where r: "insert_timer_loop t (timer_list s) (timers s) = (l, tms)" by (metis surj_pair)
  have s': "insert_timer t s = s\<lparr>timer_list := l, timers := tms\<rparr>" by (simp add: insert_timer_def r)
  from assms(1,2) have t: "t \<notin> set (timer_list s)" "distinct (timer_list s)" "pos_list (timer_list s) (timers s)"
    by (auto simp: timer_wf_def timer_is_scheduled_def)
  note fr = insert_timer_loop_frame [OF r t(1,2)]
  show "pending_timers (insert_timer t s) = pending_timers s" by (simp add: s')
  show "agenda 0 (timer_list (insert_timer t s)) (timers (insert_timer t s)) =
      ins (tm_curr (timers s t)) t (agenda 0 (timer_list s) (timers s))"
    using insert_timer_loop_agenda [OF r t(1,2), of 0] by (simp add: s')
  show p: "periodic (timers (insert_timer t s) c) = periodic (timers s c)"
    "tm_reload (timers (insert_timer t s) c) = tm_reload (timers s c)" for c
    using fr by (simp_all add: s' periodic_def)
  have "\<forall>c. periodic (tms c) \<longrightarrow> 0 < tm_reload (tms c)"
    using p assms(1) by (auto simp: s' timer_wf_def)
  with insert_timer_loop_pos [OF r t assms(3)] fr assms(1,2) show "timer_wf (insert_timer t s)"
    by (auto simp: timer_wf_def s' timer_is_scheduled_def)
qed

lemma timer_wf_cong:
  "timer_list s = timer_list s' \<Longrightarrow> timers s = timers s' \<Longrightarrow> pending_timers s = pending_timers s' \<Longrightarrow> timer_wf s = timer_wf s'"
  by (simp add: timer_wf_def)

lemma collect_due_spec:
  assumes "collect_due l tms = (due, rest)"
  shows "l = due @ rest" and "\<forall>c\<in>set due. tm_curr (tms c) = 0" and "rest \<noteq> [] \<Longrightarrow> tm_curr (tms (hd rest)) \<noteq> 0"
proof -
  have "l = due @ rest \<and> (\<forall>c\<in>set due. tm_curr (tms c) = 0) \<and> (rest \<noteq> [] \<longrightarrow> tm_curr (tms (hd rest)) \<noteq> 0)"
    using assms
  proof (induction l tms arbitrary: due rest rule: collect_due.induct)
    case (2 t ts tms)
    then show ?case by (cases "collect_due ts tms") (auto split: if_splits)
  qed auto
  then show "l = due @ rest" "\<forall>c\<in>set due. tm_curr (tms c) = 0" "rest \<noteq> [] \<Longrightarrow> tm_curr (tms (hd rest)) \<noteq> 0" by blast+
qed


section \<open>Running the timers returns\<close>

text \<open>The contract of timer functions: they may add and remove timers and run nested checks, but leave the
  wait lists of the calls they were called from alone and keep the invariant.\<close>

definition fire_ok :: "(nat \<Rightarrow> 'a timer_state_scheme \<Rightarrow> 'a timer_state_scheme option) \<Rightarrow> bool" where
  "fire_ok fire \<longleftrightarrow> (\<forall>t s. timer_wf s \<longrightarrow>
     (\<exists>s'. fire t s = Some s' \<and> timer_wf s' \<and> pending_timers s' = pending_timers s))"

text \<open>What happens to a timer after its function has run.\<close>

definition rearm :: "nat \<Rightarrow> 'a timer_state_scheme \<Rightarrow> 'a timer_state_scheme" where
  "rearm t s = (if tm_flags (timers s t) AND NET_TIMER_RELOAD \<noteq> 0 \<and> \<not> timer_is_scheduled t s
                then insert_timer t (s\<lparr>timers := set_curr t (tm_reload (timers s t)) (timers s)\<rparr>)
                else s)"

lemma rearm_wf:
  assumes "timer_wf s"
  shows "timer_wf (rearm t s) \<and> pending_timers (rearm t s) = pending_timers s"
proof (cases "periodic (timers s t) \<and> \<not> timer_is_scheduled t s")
  case True
  let ?s = "s\<lparr>timers := set_curr t (tm_reload (timers s t)) (timers s)\<rparr>"
  from True have nt: "t \<notin> set (timer_list s)" by (simp add: timer_is_scheduled_def)
  have "pos_list (timer_list s) (timers ?s)"
    using assms nt by (auto simp: timer_wf_def pos_list_def)
  then have "timer_wf ?s" using assms by (simp add: timer_wf_def)
  moreover have "\<not> timer_is_scheduled t ?s" using True by (simp add: timer_is_scheduled_def)
  moreover have "0 < tm_curr (timers ?s t)" using True assms by (simp add: timer_wf_def)
  ultimately show ?thesis
    using True insert_timer_wf(1,2) [of ?s t] by (simp add: rearm_def periodic_def)
next
  case False
  with assms show ?thesis by (auto simp: rearm_def periodic_def)
qed

lemma run_due_Nil: "pending_timers s = [] # prev \<Longrightarrow> run_due fire s = Some s"
  by (subst run_due.simps) simp

lemma run_due_Cons:
  "pending_timers s = (t # rest) # prev \<Longrightarrow>
   run_due fire s = do { s \<leftarrow> fire t (s\<lparr>pending_timers := rest # prev\<rparr>); run_due fire (rearm t s) }"
  by (subst run_due.simps) (simp add: rearm_def Let_def)

lemma run_due_returns:
  assumes "fire_ok fire" and "timer_wf s" and "pending_timers s = w # prev"
  shows "\<exists>s'. run_due fire s = Some s' \<and> timer_wf s' \<and> pending_timers s' = [] # prev"
  using assms(2,3)
proof (induction w arbitrary: s)
  case Nil
  then show ?case by (auto simp: run_due_Nil)
next
  case (Cons t w)
  let ?s = "s\<lparr>pending_timers := w # prev\<rparr>"
  have "timer_wf ?s" using Cons.prems by (auto simp: timer_wf_def)
  with assms(1) obtain s1 where s1: "fire t ?s = Some s1" "timer_wf s1" "pending_timers s1 = w # prev"
    unfolding fire_ok_def by fastforce
  from rearm_wf [OF s1(2), of t] s1(3) Cons.IH [of "rearm t s1"] show ?case
    by (auto simp: run_due_Cons [OF Cons.prems(2)] s1(1))
qed

lemma pos_list_rest:
  assumes "pos_list (c # cs) tms" and "collect_due (c # cs) (set_curr c 0 tms) = (due, rest)" and "distinct (c # cs)"
  shows "pos_list rest (set_curr c 0 tms)"
proof -
  note d = collect_due_spec [OF assms(2)]
  have "0 \<le> tm_curr (set_curr c 0 tms x)" if "x \<in> set rest" for x
    using that assms(1) d(1) by (simp add: pos_list_def) 
  moreover from this have "0 < tm_curr (set_curr c 0 tms (hd rest))" if "rest \<noteq> []"
    using that d(3) [OF that] by (metis hd_in_set le_less)
  ultimately show ?thesis by (simp add: pos_list_def)
qed

lemma check_tmo_loop_stop:
  "timer_list s = [] \<Longrightarrow> check_tmo_loop fire d s = Some s"
  "timer_list s = c # cs \<Longrightarrow> d < tm_curr (timers s c) \<Longrightarrow>
   check_tmo_loop fire d s = Some (if d = 0 then s else s\<lparr>timers := set_curr c (tm_curr (timers s c) - d) (timers s)\<rparr>)"
  by (subst check_tmo_loop.simps, simp)+

lemma check_tmo_loop_step:
  assumes "timer_list s = c # cs" and "0 < tm_curr (timers s c)" and "tm_curr (timers s c) \<le> d"
    and "pending_timers s = [] # prev" and "collect_due (c # cs) (set_curr c 0 (timers s)) = (due, rest)"
  shows "check_tmo_loop fire d s = do {
      s' \<leftarrow> run_due fire (s\<lparr>timers := set_curr c 0 (timers s), timer_list := rest, pending_timers := due # prev\<rparr>);
      check_tmo_loop fire (d - tm_curr (timers s c)) s' }"
  using assms by (subst check_tmo_loop.simps) (simp add: Let_def)

lemma due_wf:
  assumes "timer_wf s" and "timer_list s = c # cs" and "pending_timers s = [] # prev"
    and "collect_due (c # cs) (set_curr c 0 (timers s)) = (due, rest)"
  shows "timer_wf (s\<lparr>timers := set_curr c 0 (timers s), timer_list := rest, pending_timers := due # prev\<rparr>)"
proof -
  have "pos_list rest (set_curr c 0 (timers s))"
    using assms by (intro pos_list_rest) (auto simp: timer_wf_def)
  moreover have "distinct ((due @ rest) @ concat prev)"
    using assms(1-3) by (auto simp: timer_wf_def simp flip: collect_due_spec(1) [OF assms(4)])
  ultimately show ?thesis using assms(1) by (auto simp: timer_wf_def)
qed

lemma check_tmo_loop_returns:
  assumes "fire_ok fire" and "timer_wf s" and "pending_timers s = [] # prev" and "0 \<le> d"
  shows "\<exists>s'. check_tmo_loop fire d s = Some s' \<and> timer_wf s' \<and> pending_timers s' = [] # prev"
  using assms(2-4)
proof (induction "nat d" arbitrary: d s rule: less_induct)
  case less
  show ?case
  proof (cases "timer_list s")
    case Nil
    with less.prems show ?thesis by (simp add: check_tmo_loop_stop)
  next
    case (Cons c cs)
    with less.prems have pos: "0 < tm_curr (timers s c)" by (simp add: timer_wf_def pos_list_def)
    show ?thesis
    proof (cases "d < tm_curr (timers s c)")
      case True
      have "timer_wf (s\<lparr>timers := set_curr c (tm_curr (timers s c) - d) (timers s)\<rparr>)"
        using less.prems Cons True by (auto simp: timer_wf_def pos_list_def)
      with less.prems Cons True show ?thesis by (simp add: check_tmo_loop_stop)
    next
      case False
      obtain due rest where cd: "collect_due (c # cs) (set_curr c 0 (timers s)) = (due, rest)" by (metis surj_pair)
      let ?s = "s\<lparr>timers := set_curr c 0 (timers s), timer_list := rest, pending_timers := due # prev\<rparr>"
      from run_due_returns [OF assms(1) due_wf [OF less.prems(1) Cons less.prems(2) cd], of due prev]
      obtain s1 where s1: "run_due fire ?s = Some s1" "timer_wf s1" "pending_timers s1 = [] # prev" by auto
      have "nat (d - tm_curr (timers s c)) < nat d" "0 \<le> d - tm_curr (timers s c)" using pos False by auto
      from less.hyps [OF this(1) s1(2,3) this(2)] show ?thesis
        using check_tmo_loop_step [OF Cons pos _ less.prems(2) cd, of d fire] False s1(1) by simp
    qed
  qed
qed

lemma check_tmo_returns:
  assumes "fire_ok fire" and "timer_wf s" and "0 \<le> d"
  shows "\<exists>s'. net_timer_check_tmo fire d s = Some (NET_ERR_OK, s') \<and> timer_wf s' \<and> pending_timers s' = pending_timers s"
proof -
  have "timer_wf (s\<lparr>pending_timers := [] # pending_timers s\<rparr>)" using assms(2) by (simp add: timer_wf_def)
  from check_tmo_loop_returns [OF assms(1) this _ assms(3), of "pending_timers s"]
  obtain s' where s': "check_tmo_loop fire d (s\<lparr>pending_timers := [] # pending_timers s\<rparr>) = Some s'"
    "timer_wf s'" "pending_timers s' = [] # pending_timers s" by auto
  then have "timer_wf (s'\<lparr>pending_timers := pending_timers s\<rparr>)" by (simp add: timer_wf_def)
  with s' assms(3) show ?thesis by (simp add: net_timer_check_tmo_def)
qed


section \<open>Which timers run, and when they run next\<close>

text \<open>The specification of letting \<open>d\<close> milliseconds pass: the timers of an agenda run one by one in the order of their
  times; a periodic one goes back into the agenda one period after the time it was due, whenever it actually ran.\<close>

inductive adv :: "(nat \<Rightarrow> int option) \<Rightarrow> int \<Rightarrow> agenda \<Rightarrow> nat list \<Rightarrow> agenda \<Rightarrow> bool" for per where
  adv_stop: "\<forall>(v, t)\<in>set A. d < v \<Longrightarrow> adv per d A [] (later (- d) A)"
| adv_fire: "v \<le> d \<Longrightarrow> adv per d (case per t of None \<Rightarrow> A | Some r \<Rightarrow> ins (v + r) t A) F A' \<Longrightarrow>
             adv per d ((v, t) # A) (t # F) A'"

definition period :: "'a timer_state_scheme \<Rightarrow> nat \<Rightarrow> int option" where
  "period s t = (if periodic (timers s t) then Some (tm_reload (timers s t)) else None)"

definition schedule :: "'a timer_state_scheme \<Rightarrow> agenda" where
  "schedule s = agenda 0 (timer_list s) (timers s)"

text \<open>Timer functions that leave the timers alone, with \<open>log\<close> showing which have run.\<close>

definition quiet :: "(nat \<Rightarrow> 'a timer_state_scheme \<Rightarrow> 'a timer_state_scheme option) \<Rightarrow> ('a timer_state_scheme \<Rightarrow> nat list) \<Rightarrow> bool" where
  "quiet fire log \<longleftrightarrow>
     (\<forall>t s. \<exists>s'. fire t s = Some s' \<and> timer_list s' = timer_list s \<and> timers s' = timers s \<and>
        pending_timers s' = pending_timers s \<and> log s' = log s @ [t]) \<and>
     (\<forall>s f. log (timer_list_update f s) = log s) \<and> (\<forall>s f. log (timers_update f s) = log s) \<and>
     (\<forall>s f. log (pending_timers_update f s) = log s)"

lemma quiet_log:
  "quiet fire log \<Longrightarrow> log (timer_list_update f s) = log s"
  "quiet fire log \<Longrightarrow> log (timers_update f' s) = log s"
  "quiet fire log \<Longrightarrow> log (pending_timers_update f'' s) = log s"
  by (simp_all add: quiet_def)

lemma quietE:
  assumes "quiet fire log"
  obtains s' where "fire t s = Some s'" "timer_list s' = timer_list s" "timers s' = timers s"
    "pending_timers s' = pending_timers s" "log s' = log s @ [t]"
  using assms unfolding quiet_def by blast

lemma quiet_fire_ok: "quiet fire log \<Longrightarrow> fire_ok fire"
  unfolding fire_ok_def by (metis quietE timer_wf_cong)

lemma rearm_log: "quiet fire log \<Longrightarrow> log (rearm t s) = log s"
  by (simp add: rearm_def insert_timer_def quiet_log split: prod.split)

lemma rearm_schedule:
  assumes "timer_wf s" and "\<not> timer_is_scheduled t s"
  shows "schedule (rearm t s) = (case period s t of None \<Rightarrow> schedule s | Some r \<Rightarrow> ins r t (schedule s))"
    and "period (rearm t s) = period s"
proof -
  let ?s = "s\<lparr>timers := set_curr t (tm_reload (timers s t)) (timers s)\<rparr>"
  from assms(2) have nt: "t \<notin> set (timer_list s)" by (simp add: timer_is_scheduled_def)
  have "pos_list (timer_list s) (timers ?s)"
    using assms nt by (auto simp: timer_wf_def pos_list_def)
  then have wf: "timer_wf ?s" using assms by (simp add: timer_wf_def)
  have ns: "\<not> timer_is_scheduled t ?s" using assms by (simp add: timer_is_scheduled_def)
  have r: "rearm t s = (if periodic (timers s t) then insert_timer t ?s else s)"
    using assms(2) by (simp add: rearm_def periodic_def)
  have pos: "0 < tm_curr (timers ?s t)" if "periodic (timers s t)" using that assms by (simp add: timer_wf_def)
  show "schedule (rearm t s) = (case period s t of None \<Rightarrow> schedule s | Some r \<Rightarrow> ins r t (schedule s))"
    using insert_timer_wf(3) [OF wf ns] pos nt by (simp add: r period_def schedule_def)
  show "period (rearm t s) = period s"
    using insert_timer_wf(4,5) [OF wf ns] pos by (auto simp: r period_def fun_eq_iff)
qed

lemma ins_behind: "0 < r \<Longrightarrow> ins (r + v) t (map (Pair v) w @ A) = map (Pair v) w @ ins (r + v) t A"
  by (induction w) auto

lemma adv_later: "adv per d A F A' \<Longrightarrow> adv per (d + v) (later v A) F A'"
proof (induction rule: adv.induct)
  case (adv_stop A d)
  have "later (- (d + v)) (later v A) = later (- d) A" by simp
  moreover have "\<forall>(u, t)\<in>set (later v A). d + v < u" using adv_stop by (auto simp: later_def)
  ultimately show ?case using adv.adv_stop [of "later v A" "d + v" per] by simp
next
  case (adv_fire u d t A F A')
  have "later v (case per t of None \<Rightarrow> A | Some r \<Rightarrow> ins (u + r) t A) =
      (case per t of None \<Rightarrow> later v A | Some r \<Rightarrow> ins (u + v + r) t (later v A))"
    by (simp add: ins_later [symmetric] algebra_simps split: option.split)
  with adv_fire show ?case by (auto intro: adv.adv_fire)
qed

lemma run_due_adv:
  assumes q: "quiet fire log" and "timer_wf s" and "pending_timers s = w # prev" and "run_due fire s = Some s'"
  shows "log s' = log s @ w \<and> period s' = period s \<and>
    (\<forall>d v F A'. v \<le> d \<longrightarrow> adv (period s) d (later v (schedule s')) F A' \<longrightarrow>
      adv (period s) d (map (Pair v) w @ later v (schedule s)) (w @ F) A')"
  using assms(2-4)
proof (induction w arbitrary: s)
  case Nil
  then show ?case by (simp add: run_due_Nil)
next
  case (Cons t w)
  let ?s = "s\<lparr>pending_timers := w # prev\<rparr>"
  obtain s1 where s1: "fire t ?s = Some s1" "timer_list s1 = timer_list s" "timers s1 = timers s"
    "pending_timers s1 = w # prev" "log s1 = log s @ [t]"
    using q by (rule quietE [where t = t and s = ?s]) (simp add: quiet_log [OF q])
  have wf: "timer_wf s1" using Cons.prems s1 by (auto simp: timer_wf_def)
  have ns: "\<not> timer_is_scheduled t s1" using Cons.prems s1 by (auto simp: timer_is_scheduled_def timer_wf_def)
  have same: "schedule s1 = schedule s" "period s1 = period s" using s1
    by (simp add: schedule_def, auto simp: period_def fun_eq_iff)
  note re = rearm_schedule [OF wf ns, unfolded same]
  have "run_due fire (rearm t s1) = Some s'" using Cons.prems(3) s1(1) by (simp add: run_due_Cons [OF Cons.prems(2)])
  with rearm_wf [OF wf, of t] s1(4) have IH: "log s' = log (rearm t s1) @ w" "period s' = period s"
    and adv: "\<And>d v F A'. v \<le> d \<Longrightarrow> adv (period s) d (later v (schedule s')) F A' \<Longrightarrow>
      adv (period s) d (map (Pair v) w @ later v (schedule (rearm t s1))) (w @ F) A'"
    using Cons.IH [of "rearm t s1"] re(2) by auto
  have "adv (period s) d (map (Pair v) (t # w) @ later v (schedule s)) ((t # w) @ F) A'"
    if "v \<le> d" "adv (period s) d (later v (schedule s')) F A'" for d v F A'
  proof -
    have "0 < r" if "period s t = Some r" for r
      using that Cons.prems(1) by (auto simp: period_def timer_wf_def split: if_splits)
    then have "map (Pair v) w @ later v (schedule (rearm t s1)) = (case period s t of None \<Rightarrow> map (Pair v) w @ later v (schedule s)
        | Some r \<Rightarrow> ins (v + r) t (map (Pair v) w @ later v (schedule s)))"
      using ins_later [of _ v t "schedule s"] by (auto simp: re(1) ins_behind add.commute [of v] split: option.split)
    with adv [OF that] that(1) show ?thesis by (auto intro: adv.adv_fire)
  qed
  with IH s1(5) show ?case by (simp add: rearm_log [OF q])
qed

lemma schedule_due:
  assumes "timer_list s = c # cs" and "collect_due (c # cs) (set_curr c 0 (timers s)) = (due, rest)" and "distinct (c # cs)"
  defines "v \<equiv> tm_curr (timers s c)"
  shows "schedule s = map (Pair v) due @ later v (agenda 0 rest (set_curr c 0 (timers s)))"
proof -
  have zero: "agenda b (xs @ ys) tms = map (Pair b) xs @ agenda b ys tms" if "\<forall>x\<in>set xs. tm_curr (tms x) = 0" for b xs ys tms
    using that by (induction xs) auto
  note d = collect_due_spec [OF assms(2)]
  have "schedule s = later v (agenda 0 (c # cs) (set_curr c 0 (timers s)))"
    using assms(1,3) agenda_later [of 0 v cs "timers s"] by (simp add: schedule_def v_def)
  also have "\<dots> = later v (map (Pair 0) due @ agenda 0 rest (set_curr c 0 (timers s)))"
    using zero [of due "set_curr c 0 (timers s)" 0 rest] d(1,2) by simp
  also have "\<dots> = map (Pair v) due @ later v (agenda 0 rest (set_curr c 0 (timers s)))"
    by (simp add: later_def)
  finally show ?thesis .
qed

lemma sched_pos: "pos_list l tms \<Longrightarrow> (v, t) \<in> set (agenda b l tms) \<Longrightarrow> b + tm_curr (tms (hd l)) \<le> v"
proof (induction l arbitrary: b)
  case (Cons c l)
  have "b + tm_curr (tms c) \<le> v" if "\<forall>c\<in>set l. 0 \<le> tm_curr (tms c)" "(v, t) \<in> set (agenda (b + tm_curr (tms c)) l tms)"
    using that by (induction l arbitrary: b c) (auto, smt (verit))
  with Cons.prems show ?case by (auto simp: pos_list_def)
qed simp

lemma check_tmo_loop_adv:
  assumes q: "quiet fire log" and "timer_wf s" and "pending_timers s = [] # prev" and "0 \<le> d"
    and "check_tmo_loop fire d s = Some s'"
  shows "\<exists>F. log s' = log s @ F \<and> period s' = period s \<and> adv (period s) d (schedule s) F (schedule s')"
  using assms(2-5)
proof (induction "nat d" arbitrary: d s rule: less_induct)
  case less
  show ?case
  proof (cases "timer_list s")
    case Nil
    with less.prems show ?thesis
      using adv_stop [of "[]" d "period s"] by (simp add: check_tmo_loop_stop schedule_def)
  next
    case (Cons c cs)
    let ?v = "tm_curr (timers s c)"
    from less.prems have dist: "distinct (c # cs)" and pl: "pos_list (c # cs) (timers s)" using Cons by (auto simp: timer_wf_def)
    then have pos: "0 < ?v" by (simp add: pos_list_def)
    show ?thesis
    proof (cases "d < ?v")
      case True
      have "\<forall>(v, t)\<in>set (schedule s). d < v"
        using sched_pos [OF pl, of _ _ 0] True Cons by (fastforce simp: schedule_def)
      from adv_stop [OF this, of "period s"] True less.prems(4) Cons dist show ?thesis
        using agenda_later [of ?v "- d" cs "timers s"]
        by (auto simp: check_tmo_loop_stop schedule_def period_def fun_eq_iff quiet_log [OF q] split: if_splits)
    next
      case False
      obtain due rest where cd: "collect_due (c # cs) (set_curr c 0 (timers s)) = (due, rest)" by (metis surj_pair)
      let ?s = "s\<lparr>timers := set_curr c 0 (timers s), timer_list := rest, pending_timers := due # prev\<rparr>"
      note wf = due_wf [OF less.prems(1) Cons less.prems(2) cd]
      from run_due_returns [OF quiet_fire_ok [OF q] wf, of due prev]
      obtain s1 where s1: "run_due fire ?s = Some s1" "timer_wf s1" "pending_timers s1 = [] # prev" by auto
      have per: "period ?s = period s" by (simp add: period_def fun_eq_iff)
      from run_due_adv [OF q wf _ s1(1), of due prev, unfolded per]
      have r: "log s1 = log s @ due" "period s1 = period s" and r2: "\<And>F A'. adv (period s) d (later ?v (schedule s1)) F A' \<Longrightarrow>
          adv (period s) d (schedule s) (due @ F) A'"
        using False by (auto simp: quiet_log [OF q] schedule_due [OF Cons cd dist] schedule_def [of ?s])
      have "nat (d - ?v) < nat d" "0 \<le> d - ?v" using pos False by auto
      moreover have "check_tmo_loop fire (d - ?v) s1 = Some s'"
        using less.prems(4) check_tmo_loop_step [OF Cons pos _ less.prems(2) cd, of d fire] False s1(1) by simp
      ultimately obtain F where "log s' = log s1 @ F" "period s' = period s1" "adv (period s1) (d - ?v) (schedule s1) F (schedule s')"
        using less.hyps [OF _ s1(2,3)] by blast
      with r r2 adv_later [of "period s" "d - ?v" "schedule s1" F "schedule s'" ?v] show ?thesis by auto
    qed
  qed
qed


section \<open>Adding and removing\<close>

lemma schedule_sorted:
  assumes "timer_wf s"
  shows "sorted (map fst (schedule s))"
proof -
  have "\<forall>c\<in>set l. 0 \<le> tm_curr (tms c) \<Longrightarrow> sorted (map fst (agenda b l tms)) \<and> (\<forall>x\<in>set (agenda b l tms). b \<le> fst x)" for b l tms
    by (induction l arbitrary: b) (auto, smt (verit) fst_conv)
  with assms show ?thesis by (simp add: schedule_def timer_wf_def pos_list_def)
qed

lemma net_timer_add_cases:
  assumes "timer_wf s" and "0 < ms" and "net_timer_add (Some t) (Some nm) (Some f) arg ms flags s = (err, s')"
  shows "timer_wf s'" and "pending_timers s' = pending_timers s" and "err = NET_ERR_OK \<longleftrightarrow> \<not> timer_is_scheduled t s"
    and "schedule s' = (if err = NET_ERR_OK then ins ms t (schedule s) else schedule s)"
proof -
  define tm where "tm = \<lparr>tm_name = timer_name_copy nm, tm_flags = flags, tm_curr = ms, tm_reload = ms, tm_proc = f, tm_arg = arg\<rparr>"
  let ?s = "s\<lparr>timers := (timers s)(t := tm)\<rparr>"
  have eq: "(err, s') = (if timer_is_scheduled t s then (NET_ERR_EXIST, s) else (NET_ERR_OK, insert_timer t ?s))"
    using assms(2,3) by (simp add: net_timer_add_def tm_def Let_def split: if_splits)
  have add: "timer_wf (insert_timer t ?s)" "pending_timers (insert_timer t ?s) = pending_timers s"
    "schedule (insert_timer t ?s) = ins ms t (schedule s)" if ns: "\<not> timer_is_scheduled t s"
  proof -
    have nt: "t \<notin> set (timer_list s)" using ns by (simp add: timer_is_scheduled_def)
    have "pos_list (timer_list s) ((timers s)(t := tm))"
      using assms(1) nt by (auto simp: timer_wf_def pos_list_def)
    then have wf: "timer_wf ?s" using assms(1,2) by (simp add: timer_wf_def tm_def)
    have "\<not> timer_is_scheduled t ?s" "0 < tm_curr (timers ?s t)"
      using ns assms(2) by (simp_all add: timer_is_scheduled_def tm_def)
    note i = insert_timer_wf [OF wf this]
    have "agenda 0 (timer_list s) ((timers s)(t := tm)) = agenda 0 (timer_list s) (timers s)"
      using nt by (intro agenda_cong) auto
    with i(1-3) show "timer_wf (insert_timer t ?s)" "pending_timers (insert_timer t ?s) = pending_timers s"
      "schedule (insert_timer t ?s) = ins ms t (schedule s)" by (simp_all add: schedule_def tm_def)
  qed
  from eq add assms(1) show "timer_wf s'" "pending_timers s' = pending_timers s" "err = NET_ERR_OK \<longleftrightarrow> \<not> timer_is_scheduled t s"
    "schedule s' = (if err = NET_ERR_OK then ins ms t (schedule s) else schedule s)" by (auto split: if_splits)
qed

lemma remove_timer_loop_mono:
  assumes "remove_timer_loop t l tms = (l', tms')" and "distinct l" and "\<forall>c\<in>set l. 0 \<le> tm_curr (tms c)"
  shows "\<forall>c\<in>set l'. tm_curr (tms c) \<le> tm_curr (tms' c)"
  using assms
proof (induction t l tms arbitrary: l' tms' rule: remove_timer_loop.induct)
  case (2 t c cs tms)
  show ?case
  proof (cases "c = t")
    case True
    with 2(2-4) show ?thesis by (cases cs) auto
  next
    case False
    obtain cs' tms1 where r: "remove_timer_loop t cs tms = (cs', tms1)" by (metis surj_pair)
    with False 2(2) have l': "l' = c # cs'" "tms' = tms1" by simp_all
    have "c \<notin> set cs'" using remove_timer_loop_frame [OF r] 2(3) by (metis distinct.simps(2) notin_set_remove1)
    with remove_timer_loop_frame [OF r] have "tms1 c = tms c" by blast
    moreover have "\<forall>c\<in>set cs'. tm_curr (tms c) \<le> tm_curr (tms1 c)"
      using 2(1) [OF False r] 2(3,4) by simp
    ultimately show ?thesis by (simp add: l')
  qed
qed simp

lemma remove_timer_loop_pos:
  assumes "remove_timer_loop t l tms = (l', tms')" and "distinct l" and "pos_list l tms"
  shows "pos_list l' tms'"
proof -
  from assms(3) have nonneg: "\<forall>c\<in>set l. 0 \<le> tm_curr (tms c)" by (simp add: pos_list_def)
  note mono = remove_timer_loop_mono [OF assms(1,2) nonneg]
  have l': "l' = remove1 t l" using remove_timer_loop_frame [OF assms(1)] by simp
  have sub: "set l' \<subseteq> set l" by (simp add: l' set_remove1_subset)
  have "0 < tm_curr (tms' (hd l'))" if "l' \<noteq> []"
  proof (cases l)
    case (Cons c cs)
    then have c: "0 < tm_curr (tms c)" using assms(3) by (simp add: pos_list_def)
    show ?thesis
    proof (cases "c = t")
      case True
      with l' Cons that obtain n ns where cs: "cs = n # ns" "l' = n # ns" by (cases cs) auto
      with assms(1) Cons True have "tms' = set_curr n (tm_curr (tms n) + tm_curr (tms c)) tms" by simp
      with c cs nonneg Cons show ?thesis by simp
    next
      case False
      with l' Cons have "hd l' = c" "c \<in> set l'" by simp_all
      with mono c show ?thesis by fastforce
    qed
  qed (use that l' in simp)
  moreover have "\<forall>c\<in>set l'. 0 \<le> tm_curr (tms' c)"
    using mono nonneg sub by (meson order_trans subsetD)
  ultimately show ?thesis by (simp add: pos_list_def)
qed

lemma net_timer_remove_cases:
  assumes "timer_wf s"
  shows "timer_wf (net_timer_remove (Some t) s)" and "pending_timers (net_timer_remove (Some t) s) = pending_timers s"
    and "schedule (net_timer_remove (Some t) s) = filter (\<lambda>(v, c). c \<noteq> t) (schedule s)"
proof -
  obtain l tms where r: "remove_timer_loop t (timer_list s) (timers s) = (l, tms)" by (metis surj_pair)
  have s': "net_timer_remove (Some t) s = s\<lparr>timer_list := l, timers := tms\<rparr>" by (simp add: net_timer_remove_def r)
  from assms have d: "distinct (timer_list s)" "pos_list (timer_list s) (timers s)" by (simp_all add: timer_wf_def)
  note fr = remove_timer_loop_frame [OF r]
  have "distinct (l @ concat (pending_timers s))"
    using assms fr by (auto simp: timer_wf_def dest: notin_set_remove1)
  moreover have "\<forall>c. periodic (tms c) \<longrightarrow> 0 < tm_reload (tms c)"
    using assms fr by (simp add: timer_wf_def periodic_def)
  ultimately show "timer_wf (net_timer_remove (Some t) s)"
    using remove_timer_loop_pos [OF r d] by (simp add: timer_wf_def s')
  show "pending_timers (net_timer_remove (Some t) s) = pending_timers s" by (simp add: s')
  show "schedule (net_timer_remove (Some t) s) = filter (\<lambda>(v, c). c \<noteq> t) (schedule s)"
    using remove_timer_loop_agenda [OF r d(1)] by (simp add: s' schedule_def)
qed

end
