(* ===== verification/Ipaddr.thy ===== *)
theory Ipaddr
  imports Net_Tools
begin

text \<open>
  IPv4 addresses, \<^verbatim>\<open>kernel/src/net/ipaddr.c\<close>. An address is the 32-bit word \<^verbatim>\<open>q_addr\<close>; a null pointer to an
  address is \<open>None\<close>. A C string is the list of its characters before the terminator, so the end of the
  list is the character \<^verbatim>\<open>'\0'\<close>.
\<close>

type_synonym ipaddr = u32

definition IPV4_ADDR_BROADCAST :: ipaddr where "IPV4_ADDR_BROADCAST = 0xffffffff"
definition IPV4_ADDR_SIZE :: nat where "IPV4_ADDR_SIZE = 4"


section \<open>The operations\<close>

text \<open>The characters \<^verbatim>\<open>'0'\<close> to \<^verbatim>\<open>'9'\<close> have the codes 48 to 57.\<close>

definition is_digit :: "char \<Rightarrow> bool" where
  "is_digit c \<longleftrightarrow> 48 \<le> (of_char c :: nat) \<and> (of_char c :: nat) \<le> 57"

definition digit_val :: "char \<Rightarrow> nat" where
  "digit_val c = of_char c - 48"

text \<open>The loop of \<^verbatim>\<open>parse_octet\<close>: the number, the count of digits and the rest of the string, \<open>None\<close> when the
  number exceeds 255.\<close>

fun parse_octet_loop :: "string \<Rightarrow> nat \<Rightarrow> nat \<Rightarrow> (nat \<times> nat \<times> string) option" where
  "parse_octet_loop [] number digits = Some (number, digits, [])"
| "parse_octet_loop (c # p) number digits =
     (if is_digit c then
        let number = number * 10 + digit_val c
        in if number > 255 then None else parse_octet_loop p number (digits + 1)
      else Some (number, digits, c # p))"

definition parse_octet :: "string \<Rightarrow> (u8 \<times> string) option" where
  "parse_octet cursor =
     (case parse_octet_loop cursor 0 0 of
        None \<Rightarrow> None
      | Some (number, digits, p) \<Rightarrow>
          if digits = 0 \<or> (digits > 1 \<and> hd cursor = CHR ''0'') then None
          else Some (of_nat number, p))"

definition ipaddr_set_any :: "ipaddr option \<Rightarrow> ipaddr option" where
  "ipaddr_set_any ip = map_option (\<lambda>_. 0) ip"

definition ipaddr_to_buf :: "ipaddr \<Rightarrow> u8 list" where
  "ipaddr_to_buf ip = [ucast (drop_bit 24 ip), ucast (drop_bit 16 ip), ucast (drop_bit 8 ip), ucast ip]"

definition ipaddr_from_buf :: "u8 list \<Rightarrow> ipaddr" where
  "ipaddr_from_buf bs = push_bit 24 (ucast (bs ! 0)) OR push_bit 16 (ucast (bs ! 1)) OR
                        push_bit 8 (ucast (bs ! 2)) OR ucast (bs ! 3)"

text \<open>The loop of \<^verbatim>\<open>ipaddr_from_str\<close> with \<open>n\<close> octets still to come.\<close>

fun from_str_loop :: "nat \<Rightarrow> string \<Rightarrow> (u8 list \<times> string) option" where
  "from_str_loop 0 cursor = Some ([], cursor)"
| "from_str_loop (Suc n) cursor = do {
     (b, cursor) \<leftarrow> parse_octet cursor;
     cursor \<leftarrow> (if n = 0 then Some cursor
                else if cursor \<noteq> [] \<and> hd cursor = CHR ''.'' then Some (tl cursor) else None);
     (bs, cursor) \<leftarrow> from_str_loop n cursor;
     Some (b # bs, cursor)
   }"

definition ipaddr_from_str :: "ipaddr option \<Rightarrow> string option \<Rightarrow> net_err \<times> ipaddr option" where
  "ipaddr_from_str dest str =
     (case (dest, str) of
        (Some _, Some st) \<Rightarrow>
          (case from_str_loop 4 st of
             Some (bytes, []) \<Rightarrow> (NET_ERR_OK, Some (ipaddr_from_buf bytes))
           | _ \<Rightarrow> (NET_ERR_PARAM, dest))
      | _ \<Rightarrow> (NET_ERR_PARAM, dest))"

definition ipaddr_get_any :: ipaddr where
  "ipaddr_get_any = 0"

definition ipaddr_copy :: "ipaddr option \<Rightarrow> ipaddr option \<Rightarrow> ipaddr option" where
  "ipaddr_copy dest src = (case (dest, src) of (Some _, Some a) \<Rightarrow> Some a | _ \<Rightarrow> dest)"

definition ipaddr_is_equal :: "ipaddr option \<Rightarrow> ipaddr option \<Rightarrow> bool" where
  "ipaddr_is_equal left right = (case (left, right) of (Some a, Some b) \<Rightarrow> a = b | _ \<Rightarrow> False)"

definition ipaddr_is_local_broadcast :: "ipaddr option \<Rightarrow> bool" where
  "ipaddr_is_local_broadcast ip = (case ip of Some a \<Rightarrow> a = IPV4_ADDR_BROADCAST | None \<Rightarrow> False)"

definition ipaddr_is_direct_broadcast :: "ipaddr option \<Rightarrow> ipaddr option \<Rightarrow> bool" where
  "ipaddr_is_direct_broadcast ip netmask =
     (case (ip, netmask) of
        (Some a, Some m) \<Rightarrow> (a AND NOT m) = (IPV4_ADDR_BROADCAST AND NOT m)
      | _ \<Rightarrow> False)"

definition ipaddr_is_any :: "ipaddr option \<Rightarrow> bool" where
  "ipaddr_is_any ip = (case ip of Some a \<Rightarrow> a = 0 | None \<Rightarrow> False)"

definition ipaddr_get_net :: "ipaddr option \<Rightarrow> ipaddr option \<Rightarrow> ipaddr" where
  "ipaddr_get_net ip netmask = (case (ip, netmask) of (Some a, Some m) \<Rightarrow> a AND m | _ \<Rightarrow> 0)"

definition ipaddr_is_match :: "ipaddr option \<Rightarrow> ipaddr option \<Rightarrow> ipaddr option \<Rightarrow> bool" where
  "ipaddr_is_match dest src netmask =
     (if dest = None \<or> src = None \<or> netmask = None then False
      else
        let dest_net = ipaddr_get_net dest netmask;
            src_net = ipaddr_get_net src netmask
        in if ipaddr_is_local_broadcast dest \<or>
              (ipaddr_is_direct_broadcast dest netmask \<and> ipaddr_is_equal (Some dest_net) (Some src_net))
           then True
           else ipaddr_is_equal dest src)"

definition ipaddr_set_all_1 :: "ipaddr option \<Rightarrow> ipaddr option" where
  "ipaddr_set_all_1 ip = map_option (\<lambda>_. IPV4_ADDR_BROADCAST) ip"

function ones_loop :: "u32 \<Rightarrow> int \<Rightarrow> int" where
  "ones_loop val cnt =
     (if val \<noteq> 0 then ones_loop (drop_bit 1 val) (cnt + uint (val AND 1)) else cnt)"
  by pat_completeness auto
termination
proof (relation "measure (\<lambda>(val, _). unat val)")
  fix val :: u32 and cnt :: int
  assume "val \<noteq> 0"
  then have "0 < unat val" by (simp add: unat_gt_0)
  moreover have "unat (drop_bit 1 val) = unat val div 2"
    by (simp only: drop_bit_eq_div unat_div_distrib) simp
  ultimately show "((drop_bit 1 val, cnt + uint (val AND 1)), val, cnt) \<in> measure (\<lambda>(val, _). unat val)"
    by simp
qed simp

declare ones_loop.simps [simp del]

definition ipaddr_1_cnt :: "ipaddr option \<Rightarrow> int" where
  "ipaddr_1_cnt ip = (case ip of None \<Rightarrow> 0 | Some a \<Rightarrow> ones_loop a 0)"

definition ipaddr_set_loop :: "ipaddr option \<Rightarrow> ipaddr option" where
  "ipaddr_set_loop ip = map_option (\<lambda>_. 0x7f000001) ip"


section \<open>The dotted notation\<close>

text \<open>The specification of the text form: four numbers without leading zeros, separated by dots.\<close>

fun dec :: "nat \<Rightarrow> string" where
  "dec n = (if n < 10 then [char_of (n + 48)] else dec (n div 10) @ [char_of (n mod 10 + 48)])"

declare dec.simps [simp del]

definition ip_str :: "u8 list \<Rightarrow> string" where
  "ip_str bs = dec (unat (bs ! 0)) @ ''.'' @ dec (unat (bs ! 1)) @ ''.'' @ dec (unat (bs ! 2)) @ ''.'' @ dec (unat (bs ! 3))"

fun dval :: "string \<Rightarrow> nat \<Rightarrow> nat" where
  "dval [] n = n"
| "dval (c # cs) n = dval cs (n * 10 + digit_val c)"

lemma dval_append [simp]: "dval (xs @ ys) n = dval ys (dval xs n)"
  by (induction xs arbitrary: n) auto

lemma dval_ge: "n \<le> dval cs n"
proof (induction cs arbitrary: n)
  case (Cons c cs)
  show ?case using Cons [of "n * 10 + digit_val c"] by simp
qed simp

abbreviation all_digits :: "string \<Rightarrow> bool" where
  "all_digits ds \<equiv> \<forall>c\<in>set ds. is_digit c"

lemma digit_char: "d < 10 \<Longrightarrow> is_digit (char_of (d + 48 :: nat)) \<and> digit_val (char_of (d + 48 :: nat)) = d"
  by (simp add: is_digit_def digit_val_def)

lemma char_digit: "is_digit c \<Longrightarrow> digit_val c < 10 \<and> char_of (digit_val c + 48) = c"
  by (auto simp: is_digit_def digit_val_def)

lemma digit_zero: "is_digit c \<Longrightarrow> digit_val c = 0 \<longleftrightarrow> c = CHR ''0''"
proof -
  assume "is_digit c"
  then have "digit_val c = 0 \<longleftrightarrow> (of_char c :: nat) = of_char CHR ''0''"
    by (auto simp: is_digit_def digit_val_def)
  then show ?thesis by (simp only: of_char_eq_iff)
qed

lemma dec_spec: "all_digits (dec n) \<and> dec n \<noteq> [] \<and> dval (dec n) 0 = n \<and> (10 \<le> n \<longrightarrow> hd (dec n) \<noteq> CHR ''0'')"
proof (induction n rule: less_induct)
  case (less n)
  show ?case
  proof (cases "n < 10")
    case True
    then show ?thesis using digit_char [of n] by (simp add: dec.simps [of n])
  next
    case False
    with less [of "n div 10"] have IH: "all_digits (dec (n div 10))" "dec (n div 10) \<noteq> []" "dval (dec (n div 10)) 0 = n div 10"
      "10 \<le> n div 10 \<longrightarrow> hd (dec (n div 10)) \<noteq> CHR ''0''" by auto
    have "hd (dec (n div 10)) \<noteq> CHR ''0''"
    proof (cases "10 \<le> n div 10")
      case False
      with \<open>\<not> n < 10\<close> have "0 < n div 10" "n div 10 < 10" by (auto simp: div_greater_zero_iff)
      moreover have "digit_val CHR ''0'' = 0" by (simp add: digit_val_def)
      ultimately show ?thesis using digit_char [of "n div 10"] by (auto simp: dec.simps [of "n div 10"])
    qed (use IH in simp)
    with False IH digit_char [of "n mod 10"] show ?thesis by (simp add: dec.simps [of n])
  qed
qed

lemmas dec_facts = dec_spec [THEN conjunct1] dec_spec [THEN conjunct2, THEN conjunct1]
  dec_spec [THEN conjunct2, THEN conjunct2, THEN conjunct1] dec_spec [THEN conjunct2, THEN conjunct2, THEN conjunct2, rule_format]

lemma dec_length: "1 < length (dec n) \<Longrightarrow> 10 \<le> n"
  by (cases "n < 10") (simp_all add: dec.simps [of n])

text \<open>Among digit strings without superfluous zeros, the decimal form is the only one of its value.\<close>

lemma dec_dval:
  assumes "all_digits ds" and "ds \<noteq> []" and "1 < length ds \<longrightarrow> hd ds \<noteq> CHR ''0''"
  shows "dec (dval ds 0) = ds"
  using assms
proof (induction ds rule: rev_induct)
  case (snoc c ds)
  from snoc.prems(1) char_digit [of c] have c: "digit_val c < 10" "char_of (digit_val c + 48) = c" by auto
  show ?case
  proof (cases "ds = []")
    case True
    with c show ?thesis by (simp add: dec.simps)
  next
    case False
    with snoc have IH: "dec (dval ds 0) = ds" by auto
    from snoc.prems False have "hd ds \<noteq> CHR ''0''" "is_digit (hd ds)" by (auto simp: hd_append)
    then have "0 < digit_val (hd ds)" using digit_zero by blast
    moreover have "digit_val (hd ds) \<le> dval ds 0"
      using False dval_ge [of "digit_val (hd ds)" "tl ds"] by (cases ds) auto
    ultimately have "0 < dval ds 0" by linarith
    with IH c show ?thesis by (simp add: dec.simps [of "dval ds 0 * 10 + digit_val c"])
  qed
qed simp

lemma parse_octet_loop_digits:
  assumes "all_digits ds" and "rest = [] \<or> \<not> is_digit (hd rest)"
  shows "parse_octet_loop (ds @ rest) n k =
    (if ds \<noteq> [] \<and> 255 < dval ds n then None else Some (dval ds n, k + length ds, rest))"
  using assms(1)
proof (induction ds arbitrary: n k)
  case Nil
  with assms(2) show ?case by (cases rest) auto
next
  case (Cons c ds)
  have "n * 10 + digit_val c \<le> dval ds (n * 10 + digit_val c)" by (rule dval_ge)
  with Cons show ?case by (cases "ds = []") (auto simp: Let_def)
qed

lemma dropWhile_hd: "dropWhile P xs = [] \<or> \<not> P (hd (dropWhile P xs))"
  by (induction xs) auto

lemma parse_octet_loop_split:
  "\<exists>ds rest. p = ds @ rest \<and> all_digits ds \<and> (rest = [] \<or> \<not> is_digit (hd rest))"
proof (intro exI conjI)
  show "p = takeWhile is_digit p @ dropWhile is_digit p" by simp
  show "all_digits (takeWhile is_digit p)" by (auto dest: set_takeWhileD)
  show "dropWhile is_digit p = [] \<or> \<not> is_digit (hd (dropWhile is_digit p))" by (rule dropWhile_hd)
qed

lemma parse_octet_digits:
  assumes "all_digits ds" and "rest = [] \<or> \<not> is_digit (hd rest)"
  shows "parse_octet (ds @ rest) =
    (if ds = [] \<or> 255 < dval ds 0 \<or> (1 < length ds \<and> hd ds = CHR ''0'') then None else Some (of_nat (dval ds 0), rest))"
proof (cases "ds = []")
  case True
  with parse_octet_loop_digits [OF assms, of 0 0] show ?thesis by (simp add: parse_octet_def)
next
  case False
  then show ?thesis unfolding parse_octet_def parse_octet_loop_digits [OF assms, of 0 0] by simp
qed

text \<open>\<^verbatim>\<open>parse_octet\<close> accepts exactly the decimal forms of the numbers up to 255.\<close>

lemma parse_octet_eq:
  "parse_octet p = Some (b, rest) \<longleftrightarrow> p = dec (unat b) @ rest \<and> (rest = [] \<or> \<not> is_digit (hd rest))"
proof
  assume a: "parse_octet p = Some (b, rest)"
  obtain ds r where p: "p = ds @ r" "all_digits ds" "r = [] \<or> \<not> is_digit (hd r)"
    using parse_octet_loop_split by blast
  note d = a [unfolded p(1) parse_octet_digits [OF p(2,3)]]
  have c: "\<not> (ds = [] \<or> 255 < dval ds 0 \<or> (1 < length ds \<and> hd ds = CHR ''0''))"
    using d by (metis option.distinct(1))
  with d have b: "b = of_nat (dval ds 0)" and r: "rest = r" by (metis option.inject prod.inject)+
  from c have "unat b = dval ds 0" unfolding b by (simp add: unat_of_nat take_bit_nat_eq_self)
  moreover have "dec (dval ds 0) = ds" using c p(2) by (intro dec_dval) auto
  ultimately show "p = dec (unat b) @ rest \<and> (rest = [] \<or> \<not> is_digit (hd rest))"
    using p r by simp
next
  assume p: "p = dec (unat b) @ rest \<and> (rest = [] \<or> \<not> is_digit (hd rest))"
  have "unat b < 2 ^ LENGTH(8)" by (rule unsigned_less)
  then have "\<not> 255 < dval (dec (unat b)) 0" by (simp add: dec_facts(3))
  moreover have "\<not> (1 < length (dec (unat b)) \<and> hd (dec (unat b)) = CHR ''0'')"
    using dec_length [of "unat b"] dec_facts(4) [of "unat b"] by blast
  ultimately have "parse_octet (dec (unat b) @ rest) = Some (of_nat (dval (dec (unat b)) 0), rest)"
    unfolding parse_octet_digits [OF dec_facts(1) conjunct2 [OF p]] using dec_facts(2) by metis
  then show "parse_octet p = Some (b, rest)" using p by (simp add: dec_facts(3))
qed

lemma dot_not_digit [simp]: "\<not> is_digit CHR ''.''"
  by (simp add: is_digit_def)

lemma from_str_loop_0: "from_str_loop 0 p = Some (bs, r) \<longleftrightarrow> bs = [] \<and> r = p"
  by auto

lemma from_str_loop_Suc:
  "from_str_loop (Suc n) p = Some (bs, r) \<longleftrightarrow>
     (\<exists>b bs' q. bs = b # bs' \<and> p = dec (unat b) @ (if n = 0 then q else CHR ''.'' # q) \<and>
       (n = 0 \<longrightarrow> q = [] \<or> \<not> is_digit (hd q)) \<and> from_str_loop n q = Some (bs', r))"
proof -
  have step: "(if n = 0 then Some c else if c \<noteq> [] \<and> hd c = CHR ''.'' then Some (tl c) else None) = Some q \<longleftrightarrow>
      c = (if n = 0 then q else CHR ''.'' # q)" for c q :: string
    by (cases c) auto
  have 1: "from_str_loop (Suc n) p = Some (bs, r) \<longleftrightarrow> (\<exists>b c q bs'. parse_octet p = Some (b, c) \<and>
      c = (if n = 0 then q else CHR ''.'' # q) \<and> from_str_loop n q = Some (bs', r) \<and> bs = b # bs')"
    unfolding from_str_loop.simps(2) step [symmetric] by (simp add: bind_eq_Some_conv split_beta) blast
  have 2: "parse_octet p = Some (b, if n = 0 then q else CHR ''.'' # q) \<longleftrightarrow>
      p = dec (unat b) @ (if n = 0 then q else CHR ''.'' # q) \<and> (n = 0 \<longrightarrow> q = [] \<or> \<not> is_digit (hd q))" for b q
    unfolding parse_octet_eq by simp
  show ?thesis unfolding 1 using 2 by blast
qed

lemma from_str_loop_iff: "from_str_loop 4 st = Some (bs, []) \<longleftrightarrow> length bs = 4 \<and> st = ip_str bs"
proof
  assume "from_str_loop 4 st = Some (bs, [])"
  then show "length bs = 4 \<and> st = ip_str bs"
    by (auto simp: eval_nat_numeral from_str_loop_Suc from_str_loop_0 ip_str_def simp del: from_str_loop.simps)
next
  assume a: "length bs = 4 \<and> st = ip_str bs"
  then obtain b0 b1 b2 b3 where "bs = [b0, b1, b2, b3]"
    by (auto simp: eval_nat_numeral length_Suc_conv)
  with a show "from_str_loop 4 st = Some (bs, [])"
    by (simp add: eval_nat_numeral from_str_loop_Suc from_str_loop_0 ip_str_def del: from_str_loop.simps)
qed


section \<open>Buffers\<close>

lemma ipaddr_from_to_buf: "ipaddr_from_buf (ipaddr_to_buf ip) = ip"
proof (rule bit_word_eqI)
  fix n assume "n < LENGTH(32)"
  then have "n < 32" by simp
  then show "bit (ipaddr_from_buf (ipaddr_to_buf ip)) n = bit ip n"
    by (rule byte_cases) (simp_all add: ipaddr_from_buf_def ipaddr_to_buf_def bit_simps add.commute nth_Cons')
qed

lemma ipaddr_to_from_buf:
  assumes "length bs = 4"
  shows "ipaddr_to_buf (ipaddr_from_buf bs) = bs"
proof -
  from assms obtain b0 b1 b2 b3 where bs: "bs = [b0, b1, b2, b3]"
    by (auto simp: eval_nat_numeral length_Suc_conv)
  show ?thesis
    unfolding bs by (auto simp: ipaddr_from_buf_def ipaddr_to_buf_def intro!: bit_word_eqI)
      (auto simp: bit_simps dest!: bit_imp_le_length)
qed

lemma length_ipaddr_to_buf: "length (ipaddr_to_buf ip) = 4"
  by (simp add: ipaddr_to_buf_def)

end
