(* ===== verification/Timer_Props.thy ===== *)
theory Timer_Props
  imports Timer Ipaddr
begin

text \<open>
  The properties of timers and addresses. \<open>schedule s\<close> lists the scheduled timers with the time each has left,
  in the order in which they run; \<open>timer_wf\<close> holds when no timer is pending and is kept by every operation.
\<close>

text \<open>A state for the examples: a periodic timer 0 due in 30 ms and a timer 1 due in 50 ms.\<close>

definition ex_tm0 :: timer_state where
  "ex_tm0 = snd (net_timer_init
     \<lparr>sem_pool = [], mtime = 0, wakes = [], vnet = virtio_net_zero, fixqs = (\<lambda>_. \<lparr>fq_size = 0, fq_buf = [], fq_in = 0, fq_out = 0, fq_count = 0,
        fq_send_sem = None, fq_recv_sem = None, fq_locker_type = NLOCKER_NONE\<rparr>),
      block_list = [], pktbuf_list = [],
      pktbufs = (\<lambda>_. \<lparr>total_size = 0, blk_list = [], ref = 0, pos = 0, curr_blk = None, blk_offset = None\<rparr>),
      timer_list = [], pending_timers = [],
      timers = (\<lambda>_. \<lparr>tm_name = [], tm_flags = 0, tm_curr = 0, tm_reload = 0, tm_proc = 0, tm_arg = None\<rparr>)\<rparr>)"

definition ex_tm :: timer_state where
  "ex_tm = snd (net_timer_add (Some 1) (Some ''b'') (Some 8) None 50 0
             (snd (net_timer_add (Some 0) (Some ''a'') (Some 7) None 30 NET_TIMER_RELOAD ex_tm0)))"

definition ex_fire :: "nat \<Rightarrow> timer_state \<Rightarrow> timer_state option" where
  "ex_fire t s = Some (s\<lparr>wakes := wakes s @ [t]\<rparr>)"

lemmas ex_tm_defs = ex_tm_def ex_tm0_def net_timer_init_def net_timer_add_def insert_timer_def timer_is_scheduled_def
  NET_TIMER_RELOAD_def Let_def set_curr_def

lemma ex_tm_wf: "timer_wf ex_tm"
  by (simp add: ex_tm_defs timer_wf_def pos_list_def periodic_def)

lemma ex_tm_schedule: "schedule ex_tm = [(30, 0), (50, 1)]" "pending_timers ex_tm = []"
  by (simp_all add: ex_tm_defs schedule_def)

lemma ex_fire_quiet: "quiet ex_fire wakes"
  by (simp add: quiet_def ex_fire_def)


section \<open>Timers\<close>



text \<open>C19. Starting and stopping a timer leaves the time at which every other timer is due unchanged, although only
  differences are stored: \<^verbatim>\<open>net_timer_add\<close> puts the timer into the schedule at its time and keeps the schedule
  sorted, refusing one that is scheduled or about to run, and \<^verbatim>\<open>net_timer_remove\<close> takes out just that timer.\<close>

theorem add_remove_keep_deadlines:
  assumes "timer_wf s" and "0 < ms" and "net_timer_add (Some t) (Some nm) (Some f) arg ms flags s = (err, s')"
  shows "timer_wf s' \<and> (err = NET_ERR_OK \<longleftrightarrow> \<not> timer_is_scheduled t s) \<and>
    schedule s' = (if err = NET_ERR_OK then ins ms t (schedule s) else schedule s) \<and>
    sorted (map fst (schedule s')) \<and>
    timer_wf (net_timer_remove (Some c) s) \<and>
    schedule (net_timer_remove (Some c) s) = filter (\<lambda>(v, x). x \<noteq> c) (schedule s)"
  using net_timer_add_cases [OF assms] schedule_sorted net_timer_remove_cases [OF assms(1)] by blast

theorem add_remove_keep_deadlines_witness:
  "schedule (snd (net_timer_add (Some 2) (Some ''c'') (Some 9) None 50 0 ex_tm)) = [(30, 0), (50, 1), (50, 2)] \<and>
   schedule (net_timer_remove (Some 0) ex_tm) = [(50, 1)]"
proof -
  have ns: "\<not> timer_is_scheduled 2 ex_tm" by (simp add: ex_tm_defs)
  from add_remove_keep_deadlines [OF ex_tm_wf _ prod.collapse [symmetric], of 50 2 "''c''" 9 None 0 0] ns
  show ?thesis by (auto simp: ex_tm_schedule)
qed


section \<open>Addresses\<close>

text \<open>C20. \<^verbatim>\<open>ipaddr_from_str\<close> accepts exactly the dotted decimal strings: it reports success with address \<open>ip\<close> if and
  only if the string is the canonical way of writing the four bytes of \<open>ip\<close>, so octets out of range, leading
  zeros, missing or additional octets and trailing characters are all refused.\<close>

theorem ipaddr_from_str_exact:
  "ipaddr_from_str (Some d) (Some st) = (NET_ERR_OK, Some ip) \<longleftrightarrow> st = ip_str (ipaddr_to_buf ip)"
proof -
  have "ipaddr_from_str (Some d) (Some st) = (NET_ERR_OK, Some ip) \<longleftrightarrow>
      (\<exists>bs. from_str_loop 4 st = Some (bs, []) \<and> ipaddr_from_buf bs = ip)"
    by (auto simp: ipaddr_from_str_def simp del: from_str_loop.simps split: option.splits list.splits prod.splits)
  also have "\<dots> \<longleftrightarrow> (\<exists>bs. length bs = 4 \<and> st = ip_str bs \<and> ipaddr_from_buf bs = ip)"
    by (simp add: from_str_loop_iff del: from_str_loop.simps)
  also have "\<dots> \<longleftrightarrow> st = ip_str (ipaddr_to_buf ip)"
    using ipaddr_from_to_buf ipaddr_to_from_buf by (metis length_ipaddr_to_buf)
  finally show ?thesis .
qed

end
