(* ===== verification/Virtio_Net_Inv.thy ===== *)
theory Virtio_Net_Inv
  imports Virtio_Net
begin

text \<open>
  The invariant of the network driver, and that every section under \<^verbatim>\<open>net.lock\<close> keeps it whatever the device writes
  into the used rings and the posted receive buffers. \<open>rx_ok\<close> and \<open>tx_ok\<close> say how slots, descriptors and the completion
  ring belong together; they hold while the driver is active. \<open>net_inv\<close> is the whole invariant.
\<close>

section \<open>The invariant\<close>

definition rx_shape :: "virtqueue \<Rightarrow> net_rx_slot list \<Rightarrow> net_completion_ring \<Rightarrow> bool" where
  "rx_shape q rx ring \<longleftrightarrow> vq_inv q \<and> length rx = VIRTQ_NUM \<and> (\<forall>r\<in>set rx. length (rx_bytes r) = NET_SLOT_SIZE) \<and> nc_inv ring"

definition tx_shape :: "virtqueue \<Rightarrow> net_tx_slot list \<Rightarrow> bool" where
  "tx_shape q tx \<longleftrightarrow> vq_inv q \<and> length tx = VIRTQ_NUM \<and> (\<forall>t\<in>set tx. length (tx_bytes t) = NET_SLOT_SIZE) \<and>
     (\<forall>d<VIRTQ_NUM. vd_flags (vq_desc q ! d) AND VRING_DESC_F_NEXT = 0)"

abbreviation rx_desc :: "net_rx_slot \<Rightarrow> nat" where "rx_desc r \<equiv> unat (rx_descriptor r)"
abbreviation tx_desc :: "net_tx_slot \<Rightarrow> nat" where "tx_desc t \<equiv> unat (tx_descriptor t)"

text \<open>The length that the device reported for a completed buffer.\<close>

definition rx_len_ok :: "virtqueue \<Rightarrow> net_rx_slot \<Rightarrow> bool" where
  "rx_len_ok q r \<longleftrightarrow> VIRTIO_NET_HDR_SIZE + ETHERNET_HEADER_SIZE \<le> unat (vd_len (vq_desc q ! rx_desc r)) \<and>
     unat (vd_len (vq_desc q ! rx_desc r)) \<le> NET_SLOT_SIZE"

text \<open>Every slot owns a descriptor, and is either posted, its descriptor being with the device, or completed and in the
  completion ring. The slots in \<open>L\<close> are being worked on: they are neither.\<close>

definition slot_ok :: "nat set \<Rightarrow> virtqueue \<Rightarrow> nat \<Rightarrow> net_rx_slot \<Rightarrow> bool" where
  "slot_ok L q i r \<longleftrightarrow> rx_desc r < VIRTQ_NUM \<and> rx_desc r \<notin> free_set q \<and>
     (if i \<in> L then rx_desc r \<notin> active_set q
      else rx_state r = NET_RX_POSTED \<and> rx_desc r \<in> active_set q \<or>
           rx_state r = NET_RX_COMPLETED \<and> rx_desc r \<notin> active_set q \<and> rx_len_ok q r)"

definition rx_ok :: "nat set \<Rightarrow> virtqueue \<Rightarrow> net_rx_slot list \<Rightarrow> net_completion_ring \<Rightarrow> bool" where
  "rx_ok L q rx ring \<longleftrightarrow> inj_on (\<lambda>i. rx_desc (rx ! i)) {..<VIRTQ_NUM} \<and> (\<forall>i<VIRTQ_NUM. slot_ok L q i (rx ! i)) \<and>
     distinct (nc_items ring) \<and>
     set (nc_items ring) = of_nat ` {i. i < VIRTQ_NUM \<and> i \<notin> L \<and> rx_state (rx ! i) = NET_RX_COMPLETED}"

text \<open>The descriptors in use are those of the slots in use, one each, and are with the device.\<close>

definition in_use :: "net_tx_slot list \<Rightarrow> nat set" where
  "in_use tx = {i. i < VIRTQ_NUM \<and> tx_in_use (tx ! i)}"

definition tx_ok :: "virtqueue \<Rightarrow> net_tx_slot list \<Rightarrow> u32 \<Rightarrow> bool" where
  "tx_ok q tx pending \<longleftrightarrow> inj_on (\<lambda>i. tx_desc (tx ! i)) (in_use tx) \<and>
     (\<lambda>i. tx_desc (tx ! i)) ` in_use tx = active_set q \<and> free_set q = {..<VIRTQ_NUM} - active_set q \<and>
     pending = of_nat (card (in_use tx))"

definition net_inv :: "virtio_net \<Rightarrow> bool" where
  "net_inv v \<longleftrightarrow> rx_shape (vn_rx_queue v) (vn_rx v) (vn_rx_completions v) \<and> tx_shape (vn_tx_queue v) (vn_tx v) \<and>
     (vn_active v \<longrightarrow> \<not> vn_failed v \<and> rx_ok {} (vn_rx_queue v) (vn_rx v) (vn_rx_completions v) \<and>
        tx_ok (vn_tx_queue v) (vn_tx v) (vn_pending_tx v))"

lemma NET_SLOT_SIZE_u32 [simp]: "unat (of_nat NET_SLOT_SIZE :: u32) = NET_SLOT_SIZE"
  by (simp add: VIRTIO_NET_HDR_SIZE_def ETHERNET_MAX_FRAME_def)

lemma POSTED_COMPLETED [simp]: "NET_RX_POSTED \<noteq> NET_RX_COMPLETED" "NET_RX_COMPLETED \<noteq> NET_RX_POSTED"
  by (simp_all add: NET_RX_POSTED_def NET_RX_COMPLETED_def)


section \<open>Receiving\<close>

lemma rx_shape_upd:
  assumes "rx_shape q rx ring" and "vq_inv q'" and "length (rx_bytes r) = NET_SLOT_SIZE" and "nc_inv ring'"
  shows "rx_shape q' (rx[i := r]) ring'"
  using assms set_update_subset_insert [of rx i r] by (auto simp: rx_shape_def)

text \<open>What \<^verbatim>\<open>net_repost_rx_locked\<close> does to the receive queue and the slots.\<close>

definition repost_queue :: "u16 \<Rightarrow> virtqueue \<Rightarrow> virtqueue" where
  "repost_queue d q = virtq_submit d (upd_desc (unat d) (\<lambda>e. e\<lparr>vd_len := of_nat NET_SLOT_SIZE\<rparr>) q)"

definition repost_slot :: "net_rx_slot \<Rightarrow> net_rx_slot" where
  "repost_slot r = r\<lparr>rx_bytes := put_at 0 (replicate VIRTIO_NET_HDR_SIZE 0) (rx_bytes r), rx_state := NET_RX_POSTED\<rparr>"

lemma net_repost_rx_fields:
  assumes "i < length (vn_rx v)"
  shows "net_repost_rx_locked i v = v\<lparr>vn_rx_queue := repost_queue (rx_descriptor (rx_slot v i)) (vn_rx_queue v),
    vn_rx := (vn_rx v)[i := repost_slot (rx_slot v i)], vn_mmio := virtio_mmio_notify VIRTIO_NET_RX_QUEUE (vn_mmio v)\<rparr>"
  using assms by (simp add: net_repost_rx_locked_def vn_upd_defs Let_def repost_queue_def repost_slot_def)

lemma virtq_submit_sets:
  assumes "vq_inv q" and "unat d < VIRTQ_NUM" and "unat d \<notin> free_set q" and "unat d \<notin> active_set q"
  shows "vq_inv (virtq_submit d q)" and "free_set (virtq_submit d q) = free_set q"
    and "active_set (virtq_submit d q) = insert (unat d) (active_set q)" and "vq_desc (virtq_submit d q) = vq_desc q"
proof -
  have eq: "virtq_submit d q = q\<lparr>vq_active := (vq_active q)[unat d := True],
      vq_avail_ring := (vq_avail_ring q)[unat (vq_avail_idx q) mod VIRTQ_NUM := d], vq_avail_idx := vq_avail_idx q + 1\<rparr>"
    using assms by (auto simp: virtq_submit_def free_set_def active_set_def)
  show "vq_inv (virtq_submit d q)" using virtq_submit_ok [of q d] assms by simp
  show "free_set (virtq_submit d q) = free_set q" "vq_desc (virtq_submit d q) = vq_desc q" by (simp_all add: eq free_set_def)
  have "length (vq_active q) = VIRTQ_NUM" using assms(1) by (simp add: vq_inv_def)
  with assms(2) show "active_set (virtq_submit d q) = insert (unat d) (active_set q)"
    by (auto simp: eq active_set_def nth_list_update)
qed

lemma repost_queue_sets:
  assumes "vq_inv q" and "unat d < VIRTQ_NUM" and "unat d \<notin> free_set q" and "unat d \<notin> active_set q"
  shows "vq_inv (repost_queue d q)" and "free_set (repost_queue d q) = free_set q"
    and "active_set (repost_queue d q) = insert (unat d) (active_set q)"
    and "j \<noteq> unat d \<Longrightarrow> vq_desc (repost_queue d q) ! j = vq_desc q ! j"
proof -
  have i: "vq_inv (upd_desc (unat d) (\<lambda>e. e\<lparr>vd_len := of_nat NET_SLOT_SIZE\<rparr>) q)" using upd_desc_inv assms by blast
  note s = virtq_submit_sets [OF i assms(2)]
  from s assms show "vq_inv (repost_queue d q)" "free_set (repost_queue d q) = free_set q"
    "active_set (repost_queue d q) = insert (unat d) (active_set q)" by (simp_all add: repost_queue_def)
  from s assms show "j \<noteq> unat d \<Longrightarrow> vq_desc (repost_queue d q) ! j = vq_desc q ! j"
    by (simp add: repost_queue_def) (simp add: upd_desc_def)
qed

lemma rx_okD:
  assumes "rx_ok L q rx ring"
  shows "inj_on (\<lambda>i. rx_desc (rx ! i)) {..<VIRTQ_NUM}" and "i < VIRTQ_NUM \<Longrightarrow> slot_ok L q i (rx ! i)"
  using assms by (auto simp: rx_ok_def)

text \<open>A change that concerns slot \<open>i\<close> and its descriptor only.\<close>

lemma rx_ok_update:
  assumes ok: "rx_ok L q rx ring" and len: "length rx = VIRTQ_NUM" and i: "i < VIRTQ_NUM" and L: "L - {i} = L' - {i}"
    and d: "rx_descriptor r = rx_descriptor (rx ! i)" and r: "slot_ok L' q' i r"
    and other: "free_set q' = free_set q" "active_set q' - {rx_desc r} = active_set q - {rx_desc r}"
      "\<And>j. j \<noteq> rx_desc r \<Longrightarrow> vq_desc q' ! j = vq_desc q ! j"
    and ring: "distinct (nc_items ring')"
      "set (nc_items ring') = of_nat ` {j. j < VIRTQ_NUM \<and> j \<notin> L' \<and> rx_state ((rx[i := r]) ! j) = NET_RX_COMPLETED}"
  shows "rx_ok L' q' (rx[i := r]) ring'"
  unfolding rx_ok_def
proof (intro conjI allI impI)
  have "rx_desc ((rx[i := r]) ! j) = rx_desc (rx ! j)" for j
    using d i len by (cases "j = i") simp_all
  with rx_okD(1) [OF ok] show "inj_on (\<lambda>j. rx_desc ((rx[i := r]) ! j)) {..<VIRTQ_NUM}" by simp
  show "slot_ok L' q' j ((rx[i := r]) ! j)" if j: "j < VIRTQ_NUM" for j
  proof (cases "j = i")
    case True
    with r i len show ?thesis by simp
  next
    case False
    with inj_onD [OF rx_okD(1) [OF ok], of i j] i j d have ne: "rx_desc (rx ! j) \<noteq> rx_desc r" by auto
    have "j \<in> L' \<longleftrightarrow> j \<in> L" using L False by blast
    moreover have "rx_desc (rx ! j) \<in> active_set q' \<longleftrightarrow> rx_desc (rx ! j) \<in> active_set q" using other(2) ne by blast
    moreover have "rx_len_ok q' (rx ! j) = rx_len_ok q (rx ! j)" using other(3) [OF ne] by (simp add: rx_len_ok_def)
    ultimately show ?thesis using False rx_okD(2) [OF ok j] other(1) by (simp add: slot_ok_def)
  qed
qed (use ring in simp_all)

text \<open>Giving back a slot that was being worked on.\<close>

lemma rx_ok_repost:
  assumes ok: "rx_ok {i} q rx ring" and sh: "rx_shape q rx ring" and i: "i < VIRTQ_NUM"
  shows "rx_ok {} (repost_queue (rx_descriptor (rx ! i)) q) (rx[i := repost_slot (rx ! i)]) ring"
proof -
  have len: "length rx = VIRTQ_NUM" and inv: "vq_inv q" using sh by (simp_all add: rx_shape_def)
  have s: "rx_desc (rx ! i) < VIRTQ_NUM" "rx_desc (rx ! i) \<notin> free_set q" "rx_desc (rx ! i) \<notin> active_set q"
    using rx_okD(2) [OF ok i] by (simp_all add: slot_ok_def)
  note q = repost_queue_sets [OF inv s]
  have d: "rx_descriptor (repost_slot (rx ! i)) = rx_descriptor (rx ! i)" "rx_state (repost_slot (rx ! i)) = NET_RX_POSTED"
    by (simp_all add: repost_slot_def)
  show ?thesis
  proof (rule rx_ok_update [OF ok len i])
    show "slot_ok {} (repost_queue (rx_descriptor (rx ! i)) q) i (repost_slot (rx ! i))"
      using s q by (simp add: slot_ok_def d)
    have "{j. j < VIRTQ_NUM \<and> j \<notin> {} \<and> rx_state ((rx[i := repost_slot (rx ! i)]) ! j) = NET_RX_COMPLETED} =
        {j. j < VIRTQ_NUM \<and> j \<notin> {i} \<and> rx_state (rx ! j) = NET_RX_COMPLETED}"
      using i len d by (auto simp: nth_list_update)
    then show "set (nc_items ring) = of_nat ` {j. j < VIRTQ_NUM \<and> j \<notin> {} \<and>
        rx_state ((rx[i := repost_slot (rx ! i)]) ! j) = NET_RX_COMPLETED}"
      using ok by (simp add: rx_ok_def)
  qed (use q ok in \<open>auto simp: d rx_ok_def\<close>)
qed

lemma rx_shape_repost:
  assumes sh: "rx_shape q rx ring" and i: "i < VIRTQ_NUM"
    and s: "rx_desc (rx ! i) < VIRTQ_NUM" "rx_desc (rx ! i) \<notin> free_set q" "rx_desc (rx ! i) \<notin> active_set q"
  shows "rx_shape (repost_queue (rx_descriptor (rx ! i)) q) (rx[i := repost_slot (rx ! i)]) ring"
proof (rule rx_shape_upd [OF sh])
  show "vq_inv (repost_queue (rx_descriptor (rx ! i)) q)" using repost_queue_sets(1) [OF _ s] sh by (simp add: rx_shape_def)
  have "length (rx_bytes (rx ! i)) = NET_SLOT_SIZE" using sh i by (simp add: rx_shape_def)
  then show "length (rx_bytes (repost_slot (rx ! i))) = NET_SLOT_SIZE" by (simp add: repost_slot_def)
qed (use sh in \<open>simp add: rx_shape_def\<close>)

text \<open>Taking an element off the used ring.\<close>

lemma virtq_pop_sets:
  assumes "vq_inv q" and "virtq_pop_used_len q = (r, out, q')"
  shows "vq_inv q'" and "free_set q' = free_set q" and "vq_desc q' = vq_desc q"
    and "out = None \<Longrightarrow> r \<le> 0 \<and> active_set q' = active_set q"
    and "out = Some (d, n) \<Longrightarrow> r = 1 \<and> unat d < VIRTQ_NUM \<and> unat d \<in> active_set q \<and> active_set q' = active_set q - {unat d}"
proof -
  show "vq_inv q'" using virtq_pop_ok [OF assms] by simp
  from assms(2) show "free_set q' = free_set q" "vq_desc q' = vq_desc q"
    by (auto simp: virtq_pop_used_len_def Let_def free_set_def split: if_splits)
  show "r \<le> 0 \<and> active_set q' = active_set q" if "out = None"
    using assms(2) that by (auto simp: virtq_pop_used_len_def Let_def active_set_def split: if_splits)
  define u where "u = ue_id (vq_used_ring q ! (unat (vq_used_idx q) mod VIRTQ_NUM))"
  show "r = 1 \<and> unat d < VIRTQ_NUM \<and> unat d \<in> active_set q \<and> active_set q' = active_set q - {unat d}" if "out = Some (d, n)"
  proof -
    from assms(2) that have p: "r = 1" "unat u < VIRTQ_NUM" "vq_active q ! unat u" "d = ucast u"
      "q' = q\<lparr>vq_used_idx := vq_used_idx q + 1, vq_active := (vq_active q)[unat u := False]\<rparr>"
      by (auto simp: virtq_pop_used_len_def Let_def u_def split: if_splits)
    have "unat d = unat u" using p(2,4) by (simp add: unsigned_ucast_eq take_bit_nat_eq_self VIRTQ_NUM_def)
    moreover have "length (vq_active q) = VIRTQ_NUM" using assms(1) by (simp add: vq_inv_def)
    ultimately show ?thesis using p by (auto simp: active_set_def nth_list_update split: if_splits)
  qed
qed

lemma posted_active:
  assumes ok: "rx_ok {} q rx ring" and d: "unat d \<in> active_set q"
    and i: "i < VIRTQ_NUM" "rx_descriptor (rx ! i) = d" "rx_state (rx ! i) = NET_RX_POSTED"
    and q': "vq_inv q" "free_set q' = free_set q" "vq_desc q' = vq_desc q" "active_set q' = active_set q - {unat d}"
    and len: "length rx = VIRTQ_NUM"
  shows "rx_ok {i} q' rx ring"
proof -
  have "rx_ok {i} q' (rx[i := rx ! i]) ring"
  proof (rule rx_ok_update [OF ok len i(1)])
    show "slot_ok {i} q' i (rx ! i)" using rx_okD(2) [OF ok i(1)] i q' by (auto simp: slot_ok_def)
    have "{j. j < VIRTQ_NUM \<and> j \<notin> {i} \<and> rx_state ((rx[i := rx ! i]) ! j) = NET_RX_COMPLETED} =
        {j. j < VIRTQ_NUM \<and> j \<notin> {} \<and> rx_state (rx ! j) = NET_RX_COMPLETED}" using i by auto
    then show "set (nc_items ring) = of_nat ` {j. j < VIRTQ_NUM \<and> j \<notin> {i} \<and> rx_state ((rx[i := rx ! i]) ! j) = NET_RX_COMPLETED}"
      using ok by (simp add: rx_ok_def)
  qed (use q' i ok in \<open>auto simp: rx_ok_def\<close>)
  then show ?thesis by simp
qed

text \<open>A completed buffer goes into the ring, which has room for it.\<close>

lemma ring_room:
  assumes ok: "rx_ok {i} q rx ring" and i: "i < VIRTQ_NUM" and inv: "nc_inv ring"
  shows "length (nc_items ring) < NET_COMPLETION_CAPACITY" and "of_nat i \<notin> set (nc_items ring)"
proof -
  let ?S = "{j. j < VIRTQ_NUM \<and> j \<notin> {i} \<and> rx_state (rx ! j) = NET_RX_COMPLETED}"
  have set: "set (nc_items ring) = of_nat ` ?S" and dist: "distinct (nc_items ring)" using ok by (simp_all add: rx_ok_def)
  have inj: "inj_on (of_nat :: nat \<Rightarrow> u16) {..<VIRTQ_NUM}" by (rule inj_onI) (metis VIRTQ_NUM_u16 lessThan_iff)
  then show "of_nat i \<notin> set (nc_items ring)" using i unfolding set by (auto dest: inj_onD)
  have "length (nc_items ring) = card (of_nat ` ?S :: u16 set)" using distinct_card [OF dist] set by simp
  also have "\<dots> \<le> card ?S" by (intro card_image_le) simp
  also have "\<dots> \<le> card ({..<VIRTQ_NUM} - {i})" by (intro card_mono) auto
  also have "\<dots> < NET_COMPLETION_CAPACITY" using i by (simp add: VIRTQ_NUM_def NET_COMPLETION_CAPACITY_def)
  finally show "length (nc_items ring) < NET_COMPLETION_CAPACITY" .
qed

lemma net_completion_push_cases:
  assumes "nc_inv ring" and "net_completion_push (Some ring) x = (r, ring')"
  shows "if length (nc_items ring) < NET_COMPLETION_CAPACITY
    then r = 0 \<and> nc_inv (the ring') \<and> nc_items (the ring') = nc_items ring @ [x] else r < 0 \<and> ring' = Some ring"
proof (cases "length (nc_items ring) < NET_COMPLETION_CAPACITY")
  case True
  have p: "nc_push x ring = (r = 0, the ring')" using assms(2) by (simp add: nc_push_def)
  from nc.push_room [OF assms(1) True p] True show ?thesis by simp
next
  case False
  with nc.bounded [OF assms(1)] have "nc_count ring = of_nat NET_COMPLETION_CAPACITY"
    by (simp add: word_unat_eq_iff NET_COMPLETION_CAPACITY_def)
  with False assms(2) show ?thesis by (auto simp: net_completion_push_def)
qed

lemma rx_ok_complete:
  assumes ok: "rx_ok {i} q rx ring" and sh: "rx_shape q rx ring" and i: "i < VIRTQ_NUM" and d: "d = rx_desc (rx ! i)"
    and n: "VIRTIO_NET_HDR_SIZE + ETHERNET_HEADER_SIZE \<le> unat n" "unat n \<le> NET_SLOT_SIZE"
    and ring': "nc_items ring' = nc_items ring @ [of_nat i]"
  shows "rx_ok {} (upd_desc d (\<lambda>e. e\<lparr>vd_len := n\<rparr>) q) (rx[i := (rx ! i)\<lparr>rx_state := NET_RX_COMPLETED\<rparr>]) ring'"
proof -
  have len: "length rx = VIRTQ_NUM" and inv: "vq_inv q" "length (vq_desc q) = VIRTQ_NUM" and nc: "nc_inv ring"
    using sh by (simp_all add: rx_shape_def vq_inv_def)
  have s: "d < VIRTQ_NUM" "d \<notin> free_set q" "d \<notin> active_set q" using rx_okD(2) [OF ok i] d by (simp_all add: slot_ok_def)
  note room = ring_room [OF ok i nc]
  let ?r = "(rx ! i)\<lparr>rx_state := NET_RX_COMPLETED\<rparr>"
  show ?thesis
  proof (rule rx_ok_update [OF ok len i])
    show "slot_ok {} (upd_desc d (\<lambda>e. e\<lparr>vd_len := n\<rparr>) q) i ?r"
      using s d n inv by (simp add: slot_ok_def rx_len_ok_def) (simp add: upd_desc_def)
    show "vq_desc (upd_desc d (\<lambda>e. e\<lparr>vd_len := n\<rparr>) q) ! j = vq_desc q ! j" if "j \<noteq> rx_desc ?r" for j
      using that d by (simp add: upd_desc_def)
    have "{j. j < VIRTQ_NUM \<and> j \<notin> {} \<and> rx_state ((rx[i := ?r]) ! j) = NET_RX_COMPLETED} =
        insert i {j. j < VIRTQ_NUM \<and> j \<notin> {i} \<and> rx_state (rx ! j) = NET_RX_COMPLETED}"
      using i len by (auto simp: nth_list_update)
    then show "set (nc_items ring') = of_nat ` {j. j < VIRTQ_NUM \<and> j \<notin> {} \<and> rx_state ((rx[i := ?r]) ! j) = NET_RX_COMPLETED}"
      using ok ring' by (simp add: rx_ok_def)
  qed (use ok ring' room in \<open>auto simp: rx_ok_def\<close>)
qed


section \<open>The rounds of the interrupt handler\<close>

lemma net_inv_rx:
  assumes "net_inv v" and "rx_shape (vn_rx_queue v') (vn_rx v') (vn_rx_completions v')"
    and "vn_active v \<Longrightarrow> rx_ok {} (vn_rx_queue v') (vn_rx v') (vn_rx_completions v')"
    and "vn_tx_queue v' = vn_tx_queue v" "vn_tx v' = vn_tx v" "vn_pending_tx v' = vn_pending_tx v"
      "vn_active v' = vn_active v" "vn_failed v' = vn_failed v"
  shows "net_inv v'"
  using assms by (simp add: net_inv_def)

lemma net_fail_fields:
  "vn_rx_queue (net_fail_locked v) = vn_rx_queue v" "vn_rx (net_fail_locked v) = vn_rx v"
  "vn_rx_completions (net_fail_locked v) = vn_rx_completions v" "vn_tx_queue (net_fail_locked v) = vn_tx_queue v"
  "vn_tx (net_fail_locked v) = vn_tx v" "\<not> vn_active (net_fail_locked v)" "vn_failed (net_fail_locked v)"
  by (simp_all add: net_fail_locked_def vn_upd_defs Let_def)

lemma net_inv_fail:
  "rx_shape (vn_rx_queue v) (vn_rx v) (vn_rx_completions v) \<Longrightarrow> tx_shape (vn_tx_queue v) (vn_tx v) \<Longrightarrow> net_inv (net_fail_locked v)"
  by (simp add: net_inv_def net_fail_fields)

lemma net_inv_repost:
  assumes v: "net_inv v" and i: "i < VIRTQ_NUM"
    and s: "rx_desc (rx_slot v i) < VIRTQ_NUM" "rx_desc (rx_slot v i) \<notin> free_set q" "rx_desc (rx_slot v i) \<notin> active_set q"
    and q: "rx_shape q (vn_rx v) ring" and ok: "vn_active v \<Longrightarrow> rx_ok {i} q (vn_rx v) ring"
  shows "net_inv (net_repost_rx_locked i (v\<lparr>vn_rx_queue := q, vn_rx_completions := ring, vn_stats := t\<rparr>))"
proof -
  have len: "length (vn_rx v) = VIRTQ_NUM" using q by (simp add: rx_shape_def)
  show ?thesis
    using rx_shape_repost [OF q i s] rx_ok_repost [OF ok q i] i len
    by (intro net_inv_rx [OF v]) (simp_all add: net_repost_rx_fields)
qed

lemma net_find_rx_slot_Some:
  assumes "net_find_rx_slot_locked d v = Some i" and "length (vn_rx v) = VIRTQ_NUM"
  shows "i < VIRTQ_NUM" and "rx_descriptor (rx_slot v i) = d" and "rx_state (rx_slot v i) = NET_RX_POSTED"
  using assms find_index_SomeD [of _ "vn_rx v" i] by (auto simp: net_find_rx_slot_locked_def)

text \<open>After a pop the slot with the popped descriptor is the one being worked on.\<close>

lemma rx_pop_slot:
  assumes v: "net_inv v" and pop: "virtq_pop_used_len (vn_rx_queue v) = (r, Some (d, n), q)"
    and i: "i < VIRTQ_NUM" "rx_descriptor (rx_slot v i) = d" "rx_state (rx_slot v i) = NET_RX_POSTED"
  shows "rx_shape q (vn_rx v) (vn_rx_completions v)" and "rx_desc (rx_slot v i) < VIRTQ_NUM"
    and "rx_desc (rx_slot v i) \<notin> free_set q" and "rx_desc (rx_slot v i) \<notin> active_set q"
    and "vn_active v \<Longrightarrow> rx_ok {i} q (vn_rx v) (vn_rx_completions v)"
proof -
  have sh: "rx_shape (vn_rx_queue v) (vn_rx v) (vn_rx_completions v)" using v by (simp add: net_inv_def)
  then have inv: "vq_inv (vn_rx_queue v)" and len: "length (vn_rx v) = VIRTQ_NUM" by (simp_all add: rx_shape_def)
  note p = virtq_pop_sets [OF inv pop]
  show "rx_shape q (vn_rx v) (vn_rx_completions v)" using sh p(1) by (simp add: rx_shape_def)
  show "rx_desc (rx_slot v i) < VIRTQ_NUM" "rx_desc (rx_slot v i) \<notin> active_set q" using p(5) [of d n] i by auto
  show "rx_desc (rx_slot v i) \<notin> free_set q" using p(2) p(5) [of d n] i inv by (auto simp: vq_inv_def)
  show "rx_ok {i} q (vn_rx v) (vn_rx_completions v)" if "vn_active v"
    using posted_active [OF _ _ i inv p(2,3) _ len] p(5) [of d n] v that by (simp add: net_inv_def)
qed

lemma net_rx_complete_inv:
  assumes v: "net_inv v" and i: "i < VIRTQ_NUM" and d: "d = rx_desc (rx_slot v i)"
    and s: "d < VIRTQ_NUM" "d \<notin> free_set q" "d \<notin> active_set q"
    and q: "rx_shape q (vn_rx v) (vn_rx_completions v)" and ok: "vn_active v \<Longrightarrow> rx_ok {i} q (vn_rx v) (vn_rx_completions v)"
    and n: "VIRTIO_NET_HDR_SIZE + ETHERNET_HEADER_SIZE \<le> unat n" "unat n \<le> NET_SLOT_SIZE"
    and push: "net_completion_push (Some (vn_rx_completions v)) (of_nat i) = (0, ring)"
    and v': "vn_rx_queue v' = upd_desc d (\<lambda>e. e\<lparr>vd_len := n\<rparr>) q"
      "vn_rx v' = (vn_rx v)[i := (rx_slot v i)\<lparr>rx_state := NET_RX_COMPLETED\<rparr>]" "vn_rx_completions v' = the ring"
      "vn_tx_queue v' = vn_tx_queue v" "vn_tx v' = vn_tx v" "vn_pending_tx v' = vn_pending_tx v"
      "vn_active v' = vn_active v" "vn_failed v' = vn_failed v"
  shows "net_inv v'"
proof (rule net_inv_rx [OF v])
  have nc: "nc_inv (vn_rx_completions v)" and inv: "vq_inv q" using q by (simp_all add: rx_shape_def)
  note p = net_completion_push_cases [OF nc push]
  then have r: "nc_inv (the ring)" "nc_items (the ring) = nc_items (vn_rx_completions v) @ [of_nat i]" by (simp_all split: if_splits)
  have "length (rx_bytes (rx_slot v i)) = NET_SLOT_SIZE" using q i by (simp add: rx_shape_def)
  then show "rx_shape (vn_rx_queue v') (vn_rx v') (vn_rx_completions v')"
    unfolding v' using upd_desc_inv [OF inv s(2)] r(1) by (intro rx_shape_upd [OF q]) simp_all
  show "rx_ok {} (vn_rx_queue v') (vn_rx v') (vn_rx_completions v')" if "vn_active v"
    unfolding v' using rx_ok_complete [OF ok [OF that] q i d n r(2)] .
qed (use v' in simp_all)

lemma net_rx_drop_full:
  assumes v: "net_inv v" and i: "i < VIRTQ_NUM" and d: "d = rx_desc (rx_slot v i)"
    and s: "d < VIRTQ_NUM" "d \<notin> free_set q" "d \<notin> active_set q"
    and q: "rx_shape q (vn_rx v) (vn_rx_completions v)" and ok: "vn_active v \<Longrightarrow> rx_ok {i} q (vn_rx v) (vn_rx_completions v)"
    and push: "net_completion_push (Some (vn_rx_completions v)) (of_nat i) = (r, ring)" "r < 0"
    and v1: "v1 = v\<lparr>vn_rx_queue := upd_desc d (\<lambda>e. e\<lparr>vd_len := n\<rparr>) q,
      vn_rx := (vn_rx v)[i := (rx_slot v i)\<lparr>rx_state := NET_RX_COMPLETED\<rparr>]\<rparr>"
  shows "net_inv (net_drop_rx_locked i v1)"
proof -
  have nc: "nc_inv (vn_rx_completions v)" and inv: "vq_inv q" and len: "length (vn_rx v) = VIRTQ_NUM"
    using q by (simp_all add: rx_shape_def)
  have inactive: "\<not> vn_active v"
    using net_completion_push_cases [OF nc push(1)] ring_room(1) [OF ok i nc] push(2) by auto
  have "length (rx_bytes (rx_slot v i)) = NET_SLOT_SIZE" using q i by (simp add: rx_shape_def)
  then have sh: "rx_shape (vn_rx_queue v1) (vn_rx v1) (vn_rx_completions v1)"
    using upd_desc_inv [OF inv s(2)] nc by (simp add: v1, intro rx_shape_upd [OF q]) simp_all
  have v1': "net_inv v1" using v inactive sh by (simp add: net_inv_def v1)
  have "rx_desc (rx_slot v1 i) = d" using i len d by (simp add: v1)
  moreover have "vn_rx_queue v1 = upd_desc d (\<lambda>e. e\<lparr>vd_len := n\<rparr>) q" "\<not> vn_active v1" using inactive by (simp_all add: v1)
  ultimately have "net_inv (net_repost_rx_locked i (v1\<lparr>vn_rx_queue := vn_rx_queue v1, vn_rx_completions := vn_rx_completions v1,
      vn_stats := t\<rparr>))" for t
    using s by (intro net_inv_repost [OF v1' i _ _ _ sh]) simp_all
  then show ?thesis by (simp add: net_drop_rx_locked_def upd_stats_def)
qed

lemma net_rx_round_inv:
  assumes v: "net_inv v"
  shows "net_inv (snd (net_rx_round v))"
proof -
  have sh: "rx_shape (vn_rx_queue v) (vn_rx v) (vn_rx_completions v)" and tx: "tx_shape (vn_tx_queue v) (vn_tx v)"
    using v by (simp_all add: net_inv_def)
  then have inv: "vq_inv (vn_rx_queue v)" and len: "length (vn_rx v) = VIRTQ_NUM" by (simp_all add: rx_shape_def)
  obtain r out q where pop: "virtq_pop_used_len (vn_rx_queue v) = (r, out, q)" by (metis prod_cases3)
  let ?v = "v\<lparr>vn_rx_queue := q\<rparr>"
  have sq: "rx_shape q (vn_rx v) (vn_rx_completions v)" using sh virtq_pop_sets(1) [OF inv pop] by (simp add: rx_shape_def)
  then have fail: "net_inv (net_fail_locked ?v)" using tx by (intro net_inv_fail) simp_all
  show ?thesis
  proof (cases out)
    case None
    have "r = 0 \<Longrightarrow> q = vn_rx_queue v" using pop by (auto simp: virtq_pop_used_len_def Let_def split: if_splits)
    then have "r = 0 \<Longrightarrow> ?v = v" by simp
    with None v fail virtq_pop_sets(4) [OF inv pop None] show ?thesis
      by (cases "r = 0") (simp_all add: net_rx_round_def pop)
  next
    case (Some dn)
    obtain d n where dn: "dn = (d, n)" by (cases dn)
    have r: "r = 1" using virtq_pop_sets(5) [OF inv pop] Some dn by simp
    show ?thesis
    proof (cases "net_find_rx_slot_locked d ?v")
      case None
      with fail r Some dn show ?thesis by (simp add: net_rx_round_def pop)
    next
      case slot: (Some i)
      have i: "i < VIRTQ_NUM" "rx_descriptor (rx_slot v i) = d" "rx_state (rx_slot v i) = NET_RX_POSTED"
        using net_find_rx_slot_Some [OF slot] len by simp_all
      note p = rx_pop_slot [OF v pop [unfolded Some dn] i]
      have drop: "net_inv (net_drop_rx_locked i ?v)"
        using net_inv_repost [OF v i(1) p(2-4,1,5)] by (simp add: net_drop_rx_locked_def upd_stats_def)
      note parts = net_rx_round_def pop r Some dn slot
      consider "unat n > NET_SLOT_SIZE" | "unat n \<le> NET_SLOT_SIZE" "net_validate_header_locked i ?v < 0 \<or> unat n < VIRTIO_NET_HDR_SIZE + ETHERNET_HEADER_SIZE"
        | "unat n \<le> NET_SLOT_SIZE" "\<not> net_validate_header_locked i ?v < 0" "VIRTIO_NET_HDR_SIZE + ETHERNET_HEADER_SIZE \<le> unat n"
        by linarith
      then show ?thesis
      proof cases
        case 1
        with fail show ?thesis by (simp add: parts)
      next
        case 2
        with drop show ?thesis by (simp add: parts)
      next
        case 3
        obtain k ring where push: "net_completion_push (Some (vn_rx_completions v)) (of_nat i) = (k, ring)" by fastforce
        show ?thesis
        proof (cases "k < 0")
          case True
          have "net_inv (net_drop_rx_locked i (v\<lparr>vn_rx_queue := upd_desc (unat d) (\<lambda>e. e\<lparr>vd_len := n\<rparr>) q,
              vn_rx := (vn_rx v)[i := (rx_slot v i)\<lparr>rx_state := NET_RX_COMPLETED\<rparr>]\<rparr>))"
            using net_rx_drop_full [OF v i(1) refl p(2-4,1,5) push True refl] i(2) by simp
          then show ?thesis using 3 True push by (simp add: parts vn_upd_defs net_inv_def)
        next
          case False
          with net_completion_push_cases [OF _ push] sh have k: "k = 0" by (auto simp: rx_shape_def split: if_splits)
          show ?thesis
            using 3 push k i(2)
            by (intro net_rx_complete_inv [OF v i(1) refl p(2-4,1,5) 3(3,1) push [unfolded k]]) (simp_all add: parts vn_upd_defs)
        qed
      qed
    qed
  qed
qed

section \<open>Transmitting\<close>

text \<open>The device has published nothing that has not been taken.\<close>

definition idle :: "virtqueue \<Rightarrow> bool" where
  "idle q \<longleftrightarrow> backlog q = 0 \<and> length (vq_used_ring q) = VIRTQ_NUM"


lemma net_inv_tx:
  assumes "net_inv v" and "tx_shape (vn_tx_queue v') (vn_tx v')"
    and "vn_active v \<Longrightarrow> tx_ok (vn_tx_queue v') (vn_tx v') (vn_pending_tx v')"
    and "vn_rx_queue v' = vn_rx_queue v" "vn_rx v' = vn_rx v" "vn_rx_completions v' = vn_rx_completions v"
      "vn_active v' = vn_active v" "vn_failed v' = vn_failed v"
  shows "net_inv v'"
  using assms by (simp add: net_inv_def)

lemma virtq_free_single:
  assumes "unat d < VIRTQ_NUM" and "unat d \<notin> free_set q" and "unat d \<notin> active_set q"
    and "vd_flags (vq_desc q ! unat d) AND VRING_DESC_F_NEXT = 0"
  shows "virtq_free_chain d q = (1, release_desc (unat d) q)"
proof -
  have "\<not> vq_free q ! unat d" "\<not> vq_active q ! unat d" using assms by (simp_all add: free_set_def active_set_def)
  moreover from this have "free_chain_loop d [] q = Some [unat d]"
    using assms(1,4) by (subst free_chain_loop.simps) (simp add: VIRTQ_NUM_def)
  ultimately show ?thesis using assms(1) by (simp add: virtq_free_chain_def)
qed

lemma in_use_upd:
  "length tx = VIRTQ_NUM \<Longrightarrow> i < VIRTQ_NUM \<Longrightarrow>
   in_use (tx[i := t]) = (if tx_in_use t then insert i (in_use tx) else in_use tx - {i})"
  by (auto simp: in_use_def nth_list_update)

lemma finite_in_use [simp]: "finite (in_use tx)"
  by (simp add: in_use_def)

lemma tx_shape_upd:
  assumes "tx_shape q tx" and "vq_inv q'" and "length (tx_bytes t) = NET_SLOT_SIZE"
    and "\<And>d. d < VIRTQ_NUM \<Longrightarrow> vd_flags (vq_desc q' ! d) AND VRING_DESC_F_NEXT = 0"
  shows "tx_shape q' (tx[i := t])"
  using assms set_update_subset_insert [of tx i t] by (auto simp: tx_shape_def)

lemma tx_ok_done:
  assumes ok: "tx_ok q tx pending" and len: "length tx = VIRTQ_NUM" and i: "i \<in> in_use tx"
    and q': "free_set q' = insert (tx_desc (tx ! i)) (free_set q)" "active_set q' = active_set q - {tx_desc (tx ! i)}"
  shows "tx_ok q' (tx[i := (tx ! i)\<lparr>tx_in_use := False\<rparr>]) (pending - 1)"
proof -
  let ?d = "\<lambda>j. tx_desc (tx ! j)" and ?tx = "tx[i := (tx ! i)\<lparr>tx_in_use := False\<rparr>]"
  have i8: "i < VIRTQ_NUM" using i by (simp add: in_use_def)
  have u: "in_use ?tx = in_use tx - {i}" using in_use_upd [OF len i8] by simp
  have d: "tx_desc (?tx ! j) = ?d j" for j using len i8 by (cases "j = i") simp_all
  have inj: "inj_on ?d (in_use tx)" and im: "?d ` in_use tx = active_set q" and fr: "free_set q = {..<VIRTQ_NUM} - active_set q"
    and p: "pending = of_nat (card (in_use tx))" using ok by (simp_all add: tx_ok_def)
  have "?d ` (in_use tx - {i}) = active_set q - {?d i}"
    using inj_on_image_set_diff [OF inj, of "in_use tx" "{i}"] i im by simp
  moreover have "inj_on ?d (in_use tx - {i})" by (rule inj_on_subset [OF inj]) blast
  moreover have "card (in_use tx) = Suc (card (in_use tx - {i}))" using card_Suc_Diff1 [OF finite_in_use i] by simp
  then have "pending - 1 = of_nat (card (in_use tx - {i}))" by (simp add: p)
  moreover have "?d i \<in> active_set q" using i im by blast
  then have "?d i < VIRTQ_NUM" by (simp add: active_set_def)
  then have "free_set q' = {..<VIRTQ_NUM} - (active_set q - {?d i})" unfolding q'(1) fr by blast
  ultimately show ?thesis by (simp add: tx_ok_def u d q'(2))
qed

lemma net_find_tx_slot_Some:
  assumes "net_find_tx_slot_locked d v = Some i" and "length (vn_tx v) = VIRTQ_NUM"
  shows "i < VIRTQ_NUM" and "tx_in_use (tx_slot v i)" and "tx_descriptor (tx_slot v i) = d"
  using assms find_index_SomeD [of _ "vn_tx v" i] by (auto simp: net_find_tx_slot_locked_def)

lemma net_tx_round_inv:
  assumes v: "net_inv v"
  shows "net_inv (snd (net_tx_round v))"
proof -
  have rx: "rx_shape (vn_rx_queue v) (vn_rx v) (vn_rx_completions v)" and sh: "tx_shape (vn_tx_queue v) (vn_tx v)"
    using v by (simp_all add: net_inv_def)
  then have inv: "vq_inv (vn_tx_queue v)" and len: "length (vn_tx v) = VIRTQ_NUM" by (simp_all add: tx_shape_def)
  obtain r out q where pop: "virtq_pop_used_len (vn_tx_queue v) = (r, out, q)" by (metis prod_cases3)
  note p = virtq_pop_sets [OF inv pop]
  have sq: "tx_shape q (vn_tx v)" using sh p(1,3) by (simp add: tx_shape_def)
  have fail: "net_inv (net_fail_locked (v\<lparr>vn_tx_queue := q'\<rparr>))" if "tx_shape q' (vn_tx v)" for q'
    using that rx by (intro net_inv_fail) simp_all
  note parts = net_tx_round_def virtq_pop_used_def pop
  show ?thesis
  proof (cases out)
    case None
    have "r = 0 \<Longrightarrow> q = vn_tx_queue v" using pop by (auto simp: virtq_pop_used_len_def Let_def split: if_splits)
    then have "r = 0 \<Longrightarrow> v\<lparr>vn_tx_queue := q\<rparr> = v" by simp
    with None v fail [OF sq] p(4) [OF None] show ?thesis by (cases "r = 0") (simp_all add: parts)
  next
    case (Some dn)
    obtain d n where dn: "dn = (d, n)" by (cases dn)
    note p5 = p(5) [OF Some [unfolded dn]]
    then have r: "r = 1" and d8: "unat d < VIRTQ_NUM" by simp_all
    show ?thesis
    proof (cases "net_find_tx_slot_locked d (v\<lparr>vn_tx_queue := q\<rparr>)")
      case None
      with fail [OF sq] r Some dn show ?thesis by (simp add: parts)
    next
      case slot: (Some i)
      have i: "i < VIRTQ_NUM" "tx_in_use (tx_slot v i)" "tx_descriptor (tx_slot v i) = d"
        using net_find_tx_slot_Some [OF slot] len by simp_all
      have nf: "unat d \<notin> free_set q" "unat d \<notin> active_set q" using p(2) p5 inv by (auto simp: vq_inv_def)
      note free = virtq_free_single [OF d8 nf] and rel = release_desc_inv [OF p(1) d8 nf]
      have free': "virtq_free_chain d q = (1, release_desc (unat d) q)" using free sq d8 by (simp add: tx_shape_def)
      let ?tx = "(vn_tx v)[i := (tx_slot v i)\<lparr>tx_in_use := False\<rparr>]"
      have flags: "vd_flags (vq_desc (release_desc (unat d) q) ! j) AND VRING_DESC_F_NEXT = 0" if "j < VIRTQ_NUM" for j
        using that sq p(1) by (cases "j = unat d") (simp_all add: release_desc_def upd_desc_def Let_def tx_shape_def vq_inv_def desc_zero_def)
      have "length (tx_bytes (tx_slot v i)) = NET_SLOT_SIZE" using sq i by (simp add: tx_shape_def)
      then have sh': "tx_shape (release_desc (unat d) q) ?tx" by (intro tx_shape_upd [OF sq rel(1)]) (simp_all add: flags)
      have ok': "tx_ok (release_desc (unat d) q) ?tx (vn_pending_tx v - 1)" if "vn_active v"
        using that v i rel p5 p(2) len by (intro tx_ok_done) (simp_all add: net_inv_def in_use_def)
      show ?thesis
        using sh' ok' by (intro net_inv_tx [OF v]) (simp_all add: parts r Some dn slot free' vn_upd_defs)
    qed
  qed
qed

lemma net_rx_loop_inv: "net_inv v \<Longrightarrow> net_inv (net_rx_loop v)"
proof (induction v rule: net_rx_loop.induct)
  case (1 v)
  obtain c v' where r: "net_rx_round v = (c, v')" by fastforce
  with net_rx_round_inv [OF 1(2)] have "net_inv v'" by simp
  with 1(1) [OF r [symmetric] refl] r show ?case by (subst net_rx_loop.simps) simp
qed

lemma net_tx_loop_inv: "net_inv v \<Longrightarrow> net_inv (net_tx_loop v)"
proof (induction v rule: net_tx_loop.induct)
  case (1 v)
  obtain c v' where r: "net_tx_round v = (c, v')" by fastforce
  with net_tx_round_inv [OF 1(2)] have "net_inv v'" by simp
  with 1(1) [OF r [symmetric] refl] r show ?case by (subst net_tx_loop.simps) simp
qed

lemma virtio_net_intr_inv: "net_inv v \<Longrightarrow> net_inv (virtio_net_intr env v)"
  unfolding virtio_net_intr_def Let_def
  by (intro net_tx_loop_inv net_rx_loop_inv) (simp add: net_inv_def vn_upd_defs)

text \<open>Allocating one descriptor.\<close>

lemma virtq_alloc_single:
  assumes "vq_inv q"
  shows "free_set q = {} \<Longrightarrow> virtq_alloc_chain 1 q = (None, q)"
    and "free_set q \<noteq> {} \<Longrightarrow> \<exists>j q'. virtq_alloc_chain 1 q = (Some [j], q') \<and> j \<in> free_set q \<and> vq_inv q' \<and>
      free_set q' = free_set q - {j} \<and> active_set q' = active_set q \<and> idle q' = idle q \<and> vq_desc q' ! j = desc_zero \<and>
      (\<forall>d<VIRTQ_NUM. d \<noteq> j \<longrightarrow> vq_desc q' ! d = vq_desc q ! d)"
proof -
  show "virtq_alloc_chain 1 q = (None, q)" if "free_set q = {}"
    using alloc_desc_spec(1) [OF assms that] by (simp add: virtq_alloc_chain_def VIRTQ_NUM_def)
  assume "free_set q \<noteq> {}"
  from alloc_desc_spec(2) [OF assms this] obtain j where j: "j \<in> free_set q" "alloc_desc q = (Some j, take_desc j q)"
    by (auto simp: take_desc_def)
  have "virtq_alloc_chain 1 q = (Some [j], take_desc j q)" using j by (simp add: virtq_alloc_chain_def VIRTQ_NUM_def)
  moreover have "vq_desc (take_desc j q) = vq_desc q" "vq_desc q ! j = desc_zero"
    using assms j by (simp_all add: take_desc_def vq_inv_def)
  moreover have "idle (take_desc j q) = idle q" by (simp add: take_desc_def idle_def backlog_def)
  ultimately show "\<exists>j q'. virtq_alloc_chain 1 q = (Some [j], q') \<and> j \<in> free_set q \<and> vq_inv q' \<and>
      free_set q' = free_set q - {j} \<and> active_set q' = active_set q \<and> idle q' = idle q \<and> vq_desc q' ! j = desc_zero \<and>
      (\<forall>d<VIRTQ_NUM. d \<noteq> j \<longrightarrow> vq_desc q' ! d = vq_desc q ! d)"
    using take_desc_inv [OF assms j(1)] j(1) by (intro exI [of _ j] exI [of _ "take_desc j q"]) simp
qed

lemma tx_ok_new:
  assumes ok: "tx_ok q tx pending" and len: "length tx = VIRTQ_NUM" and i: "i < VIRTQ_NUM" "i \<notin> in_use tx"
    and t: "tx_in_use t" "tx_desc t = j" and j: "j \<in> free_set q"
    and q': "free_set q' = free_set q - {j}" "active_set q' = insert j (active_set q)"
  shows "tx_ok q' (tx[i := t]) (pending + 1)"
proof -
  let ?d = "\<lambda>k. tx_desc (tx ! k)" and ?tx = "tx[i := t]"
  have u: "in_use ?tx = insert i (in_use tx)" using in_use_upd [OF len i(1)] t by simp
  have d: "tx_desc (?tx ! k) = (if k = i then j else ?d k)" for k using len i(1) t by simp
  have inj: "inj_on ?d (in_use tx)" and im: "?d ` in_use tx = active_set q" and fr: "free_set q = {..<VIRTQ_NUM} - active_set q"
    and p: "pending = of_nat (card (in_use tx))" using ok by (simp_all add: tx_ok_def)
  have ne: "k \<noteq> i" if "k \<in> in_use tx" for k using that i(2) by blast
  have "j \<notin> ?d ` in_use tx" using j im fr by blast
  then have "inj_on (\<lambda>k. tx_desc (?tx ! k)) (insert i (in_use tx))"
    using inj i(2) ne by (auto simp: d inj_on_def)
  moreover have "(\<lambda>k. tx_desc (?tx ! k)) ` in_use tx = ?d ` in_use tx" using ne by (intro image_cong) (simp_all add: d)
  then have "(\<lambda>k. tx_desc (?tx ! k)) ` insert i (in_use tx) = insert j (active_set q)" using im d [of i] by simp
  moreover have "pending + 1 = of_nat (card (insert i (in_use tx)))" using i(2) p by simp
  moreover have "free_set q - {j} = {..<VIRTQ_NUM} - insert j (active_set q)" using fr by blast
  ultimately show ?thesis unfolding tx_ok_def u q' by blast
qed

lemma tx_free_desc:
  assumes "tx_ok q tx pending" and "i < VIRTQ_NUM" and "i \<notin> in_use tx"
  shows "free_set q \<noteq> {}"
proof
  assume "free_set q = {}"
  with assms(1) have "{..<VIRTQ_NUM} \<subseteq> (\<lambda>i. tx_desc (tx ! i)) ` in_use tx" by (auto simp: tx_ok_def)
  then have "VIRTQ_NUM \<le> card ((\<lambda>i. tx_desc (tx ! i)) ` in_use tx)" by (metis card_lessThan card_mono finite_imageI finite_in_use)
  also have "\<dots> \<le> card (in_use tx)" by (rule card_image_le) simp
  also have "\<dots> \<le> card ({..<VIRTQ_NUM} - {i})" using assms(3) by (intro card_mono) (auto simp: in_use_def)
  also have "\<dots> < VIRTQ_NUM" using assms(2) by (simp add: VIRTQ_NUM_def)
  finally show False by simp
qed

text \<open>Sending in an active driver: the frame is put into the slot and its descriptor handed to the device.\<close>

lemma net_send_locked_ok:
  assumes v: "net_inv v" and act: "vn_active v" and i: "i < VIRTQ_NUM" "\<not> tx_in_use (tx_slot v i)"
    and len: "unat len \<le> ETHERNET_MAX_FRAME" "unat len \<le> length frame"
  shows "\<exists>v' j. net_send_locked env frame len i v = (0, v') \<and> net_inv v' \<and> vn_active v' \<and>
    j \<in> free_set (vn_tx_queue v) \<and> active_set (vn_tx_queue v') = insert j (active_set (vn_tx_queue v)) \<and>
    vq_desc (vn_tx_queue v') ! j = \<lparr>vd_addr = tx_bytes_at env i, vd_len = of_nat VIRTIO_NET_HDR_SIZE + len, vd_flags = 0, vd_next = 0\<rparr> \<and>
    (\<forall>k. k \<noteq> i \<longrightarrow> tx_slot v' k = tx_slot v k) \<and>
    get_at 0 (VIRTIO_NET_HDR_SIZE + unat len) (tx_bytes (tx_slot v' i)) = replicate VIRTIO_NET_HDR_SIZE 0 @ take (unat len) frame"
proof -
  have sh: "tx_shape (vn_tx_queue v) (vn_tx v)" and ok: "tx_ok (vn_tx_queue v) (vn_tx v) (vn_pending_tx v)"
    using v act by (simp_all add: net_inv_def)
  then have inv: "vq_inv (vn_tx_queue v)" and ltx: "length (vn_tx v) = VIRTQ_NUM" and b: "length (tx_bytes (tx_slot v i)) = NET_SLOT_SIZE"
    using i by (simp_all add: tx_shape_def)
  have ni: "i \<notin> in_use (vn_tx v)" using i by (simp add: in_use_def)
  from virtq_alloc_single(2) [OF inv tx_free_desc [OF ok i(1) ni]] obtain j q
    where al: "virtq_alloc_chain 1 (vn_tx_queue v) = (Some [j], q)" and j: "j \<in> free_set (vn_tx_queue v)" and q: "vq_inv q"
      "free_set q = free_set (vn_tx_queue v) - {j}" "active_set q = active_set (vn_tx_queue v)" "vq_desc q ! j = desc_zero"
      and qo: "\<And>d. d < VIRTQ_NUM \<Longrightarrow> d \<noteq> j \<Longrightarrow> vq_desc q ! d = vq_desc (vn_tx_queue v) ! d" by blast
  have j8: "j < VIRTQ_NUM" and uj: "unat (of_nat j :: u16) = j" using j by (simp_all add: free_set_def)
  have na: "j \<notin> active_set (vn_tx_queue v)" using j inv by (auto simp: vq_inv_def)
  let ?f = "\<lambda>e. e\<lparr>vd_addr := tx_bytes_at env i, vd_len := of_nat VIRTIO_NET_HDR_SIZE + len\<rparr>"
  define q1 where "q1 = upd_desc j ?f q"
  have q1: "vq_inv q1" "free_set q1 = free_set q" "active_set q1 = active_set q" unfolding q1_def using q(2) by (simp_all add: upd_desc_inv [OF q(1)])
  have lq: "length (vq_desc q) = VIRTQ_NUM" using q(1) by (simp add: vq_inv_def)
  note sub = virtq_submit_sets [OF q1(1), of "of_nat j"]
  have sub': "vq_inv (virtq_submit (of_nat j) q1)" "free_set (virtq_submit (of_nat j) q1) = free_set (vn_tx_queue v) - {j}"
    "active_set (virtq_submit (of_nat j) q1) = insert j (active_set (vn_tx_queue v))" "vq_desc (virtq_submit (of_nat j) q1) = vq_desc q1"
    using sub j8 uj q q1 na by simp_all
  define t where "t = (tx_slot v i)\<lparr>tx_bytes := put_at VIRTIO_NET_HDR_SIZE (take (unat len) frame)
      (put_at 0 (replicate VIRTIO_NET_HDR_SIZE 0) (tx_bytes (tx_slot v i))), tx_descriptor := of_nat j, tx_in_use := True\<rparr>"
  define v' where "v' = v\<lparr>vn_tx_queue := virtq_submit (of_nat j) q1, vn_tx := (vn_tx v)[i := t], vn_pending_tx := vn_pending_tx v + 1,
      vn_mmio := virtio_mmio_notify VIRTIO_NET_TX_QUEUE (vn_mmio v)\<rparr>"
  have send: "net_send_locked env frame len i v = (0, v')"
    by (simp add: net_send_locked_def al vn_upd_defs v'_def q1_def t_def Let_def)
  have fl: "length (take (unat len) frame) = unat len" using len(2) by simp
  have flags: "vd_flags (vq_desc q1 ! d) AND VRING_DESC_F_NEXT = 0" if "d < VIRTQ_NUM" for d
    using that sh lq q(4) qo [OF that] by (cases "d = j") (simp_all add: q1_def upd_desc_def tx_shape_def desc_zero_def)
  have tl: "length (tx_bytes t) = NET_SLOT_SIZE" using b len fl by (simp add: t_def)
  have "tx_shape (virtq_submit (of_nat j) q1) ((vn_tx v)[i := t])"
    using flags sub' tl by (intro tx_shape_upd [OF sh]) simp_all
  moreover have "tx_ok (virtq_submit (of_nat j) q1) ((vn_tx v)[i := t]) (vn_pending_tx v + 1)"
    using sub' j uj by (intro tx_ok_new [OF ok ltx i(1) ni]) (simp_all add: t_def)
  ultimately have "net_inv v'" by (intro net_inv_tx [OF v]) (simp_all add: v'_def)
  moreover have "vq_desc (vn_tx_queue v') ! j = \<lparr>vd_addr = tx_bytes_at env i, vd_len = of_nat VIRTIO_NET_HDR_SIZE + len, vd_flags = 0, vd_next = 0\<rparr>"
    using lq j8 q(4) sub'(4) by (simp add: v'_def q1_def upd_desc_def desc_zero_def)
  moreover have "get_at 0 (VIRTIO_NET_HDR_SIZE + unat len) (tx_bytes t) = replicate VIRTIO_NET_HDR_SIZE 0 @ take (unat len) frame"
    using b len(1) fl by (simp add: t_def get_at_def put_at_def)
  ultimately show ?thesis using send act sub'(3) j i(1) ltx by (intro exI [of _ v'] exI [of _ j]) (simp add: v'_def)
qed

section \<open>Delivering\<close>

lemma net_completion_pop_cases:
  assumes "nc_inv ring" and "net_completion_pop (Some ring) (Some x0) = (r, slot, ring')"
  shows "nc_items ring = [] \<Longrightarrow> r = 0 \<and> ring' = Some ring"
    and "nc_items ring = x # xs \<Longrightarrow> r = 1 \<and> slot = Some x \<and> nc_inv (the ring') \<and> nc_items (the ring') = xs"
proof -
  have c: "nc_items ring = [] \<longleftrightarrow> nc_count ring = 0"
    using nc_items_length [of ring] by (metis length_0_conv unsigned_eq_0_iff)
  then show "nc_items ring = [] \<Longrightarrow> r = 0 \<and> ring' = Some ring" using assms(2) by (auto simp: net_completion_pop_def)
  show "r = 1 \<and> slot = Some x \<and> nc_inv (the ring') \<and> nc_items (the ring') = xs" if it: "nc_items ring = x # xs"
  proof -
    have "nc_count ring \<noteq> 0" using c it by auto
    then have "nc_pop ring = (slot, the ring')" and r: "r = 1"
      using assms(2) by (auto simp: nc_pop_def net_completion_pop_def)
    with nc.pop_first [OF assms(1) it] show ?thesis by blast
  qed
qed

lemma rx_ok_take:
  assumes ok: "rx_ok {} q rx ring" and len: "length rx = VIRTQ_NUM" and it: "nc_items ring = x # xs" and it': "nc_items ring' = xs"
  shows "\<exists>i<VIRTQ_NUM. x = of_nat i \<and> rx_state (rx ! i) = NET_RX_COMPLETED \<and> rx_len_ok q (rx ! i) \<and> rx_ok {i} q rx ring'"
proof -
  let ?S = "{j. j < VIRTQ_NUM \<and> j \<notin> {} \<and> rx_state (rx ! j) = NET_RX_COMPLETED}"
  have set: "insert x (set xs) = of_nat ` ?S" and dist: "x \<notin> set xs" "distinct xs" using ok it by (auto simp: rx_ok_def)
  then obtain i where i: "i < VIRTQ_NUM" "rx_state (rx ! i) = NET_RX_COMPLETED" "x = of_nat i" by auto
  have s: "rx_len_ok q (rx ! i)" "slot_ok {i} q i (rx ! i)" using rx_okD(2) [OF ok i(1)] i(2) by (auto simp: slot_ok_def)
  have inj: "inj_on (of_nat :: nat \<Rightarrow> u16) {..<VIRTQ_NUM}" by (rule inj_onI) (metis VIRTQ_NUM_u16 lessThan_iff)
  have "set xs = of_nat ` ?S - {of_nat i}" using set dist(1) i(3) by auto
  also have "\<dots> = of_nat ` (?S - {i})"
    using inj_on_image_set_diff [OF inj, of ?S "{i}"] i(1) by (subst inj_on_image_set_diff [OF inj]) auto
  also have "?S - {i} = {j. j < VIRTQ_NUM \<and> j \<notin> {i} \<and> rx_state ((rx[i := rx ! i]) ! j) = NET_RX_COMPLETED}" by auto
  finally have xs: "set (nc_items ring') = of_nat ` {j. j < VIRTQ_NUM \<and> j \<notin> {i} \<and> rx_state ((rx[i := rx ! i]) ! j) = NET_RX_COMPLETED}"
    by (simp only: it')
  have "rx_ok {i} q (rx[i := rx ! i]) ring'"
    by (rule rx_ok_update [OF ok len i(1)]) (use s dist it' xs in auto)
  then show ?thesis using i s by auto
qed

text \<open>Reception in an active driver never reads outside the slot, and gives up a frame of legal size.\<close>

lemma net_receive_locked_ok:
  assumes v: "net_inv v"
  shows "\<exists>r bytes v'. net_receive_locked g capacity v = Some (r, bytes, v') \<and> net_inv v' \<and> vn_active v' = vn_active v \<and>
    (r = 0 \<or> r = -1) \<and> (r = 0 \<longrightarrow> ETHERNET_HEADER_SIZE \<le> length bytes \<and> length bytes \<le> ETHERNET_MAX_FRAME \<and> length bytes \<le> unat capacity)"
proof (cases "\<not> vn_active v \<or> vn_failed v \<or> g \<noteq> st_resets (vn_stats v)")
  case True
  with v show ?thesis by (simp add: net_receive_locked_def)
next
  case False
  then have sh: "rx_shape (vn_rx_queue v) (vn_rx v) (vn_rx_completions v)"
    and ok: "rx_ok {} (vn_rx_queue v) (vn_rx v) (vn_rx_completions v)" using v by (simp_all add: net_inv_def)
  then have nc: "nc_inv (vn_rx_completions v)" and len: "length (vn_rx v) = VIRTQ_NUM" by (simp_all add: rx_shape_def)
  obtain r slot ring where pop: "net_completion_pop (Some (vn_rx_completions v)) (Some 0) = (r, slot, ring)" by (metis prod_cases3)
  note p = net_completion_pop_cases [OF nc pop]
  note parts = net_receive_locked_def False pop
  show ?thesis
  proof (cases "nc_items (vn_rx_completions v)")
    case Nil
    with p(1) v show ?thesis by (simp add: parts net_inv_def)
  next
    case (Cons x xs)
    note p2 = p(2) [OF Cons]
    then have ring: "nc_items (the ring) = xs" "nc_inv (the ring)" by simp_all
    from rx_ok_take [OF ok len Cons ring(1)] obtain i where i: "i < VIRTQ_NUM" "x = of_nat i"
      "rx_state (rx_slot v i) = NET_RX_COMPLETED" "rx_len_ok (vn_rx_queue v) (rx_slot v i)"
      and ok1: "rx_ok {i} (vn_rx_queue v) (vn_rx v) (the ring)" by blast
    have s: "rx_desc (rx_slot v i) < VIRTQ_NUM" "rx_desc (rx_slot v i) \<notin> free_set (vn_rx_queue v)"
      "rx_desc (rx_slot v i) \<notin> active_set (vn_rx_queue v)" using rx_okD(2) [OF ok1 i(1)] by (simp_all add: slot_ok_def)
    have sh1: "rx_shape (vn_rx_queue v) (vn_rx v) (the ring)" using sh ring by (simp add: rx_shape_def)
    have rep: "net_inv (net_repost_rx_locked i (v\<lparr>vn_rx_completions := the ring, vn_stats := t\<rparr>))" for t
      using net_inv_repost [OF v i(1) s sh1 ok1, of t] by simp
    have act: "vn_active (net_repost_rx_locked i (v\<lparr>vn_rx_completions := the ring, vn_stats := t\<rparr>)) = vn_active v" for t
      using i(1) len by (simp add: net_repost_rx_fields)
    define n where "n = vd_len (vq_desc (vn_rx_queue v) ! rx_desc (rx_slot v i)) - of_nat VIRTIO_NET_HDR_SIZE"
    have un: "unat n = unat (vd_len (vq_desc (vn_rx_queue v) ! rx_desc (rx_slot v i))) - VIRTIO_NET_HDR_SIZE"
      using i(4) by (simp add: n_def rx_len_ok_def unat_sub_if' VIRTIO_NET_HDR_SIZE_def)
    then have nb: "ETHERNET_HEADER_SIZE \<le> unat n" "unat n \<le> ETHERNET_MAX_FRAME"
      using i(4) un unfolding rx_len_ok_def by linarith+
    have b: "length (rx_bytes (rx_slot v i)) = NET_SLOT_SIZE" using sh i(1) by (simp add: rx_shape_def)
    have ui: "unat (of_nat i :: u16) = i" using i(1) by simp
    show ?thesis
      using p2 i nb b rep act False ui
      by (cases "capacity < n") (simp_all add: parts upd_stats_def n_def [symmetric] word_less_nat_alt)
  qed
qed

section \<open>Starting\<close>

text \<open>The first \<open>k\<close> slots are posted and own the descriptors that are not free.\<close>

definition posted :: "nat \<Rightarrow> virtqueue \<Rightarrow> net_rx_slot list \<Rightarrow> bool" where
  "posted k q rx \<longleftrightarrow> inj_on (\<lambda>i. rx_desc (rx ! i)) {..<k} \<and> (\<lambda>i. rx_desc (rx ! i)) ` {..<k} = active_set q \<and>
     free_set q = {..<VIRTQ_NUM} - active_set q \<and> (\<forall>i<k. rx_state (rx ! i) = NET_RX_POSTED) \<and> idle q"

lemma posted_all:
  assumes "posted VIRTQ_NUM q rx" and "nc_items ring = []"
  shows "rx_ok {} q rx ring"
proof -
  have "rx_desc (rx ! i) \<in> active_set q" if "i < VIRTQ_NUM" for i using assms(1) that by (auto simp: posted_def)
  moreover from this have "rx_desc (rx ! i) < VIRTQ_NUM" if "i < VIRTQ_NUM" for i using that by (simp add: active_set_def)
  ultimately show ?thesis using assms by (auto simp: rx_ok_def slot_ok_def posted_def)
qed

lemma posted_free:
  assumes "posted k q rx" and "k < VIRTQ_NUM"
  shows "free_set q \<noteq> {}"
proof
  assume "free_set q = {}"
  with assms(1) have "{..<VIRTQ_NUM} \<subseteq> (\<lambda>i. rx_desc (rx ! i)) ` {..<k}" by (auto simp: posted_def)
  then have "VIRTQ_NUM \<le> card ((\<lambda>i. rx_desc (rx ! i)) ` {..<k})" by (metis card_lessThan card_mono finite_imageI finite_lessThan)
  also have "\<dots> \<le> k" using card_image_le [of "{..<k}"] by simp
  finally show False using assms(2) by simp
qed

lemma posted_Suc:
  assumes "posted k q rx" and "k < VIRTQ_NUM" and "length rx = VIRTQ_NUM" and "j \<in> free_set q"
    and "free_set q' = free_set q - {j}" and "active_set q' = insert j (active_set q)"
    and "idle q' = idle q" and r: "rx_desc r = j" "rx_state r = NET_RX_POSTED"
  shows "posted (Suc k) q' (rx[k := r])"
proof -
  have d: "rx_desc ((rx[k := r]) ! i) = (if i = k then j else rx_desc (rx ! i))" for i using assms by simp
  have ims: "(\<lambda>i. rx_desc ((rx[k := r]) ! i)) ` {..<k} = active_set q"
    using assms(1) by (simp add: posted_def d cong: image_cong_simp)
  have inj: "inj_on (\<lambda>i. rx_desc ((rx[k := r]) ! i)) {..<k}" using assms(1) by (auto simp: posted_def inj_on_def d)
  have "j \<notin> active_set q" using assms(1,4) by (auto simp: posted_def)
  then have "inj_on (\<lambda>i. rx_desc ((rx[k := r]) ! i)) {..<Suc k}"
    unfolding lessThan_Suc using inj ims by (simp only: inj_on_insert) (simp add: d [of k])
  moreover have "(\<lambda>i. rx_desc ((rx[k := r]) ! i)) ` {..<Suc k} = insert j (active_set q)"
    unfolding lessThan_Suc image_insert ims by (simp add: d [of k])
  moreover have "free_set q' = {..<VIRTQ_NUM} - insert j (active_set q)" using assms(1,5) by (auto simp: posted_def)
  moreover have "\<forall>i<Suc k. rx_state ((rx[k := r]) ! i) = NET_RX_POSTED"
    using assms(1-3) r by (auto simp: posted_def less_Suc_eq)
  ultimately show ?thesis using assms(1,6,7) by (simp add: posted_def)
qed

lemma idle_simps [simp]: "idle (upd_desc i f q) = idle q" "idle (virtq_submit h q) = idle q"
  by (simp_all add: idle_def backlog_def upd_desc_def virtq_submit_def)

lemma net_post_rx_ok:
  assumes sh: "rx_shape (vn_rx_queue v) (vn_rx v) ring" and k: "k < VIRTQ_NUM" and p: "posted k (vn_rx_queue v) (vn_rx v)"
  shows "\<exists>q rx. net_post_rx_locked env k v = (0, v\<lparr>vn_rx_queue := q, vn_rx := rx\<rparr>) \<and> rx_shape q rx ring \<and> posted (Suc k) q rx"
proof -
  have inv: "vq_inv (vn_rx_queue v)" and len: "length (vn_rx v) = VIRTQ_NUM" and nc: "nc_inv ring" using sh by (simp_all add: rx_shape_def)
  from virtq_alloc_single(2) [OF inv posted_free [OF p k]] obtain j q
    where al: "virtq_alloc_chain 1 (vn_rx_queue v) = (Some [j], q)" and j: "j \<in> free_set (vn_rx_queue v)" and q: "vq_inv q"
      "free_set q = free_set (vn_rx_queue v) - {j}" "active_set q = active_set (vn_rx_queue v)" "idle q = idle (vn_rx_queue v)"
    by blast
  have j8: "j < VIRTQ_NUM" and uj: "unat (of_nat j :: u16) = j" using j by (simp_all add: free_set_def)
  have na: "j \<notin> active_set (vn_rx_queue v)" using j inv by (auto simp: vq_inv_def)
  define q1 where "q1 = upd_desc j (\<lambda>d. d\<lparr>vd_addr := rx_bytes_at env k, vd_len := of_nat NET_SLOT_SIZE, vd_flags := VRING_DESC_F_WRITE\<rparr>) q"
  have q1: "vq_inv q1" "free_set q1 = free_set q" "active_set q1 = active_set q" unfolding q1_def using q(2) by (simp_all add: upd_desc_inv [OF q(1)])
  note sub = virtq_submit_sets [OF q1(1), of "of_nat j"]
  define r where "r = (rx_slot v k)\<lparr>rx_bytes := replicate NET_SLOT_SIZE 0, rx_descriptor := of_nat j, rx_state := NET_RX_POSTED\<rparr>"
  have "net_post_rx_locked env k v = (0, v\<lparr>vn_rx_queue := virtq_submit (of_nat j) q1, vn_rx := (vn_rx v)[k := r]\<rparr>)"
    by (simp add: net_post_rx_locked_def al vn_upd_defs q1_def r_def Let_def)
  moreover have "rx_shape (virtq_submit (of_nat j) q1) ((vn_rx v)[k := r]) ring"
    using sub j8 uj q q1 na nc by (intro rx_shape_upd [OF sh]) (simp_all add: r_def)
  moreover have "posted (Suc k) (virtq_submit (of_nat j) q1) ((vn_rx v)[k := r])"
    using sub j8 uj q q1 na j by (intro posted_Suc [OF p k len]) (simp_all add: r_def q1_def)
  ultimately show ?thesis by blast
qed

lemma net_post_all_ok:
  assumes "rx_shape (vn_rx_queue v) (vn_rx v) ring" and "k \<le> VIRTQ_NUM" and "posted k (vn_rx_queue v) (vn_rx v)"
  shows "\<exists>q rx. net_post_all env [k..<VIRTQ_NUM] v = (True, v\<lparr>vn_rx_queue := q, vn_rx := rx\<rparr>) \<and> rx_shape q rx ring \<and>
    posted VIRTQ_NUM q rx"
  using assms
proof (induction "VIRTQ_NUM - k" arbitrary: k v)
  case 0
  then show ?case by (intro exI [of _ "vn_rx_queue v"] exI [of _ "vn_rx v"]) simp
next
  case (Suc m)
  then have k: "k < VIRTQ_NUM" by simp
  from net_post_rx_ok [OF Suc(3) k Suc(5)] obtain q rx
    where p: "net_post_rx_locked env k v = (0, v\<lparr>vn_rx_queue := q, vn_rx := rx\<rparr>)" "rx_shape q rx ring" "posted (Suc k) q rx" by blast
  have "m = VIRTQ_NUM - Suc k" using Suc(2) by simp
  from Suc(1) [OF this, of "v\<lparr>vn_rx_queue := q, vn_rx := rx\<rparr>"] p k obtain q' rx'
    where "net_post_all env [Suc k..<VIRTQ_NUM] (v\<lparr>vn_rx_queue := q, vn_rx := rx\<rparr>) = (True, v\<lparr>vn_rx_queue := q', vn_rx := rx'\<rparr>)"
      "rx_shape q' rx' ring" "posted VIRTQ_NUM q' rx'" by auto
  with p(1) upt_conv_Cons [OF k] show ?case by (intro exI [of _ q'] exI [of _ rx']) simp
qed

definition net_shape :: "virtio_net \<Rightarrow> bool" where
  "net_shape v \<longleftrightarrow> rx_shape (vn_rx_queue v) (vn_rx v) (vn_rx_completions v) \<and> tx_shape (vn_tx_queue v) (vn_tx v)"

lemma net_inv_shape: "net_inv v \<Longrightarrow> net_shape v"
  by (simp add: net_inv_def net_shape_def)

lemma net_inv_inactive: "net_shape v \<Longrightarrow> \<not> vn_active v \<Longrightarrow> net_inv v"
  by (simp add: net_inv_def net_shape_def)

text \<open>A queue as \<^verbatim>\<open>virtq_init\<close> leaves it.\<close>

definition fresh :: "virtqueue \<Rightarrow> bool" where
  "fresh q \<longleftrightarrow> vq_inv q \<and> free_set q = {..<VIRTQ_NUM} \<and> active_set q = {} \<and> vq_desc q = replicate VIRTQ_NUM desc_zero \<and>
     idle q"

lemma net_setup_queue_cases:
  assumes "net_setup_queue env n pages q m = (r, q', m')"
  shows "if r < 0 then q' = q else fresh q'"
proof (cases "virtq_init (Some q) (Some pages) (of_nat VIRTQ_NUM)")
  case (Pair r1 q1)
  have c: "r1 = 0 \<and> fresh (the q1) \<or> r1 = -1 \<and> q1 = Some q"
  proof (cases "pages AND (VIRTQ_PAGE_SIZE - 1) = 0")
    case True
    with Pair have p: "virtq_init (Some q) (Some pages) (of_nat VIRTQ_NUM) = (0, Some (the q1))" "r1 = 0"
      by (auto simp: virtq_init_def)
    from Pair True have "vq_desc (the q1) = replicate VIRTQ_NUM desc_zero" "idle (the q1)"
      by (auto simp: virtq_init_def idle_def backlog_def)
    with virtq_init_inv [OF p(1)] p(2) show ?thesis by (simp add: fresh_def)
  next
    case False
    with Pair show ?thesis by (simp add: virtq_init_def)
  qed
  have "r = -1 \<and> q' = q \<or> r = -1 \<and> r1 < 0 \<and> q' = the q1 \<or> r = 0 \<and> \<not> r1 < 0 \<and> q' = the q1"
    using assms Pair
    by (simp add: net_setup_queue_def virtio_mmio_setup_queue_def case_prod_beta Let_def split: if_splits)
  with c show ?thesis by auto
qed

lemma net_read_mac_fields:
  assumes "net_read_mac env n i v = (ok, v')"
  shows "\<exists>m b. v' = v\<lparr>vn_mmio := m, vn_mac := b\<rparr>"
  using assms
proof (induction env n i v rule: net_read_mac.induct)
  case (1 env i v)
  then show ?case by (intro exI [of _ "vn_mmio v"] exI [of _ "vn_mac v"]) simp
next
  case (2 env n i v)
  obtain b m where c: "virtio_mmio_config8 env (of_nat i) (vn_mmio v) = (b, m)" by fastforce
  let ?v = "v\<lparr>vn_mmio := m, vn_mac := (vn_mac v)[i := b]\<rparr>"
  show ?case
  proof (cases "vn_mac ?v ! i \<noteq> expected_mac ! i")
    case True
    with 2(2) c show ?thesis by auto
  next
    case False
    with 2(2) c have "net_read_mac env n (Suc i) ?v = (ok, v')" by simp
    from 2(1) [OF c [symmetric] refl refl False this] show ?thesis by auto
  qed
qed

lemma tx_ok_fresh:
  assumes "fresh q" and "\<And>t. t \<in> set tx \<Longrightarrow> \<not> tx_in_use t" and "length tx = VIRTQ_NUM"
  shows "tx_ok q tx 0"
proof -
  have "in_use tx = {}" using assms(2,3) by (auto simp: in_use_def)
  with assms(1) show ?thesis by (simp add: tx_ok_def fresh_def)
qed

text \<open>A driver that has just been started: nothing completed, nothing being sent.\<close>

definition started :: "virtio_net \<Rightarrow> bool" where
  "started v \<longleftrightarrow> vn_active v \<and> nc_items (vn_rx_completions v) = [] \<and> in_use (vn_tx v) = {} \<and>
     idle (vn_rx_queue v) \<and> idle (vn_tx_queue v)"

text \<open>Before the queues are set up no slot is in use and the completion ring is empty.\<close>

definition cleared :: "virtio_net \<Rightarrow> bool" where
  "cleared v \<longleftrightarrow> net_shape v \<and> \<not> vn_active v \<and> vn_pending_tx v = 0 \<and> nc_items (vn_rx_completions v) = [] \<and>
     (\<forall>t\<in>set (vn_tx v). \<not> tx_in_use t)"

lemma net_clear_cleared:
  assumes "net_shape v" shows "cleared (net_clear v)"
proof -
  let ?ring = "vn_rx_completions (net_clear v)"
  have "nc_inv ?ring" "nc_items ?ring = []"
    using assms by (simp_all add: net_clear_def net_completion_init_def net_shape_def rx_shape_def nc_inv_def nc_items_def
        NET_COMPLETION_CAPACITY_def)
  with assms show ?thesis
    by (auto simp: cleared_def net_shape_def rx_shape_def tx_shape_def) (auto simp: net_clear_def)
qed

lemma net_start_queues_cases:
  assumes v: "cleared v" and start: "net_start_queues env v = (ok, v')"
  shows "net_inv v' \<and> vn_active v' = ok \<and> vn_stats v' = vn_stats v \<and> vn_resetting v' = vn_resetting v \<and> (ok \<longrightarrow> started v')"
proof -
  obtain r3 q3 m3 where rxq: "net_setup_queue env VIRTIO_NET_RX_QUEUE (rx_pages env) (vn_rx_queue v) (vn_mmio v) = (r3, q3, m3)"
    by (metis prod_cases3)
  obtain r4 q4 m4 where txq: "net_setup_queue env VIRTIO_NET_TX_QUEUE (tx_pages env) (vn_tx_queue v) m3 = (r4, q4, m4)"
    by (metis prod_cases3)
  note c3 = net_setup_queue_cases [OF rxq] and c4 = net_setup_queue_cases [OF txq]
  have sh: "rx_shape (vn_rx_queue v) (vn_rx v) (vn_rx_completions v)" "tx_shape (vn_tx_queue v) (vn_tx v)"
    using v by (simp_all add: cleared_def net_shape_def)
  have rs: "rx_shape q3 (vn_rx v) (vn_rx_completions v)" using sh(1) c3 by (auto simp: rx_shape_def fresh_def split: if_splits)
  have ts: "tx_shape q4 (vn_tx v)" using sh(2) c4 by (auto simp: tx_shape_def fresh_def desc_zero_def split: if_splits)
  show ?thesis
  proof (cases "r3 < 0 \<or> r4 < 0")
    case True
    with start rxq txq have "\<not> ok \<and> (v' = v\<lparr>vn_rx_queue := q3, vn_mmio := m3\<rparr> \<or>
        v' = v\<lparr>vn_rx_queue := q3, vn_tx_queue := q4, vn_mmio := m4\<rparr>)"
      by (cases "r3 < 0") (auto simp: net_start_queues_def)
    with v sh rs ts show ?thesis by (auto simp: cleared_def net_shape_def intro!: net_inv_inactive)
  next
    case False
    with c3 c4 have f: "fresh q3" "fresh q4" by simp_all
    let ?v = "v\<lparr>vn_rx_queue := q3, vn_tx_queue := q4, vn_mmio := m4\<rparr>"
    have "posted 0 q3 (vn_rx v)" using f by (simp add: posted_def fresh_def)
    with net_post_all_ok [of ?v "vn_rx_completions v" 0 env] rs obtain q rx
      where p: "net_post_all env [0..<VIRTQ_NUM] ?v = (True, ?v\<lparr>vn_rx_queue := q, vn_rx := rx\<rparr>)"
        "rx_shape q rx (vn_rx_completions v)" "posted VIRTQ_NUM q rx" by auto
    have "tx_ok q4 (vn_tx v) 0" using v sh(2) by (intro tx_ok_fresh [OF f(2)]) (auto simp: cleared_def tx_shape_def)
    moreover have "in_use (vn_tx v) = {}" using v sh(2) by (auto simp: cleared_def in_use_def tx_shape_def)
    moreover have "idle q" "idle q4" using p(3) f(2) by (simp_all add: posted_def fresh_def)
    ultimately show ?thesis
      using start rxq txq False p ts v posted_all [OF p(3)]
      by (auto simp: net_start_queues_def cleared_def net_inv_def upd_bus_def started_def)
  qed
qed

lemma net_start_cases:
  assumes v: "net_shape v" and start: "net_start_try env v = (ok, v')"
  shows "net_inv v' \<and> vn_active v' = ok \<and> vn_stats v' = vn_stats v \<and> vn_resetting v' = vn_resetting v \<and> (ok \<longrightarrow> started v')"
proof -
  obtain r f m where init: "virtio_mmio_init env VIRTIO1 VIRTIO_NET_DEVICE_ID VIRTIO_NET_REJECTED_FEATURES
      VIRTIO_NET_REQUIRED_FEATURES (Some (vn_mmio (net_clear v))) = (r, f, m)" by (metis prod_cases3)
  define v1 where "v1 = (net_clear v)\<lparr>vn_mmio := the m, vn_features := (case f of None \<Rightarrow> vn_features (net_clear v) | Some f \<Rightarrow> f)\<rparr>"
  obtain ok1 v2 where mac: "net_read_mac env 6 0 v1 = (ok1, v2)" by fastforce
  obtain m2 b2 where v2: "v2 = v1\<lparr>vn_mmio := m2, vn_mac := b2\<rparr>" using net_read_mac_fields [OF mac] by blast
  have st: "vn_stats v1 = vn_stats v" "vn_resetting v1 = vn_resetting v" by (simp_all add: v1_def net_clear_def)
  have c: "cleared v1" "cleared v2" using net_clear_cleared [OF v] by (simp_all add: cleared_def net_shape_def v1_def v2)
  then have n: "net_inv v1" "net_inv v2" by (simp_all add: cleared_def net_inv_inactive)
  have "net_start_try env v = (if r < 0 then (False, v1) else if \<not> ok1 then (False, v2) else net_start_queues env v2)"
    by (simp add: net_start_try_def init v1_def [symmetric] mac)
  with start net_start_queues_cases [OF c(2)] c n st show ?thesis
    by (auto simp: v2 cleared_def split: if_splits)
qed

lemma net_start_locked_inv:
  assumes "net_shape v" and "net_start_locked env v = (r, v')"
  shows "net_inv v' \<and> vn_active v' = (r = 0) \<and> vn_stats v' = vn_stats v \<and> vn_resetting v' = vn_resetting v \<and> (r = 0 \<longrightarrow> started v')"
proof -
  obtain ok v1 where t: "net_start_try env v = (ok, v1)" by fastforce
  note c = net_start_cases [OF assms(1) t]
  show ?thesis
  proof (cases ok)
    case True
    with c t assms(2) show ?thesis by (auto simp: net_start_locked_def)
  next
    case False
    then obtain m where "v' = v1\<lparr>vn_mmio := m, vn_active := False, vn_failed := True\<rparr>" "r = -1"
      using assms(2) t by (auto simp: net_start_locked_def net_reset_bus_def split: prod.splits)
    with c show ?thesis by (auto simp: net_inv_def)
  qed
qed

lemma virtio_net_init_inv: "net_shape v \<Longrightarrow> virtio_net_init env v = (r, v') \<Longrightarrow>
   net_inv v' \<and> vn_active v' = (r = 0) \<and> (r = 0 \<longrightarrow> started v')"
proof -
  let ?v = "v\<lparr>vn_stats := \<lparr>st_rx_packets = 0, st_tx_packets = 0, st_rx_dropped = 0, st_tx_errors = 0,
    st_interrupts = 0, st_resets = 0\<rparr>, vn_resetting := False, vn_failed := True\<rparr>"
  assume v: "net_shape v" and i: "virtio_net_init env v = (r, v')"
  obtain k v1 where s: "net_start_locked env ?v = (k, v1)" by fastforce
  have k: "k = 0 \<or> k = -1" using s by (auto simp: net_start_locked_def split: prod.splits if_splits)
  have "net_shape ?v" using v by (simp add: net_shape_def)
  from net_start_locked_inv [OF this s] i s k show ?thesis by (auto simp: virtio_net_init_def)
qed

lemma virtio_net_reset_inv:
  assumes v: "net_inv v" and r: "virtio_net_reset env v = (r, v')"
  shows "net_inv v'"
proof (cases "vn_resetting v")
  case True
  with assms show ?thesis by (simp add: virtio_net_reset_def)
next
  case False
  let ?v = "net_wake TX_WAIT (net_wake RX_WAIT (v\<lparr>vn_resetting := True, vn_active := False\<rparr>))"
  obtain k v1 where b: "net_reset_bus env ?v = (k, v1)" by fastforce
  then have v1: "net_shape v1" "\<not> vn_active v1"
    using net_inv_shape [OF v] by (auto simp: net_reset_bus_def net_shape_def net_wake_def split: prod.splits)
  obtain r2 v2 where s: "net_start_locked env v1 = (r2, v2)" by fastforce
  note c = net_start_locked_inv [OF v1(1) s]
  show ?thesis
  proof (cases "k < 0")
    case True
    with r b v1 False show ?thesis by (auto simp: virtio_net_reset_def net_inv_def net_shape_def)
  next
    case k: False
    with r b s False have "v' = (if r2 = 0 then (upd_stats (\<lambda>t. t\<lparr>st_resets := st_resets t + 1\<rparr>) v2)\<lparr>vn_resetting := False\<rparr>
        else v2\<lparr>vn_failed := True, vn_resetting := False\<rparr>)"
      by (simp add: virtio_net_reset_def split: if_splits)
    with c show ?thesis by (auto simp: net_inv_def upd_stats_def split: if_splits)
  qed
qed


section \<open>Any device\<close>

text \<open>What the device may do to the memory it shares with the driver: write the used rings and the receive buffers.\<close>

definition dev_slots :: "net_rx_slot list \<Rightarrow> net_rx_slot list \<Rightarrow> bool" where
  "dev_slots rx rx' \<longleftrightarrow> list_all2 (\<lambda>r r'. \<exists>b. r' = r\<lparr>rx_bytes := b\<rparr> \<and> length b = length (rx_bytes r)) rx rx'"

definition dev_queue :: "virtqueue \<Rightarrow> virtqueue \<Rightarrow> bool" where
  "dev_queue q q' \<longleftrightarrow> (\<exists>i ring. q' = q\<lparr>vq_dev_idx := i, vq_used_ring := ring\<rparr>)"

inductive net_step :: "'e net_env_scheme \<Rightarrow> virtio_net \<Rightarrow> virtio_net \<Rightarrow> bool" for env where
  device: "dev_queue (vn_rx_queue v) rq \<Longrightarrow> dev_queue (vn_tx_queue v) tq \<Longrightarrow> dev_slots (vn_rx v) rx \<Longrightarrow>
    net_step env v (v\<lparr>vn_rx_queue := rq, vn_tx_queue := tq, vn_rx := rx\<rparr>)"
| interrupt: "net_step env v (virtio_net_intr env v)"
| send: "vn_active v \<Longrightarrow> net_find_free_tx_slot_locked v = Some i \<Longrightarrow> unat len \<le> ETHERNET_MAX_FRAME \<Longrightarrow>
    unat len \<le> length frame \<Longrightarrow> net_send_locked env frame len i v = (r, v') \<Longrightarrow> net_step env v v'"
| receive: "net_receive_locked g capacity v = Some (r, bytes, v') \<Longrightarrow> net_step env v v'"
| reset: "virtio_net_reset env v = (r, v') \<Longrightarrow> net_step env v v'"

inductive net_reach :: "'e net_env_scheme \<Rightarrow> virtio_net \<Rightarrow> bool" for env where
  start: "virtio_net_init env virtio_net_zero = (r, v) \<Longrightarrow> net_reach env v"
| step: "net_reach env v \<Longrightarrow> net_step env v v' \<Longrightarrow> net_reach env v'"

lemma dev_queue_sets:
  assumes "dev_queue q q'"
  shows "vq_inv q' = vq_inv q" and "free_set q' = free_set q" and "active_set q' = active_set q" and "vq_desc q' = vq_desc q"
  using assms by (auto simp: dev_queue_def vq_inv_def free_set_def active_set_def)

lemma dev_slots_nth:
  assumes "dev_slots rx rx'"
  shows "length rx' = length rx" and "i < length rx \<Longrightarrow> rx_descriptor (rx' ! i) = rx_descriptor (rx ! i)"
    and "i < length rx \<Longrightarrow> rx_state (rx' ! i) = rx_state (rx ! i)" and "i < length rx \<Longrightarrow> length (rx_bytes (rx' ! i)) = length (rx_bytes (rx ! i))"
proof -
  show "length rx' = length rx" using assms by (auto simp: dev_slots_def dest: list_all2_lengthD)
  show "rx_descriptor (rx' ! i) = rx_descriptor (rx ! i)" "rx_state (rx' ! i) = rx_state (rx ! i)"
    "length (rx_bytes (rx' ! i)) = length (rx_bytes (rx ! i))" if "i < length rx"
    using list_all2_nthD [OF assms [unfolded dev_slots_def] that] by auto
qed

lemma net_device_inv:
  assumes v: "net_inv v" and d: "dev_queue (vn_rx_queue v) rq" "dev_queue (vn_tx_queue v) tq" "dev_slots (vn_rx v) rx"
  shows "net_inv (v\<lparr>vn_rx_queue := rq, vn_tx_queue := tq, vn_rx := rx\<rparr>)"
proof -
  note q = dev_queue_sets [OF d(1)] dev_queue_sets [OF d(2)] and n = dev_slots_nth [OF d(3)]
  have len: "length (vn_rx v) = VIRTQ_NUM" using v by (simp add: net_inv_def rx_shape_def)
  have rs: "rx_shape rq rx (vn_rx_completions v)"
  proof -
    have "length (rx_bytes r) = NET_SLOT_SIZE" if "r \<in> set rx" for r
      using that n(1,4) len v nth_mem [of _ "vn_rx v"] by (auto simp: in_set_conv_nth net_inv_def rx_shape_def)
    then show ?thesis using v n(1) q len by (simp add: net_inv_def rx_shape_def)
  qed
  have ts: "tx_shape tq (vn_tx v)" using v q by (simp add: net_inv_def tx_shape_def)
  have slot: "slot_ok {} rq i (rx ! i) = slot_ok {} (vn_rx_queue v) i (rx_slot v i)" if "i < VIRTQ_NUM" for i
    using n(2,3) [of i] that len q by (simp add: slot_ok_def rx_len_ok_def)
  have "inj_on (\<lambda>i. rx_desc (rx ! i)) {..<VIRTQ_NUM} = inj_on (\<lambda>i. rx_desc (rx_slot v i)) {..<VIRTQ_NUM}"
    using n(2) len by (intro inj_on_cong) simp
  moreover have "{i. i < VIRTQ_NUM \<and> i \<notin> {} \<and> rx_state (rx ! i) = NET_RX_COMPLETED} =
      {i. i < VIRTQ_NUM \<and> i \<notin> {} \<and> rx_state (rx_slot v i) = NET_RX_COMPLETED}" using n(3) len by auto
  ultimately have "rx_ok {} rq rx (vn_rx_completions v) = rx_ok {} (vn_rx_queue v) (vn_rx v) (vn_rx_completions v)"
    using slot by (simp add: rx_ok_def)
  moreover have "tx_ok tq (vn_tx v) p = tx_ok (vn_tx_queue v) (vn_tx v) p" for p using q by (simp add: tx_ok_def)
  ultimately show ?thesis using v rs ts by (simp add: net_inv_def)
qed

lemma net_step_inv:
  assumes "net_step env v v'" and "net_inv v"
  shows "net_inv v'"
  using assms
proof (cases rule: net_step.cases)
  case (device rq tq rx)
  with net_device_inv [OF assms(2)] show ?thesis by simp
next
  case interrupt
  with virtio_net_intr_inv [OF assms(2)] show ?thesis by simp
next
  case (send i len frame r)
  have len: "length (vn_tx v) = VIRTQ_NUM" using assms(2) by (simp add: net_inv_def tx_shape_def)
  have "i < VIRTQ_NUM" "\<not> tx_in_use (tx_slot v i)"
    using send(2) len find_index_SomeD [of _ "vn_tx v" i] by (auto simp: net_find_free_tx_slot_locked_def)
  from net_send_locked_ok [OF assms(2) send(1) this send(3,4), of env] send(5) show ?thesis by auto
next
  case (receive g capacity r bytes)
  with net_receive_locked_ok [OF assms(2), of g capacity] show ?thesis by auto
next
  case (reset r)
  with virtio_net_reset_inv [OF assms(2)] show ?thesis by blast
qed

lemma net_shape_zero: "net_shape virtio_net_zero"
proof -
  have "free_set vq_zero = {}" "active_set vq_zero = {}" by (auto simp: vq_zero_def free_set_def active_set_def)
  then have "vq_inv vq_zero" by (simp add: vq_inv_def) (simp add: vq_zero_def)
  moreover have "vq_desc vq_zero = replicate VIRTQ_NUM desc_zero" by (simp add: vq_zero_def)
  ultimately show ?thesis
    by (simp add: net_shape_def rx_shape_def tx_shape_def virtio_net_zero_def nc_inv_def NET_COMPLETION_CAPACITY_def desc_zero_def)
qed

lemma net_reach_inv: "net_reach env v \<Longrightarrow> net_inv v"
proof (induction rule: net_reach.induct)
  case (start r v)
  with virtio_net_init_inv [OF net_shape_zero start] show ?case by simp
next
  case (step v v')
  with net_step_inv show ?case by blast
qed


section \<open>Nothing is left behind\<close>

lemma net_rx_round_last:
  assumes "net_rx_round v = (False, v')"
  shows "vn_failed v' \<or> backlog (vn_rx_queue v') = 0"
proof -
  obtain r out q where pop: "virtq_pop_used_len (vn_rx_queue v) = (r, out, q)" by (metis prod_cases3)
  show ?thesis
  proof (cases "r = 0")
    case True
    with pop have "out = None \<and> q = vn_rx_queue v \<and> vq_used_idx q = vq_dev_idx q"
      by (auto simp: virtq_pop_used_len_def Let_def split: if_splits)
    with assms pop True show ?thesis by (auto simp: net_rx_round_def backlog_def)
  next
    case False
    have "out = None \<Longrightarrow> r < 0" using pop False by (auto simp: virtq_pop_used_len_def Let_def split: if_splits)
    with assms pop False show ?thesis
      by (auto simp: net_rx_round_def Let_def net_fail_fields split: if_splits option.splits prod.splits)
  qed
qed

lemma net_tx_round_last:
  assumes "net_tx_round v = (False, v')"
  shows "vn_failed v' \<or> backlog (vn_tx_queue v') = 0"
proof -
  obtain r out q where pop: "virtq_pop_used_len (vn_tx_queue v) = (r, out, q)" by (metis prod_cases3)
  show ?thesis
  proof (cases "r = 0")
    case True
    with pop have "out = None \<and> q = vn_tx_queue v \<and> vq_used_idx q = vq_dev_idx q"
      by (auto simp: virtq_pop_used_len_def Let_def split: if_splits)
    with assms pop True show ?thesis by (auto simp: net_tx_round_def virtq_pop_used_def backlog_def)
  next
    case False
    have "out = None \<Longrightarrow> r < 0" using pop False by (auto simp: virtq_pop_used_len_def Let_def split: if_splits)
    with assms pop False show ?thesis
      by (auto simp: net_tx_round_def virtq_pop_used_def Let_def net_fail_fields split: if_splits option.splits prod.splits)
  qed
qed

lemma net_rx_loop_last: "vn_failed (net_rx_loop v) \<or> backlog (vn_rx_queue (net_rx_loop v)) = 0"
proof (induction v rule: net_rx_loop.induct)
  case (1 v)
  obtain c v' where r: "net_rx_round v = (c, v')" by fastforce
  show ?case
    using 1 [OF r [symmetric] refl] net_rx_round_last [of v v'] r
    by (cases c) (simp_all add: net_rx_loop.simps [of v])
qed

lemma net_tx_loop_last: "vn_failed (net_tx_loop v) \<or> backlog (vn_tx_queue (net_tx_loop v)) = 0"
proof (induction v rule: net_tx_loop.induct)
  case (1 v)
  obtain c v' where r: "net_tx_round v = (c, v')" by fastforce
  show ?case
    using 1 [OF r [symmetric] refl] net_tx_round_last [of v v'] r
    by (cases c) (simp_all add: net_tx_loop.simps [of v])
qed

lemma net_tx_round_rx: "vn_rx_queue (snd (net_tx_round v)) = vn_rx_queue v \<and> (vn_failed v \<longrightarrow> vn_failed (snd (net_tx_round v)))"
  by (simp add: net_tx_round_def virtq_pop_used_def Let_def case_prod_beta net_fail_fields vn_upd_defs split: option.split)

lemma net_tx_loop_rx: "vn_rx_queue (net_tx_loop v) = vn_rx_queue v \<and> (vn_failed v \<longrightarrow> vn_failed (net_tx_loop v))"
proof (induction v rule: net_tx_loop.induct)
  case (1 v)
  obtain c v' where r: "net_tx_round v = (c, v')" by fastforce
  show ?case
    using 1 [OF r [symmetric] refl] net_tx_round_rx [of v] r by (cases c) (simp_all add: net_tx_loop.simps [of v])
qed


section \<open>A frame from the device\<close>

text \<open>The device has filled the buffer of slot \<open>i\<close> with a zero header and the frame, and published its descriptor.\<close>

definition dev_delivers :: "nat \<Rightarrow> u8 list \<Rightarrow> virtio_net \<Rightarrow> virtio_net" where
  "dev_delivers i frame v =
     v\<lparr>vn_rx := (vn_rx v)[i := (rx_slot v i)\<lparr>rx_bytes := put_at 0 (replicate VIRTIO_NET_HDR_SIZE 0 @ frame) (rx_bytes (rx_slot v i))\<rparr>],
       vn_rx_queue := (vn_rx_queue v)\<lparr>vq_dev_idx := vq_dev_idx (vn_rx_queue v) + 1,
         vq_used_ring := (vq_used_ring (vn_rx_queue v))[unat (vq_dev_idx (vn_rx_queue v)) mod VIRTQ_NUM :=
           \<lparr>ue_id = ucast (rx_descriptor (rx_slot v i)), ue_len = of_nat (VIRTIO_NET_HDR_SIZE + length frame)\<rparr>]\<rparr>\<rparr>"

lemma backlog_0: "backlog q = 0 \<longleftrightarrow> vq_used_idx q = vq_dev_idx q"
  by (auto simp: backlog_def unsigned_eq_0_iff)

lemma rx_slot_unique:
  assumes ok: "rx_ok {} q (vn_rx v) ring" and len: "length (vn_rx v) = VIRTQ_NUM" and i: "i < VIRTQ_NUM"
    and rx': "\<And>j. j < VIRTQ_NUM \<Longrightarrow> rx_descriptor (rx_slot w j) = rx_descriptor (rx_slot v j)" "length (vn_rx w) = VIRTQ_NUM"
    and p: "rx_state (rx_slot w i) = NET_RX_POSTED"
  shows "net_find_rx_slot_locked (rx_descriptor (rx_slot v i)) w = Some i"
proof (cases "net_find_rx_slot_locked (rx_descriptor (rx_slot v i)) w")
  case None
  then have "\<forall>r\<in>set (vn_rx w). \<not> (rx_descriptor r = rx_descriptor (rx_slot v i) \<and> rx_state r = NET_RX_POSTED)"
    by (simp add: net_find_rx_slot_locked_def)
  with p rx' i nth_mem [of i "vn_rx w"] show ?thesis by auto
next
  case (Some j)
  note f = net_find_rx_slot_Some [OF Some rx'(2)]
  with rx'(1) have "rx_desc (rx_slot v j) = rx_desc (rx_slot v i)" by simp
  with inj_onD [OF rx_okD(1) [OF ok], of j i] i f(1) Some show ?thesis by simp
qed

lemma net_rx_loop_idle: "backlog (vn_rx_queue v) = 0 \<Longrightarrow> net_rx_loop v = v"
  by (simp add: net_rx_loop.simps [of v] net_rx_round_def backlog_0 virtq_pop_used_len_def)

lemma net_tx_loop_idle: "backlog (vn_tx_queue v) = 0 \<Longrightarrow> net_tx_loop v = v"
  by (simp add: net_tx_loop.simps [of v] net_tx_round_def backlog_0 virtq_pop_used_def virtq_pop_used_len_def)

lemma net_rx_round_accept:
  assumes "virtq_pop_used_len (vn_rx_queue v) = (1, Some (d, n), q)" and "net_find_rx_slot_locked d (v\<lparr>vn_rx_queue := q\<rparr>) = Some i"
    and "unat n \<le> NET_SLOT_SIZE" and "VIRTIO_NET_HDR_SIZE + ETHERNET_HEADER_SIZE \<le> unat n"
    and "\<And>k. k < VIRTIO_NET_HDR_SIZE \<Longrightarrow> rx_bytes (rx_slot v i) ! k = 0"
    and "net_completion_push (Some (vn_rx_completions v)) (of_nat i) = (0, ring)"
  shows "net_rx_round v = (True, v\<lparr>vn_rx_queue := upd_desc (unat d) (\<lambda>e. e\<lparr>vd_len := n\<rparr>) q,
    vn_rx := (vn_rx v)[i := (rx_slot v i)\<lparr>rx_state := NET_RX_COMPLETED\<rparr>], vn_rx_completions := the ring,
    vn_wakes := vn_wakes v @ [RX_WAIT], vn_irq_reported := 1\<rparr>)"
proof -
  have "\<not> net_validate_header_locked i (v\<lparr>vn_rx_queue := q\<rparr>) < 0" using assms(5) by (simp add: net_validate_header_locked_def)
  with assms show ?thesis by (simp add: net_rx_round_def vn_upd_defs)
qed

text \<open>The element that the device has published is the next one to be popped.\<close>

lemma dev_delivers_pop:
  assumes q: "vq_inv q" "backlog q = 0" "length (vq_used_ring q) = VIRTQ_NUM" and d: "unat d \<in> active_set q"
  shows "virtq_pop_used_len (q\<lparr>vq_dev_idx := vq_dev_idx q + 1,
      vq_used_ring := (vq_used_ring q)[unat (vq_dev_idx q) mod VIRTQ_NUM := \<lparr>ue_id = ucast d, ue_len = n\<rparr>]\<rparr>) =
    (1, Some (d, n), q\<lparr>vq_dev_idx := vq_dev_idx q + 1,
      vq_used_ring := (vq_used_ring q)[unat (vq_dev_idx q) mod VIRTQ_NUM := \<lparr>ue_id = ucast d, ue_len = n\<rparr>],
      vq_used_idx := vq_dev_idx q + 1, vq_active := (vq_active q)[unat d := False]\<rparr>)"
proof -
  have u: "vq_used_idx q = vq_dev_idx q" using q(2) by (simp add: backlog_0)
  have d16: "unat d < 2 ^ 16" using unsigned_less [of d] by simp
  have u32: "unat (ucast d :: u32) = unat d" unfolding unsigned_ucast_eq by (rule take_bit_nat_eq_self) (use d16 in simp)
  moreover have "unat (ucast (ucast d :: u32) :: u16) = unat d"
    unfolding unsigned_ucast_eq [of "ucast d :: u32"] u32 by (rule take_bit_nat_eq_self) (use d16 in simp)
  then have "(ucast (ucast d :: u32) :: u16) = d" by (simp only: word_unat_eq_iff)
  moreover have "vq_dev_idx q \<noteq> vq_dev_idx q + 1" by simp
  ultimately show ?thesis
    using q(3) d by (simp add: virtq_pop_used_len_def u active_set_def VIRTQ_NUM_def)
qed

lemma net_intr_delivers:
  assumes v: "net_inv v" "started v" and i: "i < VIRTQ_NUM"
    and frame: "ETHERNET_HEADER_SIZE \<le> length frame" "length frame \<le> ETHERNET_MAX_FRAME"
    and v': "v' = virtio_net_intr env (dev_delivers i frame v)"
  shows "vn_active v' \<and> \<not> vn_failed v' \<and> vn_generation v' = vn_generation v \<and> nc_inv (vn_rx_completions v') \<and>
    nc_items (vn_rx_completions v') = [of_nat i] \<and>
    rx_slot v' i = (rx_slot v i)\<lparr>rx_bytes := put_at 0 (replicate VIRTIO_NET_HDR_SIZE 0 @ frame) (rx_bytes (rx_slot v i)),
      rx_state := NET_RX_COMPLETED\<rparr> \<and>
    vd_len (vq_desc (vn_rx_queue v') ! rx_desc (rx_slot v i)) = of_nat (VIRTIO_NET_HDR_SIZE + length frame)"
proof -
  let ?d = "rx_descriptor (rx_slot v i)" and ?n = "of_nat (VIRTIO_NET_HDR_SIZE + length frame) :: u32" and ?q = "vn_rx_queue v"
  let ?q1 = "?q\<lparr>vq_dev_idx := vq_dev_idx ?q + 1,
      vq_used_ring := (vq_used_ring ?q)[unat (vq_dev_idx ?q) mod VIRTQ_NUM := \<lparr>ue_id = ucast ?d, ue_len = ?n\<rparr>],
      vq_used_idx := vq_dev_idx ?q + 1, vq_active := (vq_active ?q)[unat ?d := False]\<rparr>"
  let ?b = "put_at 0 (replicate VIRTIO_NET_HDR_SIZE 0 @ frame) (rx_bytes (rx_slot v i))"
  have act: "vn_active v" "nc_items (vn_rx_completions v) = []" "backlog ?q = 0" "backlog (vn_tx_queue v) = 0"
    and used: "length (vq_used_ring ?q) = VIRTQ_NUM" using v(2) by (simp_all add: started_def idle_def)
  have nf: "\<not> vn_failed v" and ok: "rx_ok {} ?q (vn_rx v) (vn_rx_completions v)" and sh: "rx_shape ?q (vn_rx v) (vn_rx_completions v)"
    using v(1) act(1) by (simp_all add: net_inv_def)
  have inv: "vq_inv ?q" "length (vq_desc ?q) = VIRTQ_NUM" and len: "length (vn_rx v) = VIRTQ_NUM" and nc: "nc_inv (vn_rx_completions v)"
    and bl: "length (rx_bytes (rx_slot v i)) = NET_SLOT_SIZE" using sh i by (simp_all add: rx_shape_def vq_inv_def)
  have "rx_state (rx_slot v i) \<noteq> NET_RX_COMPLETED" using ok act(2) i by (auto simp: rx_ok_def)
  then have p: "rx_state (rx_slot v i) = NET_RX_POSTED" "unat ?d \<in> active_set ?q" "unat ?d < VIRTQ_NUM"
    using rx_okD(2) [OF ok i] by (auto simp: slot_ok_def)
  define w where "w = upd_stats (\<lambda>t. t\<lparr>st_interrupts := st_interrupts t + 1\<rparr>)
      (upd_bus (\<lambda>m. snd (virtio_mmio_ack_interrupt env m)) (dev_delivers i frame v))"
  note w = w_def dev_delivers_def upd_stats_def upd_bus_def
  have pop: "virtq_pop_used_len (vn_rx_queue w) = (1, Some (?d, ?n), ?q1)"
    using dev_delivers_pop [OF inv(1) act(3) used p(2), of ?n] by (simp add: w)
  have find: "net_find_rx_slot_locked ?d (w\<lparr>vn_rx_queue := ?q1\<rparr>) = Some i"
    by (rule rx_slot_unique [OF ok len i]) (use p len i in \<open>simp_all add: w nth_list_update\<close>)
  have n: "unat ?n = VIRTIO_NET_HDR_SIZE + length frame"
    using frame(2) by (simp add: unat_of_nat take_bit_nat_eq_self VIRTIO_NET_HDR_SIZE_def ETHERNET_MAX_FRAME_def del: of_nat_add)
  obtain ring where push: "net_completion_push (Some (vn_rx_completions w)) (of_nat i) = (0, ring)" "nc_inv (the ring)"
    "nc_items (the ring) = [of_nat i]"
    using net_completion_push_cases [OF nc, of "of_nat i"] act(2)
    by (cases "net_completion_push (Some (vn_rx_completions v)) (of_nat i)") (auto simp: w NET_COMPLETION_CAPACITY_def)
  have hd: "rx_bytes (rx_slot w i) ! k = 0" if "k < VIRTIO_NET_HDR_SIZE" for k
    using that i len bl frame(2) by (simp add: w put_at_def nth_append)
  define w2 where "w2 = w\<lparr>vn_rx_queue := upd_desc (unat ?d) (\<lambda>e. e\<lparr>vd_len := ?n\<rparr>) ?q1,
    vn_rx := (vn_rx w)[i := (rx_slot w i)\<lparr>rx_state := NET_RX_COMPLETED\<rparr>], vn_rx_completions := the ring,
    vn_wakes := vn_wakes w @ [RX_WAIT], vn_irq_reported := 1\<rparr>"
  have "net_rx_round w = (True, w2)"
    unfolding w2_def using n frame hd push by (intro net_rx_round_accept [OF pop find]) simp_all
  moreover have "backlog (vn_rx_queue w2) = 0" by (simp add: w2_def backlog_0)
  moreover have "backlog (vn_tx_queue w2) = 0" using act(4) by (simp add: w2_def w)
  ultimately have "v' = w2" using net_rx_loop_idle [of w2] net_tx_loop_idle [of w2]
    by (simp add: v' virtio_net_intr_def w_def [symmetric] net_rx_loop.simps [of w])
  then show ?thesis using act nf push inv i len p(3) by (simp add: w2_def w) (simp add: upd_desc_def)
qed


section \<open>Counting\<close>

lemma rx_counts:
  assumes ok: "rx_ok {} q rx ring" and sh: "rx_shape q rx ring"
  shows "length (filter (\<lambda>r. rx_state r = NET_RX_POSTED) rx) + length (nc_items ring) = VIRTQ_NUM"
proof -
  let ?P = "{i. i < VIRTQ_NUM \<and> rx_state (rx ! i) = NET_RX_POSTED}" and ?C = "{i. i < VIRTQ_NUM \<and> rx_state (rx ! i) = NET_RX_COMPLETED}"
  have len: "length rx = VIRTQ_NUM" using sh by (simp add: rx_shape_def)
  have inj: "inj_on (of_nat :: nat \<Rightarrow> u16) ?C" by (rule inj_onI) (metis (mono_tags, lifting) VIRTQ_NUM_u16 mem_Collect_eq)
  have "length (nc_items ring) = card (set (nc_items ring))"
    by (rule distinct_card [symmetric]) (use ok in \<open>simp add: rx_ok_def\<close>)
  also have "set (nc_items ring) = of_nat ` ?C" using ok by (simp add: rx_ok_def)
  also have "card \<dots> = card ?C" by (rule card_image [OF inj])
  finally have c: "length (nc_items ring) = card ?C" .
  have "length (filter (\<lambda>r. rx_state r = NET_RX_POSTED) rx) = card ?P" by (simp add: length_filter_conv_card len)
  moreover have "?P \<union> ?C = {..<VIRTQ_NUM}" using rx_okD(2) [OF ok] by (auto simp: slot_ok_def)
  moreover have "?P \<inter> ?C = {}" by auto
  ultimately show ?thesis using c card_Un_disjoint [of ?P ?C] by simp
qed

lemma tx_counts:
  assumes ok: "tx_ok q tx pending" and sh: "tx_shape q tx"
  shows "length (filter (\<lambda>t. \<not> tx_in_use t) tx) + card (in_use tx) = VIRTQ_NUM" and "unat pending = card (in_use tx)"
    and "unat (vq_free_count q) = length (filter (\<lambda>t. \<not> tx_in_use t) tx)"
proof -
  let ?F = "{i. i < VIRTQ_NUM \<and> \<not> tx_in_use (tx ! i)}"
  have len: "length tx = VIRTQ_NUM" and inv: "vq_inv q" using sh by (simp_all add: tx_shape_def)
  have f: "length (filter (\<lambda>t. \<not> tx_in_use t) tx) = card ?F" by (simp add: length_filter_conv_card len)
  have "?F \<union> in_use tx = {..<VIRTQ_NUM}" "?F \<inter> in_use tx = {}" by (auto simp: in_use_def)
  then show sum: "length (filter (\<lambda>t. \<not> tx_in_use t) tx) + card (in_use tx) = VIRTQ_NUM"
    using f card_Un_disjoint [of ?F "in_use tx"] by simp
  then show "unat pending = card (in_use tx)" using ok by (simp add: tx_ok_def unat_of_nat take_bit_nat_eq_self VIRTQ_NUM_def)
  have a: "card (active_set q) = card (in_use tx)" using ok card_image [of "\<lambda>i. tx_desc (tx ! i)" "in_use tx"] by (simp add: tx_ok_def)
  have "active_set q \<subseteq> {..<VIRTQ_NUM}" by (auto simp: active_set_def)
  then have "card (free_set q) = VIRTQ_NUM - card (in_use tx)" using ok a by (simp add: tx_ok_def card_Diff_subset)
  with sum have "card (free_set q) = length (filter (\<lambda>t. \<not> tx_in_use t) tx)" "card (free_set q) \<le> 8" by (simp_all add: VIRTQ_NUM_def)
  moreover have "vq_free_count q = of_nat (card (free_set q))" using inv by (simp add: vq_inv_def)
  ultimately show "unat (vq_free_count q) = length (filter (\<lambda>t. \<not> tx_in_use t) tx)" by (simp add: unat_of_nat take_bit_nat_eq_self)
qed

end
