(* ===== verification/Virtio_Net_Sys.thy ===== *)
theory Virtio_Net_Sys
  imports Net_Sys
begin

text \<open>
  The entry points of \<^verbatim>\<open>kernel/src/virtio_net.c\<close> that sleep. They run on the state of the whole system, because that is
  what the other tasks and the interrupt handler change while the caller sleeps.
\<close>

definition upd_vnet :: "(virtio_net \<Rightarrow> virtio_net) \<Rightarrow> 'a net_sys_state_scheme \<Rightarrow> 'a net_sys_state_scheme" where
  "upd_vnet f s = s\<lparr>vnet := f (vnet s)\<rparr>"

text \<open>The waiting loop of \<^verbatim>\<open>virtio_net_send\<close>, which ends in the state and the value that its condition gives to \<^verbatim>\<open>slot\<close>.\<close>

fun net_send_wait ::
  "u64 \<Rightarrow> 'a net_sys_state_scheme sleep list \<Rightarrow> 'a net_sys_state_scheme \<Rightarrow> (nat option \<times> 'a net_sys_state_scheme) option" where
  "net_send_wait generation [] s =
     (if vn_active (vnet s) \<and> generation = vn_generation (vnet s) \<and> net_find_free_tx_slot_locked (vnet s) = None
      then None else Some (net_find_free_tx_slot_locked (vnet s), s))"
| "net_send_wait generation (sleep # rest) s =
     (if vn_active (vnet s) \<and> generation = vn_generation (vnet s) \<and> net_find_free_tx_slot_locked (vnet s) = None
      then net_send_wait generation rest (snd (sleep WAIT_FOREVER s))
      else Some (net_find_free_tx_slot_locked (vnet s), s))"

definition virtio_net_send ::
  "'e net_env_scheme \<Rightarrow> u8 list option \<Rightarrow> u32 \<Rightarrow> 'a net_sys_state_scheme sleep list \<Rightarrow> 'a net_sys_state_scheme
   \<Rightarrow> (int \<times> 'a net_sys_state_scheme) option" where
  "virtio_net_send env frame len sleeps s =
     (case frame of
        None \<Rightarrow> Some (-1, s)
      | Some bytes \<Rightarrow>
          if unat len < ETHERNET_MIN_FRAME \<or> unat len > ETHERNET_MAX_FRAME then Some (-1, s)
          else do {
            let generation = vn_generation (vnet s);
            (slot, s) \<leftarrow> net_send_wait generation sleeps s;
            if \<not> vn_active (vnet s) \<or> vn_failed (vnet s) \<or> generation \<noteq> vn_generation (vnet s) then Some (-1, s)
            else do {
              i \<leftarrow> slot;
              let (r, v) = net_send_locked env bytes len i (vnet s);
              Some (r, s\<lparr>vnet := v\<rparr>)
            }
          })"

text \<open>The waiting loop of \<^verbatim>\<open>virtio_net_receive\<close>: \<open>False\<close> when a sleep has ended with an error.\<close>

fun net_receive_wait ::
  "u64 \<Rightarrow> u64 \<Rightarrow> 'a net_sys_state_scheme sleep list \<Rightarrow> 'a net_sys_state_scheme \<Rightarrow> (bool \<times> 'a net_sys_state_scheme) option" where
  "net_receive_wait generation deadline [] s =
     (if vn_active (vnet s) \<and> generation = vn_generation (vnet s) \<and> nc_count (vn_rx_completions (vnet s)) = 0
      then None else Some (True, s))"
| "net_receive_wait generation deadline (sleep # rest) s =
     (if vn_active (vnet s) \<and> generation = vn_generation (vnet s) \<and> nc_count (vn_rx_completions (vnet s)) = 0
      then let (result, s) = sleep deadline s
           in if result < 0 then Some (False, s) else net_receive_wait generation deadline rest s
      else Some (True, s))"

text \<open>\<open>frame\<close> and \<open>len\<close> are what the two pointers point to; the result has what they point to on return.\<close>

definition virtio_net_receive ::
  "u8 list option \<Rightarrow> u32 \<Rightarrow> u32 option \<Rightarrow> u64 \<Rightarrow> 'a net_sys_state_scheme sleep list \<Rightarrow> 'a net_sys_state_scheme
   \<Rightarrow> (int \<times> u8 list option \<times> u32 option \<times> 'a net_sys_state_scheme) option" where
  "virtio_net_receive frame capacity len deadline sleeps s =
     (if frame = None \<or> len = None then Some (-1, frame, len, s)
      else do {
        let generation = vn_generation (vnet s);
        (ok, s) \<leftarrow> net_receive_wait generation deadline sleeps s;
        if \<not> ok then Some (-1, frame, len, s)
        else do {
          (r, bytes, v) \<leftarrow> net_receive_locked generation capacity (vnet s);
          Some (r, if r = 0 then map_option (put_at 0 bytes) frame else frame,
                if r = 0 then Some (of_nat (length bytes)) else len, s\<lparr>vnet := v\<rparr>)
        }
      })"

text \<open>The loop with which the self test waits for the transmissions to end.\<close>

fun net_wait_tx_idle ::
  "u64 \<Rightarrow> u64 \<Rightarrow> 'a net_sys_state_scheme sleep list \<Rightarrow> 'a net_sys_state_scheme \<Rightarrow> (int \<times> 'a net_sys_state_scheme) option" where
  "net_wait_tx_idle generation deadline [] s =
     (if vn_active (vnet s) \<and> generation = vn_generation (vnet s) \<and> vn_pending_tx (vnet s) \<noteq> 0 then None
      else Some (if vn_active (vnet s) \<and> \<not> vn_failed (vnet s) \<and> generation = vn_generation (vnet s) then 0 else -1, s))"
| "net_wait_tx_idle generation deadline (sleep # rest) s =
     (if vn_active (vnet s) \<and> generation = vn_generation (vnet s) \<and> vn_pending_tx (vnet s) \<noteq> 0
      then let (result, s) = sleep deadline s
           in if result < 0 then Some (-1, s) else net_wait_tx_idle generation deadline rest s
      else Some (if vn_active (vnet s) \<and> \<not> vn_failed (vnet s) \<and> generation = vn_generation (vnet s) then 0 else -1, s))"

end
