(* ===== verification/Virtio_Props.thy ===== *)
theory Virtio_Props
  imports Virtio_Net_Inv Virtio_Net_Sys
begin

text \<open>
  The properties of virtqueues and of the network driver.
\<close>

text \<open>A queue for the examples, as \<^verbatim>\<open>virtq_init\<close> leaves it.\<close>

definition ex_vq :: virtqueue where
  "ex_vq = the (snd (virtq_init (Some vq_zero) (Some 0x10000) (of_nat VIRTQ_NUM)))"

lemma ex_vq_init: "virtq_init (Some vq_zero) (Some 0x10000) (of_nat VIRTQ_NUM) = (0, Some ex_vq)"
  by (simp add: ex_vq_def virtq_init_def VIRTQ_PAGE_SIZE_def)

lemma ex_vq_inv: "vq_inv ex_vq" "free_set ex_vq = {..<VIRTQ_NUM}" "active_set ex_vq = {}"
  using virtq_init_inv [OF ex_vq_init] by simp_all


section \<open>Virtqueues\<close>

text \<open>C21. \<^verbatim>\<open>virtq_alloc_chain\<close> succeeds exactly when the number asked for is at least one and at most the number
  of free descriptors, and changes nothing otherwise. The chain consists of that many different free descriptors, linked in
  the order in which they are returned, and \<^verbatim>\<open>virtq_free_chain\<close> on its first descriptor finds all of them and
  restores the queue exactly.\<close>

theorem virtq_chain_roundtrip:
  assumes "vq_inv q" and "virtq_alloc_chain n q = (r, q')"
  shows "(r \<noteq> None \<longleftrightarrow> 1 \<le> n \<and> n \<le> int (card (free_set q))) \<and> (r = None \<longrightarrow> q' = q) \<and>
    (\<forall>is. r = Some is \<longrightarrow> int (length is) = n \<and> distinct is \<and> set is \<subseteq> free_set q \<and> linked q' is \<and>
       virtq_free_chain (of_nat (hd is)) q' = (n, q))"
proof (cases r)
  case None
  with virtq_alloc_chain_cases [OF assms] show ?thesis by auto
next
  case (Some l)
  with virtq_alloc_chain_cases [OF assms] have l: "1 \<le> n" "n \<le> int (card (free_set q))" "vq_taken q l q'"
    "int (length l) = n" "linked q' l" by simp_all
  from l(3) have "distinct l" "set l \<subseteq> free_set q" by (simp_all add: vq_taken_def)
  with l Some vq_taken_free_chain [OF l(3,5)] show ?thesis by simp
qed

theorem virtq_chain_roundtrip_witness:
  "\<exists>is q'. virtq_alloc_chain 3 ex_vq = (Some is, q') \<and> length is = 3 \<and> virtq_free_chain (of_nat (hd is)) q' = (3, ex_vq)"
proof -
  obtain r q' where a: "virtq_alloc_chain 3 ex_vq = (r, q')" by (cases "virtq_alloc_chain 3 ex_vq")
  from virtq_chain_roundtrip [OF ex_vq_inv(1) a] ex_vq_inv(2) have "r \<noteq> None" by (simp add: VIRTQ_NUM_def)
  with virtq_chain_roundtrip [OF ex_vq_inv(1) a] a show ?thesis by force
qed




section \<open>The network driver\<close>

text \<open>A device for the examples, with which the driver starts.\<close>

definition ex_env :: net_env where
  "ex_env = \<lparr>dv_read = (\<lambda>_ off. if off = VIRTIO_MMIO_MAGIC_VALUE then 0x74726976 else if off = VIRTIO_MMIO_VERSION then 1
       else if off = VIRTIO_MMIO_DEVICE_ID then 1 else if off = VIRTIO_MMIO_VENDOR_ID then 0x554d4551
       else if off = VIRTIO_MMIO_DEVICE_FEATURES then 32 else if off = VIRTIO_MMIO_QUEUE_NUM_MAX then 8
       else if off = VIRTIO_MMIO_STATUS then 8 else 0),
     dv_read8 = (\<lambda>_ off. expected_mac ! unat (off - VIRTIO_MMIO_CONFIG)),
     rx_pages = 0x1000, tx_pages = 0x3000, rx_bytes_at = (\<lambda>i. 0x5000 + of_nat i * 0x600), tx_bytes_at = (\<lambda>i. 0x9000 + of_nat i * 0x600)\<rparr>"

lemmas mmio_defs = virtio_mmio_init_def mmio_identify_def mmio_get_def mmio_set_def VIRTIO_MMIO_MAGIC_VALUE_def
  VIRTIO_MMIO_VERSION_def VIRTIO_MMIO_DEVICE_ID_def VIRTIO_MMIO_VENDOR_ID_def VIRTIO_MMIO_DEVICE_FEATURES_def
  VIRTIO_MMIO_DRIVER_FEATURES_def VIRTIO_MMIO_STATUS_def VIRTIO_MMIO_QUEUE_NUM_MAX_def VIRTIO_MMIO_QUEUE_SEL_def
  VIRTIO_MMIO_GUEST_PAGE_SIZE_def VIRTIO_MMIO_QUEUE_NUM_def VIRTIO_MMIO_QUEUE_ALIGN_def VIRTIO_MMIO_QUEUE_PFN_def
  VIRTIO_CONFIG_S_ACKNOWLEDGE_def VIRTIO_CONFIG_S_DRIVER_def VIRTIO_CONFIG_S_FEATURES_OK_def

lemma ex_mmio_init:
  "\<exists>f m'. virtio_mmio_init ex_env VIRTIO1 VIRTIO_NET_DEVICE_ID rejected VIRTIO_NET_REQUIRED_FEATURES (Some m) = (0, Some f, Some m')"
  by (simp add: mmio_defs ex_env_def VIRTIO_NET_DEVICE_ID_def VIRTIO_NET_REQUIRED_FEATURES_def Let_def)

lemma ex_read_mac: "i + n \<le> 6 \<Longrightarrow> length (vn_mac v) = 6 \<Longrightarrow> fst (net_read_mac ex_env n i v)"
proof (induction n arbitrary: i v)
  case (Suc n)
  then have "unat (of_nat i :: u32) = i" by (simp add: unat_of_nat take_bit_nat_eq_self)
  then have "dv_read8 ex_env log (VIRTIO_MMIO_CONFIG + of_nat i) = expected_mac ! i" for log by (simp add: ex_env_def)
  with Suc show ?case by (simp add: virtio_mmio_config8_def)
qed simp

lemma ex_setup_queue:
  assumes "pages = 0x1000 \<or> pages = 0x3000"
  shows "\<exists>q' m'. net_setup_queue ex_env n pages q m = (0, q', m')"
  using assms
  by (auto simp: net_setup_queue_def virtio_mmio_setup_queue_def mmio_defs ex_env_def virtq_init_def VIRTQ_NUM_def VIRTQ_PAGE_SIZE_def)

lemma ex_start_queues:
  assumes "cleared v" shows "fst (net_start_queues ex_env v)"
proof -
  have pg: "rx_pages ex_env = 0x1000" "tx_pages ex_env = 0x3000" by (simp_all add: ex_env_def)
  obtain q3 m3 where rxq: "net_setup_queue ex_env VIRTIO_NET_RX_QUEUE (rx_pages ex_env) (vn_rx_queue v) (vn_mmio v) = (0, q3, m3)"
    using ex_setup_queue pg by blast
  obtain q4 m4 where txq: "net_setup_queue ex_env VIRTIO_NET_TX_QUEUE (tx_pages ex_env) (vn_tx_queue v) m3 = (0, q4, m4)"
    using ex_setup_queue pg by blast
  have f: "fresh q3" using net_setup_queue_cases [OF rxq] by simp
  have "rx_shape q3 (vn_rx v) (vn_rx_completions v)"
    using assms f by (simp add: cleared_def net_shape_def rx_shape_def fresh_def)
  moreover have "posted 0 q3 (vn_rx v)" using f by (simp add: posted_def fresh_def)
  ultimately obtain v' where "net_post_all ex_env [0..<VIRTQ_NUM] (v\<lparr>vn_rx_queue := q3, vn_tx_queue := q4, vn_mmio := m4\<rparr>) = (True, v')"
    using net_post_all_ok [of "v\<lparr>vn_rx_queue := q3, vn_tx_queue := q4, vn_mmio := m4\<rparr>" "vn_rx_completions v" 0 ex_env] by auto
  with rxq txq show ?thesis by (simp add: net_start_queues_def)
qed

lemma ex_init: "fst (virtio_net_init ex_env virtio_net_zero) = 0"
proof -
  let ?v0 = "virtio_net_zero\<lparr>vn_stats := \<lparr>st_rx_packets = 0, st_tx_packets = 0, st_rx_dropped = 0, st_tx_errors = 0,
    st_interrupts = 0, st_resets = 0\<rparr>, vn_resetting := False, vn_failed := True\<rparr>"
  have sh: "net_shape ?v0" using net_shape_zero by (simp add: net_shape_def)
  obtain f m where i: "virtio_mmio_init ex_env VIRTIO1 VIRTIO_NET_DEVICE_ID VIRTIO_NET_REJECTED_FEATURES
      VIRTIO_NET_REQUIRED_FEATURES (Some (vn_mmio (net_clear ?v0))) = (0, Some f, Some m)" using ex_mmio_init by blast
  define v1 where "v1 = (net_clear ?v0)\<lparr>vn_mmio := m, vn_features := f\<rparr>"
  obtain ok v2 where mac: "net_read_mac ex_env 6 0 v1 = (ok, v2)" by fastforce
  have ok: "ok" using ex_read_mac [of 0 6 v1] mac by (simp add: v1_def net_clear_def virtio_net_zero_def)
  have "cleared v1" using net_clear_cleared [OF sh] by (simp add: cleared_def net_shape_def v1_def)
  moreover obtain m2 b2 where v2: "v2 = v1\<lparr>vn_mmio := m2, vn_mac := b2\<rparr>" using net_read_mac_fields [OF mac] by blast
  ultimately have "cleared v2" by (simp add: cleared_def net_shape_def)
  then have "fst (net_start_queues ex_env v2)" by (rule ex_start_queues)
  then have "fst (net_start_try ex_env ?v0)" using i mac ok by (simp add: net_start_try_def v1_def)
  then have "fst (net_start_locked ex_env ?v0) = 0" by (simp add: net_start_locked_def case_prod_beta Let_def)
  then show ?thesis by (simp add: virtio_net_init_def case_prod_beta Let_def)
qed

definition ex_net :: virtio_net where
  "ex_net = snd (virtio_net_init ex_env virtio_net_zero)"

lemma ex_net_init: "virtio_net_init ex_env virtio_net_zero = (0, ex_net)"
  using ex_init by (simp add: ex_net_def prod_eq_iff)

lemma ex_net_reach: "net_reach ex_env ex_net"
  by (rule net_reach.start [OF ex_net_init])

lemma ex_net_started: "net_inv ex_net" "started ex_net" "vn_active ex_net"
  using virtio_net_init_inv [OF net_shape_zero ex_net_init] by simp_all




text \<open>C25. A frame that the device has put into a posted buffer behind a zero header, with its length in the used ring, is what
  \<^verbatim>\<open>virtio_net_receive\<close> returns after the interrupt, byte by byte; afterwards the completion ring is empty again. The caller's buffer
  must be large enough, and nothing else is happening in the driver.\<close>

theorem receive_delivers:
  assumes v: "net_inv (vnet s)" "started (vnet s)" and i: "i < VIRTQ_NUM"
    and frame: "ETHERNET_HEADER_SIZE \<le> length frame" "length frame \<le> ETHERNET_MAX_FRAME" "length frame \<le> unat capacity"
    and buf: "length buf = unat capacity"
    and s1: "s1 = s\<lparr>vnet := virtio_net_intr env (dev_delivers i frame (vnet s))\<rparr>"
  shows "\<exists>s2. virtio_net_receive (Some buf) capacity (Some n) deadline sleeps s1 =
      Some (0, Some (put_at 0 frame buf), Some (of_nat (length frame)), s2) \<and> nc_count (vn_rx_completions (vnet s2)) = 0"
proof -
  let ?v = "vnet s1" and ?g = "vn_generation (vnet s1)"
  note d = net_intr_delivers [OF v i frame(1,2), of ?v env]
  have d: "vn_active ?v" "\<not> vn_failed ?v" "nc_inv (vn_rx_completions ?v)" "nc_items (vn_rx_completions ?v) = [of_nat i]"
    "rx_slot ?v i = (rx_slot (vnet s) i)\<lparr>rx_bytes := put_at 0 (replicate VIRTIO_NET_HDR_SIZE 0 @ frame) (rx_bytes (rx_slot (vnet s) i)),
      rx_state := NET_RX_COMPLETED\<rparr>"
    "vd_len (vq_desc (vn_rx_queue ?v) ! rx_desc (rx_slot (vnet s) i)) = of_nat (VIRTIO_NET_HDR_SIZE + length frame)"
    using d by (simp_all add: s1)
  obtain r slot ring where pop: "net_completion_pop (Some (vn_rx_completions ?v)) (Some 0) = (r, slot, ring)" by (metis prod_cases3)
  note p = net_completion_pop_cases(2) [OF d(3) pop d(4)]
  have bl: "length (rx_bytes (rx_slot (vnet s) i)) = NET_SLOT_SIZE" "length (vn_rx (vnet s)) = VIRTQ_NUM"
    using v(1) i by (simp_all add: net_inv_def rx_shape_def)
  have ui: "unat (of_nat i :: u16) = i" using i by simp
  define n' where "n' = (of_nat (length frame) :: u32)"
  have n': "vd_len (vq_desc (vn_rx_queue ?v) ! rx_desc (rx_slot (vnet s) i)) - of_nat VIRTIO_NET_HDR_SIZE = n'" "unat n' = length frame"
    using frame(2) by (simp_all add: d(6) n'_def unat_of_nat take_bit_nat_eq_self ETHERNET_MAX_FRAME_def)
  have fr: "get_at VIRTIO_NET_HDR_SIZE (length frame) (rx_bytes (rx_slot ?v i)) = frame"
    using bl frame(2) by (simp add: d(5) put_at_def get_at_def)
  have lb: "length (rx_bytes (rx_slot ?v i)) = NET_SLOT_SIZE" using bl frame(2) by (simp add: d(5))
  obtain v2 where "net_receive_locked ?g capacity ?v = Some (0, frame, v2)" "vn_rx_completions v2 = the ring"
    using pop p d(1,2,5) ui i n' fr lb frame
    by (simp add: net_receive_locked_def word_less_nat_alt net_repost_rx_locked_def vn_upd_defs Let_def)
  moreover have "nc_count (vn_rx_completions ?v) \<noteq> 0" using d(4) nc_items_length [of "vn_rx_completions ?v"] by auto
  then have "net_receive_wait ?g deadline sleeps s1 = Some (True, s1)" by (cases sleeps) simp_all
  moreover have "nc_count (the ring) = 0" using p nc_items_length [of "the ring"] by (simp add: unsigned_eq_0_iff)
  ultimately show ?thesis by (simp add: virtio_net_receive_def)
qed

definition ex_sys :: net_sys_state where
  "ex_sys = \<lparr>sem_pool = [], mtime = 0, wakes = [], vnet = ex_net\<rparr>"

theorem receive_delivers_witness:
  "\<exists>s2. virtio_net_receive (Some (replicate 1514 0)) 1514 (Some 0) 7 []
      (ex_sys\<lparr>vnet := virtio_net_intr ex_env (dev_delivers 3 (map of_nat [0..<100]) ex_net)\<rparr>) =
    Some (0, Some (put_at 0 (map of_nat [0..<100]) (replicate 1514 0)), Some 100, s2)"
proof -
  have "vnet ex_sys = ex_net" by (simp add: ex_sys_def)
  with receive_delivers [of ex_sys 3 "map of_nat [0..<100]" 1514 "replicate 1514 0" _ ex_env 0 7 "[]"] ex_net_started
  show ?thesis by (auto simp: VIRTQ_NUM_def ETHERNET_HEADER_SIZE_def ETHERNET_MAX_FRAME_def)
qed

text \<open>C26. \<^verbatim>\<open>virtio_net_send\<close> refuses a frame that is missing, too short or too long, and one that comes when the driver is
  not running. Otherwise, when a slot is free, it returns at once with success; it has handed to the device exactly one
  more descriptor, which points to a buffer that holds a zero header and the frame, with the right length, and no
  other transmission has been touched.\<close>

theorem send_hands_over_frame:
  assumes v: "net_inv (vnet s)" and i: "net_find_free_tx_slot_locked (vnet s) = Some i" and f: "unat len \<le> length frame"
  shows "\<exists>r s'. virtio_net_send env (Some frame) len sleeps s = Some (r, s') \<and>
    (r = 0 \<longleftrightarrow> ETHERNET_MIN_FRAME \<le> unat len \<and> unat len \<le> ETHERNET_MAX_FRAME \<and> vn_active (vnet s)) \<and> (r \<noteq> 0 \<longrightarrow> s' = s) \<and>
    (r = 0 \<longrightarrow> (\<exists>j. j \<in> free_set (vn_tx_queue (vnet s)) \<and>
       active_set (vn_tx_queue (vnet s')) = insert j (active_set (vn_tx_queue (vnet s))) \<and>
       vq_desc (vn_tx_queue (vnet s')) ! j = \<lparr>vd_addr = tx_bytes_at env i, vd_len = of_nat VIRTIO_NET_HDR_SIZE + len, vd_flags = 0, vd_next = 0\<rparr> \<and>
       get_at 0 (VIRTIO_NET_HDR_SIZE + unat len) (tx_bytes (tx_slot (vnet s') i)) = replicate VIRTIO_NET_HDR_SIZE 0 @ take (unat len) frame \<and>
       (\<forall>k. k \<noteq> i \<longrightarrow> tx_slot (vnet s') k = tx_slot (vnet s) k)))"
proof -
  have len: "length (vn_tx (vnet s)) = VIRTQ_NUM" using v by (simp add: net_inv_def tx_shape_def)
  have i': "i < VIRTQ_NUM" "\<not> tx_in_use (tx_slot (vnet s) i)"
    using i len find_index_SomeD [of _ "vn_tx (vnet s)" i] by (auto simp: net_find_free_tx_slot_locked_def)
  have wait: "net_send_wait g sleeps s = Some (Some i, s)" for g using i by (cases sleeps) simp_all
  consider "unat len < ETHERNET_MIN_FRAME \<or> ETHERNET_MAX_FRAME < unat len" | "\<not> vn_active (vnet s)"
    | "ETHERNET_MIN_FRAME \<le> unat len" "unat len \<le> ETHERNET_MAX_FRAME" "vn_active (vnet s)" by linarith
  then show ?thesis
  proof cases
    case 1
    then show ?thesis by (auto simp: virtio_net_send_def)
  next
    case 2
    then show ?thesis by (auto simp: virtio_net_send_def wait)
  next
    case 3
    from net_send_locked_ok [OF v 3(3) i' 3(2) f, of env] obtain v' j
      where send: "net_send_locked env frame len i (vnet s) = (0, v')" and j: "j \<in> free_set (vn_tx_queue (vnet s))"
        "active_set (vn_tx_queue v') = insert j (active_set (vn_tx_queue (vnet s)))"
        "vq_desc (vn_tx_queue v') ! j = \<lparr>vd_addr = tx_bytes_at env i, vd_len = of_nat VIRTIO_NET_HDR_SIZE + len, vd_flags = 0, vd_next = 0\<rparr>"
        "\<forall>k. k \<noteq> i \<longrightarrow> tx_slot v' k = tx_slot (vnet s) k"
        "get_at 0 (VIRTIO_NET_HDR_SIZE + unat len) (tx_bytes (tx_slot v' i)) = replicate VIRTIO_NET_HDR_SIZE 0 @ take (unat len) frame"
      by blast
    have "\<not> vn_failed (vnet s)" using v 3(3) by (simp add: net_inv_def)
    with 3 send have "virtio_net_send env (Some frame) len sleeps s = Some (0, s\<lparr>vnet := v'\<rparr>)"
      by (simp add: virtio_net_send_def wait)
    with 3 j show ?thesis by (intro exI [of _ 0] exI [of _ "s\<lparr>vnet := v'\<rparr>"]) auto
  qed
qed

theorem send_hands_over_frame_witness:
  "\<exists>s'. virtio_net_send ex_env (Some (replicate 60 5)) 60 [] ex_sys = Some (0, s') \<and>
     get_at 0 70 (tx_bytes (tx_slot (vnet s') 0)) = replicate 10 0 @ replicate 60 5"
proof -
  have v: "vnet ex_sys = ex_net" by (simp add: ex_sys_def)
  have "0 \<notin> in_use (vn_tx ex_net)" "length (vn_tx ex_net) = VIRTQ_NUM"
    using ex_net_started by (simp_all add: started_def net_inv_def tx_shape_def)
  then have "vn_tx ex_net \<noteq> [] \<and> \<not> tx_in_use (vn_tx ex_net ! 0)" by (auto simp: in_use_def VIRTQ_NUM_def)
  then have "net_find_free_tx_slot_locked ex_net = Some 0"
    by (cases "vn_tx ex_net") (simp_all add: net_find_free_tx_slot_locked_def)
  with send_hands_over_frame [of ex_sys 0 60 "replicate 60 5" ex_env "[]"] ex_net_started v
  show ?thesis by (auto simp: ETHERNET_MIN_FRAME_def ETHERNET_MAX_FRAME_def VIRTIO_NET_HDR_SIZE_def)
qed

end
