(* ===== verification/Netif.thy ===== *)
theory Netif
  imports Timer Ipaddr
begin

text \<open>
  Network interfaces, \<^verbatim>\<open>kernel/src/net/netif.c\<close>. An interface is named by its place in \<^verbatim>\<open>netif_buffer\<close>;
  its two packet queues are the queues \<open>IN_Q n\<close> and \<open>OUT_Q n\<close>, whose messages are buffers. The allocator
  \<^verbatim>\<open>netif_mblock\<close> is its list of free interfaces (\<open>Mblock\<close> shows that this is what an allocator is).

  The operations of a device and of a link layer are structures of function pointers. An interface holds
  the address of such a structure; what is stored there, \<open>ops_of\<close> and \<open>layer_of\<close>, is an argument of the
  operations that follow the pointer.
\<close>

datatype netif_type = NETIF_TYPE_NONE | NETIF_TYPE_ETHER | NETIF_TYPE_LOOP | NETIF_TYPE_SIZE

fun netif_type_code :: "netif_type \<Rightarrow> nat" where
  "netif_type_code NETIF_TYPE_NONE = 0"
| "netif_type_code NETIF_TYPE_ETHER = 1"
| "netif_type_code NETIF_TYPE_LOOP = 2"
| "netif_type_code NETIF_TYPE_SIZE = 3"

datatype netif_status = NETIF_CLOSED | NETIF_OPENED | NETIF_ACTIVE

record netif_hwaddr =
  hw_len :: nat
  hw_addr :: "u8 list"

record netif =
  nif_name :: string
  nif_hwaddr :: netif_hwaddr
  nif_ipaddr :: ipaddr
  nif_netmask :: ipaddr
  nif_gateway :: ipaddr
  nif_state :: netif_status
  nif_type :: netif_type
  nif_mtu :: int
  nif_ops :: "nat option"
  nif_ops_data :: "nat option"
  nif_link_layer :: "nat option"

record netif_state = timer_state +
  netif_free :: "nat list"
  netif_list :: "nat list"
  netif_default :: "nat option"
  link_layers :: "nat option list"
  netifs :: "nat \<Rightarrow> netif"

record 's netif_ops =
  ops_open :: "(nat \<Rightarrow> nat option \<Rightarrow> 's \<Rightarrow> (net_err \<times> 's) option) option"
  ops_close :: "(nat \<Rightarrow> 's \<Rightarrow> 's option) option"
  ops_xmit :: "(nat \<Rightarrow> 's \<Rightarrow> (net_err \<times> 's) option) option"

record 's link_layer =
  ll_type :: netif_type
  ll_open :: "(nat \<Rightarrow> 's \<Rightarrow> (net_err \<times> 's) option) option"
  ll_close :: "(nat \<Rightarrow> 's \<Rightarrow> 's option) option"
  ll_in :: "(nat \<Rightarrow> nat \<Rightarrow> 's \<Rightarrow> (net_err \<times> 's) option) option"
  ll_out :: "(nat \<Rightarrow> ipaddr option \<Rightarrow> nat \<Rightarrow> 's \<Rightarrow> (net_err \<times> 's) option) option"

definition NETIF_HWADDR_SIZE :: nat where "NETIF_HWADDR_SIZE = 10"

definition NETIF_NAME_SIZE :: nat where "NETIF_NAME_SIZE = 16"

definition NETIF_DEV_CNT :: nat where "NETIF_DEV_CNT = 4"

definition NETIF_INQ_SIZE :: nat where "NETIF_INQ_SIZE = 16"

definition NETIF_OUTQ_SIZE :: nat where "NETIF_OUTQ_SIZE = 16"

text \<open>The queues of all components have different addresses.\<close>

definition IN_Q :: "nat \<Rightarrow> nat" where "IN_Q n = 4 * n"

definition OUT_Q :: "nat \<Rightarrow> nat" where "OUT_Q n = 4 * n + 1"


section \<open>The operations\<close>

definition upd_netif :: "nat \<Rightarrow> (netif \<Rightarrow> netif) \<Rightarrow> 'a netif_state_scheme \<Rightarrow> 'a netif_state_scheme" where
  "upd_netif n f s = s\<lparr>netifs := (netifs s)(n := f (netifs s n))\<rparr>"

definition netif_name_copy :: "string option \<Rightarrow> string" where
  "netif_name_copy src = (case src of None \<Rightarrow> [] | Some st \<Rightarrow> take (NETIF_NAME_SIZE - 1) st)"

partial_function (option) netif_drain_queue ::
  "nat \<Rightarrow> 'a netif_state_scheme \<Rightarrow> 'a netif_state_scheme option" where
  "netif_drain_queue q s = do {
     (buf, s) \<leftarrow> fixq_recv (Some q) (-1) [] s;
     case buf of
       None \<Rightarrow> Some s
     | Some _ \<Rightarrow> netif_drain_queue q (pktbuf_free buf s)
   }"

definition netif_init :: "'a netif_state_scheme \<Rightarrow> net_err \<times> 'a netif_state_scheme" where
  "netif_init s = (NET_ERR_OK, s\<lparr>netif_list := [], netif_default := None, link_layers := replicate 3 None,
                                  netif_free := [0..<NETIF_DEV_CNT]\<rparr>)"

text \<open>An interface and a queue of which every byte is zero.\<close>

definition netif_zero :: netif where
  "netif_zero = \<lparr>nif_name = [], nif_hwaddr = \<lparr>hw_len = 0, hw_addr = replicate NETIF_HWADDR_SIZE 0\<rparr>, nif_ipaddr = 0,
     nif_netmask = 0, nif_gateway = 0, nif_state = NETIF_CLOSED, nif_type = NETIF_TYPE_NONE, nif_mtu = 0,
     nif_ops = None, nif_ops_data = None, nif_link_layer = None\<rparr>"

definition fixq_zero :: fixq where
  "fixq_zero = \<lparr>fq_size = 0, fq_buf = [], fq_in = 0, fq_out = 0, fq_count = 0, fq_send_sem = None,
     fq_recv_sem = None, fq_locker_type = NLOCKER_NONE\<rparr>"

text \<open>The three error exits of \<^verbatim>\<open>netif_open\<close> that follow the initialisation of the queues.\<close>

definition netif_open_fail ::
  "'a netif_state_scheme netif_ops \<Rightarrow> nat \<Rightarrow> 'a netif_state_scheme \<Rightarrow> (nat option \<times> 'a netif_state_scheme) option" where
  "netif_open_fail ops n s = do {
     s \<leftarrow> (case ops_close ops of None \<Rightarrow> Some s | Some close \<Rightarrow> close n s);
     let s = fixq_destroy (Some (IN_Q n)) s;
     let s = fixq_destroy (Some (OUT_Q n)) s;
     Some (None, s\<lparr>netif_free := netif_free s @ [n]\<rparr>)
   }"

definition netif_open ::
  "(nat \<Rightarrow> 'a netif_state_scheme netif_ops) \<Rightarrow> string option \<Rightarrow> nat option \<Rightarrow> nat option \<Rightarrow> 'a netif_state_scheme
   \<Rightarrow> (nat option \<times> 'a netif_state_scheme) option" where
  "netif_open ops_of dev_name ops ops_data s =
     (case (dev_name, ops) of
        (Some _, Some ot) \<Rightarrow>
          (case (ops_open (ops_of ot), netif_free s) of
             (None, _) \<Rightarrow> Some (None, s)
           | (_, []) \<Rightarrow> Some (None, s)
           | (Some open_fn, n # free) \<Rightarrow>
               let s = s\<lparr>netif_free := free\<rparr>;
                   s = upd_netif n (\<lambda>_. netif_zero\<lparr>nif_name := netif_name_copy dev_name, nif_ipaddr := the (ipaddr_set_any (Some 0)),
                         nif_netmask := the (ipaddr_set_any (Some 0)), nif_gateway := the (ipaddr_set_any (Some 0)), nif_state := NETIF_CLOSED,
                         nif_type := NETIF_TYPE_NONE, nif_ops := ops, nif_ops_data := ops_data\<rparr>) s;
                   s = upd_fixq (OUT_Q n) (\<lambda>_. fixq_zero) (upd_fixq (IN_Q n) (\<lambda>_. fixq_zero) s);
                   (err, s) = fixq_init (Some (IN_Q n)) (Some (replicate NETIF_INQ_SIZE 0)) (int NETIF_INQ_SIZE) NLOCKER_THREAD s;
                   (err, s) = (if err \<noteq> NET_ERR_OK then (err, s)
                               else fixq_init (Some (OUT_Q n)) (Some (replicate NETIF_OUTQ_SIZE 0)) (int NETIF_OUTQ_SIZE)
                                      NLOCKER_THREAD s)
               in if err \<noteq> NET_ERR_OK then
                    let s = fixq_destroy (Some (IN_Q n)) s
                    in Some (None, s\<lparr>netif_free := netif_free s @ [n]\<rparr>)
                  else do {
                    (err, s) \<leftarrow> open_fn n ops_data s;
                    if is_err err \<or> nif_type (netifs s n) = NETIF_TYPE_NONE then netif_open_fail (ops_of ot) n s
                    else
                      let tc = netif_type_code (nif_type (netifs s n));
                          s = upd_netif n (\<lambda>i. i\<lparr>nif_link_layer := if tc < 3 then link_layers s ! tc else None\<rparr>) s
                      in if nif_type (netifs s n) \<noteq> NETIF_TYPE_LOOP \<and> nif_link_layer (netifs s n) = None
                         then netif_open_fail (ops_of ot) n s
                         else
                           let s = upd_netif n (\<lambda>i. i\<lparr>nif_state := NETIF_OPENED\<rparr>) s
                           in Some (Some n, s\<lparr>netif_list := netif_list s @ [n]\<rparr>)
                  })
      | _ \<Rightarrow> Some (None, s))"

definition netif_set_addr ::
  "nat option \<Rightarrow> ipaddr option \<Rightarrow> ipaddr option \<Rightarrow> ipaddr option \<Rightarrow> 'a netif_state_scheme \<Rightarrow> net_err \<times> 'a netif_state_scheme" where
  "netif_set_addr netif ip netmask gateway s =
     (case netif of
        None \<Rightarrow> (NET_ERR_PARAM, s)
      | Some n \<Rightarrow>
          let any = (\<lambda>a. case a of None \<Rightarrow> ipaddr_get_any | Some x \<Rightarrow> x)
          in (NET_ERR_OK, upd_netif n (\<lambda>i. i\<lparr>nif_ipaddr := any ip, nif_netmask := any netmask, nif_gateway := any gateway\<rparr>) s))"

text \<open>\<open>hwaddr\<close> is the memory behind the pointer; too short a piece of memory is an access outside it.\<close>

definition netif_set_hwaddr ::
  "nat option \<Rightarrow> u8 list option \<Rightarrow> int \<Rightarrow> 'a netif_state_scheme \<Rightarrow> (net_err \<times> 'a netif_state_scheme) option" where
  "netif_set_hwaddr netif hwaddr len s =
     (case (netif, hwaddr) of
        (Some n, Some mem) \<Rightarrow>
          if len \<le> 0 then Some (NET_ERR_PARAM, s)
          else if len > int NETIF_HWADDR_SIZE then Some (NET_ERR_SIZE, s)
          else if length mem < nat len then None
          else Some (NET_ERR_OK, upd_netif n (\<lambda>i. i\<lparr>nif_hwaddr := \<lparr>hw_len = nat len,
                       hw_addr = put_at 0 (take (nat len) mem) (hw_addr (nif_hwaddr i))\<rparr>\<rparr>) s)
      | _ \<Rightarrow> Some (NET_ERR_PARAM, s))"

definition netif_set_active ::
  "(nat \<Rightarrow> 'a netif_state_scheme link_layer) \<Rightarrow> nat option \<Rightarrow> 'a netif_state_scheme
   \<Rightarrow> (net_err \<times> 'a netif_state_scheme) option" where
  "netif_set_active layer_of netif s =
     (case netif of
        None \<Rightarrow> Some (NET_ERR_PARAM, s)
      | Some n \<Rightarrow>
          if nif_state (netifs s n) \<noteq> NETIF_OPENED then Some (NET_ERR_STATE, s)
          else do {
            (err, s) \<leftarrow> (case Option.bind (nif_link_layer (netifs s n)) (\<lambda>l. ll_open (layer_of l)) of
                          None \<Rightarrow> Some (NET_ERR_OK, s)
                        | Some open_fn \<Rightarrow> open_fn n s);
            if is_err err then Some (err, s)
            else Some (NET_ERR_OK, upd_netif n (\<lambda>i. i\<lparr>nif_state := NETIF_ACTIVE\<rparr>) s)
          })"

definition netif_set_deactive ::
  "(nat \<Rightarrow> 'a netif_state_scheme link_layer) \<Rightarrow> nat option \<Rightarrow> 'a netif_state_scheme
   \<Rightarrow> (net_err \<times> 'a netif_state_scheme) option" where
  "netif_set_deactive layer_of netif s =
     (case netif of
        None \<Rightarrow> Some (NET_ERR_PARAM, s)
      | Some n \<Rightarrow>
          if nif_state (netifs s n) \<noteq> NETIF_ACTIVE then Some (NET_ERR_STATE, s)
          else do {
            s \<leftarrow> (case Option.bind (nif_link_layer (netifs s n)) (\<lambda>l. ll_close (layer_of l)) of
                    None \<Rightarrow> Some s
                  | Some close \<Rightarrow> close n s);
            s \<leftarrow> netif_drain_queue (IN_Q n) s;
            s \<leftarrow> netif_drain_queue (OUT_Q n) s;
            Some (NET_ERR_OK, upd_netif n (\<lambda>i. i\<lparr>nif_state := NETIF_OPENED\<rparr>) s)
          })"

definition netif_set_default :: "nat option \<Rightarrow> 'a netif_state_scheme \<Rightarrow> 'a netif_state_scheme" where
  "netif_set_default netif s = s\<lparr>netif_default := netif\<rparr>"

definition netif_get_default :: "'a netif_state_scheme \<Rightarrow> nat option" where
  "netif_get_default s = netif_default s"

definition netif_close ::
  "(nat \<Rightarrow> 'a netif_state_scheme netif_ops) \<Rightarrow> nat option \<Rightarrow> 'a netif_state_scheme
   \<Rightarrow> (net_err \<times> 'a netif_state_scheme) option" where
  "netif_close ops_of netif s =
     (case netif of
        None \<Rightarrow> Some (NET_ERR_PARAM, s)
      | Some n \<Rightarrow>
          if nif_state (netifs s n) \<noteq> NETIF_OPENED then Some (NET_ERR_STATE, s)
          else do {
            s \<leftarrow> (case Option.bind (nif_ops (netifs s n)) (\<lambda>ot. ops_close (ops_of ot)) of
                    None \<Rightarrow> Some s
                  | Some close \<Rightarrow> close n s);
            s \<leftarrow> netif_drain_queue (IN_Q n) s;
            s \<leftarrow> netif_drain_queue (OUT_Q n) s;
            let s = fixq_destroy (Some (OUT_Q n)) (fixq_destroy (Some (IN_Q n)) s);
            let s = s\<lparr>netif_list := remove1 n (netif_list s),
                      netif_default := if netif_default s = netif then None else netif_default s\<rparr>;
            let s = upd_netif n (\<lambda>i. i\<lparr>nif_state := NETIF_CLOSED\<rparr>) s;
            Some (NET_ERR_OK, s\<lparr>netif_free := netif_free s @ [n]\<rparr>)
          })"

definition netif_register_layer ::
  "int \<Rightarrow> nat option \<Rightarrow> 'a netif_state_scheme \<Rightarrow> net_err \<times> 'a netif_state_scheme" where
  "netif_register_layer type layer s =
     (if type < 0 \<or> type \<ge> 3 \<or> layer = None then (NET_ERR_PARAM, s)
      else if link_layers s ! nat type \<noteq> None then (NET_ERR_EXIST, s)
      else (NET_ERR_OK, s\<lparr>link_layers := (link_layers s)[nat type := layer]\<rparr>))"

definition netif_put_in ::
  "nat option \<Rightarrow> nat option \<Rightarrow> int \<Rightarrow> 'a netif_state_scheme \<Rightarrow> (net_err \<times> 'a netif_state_scheme) option" where
  "netif_put_in netif buf timeout s =
     (case (netif, buf) of
        (Some n, Some b) \<Rightarrow> fixq_send (Some (IN_Q n)) buf timeout [] s
      | _ \<Rightarrow> Some (NET_ERR_PARAM, s))"

definition netif_put_out ::
  "nat option \<Rightarrow> nat option \<Rightarrow> int \<Rightarrow> 'a netif_state_scheme \<Rightarrow> (net_err \<times> 'a netif_state_scheme) option" where
  "netif_put_out netif buf timeout s =
     (case (netif, buf) of
        (Some n, Some b) \<Rightarrow> fixq_send (Some (OUT_Q n)) buf timeout [] s
      | _ \<Rightarrow> Some (NET_ERR_PARAM, s))"

text \<open>\<^verbatim>\<open>pktbuf_data\<close>, as an offset into the area of the first block, and \<^verbatim>\<open>pktbuf_total\<close>.\<close>

definition pktbuf_data :: "nat \<Rightarrow> 'a pkt_state_scheme \<Rightarrow> nat option" where
  "pktbuf_data i s = (case blk_list (pktbufs s i) of [] \<Rightarrow> None | k # _ \<Rightarrow> blk_data k)"

definition pktbuf_total :: "nat \<Rightarrow> 'a pkt_state_scheme \<Rightarrow> int" where
  "pktbuf_total i s = int (total_size (pktbufs s i))"

definition reset_acc :: "nat \<Rightarrow> 'a pkt_state_scheme \<Rightarrow> 'a pkt_state_scheme" where
  "reset_acc i s = s\<lparr>pktbufs := (pktbufs s)(i := pktbuf_reset_acc (pktbufs s i))\<rparr>"

definition netif_get_in ::
  "nat option \<Rightarrow> int \<Rightarrow> 'a netif_state_scheme \<Rightarrow> (nat option \<times> 'a netif_state_scheme) option" where
  "netif_get_in netif timeout s =
     (case netif of
        None \<Rightarrow> Some (None, s)
      | Some n \<Rightarrow> do {
          (buf, s) \<leftarrow> fixq_recv (Some (IN_Q n)) timeout [] s;
          Some (buf, case buf of None \<Rightarrow> s | Some i \<Rightarrow> reset_acc i s)
        })"

definition netif_get_out ::
  "nat option \<Rightarrow> int \<Rightarrow> 'a netif_state_scheme \<Rightarrow> (nat option \<times> 'a netif_state_scheme) option" where
  "netif_get_out netif timeout s =
     (case netif of
        None \<Rightarrow> Some (None, s)
      | Some n \<Rightarrow> do {
          (buf, s) \<leftarrow> fixq_recv (Some (OUT_Q n)) timeout [] s;
          Some (buf, case buf of None \<Rightarrow> s | Some i \<Rightarrow> reset_acc i s)
        })"

text \<open>Output needs only the member \<^verbatim>\<open>out\<close> of a link layer: \<open>out_of\<close> is \<open>\<lambda>l. ll_out (layer_of l)\<close>.\<close>

type_synonym 's link_out = "nat \<Rightarrow> ipaddr option \<Rightarrow> nat \<Rightarrow> 's \<Rightarrow> (net_err \<times> 's) option"

definition netif_out ::
  "(nat \<Rightarrow> 'a netif_state_scheme netif_ops) \<Rightarrow> (nat \<Rightarrow> 'a netif_state_scheme link_out option) \<Rightarrow> nat option \<Rightarrow> ipaddr option
   \<Rightarrow> nat option \<Rightarrow> 'a netif_state_scheme \<Rightarrow> (net_err \<times> 'a netif_state_scheme) option" where
  "netif_out ops_of out_of netif dest buf s =
     (case (buf, netif) of
        (None, _) \<Rightarrow> Some (NET_ERR_PARAM, s)
      | (Some b, None) \<Rightarrow> Some (NET_ERR_PARAM, pktbuf_free buf s)
      | (Some b, Some n) \<Rightarrow>
          if nif_state (netifs s n) \<noteq> NETIF_ACTIVE then Some (NET_ERR_STATE, pktbuf_free buf s)
          else
            (case Option.bind (nif_link_layer (netifs s n)) out_of of
               Some out_fn \<Rightarrow> out_fn n dest b s
             | None \<Rightarrow>
                 (case Option.bind (nif_ops (netifs s n)) (\<lambda>ot. ops_xmit (ops_of ot)) of
                    None \<Rightarrow> Some (NET_ERR_NOT_SUPPORT, pktbuf_free buf s)
                  | Some xmit \<Rightarrow> do {
                      (err, s) \<leftarrow> netif_put_out netif buf (-1) s;
                      if is_err err then Some (err, pktbuf_free buf s)
                      else xmit n s
                    })))"

end
