(* ===== verification/Headers.thy ===== *)
theory Headers
  imports Pktbuf_Laws
begin

text \<open>
  Headers in place: the protocols write and read a header through a pointer to the first block, so each of them
  must know that the header lies in one block. These lemmas say which operations make the first bytes of a buffer
  contiguous and which keep them so.
\<close>

lemma contiguous_sizes:
  assumes "map blk_size (blk_list b') = map blk_size (blk_list b)"
  shows "contiguous n b' \<longleftrightarrow> contiguous n b"
  using assms by (cases "blk_list b"; cases "blk_list b'") (auto simp: contiguous_def)

lemma contiguous_blks: "blk_list b' = blk_list b \<Longrightarrow> contiguous n b' \<longleftrightarrow> contiguous n b"
  by (rule contiguous_sizes) simp

lemma contiguous_reset [simp]: "contiguous n (pktbuf_reset_acc b) \<longleftrightarrow> contiguous n b"
  by (rule contiguous_blks) (simp add: pktbuf_reset_acc_def split: list.split)

lemma cursor_put_sizes: "map blk_size (blk_list (cursor_put bs b)) = map blk_size (blk_list b)"
  by (auto simp: cursor_put_def map_update list_update_same_conv split: option.split)
    (metis length_map list_update_beyond list_update_id linorder_not_le nth_map)

lemma move_forward_blks: "blk_list (move_forward n b) = blk_list b"
  by (simp add: move_forward_def Let_def split: option.split)

lemma write_loop_sizes:
  "write_loop sz src b = Some b' \<Longrightarrow> map blk_size (blk_list b') = map blk_size (blk_list b)"
proof (induction sz src b rule: write_loop.induct)
  case (1 sz src b)
  show ?case
  proof (cases "sz = 0")
    case True
    with 1(2) show ?thesis by simp
  next
    case False
    define n where "n = (if sz > curr_blk_remain b then curr_blk_remain b else sz)"
    from 1(2) False have "n \<noteq> 0 \<and> \<not> length src < n"
      "write_loop (sz - n) (drop n src) (move_forward n (cursor_put (take n src) b)) = Some b'"
      by (subst (asm) write_loop.simps, simp add: Let_def n_def [symmetric] split: if_splits)+
    with 1(1) [OF False n_def] show ?thesis
      by (simp add: move_forward_blks cursor_put_sizes)
  qed
qed

lemma write_buf_contiguous:
  "write_buf src sz b free = Some (e, b', free') \<Longrightarrow> \<forall>n. contiguous n b' \<longleftrightarrow> contiguous n b"
  by (intro allI contiguous_sizes) (auto simp: write_buf_def write_loop_sizes split: if_splits Option.bind_splits)

lemma fill_buf_contiguous:
  "fill_buf v sz b free = Some (e, b', free') \<Longrightarrow> \<forall>n. contiguous n b' \<longleftrightarrow> contiguous n b"
  by (intro allI contiguous_sizes)
    (auto simp: fill_buf_def fill_loop_write write_loop_sizes split: if_splits Option.bind_splits)


text \<open>A chain that is allocated from the front to the back has a full first block.\<close>

lemma alloc_list_loop_hd:
  "alloc_list_loop sz False chain free = (Some ks, free') \<Longrightarrow> \<exists>new. ks = chain @ new"
proof (induction free arbitrary: sz chain)
  case Nil
  then show ?case
    by (cases "sz = 0") (auto simp: alloc_list_loop_Nil)
next
  case (Cons f fs)
  show ?case
  proof (cases "sz = 0")
    case True
    with Cons.prems show ?thesis by simp
  next
    case False
    define c where "c = (if sz > PKTBUF_BLK_SIZE then PKTBUF_BLK_SIZE else sz)"
    from Cons.prems False have
      "alloc_list_loop (sz - c) False (chain @ [f\<lparr>blk_size := c, blk_data := Some 0\<rparr>]) fs = (Some ks, free')"
      by (subst (asm) alloc_list_loop.simps) (simp add: pktblock_alloc_def Let_def c_def)
    from Cons.IH [OF this] show ?thesis by auto
  qed
qed

lemma pktblock_alloc_list_hd:
  assumes "pktblock_alloc_list sz False free = (Some ks, free')"
  obtains k ks' where "ks = k # ks'" and "blk_size k = min (nat sz) PKTBUF_BLK_SIZE"
proof -
  from assms have sz: "0 < sz" and l: "alloc_list_loop (nat sz) False [] free = (Some ks, free')"
    by (simp_all add: pktblock_alloc_list_def split: if_splits)
  define c where "c = (if nat sz > PKTBUF_BLK_SIZE then PKTBUF_BLK_SIZE else nat sz)"
  from l sz obtain f fs where "free = f # fs"
    by (cases free) (simp_all add: alloc_list_loop_Nil)
  with l sz have "alloc_list_loop (nat sz - c) False [f\<lparr>blk_size := c, blk_data := Some 0\<rparr>] fs = (Some ks, free')"
    by (subst (asm) alloc_list_loop.simps) (simp add: pktblock_alloc_def Let_def c_def)
  from alloc_list_loop_hd [OF this] that show thesis by (auto simp: c_def)
qed

lemma pktbuf_alloc_contiguous:
  assumes "pktbuf_alloc sz s = (Some i, s')" and "n \<le> min (nat sz) PKTBUF_BLK_SIZE"
  shows "contiguous n (pktbufs s' i)"
proof (cases "sz \<le> 0")
  case True
  with assms(2) show ?thesis by (simp add: contiguous_def)
next
  case False
  from assms(1) False obtain ks free where "pktblock_alloc_list sz False (block_list s) = (Some ks, free)"
    and b: "blk_list (pktbufs s' i) = ks"
    by (auto simp: pktbuf_alloc_def Let_def pktbuf_insert_blk_list_def split: list.splits prod.splits option.splits if_splits)
  from pktblock_alloc_list_hd [OF this(1)] obtain k ks' where
    "ks = k # ks'" "blk_size k = min (nat sz) PKTBUF_BLK_SIZE" .
  with b assms(2) show ?thesis by (simp add: contiguous_def)
qed

lemma add_header_contiguous:
  assumes "add_header sz True b free = Some (NET_ERR_OK, b', free')" and "0 < sz" and "sz \<le> int PKTBUF_BLK_SIZE"
    and "free_wf free"
  shows "contiguous (nat sz) b'" and "pos b' = 0"
proof -
  have "contiguous (nat sz) b' \<and> pos b' = 0"
  proof (cases "\<exists>k ks. blk_list b = k # ks \<and> sz \<le> int (blk_off k)")
    case True
    then obtain k ks where "blk_list b = k # ks" "sz \<le> int (blk_off k)" by blast
    with assms(1,2) show ?thesis by (auto simp: add_header_def contiguous_def Let_def split: if_splits)
  next
    case False
    with assms(1-3) obtain ks fs where al: "pktblock_alloc_list sz True free = (Some ks, fs)"
      and b': "b' = pktbuf_reset_acc (pktbuf_insert_blk_list b ks False)"
      by (auto simp: add_header_def Let_def split: list.splits prod.splits option.splits if_splits)
    from al assms(2) obtain f fs' where "free = f # fs'"
      by (cases free) (simp_all add: pktblock_alloc_list_def alloc_list_loop_Nil)
    with al assms(2-4) obtain k where "ks = [k]" "blk_size k = nat sz"
      using alloc_one [of sz f fs' True] by (metis Pair_inject option.inject)
    with b' show ?thesis by (simp add: contiguous_def pktbuf_insert_blk_list_def)
  qed
  then show "contiguous (nat sz) b'" "pos b' = 0" by simp_all
qed

lemma resize_contiguous:
  assumes "pktbuf_resize_core n b free = Some (NET_ERR_OK, b', free')" and "buf_wf b" and "contiguous m b" and "m \<le> nat n"
  shows "contiguous m b'"
proof -
  consider "m = 0" | "nat n = total_size b" | "0 < m" "total_size b < nat n" | "0 < m" "nat n < total_size b"
    by linarith
  then show ?thesis
  proof cases
    case 1
    then show ?thesis by (simp add: contiguous_def)
  next
    case 2
    with assms show ?thesis by (auto simp: pktbuf_resize_core_def split: if_splits)
  next
    case 3
    from contiguousE [OF assms(2,3) 3(1)] obtain k ks where k: "blk_list b = k # ks" "blk_wf k" .
    then have t: "total_size b \<noteq> 0" "blk_list b \<noteq> []" using assms(2) by (auto simp: buf_wf_def blk_wf_def)
    let ?l = "last (blk_list b)"
    from assms(1) 3 t obtain x ls where "blk_list b' = butlast (blk_list b) @ [?l\<lparr>blk_size := x\<rparr>] @ ls" "blk_size ?l \<le> x"
      by (auto simp: pktbuf_resize_core_def Let_def pktbuf_insert_blk_list_def split: if_splits prod.splits option.splits)
    with k(1) assms(3) show ?thesis by (cases "ks = []") (auto simp: contiguous_def)
  next
    case 4
    from contiguousE [OF assms(2,3) 4(1)] obtain k ks where k: "blk_list b = k # ks" "m \<le> blk_size k" .
    with assms(1,4) 4 obtain i where i: "find_tail (blk_list b) 0 (nat n) = Some i" and
      b': "blk_list b' = take i (blk_list b) @ [(blk_list b ! i)\<lparr>blk_size := blk_size (blk_list b ! i) -
        (total_size b - chain_size (drop (Suc i) (blk_list b)) - nat n)\<rparr>]"
      by (auto simp: pktbuf_resize_core_def Let_def split: if_splits option.splits)
    show ?thesis
    proof (cases i)
      case 0
      from assms(2) k have "total_size b = blk_size k + chain_size ks"
        by (simp add: buf_wf_def)
      then have "m \<le> blk_size k - (total_size b - (chain_size ks + nat n))"
        using k(2) assms(4) by linarith
      with b' 0 k(1) show ?thesis by (simp add: contiguous_def)
    qed (use b' k in \<open>simp add: contiguous_def\<close>)
  qed
qed

end
