(* ===== verification/Own.thy ===== *)
theory Own
  imports Netif Headers Net_Tools
begin

text \<open>
  Who holds the packet buffers. Every reference that is counted in a buffer is held by somebody: by the code
  that works on the buffer, or by one of the queues of the interfaces. The predicate \<open>keep\<close> says this of a
  state, together with the invariants of the pool and of the queues; the rules of this theory say how each
  operation on buffers and queues changes the multiset of the references that the running code holds.
\<close>

section \<open>Several queues\<close>

definition queue_sems :: "nat \<Rightarrow> 'a fixq_state_scheme \<Rightarrow> nat set" where
  "queue_sems q s = set_option (fq_send_sem (fixqs s q)) \<union> set_option (fq_recv_sem (fixqs s q))"

text \<open>All queues of \<open>Q\<close> satisfy their invariant, and no two of them share a semaphore.\<close>

definition queues_ok :: "nat set \<Rightarrow> 'a fixq_state_scheme \<Rightarrow> bool" where
  "queues_ok Q s \<longleftrightarrow> (\<forall>q\<in>Q. fixq_inv q s \<and> (\<forall>r\<in>Q. r \<noteq> q \<longrightarrow> queue_sems q s \<inter> queue_sems r s = {}))"

text \<open>Nothing but queue \<open>q\<close> and its two semaphores has changed, and not its size.\<close>

definition queue_only :: "nat \<Rightarrow> 'a fixq_state_scheme \<Rightarrow> 'a fixq_state_scheme \<Rightarrow> bool" where
  "queue_only q s s' \<longleftrightarrow> fixq_state.more s' = fixq_state.more s \<and> vnet s' = vnet s \<and> mtime s' = mtime s \<and>
     fq_send_sem (fixqs s' q) = fq_send_sem (fixqs s q) \<and> fq_recv_sem (fixqs s' q) = fq_recv_sem (fixqs s q) \<and> fq_size (fixqs s' q) = fq_size (fixqs s q) \<and> (\<forall>r. r \<noteq> q \<longrightarrow> fixqs s' r = fixqs s r) \<and>
     (\<forall>x. x \<notin> queue_sems q s \<longrightarrow> sem_of s' x = sem_of s x)"

lemma queue_only_refl [simp]: "queue_only q s s"
  by (simp add: queue_only_def)

lemma sys_sem_notify_frame:
  "fixq_state.more (sys_sem_notify x s) = fixq_state.more s" "vnet (sys_sem_notify x s) = vnet s"
  "mtime (sys_sem_notify x s) = mtime s"
  "x = Some i \<Longrightarrow> j \<noteq> i \<Longrightarrow> sem_of (sys_sem_notify x s) j = sem_of s j"
  by (simp_all add: sys_sem_notify_def upd_sem_def task_wake_def Let_def split: option.split)

lemma sys_sem_wait_poll_frame:
  assumes "sys_sem_wait x t [] s = Some (e, s')" and "t < 0"
  shows "fixq_state.more s' = fixq_state.more s" "vnet s' = vnet s" "mtime s' = mtime s" "fixqs s' = fixqs s"
    "x = Some i \<Longrightarrow> j \<noteq> i \<Longrightarrow> sem_of s' j = sem_of s j"
  using assms by (auto simp: sys_sem_wait_def upd_sem_def split: option.splits if_splits)

lemma upd_fixq_frame:
  "fixq_state.more (upd_fixq q f s) = fixq_state.more s" "vnet (upd_fixq q f s) = vnet s"
  "mtime (upd_fixq q f s) = mtime s"
  by (simp_all add: upd_fixq_def)

lemma fixq_send_only:
  assumes "fixq_inv q s" and "fixq_send (Some q) (Some m) t [] s = Some (e, s')" and "t < 0"
  shows "queue_only q s s'"
proof -
  from assms(1) obtain i j where sems: "fq_send_sem (fixqs s q) = Some i" "fq_recv_sem (fixqs s q) = Some j"
    by (rule fixq_invE)
  then have qs: "queue_sems q s = {i, j}" by (auto simp: queue_sems_def)
  show ?thesis
  proof (cases "fq_count (fixqs s q) = fq_size (fixqs s q)")
    case True
    with assms(2,3) show ?thesis by (simp add: fixq_send_def)
  next
    case False
    with assms(2,3) obtain err s1 where w: "sys_sem_wait (Some i) t [] s = Some (err, s1)"
      and s': "s' = (if err = NET_ERR_OK then sys_sem_notify (Some j) (upd_fixq q (fixq_put m) s1) else s1)"
      by (auto simp: fixq_send_def sems Let_def fixq_put_def sys_sem_wait_def split: if_splits option.splits)
    note f = sys_sem_wait_poll_frame [OF w assms(3)]
    from qs sems f show ?thesis
      by (auto simp: s' queue_only_def queue_sems_def sys_sem_notify_frame upd_fixq_frame fixq_put_def)
  qed
qed

lemma fixq_recv_only:
  assumes "fixq_inv q s" and "fixq_recv (Some q) t [] s = Some (r, s')" and "t < 0"
  shows "queue_only q s s'"
proof -
  from assms(1) obtain i j where sems: "fq_send_sem (fixqs s q) = Some i" "fq_recv_sem (fixqs s q) = Some j"
    by (rule fixq_invE)
  then have qs: "queue_sems q s = {i, j}" by (auto simp: queue_sems_def)
  show ?thesis
  proof (cases "fq_count (fixqs s q) = 0")
    case True
    with assms(2,3) show ?thesis by (simp add: fixq_recv_def)
  next
    case False
    with assms(2,3) obtain err s1 where w: "sys_sem_wait (Some j) t [] s = Some (err, s1)"
      and s': "s' = (if err = NET_ERR_OK then sys_sem_notify (Some i) (upd_fixq q (\<lambda>_. snd (fixq_take (fixqs s q))) s1)
                     else s1)"
      by (auto simp: fixq_recv_def sems Let_def fixq_take_def sys_sem_wait_def split: if_splits option.splits)
    note f = sys_sem_wait_poll_frame [OF w assms(3)]
    from qs sems f show ?thesis
      by (auto simp: s' queue_only_def queue_sems_def sys_sem_notify_frame upd_fixq_frame fixq_take_def)
  qed
qed

lemma fixq_inv_frame:
  assumes "fixq_inv r s" and "sem_inv s'" and "fixqs s' r = fixqs s r"
    and "\<And>x. x \<in> queue_sems r s \<Longrightarrow> sem_of s' x = sem_of s x"
  shows "fixq_inv r s'"
proof -
  from assms(1) obtain i j where "fixq_wf (fixqs s r)" "fq_send_sem (fixqs s r) = Some i"
    "fq_recv_sem (fixqs s r) = Some j" "i \<noteq> j" "sys_sem_valid (Some i) s" "sys_sem_valid (Some j) s"
    "sem_count (sem_of s i) + int (fq_count (fixqs s r)) = int (fq_size (fixqs s r))"
    "int (fq_count (fixqs s r)) \<le> sem_count (sem_of s j)"
    by (rule fixq_invE)
  moreover from this have "sem_of s' i = sem_of s i" "sem_of s' j = sem_of s j"
    using assms(4) by (auto simp: queue_sems_def)
  ultimately show ?thesis
    using assms(2,3) by (simp add: fixq_inv_def fixq_sems_def sys_sem_valid_Some)
qed

lemma queues_ok_only:
  assumes "queues_ok Q s" and "queue_only q s s'" and "fixq_inv q s'" and "q \<in> Q"
  shows "queues_ok Q s'"
proof -
  have sems: "queue_sems r s' = queue_sems r s" for r
    using assms(2) by (cases "r = q") (auto simp: queue_only_def queue_sems_def)
  have "fixq_inv r s'" if "r \<in> Q" for r
  proof (cases "r = q")
    case False
    have "queue_sems r s \<inter> queue_sems q s = {}"
      using assms(1,4) that False by (auto simp: queues_ok_def)
    with assms(1-3) that False show ?thesis
      by (intro fixq_inv_frame [of r s s']) (auto simp: queues_ok_def queue_only_def fixq_inv_def)
  qed (use assms(3) in simp)
  with assms(1) sems show ?thesis by (simp add: queues_ok_def)
qed

lemma queue_only_items:
  "queue_only q s s' \<Longrightarrow> r \<noteq> q \<Longrightarrow> fixq_items r s' = fixq_items r s"
  by (simp add: queue_only_def fixq_items_def)

text \<open>Polling a queue for space, and for a message.\<close>

lemma queue_send:
  assumes "queues_ok Q s" and "q \<in> Q" and "t < 0"
  shows "post (fixq_send (Some q) (Some m) t [] s) (\<lambda>(e, s'). queues_ok Q s' \<and> queue_only q s s' \<and>
    (if e = NET_ERR_OK then fixq_items q s' = fixq_items q s @ [m] \<and> length (fixq_items q s) < fq_size (fixqs s q)
     else s' = s \<and> length (fixq_items q s) = fq_size (fixqs s q)))"
proof -
  from assms(1,2) have inv: "fixq_inv q s" by (simp add: queues_ok_def)
  show ?thesis
  proof (cases "fq_count (fixqs s q) < fq_size (fixqs s q)")
    case True
    from fixq_send_room [OF inv True, of m t "[]"] obtain s' where s': "fixq_send (Some q) (Some m) t [] s = Some (NET_ERR_OK, s')"
      "fixq_inv q s'" "fixq_items q s' = fixq_items q s @ [m]" by blast
    note o = fixq_send_only [OF inv s'(1) assms(3)]
    with s' True queues_ok_only [OF assms(1) o s'(2) assms(2)] show ?thesis by simp
  next
    case False
    with inv have "fq_count (fixqs s q) = fq_size (fixqs s q)" by (simp add: fixq_inv_def fixq_wf_def)
    with assms show ?thesis by (simp add: fixq_send_full)
  qed
qed

lemma queue_recv:
  assumes "queues_ok Q s" and "q \<in> Q" and "t < 0"
  shows "post (fixq_recv (Some q) t [] s) (\<lambda>(r, s'). queues_ok Q s' \<and> queue_only q s s' \<and>
    (case r of None \<Rightarrow> s' = s \<and> fixq_items q s = [] | Some m \<Rightarrow> fixq_items q s = m # fixq_items q s'))"
proof -
  from assms(1,2) have inv: "fixq_inv q s" by (simp add: queues_ok_def)
  show ?thesis
  proof (cases "0 < fq_count (fixqs s q)")
    case True
    from fixq_recv_item [OF inv True, of t "[]"] obtain s' where s': "fixq_recv (Some q) t [] s = Some (Some (hd (fixq_items q s)), s')"
      "fixq_inv q s'" "fixq_items q s = hd (fixq_items q s) # fixq_items q s'" by blast
    note o = fixq_recv_only [OF inv s'(1) assms(3)]
    with s' queues_ok_only [OF assms(1) o s'(2) assms(2)] show ?thesis by simp
  next
    case False
    with assms show ?thesis by (simp add: fixq_recv_empty)
  qed
qed


section \<open>Holding references\<close>

text \<open>The packet queues of the interfaces \<open>N\<close>, and the references that they hold.\<close>

definition nif_queues :: "nat set \<Rightarrow> nat set" where
  "nif_queues N = IN_Q ` N \<union> OUT_Q ` N"

definition held :: "nat set \<Rightarrow> 'a fixq_state_scheme \<Rightarrow> nat multiset" where
  "held N s = (\<Sum>q\<in>nif_queues N. mset (fixq_items q s))"

text \<open>\<open>H\<close> has each buffer as often as it is referenced.\<close>

definition own :: "nat multiset \<Rightarrow> 'a pkt_state_scheme \<Rightarrow> bool" where
  "own H s \<longleftrightarrow> pkt_inv s \<and> (\<forall>i. count H i = (if i \<in> live s then ref (pktbufs s i) else 0))"

text \<open>No reference count has grown since \<open>s0\<close>, and buffers allocated since have at most one reference.\<close>

definition ref_le :: "'a pkt_state_scheme \<Rightarrow> 'a pkt_state_scheme \<Rightarrow> bool" where
  "ref_le s0 s \<longleftrightarrow> (\<forall>i\<in>live s. ref (pktbufs s i) \<le> max 1 (if i \<in> live s0 then ref (pktbufs s0 i) else 0))"

definition pool_ok :: "nat set \<Rightarrow> nat set \<Rightarrow> nat multiset \<Rightarrow> 'a pkt_state_scheme \<Rightarrow> bool" where
  "pool_ok Q N H s \<longleftrightarrow> finite N \<and> nif_queues N \<subseteq> Q \<and> queues_ok Q s \<and> own (H + held N s) s"

text \<open>The buffers of which every reference is in \<open>K\<close> have not changed since \<open>s0\<close>.\<close>

definition untouched :: "nat multiset \<Rightarrow> 'a pkt_state_scheme \<Rightarrow> 'a pkt_state_scheme \<Rightarrow> bool" where
  "untouched K s0 s \<longleftrightarrow> (\<forall>i. i \<in># K \<longrightarrow> ref (pktbufs s0 i) = count K i \<longrightarrow> pktbufs s i = pktbufs s0 i)"

text \<open>Since the state \<open>snd s0\<close>, in which the callers hold the references \<open>fst s0\<close>.\<close>

definition since :: "nat multiset \<times> 'a pkt_state_scheme \<Rightarrow> 'a pkt_state_scheme \<Rightarrow> bool" where
  "since s0 s \<longleftrightarrow> ref_le (snd s0) s \<and> untouched (fst s0) (snd s0) s"

text \<open>The running code holds \<open>H\<close>, besides what its callers hold.\<close>

definition keep ::
  "nat set \<Rightarrow> nat set \<Rightarrow> nat multiset \<times> 'a pkt_state_scheme \<Rightarrow> nat multiset \<Rightarrow> 'a pkt_state_scheme \<Rightarrow> bool" where
  "keep Q N s0 H s \<longleftrightarrow> pool_ok Q N (fst s0 + H) s \<and> since s0 s"

text \<open>Nothing above the buffers has changed, no queue of another component than \<open>Netif\<close>, and no semaphore of a queue has
  been replaced.\<close>

definition other_queue :: "nat \<Rightarrow> nat" where
  "other_queue q = (if q mod 4 < 2 then 2 else q)"

definition upper :: "'a pkt_state_scheme \<Rightarrow> 'a \<times> (nat \<Rightarrow> fixq) \<times> (nat \<Rightarrow> sys_sem_t \<times> sys_sem_t)" where
  "upper s = (pkt_state.more s, fixqs s \<circ> other_queue, (\<lambda>k. (fq_send_sem k, fq_recv_sem k)) \<circ> fixqs s)"

abbreviation same_above :: "'a pkt_state_scheme \<Rightarrow> 'a pkt_state_scheme \<Rightarrow> bool" where
  "same_above s s' \<equiv> upper s' = upper s"

lemma upper_simps [simp]:
  "upper (s\<lparr>pktbufs := x\<rparr>) = upper s" "upper (s\<lparr>block_list := y\<rparr>) = upper s" "upper (s\<lparr>pktbuf_list := z\<rparr>) = upper s"
  by (simp_all add: upper_def)

lemma same_above_queue: "same_above s s' \<Longrightarrow> 2 \<le> q mod 4 \<Longrightarrow> fixqs s' q = fixqs s q"
  by (auto simp: upper_def other_queue_def dest!: fun_cong [of _ _ q])

lemma same_above_sems: "same_above s s' \<Longrightarrow> queue_sems q s' = queue_sems q s"
  by (auto simp: upper_def queue_sems_def dest!: fun_cong [of "_ \<circ> fixqs s'" _ q])

lemma same_netif:
  fixes s s' :: "'a netif_state_scheme"
  assumes "same_above s s'"
  shows "netifs s' = netifs s" "netif_list s' = netif_list s" "netif_default s' = netif_default s"
    "link_layers s' = link_layers s" "netif_free s' = netif_free s" "netif_state.more s' = netif_state.more s"
  using assms unfolding upper_def by (cases s; cases s'; simp)+

lemma own_live: "own H s \<Longrightarrow> i \<in># H \<Longrightarrow> i \<in> live s"
  by (metis count_eq_zero_iff own_def)

lemma own_inv: "own H s \<Longrightarrow> pkt_inv s"
  by (simp add: own_def)

lemma pool_live: "pool_ok Q N H s \<Longrightarrow> i \<in># H \<Longrightarrow> i \<in> live s"
  by (auto simp: pool_ok_def intro: own_live)

lemma pool_inv: "pool_ok Q N H s \<Longrightarrow> pkt_inv s"
  by (simp add: pool_ok_def own_def)

lemma pool_wf: "pool_ok Q N H s \<Longrightarrow> i \<in># H \<Longrightarrow> buf_wf (pktbufs s i) \<and> 0 < ref (pktbufs s i)"
  using live_bufD pool_inv pool_live by metis

lemma ref_le_refl [simp]: "ref_le s s"
  by (simp add: ref_le_def)

lemma ref_le_trans:
  assumes "ref_le s0 s1" and "ref_le s1 s2"
  shows "ref_le s0 s2"
  unfolding ref_le_def
proof
  fix i
  assume "i \<in> live s2"
  with assms(2) have "ref (pktbufs s2 i) \<le> max 1 (if i \<in> live s1 then ref (pktbufs s1 i) else 0)"
    by (simp add: ref_le_def)
  moreover have "i \<in> live s1 \<Longrightarrow> ref (pktbufs s1 i) \<le> max 1 (if i \<in> live s0 then ref (pktbufs s0 i) else 0)"
    using assms(1) by (simp add: ref_le_def)
  ultimately show "ref (pktbufs s2 i) \<le> max 1 (if i \<in> live s0 then ref (pktbufs s0 i) else 0)"
    by (cases "i \<in> live s1") auto
qed

lemma since_refl [simp]: "since (K, s) s"
  by (simp add: since_def untouched_def)

lemma keep_refl: "keep Q N ({#}, s) H s \<longleftrightarrow> pool_ok Q N H s"
  by (simp add: keep_def)

lemma pool_count:
  "pool_ok Q N H s \<Longrightarrow> count (H + held N s) i = (if i \<in> live s then ref (pktbufs s i) else 0)"
  by (simp add: pool_ok_def own_def)

text \<open>A buffer of which the running code holds a reference is not private to its callers.\<close>

lemma held_not_private:
  assumes "keep Q N s0 H s" and "b \<in># H" and "b \<in># fst s0"
  shows "ref (pktbufs (snd s0) b) \<noteq> count (fst s0) b"
proof
  assume r: "ref (pktbufs (snd s0) b) = count (fst s0) b"
  with assms(1,3) have "pktbufs s b = pktbufs (snd s0) b" by (simp add: keep_def since_def untouched_def)
  moreover have "count (fst s0) b < ref (pktbufs s b)"
  proof -
    have "count H b \<noteq> 0" using assms(2) by simp
    moreover have "count (fst s0) b + count H b + count (held N s) b = ref (pktbufs s b)"
      using pool_count [of Q N "fst s0 + H" s b] pool_live [of Q N "fst s0 + H" s b] assms(1,2) by (simp add: keep_def)
    ultimately show ?thesis by linarith
  qed
  ultimately show False using r by simp
qed

lemma since_update:
  assumes "keep Q N s0 H s" and "b \<in># H" and "ref_le (snd s0) s'" and "\<And>j. j \<noteq> b \<Longrightarrow> pktbufs s' j = pktbufs s j"
  shows "since s0 s'"
  unfolding since_def untouched_def
proof (intro conjI allI impI)
  fix i
  assume i: "i \<in># fst s0" "ref (pktbufs (snd s0) i) = count (fst s0) i"
  then have "i \<noteq> b" using held_not_private [OF assms(1,2)] by auto
  with i assms(1,4) show "pktbufs s' i = pktbufs (snd s0) i" by (simp add: keep_def since_def untouched_def)
qed (rule assms(3))

lemma finite_nif_queues [simp]: "finite N \<Longrightarrow> finite (nif_queues N)"
  by (simp add: nif_queues_def)

lemma held_cong: "(\<And>q. q \<in> nif_queues N \<Longrightarrow> fixq_items q s' = fixq_items q s) \<Longrightarrow> held N s' = held N s"
  by (simp add: held_def)

lemma held_change:
  assumes "finite N" and "q \<in> nif_queues N" and "queue_only q s s'"
  shows "held N s' + mset (fixq_items q s) = held N s + mset (fixq_items q s')"
proof -
  have "(\<Sum>r\<in>nif_queues N - {q}. mset (fixq_items r s')) = (\<Sum>r\<in>nif_queues N - {q}. mset (fixq_items r s))"
    using queue_only_items [OF assms(3)] by (intro sum.cong) auto
  with assms(1,2) show ?thesis
    by (simp add: held_def sum.remove [of "nif_queues N" q] ac_simps)
qed


section \<open>Rules for buffers\<close>

text \<open>Only buffer \<open>b\<close> and the list of free blocks have changed, and not the references to \<open>b\<close>.\<close>

definition buf_only :: "nat \<Rightarrow> 'a pkt_state_scheme \<Rightarrow> 'a pkt_state_scheme \<Rightarrow> bool" where
  "buf_only b s s' \<longleftrightarrow> (\<exists>x fr. s' = s\<lparr>pktbufs := (pktbufs s)(b := x), block_list := fr\<rparr> \<and> ref x = ref (pktbufs s b))"

lemma buf_only_refl [simp]: "buf_only b s s"
  unfolding buf_only_def by (rule exI [of _ "pktbufs s b"], rule exI [of _ "block_list s"]) simp

lemma buf_only_trans: "buf_only b s s1 \<Longrightarrow> buf_only b s1 s2 \<Longrightarrow> buf_only b s s2"
  unfolding buf_only_def by fastforce

lemma buf_onlyD:
  assumes "buf_only b s s'"
  shows "same_above s s'" "fixqs s' = fixqs s" "sem_pool s' = sem_pool s" "vnet s' = vnet s" "mtime s' = mtime s"
    "wakes s' = wakes s" "live s' = live s" "pktbuf_list s' = pktbuf_list s"
    "\<And>j. j \<noteq> b \<Longrightarrow> pktbufs s' j = pktbufs s j" "\<And>j. ref (pktbufs s' j) = ref (pktbufs s j)"
  using assms by (auto simp: buf_only_def live_def)

lemma queues_ok_cong:
  assumes "fixqs s' = fixqs s" and "sem_pool s' = sem_pool s" and "queues_ok Q s"
  shows "queues_ok Q s'"
proof -
  have "fixq_inv q s'" if "q \<in> Q" for q
  proof (rule fixq_inv_frame [of q s])
    show "fixq_inv q s" using assms(3) that by (simp add: queues_ok_def)
    then show "sem_inv s'" using sem_inv_cong [OF assms(2)] by (simp add: fixq_inv_def)
  qed (simp_all add: assms(1,2))
  with assms(1,3) show ?thesis by (simp add: queues_ok_def queue_sems_def)
qed

lemma held_fixqs: "fixqs s' = fixqs s \<Longrightarrow> held N s' = held N s"
  by (rule held_cong) (simp add: fixq_items_def)

lemma ref_le_same:
  assumes "ref_le s0 s" and "\<And>j. j \<in> live s' \<Longrightarrow> j \<in> live s \<and> ref (pktbufs s' j) \<le> ref (pktbufs s j)"
  shows "ref_le s0 s'"
  unfolding ref_le_def
proof
  fix j
  assume "j \<in> live s'"
  with assms(2) have "j \<in> live s" "ref (pktbufs s' j) \<le> ref (pktbufs s j)" by blast+
  with assms(1) show "ref (pktbufs s' j) \<le> max 1 (if j \<in> live s0 then ref (pktbufs s0 j) else 0)"
    unfolding ref_le_def by (meson order_trans)
qed

lemma keep_buf_only:
  assumes "keep Q N s0 H s" and "b \<in># H" and "buf_only b s s'" and "pkt_inv s'"
  shows "keep Q N s0 H s'"
proof -
  note f = buf_onlyD [OF assms(3)]
  have "ref_le (snd s0) s'"
    by (rule ref_le_same [of _ s]) (use assms(1) f(7,10) in \<open>simp_all add: keep_def since_def\<close>)
  from since_update [OF assms(1,2) this f(9)] have "since s0 s'" .
  moreover have "queues_ok Q s \<Longrightarrow> queues_ok Q s'" by (rule queues_ok_cong [OF f(2,3)])
  ultimately show ?thesis
    using assms(1,4) f(7,10) held_fixqs [OF f(2), of N] by (simp add: keep_def pool_ok_def own_def)
qed

lemma keep_on_buf:
  assumes "keep Q N s0 H s" and "b \<in># H"
    and "buf_post (pktbufs s b) (block_list s) P (f (pktbufs s b) (block_list s))"
  shows "post (on_buf (Some b) f s) (\<lambda>(e, s'). keep Q N s0 H s' \<and> buf_only b s s' \<and>
    (if e = NET_ERR_OK then P (pktbufs s' b) else pktbufs s' b = pktbufs s b) \<and>
    f (pktbufs s b) (block_list s) = Some (e, pktbufs s' b, block_list s'))"
proof -
  from assms(1,2) have l: "pkt_inv s" "b \<in> live s"
    by (auto simp: keep_def pool_inv intro: pool_live)
  from buf_post_returns [OF assms(3)] obtain e x fr where r: "f (pktbufs s b) (block_list s) = Some (e, x, fr)"
    and k: "op_keeps (pktbufs s b) (block_list s) x fr" by blast
  let ?s = "s\<lparr>pktbufs := (pktbufs s)(b := x), block_list := fr\<rparr>"
  have o: "buf_only b s ?s" using k unfolding buf_only_def op_keeps_def by blast
  from keep_buf_only [OF assms(1,2) o pkt_inv_update [OF l k]] o r assms(3) show ?thesis
    by (simp add: on_buf_def)
qed

lemma pool_free:
  assumes "pool_ok Q N (add_mset b H) s"
  shows "pool_ok Q N H (pktbuf_free (Some b) s)" and "ref_le s0 s \<Longrightarrow> ref_le s0 (pktbuf_free (Some b) s)"
    and "\<And>j. j \<noteq> b \<Longrightarrow> pktbufs (pktbuf_free (Some b) s) j = pktbufs s j"
proof -
  let ?s = "pktbuf_free (Some b) s"
  from assms have l: "pkt_inv s" "b \<in> live s" by (auto intro: pool_inv pool_live)
  note f = pktbuf_free_spec [OF l] live_bufD [OF l]
  have fr: "fixqs ?s = fixqs s" "sem_pool ?s = sem_pool s" "ref (pktbufs ?s b) = ref (pktbufs s b) - 1"
    by (simp_all add: pktbuf_free_def Let_def)
  show "\<And>j. j \<noteq> b \<Longrightarrow> pktbufs ?s j = pktbufs s j" by (rule f(3))
  have "count (H + held N s) i = (if i \<in> live ?s then ref (pktbufs ?s i) else 0)" for i
    using pool_count [OF assms, of i] l(2) f(2,3,6) fr(3) by (cases "i = b") (auto split: if_splits)
  then have "own (H + held N ?s) ?s"
    using f(1) held_fixqs [OF fr(1)] by (simp add: own_def)
  then show "pool_ok Q N H ?s"
    using assms queues_ok_cong [OF fr(1,2)] by (simp add: pool_ok_def)
  have "i \<in> live s \<and> ref (pktbufs ?s i) \<le> ref (pktbufs s i)" if "i \<in> live ?s" for i
    using that f(2,3) fr(3) by (cases "i = b") (auto split: if_splits)
  then show "ref_le s0 s \<Longrightarrow> ref_le s0 ?s" using ref_le_same by blast
qed

lemma keep_free:
  assumes "keep Q N s0 (add_mset b H) s"
  shows "keep Q N s0 H (pktbuf_free (Some b) s)" and "same_above s (pktbuf_free (Some b) s)"
proof -
  from assms have p: "pool_ok Q N (add_mset b (fst s0 + H)) s" "ref_le (snd s0) s" by (simp_all add: keep_def since_def)
  note f = pool_free(1) [OF p(1)] pool_free(2) [OF p(1,2)] pool_free(3) [OF p(1)]
  from since_update [OF assms _ f(2,3), of b] f(1) show "keep Q N s0 H (pktbuf_free (Some b) s)"
    by (simp add: keep_def)
  show "same_above s (pktbuf_free (Some b) s)" by (simp add: pktbuf_free_def Let_def)
qed

lemma pool_alloc:
  assumes "pool_ok Q N H s" and "pktbuf_alloc sz s = (r, s')"
  shows "r = None \<Longrightarrow> pool_ok Q N H s' \<and> live s' = live s \<and> alloc_fails sz s"
    and "r = Some b \<Longrightarrow> pool_ok Q N (add_mset b H) s' \<and> 0 \<le> sz \<and> total_size (pktbufs s' b) = nat sz \<and>
      pos (pktbufs s' b) = 0 \<and> ref (pktbufs s' b) = 1 \<and> b \<notin> live s \<and> live s' = insert b (live s)"
    and "\<forall>j\<in>live s. pktbufs s' j = pktbufs s j"
proof -
  note inv = pool_inv [OF assms(1)] and c = pool_count [OF assms(1)]
  have f: "fixqs s' = fixqs s" "sem_pool s' = sem_pool s"
    using assms(2) by (auto simp: pktbuf_alloc_def Let_def split: if_splits list.splits prod.splits option.splits)
  have qs: "queues_ok Q s'" "held N s' = held N s"
    using assms(1) queues_ok_cong [OF f] held_fixqs [OF f(1)] by (simp_all add: pool_ok_def)
  have "(if alloc_fails sz s then r = None \<and> pool_ok Q N H s' \<and> live s' = live s
      else \<exists>b. r = Some b \<and> pool_ok Q N (add_mset b H) s' \<and> 0 \<le> sz \<and> total_size (pktbufs s' b) = nat sz \<and>
        pos (pktbufs s' b) = 0 \<and> ref (pktbufs s' b) = 1 \<and> b \<notin> live s \<and> live s' = insert b (live s)) \<and>
    (\<forall>j\<in>live s. pktbufs s' j = pktbufs s j)"
  proof (cases "alloc_fails sz s")
    case True
    note a = pktbuf_alloc_fail [OF inv True assms(2)]
    from a c qs have "own (H + held N s') s'" by (auto simp: own_def)
    with True a qs(1) assms(1) show ?thesis by (simp add: pool_ok_def)
  next
    case False
    from pktbuf_alloc_ok [OF inv False] obtain x free' where
      al: "pktbuf_alloc sz s = (Some (hd (pktbuf_list s)), s\<lparr>pktbuf_list := tl (pktbuf_list s), block_list := free',
        pktbufs := (pktbufs s)(hd (pktbuf_list s) := x)\<rparr>)"
      and x: "buf_wf x" "ref x = 1" "total_size x = nat sz" "pos x = 0" "free_wf free'"
        "ids (blk_list x) + ids free' = ids (block_list s)"
      by metis
    define b where "b = hd (pktbuf_list s)"
    from False have ne: "pktbuf_list s = b # tl (pktbuf_list s)" and "0 \<le> sz"
      by (auto simp: alloc_fails_def b_def)
    from al assms(2) have r: "r = Some b"
      and s': "s' = s\<lparr>pktbuf_list := tl (pktbuf_list s), block_list := free', pktbufs := (pktbufs s)(b := x)\<rparr>"
      by (simp_all add: b_def)
    have "0 < ref x" using x(2) by simp
    note tk = pkt_inv_take [OF inv ne x(1) this x(5,6), folded s']
    have "count (add_mset b H + held N s') i = (if i \<in> live s' then ref (pktbufs s' i) else 0)" for i
      using c [of i] tk(2,3) x(2) qs(2) by (auto simp: s')
    then have "own (add_mset b H + held N s') s'" using tk(1) by (simp add: own_def)
    with False r qs(1) assms(1) x(2-4) tk(2,3) \<open>0 \<le> sz\<close> show ?thesis
      by (auto simp: pool_ok_def) (auto simp: s')
  qed
  then show "r = None \<Longrightarrow> pool_ok Q N H s' \<and> live s' = live s \<and> alloc_fails sz s"
    "r = Some b \<Longrightarrow> pool_ok Q N (add_mset b H) s' \<and> 0 \<le> sz \<and> total_size (pktbufs s' b) = nat sz \<and>
      pos (pktbufs s' b) = 0 \<and> ref (pktbufs s' b) = 1 \<and> b \<notin> live s \<and> live s' = insert b (live s)"
    "\<forall>j\<in>live s. pktbufs s' j = pktbufs s j"
    by (auto split: if_splits)
qed

lemma keep_alloc:
  assumes "keep Q N s0 H s" and "pktbuf_alloc sz s = (r, s')"
  shows "same_above s s'"
    and "r = None \<Longrightarrow> keep Q N s0 H s' \<and> alloc_fails sz s"
    and "r = Some b \<Longrightarrow> keep Q N s0 (add_mset b H) s' \<and> 0 \<le> sz \<and> total_size (pktbufs s' b) = nat sz \<and>
      pos (pktbufs s' b) = 0 \<and> ref (pktbufs s' b) = 1 \<and> b \<notin> live s \<and> live s' = insert b (live s)"
proof -
  show "same_above s s'"
    using assms(2) by (auto simp: pktbuf_alloc_def Let_def split: if_splits list.splits prod.splits option.splits)
  from assms(1) have p: "pool_ok Q N (fst s0 + H) s" and le: "ref_le (snd s0) s" and si: "since s0 s"
    by (simp_all add: keep_def since_def)
  note a = pool_alloc [OF p assms(2)]
  have "untouched (fst s0) (snd s0) s'"
    unfolding untouched_def
  proof (intro allI impI)
    fix i
    assume i: "i \<in># fst s0" "ref (pktbufs (snd s0) i) = count (fst s0) i"
    from i(1) have "i \<in> live s" using pool_live [OF p] by simp
    with a(3) i si show "pktbufs s' i = pktbufs (snd s0) i" by (simp add: since_def untouched_def)
  qed
  moreover have "ref_le (snd s0) s'"
  proof (cases r)
    case None
    with a(1,3) le show ?thesis by (auto intro: ref_le_same)
  next
    case (Some b)
    with a(2,3) le show ?thesis unfolding ref_le_def by auto
  qed
  ultimately have "since s0 s'" by (simp add: since_def)
  with a show "r = None \<Longrightarrow> keep Q N s0 H s' \<and> alloc_fails sz s"
    "r = Some b \<Longrightarrow> keep Q N s0 (add_mset b H) s' \<and> 0 \<le> sz \<and> total_size (pktbufs s' b) = nat sz \<and>
      pos (pktbufs s' b) = 0 \<and> ref (pktbufs s' b) = 1 \<and> b \<notin> live s \<and> live s' = insert b (live s)"
    by (auto simp: keep_def)
qed

lemma keep_wf:
  assumes "keep Q N s0 H s" and "b \<in># H"
  shows "pkt_inv s" "b \<in> live s" "buf_wf (pktbufs s b)" "free_wf (block_list s)" "0 < ref (pktbufs s b)"
  using assms pool_wf [of Q N "fst s0 + H" s b] pool_live [of Q N "fst s0 + H" s b] pool_inv [of Q N "fst s0 + H" s]
  by (auto simp: keep_def pkt_inv_def)

lemma keep_set_cont:
  assumes "keep Q N s0 H s" and "b \<in># H"
  shows "post (pktbuf_set_cont (Some b) sz s) (\<lambda>(e, s'). keep Q N s0 H s' \<and> buf_only b s s' \<and>
    buf_bytes (pktbufs s' b) = buf_bytes (pktbufs s b) \<and>
    (e = NET_ERR_OK \<longrightarrow> 0 \<le> sz \<and> contiguous (nat sz) (pktbufs s' b)))"
  using keep_on_buf [where f = "set_cont sz", OF assms set_cont_post [OF keep_wf(3-5) [OF assms], of sz]]
  unfolding pktbuf_set_cont_def by (rule post_mono) (auto simp: contiguous_def split: if_splits)

lemma keep_remove_header:
  assumes "keep Q N s0 H s" and "b \<in># H"
  shows "post (pktbuf_remove_header (Some b) sz s) (\<lambda>(e, s'). keep Q N s0 H s' \<and> buf_only b s s' \<and>
    (if e = NET_ERR_OK then 0 \<le> sz \<and> sz \<le> pktbuf_total b s \<and> buf_bytes (pktbufs s' b) = drop (nat sz) (buf_bytes (pktbufs s b))
     else pktbufs s' b = pktbufs s b))"
  using keep_on_buf [where f = "remove_header sz", OF assms remove_header_post [OF keep_wf(3-5) [OF assms], of sz]]
  unfolding pktbuf_remove_header_def pktbuf_total_def by (rule post_mono) auto

lemma keep_resize:
  assumes "keep Q N s0 H s" and "b \<in># H"
  shows "post (pktbuf_resize (Some b) sz s) (\<lambda>(e, s'). keep Q N s0 H s' \<and> buf_only b s s' \<and>
    (if e = NET_ERR_OK then 0 \<le> sz \<and> total_size (pktbufs s' b) = nat sz \<and>
       (\<exists>pad. buf_bytes (pktbufs s' b) = take (nat sz) (buf_bytes (pktbufs s b)) @ pad) \<and>
       (\<forall>m \<le> nat sz. contiguous m (pktbufs s b) \<longrightarrow> contiguous m (pktbufs s' b))
     else pktbufs s' b = pktbufs s b))"
  using keep_on_buf [where f = "pktbuf_resize_core sz", OF assms resize_post [OF keep_wf(3-5) [OF assms], of sz]]
  unfolding pktbuf_resize_def
proof (rule post_pair)
  fix e s'
  assume k: "keep Q N s0 H s' \<and> buf_only b s s' \<and>
    (if e = NET_ERR_OK then resized sz (pktbufs s b) (pktbufs s' b) else pktbufs s' b = pktbufs s b) \<and>
    pktbuf_resize_core sz (pktbufs s b) (block_list s) = Some (e, pktbufs s' b, block_list s')"
  then have "total_size (pktbufs s' b) = length (buf_bytes (pktbufs s' b))"
    using length_buf_bytes [OF keep_wf(3) [OF _ assms(2)]] by metis
  moreover have "contiguous m (pktbufs s' b)" if "e = NET_ERR_OK" "m \<le> nat sz" "contiguous m (pktbufs s b)" for m
    using resize_contiguous [OF _ keep_wf(3) [OF assms] that(3,2)] k that(1) by blast
  ultimately show "case (e, s') of (e, s') \<Rightarrow> keep Q N s0 H s' \<and> buf_only b s s' \<and>
    (if e = NET_ERR_OK then 0 \<le> sz \<and> total_size (pktbufs s' b) = nat sz \<and>
       (\<exists>pad. buf_bytes (pktbufs s' b) = take (nat sz) (buf_bytes (pktbufs s b)) @ pad) \<and>
       (\<forall>m \<le> nat sz. contiguous m (pktbufs s b) \<longrightarrow> contiguous m (pktbufs s' b))
     else pktbufs s' b = pktbufs s b)"
    using k by (cases "e = NET_ERR_OK") simp_all
qed

lemma keep_seek:
  assumes "keep Q N s0 H s" and "b \<in># H"
  shows "post (pktbuf_seek (Some b) off s) (\<lambda>(e, s'). keep Q N s0 H s' \<and> buf_only b s s' \<and>
    blk_list (pktbufs s' b) = blk_list (pktbufs s b) \<and> (e = NET_ERR_OK \<longrightarrow> 0 \<le> off \<and> pos (pktbufs s' b) = nat off))"
  using keep_on_buf [where f = "seek_buf off", OF assms seek_buf_post [OF keep_wf(3-5) [OF assms], of off]]
  unfolding pktbuf_seek_def by (rule post_mono) (auto split: if_splits)

lemma keep_fill:
  assumes "keep Q N s0 H s" and "b \<in># H"
  shows "post (pktbuf_fill (Some b) v sz s) (\<lambda>(e, s'). keep Q N s0 H s' \<and> buf_only b s s' \<and>
    (\<forall>n. contiguous n (pktbufs s' b) = contiguous n (pktbufs s b)) \<and>
    (if e = NET_ERR_OK then 0 \<le> sz \<and> pos (pktbufs s' b) = pos (pktbufs s b) + nat sz \<and>
       buf_bytes (pktbufs s' b) = put_at (pos (pktbufs s b)) (replicate (nat sz) v) (buf_bytes (pktbufs s b))
     else pktbufs s' b = pktbufs s b))"
  using keep_on_buf [where f = "fill_buf v sz", OF assms fill_buf_post [OF keep_wf(3-5) [OF assms], of sz v]]
  unfolding pktbuf_fill_def by (rule post_mono) (auto dest: fill_buf_contiguous)

lemma keep_write:
  assumes "keep Q N s0 H s" and "b \<in># H" and "0 < sz \<Longrightarrow> src = None \<or> nat sz \<le> length (the src)"
  shows "post (pktbuf_write (Some b) src sz s) (\<lambda>(e, s'). keep Q N s0 H s' \<and> buf_only b s s' \<and>
    (\<forall>n. contiguous n (pktbufs s' b) = contiguous n (pktbufs s b)) \<and>
    (if e = NET_ERR_OK then 0 \<le> sz \<and> pos (pktbufs s' b) = pos (pktbufs s b) + nat sz \<and>
       (0 < sz \<longrightarrow> buf_bytes (pktbufs s' b) = put_at (pos (pktbufs s b)) (take (nat sz) (the src)) (buf_bytes (pktbufs s b)))
     else pktbufs s' b = pktbufs s b))"
  unfolding pktbuf_write_def
  by (rule post_mono [OF keep_on_buf [where f = "write_buf src sz", OF assms(1,2) write_buf_post [OF keep_wf(3-5) [OF assms(1,2)]]]])
    (use assms(3) in \<open>auto dest: write_buf_contiguous\<close>)

lemma hdr_post_buf_post:
  "hdr_post b free sz r \<Longrightarrow> buf_post b free (\<lambda>b'. 0 \<le> sz \<and> (\<exists>h. length h = nat sz \<and> buf_bytes b' = h @ buf_bytes b)) r"
  by (cases "(b, free, sz, r)" rule: hdr_post.cases) auto

lemma keep_add_header:
  assumes "keep Q N s0 H s" and "b \<in># H"
  shows "post (pktbuf_add_header (Some b) sz True s) (\<lambda>(e, s'). keep Q N s0 H s' \<and> buf_only b s s' \<and>
    (if e = NET_ERR_OK then 0 \<le> sz \<and> (\<exists>h. length h = nat sz \<and> buf_bytes (pktbufs s' b) = h @ buf_bytes (pktbufs s b)) \<and>
       (0 < sz \<longrightarrow> sz \<le> int PKTBUF_BLK_SIZE \<longrightarrow> contiguous (nat sz) (pktbufs s' b) \<and> pos (pktbufs s' b) = 0)
     else pktbufs s' b = pktbufs s b))"
  using keep_on_buf [where f = "add_header sz True", OF assms hdr_post_buf_post [OF add_header_post [OF keep_wf(3-5) [OF assms], of sz True]]]
  unfolding pktbuf_add_header_def
  by (rule post_mono) (auto dest: add_header_contiguous [OF _ _ _ keep_wf(4) [OF assms]])

lemma keep_buf:
  assumes "keep Q N s0 H s" and "b \<in># H" and "buf_wf x" and "ref x = ref (pktbufs s b)"
    and "ids (blk_list x) = ids (blk_list (pktbufs s b))"
  shows "keep Q N s0 H (s\<lparr>pktbufs := (pktbufs s)(b := x)\<rparr>)" and "buf_only b s (s\<lparr>pktbufs := (pktbufs s)(b := x)\<rparr>)"
proof -
  note w = keep_wf [OF assms(1,2)]
  from assms(3-5) w(4) have "op_keeps (pktbufs s b) (block_list s) x (block_list s)"
    by (simp add: op_keeps_def)
  from pkt_inv_update [OF w(1,2) this] have i: "pkt_inv (s\<lparr>pktbufs := (pktbufs s)(b := x)\<rparr>)" by simp
  show o: "buf_only b s (s\<lparr>pktbufs := (pktbufs s)(b := x)\<rparr>)"
    using assms(4) unfolding buf_only_def by (intro exI [of _ x] exI [of _ "block_list s"]) simp
  show "keep Q N s0 H (s\<lparr>pktbufs := (pktbufs s)(b := x)\<rparr>)"
    by (rule keep_buf_only [OF assms(1,2) o i])
qed

lemma keep_put:
  assumes "keep Q N s0 H s" and "b \<in># H" and "contiguous n (pktbufs s b)" and "off + length bs \<le> n" and "bs \<noteq> []"
  shows "post (pktbuf_put b off bs s) (\<lambda>s'. keep Q N s0 H s' \<and> buf_only b s s' \<and>
    buf_bytes (pktbufs s' b) = put_at off bs (buf_bytes (pktbufs s b)) \<and>
    total_size (pktbufs s' b) = total_size (pktbufs s b) \<and> pos (pktbufs s' b) = pos (pktbufs s b) \<and>
    contiguous n (pktbufs s' b))"
proof -
  note w = keep_wf [OF assms(1,2)]
  have "contiguous (off + length bs) (pktbufs s b)" by (rule contiguous_mono [OF assms(3,4)])
  from hdr_put_spec [OF w(3) this assms(5)] obtain x where x: "hdr_put off bs (pktbufs s b) = Some x" "buf_wf x"
    "buf_bytes x = put_at off bs (buf_bytes (pktbufs s b))" "total_size x = total_size (pktbufs s b)"
    "pos x = pos (pktbufs s b)" "ref x = ref (pktbufs s b)" "ids (blk_list x) = ids (blk_list (pktbufs s b))"
    "\<And>n. contiguous n x = contiguous n (pktbufs s b)" by blast
  with keep_buf [OF assms(1,2) x(2,6,7)] assms(3) show ?thesis by (simp add: pktbuf_put_def)
qed

lemma keep_get:
  assumes "keep Q N s0 H s" and "b \<in># H" and "contiguous n (pktbufs s b)" and "off + k \<le> n" and "0 < k"
  shows "pktbuf_get b off k s = Some (get_at off k (buf_bytes (pktbufs s b)))"
  using hdr_get_spec [OF keep_wf(3) [OF assms(1,2)] contiguous_mono [OF assms(3,4)] assms(5)]
  by (simp add: pktbuf_get_def)

lemma keep_reset_acc:
  assumes "keep Q N s0 H s" and "b \<in># H"
  shows "keep Q N s0 H (reset_acc b s)" "buf_only b s (reset_acc b s)"
    "blk_list (pktbufs (reset_acc b s) b) = blk_list (pktbufs s b)" "pos (pktbufs (reset_acc b s) b) = 0"
    "total_size (pktbufs (reset_acc b s) b) = total_size (pktbufs s b)"
proof -
  note w = keep_wf [OF assms(1,2)]
  have "buf_wf (pktbuf_reset_acc (pktbufs s b))"
    using w(3) reset_acc_wf [of "pktbufs s b"] by (simp add: buf_wf_def)
  from keep_buf [OF assms this] show "keep Q N s0 H (reset_acc b s)" "buf_only b s (reset_acc b s)"
    by (simp_all add: reset_acc_def)
qed (simp_all add: reset_acc_def)

lemma keep_checksum:
  assumes "keep Q N s0 H s" and "b \<in># H" and "unat pre \<le> 65535"
  shows "post (pktbuf_checksum16 (Some b) sz pre complement s) (\<lambda>(r, s'). keep Q N s0 H s' \<and> buf_only b s s' \<and>
    blk_list (pktbufs s' b) = blk_list (pktbufs s b) \<and> total_size (pktbufs s' b) = total_size (pktbufs s b) \<and>
    (0 \<le> sz \<longrightarrow> sz \<le> total_blk_remain (pktbufs s b) \<longrightarrow>
       r = (let acc = checksum_loop 0 (get_at (pos (pktbufs s b)) (nat sz) (buf_bytes (pktbufs s b))) pre
            in if complement then ucast (NOT acc) else ucast acc)))"
proof (cases "0 \<le> sz \<and> sz \<le> total_blk_remain (pktbufs s b)")
  case True
  note w = keep_wf [OF assms(1,2)]
  from pktbuf_checksum16_spec [OF w(1,2) conjunct1 [OF True] conjunct2 [OF True] assms(3), of complement] obtain x where
    r: "pktbuf_checksum16 (Some b) sz pre complement s =
      Some (let acc = checksum_loop 0 (get_at (pos (pktbufs s b)) (nat sz) (buf_bytes (pktbufs s b))) pre
            in if complement then ucast (NOT acc) else ucast acc, s\<lparr>pktbufs := (pktbufs s)(b := x)\<rparr>)"
    and x: "moved (nat sz) (pktbufs s b) x" "blk_list x = blk_list (pktbufs s b)" by blast
  from x(1) have "buf_wf x" "ref x = ref (pktbufs s b)" "total_size x = total_size (pktbufs s b)" by (simp_all add: moved_def)
  with keep_buf [OF assms(1,2), of x] r x(2) show ?thesis by simp
next
  case False
  with assms(1) keep_wf(5) [OF assms(1,2)] show ?thesis by (auto simp: pktbuf_checksum16_def)
qed

lemma keep_read:
  assumes "keep Q N s0 H s" and "b \<in># H"
  shows "post (pktbuf_read (Some b) False sz s) (\<lambda>(e, bytes, s'). keep Q N s0 H s' \<and> buf_only b s s' \<and>
    blk_list (pktbufs s' b) = blk_list (pktbufs s b) \<and> total_size (pktbufs s' b) = total_size (pktbufs s b) \<and>
    (0 \<le> sz \<longrightarrow> sz \<le> total_blk_remain (pktbufs s b) \<longrightarrow> e = NET_ERR_OK \<and>
       bytes = get_at (pos (pktbufs s b)) (nat sz) (buf_bytes (pktbufs s b))))"
proof (cases "0 < sz \<and> sz \<le> total_blk_remain (pktbufs s b)")
  case True
  note w = keep_wf [OF assms(1,2)]
  from pktbuf_read_spec [OF w(1,2) conjunct1 [OF True] conjunct2 [OF True]] obtain x where
    r: "pktbuf_read (Some b) False sz s = Some (NET_ERR_OK, get_at (pos (pktbufs s b)) (nat sz) (buf_bytes (pktbufs s b)),
      s\<lparr>pktbufs := (pktbufs s)(b := x)\<rparr>)"
    and x: "moved (nat sz) (pktbufs s b) x" "blk_list x = blk_list (pktbufs s b)" by blast
  from x(1) have "buf_wf x" "ref x = ref (pktbufs s b)" "total_size x = total_size (pktbufs s b)" by (simp_all add: moved_def)
  with keep_buf [OF assms(1,2), of x] r x(2) show ?thesis by simp
next
  case False
  with assms(1) keep_wf(5) [OF assms(1,2)] show ?thesis by (auto simp: pktbuf_read_def)
qed


lemma keep_low:
  assumes "fixqs s' = fixqs s" and "sem_pool s' = sem_pool s" and "pktbufs s' = pktbufs s"
    and "block_list s' = block_list s" and "pktbuf_list s' = pktbuf_list s"
  shows "keep Q N s0 H s' \<longleftrightarrow> keep Q N s0 H s"
proof -
  have "own H' s' = own H' s" "since s0 s' = since s0 s" for H'
    using assms(3-5) by (simp_all add: own_def pkt_inv_def live_def all_ids_def since_def ref_le_def untouched_def)
  with queues_ok_cong [OF assms(1,2), of Q] queues_ok_cong [OF assms(1,2) [symmetric], of Q] held_fixqs [OF assms(1), of N]
  show ?thesis by (auto simp: keep_def pool_ok_def)
qed


section \<open>Work on one buffer\<close>

text \<open>The running code holds \<open>H\<close>, and since \<open>s1\<close> it has only worked on buffer \<open>b\<close>, which it holds. The rules take the
  result of an operation apart, so that a handler is verified by following its text.\<close>

definition work ::
  "nat set \<Rightarrow> nat set \<Rightarrow> nat multiset \<times> 'a pkt_state_scheme \<Rightarrow> nat multiset \<Rightarrow> nat \<Rightarrow> 'a pkt_state_scheme
   \<Rightarrow> 'a pkt_state_scheme \<Rightarrow> bool" where
  "work Q N s0 H b s1 s \<longleftrightarrow> keep Q N s0 H s \<and> b \<in># H \<and> buf_only b s1 s"

lemma workI: "keep Q N s0 H s \<Longrightarrow> b \<in># H \<Longrightarrow> work Q N s0 H b s s"
  by (simp add: work_def)

lemma workD:
  assumes "work Q N s0 H b s1 s"
  shows "keep Q N s0 H s" "b \<in># H" "buf_only b s1 s"
  using assms by (simp_all add: work_def)

lemma workE:
  assumes "work Q N s0 H b s1 s" and "keep Q N s0 H s'" and "buf_only b s s'"
  shows "work Q N s0 H b s1 s'"
  using assms by (auto simp: work_def intro: buf_only_trans)

lemma w_set_cont:
  assumes "work Q N s0 H b s1 s"
    and "\<And>e s'. work Q N s0 H b s1 s' \<Longrightarrow> buf_bytes (pktbufs s' b) = buf_bytes (pktbufs s b) \<Longrightarrow>
      (e = NET_ERR_OK \<Longrightarrow> 0 \<le> sz \<and> contiguous (nat sz) (pktbufs s' b)) \<Longrightarrow> P (e, s')"
  shows "post (pktbuf_set_cont (Some b) sz s) P"
  by (rule post_pair [OF keep_set_cont [OF workD(1,2) [OF assms(1)]]]) (rule assms(2), auto intro: workE [OF assms(1)])

lemma w_remove_header:
  assumes "work Q N s0 H b s1 s"
    and "\<And>e s'. work Q N s0 H b s1 s' \<Longrightarrow> (e = NET_ERR_OK \<Longrightarrow> 0 \<le> sz \<and> sz \<le> pktbuf_total b s \<and>
      buf_bytes (pktbufs s' b) = drop (nat sz) (buf_bytes (pktbufs s b))) \<Longrightarrow> P (e, s')"
  shows "post (pktbuf_remove_header (Some b) sz s) P"
  by (rule post_pair [OF keep_remove_header [OF workD(1,2) [OF assms(1)]]]) (rule assms(2), auto intro: workE [OF assms(1)] split: if_splits)

lemma w_resize:
  assumes "work Q N s0 H b s1 s"
    and "\<And>e s'. work Q N s0 H b s1 s' \<Longrightarrow> (e = NET_ERR_OK \<Longrightarrow> 0 \<le> sz \<and> total_size (pktbufs s' b) = nat sz \<and>
      (\<exists>pad. buf_bytes (pktbufs s' b) = take (nat sz) (buf_bytes (pktbufs s b)) @ pad) \<and>
      (\<forall>m \<le> nat sz. contiguous m (pktbufs s b) \<longrightarrow> contiguous m (pktbufs s' b))) \<Longrightarrow> P (e, s')"
  shows "post (pktbuf_resize (Some b) sz s) P"
  by (rule post_pair [OF keep_resize [OF workD(1,2) [OF assms(1)]]]) (rule assms(2), auto intro: workE [OF assms(1)] split: if_splits)

lemma w_seek:
  assumes "work Q N s0 H b s1 s"
    and "\<And>e s'. work Q N s0 H b s1 s' \<Longrightarrow> blk_list (pktbufs s' b) = blk_list (pktbufs s b) \<Longrightarrow>
      (e = NET_ERR_OK \<Longrightarrow> 0 \<le> off \<and> pos (pktbufs s' b) = nat off) \<Longrightarrow> P (e, s')"
  shows "post (pktbuf_seek (Some b) off s) P"
  by (rule post_pair [OF keep_seek [OF workD(1,2) [OF assms(1)]]]) (rule assms(2), auto intro: workE [OF assms(1)] split: if_splits)

lemma w_fill:
  assumes "work Q N s0 H b s1 s"
    and "\<And>e s'. work Q N s0 H b s1 s' \<Longrightarrow> (\<And>n. contiguous n (pktbufs s' b) = contiguous n (pktbufs s b)) \<Longrightarrow>
      (e = NET_ERR_OK \<Longrightarrow> 0 \<le> sz \<and>
       buf_bytes (pktbufs s' b) = put_at (pos (pktbufs s b)) (replicate (nat sz) v) (buf_bytes (pktbufs s b))) \<Longrightarrow> P (e, s')"
  shows "post (pktbuf_fill (Some b) v sz s) P"
  by (rule post_pair [OF keep_fill [OF workD(1,2) [OF assms(1)]]]) (rule assms(2), auto intro: workE [OF assms(1)] split: if_splits)

lemma w_write:
  assumes "work Q N s0 H b s1 s" and "0 < sz \<Longrightarrow> src = None \<or> nat sz \<le> length (the src)"
    and "\<And>e s'. work Q N s0 H b s1 s' \<Longrightarrow> (\<And>n. contiguous n (pktbufs s' b) = contiguous n (pktbufs s b)) \<Longrightarrow>
      (e = NET_ERR_OK \<Longrightarrow> 0 \<le> sz \<and> (0 < sz \<longrightarrow>
       buf_bytes (pktbufs s' b) = put_at (pos (pktbufs s b)) (take (nat sz) (the src)) (buf_bytes (pktbufs s b)))) \<Longrightarrow> P (e, s')"
  shows "post (pktbuf_write (Some b) src sz s) P"
proof (rule post_pair [OF keep_write [OF workD(1,2) [OF assms(1)]]])
  show "0 < sz \<Longrightarrow> src = None \<or> nat sz \<le> length (the src)" by (rule assms(2))
qed (rule assms(3), auto intro: workE [OF assms(1)] split: if_splits)

lemma w_add_header:
  assumes "work Q N s0 H b s1 s" and "0 < sz" and "sz \<le> int PKTBUF_BLK_SIZE"
    and "\<And>e s'. work Q N s0 H b s1 s' \<Longrightarrow> (e = NET_ERR_OK \<Longrightarrow> contiguous (nat sz) (pktbufs s' b) \<and> pos (pktbufs s' b) = 0 \<and>
      (\<exists>h. length h = nat sz \<and> buf_bytes (pktbufs s' b) = h @ buf_bytes (pktbufs s b))) \<Longrightarrow> P (e, s')"
  shows "post (pktbuf_add_header (Some b) sz True s) P"
  by (rule post_pair [OF keep_add_header [OF workD(1,2) [OF assms(1)]]]) (rule assms(4), use assms(2,3) in \<open>auto intro: workE [OF assms(1)] split: if_splits\<close>)

lemma w_put:
  assumes "work Q N s0 H b s1 s" and "contiguous n (pktbufs s b)" and "off + length bs \<le> n" and "bs \<noteq> []"
    and "\<And>s'. work Q N s0 H b s1 s' \<Longrightarrow> contiguous n (pktbufs s' b) \<Longrightarrow>
      buf_bytes (pktbufs s' b) = put_at off bs (buf_bytes (pktbufs s b)) \<Longrightarrow> P s'"
  shows "post (pktbuf_put b off bs s) P"
  by (rule post_mono [OF keep_put [OF workD(1,2) [OF assms(1)] assms(2-4)]]) (rule assms(5), auto intro: workE [OF assms(1)])

lemma header_fields [simp]:
  "length (ipaddr_to_buf x) = 4" "ipaddr_to_buf x \<noteq> []" "le16_bytes w \<noteq> []"
  by (simp_all add: ipaddr_to_buf_def le16_bytes_def)

text \<open>The same when the bytes do not matter.\<close>

lemma w_put_any:
  assumes "work Q N s0 H b s1 s" and "contiguous n (pktbufs s b)" and "off + length bs \<le> n" and "bs \<noteq> []"
    and "\<And>s'. work Q N s0 H b s1 s' \<Longrightarrow> contiguous n (pktbufs s' b) \<Longrightarrow> P s'"
  shows "post (pktbuf_put b off bs s) P"
  by (rule w_put [OF assms(1-4)]) (rule assms(5))

lemma w_get:
  assumes "work Q N s0 H b s1 s" and "contiguous n (pktbufs s b)" and "off + k \<le> n" and "0 < k"
    and "P (get_at off k (buf_bytes (pktbufs s b)))"
  shows "post (pktbuf_get b off k s) P"
  using keep_get [OF workD(1,2) [OF assms(1)] assms(2-4)] assms(5) by simp

lemma w_reset:
  assumes "work Q N s0 H b s1 s"
  shows "work Q N s0 H b s1 (reset_acc b s)" "buf_bytes (pktbufs (reset_acc b s) b) = buf_bytes (pktbufs s b)"
    "contiguous n (pktbufs (reset_acc b s) b) = contiguous n (pktbufs s b)" "pos (pktbufs (reset_acc b s) b) = 0"
    "total_size (pktbufs (reset_acc b s) b) = total_size (pktbufs s b)"
proof -
  note r = keep_reset_acc [OF workD(1,2) [OF assms]]
  show "work Q N s0 H b s1 (reset_acc b s)" by (rule workE [OF assms r(1,2)])
  show "buf_bytes (pktbufs (reset_acc b s) b) = buf_bytes (pktbufs s b)"
    "contiguous n (pktbufs (reset_acc b s) b) = contiguous n (pktbufs s b)" "pos (pktbufs (reset_acc b s) b) = 0"
    "total_size (pktbufs (reset_acc b s) b) = total_size (pktbufs s b)"
    using r(3-5) contiguous_blks [OF r(3)] by (simp_all add: buf_bytes_def)
qed

lemma w_checksum:
  assumes "work Q N s0 H b s1 s" and "unat pre \<le> 65535"
    and "\<And>r s'. work Q N s0 H b s1 s' \<Longrightarrow> buf_bytes (pktbufs s' b) = buf_bytes (pktbufs s b) \<Longrightarrow>
      (\<And>n. contiguous n (pktbufs s' b) = contiguous n (pktbufs s b)) \<Longrightarrow>
      (0 \<le> sz \<Longrightarrow> sz \<le> total_blk_remain (pktbufs s b) \<Longrightarrow>
       r = (let acc = checksum_loop 0 (get_at (pos (pktbufs s b)) (nat sz) (buf_bytes (pktbufs s b))) pre
            in if complement then ucast (NOT acc) else ucast acc)) \<Longrightarrow> P (r, s')"
  shows "post (pktbuf_checksum16 (Some b) sz pre complement s) P"
  by (rule post_pair [OF keep_checksum [OF workD(1,2) [OF assms(1)] assms(2)]])
    (rule assms(3), auto simp: buf_bytes_def Let_def intro: workE [OF assms(1)] dest: contiguous_blks)

lemma w_read:
  assumes "work Q N s0 H b s1 s"
    and "\<And>e bytes s'. work Q N s0 H b s1 s' \<Longrightarrow> buf_bytes (pktbufs s' b) = buf_bytes (pktbufs s b) \<Longrightarrow>
      (0 \<le> sz \<Longrightarrow> sz \<le> total_blk_remain (pktbufs s b) \<Longrightarrow> e = NET_ERR_OK \<and>
       bytes = get_at (pos (pktbufs s b)) (nat sz) (buf_bytes (pktbufs s b))) \<Longrightarrow> P (e, bytes, s')"
  shows "post (pktbuf_read (Some b) False sz s) P"
  by (rule post_mono [OF keep_read [OF workD(1,2) [OF assms(1)]]], clarify)
    (rule assms(2), auto simp: buf_bytes_def intro: workE [OF assms(1)])

lemma work_wf:
  assumes "work Q N s0 H b s1 s"
  shows "buf_wf (pktbufs s b)" "length (buf_bytes (pktbufs s b)) = total_size (pktbufs s b)"
    "pktbuf_total b s = int (length (buf_bytes (pktbufs s b)))"
  using keep_wf(3) [OF workD(1,2) [OF assms]] by (simp_all add: pktbuf_total_def)

lemma work_data:
  assumes "work Q N s0 H b s1 s" and "contiguous n (pktbufs s b)" and "0 < n"
  shows "pktbuf_data b s \<noteq> None"
proof -
  obtain k ks where "blk_list (pktbufs s b) = k # ks" "blk_wf k"
    by (rule contiguousE [OF work_wf(1) [OF assms(1)] assms(2,3)])
  then show ?thesis by (simp add: pktbuf_data_def blk_wf_def)
qed

lemmas w_rules = w_set_cont w_remove_header w_resize w_seek w_fill w_checksum w_read


section \<open>Rules for the queues\<close>

lemma queue_only_pkt:
  fixes s s' :: "'a pkt_state_scheme"
  assumes "queue_only q s s'"
  shows "pktbufs s' = pktbufs s" "block_list s' = block_list s" "pktbuf_list s' = pktbuf_list s"
    "live s' = live s" "pkt_state.more s' = pkt_state.more s" "q \<in> nif_queues N \<Longrightarrow> same_above s s'"
proof -
  from assms have "fixq_state.more s' = fixq_state.more s" by (simp add: queue_only_def)
  then show p: "pktbufs s' = pktbufs s" "block_list s' = block_list s" "pktbuf_list s' = pktbuf_list s"
    "pkt_state.more s' = pkt_state.more s"
    by (cases s; cases s'; simp)+
  then show "live s' = live s" by (simp add: live_def)
  show "same_above s s'" if "q \<in> nif_queues N"
  proof -
    from that have "other_queue x \<noteq> q" for x
      by (auto simp: nif_queues_def IN_Q_def OUT_Q_def other_queue_def)
    moreover have "(\<lambda>k. (fq_send_sem k, fq_recv_sem k)) (fixqs s' r) = (\<lambda>k. (fq_send_sem k, fq_recv_sem k)) (fixqs s r)" for r
      using assms by (cases "r = q") (simp_all add: queue_only_def)
    ultimately show ?thesis using assms p(4) by (auto simp: upper_def queue_only_def comp_def)
  qed
qed

lemma own_queue_only:
  fixes s s' :: "'a pkt_state_scheme"
  assumes "queue_only q s s'"
  shows "own H s' \<longleftrightarrow> own H s" and "since s0 s' \<longleftrightarrow> since s0 s"
  using queue_only_pkt [OF assms]
  by (simp_all add: own_def pkt_inv_def all_ids_def since_def ref_le_def untouched_def)

lemma keep_queue_send:
  assumes "keep Q N s0 (add_mset b H) s" and "q \<in> nif_queues N"
  shows "post (fixq_send (Some q) (Some b) (-1) [] s) (\<lambda>(e, s'). queue_only q s s' \<and> same_above s s' \<and>
    (if e = NET_ERR_OK then keep Q N s0 H s' \<and> fixq_items q s' = fixq_items q s @ [b] else s' = s) \<and>
    (length (fixq_items q s) < fq_size (fixqs s q) \<longrightarrow> e = NET_ERR_OK))"
proof -
  from assms have q: "queues_ok Q s" "q \<in> Q" "finite N" by (auto simp: keep_def pool_ok_def)
  show ?thesis
  proof (rule post_pair [OF queue_send [OF q(1,2)]])
    fix e s'
    assume r: "queues_ok Q s' \<and> queue_only q s s' \<and>
      (if e = NET_ERR_OK then fixq_items q s' = fixq_items q s @ [b] \<and> length (fixq_items q s) < fq_size (fixqs s q)
       else s' = s \<and> length (fixq_items q s) = fq_size (fixqs s q))"
    then have o: "queue_only q s s'" by simp
    have "keep Q N s0 H s'" if "e = NET_ERR_OK"
    proof -
      from held_change [OF q(3) assms(2) o] r that have "held N s' = add_mset b (held N s)" by simp
      with assms r own_queue_only [OF o] show ?thesis by (simp add: keep_def pool_ok_def)
    qed
    with r show "case (e, s') of (e, s') \<Rightarrow> queue_only q s s' \<and> same_above s s' \<and>
      (if e = NET_ERR_OK then keep Q N s0 H s' \<and> fixq_items q s' = fixq_items q s @ [b] else s' = s) \<and>
      (length (fixq_items q s) < fq_size (fixqs s q) \<longrightarrow> e = NET_ERR_OK)"
      using queue_only_pkt(6) [OF o assms(2)] by (auto split: if_splits)
  qed simp
qed

lemma keep_queue_recv:
  assumes "keep Q N s0 H s" and "q \<in> nif_queues N"
  shows "post (fixq_recv (Some q) (-1) [] s) (\<lambda>(r, s'). queue_only q s s' \<and> same_above s s' \<and>
    (case r of None \<Rightarrow> s' = s \<and> fixq_items q s = []
     | Some b \<Rightarrow> keep Q N s0 (add_mset b H) s' \<and> fixq_items q s = b # fixq_items q s'))"
proof -
  from assms have q: "queues_ok Q s" "q \<in> Q" "finite N" by (auto simp: keep_def pool_ok_def)
  show ?thesis
  proof (rule post_pair [OF queue_recv [OF q(1,2)]])
    fix r s'
    assume r: "queues_ok Q s' \<and> queue_only q s s' \<and>
      (case r of None \<Rightarrow> s' = s \<and> fixq_items q s = [] | Some m \<Rightarrow> fixq_items q s = m # fixq_items q s')"
    then have o: "queue_only q s s'" by simp
    have "keep Q N s0 (add_mset b H) s'" if "r = Some b" for b
    proof -
      from held_change [OF q(3) assms(2) o] r that have "held N s = add_mset b (held N s')" by simp
      with assms r own_queue_only [OF o] show ?thesis by (simp add: keep_def pool_ok_def)
    qed
    with r show "case (r, s') of (r, s') \<Rightarrow> queue_only q s s' \<and> same_above s s' \<and>
      (case r of None \<Rightarrow> s' = s \<and> fixq_items q s = []
       | Some b \<Rightarrow> keep Q N s0 (add_mset b H) s' \<and> fixq_items q s = b # fixq_items q s')"
      using queue_only_pkt(6) [OF o assms(2)] by (auto split: option.splits)
  qed simp
qed

text \<open>Queues that hold something else than buffers.\<close>

lemma keep_queue_only:
  assumes "keep Q N s0 H s" and "queue_only q s s'" and "queues_ok Q s'" and "q \<notin> nif_queues N"
  shows "keep Q N s0 H s'"
proof -
  have "held N s' = held N s"
    using assms(4) queue_only_items [OF assms(2)] by (intro held_cong) metis
  with assms own_queue_only [OF assms(2)] show ?thesis by (simp add: keep_def pool_ok_def)
qed

lemma nif_queues_iff [simp]:
  "IN_Q n \<in> nif_queues N \<longleftrightarrow> n \<in> N" "OUT_Q n \<in> nif_queues N \<longleftrightarrow> n \<in> N" "IN_Q n \<noteq> OUT_Q m" "OUT_Q n \<noteq> IN_Q m"
  by (auto simp: nif_queues_def IN_Q_def OUT_Q_def) presburger+

text \<open>One more reference: the caller that takes it gives it back when the work is done.\<close>

lemma pool_inc_ref:
  assumes "pool_ok Q N H s" and "b \<in># H"
  shows "pool_ok Q N (add_mset b H) (pktbuf_inc_ref (Some b) s)" and "same_above s (pktbuf_inc_ref (Some b) s)"
    and "live (pktbuf_inc_ref (Some b) s) = live s"
    and "ref (pktbufs (pktbuf_inc_ref (Some b) s) j) = ref (pktbufs s j) + (if j = b then 1 else 0)"
    and "blk_list (pktbufs (pktbuf_inc_ref (Some b) s) j) = blk_list (pktbufs s j)"
proof -
  let ?s = "pktbuf_inc_ref (Some b) s"
  from assms have inv: "pkt_inv s" and l: "b \<in> live s" and r: "0 < ref (pktbufs s b)"
    using pool_inv pool_live pool_wf by blast+
  note i = pktbuf_inc_ref_spec [OF inv l]
  have eq: "?s = s\<lparr>pktbufs := (pktbufs s)(b := (pktbufs s b)\<lparr>ref := ref (pktbufs s b) + 1\<rparr>)\<rparr>"
    using r by (simp add: pktbuf_inc_ref_def)
  show "same_above s ?s" and li: "live ?s = live s" unfolding eq by simp_all
  show rf: "ref (pktbufs ?s j) = ref (pktbufs s j) + (if j = b then 1 else 0)" for j
    unfolding eq by simp
  show "blk_list (pktbufs ?s j) = blk_list (pktbufs s j)" unfolding eq by simp
  have f: "fixqs ?s = fixqs s" "sem_pool ?s = sem_pool s" unfolding eq by simp_all
  from assms(1) have c: "count (H + held N s) j = (if j \<in> live s then ref (pktbufs s j) else 0)" for j
    by (simp add: pool_ok_def own_def)
  have "count (add_mset b H + held N ?s) j = (if j \<in> live ?s then ref (pktbufs ?s j) else 0)" for j
    using c [of j] l rf [of j] li held_fixqs [OF f(1), of N] by auto
  moreover have "pkt_inv ?s" using i by blast
  ultimately show "pool_ok Q N (add_mset b H) ?s"
    using assms(1) queues_ok_cong [OF f] by (simp add: pool_ok_def own_def)
qed

lemma free_ref:
  assumes "pkt_inv s" and "b \<in> live s" and "j \<in> live (pktbuf_free (Some b) s)"
  shows "j \<in> live s" and "ref (pktbufs (pktbuf_free (Some b) s) j) = ref (pktbufs s j) - (if j = b then 1 else 0)"
  using pktbuf_free_spec(2,3) [OF assms(1,2)] assms(3)
  by (auto simp: pktbuf_free_def Let_def split: if_splits)

lemma inc_free_le:
  assumes "pool_ok Q N H s" and "b \<in># H" and "pool_ok Q N (add_mset b H') s'" and "ref_le (pktbuf_inc_ref (Some b) s) s'"
  shows "ref_le s (pktbuf_free (Some b) s')"
  unfolding ref_le_def
proof
  fix j
  assume "j \<in> live (pktbuf_free (Some b) s')"
  moreover have "pkt_inv s'" "b \<in> live s'" using assms(3) by (auto intro: pool_inv pool_live)
  ultimately have j: "j \<in> live s'" "ref (pktbufs (pktbuf_free (Some b) s') j) = ref (pktbufs s' j) - (if j = b then 1 else 0)"
    using free_ref by blast+
  note i = pool_inc_ref(3,4) [OF assms(1,2)] pool_live [OF assms(1,2)] pool_wf [OF assms(1,2)]
  from assms(4) j(1) have "ref (pktbufs s' j) \<le> max 1 (if j \<in> live s then ref (pktbufs (pktbuf_inc_ref (Some b) s) j) else 0)"
    using i(1) by (simp add: ref_le_def)
  then have "ref (pktbufs s' j) \<le> max 1 (if j \<in> live s then ref (pktbufs s j) + (if j = b then 1 else 0) else 0)"
    unfolding i(2) .
  with i(3,4) j(2) show "ref (pktbufs (pktbuf_free (Some b) s') j) \<le> max 1 (if j \<in> live s then ref (pktbufs s j) else 0)"
    by (auto split: if_splits)
qed


section \<open>The contract of an input handler\<close>

text \<open>A handler that returns an error has left the buffer to its caller; with the release that the caller owes, no
  reference count has grown. A handler that succeeds has consumed the buffer.\<close>

definition handled ::
  "nat set \<Rightarrow> nat set \<Rightarrow> nat multiset \<times> 'a pkt_state_scheme \<Rightarrow> nat multiset \<Rightarrow> nat \<Rightarrow> net_err
   \<Rightarrow> 'a pkt_state_scheme \<Rightarrow> bool" where
  "handled Q N s0 H b e s \<longleftrightarrow>
     (if e = NET_ERR_OK then keep Q N s0 H s
      else pool_ok Q N (fst s0 + add_mset b H) s \<and> since s0 (pktbuf_free (Some b) s))"

lemma keep_handled: "keep Q N s0 (add_mset b H) s \<Longrightarrow> e \<noteq> NET_ERR_OK \<Longrightarrow> handled Q N s0 H b e s"
  using keep_free(1) [of Q N s0 b H s] by (simp add: handled_def keep_def)

lemma handled_free:
  assumes "handled Q N s0 H b e s"
  shows "keep Q N s0 H (if e = NET_ERR_OK then s else pktbuf_free (Some b) s)"
proof (cases "e = NET_ERR_OK")
  case False
  with assms have "pool_ok Q N (add_mset b (fst s0 + H)) s" "since s0 (pktbuf_free (Some b) s)"
    by (simp_all add: handled_def)
  from pool_free(1) [OF this(1)] this(2) have "keep Q N s0 H (pktbuf_free (Some b) s)" by (simp add: keep_def)
  with False show ?thesis by (simp add: keep_def)
qed (use assms in \<open>simp add: handled_def\<close>)

text \<open>Sending with a reference of one's own: the sender keeps the buffer until the output has returned.\<close>

lemma keep_inc_ref:
  assumes "keep Q N s0 (add_mset b H) s"
  shows "keep Q N (fst s0, pktbuf_inc_ref (Some b) s) (add_mset b (add_mset b H)) (pktbuf_inc_ref (Some b) s)"
    and "same_above s (pktbuf_inc_ref (Some b) s)"
  using pool_inc_ref(1,2) [of Q N "fst s0 + add_mset b H" s b] assms by (simp_all add: keep_def)

lemma inc_out_since:
  assumes "keep Q N s0 (add_mset b H) s" and "keep Q N (fst s0, pktbuf_inc_ref (Some b) s) (add_mset b H') s'"
  shows "since s0 (pktbuf_free (Some b) s')"
proof -
  from assms have p: "pool_ok Q N (fst s0 + add_mset b H) s" "pool_ok Q N (add_mset b (fst s0 + H')) s'"
    "ref_le (pktbuf_inc_ref (Some b) s) s'" "ref_le (snd s0) s"
    by (simp_all add: keep_def since_def)
  from inc_free_le [OF p(1) _ p(2,3)] p(4) have le: "ref_le (snd s0) (pktbuf_free (Some b) s')"
    using ref_le_trans by simp
  have "pktbufs (pktbuf_free (Some b) s') i = pktbufs (snd s0) i"
    if i: "i \<in># fst s0" "ref (pktbufs (snd s0) i) = count (fst s0) i" for i
  proof -
    have nb: "i \<noteq> b" using held_not_private [OF assms(1)] i by auto
    have s: "pktbufs s i = pktbufs (snd s0) i"
      using assms(1) i by (simp add: keep_def since_def untouched_def)
    with i nb assms(2) have "pktbufs s' i = pktbufs s i"
      by (simp add: keep_def since_def untouched_def pktbuf_inc_ref_def)
    with s nb pool_free(3) [OF p(2)] show ?thesis by simp
  qed
  with le show ?thesis by (simp add: since_def untouched_def)
qed

lemma inc_out_handled:
  assumes "keep Q N s0 (add_mset b H) s" and "keep Q N (fst s0, pktbuf_inc_ref (Some b) s) (add_mset b H') s'"
  shows "keep Q N s0 H' (pktbuf_free (Some b) s')" and "e \<noteq> NET_ERR_OK \<Longrightarrow> handled Q N s0 H' b e s'"
    and "handled Q N s0 H' b NET_ERR_OK (pktbuf_free (Some b) s')"
proof -
  note si = inc_out_since [OF assms]
  from assms(2) have p: "pool_ok Q N (add_mset b (fst s0 + H')) s'" by (simp add: keep_def)
  from pool_free(1) [OF p] si show k: "keep Q N s0 H' (pktbuf_free (Some b) s')" by (simp add: keep_def)
  from k p si show "e \<noteq> NET_ERR_OK \<Longrightarrow> handled Q N s0 H' b e s'" "handled Q N s0 H' b NET_ERR_OK (pktbuf_free (Some b) s')"
    by (simp_all add: handled_def)
qed

text \<open>Keeping a reference over a call: a buffer that nobody else holds comes back unchanged.\<close>

lemma keep_retain:
  "keep Q N s0 (add_mset b H) s \<Longrightarrow> keep Q N (add_mset b (fst s0), s) H s"
  by (simp add: keep_def)

lemma keep_release:
  assumes "keep Q N s0 (add_mset b H) s" and "keep Q N (add_mset b (fst s0), s) H' s'"
  shows "keep Q N s0 (add_mset b H') s'" and "ref (pktbufs s b) = Suc (count (fst s0) b) \<Longrightarrow> pktbufs s' b = pktbufs s b"
proof -
  from assms have le: "ref_le (snd s0) s'" using ref_le_trans by (auto simp: keep_def since_def)
  have "pktbufs s' i = pktbufs (snd s0) i" if i: "i \<in># fst s0" "ref (pktbufs (snd s0) i) = count (fst s0) i" for i
  proof -
    have nb: "i \<noteq> b" using held_not_private [OF assms(1)] i by auto
    have s: "pktbufs s i = pktbufs (snd s0) i"
      using assms(1) i by (simp add: keep_def since_def untouched_def)
    with i nb assms(2) show ?thesis by (simp add: keep_def since_def untouched_def)
  qed
  with le have "since s0 s'" by (simp add: since_def untouched_def)
  with assms(2) show "keep Q N s0 (add_mset b H') s'" by (simp add: keep_def)
  from assms(2) show "ref (pktbufs s b) = Suc (count (fst s0) b) \<Longrightarrow> pktbufs s' b = pktbufs s b"
    by (simp add: keep_def since_def untouched_def)
qed

end
