(* ===== verification/Loop.thy ===== *)
theory Loop
  imports Netif
begin

text \<open>
  The loop-back device, \<^verbatim>\<open>kernel/src/net/loop.c\<close>: what it is given to send it puts into its own input queue.
\<close>

record loop_state = netif_state +
  loop_netif :: "nat option"

definition ETH_MTU :: nat where "ETH_MTU = 1500"

text \<open>The address of the structure \<^verbatim>\<open>loop_ops\<close>.\<close>

definition LOOP_OPS :: nat where "LOOP_OPS = 1"

definition loop_open :: "nat \<Rightarrow> nat option \<Rightarrow> 'a netif_state_scheme \<Rightarrow> (net_err \<times> 'a netif_state_scheme) option" where
  "loop_open n data s = Some (NET_ERR_OK, upd_netif n (\<lambda>i. i\<lparr>nif_type := NETIF_TYPE_LOOP, nif_mtu := int ETH_MTU\<rparr>) s)"

definition loop_close :: "nat \<Rightarrow> 'a loop_state_scheme \<Rightarrow> 'a loop_state_scheme option" where
  "loop_close n s = Some (if loop_netif s = Some n then s\<lparr>loop_netif := None\<rparr> else s)"

definition loop_xmit :: "nat \<Rightarrow> 'a netif_state_scheme \<Rightarrow> (net_err \<times> 'a netif_state_scheme) option" where
  "loop_xmit n s = do {
     (buf, s) \<leftarrow> netif_get_out (Some n) (-1) s;
     if buf = None then Some (NET_ERR_NONE, s)
     else do {
       (err, s) \<leftarrow> netif_put_in (Some n) buf (-1) s;
       Some (err, if is_err err then pktbuf_free buf s else s)
     }
   }"

definition loop_ops :: "'a loop_state_scheme netif_ops" where
  "loop_ops = \<lparr>ops_open = Some loop_open, ops_close = Some loop_close, ops_xmit = Some loop_xmit\<rparr>"

definition loop_init ::
  "(nat \<Rightarrow> 'a loop_state_scheme netif_ops) \<Rightarrow> (nat \<Rightarrow> 'a loop_state_scheme link_layer) \<Rightarrow> 'a loop_state_scheme
   \<Rightarrow> (net_err \<times> 'a loop_state_scheme) option" where
  "loop_init ops_of layer_of s =
     (if loop_netif s \<noteq> None then Some (NET_ERR_EXIST, s)
      else do {
        (netif, s) \<leftarrow> netif_open ops_of (Some ''loop'') (Some LOOP_OPS) None s;
        if netif = None then Some (NET_ERR_IO, s)
        else do {
          let s = s\<lparr>loop_netif := netif\<rparr>;
          let (err, ip) = ipaddr_from_str (Some 0) (Some ''127.0.0.1'');
          let (err, mask) = (if is_err err then (err, Some 0) else ipaddr_from_str (Some 0) (Some ''255.0.0.0''));
          let (err, s) = (if is_err err then (err, s) else netif_set_addr netif ip mask None s);
          (err, s) \<leftarrow> (if is_err err then Some (err, s) else netif_set_active layer_of netif s);
          if is_err err then do {
            (_, s) \<leftarrow> netif_close ops_of netif s;
            Some (err, s)
          } else Some (NET_ERR_OK, s)
        }
      })"

definition loop_get_netif :: "'a loop_state_scheme \<Rightarrow> nat option" where
  "loop_get_netif s = loop_netif s"

end
