(* ===== verification/Ether.thy ===== *)
theory Ether
  imports Loop Net_Tools
begin

text \<open>
  Ethernet, \<^verbatim>\<open>kernel/src/net/ether.c\<close>: framing of outgoing packets, and the hand-over of incoming frames to the
  handler of their protocol. A handler is the address of a function; the call through it, \<open>call_handler\<close>, is an
  argument of \<open>ether_in\<close>. The functions of the link layer proper, which belong to ARP, are in \<open>Arp\<close>.
\<close>

record ether_handler =
  eh_protocol :: u16
  eh_handler :: "nat option"

record ether_state = loop_state +
  ether_handlers :: "ether_handler list"

definition ETHER_HANDLER_MAX :: nat where "ETHER_HANDLER_MAX = 4"

definition ETH_HWA_SIZE :: nat where "ETH_HWA_SIZE = 6"

definition ETH_DATA_MIN :: nat where "ETH_DATA_MIN = 46"

definition ETH_HDR_SIZE :: nat where "ETH_HDR_SIZE = 14"

definition ETH_FRAME_MIN :: nat where "ETH_FRAME_MIN = ETH_HWA_SIZE + ETH_HWA_SIZE + 2 + ETH_DATA_MIN"

definition ETH_FRAME_MAX :: nat where "ETH_FRAME_MAX = ETH_HWA_SIZE + ETH_HWA_SIZE + 2 + ETH_MTU"

definition NET_PROTOCOL_ARP :: u16 where "NET_PROTOCOL_ARP = 0x0806"

definition NET_PROTOCOL_IPV4 :: u16 where "NET_PROTOCOL_IPV4 = 0x0800"

definition ether_find_handler :: "u16 \<Rightarrow> 'a ether_state_scheme \<Rightarrow> ether_handler option" where
  "ether_find_handler protocol s =
     find (\<lambda>h. eh_handler h \<noteq> None \<and> eh_protocol h = protocol) (ether_handlers s)"

definition ether_is_broadcast :: "u8 list \<Rightarrow> bool" where
  "ether_is_broadcast addr \<longleftrightarrow> list_all (\<lambda>b. b = 0xff) (take ETH_HWA_SIZE addr)"

definition ether_broadcast_addr :: "u8 list" where
  "ether_broadcast_addr = [0xff, 0xff, 0xff, 0xff, 0xff, 0xff]"

definition ether_register_handler ::
  "u16 \<Rightarrow> nat option \<Rightarrow> 'a ether_state_scheme \<Rightarrow> net_err \<times> 'a ether_state_scheme" where
  "ether_register_handler protocol handler s =
     (if handler = None then (NET_ERR_PARAM, s)
      else if ether_find_handler protocol s \<noteq> None then (NET_ERR_EXIST, s)
      else case find_index (\<lambda>h. eh_handler h = None) (ether_handlers s) of
        None \<Rightarrow> (NET_ERR_FULL, s)
      | Some i \<Rightarrow> (NET_ERR_OK, s\<lparr>ether_handlers :=
                     (ether_handlers s)[i := \<lparr>eh_protocol = protocol, eh_handler = handler\<rparr>]\<rparr>))"

text \<open>The padding of a short payload with zeros: the block \<^verbatim>\<open>if (payload_size < ETH_DATA_MIN)\<close>.\<close>

definition ether_pad :: "nat \<Rightarrow> nat \<Rightarrow> 'a pkt_state_scheme \<Rightarrow> (net_err \<times> 'a pkt_state_scheme) option" where
  "ether_pad b payload_size s = do {
     (err, s) \<leftarrow> pktbuf_resize (Some b) (int ETH_DATA_MIN) s;
     if is_err err then Some (err, s)
     else do {
       let s = reset_acc b s;
       (err, s) \<leftarrow> pktbuf_seek (Some b) (int payload_size) s;
       if is_err err then Some (err, s)
       else pktbuf_fill (Some b) 0 (int (ETH_DATA_MIN - payload_size)) s
     }
   }"

text \<open>The header is written and the frame goes to the input queue if it is addressed to the interface itself,
  to the device otherwise.\<close>

definition ether_send_frame ::
  "(nat \<Rightarrow> 'a netif_state_scheme netif_ops) \<Rightarrow> nat \<Rightarrow> u16 \<Rightarrow> u8 list \<Rightarrow> nat \<Rightarrow> 'a netif_state_scheme
   \<Rightarrow> (net_err \<times> 'a netif_state_scheme) option" where
  "ether_send_frame ops_of n protocol dest b s = do {
     s \<leftarrow> pktbuf_put b 0 (take ETH_HWA_SIZE dest) s;
     s \<leftarrow> pktbuf_put b 6 (take ETH_HWA_SIZE (hw_addr (nif_hwaddr (netifs s n)))) s;
     s \<leftarrow> pktbuf_put b 12 (le16_bytes (x_htons protocol)) s;
     if take ETH_HWA_SIZE (hw_addr (nif_hwaddr (netifs s n))) = take ETH_HWA_SIZE dest then do {
       (err, s) \<leftarrow> netif_put_in (Some n) (Some b) (-1) s;
       Some (err, if is_err err then pktbuf_free (Some b) s else s)
     } else
       (case Option.bind (nif_ops (netifs s n)) (\<lambda>ot. ops_xmit (ops_of ot)) of
          None \<Rightarrow> Some (NET_ERR_NOT_SUPPORT, pktbuf_free (Some b) s)
        | Some xmit \<Rightarrow> do {
            (err, s) \<leftarrow> netif_put_out (Some n) (Some b) (-1) s;
            if is_err err then Some (err, pktbuf_free (Some b) s) else xmit n s
          })
   }"

definition ether_raw_out ::
  "(nat \<Rightarrow> 'a netif_state_scheme netif_ops) \<Rightarrow> nat option \<Rightarrow> u16 \<Rightarrow> u8 list option \<Rightarrow> nat option \<Rightarrow> 'a netif_state_scheme
   \<Rightarrow> (net_err \<times> 'a netif_state_scheme) option" where
  "ether_raw_out ops_of netif protocol dest buf s =
     (case buf of
        None \<Rightarrow> Some (NET_ERR_PARAM, s)
      | Some b \<Rightarrow>
          (case (netif, dest) of
             (Some n, Some d) \<Rightarrow>
               if nif_state (netifs s n) \<noteq> NETIF_ACTIVE \<or> hw_len (nif_hwaddr (netifs s n)) < ETH_HWA_SIZE
               then Some (NET_ERR_STATE, pktbuf_free buf s)
               else
                 let payload_size = pktbuf_total b s
                 in if payload_size < 0 \<or> payload_size > int ETH_MTU then Some (NET_ERR_SIZE, pktbuf_free buf s)
                    else do {
                      (err, s) \<leftarrow> (if payload_size < int ETH_DATA_MIN then ether_pad b (nat payload_size) s
                                  else Some (NET_ERR_OK, s));
                      if is_err err then Some (err, pktbuf_free buf s)
                      else do {
                        (err, s) \<leftarrow> pktbuf_add_header buf (int ETH_HDR_SIZE) True s;
                        if is_err err then Some (err, pktbuf_free buf s)
                        else if pktbuf_data b s = None then Some (NET_ERR_SIZE, pktbuf_free buf s)
                        else ether_send_frame ops_of n protocol d b s
                      }
                    }
           | _ \<Rightarrow> Some (NET_ERR_PARAM, pktbuf_free buf s)))"

definition ether_in ::
  "(nat \<Rightarrow> nat \<Rightarrow> nat \<Rightarrow> 'a ether_state_scheme \<Rightarrow> (net_err \<times> 'a ether_state_scheme) option) \<Rightarrow> nat option \<Rightarrow> nat option
   \<Rightarrow> 'a ether_state_scheme \<Rightarrow> (net_err \<times> 'a ether_state_scheme) option" where
  "ether_in call_handler netif packet s =
     (case (netif, packet) of
        (Some n, Some b) \<Rightarrow>
          if pktbuf_total b s < int ETH_FRAME_MIN \<or> pktbuf_total b s > int ETH_FRAME_MAX then Some (NET_ERR_SIZE, s)
          else do {
            (err, s) \<leftarrow> pktbuf_set_cont packet (int ETH_HDR_SIZE) s;
            if err \<noteq> NET_ERR_OK \<or> pktbuf_data b s = None then Some (NET_ERR_SIZE, s)
            else do {
              dest \<leftarrow> pktbuf_get b 0 ETH_HWA_SIZE s;
              if hw_len (nif_hwaddr (netifs s n)) \<ge> ETH_HWA_SIZE \<and>
                 dest \<noteq> take ETH_HWA_SIZE (hw_addr (nif_hwaddr (netifs s n))) \<and> \<not> ether_is_broadcast dest
              then Some (NET_ERR_UNREACH, s)
              else do {
                field \<leftarrow> pktbuf_get b 12 2 s;
                let entry = ether_find_handler (x_ntohs (le16_at field 0)) s;
                (err, s) \<leftarrow> pktbuf_remove_header packet (int ETH_HDR_SIZE) s;
                if err \<noteq> NET_ERR_OK then Some (NET_ERR_SIZE, s)
                else
                  let s = reset_acc b s
                  in (case entry of
                        None \<Rightarrow> Some (NET_ERR_NOT_SUPPORT, s)
                      | Some h \<Rightarrow> call_handler (the (eh_handler h)) n b s)
              }
            }
          }
      | _ \<Rightarrow> Some (NET_ERR_PARAM, s))"

text \<open>The address of the structure \<^verbatim>\<open>ether_link_layer\<close>.\<close>

definition ETHER_LAYER :: nat where "ETHER_LAYER = 1"

definition ether_init :: "'a ether_state_scheme \<Rightarrow> net_err \<times> 'a ether_state_scheme" where
  "ether_init s = netif_register_layer (int (netif_type_code NETIF_TYPE_ETHER)) (Some ETHER_LAYER)
     (s\<lparr>ether_handlers := replicate ETHER_HANDLER_MAX \<lparr>eh_protocol = 0, eh_handler = None\<rparr>\<rparr>)"

end
