(* ===== verification/Netif_Virtio.thy ===== *)
theory Netif_Virtio
  imports Netif Virtio_Net_Sys
begin

text \<open>
  The Ethernet device on the virtio driver, \<^verbatim>\<open>kernel/src/net/netif_virtio.c\<close>. \<open>sl k\<close> are the sleeps of the \<open>k\<close>-th call of
  \<^verbatim>\<open>virtio_net_send\<close> in one call of \<^verbatim>\<open>netif_virtio_xmit\<close>.
\<close>

text \<open>The address of the structure \<^verbatim>\<open>netif_virtio_ops\<close>.\<close>

definition VIRTIO_OPS :: nat where "VIRTIO_OPS = 2"

definition netif_virtio_open ::
  "nat option \<Rightarrow> nat option \<Rightarrow> 'a netif_state_scheme
   \<Rightarrow> (net_err \<times> 'a netif_state_scheme) option" where
  "netif_virtio_open netif data s =
     (case netif of
        None \<Rightarrow> Some (NET_ERR_PARAM, s)
      | Some n \<Rightarrow>
          let (r, mac) = virtio_net_get_mac (vnet s) (Some (replicate 6 0))
          in if r < 0 then Some (NET_ERR_IO, s)
             else do {
               (err, s) \<leftarrow> netif_set_hwaddr netif mac 6 s;
               if is_err err then Some (err, s)
               else Some (NET_ERR_OK, upd_netif n (\<lambda>i. i\<lparr>nif_type := NETIF_TYPE_ETHER,
                            nif_mtu := int (ETHERNET_MAX_FRAME - ETHERNET_HEADER_SIZE)\<rparr>) s)
             })"

definition netif_virtio_close :: "nat \<Rightarrow> 'a netif_state_scheme \<Rightarrow> 'a netif_state_scheme option" where
  "netif_virtio_close n s = Some s"

text \<open>The loop of \<^verbatim>\<open>netif_virtio_xmit\<close>; \<open>result\<close> is what will be returned when the queue is empty.\<close>

partial_function (option) netif_virtio_xmit_loop ::
  "'e net_env_scheme \<Rightarrow> (nat \<Rightarrow> 'a netif_state_scheme sleep list) \<Rightarrow> nat \<Rightarrow> nat \<Rightarrow> net_err \<Rightarrow> 'a netif_state_scheme
   \<Rightarrow> (net_err \<times> 'a netif_state_scheme) option" where
  "netif_virtio_xmit_loop env sl k n result s = do {
     (buf, s) \<leftarrow> netif_get_out (Some n) (-1) s;
     case buf of
       None \<Rightarrow> Some (result, s)
     | Some b \<Rightarrow>
         let sz = pktbuf_total b s
         in if sz < 0 \<or> sz > int ETHERNET_MAX_FRAME
            then netif_virtio_xmit_loop env sl k n NET_ERR_SIZE (pktbuf_free buf s)
            else do {
              let s = reset_acc b s;
              (err, bytes, s) \<leftarrow> (if sz = 0 then Some (NET_ERR_OK, [], s) else pktbuf_read buf False sz s);
              if err \<noteq> NET_ERR_OK then netif_virtio_xmit_loop env sl k n NET_ERR_SIZE (pktbuf_free buf s)
              else do {
                let frame = put_at 0 bytes (replicate ETHERNET_MAX_FRAME 0);
                let frame_size = (if nat sz < ETHERNET_MIN_FRAME then ETHERNET_MIN_FRAME else nat sz);
                (r, s) \<leftarrow> virtio_net_send env (Some frame) (of_nat frame_size) (sl k) s;
                if r < 0 then Some (NET_ERR_IO, pktbuf_free buf s)
                else netif_virtio_xmit_loop env sl (Suc k) n result (pktbuf_free buf s)
              }
            }
   }"

definition netif_virtio_xmit ::
  "'e net_env_scheme \<Rightarrow> (nat \<Rightarrow> 'a netif_state_scheme sleep list) \<Rightarrow> nat option \<Rightarrow> 'a netif_state_scheme
   \<Rightarrow> (net_err \<times> 'a netif_state_scheme) option" where
  "netif_virtio_xmit env sl netif s =
     (case netif of
        None \<Rightarrow> Some (NET_ERR_PARAM, s)
      | Some n \<Rightarrow> netif_virtio_xmit_loop env sl 0 n NET_ERR_OK s)"

definition netif_virtio_poll ::
  "nat option \<Rightarrow> u64 \<Rightarrow> 'a netif_state_scheme sleep list \<Rightarrow> 'a netif_state_scheme
   \<Rightarrow> (net_err \<times> 'a netif_state_scheme) option" where
  "netif_virtio_poll netif deadline sleeps s =
     (case netif of
        None \<Rightarrow> Some (NET_ERR_PARAM, s)
      | Some n \<Rightarrow> do {
          (r, frame, len, s) \<leftarrow> virtio_net_receive (Some (replicate ETHERNET_MAX_FRAME 0)) (of_nat ETHERNET_MAX_FRAME)
                                  (Some 0) deadline sleeps s;
          let n = unat (the len);
          let frame = take n (the frame);
          if r < 0 then Some (NET_ERR_TMO, s)
          else if n < ETHERNET_MIN_FRAME \<or> n > ETHERNET_MAX_FRAME then Some (NET_ERR_SIZE, s)
          else
            (case pktbuf_alloc (int n) s of
               (None, s) \<Rightarrow> Some (NET_ERR_MEM, s)
             | (Some b, s) \<Rightarrow> do {
                 (err, s) \<leftarrow> pktbuf_write (Some b) (Some frame) (int n) s;
                 if err \<noteq> NET_ERR_OK then Some (NET_ERR_SIZE, pktbuf_free (Some b) s)
                 else do {
                   (err, s) \<leftarrow> netif_put_in netif (Some b) (-1) s;
                   if is_err err then Some (err, pktbuf_free (Some b) s) else Some (NET_ERR_OK, s)
                 }
               })
        })"

definition netif_virtio_ops ::
  "'e net_env_scheme \<Rightarrow> (nat \<Rightarrow> 'a netif_state_scheme sleep list) \<Rightarrow> 'a netif_state_scheme netif_ops" where
  "netif_virtio_ops env sl = \<lparr>ops_open = Some (\<lambda>n. netif_virtio_open (Some n)), ops_close = Some netif_virtio_close,
     ops_xmit = Some (\<lambda>n. netif_virtio_xmit env sl (Some n))\<rparr>"

end
