(* ===== verification/Link_Own.thy ===== *)
theory Link_Own
  imports Own Ether Netif_Virtio
begin

text \<open>
  The output path below IP: whoever is given a buffer to send consumes the reference on every path, errors included.
  What is needed of a device is the contract \<open>devices\<close>.
\<close>

section \<open>Interfaces\<close>

lemma keep_put_in:
  assumes "keep Q N s0 (add_mset b H) s" and "n \<in> N"
  shows "post (netif_put_in (Some n) (Some b) (-1) s) (\<lambda>(e, s'). same_above s s' \<and> pktbufs s' = pktbufs s \<and>
    (if e = NET_ERR_OK then keep Q N s0 H s' else s' = s))"
  unfolding netif_put_in_def prod.case option.case
  by (rule post_mono [OF keep_queue_send [OF assms(1)]]) (auto simp: assms(2) queue_only_pkt)

lemma keep_put_out:
  assumes "keep Q N s0 (add_mset b H) s" and "n \<in> N"
  shows "post (netif_put_out (Some n) (Some b) (-1) s) (\<lambda>(e, s'). same_above s s' \<and> pktbufs s' = pktbufs s \<and>
    (if e = NET_ERR_OK then keep Q N s0 H s' else s' = s))"
  unfolding netif_put_out_def prod.case option.case
  by (rule post_mono [OF keep_queue_send [OF assms(1)]]) (auto simp: assms(2) queue_only_pkt)

lemma reset_acc_frame [simp]:
  "upper (reset_acc b s) = upper s" "fixqs (reset_acc b s) = fixqs s" "fixq_items q (reset_acc b s) = fixq_items q s"
  by (simp_all add: reset_acc_def fixq_items_def)

lemma pktbuf_free_frame [simp]:
  "same_above s (pktbuf_free b s)" "fixqs (pktbuf_free b s) = fixqs s" "fixq_items q (pktbuf_free b s) = fixq_items q s"
  by (simp_all add: pktbuf_free_def fixq_items_def Let_def split: option.split)

lemma keep_get_out:
  assumes "keep Q N s0 H s" and "n \<in> N"
  shows "post (netif_get_out (Some n) (-1) s) (\<lambda>(r, s'). same_above s s' \<and>
    (case r of None \<Rightarrow> s' = s \<and> fixq_items (OUT_Q n) s = []
     | Some b \<Rightarrow> keep Q N s0 (add_mset b H) s' \<and> fixq_items (OUT_Q n) s = b # fixq_items (OUT_Q n) s'))"
  unfolding netif_get_out_def option.case post_bind
  by (rule post_pair [OF keep_queue_recv [OF assms(1)]])
    (auto simp: assms(2) queue_only_pkt split: option.splits intro: keep_reset_acc)

lemma keep_get_in:
  assumes "keep Q N s0 H s" and "n \<in> N"
  shows "post (netif_get_in (Some n) (-1) s) (\<lambda>(r, s'). same_above s s' \<and>
    (case r of None \<Rightarrow> s' = s \<and> fixq_items (IN_Q n) s = []
     | Some b \<Rightarrow> keep Q N s0 (add_mset b H) s' \<and> fixq_items (IN_Q n) s = b # fixq_items (IN_Q n) s'))"
  unfolding netif_get_in_def option.case post_bind
  by (rule post_pair [OF keep_queue_recv [OF assms(1)]])
    (auto simp: assms(2) queue_only_pkt split: option.splits intro: keep_reset_acc)

lemma put_in_or_free:
  assumes "keep Q N s0 (add_mset b H) s" and "n \<in> N"
  shows "post (do {
      (err, s) \<leftarrow> netif_put_in (Some n) (Some b) (-1) s;
      Some (err, if is_err err then pktbuf_free (Some b) s else s)
    }) (\<lambda>(e, s'). keep Q N s0 H s' \<and> same_above s s')"
  unfolding post_bind
  by (rule post_pair [OF keep_put_in [OF assms]]) (use keep_free [OF assms(1)] in \<open>auto split: if_splits\<close>)

lemma ether_pad_keeps:
  assumes "work Q N s0 H b s1 s"
  shows "post (ether_pad b n s) (\<lambda>(e, s'). work Q N s0 H b s1 s')"
proof -
  note w = w_rules [where Q = Q and N = N and ?s0.0 = s0 and H = H and b = b and ?s1.0 = s1]
  show ?thesis using assms unfolding ether_pad_def by (auto intro!: w simp: Let_def w_reset(1))
qed

text \<open>The array \<^verbatim>\<open>hwaddr.addr\<close> has its size.\<close>

definition hw_ok :: "nat set \<Rightarrow> 'a netif_state_scheme \<Rightarrow> bool" where
  "hw_ok N s \<longleftrightarrow> (\<forall>n\<in>N. length (hw_addr (nif_hwaddr (netifs s n))) = NETIF_HWADDR_SIZE)"


section \<open>The contract of the devices\<close>

text \<open>Transmission works on the output queue of the interface and returns; the references it takes from the queue it
  gives back, or hands to a queue.\<close>

locale devices =
  fixes ops_of :: "nat \<Rightarrow> 'a netif_state_scheme netif_ops" and Q N :: "nat set"
  assumes xmit_keeps: "ops_xmit (ops_of ot) = Some xmit \<Longrightarrow> n \<in> N \<Longrightarrow> keep Q N s0 H s \<Longrightarrow>
    post (xmit n s) (\<lambda>(e, s'). keep Q N s0 H s' \<and> same_above s s')"
begin

text \<open>Queueing a packet for the device and starting it.\<close>

lemma queue_and_xmit:
  assumes "keep Q N s0 (add_mset b H) s" and "n \<in> N"
  shows "post (case Option.bind ot (\<lambda>ot. ops_xmit (ops_of ot)) of
      None \<Rightarrow> Some (NET_ERR_NOT_SUPPORT, pktbuf_free (Some b) s)
    | Some xmit \<Rightarrow> do {
        (err, s) \<leftarrow> netif_put_out (Some n) (Some b) (-1) s;
        if is_err err then Some (err, pktbuf_free (Some b) s) else xmit n s
      }) (\<lambda>(e, s'). keep Q N s0 H s' \<and> same_above s s')"
proof (cases "Option.bind ot (\<lambda>ot. ops_xmit (ops_of ot))")
  case None
  with keep_free [OF assms(1)] show ?thesis by simp
next
  case (Some xmit)
  then obtain o' where x: "ops_xmit (ops_of o') = Some xmit" by (cases ot) auto
  show ?thesis
    unfolding Some option.case post_bind
  proof (rule post_pair [OF keep_put_out [OF assms]])
    fix e s'
    assume r: "same_above s s' \<and> pktbufs s' = pktbufs s \<and> (if e = NET_ERR_OK then keep Q N s0 H s' else s' = s)"
    then show "post (case (e, s') of (err, s) \<Rightarrow> if is_err err then Some (err, pktbuf_free (Some b) s) else xmit n s)
        (\<lambda>(e, s'). keep Q N s0 H s' \<and> same_above s s')"
      using keep_free [OF assms(1)] xmit_keeps [OF x assms(2), of s0 H s']
      by (auto split: if_splits elim: post_mono)
  qed
qed

theorem netif_out_consumes:
  assumes "keep Q N s0 (add_mset b H) s" and "n \<in> N"
    and "\<And>l out. nif_link_layer (netifs s n) = Some l \<Longrightarrow> out_of l = Some out \<Longrightarrow> post (out n dest b s) (\<lambda>(e, s'). R s')"
    and "\<And>s'. keep Q N s0 H s' \<Longrightarrow> same_above s s' \<Longrightarrow> R s'"
  shows "post (netif_out ops_of out_of (Some n) dest (Some b) s) (\<lambda>(e, s'). R s')"
proof (cases "nif_state (netifs s n) = NETIF_ACTIVE")
  case False
  with keep_free [OF assms(1)] assms(4) show ?thesis by (simp add: netif_out_def)
next
  case True
  show ?thesis
  proof (cases "Option.bind (nif_link_layer (netifs s n)) out_of")
    case (Some out)
    then obtain l where "nif_link_layer (netifs s n) = Some l" "out_of l = Some out"
      by (cases "nif_link_layer (netifs s n)") auto
    with assms(3) True show ?thesis by (simp add: netif_out_def)
  next
    case None
    with True have "netif_out ops_of out_of (Some n) dest (Some b) s =
        (case Option.bind (nif_ops (netifs s n)) (\<lambda>ot. ops_xmit (ops_of ot)) of
           None \<Rightarrow> Some (NET_ERR_NOT_SUPPORT, pktbuf_free (Some b) s)
         | Some xmit \<Rightarrow> do {
             (err, s) \<leftarrow> netif_put_out (Some n) (Some b) (-1) s;
             if is_err err then Some (err, pktbuf_free (Some b) s) else xmit n s
           })" by (simp add: netif_out_def)
    with queue_and_xmit [OF assms(1,2), of "nif_ops (netifs s n)"]
    have "post (netif_out ops_of out_of (Some n) dest (Some b) s) (\<lambda>(e, s'). keep Q N s0 H s' \<and> same_above s s')" by argo
    then show ?thesis using assms(4) by (auto elim: post_mono)
  qed
qed


section \<open>Ethernet output\<close>

lemma ether_send_frame_consumes:
  assumes "work Q N s0 (add_mset b H) b s1 s" and "contiguous ETH_HDR_SIZE (pktbufs s b)" and "n \<in> N" and "hw_ok N s1"
    and "dest \<noteq> []"
  shows "post (ether_send_frame ops_of n protocol dest b s) (\<lambda>(e, s'). keep Q N s0 H s' \<and> same_above s1 s')"
proof -
  note put = w_put_any [where Q = Q and N = N and ?s0.0 = s0 and H = "add_mset b H" and b = b and ?s1.0 = s1 and n = ETH_HDR_SIZE]
  have hw: "hw_addr (nif_hwaddr (netifs s n)) \<noteq> []" "same_above s1 s" if "work Q N s0 (add_mset b H) b s1 s" for s
    using assms(3,4) same_netif(1) [OF buf_onlyD(1) [OF workD(3) [OF that]]] buf_onlyD(1) [OF workD(3) [OF that]]
    by (auto simp: hw_ok_def NETIF_HWADDR_SIZE_def)
  have send: "post (if c then do {
        (err, s) \<leftarrow> netif_put_in (Some n) (Some b) (-1) s;
        Some (err, if is_err err then pktbuf_free (Some b) s else s)
      } else
       (case Option.bind ot (\<lambda>ot. ops_xmit (ops_of ot)) of
          None \<Rightarrow> Some (NET_ERR_NOT_SUPPORT, pktbuf_free (Some b) s)
        | Some xmit \<Rightarrow> do {
            (err, s) \<leftarrow> netif_put_out (Some n) (Some b) (-1) s;
            if is_err err then Some (err, pktbuf_free (Some b) s) else xmit n s
          })) (\<lambda>(e, s'). keep Q N s0 H s' \<and> same_above s1 s')"
    if "work Q N s0 (add_mset b H) b s1 s" for c ot s
    using put_in_or_free [OF workD(1) [OF that] assms(3)] queue_and_xmit [OF workD(1) [OF that] assms(3), of ot] hw(2) [OF that]
    by (cases c) (auto elim!: post_mono simp del: post_bind)
  show ?thesis
    unfolding ether_send_frame_def post_bind
    by (intro put send) (use assms hw in \<open>simp_all add: ETH_HDR_SIZE_def ETH_HWA_SIZE_def le16_bytes_def\<close>)
qed

theorem ether_raw_out_consumes:
  assumes "keep Q N s0 (add_mset b H) s" and "\<And>n. netif = Some n \<Longrightarrow> n \<in> N" and "hw_ok N s" and "dest \<noteq> Some []"
  shows "post (ether_raw_out ops_of netif protocol dest (Some b) s) (\<lambda>(e, s'). keep Q N s0 H s' \<and> same_above s s')"
proof (cases "\<exists>n d. netif = Some n \<and> dest = Some d")
  case False
  with keep_free [OF assms(1)] show ?thesis
    by (auto simp: ether_raw_out_def split: option.split)
next
  case True
  then obtain n d where nd: "netif = Some n" "dest = Some d" by blast
  let ?W = "work Q N s0 (add_mset b H) b s"
  have free: "keep Q N s0 H (pktbuf_free (Some b) s') \<and> same_above s (pktbuf_free (Some b) s')" if "?W s'" for s'
    using keep_free [OF workD(1) [OF that]] buf_onlyD(1) [OF workD(3) [OF that]] by simp
  have w0: "?W s" using assms(1) by (intro workI) simp_all
  have frame: "post (do {
        (err, s) \<leftarrow> pktbuf_add_header (Some b) (int ETH_HDR_SIZE) True s';
        if is_err err then Some (err, pktbuf_free (Some b) s)
        else if pktbuf_data b s = None then Some (NET_ERR_SIZE, pktbuf_free (Some b) s)
        else ether_send_frame ops_of n protocol d b s
      }) (\<lambda>(e, s'). keep Q N s0 H s' \<and> same_above s s')" if "?W s'" for s'
    unfolding post_bind
    by (rule w_add_header [OF that])
      (use free assms nd in \<open>auto simp: ETH_HDR_SIZE_def PKTBUF_BLK_SIZE_def intro!: ether_send_frame_consumes\<close>)
  have "post (if c then ether_pad b k s else Some (NET_ERR_OK, s)) (\<lambda>(e, s'). ?W s')" for c k
    using w0 ether_pad_keeps [OF w0] by simp
  then have "post ((if c then ether_pad b k s else Some (NET_ERR_OK, s)) \<bind> (\<lambda>(err, s).
      if is_err err then Some (err, pktbuf_free (Some b) s)
      else do {
        (err, s) \<leftarrow> pktbuf_add_header (Some b) (int ETH_HDR_SIZE) True s;
        if is_err err then Some (err, pktbuf_free (Some b) s)
        else if pktbuf_data b s = None then Some (NET_ERR_SIZE, pktbuf_free (Some b) s)
        else ether_send_frame ops_of n protocol d b s
      })) (\<lambda>(e, s'). keep Q N s0 H s' \<and> same_above s s')" for c k
    unfolding post_bind [of "if c then ether_pad b k s else Some (NET_ERR_OK, s)"]
    by (rule post_pair) (use free frame in \<open>simp split: if_split\<close>)
  with free [OF w0] nd show ?thesis by (simp add: ether_raw_out_def Let_def del: post_bind)
qed

end


section \<open>The loop-back device\<close>

lemma loop_xmit_keeps:
  assumes "keep Q N s0 H s" and "n \<in> N"
  shows "post (loop_xmit n s) (\<lambda>(e, s'). keep Q N s0 H s' \<and> same_above s s')"
  unfolding loop_xmit_def post_bind [of "netif_get_out (Some n) (- 1) s"]
proof (rule post_pair [OF keep_get_out [OF assms]], goal_cases)
  case (1 r s1)
  show ?case
  proof (cases r)
    case None
    with 1 assms(1) show ?thesis by simp
  next
    case (Some b)
    with 1 have k: "keep Q N s0 (add_mset b H) s1" "same_above s s1" by simp_all
    from put_in_or_free [OF k(1) assms(2)] k(2) Some show ?thesis
      by (auto elim!: post_mono simp del: post_bind)
  qed
qed

interpretation loop_dev: devices "\<lambda>_. loop_ops" Q N for Q N
  by unfold_locales (simp add: loop_ops_def loop_xmit_keeps)


section \<open>The virtio device\<close>

text \<open>While a sender waits for a transmit slot, interrupts and other tasks change the driver and the clock; at the latest
  with the last sleep of the list a slot is free, or the driver has been stopped or restarted.\<close>

definition driver_frame :: "'a net_sys_state_scheme \<Rightarrow> 'a net_sys_state_scheme \<Rightarrow> bool" where
  "driver_frame s s' \<longleftrightarrow> sem_pool s' = sem_pool s \<and> net_sys_state.more s' = net_sys_state.more s"

definition tx_blocked :: "u64 \<Rightarrow> virtio_net \<Rightarrow> bool" where
  "tx_blocked g v \<longleftrightarrow> vn_active v \<and> g = vn_generation v \<and> net_find_free_tx_slot_locked v = None"

definition lets_send :: "'a net_sys_state_scheme sleep list \<Rightarrow> bool" where
  "lets_send es \<longleftrightarrow> es \<noteq> [] \<and> (\<forall>e\<in>set es. \<forall>d s. driver_frame s (snd (e d s))) \<and>
     (\<forall>g s. \<not> tx_blocked g (vnet (snd (last es WAIT_FOREVER s))))"

lemma net_send_wait_lets:
  assumes "es \<noteq> []" and "\<forall>e\<in>set es. \<forall>d s. driver_frame s (snd (e d s))"
    and "\<forall>s. \<not> tx_blocked g (vnet (snd (last es WAIT_FOREVER s)))"
  shows "post (net_send_wait g es s) (\<lambda>(slot, s'). driver_frame s s' \<and>
    slot = net_find_free_tx_slot_locked (vnet s') \<and> \<not> tx_blocked g (vnet s'))"
  using assms
proof (induction es arbitrary: s)
  case (Cons e es)
  let ?s = "snd (e WAIT_FOREVER s)"
  from Cons.prems(2) have s: "driver_frame s ?s" by simp
  have eq: "net_send_wait g (e # es) s =
      (if tx_blocked g (vnet s) then net_send_wait g es ?s else Some (net_find_free_tx_slot_locked (vnet s), s))"
    by (simp add: tx_blocked_def)
  have nil: "net_send_wait g [] ?s = Some (net_find_free_tx_slot_locked (vnet ?s), ?s)" if "\<not> tx_blocked g (vnet ?s)"
    using that by (simp add: tx_blocked_def)
  show ?case
  proof (cases "tx_blocked g (vnet s) \<and> es \<noteq> []")
    case True
    with Cons have "post (net_send_wait g es ?s) (\<lambda>(slot, s'). driver_frame ?s s' \<and>
        slot = net_find_free_tx_slot_locked (vnet s') \<and> \<not> tx_blocked g (vnet s'))" by (intro Cons.IH) auto
    with s True show ?thesis unfolding eq by (auto simp: driver_frame_def elim!: post_mono)
  next
    case False
    with Cons.prems(3) s nil show ?thesis unfolding eq by (auto simp: driver_frame_def)
  qed
qed simp

lemma virtio_net_send_keeps:
  assumes "lets_send es"
  shows "post (virtio_net_send env frame len es s) (\<lambda>(r, s'). driver_frame s s')"
proof -
  have wait: "post (net_send_wait g es s) (\<lambda>(slot, s'). driver_frame s s' \<and>
    slot = net_find_free_tx_slot_locked (vnet s') \<and> \<not> tx_blocked g (vnet s'))" for g
    using assms by (intro net_send_wait_lets) (auto simp: lets_send_def)
  show ?thesis
    unfolding virtio_net_send_def
    by (auto split: option.split simp: Let_def driver_frame_def intro!: post_pair [OF wait] split: prod.split)
      (auto simp: tx_blocked_def driver_frame_def)
qed

lemma keep_driver:
  assumes "keep Q N s0 H s" and "driver_frame s s'"
  shows "keep Q N s0 H s'" and "same_above s s'" and "fixqs s' = fixqs s" and "pktbufs s' = pktbufs s"
proof -
  from assms(2) have m: "net_sys_state.more s' = net_sys_state.more s" "sem_pool s' = sem_pool s"
    by (simp_all add: driver_frame_def)
  then have f: "same_above s s'" "fixqs s' = fixqs s" "pktbufs s' = pktbufs s" "block_list s' = block_list s"
    "pktbuf_list s' = pktbuf_list s"
    unfolding upper_def by (cases s; cases s'; simp)+
  then show "same_above s s'" "fixqs s' = fixqs s" "pktbufs s' = pktbufs s" by simp_all
  from assms(1) keep_low [OF f(2) m(2) f(3-5)] show "keep Q N s0 H s'" by simp
qed

lemma virtio_xmit_loop_keeps:
  assumes "keep Q N s0 H s" and "n \<in> N" and "\<forall>k. lets_send (sl k)"
  shows "post (netif_virtio_xmit_loop env sl k n result s) (\<lambda>(e, s'). keep Q N s0 H s' \<and> same_above s s')"
  using assms(1)
proof (induction "length (fixq_items (OUT_Q n) s)" arbitrary: s k result rule: less_induct)
  case less
  show ?case
    unfolding netif_virtio_xmit_loop.simps [of env sl k n result s] post_bind [of "netif_get_out (Some n) (- 1) s"]
  proof (rule post_pair [OF keep_get_out [OF less.prems assms(2)]], goal_cases)
    case (1 r s1)
    show ?case
    proof (cases r)
      case None
      with 1 less.prems show ?thesis by simp
    next
      case (Some b)
      with 1 have k1: "keep Q N s0 (add_mset b H) s1" "same_above s s1"
        and l: "length (fixq_items (OUT_Q n) s1) < length (fixq_items (OUT_Q n) s)" by simp_all
      have again: "post (netif_virtio_xmit_loop env sl k' n res (pktbuf_free (Some b) s2))
          (\<lambda>(e, s'). keep Q N s0 H s' \<and> same_above s s')"
        if "keep Q N s0 (add_mset b H) s2" "same_above s1 s2" "fixqs s2 = fixqs s1" for k' res s2
      proof -
        have "fixq_items (OUT_Q n) (pktbuf_free (Some b) s2) = fixq_items (OUT_Q n) s1"
          using that(3) by (simp add: fixq_items_def)
        with l have "length (fixq_items (OUT_Q n) (pktbuf_free (Some b) s2)) < length (fixq_items (OUT_Q n) s)" by simp
        from less.hyps [OF this keep_free(1) [OF that(1)]] k1(2) that(2) show ?thesis
          by (auto elim!: post_mono)
      qed
      note w = keep_reset_acc(1) [OF k1(1), of b]
      let ?W = "work Q N s0 (add_mset b H) b (reset_acc b s1)"
      have read: "post (if pktbuf_total b s1 = 0 then Some (NET_ERR_OK, [], reset_acc b s1)
            else pktbuf_read (Some b) False (pktbuf_total b s1) (reset_acc b s1)) (\<lambda>(e, bytes, s'). ?W s')"
        using w by (auto intro!: workI w_read [where Q = Q and N = N and ?s0.0 = s0 and H = "add_mset b H"])
      have send: "post (virtio_net_send env f len (sl k) s2) (\<lambda>x. post (case x of (r, s) \<Rightarrow>
            if r < 0 then Some (NET_ERR_IO, pktbuf_free (Some b) s)
            else netif_virtio_xmit_loop env sl (Suc k) n result (pktbuf_free (Some b) s))
          (\<lambda>(e, s'). keep Q N s0 H s' \<and> same_above s s'))" if "?W s2" for f len s2
      proof (rule post_pair [OF virtio_net_send_keeps [OF assms(3) [rule_format]]], goal_cases)
        case (1 r s3)
        note o = buf_onlyD [OF workD(3) [OF that]] and d = keep_driver [OF workD(1) [OF that] 1]
        with k1(2) keep_free [OF d(1)] again [OF d(1)] show ?case by simp
      qed
      show ?thesis
      proof (cases "pktbuf_total b s1 < 0 \<or> pktbuf_total b s1 > int ETHERNET_MAX_FRAME")
        case True
        with again [OF k1(1)] Some show ?thesis by (simp add: Let_def)
      next
        case False
        show ?thesis
          unfolding Some prod.case option.case Let_def if_not_P [OF False] post_bind
        proof (rule post_mono [OF read], clarify)
          fix e bytes s2
          assume w2: "?W s2"
          note o = buf_onlyD [OF workD(3) [OF w2]]
          show "post (if e \<noteq> NET_ERR_OK then netif_virtio_xmit_loop env sl k n NET_ERR_SIZE (pktbuf_free (Some b) s2)
              else virtio_net_send env (Some (put_at 0 bytes (replicate ETHERNET_MAX_FRAME 0)))
                  (word_of_nat (if nat (pktbuf_total b s1) < ETHERNET_MIN_FRAME then ETHERNET_MIN_FRAME
                                else nat (pktbuf_total b s1))) (sl k) s2 \<bind>
                (\<lambda>(r, s). if r < 0 then Some (NET_ERR_IO, pktbuf_free (Some b) s)
                  else netif_virtio_xmit_loop env sl (Suc k) n result (pktbuf_free (Some b) s)))
              (\<lambda>(e, s'). keep Q N s0 H s' \<and> same_above s s')"
            using send [OF w2] again [OF workD(1) [OF w2]] o(1,2) by simp
        qed
      qed
    qed
  qed
qed

text \<open>The two structures of device operations of the kernel, at their addresses.\<close>

definition kernel_ops ::
  "'e net_env_scheme \<Rightarrow> (nat \<Rightarrow> 'a loop_state_scheme sleep list) \<Rightarrow> nat \<Rightarrow> 'a loop_state_scheme netif_ops" where
  "kernel_ops env sl ot = (if ot = LOOP_OPS then loop_ops else netif_virtio_ops env sl)"

lemma kernel_devices: "\<forall>k. lets_send (sl k) \<Longrightarrow> devices (kernel_ops env sl) Q N"
  by unfold_locales
    (auto simp: kernel_ops_def loop_ops_def netif_virtio_ops_def netif_virtio_xmit_def loop_xmit_keeps
      virtio_xmit_loop_keeps split: if_splits)

end
