(* ===== verification/Arp.thy ===== *)
theory Arp
  imports Ether
begin

text \<open>
  Address resolution, \<^verbatim>\<open>kernel/src/net/arp.c\<close>. The cache is a list of entries, most recently used first, of at most
  \<^verbatim>\<open>ARP_CACHE_SIZE\<close>; an entry that waits for an answer holds the packets to be sent once the address is known.
  The allocator \<^verbatim>\<open>cache_blocks\<close> is its list of free entries.

  Sending goes through \<open>ether_raw_out\<close> and with it through the operations of the device, \<open>ops_of\<close>.
\<close>

datatype arp_status = NET_ARP_FREE | NET_ARP_RESOLVED | NET_ARP_WAITING

record arp_entry =
  ae_paddr :: ipaddr
  ae_haddr :: "u8 list"
  ae_state :: arp_status
  ae_tmo :: int
  ae_retry :: int
  ae_netif :: "nat option"
  ae_buf_list :: "nat list"

record arp_state = ether_state +
  arp_initialized :: bool
  cache_blocks :: "nat list"
  cache_list :: "nat list"
  cache_entries :: "nat \<Rightarrow> arp_entry"

definition ARP_HW_ETHER :: u16 where "ARP_HW_ETHER = 1"
definition ARP_REQUEST :: u16 where "ARP_REQUEST = 1"
definition ARP_REPLY :: u16 where "ARP_REPLY = 2"
definition ARP_PKT_SIZE :: nat where "ARP_PKT_SIZE = 28"
definition ARP_CACHE_SIZE :: nat where "ARP_CACHE_SIZE = 8"
definition ARP_MAX_PKT_WAIT :: nat where "ARP_MAX_PKT_WAIT = 8"
definition ARP_ENTRY_STABLE_TMO :: int where "ARP_ENTRY_STABLE_TMO = 1200"
definition ARP_ENTRY_PENDING_TMO :: int where "ARP_ENTRY_PENDING_TMO = 3"
definition ARP_ENTRY_RETRY_CNT :: int where "ARP_ENTRY_RETRY_CNT = 5"
definition ARP_TIMER_TMO :: int where "ARP_TIMER_TMO = 1"

text \<open>Addresses of \<^verbatim>\<open>cache_timer\<close> and of the functions \<^verbatim>\<open>arp_cache_tmo\<close> and \<^verbatim>\<open>arp_in\<close>.\<close>

definition CACHE_TIMER :: nat where "CACHE_TIMER = 0"
definition ARP_CACHE_TMO :: nat where "ARP_CACHE_TMO = 1"
definition ARP_IN :: nat where "ARP_IN = 1"

definition empty_hwaddr :: "u8 list" where "empty_hwaddr = replicate ETH_HWA_SIZE 0"


section \<open>The cache\<close>

definition upd_entry :: "nat \<Rightarrow> (arp_entry \<Rightarrow> arp_entry) \<Rightarrow> 'a arp_state_scheme \<Rightarrow> 'a arp_state_scheme" where
  "upd_entry e f s = s\<lparr>cache_entries := (cache_entries s)(e := f (cache_entries s e))\<rparr>"

definition arp_scan_count :: "int \<Rightarrow> int" where
  "arp_scan_count seconds = 1 + (seconds - 1) div ARP_TIMER_TMO"

fun free_bufs :: "nat list \<Rightarrow> 'a pkt_state_scheme \<Rightarrow> 'a pkt_state_scheme" where
  "free_bufs [] s = s"
| "free_bufs (b # bs) s = free_bufs bs (pktbuf_free (Some b) s)"

definition arp_free_waiting :: "nat \<Rightarrow> 'a arp_state_scheme \<Rightarrow> 'a arp_state_scheme" where
  "arp_free_waiting e s =
     free_bufs (ae_buf_list (cache_entries s e)) (upd_entry e (\<lambda>x. x\<lparr>ae_buf_list := []\<rparr>) s)"

definition arp_find_entry :: "nat option \<Rightarrow> ipaddr option \<Rightarrow> 'a arp_state_scheme \<Rightarrow> nat option \<times> 'a arp_state_scheme" where
  "arp_find_entry netif ip s =
     (case find (\<lambda>e. ae_netif (cache_entries s e) = netif \<and> ipaddr_is_equal (Some (ae_paddr (cache_entries s e))) ip)
             (cache_list s) of
        None \<Rightarrow> (None, s)
      | Some e \<Rightarrow> (Some e, s\<lparr>cache_list := e # remove1 e (cache_list s)\<rparr>))"

definition arp_entry_zero :: arp_entry where
  "arp_entry_zero = \<lparr>ae_paddr = 0, ae_haddr = replicate ETH_HWA_SIZE 0, ae_state = NET_ARP_FREE, ae_tmo = 0,
     ae_retry = 0, ae_netif = None, ae_buf_list = []\<rparr>"

definition arp_alloc_entry :: "bool \<Rightarrow> 'a arp_state_scheme \<Rightarrow> nat option \<times> 'a arp_state_scheme" where
  "arp_alloc_entry force s =
     (let (entry, s) = (case cache_blocks s of
                          [] \<Rightarrow> (None, s)
                        | e # free \<Rightarrow> (Some e, s\<lparr>cache_blocks := free\<rparr>));
          (entry, s) = (if entry = None \<and> force \<and> cache_list s \<noteq> [] then
                          let e = last (cache_list s);
                              s = s\<lparr>cache_list := butlast (cache_list s)\<rparr>
                          in (Some e, arp_free_waiting e s)
                        else (entry, s))
      in case entry of
           None \<Rightarrow> (None, s)
         | Some e \<Rightarrow> (entry, upd_entry e (\<lambda>_. arp_entry_zero) s))"

definition arp_free_entry :: "nat option \<Rightarrow> 'a arp_state_scheme \<Rightarrow> 'a arp_state_scheme" where
  "arp_free_entry entry s =
     (case entry of
        None \<Rightarrow> s
      | Some e \<Rightarrow>
          let s = arp_free_waiting e s;
              s = (if ae_state (cache_entries s e) \<noteq> NET_ARP_FREE
                   then s\<lparr>cache_list := remove1 e (cache_list s)\<rparr> else s);
              s = upd_entry e (\<lambda>x. x\<lparr>ae_state := NET_ARP_FREE\<rparr>) s
          in s\<lparr>cache_blocks := cache_blocks s @ [e]\<rparr>)"

definition arp_set_entry ::
  "nat \<Rightarrow> nat option \<Rightarrow> u8 list \<Rightarrow> u8 list \<Rightarrow> arp_status \<Rightarrow> 'a arp_state_scheme \<Rightarrow> 'a arp_state_scheme" where
  "arp_set_entry e netif ipbuf mac state s =
     upd_entry e (\<lambda>x. x\<lparr>ae_netif := netif, ae_paddr := ipaddr_from_buf ipbuf, ae_haddr := take ETH_HWA_SIZE mac,
       ae_state := state,
       ae_tmo := arp_scan_count (if state = NET_ARP_RESOLVED then ARP_ENTRY_STABLE_TMO else ARP_ENTRY_PENDING_TMO),
       ae_retry := ARP_ENTRY_RETRY_CNT\<rparr>) s"


section \<open>Sending\<close>

definition arp_make_request ::
  "(nat \<Rightarrow> 'a arp_state_scheme netif_ops) \<Rightarrow> nat option \<Rightarrow> ipaddr option \<Rightarrow> 'a arp_state_scheme
   \<Rightarrow> (net_err \<times> 'a arp_state_scheme) option" where
  "arp_make_request ops_of netif protocol_addr s =
     (case (netif, protocol_addr) of
        (Some n, Some addr) \<Rightarrow>
          (case pktbuf_alloc (int ARP_PKT_SIZE) s of
             (None, s) \<Rightarrow> Some (NET_ERR_MEM, s)
           | (Some b, s) \<Rightarrow>
               let s = reset_acc b s
               in if pktbuf_data b s = None then Some (NET_ERR_MEM, pktbuf_free (Some b) s)
                  else do {
                    s \<leftarrow> pktbuf_put b 0 (le16_bytes (x_htons ARP_HW_ETHER)) s;
                    s \<leftarrow> pktbuf_put b 2 (le16_bytes (x_htons NET_PROTOCOL_IPV4)) s;
                    s \<leftarrow> pktbuf_put b 4 [of_nat ETH_HWA_SIZE] s;
                    s \<leftarrow> pktbuf_put b 5 [of_nat IPV4_ADDR_SIZE] s;
                    s \<leftarrow> pktbuf_put b 6 (le16_bytes (x_htons ARP_REQUEST)) s;
                    s \<leftarrow> pktbuf_put b 8 (take ETH_HWA_SIZE (hw_addr (nif_hwaddr (netifs s n)))) s;
                    s \<leftarrow> pktbuf_put b 14 (ipaddr_to_buf (nif_ipaddr (netifs s n))) s;
                    s \<leftarrow> pktbuf_put b 18 empty_hwaddr s;
                    s \<leftarrow> pktbuf_put b 24 (ipaddr_to_buf addr) s;
                    ether_raw_out ops_of netif NET_PROTOCOL_ARP (Some ether_broadcast_addr) (Some b) s
                  })
      | _ \<Rightarrow> Some (NET_ERR_PARAM, s))"

definition arp_make_gratuitous ::
  "(nat \<Rightarrow> 'a arp_state_scheme netif_ops) \<Rightarrow> nat option \<Rightarrow> 'a arp_state_scheme \<Rightarrow> (net_err \<times> 'a arp_state_scheme) option" where
  "arp_make_gratuitous ops_of netif s =
     (case netif of
        None \<Rightarrow> Some (NET_ERR_PARAM, s)
      | Some n \<Rightarrow> arp_make_request ops_of netif (Some (nif_ipaddr (netifs s n))) s)"

definition arp_make_reply ::
  "(nat \<Rightarrow> 'a arp_state_scheme netif_ops) \<Rightarrow> nat option \<Rightarrow> nat option \<Rightarrow> 'a arp_state_scheme
   \<Rightarrow> (net_err \<times> 'a arp_state_scheme) option" where
  "arp_make_reply ops_of netif buf s =
     (case (netif, buf) of
        (Some n, Some b) \<Rightarrow> do {
          (err, s) \<leftarrow> pktbuf_set_cont buf (int ARP_PKT_SIZE) s;
          if err \<noteq> NET_ERR_OK \<or> pktbuf_data b s = None then Some (NET_ERR_SIZE, s)
          else do {
            target_mac \<leftarrow> pktbuf_get b 8 ETH_HWA_SIZE s;
            target_ip \<leftarrow> pktbuf_get b 14 IPV4_ADDR_SIZE s;
            s \<leftarrow> pktbuf_put b 6 (le16_bytes (x_htons ARP_REPLY)) s;
            s \<leftarrow> pktbuf_put b 18 target_mac s;
            s \<leftarrow> pktbuf_put b 24 target_ip s;
            s \<leftarrow> pktbuf_put b 8 (take ETH_HWA_SIZE (hw_addr (nif_hwaddr (netifs s n)))) s;
            s \<leftarrow> pktbuf_put b 14 (ipaddr_to_buf (nif_ipaddr (netifs s n))) s;
            let s = pktbuf_inc_ref buf s;
            (err, s) \<leftarrow> ether_raw_out ops_of netif NET_PROTOCOL_ARP (Some target_mac) buf s;
            Some (err, if is_err err then s else pktbuf_free buf s)
          }
        }
      | _ \<Rightarrow> Some (NET_ERR_PARAM, s))"

partial_function (option) arp_send_waiting ::
  "(nat \<Rightarrow> 'a arp_state_scheme netif_ops) \<Rightarrow> nat \<Rightarrow> 'a arp_state_scheme \<Rightarrow> (net_err \<times> 'a arp_state_scheme) option" where
  "arp_send_waiting ops_of e s =
     (case ae_buf_list (cache_entries s e) of
        [] \<Rightarrow> Some (NET_ERR_OK, s)
      | b # bs \<Rightarrow> do {
          let s = upd_entry e (\<lambda>x. x\<lparr>ae_buf_list := bs\<rparr>) s;
          (err, s) \<leftarrow> ether_raw_out ops_of (ae_netif (cache_entries s e)) NET_PROTOCOL_IPV4
                        (Some (ae_haddr (cache_entries s e))) (Some b) s;
          if is_err err then Some (err, arp_free_waiting e s)
          else arp_send_waiting ops_of e s
        })"


section \<open>The handlers\<close>

text \<open>The walk of the timer function. The entry that it stands on is the only one that it removes.\<close>

fun arp_cache_tmo_loop ::
  "(nat \<Rightarrow> 'a arp_state_scheme netif_ops) \<Rightarrow> nat list \<Rightarrow> 'a arp_state_scheme \<Rightarrow> 'a arp_state_scheme option" where
  "arp_cache_tmo_loop ops_of [] s = Some s"
| "arp_cache_tmo_loop ops_of (e # es) s =
     (let s = upd_entry e (\<lambda>x. x\<lparr>ae_tmo := ae_tmo x - 1\<rparr>) s;
          x = cache_entries s e
      in if ae_tmo x > 0 then arp_cache_tmo_loop ops_of es s
         else if ae_state x = NET_ARP_RESOLVED then
           let s = upd_entry e (\<lambda>x. x\<lparr>ae_state := NET_ARP_WAITING, ae_tmo := arp_scan_count ARP_ENTRY_PENDING_TMO,
                                    ae_retry := ARP_ENTRY_RETRY_CNT\<rparr>) s
           in do {
             (_, s) \<leftarrow> arp_make_request ops_of (ae_netif (cache_entries s e)) (Some (ae_paddr x)) s;
             arp_cache_tmo_loop ops_of es s
           }
         else if ae_state x = NET_ARP_WAITING then
           let s = upd_entry e (\<lambda>x. x\<lparr>ae_retry := ae_retry x - 1\<rparr>) s
           in if ae_retry (cache_entries s e) \<le> 0 then arp_cache_tmo_loop ops_of es (arp_free_entry (Some e) s)
              else
                let s = upd_entry e (\<lambda>x. x\<lparr>ae_tmo := arp_scan_count ARP_ENTRY_PENDING_TMO\<rparr>) s
                in do {
                  (_, s) \<leftarrow> arp_make_request ops_of (ae_netif (cache_entries s e)) (Some (ae_paddr x)) s;
                  arp_cache_tmo_loop ops_of es s
                }
         else arp_cache_tmo_loop ops_of es s)"

definition arp_cache_tmo :: "(nat \<Rightarrow> 'a arp_state_scheme netif_ops) \<Rightarrow> 'a arp_state_scheme \<Rightarrow> 'a arp_state_scheme option" where
  "arp_cache_tmo ops_of s = arp_cache_tmo_loop ops_of (cache_list s) s"

definition arp_cache_insert ::
  "(nat \<Rightarrow> 'a arp_state_scheme netif_ops) \<Rightarrow> nat option \<Rightarrow> u8 list \<Rightarrow> u8 list \<Rightarrow> bool \<Rightarrow> 'a arp_state_scheme
   \<Rightarrow> (net_err \<times> 'a arp_state_scheme) option" where
  "arp_cache_insert ops_of netif ipbuf mac force s =
     (case arp_find_entry netif (Some (ipaddr_from_buf ipbuf)) s of
        (Some e, s) \<Rightarrow> arp_send_waiting ops_of e (arp_set_entry e netif ipbuf mac NET_ARP_RESOLVED s)
      | (None, s) \<Rightarrow>
          (case arp_alloc_entry force s of
             (None, s) \<Rightarrow> Some (NET_ERR_MEM, s)
           | (Some e, s) \<Rightarrow>
               let s = arp_set_entry e netif ipbuf mac NET_ARP_RESOLVED s
               in arp_send_waiting ops_of e (s\<lparr>cache_list := e # cache_list s\<rparr>)))"

definition arp_packet_check :: "u8 list option \<Rightarrow> int \<Rightarrow> net_err" where
  "arp_packet_check packet sz =
     (case packet of
        None \<Rightarrow> NET_ERR_SIZE
      | Some p \<Rightarrow>
          if sz < int ARP_PKT_SIZE then NET_ERR_SIZE
          else if x_ntohs (le16_at p 0) \<noteq> ARP_HW_ETHER \<or> p ! 4 \<noteq> of_nat ETH_HWA_SIZE \<or> p ! 5 \<noteq> of_nat IPV4_ADDR_SIZE \<or>
                  x_ntohs (le16_at p 2) \<noteq> NET_PROTOCOL_IPV4
          then NET_ERR_NOT_SUPPORT
          else if x_ntohs (le16_at p 6) \<noteq> ARP_REQUEST \<and> x_ntohs (le16_at p 6) \<noteq> ARP_REPLY then NET_ERR_NOT_SUPPORT
          else NET_ERR_OK)"

definition arp_init :: "'a arp_state_scheme \<Rightarrow> net_err \<times> 'a arp_state_scheme" where
  "arp_init s =
     (if arp_initialized s then (NET_ERR_EXIST, s)
      else
        let s = s\<lparr>cache_list := [], cache_blocks := [0..<ARP_CACHE_SIZE]\<rparr>;
            (err, s) = net_timer_add (Some CACHE_TIMER) (Some ''arp timer'') (Some ARP_CACHE_TMO) None
                         (ARP_TIMER_TMO * 1000) NET_TIMER_RELOAD s
        in if is_err err then (err, s)
           else
             let (err, s) = ether_register_handler NET_PROTOCOL_ARP (Some ARP_IN) s
             in if is_err err then (err, net_timer_remove (Some CACHE_TIMER) s)
                else (NET_ERR_OK, s\<lparr>arp_initialized := True\<rparr>))"

definition arp_in ::
  "(nat \<Rightarrow> 'a arp_state_scheme netif_ops) \<Rightarrow> nat option \<Rightarrow> nat option \<Rightarrow> 'a arp_state_scheme
   \<Rightarrow> (net_err \<times> 'a arp_state_scheme) option" where
  "arp_in ops_of netif buf s =
     (case (netif, buf) of
        (Some n, Some b) \<Rightarrow> do {
          (err, s) \<leftarrow> pktbuf_set_cont buf (int ARP_PKT_SIZE) s;
          if err \<noteq> NET_ERR_OK \<or> pktbuf_data b s = None then Some (NET_ERR_SIZE, s)
          else do {
            packet \<leftarrow> pktbuf_get b 0 ARP_PKT_SIZE s;
            let err = arp_packet_check (Some packet) (pktbuf_total b s);
            if is_err err then Some (err, s)
            else do {
              let opcode = x_ntohs (le16_at packet 6);
              (err, s) \<leftarrow> arp_cache_insert ops_of netif (get_at 14 IPV4_ADDR_SIZE packet) (get_at 8 ETH_HWA_SIZE packet)
                            (opcode = ARP_REQUEST) s;
              if is_err err then Some (err, s)
              else do {
                target \<leftarrow> pktbuf_get b 24 IPV4_ADDR_SIZE s;
                if opcode = ARP_REQUEST \<and>
                   ipaddr_is_equal (Some (ipaddr_from_buf target)) (Some (nif_ipaddr (netifs s n)))
                then arp_make_reply ops_of netif buf s
                else Some (NET_ERR_OK, pktbuf_free buf s)
              }
            }
          }
        }
      | _ \<Rightarrow> Some (NET_ERR_PARAM, s))"

text \<open>A pointer to a hardware address: the constant broadcast address, or the address in an entry.\<close>

datatype hw_ptr = HwBroadcast | HwEntry nat

definition arp_find :: "nat option \<Rightarrow> ipaddr option \<Rightarrow> 'a arp_state_scheme \<Rightarrow> hw_ptr option \<times> 'a arp_state_scheme" where
  "arp_find netif ip s =
     (case (netif, ip) of
        (Some n, Some _) \<Rightarrow>
          if ipaddr_is_local_broadcast ip \<or> ipaddr_is_direct_broadcast ip (Some (nif_netmask (netifs s n)))
          then (Some HwBroadcast, s)
          else
            (case arp_find_entry netif ip s of
               (Some e, s) \<Rightarrow> (if ae_state (cache_entries s e) = NET_ARP_RESOLVED then Some (HwEntry e) else None, s)
             | (None, s) \<Rightarrow> (None, s))
      | _ \<Rightarrow> (None, s))"

definition arp_resolve ::
  "(nat \<Rightarrow> 'a arp_state_scheme netif_ops) \<Rightarrow> nat option \<Rightarrow> ipaddr option \<Rightarrow> nat option \<Rightarrow> 'a arp_state_scheme
   \<Rightarrow> (net_err \<times> 'a arp_state_scheme) option" where
  "arp_resolve ops_of netif ip buf s =
     (case buf of
        None \<Rightarrow> Some (NET_ERR_PARAM, s)
      | Some b \<Rightarrow>
          (case (netif, ip) of
             (Some _, Some addr) \<Rightarrow>
               (case arp_find netif ip s of
                  (Some HwBroadcast, s) \<Rightarrow> ether_raw_out ops_of netif NET_PROTOCOL_IPV4 (Some ether_broadcast_addr) buf s
                | (_, s) \<Rightarrow>
                    (case arp_find_entry netif ip s of
                       (Some e, s) \<Rightarrow>
                         if ae_state (cache_entries s e) = NET_ARP_RESOLVED
                         then ether_raw_out ops_of netif NET_PROTOCOL_IPV4 (Some (ae_haddr (cache_entries s e))) buf s
                         else if length (ae_buf_list (cache_entries s e)) \<ge> ARP_MAX_PKT_WAIT
                         then Some (NET_ERR_FULL, pktbuf_free buf s)
                         else Some (NET_ERR_OK, upd_entry e (\<lambda>x. x\<lparr>ae_buf_list := ae_buf_list x @ [b]\<rparr>) s)
                     | (None, s) \<Rightarrow>
                         (case arp_alloc_entry True s of
                            (None, s) \<Rightarrow> Some (NET_ERR_MEM, pktbuf_free buf s)
                          | (Some e, s) \<Rightarrow> do {
                              let s = arp_set_entry e netif (ipaddr_to_buf addr) empty_hwaddr NET_ARP_WAITING s;
                              let s = s\<lparr>cache_list := e # cache_list s\<rparr>;
                              let s = upd_entry e (\<lambda>x. x\<lparr>ae_buf_list := ae_buf_list x @ [b]\<rparr>) s;
                              (err, s) \<leftarrow> arp_make_request ops_of netif ip s;
                              Some (if is_err err then (err, arp_free_entry (Some e) s) else (NET_ERR_OK, s))
                            })))
           | _ \<Rightarrow> Some (NET_ERR_PARAM, pktbuf_free buf s)))"

text \<open>The walk of \<^verbatim>\<open>arp_clear\<close>; again only the entry at hand is removed.\<close>

fun arp_clear_loop :: "nat \<Rightarrow> nat list \<Rightarrow> 'a arp_state_scheme \<Rightarrow> 'a arp_state_scheme" where
  "arp_clear_loop n [] s = s"
| "arp_clear_loop n (e # es) s =
     arp_clear_loop n es (if ae_netif (cache_entries s e) = Some n then arp_free_entry (Some e) s else s)"

definition arp_clear :: "nat option \<Rightarrow> 'a arp_state_scheme \<Rightarrow> 'a arp_state_scheme" where
  "arp_clear netif s =
     (case netif of
        None \<Rightarrow> s
      | Some n \<Rightarrow> if arp_initialized s then arp_clear_loop n (cache_list s) s else s)"


section \<open>The link layer of Ethernet\<close>

definition ether_link_open :: "nat \<Rightarrow> 'a arp_state_scheme \<Rightarrow> (net_err \<times> 'a arp_state_scheme) option" where
  "ether_link_open n s = Some (NET_ERR_OK, s)"

definition ether_link_close :: "nat \<Rightarrow> 'a arp_state_scheme \<Rightarrow> 'a arp_state_scheme option" where
  "ether_link_close n s = Some (arp_clear (Some n) s)"

definition ether_link_in where
  "ether_link_in call_handler n b s = ether_in call_handler (Some n) (Some b) s"

definition ether_link_out ::
  "(nat \<Rightarrow> 'a arp_state_scheme netif_ops) \<Rightarrow> nat \<Rightarrow> ipaddr option \<Rightarrow> nat \<Rightarrow> 'a arp_state_scheme
   \<Rightarrow> (net_err \<times> 'a arp_state_scheme) option" where
  "ether_link_out ops_of n dest b s = arp_resolve ops_of (Some n) dest (Some b) s"

definition ether_link_layer where
  "ether_link_layer ops_of call_handler =
     \<lparr>ll_type = NETIF_TYPE_ETHER, ll_open = Some ether_link_open, ll_close = Some ether_link_close,
      ll_in = Some (ether_link_in call_handler), ll_out = Some (ether_link_out ops_of)\<rparr>"

end
