(* ===== verification/Arp_Own.thy ===== *)
theory Arp_Own
  imports Link_Own Arp
begin

text \<open>
  The cache of ARP and the packets that wait in it. An entry of the cache holds the references of its packets; the
  invariant \<open>arp_ok\<close> adds them to those of the queues. It bounds the cache and the waiting packets, and says that no
  entry of the pool is lost.
\<close>

section \<open>The invariant\<close>

definition waits_in :: "nat set \<Rightarrow> 'a arp_state_scheme \<Rightarrow> nat multiset" where
  "waits_in E s = (\<Sum>e\<in>E. mset (ae_buf_list (cache_entries s e)))"

abbreviation waits :: "'a arp_state_scheme \<Rightarrow> nat multiset" where
  "waits s \<equiv> waits_in (set (cache_list s)) s"

definition entry_ok :: "nat set \<Rightarrow> arp_entry \<Rightarrow> bool" where
  "entry_ok N x \<longleftrightarrow> length (ae_buf_list x) \<le> ARP_MAX_PKT_WAIT \<and> ae_state x \<noteq> NET_ARP_FREE \<and>
     (\<exists>n\<in>N. ae_netif x = Some n) \<and> length (ae_haddr x) = ETH_HWA_SIZE"

definition arp_wf :: "nat set \<Rightarrow> 'a arp_state_scheme \<Rightarrow> bool" where
  "arp_wf N s \<longleftrightarrow> mset (cache_list s @ cache_blocks s) = mset [0..<ARP_CACHE_SIZE] \<and>
     (\<forall>e\<in>set (cache_list s). entry_ok N (cache_entries s e)) \<and> hw_ok N s"

definition arp_ok :: "nat set \<Rightarrow> nat set \<Rightarrow> nat multiset \<times> 'a arp_state_scheme \<Rightarrow> nat multiset \<Rightarrow> 'a arp_state_scheme \<Rightarrow> bool" where
  "arp_ok Q N s0 H s \<longleftrightarrow> arp_wf N s \<and> keep Q N s0 (H + waits s) s"

text \<open>What is above the timers has changed in the cache only.\<close>

definition cache_only :: "'a arp_state_scheme \<Rightarrow> 'a arp_state_scheme \<Rightarrow> bool" where
  "cache_only s s' \<longleftrightarrow> same_above (s\<lparr>cache_blocks := cache_blocks s', cache_list := cache_list s',
     cache_entries := cache_entries s'\<rparr>) s'"

lemma cache_onlyD:
  assumes "cache_only s s'"
  shows "netifs s' = netifs s" "netif_list s' = netif_list s" "netif_default s' = netif_default s"
    "link_layers s' = link_layers s" "ether_handlers s' = ether_handlers s" "arp_initialized s' = arp_initialized s"
    "arp_state.more s' = arp_state.more s" "hw_ok N s' = hw_ok N s"
  using assms unfolding cache_only_def hw_ok_def upper_def by (cases s; cases s'; simp)+

lemma cache_only_queue: "cache_only s s' \<Longrightarrow> 2 \<le> q mod 4 \<Longrightarrow> fixqs s' q = fixqs s q"
  using same_above_queue unfolding cache_only_def by fastforce

lemma cache_only_trans: "cache_only s s1 \<Longrightarrow> cache_only s1 s2 \<Longrightarrow> cache_only s s2"
  unfolding cache_only_def upper_def by (cases s; cases s1; cases s2; simp)

lemma cache_only_refl [simp]: "cache_only s s"
  by (simp add: cache_only_def)

lemma same_cache:
  fixes s s' :: "'a arp_state_scheme"
  assumes "same_above s s'"
  shows "cache_list s' = cache_list s" "cache_blocks s' = cache_blocks s" "cache_entries s' = cache_entries s"
    "waits_in E s' = waits_in E s" "arp_wf N s' = arp_wf N s" "cache_only s s'"
proof -
  show c: "cache_list s' = cache_list s" "cache_blocks s' = cache_blocks s" "cache_entries s' = cache_entries s"
    using assms unfolding upper_def by (cases s; cases s'; simp)+
  with same_netif(1) [OF assms] show "waits_in E s' = waits_in E s" "arp_wf N s' = arp_wf N s"
    by (simp_all add: waits_in_def arp_wf_def hw_ok_def)
  from assms c show "cache_only s s'" by (simp add: cache_only_def upper_def)
qed

lemma cache_only_upd [simp]:
  "cache_only s (upd_entry e f s)" "cache_only s (s\<lparr>cache_list := l\<rparr>)" "cache_only s (s\<lparr>cache_blocks := l\<rparr>)"
  by (simp_all add: cache_only_def upper_def upd_entry_def)

lemma cache_only_free [simp]: "cache_only s (pktbuf_free b s') \<longleftrightarrow> cache_only s s'"
  using same_cache(1-3) [OF pktbuf_free_frame(1) [where s = s' and b = b]] by (simp add: cache_only_def)

lemma arp_set_entry_list: "cache_list (arp_set_entry e netif ip mac st s) = cache_list s"
  by (simp add: arp_set_entry_def upd_entry_def)

lemma keep_upd_cache [simp]:
  "keep Q N s0 H (upd_entry e f s) \<longleftrightarrow> keep Q N s0 H s" "keep Q N s0 H (s\<lparr>cache_list := l\<rparr>) \<longleftrightarrow> keep Q N s0 H s"
  "keep Q N s0 H (s\<lparr>cache_blocks := l\<rparr>) \<longleftrightarrow> keep Q N s0 H s"
  by (rule keep_low; simp add: upd_entry_def)+

lemma upd_entry_fields [simp]:
  "cache_list (upd_entry e f s) = cache_list s" "cache_blocks (upd_entry e f s) = cache_blocks s"
  "cache_entries (upd_entry e f s) = (cache_entries s)(e := f (cache_entries s e))"
  "hw_ok N (upd_entry e f s) = hw_ok N s"
  by (simp_all add: upd_entry_def hw_ok_def)

lemma waits_remove:
  "finite E \<Longrightarrow> e \<in> E \<Longrightarrow> waits_in E s = mset (ae_buf_list (cache_entries s e)) + waits_in (E - {e}) s"
  by (simp add: waits_in_def sum.remove)

lemma waits_upd_other [simp]: "e \<notin> E \<Longrightarrow> waits_in E (upd_entry e f s) = waits_in E s"
  unfolding waits_in_def by (rule sum.cong) auto

lemma waits_cache_upd [simp]:
  "waits_in E (s\<lparr>cache_list := l\<rparr>) = waits_in E s" "waits_in E (s\<lparr>cache_blocks := l\<rparr>) = waits_in E s"
  by (simp_all add: waits_in_def)

lemma waits_upd:
  "finite E \<Longrightarrow> e \<in> E \<Longrightarrow> waits_in E (upd_entry e f s) = mset (ae_buf_list (f (cache_entries s e))) + waits_in (E - {e}) s"
  by (simp add: waits_remove)


section \<open>Operations on the cache\<close>

lemma cache_perm:
  assumes "mset (cache_list s @ cache_blocks s) = mset [0..<ARP_CACHE_SIZE]"
  shows "distinct (cache_list s @ cache_blocks s)"
  using assms by (metis distinct_upt mset_eq_imp_distinct_iff)

lemma arp_okD:
  assumes "arp_ok Q N s0 H s"
  shows "arp_wf N s" "keep Q N s0 (H + waits s) s" "distinct (cache_list s)"
    "mset (cache_list s @ cache_blocks s) = mset [0..<ARP_CACHE_SIZE]" "hw_ok N s"
    "\<And>e. e \<in> set (cache_list s) \<Longrightarrow> entry_ok N (cache_entries s e)"
  using assms cache_perm [of s] by (auto simp: arp_ok_def arp_wf_def)

lemma keep_free_bufs:
  "keep Q N s0 (mset bs + H) s \<Longrightarrow> keep Q N s0 H (free_bufs bs s) \<and> same_above s (free_bufs bs s)"
proof (induction bs arbitrary: s)
  case (Cons b bs)
  then have "keep Q N s0 (add_mset b (mset bs + H)) s" by simp
  from keep_free [OF this] Cons.IH [of "pktbuf_free (Some b) s"] show ?case by simp
qed simp

lemma keep_free_waiting:
  assumes "keep Q N s0 (mset (ae_buf_list (cache_entries s e)) + H) s"
  shows "keep Q N s0 H (arp_free_waiting e s)"
    and "same_above (upd_entry e (\<lambda>x. x\<lparr>ae_buf_list := []\<rparr>) s) (arp_free_waiting e s)"
  using keep_free_bufs [of Q N s0 "ae_buf_list (cache_entries s e)" H "upd_entry e (\<lambda>x. x\<lparr>ae_buf_list := []\<rparr>) s"] assms
  unfolding arp_free_waiting_def by simp_all

lemma arp_ok_same:
  assumes "arp_ok Q N s0 H s" and "same_above s s'" and "keep Q N s0 (H' + waits s) s'"
  shows "arp_ok Q N s0 H' s'"
  using assms same_cache [OF assms(2)] by (simp add: arp_ok_def)

lemma arp_find_entry_ok:
  assumes "arp_ok Q N s0 H s" and "arp_find_entry netif ip s = (r, s')"
  shows "arp_ok Q N s0 H s'" and "cache_only s s'" and "cache_entries s' = cache_entries s"
    and "set (cache_list s') = set (cache_list s)" and "pktbufs s' = pktbufs s"
    and "r = Some e \<Longrightarrow> e \<in> set (cache_list s') \<and> ae_netif (cache_entries s e) = netif"
    and "r = None \<Longrightarrow> s' = s"
proof -
  let ?P = "\<lambda>e. ae_netif (cache_entries s e) = netif \<and> ipaddr_is_equal (Some (ae_paddr (cache_entries s e))) ip"
  have "arp_ok Q N s0 H s' \<and> cache_only s s' \<and> cache_entries s' = cache_entries s \<and>
    set (cache_list s') = set (cache_list s) \<and> pktbufs s' = pktbufs s \<and>
    (\<forall>e. r = Some e \<longrightarrow> e \<in> set (cache_list s') \<and> ae_netif (cache_entries s e) = netif) \<and> (r = None \<longrightarrow> s' = s)"
  proof (cases "find ?P (cache_list s)")
    case None
    with assms show ?thesis by (simp add: arp_find_entry_def)
  next
    case (Some e)
    then have e: "e \<in> set (cache_list s)" "?P e" by (auto simp: find_Some_iff)
    from assms(2) Some have r: "r = Some e" and s': "s' = s\<lparr>cache_list := e # remove1 e (cache_list s)\<rparr>"
      by (simp_all add: arp_find_entry_def)
    have st: "set (e # remove1 e (cache_list s)) = set (cache_list s)"
      using e(1) arp_okD(3) [OF assms(1)] by auto
    have "mset (cache_list s' @ cache_blocks s') = mset (cache_list s @ cache_blocks s)" using e(1) by (simp add: s')
    moreover have "cache_entries s' = cache_entries s" "set (cache_list s') = set (cache_list s)" "hw_ok N s' = hw_ok N s"
      using st by (simp_all add: s' hw_ok_def)
    ultimately have "arp_wf N s'"
      using arp_okD(1) [OF assms(1)] unfolding arp_wf_def by metis
    with assms(1) e st show ?thesis
      unfolding arp_ok_def r s' by simp
  qed
  then show "arp_ok Q N s0 H s'" "cache_only s s'" "cache_entries s' = cache_entries s"
    "set (cache_list s') = set (cache_list s)" "pktbufs s' = pktbufs s"
    "r = Some e \<Longrightarrow> e \<in> set (cache_list s') \<and> ae_netif (cache_entries s e) = netif" "r = None \<Longrightarrow> s' = s"
    by blast+
qed

text \<open>The entry \<open>e\<close> has been taken out: it is neither free nor in the cache.\<close>

definition taken_out :: "nat set \<Rightarrow> nat set \<Rightarrow> nat multiset \<times> 'a arp_state_scheme \<Rightarrow> nat multiset \<Rightarrow> nat \<Rightarrow> 'a arp_state_scheme \<Rightarrow> bool" where
  "taken_out Q N s0 H e s \<longleftrightarrow> keep Q N s0 (H + waits s) s \<and> e \<notin> set (cache_list s) \<and> hw_ok N s \<and>
     mset (e # cache_list s @ cache_blocks s) = mset [0..<ARP_CACHE_SIZE] \<and>
     (\<forall>e\<in>set (cache_list s). entry_ok N (cache_entries s e))"

lemma arp_alloc_entry_ok:
  assumes "arp_ok Q N s0 H s" and "arp_alloc_entry force s = (r, s')"
  shows "cache_only s s'" and "r = None \<Longrightarrow> s' = s \<and> cache_blocks s = [] \<and> (force \<longrightarrow> cache_list s = [])"
    and "r = Some e \<Longrightarrow> taken_out Q N s0 H e s' \<and> cache_entries s' e = arp_entry_zero"
proof -
  note ok = arp_okD [OF assms(1)]
  consider (free) e free where "cache_blocks s = e # free"
    | (evict) "cache_blocks s = []" "force" "cache_list s \<noteq> []" | (none) "cache_blocks s = []" "\<not> force \<or> cache_list s = []"
    by (cases "cache_blocks s") auto
  then have "cache_only s s' \<and> (r = None \<longrightarrow> s' = s \<and> cache_blocks s = [] \<and> (force \<longrightarrow> cache_list s = [])) \<and>
    (\<forall>e. r = Some e \<longrightarrow> taken_out Q N s0 H e s' \<and> cache_entries s' e = arp_entry_zero)"
  proof cases
    case (free e free)
    with assms(2) have r: "r = Some e" and s': "s' = upd_entry e (\<lambda>_. arp_entry_zero) (s\<lparr>cache_blocks := free\<rparr>)"
      by (simp_all add: arp_alloc_entry_def Let_def)
    have "e \<notin> set (cache_list s)" using cache_perm [OF ok(4)] free by auto
    moreover have "cache_only s s'" unfolding s' by (rule cache_only_trans [OF cache_only_upd(3) cache_only_upd(1)])
    moreover have "mset (e # cache_list s @ free) = mset [0..<ARP_CACHE_SIZE]" using ok(4) free by simp
    moreover have "hw_ok N s'" using calculation(2) ok(5) cache_onlyD(8) by blast
    ultimately show ?thesis
      using ok(2,6) unfolding taken_out_def r s' by auto
  next
    case evict
    define e where "e = last (cache_list s)"
    define s1 where "s1 = s\<lparr>cache_list := butlast (cache_list s)\<rparr>"
    have l: "cache_list s = butlast (cache_list s) @ [e]" using evict by (simp add: e_def)
    then have e: "e \<notin> set (butlast (cache_list s))" "set (cache_list s) = insert e (set (butlast (cache_list s)))"
      using ok(3) by (metis distinct_append list.set_intros(1) disjoint_iff, metis l set_append list.set Un_insert_right sup_bot_right)
    have "keep Q N s0 (mset (ae_buf_list (cache_entries s1 e)) + (H + waits s1)) s1"
      using ok(2) e by (simp add: s1_def waits_remove [of "insert e _" e] ac_simps)
    note f = keep_free_waiting [OF this]
    note c = same_cache [OF f(2)]
    from assms(2) evict have r: "r = Some e" and s': "s' = upd_entry e (\<lambda>_. arp_entry_zero) (arp_free_waiting e s1)"
      by (simp_all add: arp_alloc_entry_def Let_def e_def s1_def)
    have "cache_only s s1" "cache_only s1 (upd_entry e (\<lambda>x. x\<lparr>ae_buf_list := []\<rparr>) s1)" by (simp_all add: s1_def)
    then have "cache_only s (arp_free_waiting e s1)"
      using c(6) cache_only_trans by blast
    then have "cache_only s s'" unfolding s' using cache_only_trans cache_only_upd(1) by blast
    moreover have "mset (e # butlast (cache_list s) @ cache_blocks s) = mset [0..<ARP_CACHE_SIZE]"
      using ok(4) by (subst (asm) l) simp
    moreover have "hw_ok N s'" using \<open>cache_only s s'\<close> ok(5) cache_onlyD(8) by blast
    moreover have "cache_list s' = butlast (cache_list s)" "cache_blocks s' = cache_blocks s"
      "waits s' = waits s1" "cache_entries s' e = arp_entry_zero"
      using c e(1) by (simp_all add: s' s1_def)
    moreover have "\<forall>x\<in>set (cache_list s'). entry_ok N (cache_entries s' x)"
      using ok(6) e c by (auto simp: s' s1_def)
    moreover have "keep Q N s0 (H + waits s1) s'" using f(1) by (simp add: s')
    ultimately show ?thesis
      using e(1) unfolding taken_out_def r by simp
  next
    case none
    with assms(2) show ?thesis by (auto simp: arp_alloc_entry_def Let_def)
  qed
  then show "cache_only s s'" "r = None \<Longrightarrow> s' = s \<and> cache_blocks s = [] \<and> (force \<longrightarrow> cache_list s = [])"
    "r = Some e \<Longrightarrow> taken_out Q N s0 H e s' \<and> cache_entries s' e = arp_entry_zero" by blast+
qed

lemma put_entry_ok:
  assumes "taken_out Q N s0 (mset (ae_buf_list x) + H) e s" and "entry_ok N x" and "cache_list s' = e # cache_list s"
    and "cache_blocks s' = cache_blocks s" and "cache_entries s' = (cache_entries s)(e := x)"
    and "\<And>K. keep Q N s0 K s' = keep Q N s0 K s" and "hw_ok N s'"
  shows "arp_ok Q N s0 H s'"
proof -
  from assms(1) have e: "e \<notin> set (cache_list s)" by (simp add: taken_out_def)
  then have "waits s' = mset (ae_buf_list x) + waits s"
    using assms(3,5) by (auto simp: waits_in_def intro!: sum.cong)
  with assms e show ?thesis
    by (auto simp: arp_ok_def arp_wf_def taken_out_def ac_simps)
qed

lemma arp_free_entry_ok:
  assumes "arp_ok Q N s0 H s" and "e \<in> set (cache_list s)"
  shows "arp_ok Q N s0 H (arp_free_entry (Some e) s)" and "cache_only s (arp_free_entry (Some e) s)"
    and "set (cache_list (arp_free_entry (Some e) s)) = set (cache_list s) - {e}"
    and "\<And>x. x \<noteq> e \<Longrightarrow> cache_entries (arp_free_entry (Some e) s) x = cache_entries s x"
proof -
  note ok = arp_okD [OF assms(1)]
  have "keep Q N s0 (mset (ae_buf_list (cache_entries s e)) + (H + waits_in (set (cache_list s) - {e}) s)) s"
    using ok(2) assms(2) by (simp add: waits_remove [of _ e] ac_simps)
  note f = keep_free_waiting [OF this]
  note c = same_cache [OF f(2)]
  define s1 where "s1 = arp_free_waiting e s"
  have st: "ae_state (cache_entries s1 e) \<noteq> NET_ARP_FREE"
    using ok(6) [OF assms(2)] c(3) by (simp add: s1_def entry_ok_def)
  let ?s = "arp_free_entry (Some e) s"
  have eq: "?s = (upd_entry e (\<lambda>x. x\<lparr>ae_state := NET_ARP_FREE\<rparr>) (s1\<lparr>cache_list := remove1 e (cache_list s1)\<rparr>))
      \<lparr>cache_blocks := cache_blocks s1 @ [e]\<rparr>"
    using st by (simp add: arp_free_entry_def Let_def s1_def)
  have cl: "cache_list ?s = remove1 e (cache_list s)" "cache_blocks ?s = cache_blocks s @ [e]"
    using c(1,2) unfolding eq by (simp_all add: s1_def)
  show set: "set (cache_list ?s) = set (cache_list s) - {e}" using ok(3) unfolding cl by simp
  have o1: "cache_only s s1"
    unfolding s1_def using c(6) cache_only_trans cache_only_upd(1) by blast
  show o: "cache_only s ?s"
    unfolding eq by (rule cache_only_trans [OF cache_only_trans [OF cache_only_trans [OF o1 cache_only_upd(2)]
      cache_only_upd(1)] cache_only_upd(3)])
  have "mset (cache_list ?s @ cache_blocks ?s) = mset (cache_list s @ cache_blocks s)"
    using assms(2) unfolding cl by simp
  moreover show ent: "cache_entries ?s x = cache_entries s x" if "x \<noteq> e" for x
    using that c(3) unfolding eq by (simp add: s1_def)
  moreover have "hw_ok N ?s" using o ok(5) cache_onlyD(8) by blast
  ultimately have "arp_wf N ?s"
    using ok(4,6) set unfolding arp_wf_def by simp
  moreover have "waits ?s = waits_in (set (cache_list s) - {e}) s"
    unfolding waits_in_def set using ent by (intro sum.cong) auto
  moreover have "keep Q N s0 (H + waits_in (set (cache_list s) - {e}) s) ?s"
    using f(1) unfolding eq by (simp add: s1_def)
  ultimately show "arp_ok Q N s0 H ?s" by (simp add: arp_ok_def)
qed


lemma arp_ok_upd:
  assumes "arp_ok Q N s0 H s" and "e \<in> set (cache_list s)" and "entry_ok N (f (cache_entries s e))"
    and "mset (ae_buf_list (f (cache_entries s e))) + H' = mset (ae_buf_list (cache_entries s e)) + H"
  shows "arp_ok Q N s0 H' (upd_entry e f s)"
proof -
  note ok = arp_okD [OF assms(1)]
  have "arp_wf N (upd_entry e f s)" using ok(1) assms(2,3) by (auto simp: arp_wf_def)
  moreover have "H' + waits (upd_entry e f s) = H + waits s"
    using assms(2,4) waits_remove [OF _ assms(2), of s] waits_upd [OF _ assms(2), of f s]
    by (simp add: union_assoc [symmetric] add.commute)
  ultimately show ?thesis using ok(2) by (simp add: arp_ok_def)
qed

lemma arp_ok_free_waiting:
  assumes "arp_ok Q N s0 H s" and "e \<in> set (cache_list s)"
  shows "arp_ok Q N s0 H (arp_free_waiting e s)" and "cache_only s (arp_free_waiting e s)"
    and "cache_list (arp_free_waiting e s) = cache_list s"
proof -
  note ok = arp_okD [OF assms(1)]
  let ?s1 = "upd_entry e (\<lambda>x. x\<lparr>ae_buf_list := []\<rparr>) s"
  have "keep Q N s0 (mset (ae_buf_list (cache_entries s e)) + (H + waits_in (set (cache_list s) - {e}) s)) s"
    using ok(2) assms(2) by (simp add: waits_remove [of _ e] ac_simps)
  note f = keep_free_waiting [OF this]
  note c = same_cache [OF f(2)]
  from c(1) show "cache_list (arp_free_waiting e s) = cache_list s" by simp
  from c(6) show "cache_only s (arp_free_waiting e s)" using cache_only_trans cache_only_upd(1) by blast
  have "arp_wf N ?s1" using ok(1) assms(2) by (auto simp: arp_wf_def entry_ok_def)
  with f(1) c assms(2) show "arp_ok Q N s0 H (arp_free_waiting e s)"
    by (simp add: arp_ok_def waits_upd)
qed


text \<open>The contract of an input handler in terms of the cache.\<close>

definition arp_handled ::
  "nat set \<Rightarrow> nat set \<Rightarrow> nat multiset \<times> 'a arp_state_scheme \<Rightarrow> nat multiset \<Rightarrow> nat \<Rightarrow> net_err \<Rightarrow> 'a arp_state_scheme \<Rightarrow> bool" where
  "arp_handled Q N s0 H b e s \<longleftrightarrow> arp_wf N s \<and> handled Q N s0 (H + waits s) b e s"

lemma arp_handled_err: "arp_ok Q N s0 (add_mset b H) s \<Longrightarrow> e \<noteq> NET_ERR_OK \<Longrightarrow> arp_handled Q N s0 H b e s"
  using keep_handled [of Q N s0 b "H + waits s" s] by (simp add: arp_handled_def arp_ok_def)

lemma arp_handled_ok: "arp_handled Q N s0 H b NET_ERR_OK s \<longleftrightarrow> arp_ok Q N s0 H s"
  by (simp add: arp_handled_def arp_ok_def handled_def)

lemma arp_handled_same:
  "arp_wf N s \<Longrightarrow> same_above s s' \<Longrightarrow> handled Q N s0 (H + waits s) b e s' \<Longrightarrow> arp_handled Q N s0 H b e s'"
  using same_cache [of s s'] by (simp add: arp_handled_def)

lemma arp_work:
  assumes "arp_ok Q N s0 H s" and "work Q N s0 (H + waits s) b s s'"
  shows "arp_ok Q N s0 H s'" "same_above s s'"
proof -
  show sa: "same_above s s'" by (rule buf_onlyD(1) [OF workD(3) [OF assms(2)]])
  show "arp_ok Q N s0 H s'" by (rule arp_ok_same [OF assms(1) sa workD(1) [OF assms(2)]])
qed

lemma arp_retain:
  "arp_ok Q N s0 (add_mset b H) s \<Longrightarrow> arp_ok Q N (add_mset b (fst s0), s) H s"
  using keep_retain [of Q N s0 b "H + waits s" s] by (simp add: arp_ok_def)

lemma arp_release:
  assumes "arp_ok Q N s0 (add_mset b H) s" and "arp_ok Q N (add_mset b (fst s0), s) H' s'"
  shows "arp_ok Q N s0 (add_mset b H') s'" and "ref (pktbufs s b) = Suc (count (fst s0) b) \<Longrightarrow> pktbufs s' b = pktbufs s b"
  using keep_release [of Q N s0 b "H + waits s" s "H' + waits s'" s'] assms by (simp_all add: arp_ok_def)

lemma arp_free:
  assumes "arp_ok Q N s0 (add_mset b H) s"
  shows "arp_ok Q N s0 H (pktbuf_free (Some b) s)" and "same_above s (pktbuf_free (Some b) s)"
proof -
  have k: "keep Q N s0 (add_mset b (H + waits s)) s" using assms by (simp add: arp_ok_def)
  show "same_above s (pktbuf_free (Some b) s)" by simp
  then show "arp_ok Q N s0 H (pktbuf_free (Some b) s)" by (rule arp_ok_same [OF assms]) (rule keep_free(1) [OF k])
qed


section \<open>Sending and receiving\<close>

locale arp_devices = devices ops_of Q N
  for ops_of :: "nat \<Rightarrow> 'a arp_state_scheme netif_ops" and Q N :: "nat set"
begin

lemma raw_out_after_work:
  assumes "work Q N s0 (add_mset b H) b s1 s" and "\<And>n. netif = Some n \<Longrightarrow> n \<in> N" and "hw_ok N s1" and "dest \<noteq> Some []"
  shows "post (ether_raw_out ops_of netif protocol dest (Some b) s) (\<lambda>(e, s'). keep Q N s0 H s' \<and> same_above s1 s')"
proof -
  have sa: "same_above s1 s" by (rule buf_onlyD(1) [OF workD(3) [OF assms(1)]])
  then have "hw_ok N s" using assms(3) same_netif(1) [OF sa] by (simp add: hw_ok_def)
  from ether_raw_out_consumes [OF workD(1) [OF assms(1)] assms(2) this assms(4)] sa show ?thesis
    by (auto elim: post_mono)
qed

lemma arp_make_request_keeps:
  assumes "keep Q N s0 H s" and "\<And>n. netif = Some n \<Longrightarrow> n \<in> N" and "hw_ok N s"
  shows "post (arp_make_request ops_of netif addr s) (\<lambda>(e, s'). keep Q N s0 H s' \<and> same_above s s')"
proof (cases "\<exists>n a. netif = Some n \<and> addr = Some a")
  case False
  with assms(1) show ?thesis by (auto simp: arp_make_request_def split: option.split)
next
  case True
  then obtain n a where na: "netif = Some n" "addr = Some a" by blast
  obtain r s1 where al: "pktbuf_alloc (int ARP_PKT_SIZE) s = (r, s1)" by (metis surj_pair)
  note k = keep_alloc [OF assms(1) al]
  have hw1: "hw_ok N s1" using assms(3) same_netif(1) [OF k(1)] by (simp add: hw_ok_def)
  show ?thesis
  proof (cases r)
    case None
    with k na al show ?thesis by (simp add: arp_make_request_def)
  next
    case (Some b)
    let ?W = "work Q N s0 (add_mset b H) b s1"
    note put = w_put_any [where Q = Q and N = N and ?s0.0 = s0 and H = "add_mset b H" and b = b and ?s1.0 = s1 and n = ARP_PKT_SIZE]
    from k(3) [OF Some] have w1: "?W s1" by (intro workI) simp_all
    note w2 = w_reset(1) [OF w1] w_reset(3) [OF w1]
    have c: "contiguous ARP_PKT_SIZE (pktbufs s1 b)"
      using al Some by (intro pktbuf_alloc_contiguous) (auto simp: ARP_PKT_SIZE_def PKTBUF_BLK_SIZE_def)
    have data: "pktbuf_data b (reset_acc b s1) \<noteq> None"
      by (rule work_data [OF w2(1), of ARP_PKT_SIZE]) (use w2(2) c in \<open>simp_all add: ARP_PKT_SIZE_def\<close>)
    have hw: "hw_addr (nif_hwaddr (netifs s2 n)) \<noteq> []" if "?W s2" for s2
      using hw1 same_netif(1) [OF buf_onlyD(1) [OF workD(3) [OF that]]] assms(2) na
      by (auto simp: hw_ok_def NETIF_HWADDR_SIZE_def)
    have out: "post (ether_raw_out ops_of (Some n) p d (Some b) s2) (\<lambda>(e, s'). keep Q N s0 H s' \<and> same_above s s')"
      if "?W s2" "d \<noteq> Some []" for p d s2
      using raw_out_after_work [OF that(1) _ hw1 that(2), of "Some n" p] assms(2) na k(1) by (auto elim: post_mono)
    show ?thesis
      unfolding arp_make_request_def na al Some prod.case option.case Let_def if_not_P [OF data] post_bind
      by (intro put out) (use w2 c hw in \<open>simp_all add: ARP_PKT_SIZE_def ETH_HWA_SIZE_def le16_bytes_def
          empty_hwaddr_def ether_broadcast_addr_def\<close>)
  qed
qed

lemma arp_make_reply_handled:
  assumes "keep Q N s0 (add_mset b H) s" and "n \<in> N" and "hw_ok N s"
  shows "post (arp_make_reply ops_of (Some n) (Some b) s) (\<lambda>(e, s'). handled Q N s0 H b e s' \<and> same_above s s')"
proof -
  let ?W = "work Q N s0 (add_mset b H) b s"
  note put = w_put_any [where Q = Q and N = N and ?s0.0 = s0 and H = "add_mset b H" and b = b and ?s1.0 = s and n = ARP_PKT_SIZE]
    and get = w_get [where Q = Q and N = N and ?s0.0 = s0 and H = "add_mset b H" and b = b and ?s1.0 = s and n = ARP_PKT_SIZE]
  have w: "?W s" using assms(1) by (intro workI) simp_all
  have err: "handled Q N s0 H b e s' \<and> same_above s s'" if "?W s'" "e \<noteq> NET_ERR_OK" for e s'
    using keep_handled [OF workD(1) [OF that(1)] that(2)] buf_onlyD(1) [OF workD(3) [OF that(1)]] by simp
  have hw: "hw_addr (nif_hwaddr (netifs s2 n)) \<noteq> []" if "?W s2" for s2
    using assms(2,3) same_netif(1) [OF buf_onlyD(1) [OF workD(3) [OF that]]] by (auto simp: hw_ok_def NETIF_HWADDR_SIZE_def)
  have out: "post (ether_raw_out ops_of (Some n) p d (Some b) (pktbuf_inc_ref (Some b) s2)) (\<lambda>x. post (case x of (err, s) \<Rightarrow>
      Some (err, if is_err err then s else pktbuf_free (Some b) s)) (\<lambda>(e, s'). handled Q N s0 H b e s' \<and> same_above s s'))"
    if "?W s2" "d \<noteq> Some []" for p d s2
  proof -
    note k = workD(1) [OF that(1)] and sa = buf_onlyD(1) [OF workD(3) [OF that(1)]]
    note i = keep_inc_ref [OF k]
    have "hw_ok N (pktbuf_inc_ref (Some b) s2)"
      using assms(3) same_netif(1) [OF i(2)] same_netif(1) [OF sa] by (simp add: hw_ok_def)
    from ether_raw_out_consumes [OF i(1) _ this that(2), of "Some n" p] assms(2) inc_out_handled [OF k] sa i(2) show ?thesis
      by (auto elim!: post_mono)
  qed
  show ?thesis
    unfolding arp_make_reply_def prod.case option.case Let_def post_bind
  proof (rule w_set_cont [OF w], goal_cases)
    case (1 e s1)
    show ?case
    proof (cases "e \<noteq> NET_ERR_OK \<or> pktbuf_data b s1 = None")
      case True
      with err [OF 1(1), of NET_ERR_SIZE] show ?thesis by simp
    next
      case False
      with 1 have c: "contiguous ARP_PKT_SIZE (pktbufs s1 b)" and l: "28 \<le> length (buf_bytes (pktbufs s1 b))"
        using contiguous_le [OF work_wf(1) [OF 1(1)]] work_wf(2) [OF 1(1)] by (simp_all add: ARP_PKT_SIZE_def)
      show ?thesis
        unfolding prod.case if_not_P [OF False] post_bind
        by (intro put out get) (use 1(1) c l hw in \<open>simp_all add: ARP_PKT_SIZE_def ETH_HWA_SIZE_def IPV4_ADDR_SIZE_def get_at_def\<close>)
    qed
  qed
qed

lemma arp_send_waiting_ok:
  assumes "arp_ok Q N s0 H s" and "e \<in> set (cache_list s)"
  shows "post (arp_send_waiting ops_of e s) (\<lambda>(err, s'). arp_ok Q N s0 H s' \<and> cache_only s s' \<and> cache_list s' = cache_list s)"
  using assms
proof (induction "length (ae_buf_list (cache_entries s e))" arbitrary: s rule: less_induct)
  case less
  note ok = arp_okD [OF less.prems(1)]
  note ent = ok(6) [OF less.prems(2)]
  show ?case
  proof (cases "ae_buf_list (cache_entries s e)")
    case Nil
    with less.prems show ?thesis by (simp add: arp_send_waiting.simps)
  next
    case (Cons b bs)
    define s1 where "s1 = upd_entry e (\<lambda>x. x\<lparr>ae_buf_list := bs\<rparr>) s"
    have ok1: "arp_ok Q N s0 (add_mset b H) s1"
      unfolding s1_def using Cons ent by (intro arp_ok_upd [OF less.prems]) (auto simp: entry_ok_def)
    have s1: "cache_list s1 = cache_list s" "ae_buf_list (cache_entries s1 e) = bs" "cache_only s s1"
      by (simp_all add: s1_def)
    from arp_okD(2) [OF ok1] have k1: "keep Q N s0 (add_mset b (H + waits s1)) s1" by simp
    note e1 = arp_okD(6) [OF ok1, of e, unfolded s1(1), OF less.prems(2)]
    have d: "Some (ae_haddr (cache_entries s1 e)) \<noteq> Some []" using e1 by (auto simp: entry_ok_def ETH_HWA_SIZE_def)
    have nif: "n \<in> N" if "ae_netif (cache_entries s1 e) = Some n" for n using e1 that by (auto simp: entry_ok_def)
    have eq: "arp_send_waiting ops_of e s = do {
        (err, s) \<leftarrow> ether_raw_out ops_of (ae_netif (cache_entries s1 e)) NET_PROTOCOL_IPV4 (Some (ae_haddr (cache_entries s1 e))) (Some b) s1;
        if is_err err then Some (err, arp_free_waiting e s) else arp_send_waiting ops_of e s
      }"
      using Cons by (subst arp_send_waiting.simps) (simp add: s1_def Let_def)
    show ?thesis
      unfolding eq post_bind
    proof (rule post_pair [OF ether_raw_out_consumes [OF k1 nif arp_okD(5) [OF ok1] d]], goal_cases)
      case (2 err s2)
      then have ok2: "arp_ok Q N s0 H s2" and sa: "same_above s1 s2"
        using arp_ok_same [OF ok1, of s2 H] by simp_all
      note c2 = same_cache [OF sa]
      have m: "e \<in> set (cache_list s2)" using less.prems(2) c2(1) s1(1) by simp
      have o: "cache_only s s2" by (rule cache_only_trans [OF s1(3) c2(6)])
      have "length (ae_buf_list (cache_entries s2 e)) < length (ae_buf_list (cache_entries s e))"
        using Cons s1(2) c2(3) by simp
      note IH = less.hyps [OF this ok2 m]
      from IH arp_ok_free_waiting [OF ok2 m] o c2(1) s1(1) show ?case
        by (auto elim!: post_mono intro: cache_only_trans)
    qed
  qed
qed

lemma arp_cache_insert_ok:
  assumes "arp_ok Q N s0 H s" and "n \<in> N" and "ETH_HWA_SIZE \<le> length mac"
  shows "post (arp_cache_insert ops_of (Some n) ip mac force s) (\<lambda>(err, s'). arp_ok Q N s0 H s' \<and> cache_only s s')"
proof -
  let ?set = "\<lambda>e. arp_set_entry e (Some n) ip mac NET_ARP_RESOLVED"
  have ent: "entry_ok N (cache_entries (?set e s) e)"
    if "length (ae_buf_list (cache_entries s e)) \<le> ARP_MAX_PKT_WAIT" for e and s :: "'a arp_state_scheme"
    using that assms(2,3) by (simp add: arp_set_entry_def entry_ok_def)
  obtain r s1 where f: "arp_find_entry (Some n) (Some (ipaddr_from_buf ip)) s = (r, s1)" by (metis surj_pair)
  note f1 = arp_find_entry_ok [OF assms(1) f]
  show ?thesis
  proof (cases r)
    case (Some e)
    with f1(6) have e: "e \<in> set (cache_list s1)" by blast
    have "arp_ok Q N s0 H (?set e s1)"
      using ent [of s1 e] arp_okD(6) [OF f1(1) e] unfolding arp_set_entry_def
      by (intro arp_ok_upd [OF f1(1) e]) (auto simp: entry_ok_def)
    moreover have "e \<in> set (cache_list (?set e s1))" "cache_only s (?set e s1)"
      using e cache_only_trans [OF f1(2) cache_only_upd(1)] by (simp_all add: arp_set_entry_def)
    ultimately show ?thesis
      using arp_send_waiting_ok [of s0 H "?set e s1" e] f Some
      by (auto simp: arp_cache_insert_def elim!: post_mono intro: cache_only_trans)
  next
    case None
    obtain r2 s2 where a: "arp_alloc_entry force s1 = (r2, s2)" by (metis surj_pair)
    note a2 = arp_alloc_entry_ok [OF f1(1) a]
    show ?thesis
    proof (cases r2)
      case r2: None
      with a a2(2) f None f1 show ?thesis by (simp add: arp_cache_insert_def)
    next
      case (Some e)
      define s3 where "s3 = (?set e s2)\<lparr>cache_list := e # cache_list (?set e s2)\<rparr>"
      from a2(3) [OF Some] have t: "taken_out Q N s0 H e s2" "cache_entries s2 e = arp_entry_zero" by simp_all
      have o: "cache_only s s3" unfolding s3_def arp_set_entry_def
        by (rule cache_only_trans [OF cache_only_trans [OF cache_only_trans [OF f1(2) a2(1)] cache_only_upd(1)] cache_only_upd(2)])
      have ok3: "arp_ok Q N s0 H s3"
      proof (rule put_entry_ok [of Q N s0 "cache_entries (?set e s2) e" H e s2])
        show "hw_ok N s3" using cache_onlyD(8) [OF o] arp_okD(5) [OF assms(1)] by simp
        show "entry_ok N (cache_entries (?set e s2) e)" using t(2) by (intro ent) (simp add: arp_entry_zero_def)
        show "taken_out Q N s0 (mset (ae_buf_list (cache_entries (?set e s2) e)) + H) e s2"
          using t by (simp add: arp_set_entry_def arp_entry_zero_def)
      qed (simp_all add: s3_def arp_set_entry_def)
      have "e \<in> set (cache_list s3)" by (simp add: s3_def)
      from arp_send_waiting_ok [OF ok3 this] o f None a Some show ?thesis
        by (auto simp: arp_cache_insert_def s3_def Let_def elim!: post_mono intro: cache_only_trans)
    qed
  qed
qed

theorem arp_in_handled:
  assumes "arp_ok Q N s0 (add_mset b H) s" and "n \<in> N" and "ref (pktbufs s b) = Suc (count (fst s0) b)"
  shows "post (arp_in ops_of (Some n) (Some b) s) (\<lambda>(e, s'). arp_handled Q N s0 H b e s' \<and> cache_only s s')"
  unfolding arp_in_def prod.case option.case post_bind
proof (rule w_set_cont [OF workI [OF arp_okD(2) [OF assms(1)]], of b], goal_cases)
  case (2 e s1)
  note w1 = arp_work [OF assms(1) 2(1)]
  note same1 = same_cache(6) [OF w1(2)]
  show ?case
  proof (cases "e \<noteq> NET_ERR_OK \<or> pktbuf_data b s1 = None")
    case True
    with arp_handled_err [OF w1(1), of NET_ERR_SIZE] same1 show ?thesis by simp
  next
    case False
    then obtain y where y: "e = NET_ERR_OK" "pktbuf_data b s1 = Some y" by auto
    with 2 have c: "contiguous ARP_PKT_SIZE (pktbufs s1 b)" by simp
    let ?p = "get_at 0 ARP_PKT_SIZE (buf_bytes (pktbufs s1 b))"
    have l: "length ?p = ARP_PKT_SIZE"
      using contiguous_le [OF work_wf(1) [OF 2(1)] c] work_wf(2) [OF 2(1)] by simp
    have g: "pktbuf_get b 0 ARP_PKT_SIZE s1 = Some ?p"
      by (rule keep_get [OF workD(1,2) [OF 2(1)] c]) (simp_all add: ARP_PKT_SIZE_def)
    define op where "op = x_ntohs (le16_at ?p 6)"
    define chk where "chk = arp_packet_check (Some ?p) (pktbuf_total b s1)"
    have mac: "ETH_HWA_SIZE \<le> length (get_at 8 ETH_HWA_SIZE ?p)"
      using l by (simp add: ARP_PKT_SIZE_def ETH_HWA_SIZE_def)
    have ref1: "ref (pktbufs s1 b) = Suc (count (fst s0) b)"
      using assms(3) buf_onlyD(10) [OF workD(3) [OF 2(1)]] by simp
    have "post (arp_cache_insert ops_of (Some n) ip (get_at 8 ETH_HWA_SIZE ?p) force s1) (\<lambda>x. post (case x of (err, s) \<Rightarrow>
        if is_err err then Some (err, s)
        else do {
          target \<leftarrow> pktbuf_get b 24 IPV4_ADDR_SIZE s;
          if op = ARP_REQUEST \<and> ipaddr_is_equal (Some (ipaddr_from_buf target)) (Some (nif_ipaddr (netifs s n)))
          then arp_make_reply ops_of (Some n) (Some b) s
          else Some (NET_ERR_OK, pktbuf_free (Some b) s)
        }) (\<lambda>(e, s'). arp_handled Q N s0 H b e s' \<and> cache_only s s'))" for ip force
    proof (rule post_pair [OF arp_cache_insert_ok [OF arp_retain [OF w1(1)] assms(2) mac]], goal_cases)
      case (1 err s2)
      note r = arp_release [OF w1(1) conjunct1 [OF 1]]
      have o: "cache_only s s2" using 1 cache_only_trans [OF same1] by simp
      have k2: "keep Q N s0 (add_mset b (H + waits s2)) s2" using arp_okD(2) [OF r(1)] by simp
      have get: "pktbuf_get b 24 IPV4_ADDR_SIZE s2 = Some (get_at 24 IPV4_ADDR_SIZE (buf_bytes (pktbufs s2 b)))"
        by (rule keep_get [OF k2 _ c [folded r(2) [OF ref1]]]) (simp_all add: ARP_PKT_SIZE_def IPV4_ADDR_SIZE_def)
      have reply: "post (arp_make_reply ops_of (Some n) (Some b) s2) (\<lambda>(e, s'). arp_handled Q N s0 H b e s' \<and> cache_only s s')"
        by (rule post_pair [OF arp_make_reply_handled [OF k2 assms(2) arp_okD(5) [OF r(1)]]])
          (auto intro: arp_handled_same [OF arp_okD(1) [OF r(1)]] cache_only_trans [OF o] same_cache(6))
      have fr: "arp_handled Q N s0 H b NET_ERR_OK (pktbuf_free (Some b) s2)" "cache_only s (pktbuf_free (Some b) s2)"
        using arp_free [OF r(1)] cache_only_trans [OF o same_cache(6)] by (simp_all add: arp_handled_ok)
      show ?case
        using reply fr arp_handled_err [OF r(1)] o by (simp add: get)
    qed
    then show ?thesis
      using arp_handled_err [OF w1(1), of chk] same1
      by (simp add: y g Let_def op_def [symmetric] chk_def [symmetric])
  qed
qed simp

lemma arp_raw_out:
  assumes "arp_ok Q N s0 (add_mset b H) s" and "\<And>n. netif = Some n \<Longrightarrow> n \<in> N" and "dest \<noteq> Some []"
  shows "post (ether_raw_out ops_of netif p dest (Some b) s) (\<lambda>(e, s'). arp_ok Q N s0 H s' \<and> cache_only s s')"
proof -
  have "keep Q N s0 (add_mset b (H + waits s)) s" using assms(1) by (simp add: arp_ok_def)
  from ether_raw_out_consumes [OF this assms(2) arp_okD(5) [OF assms(1)] assms(3)] show ?thesis
    by (rule post_pair) (auto intro: arp_ok_same [OF assms(1)] same_cache(6))
qed

lemma arp_find_ok:
  assumes "arp_ok Q N s0 H s" and "arp_find (Some n) (Some a) s = (r, s')"
  shows "arp_ok Q N s0 H s' \<and> cache_only s s'"
proof -
  obtain r1 s1 where f: "arp_find_entry (Some n) (Some a) s = (r1, s1)" by (metis surj_pair)
  from arp_find_entry_ok(1,2) [OF assms(1) f] f assms show ?thesis
    by (auto simp: arp_find_def split: if_splits option.splits)
qed

text \<open>A new entry that waits, with its first packet.\<close>

lemma arp_resolve_new:
  fixes ip :: "u8 list" and s :: "'a arp_state_scheme"
  assumes "taken_out Q N s0 (add_mset b H) e s" and "cache_entries s e = arp_entry_zero" and "n \<in> N"
  defines "s1 \<equiv> upd_entry e (\<lambda>x. x\<lparr>ae_buf_list := ae_buf_list x @ [b]\<rparr>)
    ((arp_set_entry e (Some n) ip empty_hwaddr NET_ARP_WAITING s)\<lparr>cache_list := e # cache_list s\<rparr>)"
  shows "post (arp_make_request ops_of (Some n) addr s1 \<bind>
      (\<lambda>(err, s). Some (if is_err err then (err, arp_free_entry (Some e) s) else (NET_ERR_OK, s))))
    (\<lambda>(err, s'). arp_ok Q N s0 H s' \<and> cache_only s s')"
proof -
  have o1: "cache_only s s1" unfolding s1_def arp_set_entry_def
    by (rule cache_only_trans [OF cache_only_trans [OF cache_only_upd(1) cache_only_upd(2)] cache_only_upd(1)])
  have ok1: "arp_ok Q N s0 H s1"
  proof (rule put_entry_ok [of Q N s0 "cache_entries s1 e" H e s])
    show "hw_ok N s1" using cache_onlyD(8) [OF o1] assms(1) by (simp add: taken_out_def)
    show "entry_ok N (cache_entries s1 e)"
      using assms(2,3) by (simp add: s1_def arp_set_entry_def entry_ok_def arp_entry_zero_def ARP_MAX_PKT_WAIT_def empty_hwaddr_def)
    show "taken_out Q N s0 (mset (ae_buf_list (cache_entries s1 e)) + H) e s"
      using assms(1,2) by (simp add: s1_def arp_set_entry_def arp_entry_zero_def)
  qed (auto simp: s1_def arp_set_entry_def)
  have e1: "e \<in> set (cache_list s1)" by (simp add: s1_def)
  show ?thesis
    unfolding post_bind
  proof (rule post_pair [OF arp_make_request_keeps [OF arp_okD(2) [OF ok1] _ arp_okD(5) [OF ok1]]], goal_cases)
    case (2 err s2)
    then have ok2: "arp_ok Q N s0 H s2" and sa: "same_above s1 s2"
      using arp_ok_same [OF ok1, of s2 H] by simp_all
    have e2: "e \<in> set (cache_list s2)" and o2: "cache_only s s2"
      using e1 same_cache(1,6) [OF sa] cache_only_trans [OF o1] by auto
    from ok2 o2 arp_free_entry_ok(1,2) [OF ok2 e2] show ?case
      by (auto intro: cache_only_trans)
  qed (use assms(3) in simp)
qed

theorem arp_resolve_consumes:
  assumes "arp_ok Q N s0 (add_mset b H) s" and "n \<in> N"
  shows "post (arp_resolve ops_of (Some n) ip (Some b) s) (\<lambda>(e, s'). arp_ok Q N s0 H s' \<and> cache_only s s')"
proof (cases ip)
  case None
  with arp_free [OF assms(1)] show ?thesis by (simp add: arp_resolve_def same_cache(6))
next
  case (Some a)
  obtain r s1 where f: "arp_find (Some n) (Some a) s = (r, s1)" by (metis surj_pair)
  from arp_find_ok [OF assms(1) f] have ok1: "arp_ok Q N s0 (add_mset b H) s1" and o1: "cache_only s s1" by simp_all
  show ?thesis
  proof (cases "r = Some HwBroadcast")
    case True
    have "post (ether_raw_out ops_of (Some n) NET_PROTOCOL_IPV4 (Some ether_broadcast_addr) (Some b) s1)
        (\<lambda>(e, s'). arp_ok Q N s0 H s' \<and> cache_only s1 s')"
      using assms(2) by (intro arp_raw_out [OF ok1]) (auto simp: ether_broadcast_addr_def)
    with True Some f o1 show ?thesis
      by (auto simp: arp_resolve_def elim!: post_mono intro: cache_only_trans)
  next
    case False
    obtain r2 s2 where g: "arp_find_entry (Some n) (Some a) s1 = (r2, s2)" by (metis surj_pair)
    note f2 = arp_find_entry_ok [OF ok1 g]
    have o2: "cache_only s s2" by (rule cache_only_trans [OF o1 f2(2)])
    have "post (case r2 of
        Some e \<Rightarrow>
          if ae_state (cache_entries s2 e) = NET_ARP_RESOLVED
          then ether_raw_out ops_of (Some n) NET_PROTOCOL_IPV4 (Some (ae_haddr (cache_entries s2 e))) (Some b) s2
          else if length (ae_buf_list (cache_entries s2 e)) \<ge> ARP_MAX_PKT_WAIT
          then Some (NET_ERR_FULL, pktbuf_free (Some b) s2)
          else Some (NET_ERR_OK, upd_entry e (\<lambda>x. x\<lparr>ae_buf_list := ae_buf_list x @ [b]\<rparr>) s2)
      | None \<Rightarrow>
          (case arp_alloc_entry True s2 of
             (None, s) \<Rightarrow> Some (NET_ERR_MEM, pktbuf_free (Some b) s)
           | (Some e, s) \<Rightarrow> do {
               (err, s) \<leftarrow> arp_make_request ops_of (Some n) (Some a) (upd_entry e (\<lambda>x. x\<lparr>ae_buf_list := ae_buf_list x @ [b]\<rparr>)
                 ((arp_set_entry e (Some n) (ipaddr_to_buf a) empty_hwaddr NET_ARP_WAITING s)\<lparr>cache_list := e # cache_list s\<rparr>));
               Some (if is_err err then (err, arp_free_entry (Some e) s) else (NET_ERR_OK, s))
             })) (\<lambda>(e, s'). arp_ok Q N s0 H s' \<and> cache_only s s')"
    proof (cases r2)
      case (Some e)
      with f2(6) have e: "e \<in> set (cache_list s2)" by blast
      note ent = arp_okD(6) [OF f2(1) e]
      have "Some (ae_haddr (cache_entries s2 e)) \<noteq> Some []" using ent by (auto simp: entry_ok_def ETH_HWA_SIZE_def)
      note raw = arp_raw_out [OF f2(1) _ this, of "Some n" NET_PROTOCOL_IPV4]
      have "arp_ok Q N s0 H (upd_entry e (\<lambda>x. x\<lparr>ae_buf_list := ae_buf_list x @ [b]\<rparr>) s2)"
        if "\<not> length (ae_buf_list (cache_entries s2 e)) \<ge> ARP_MAX_PKT_WAIT"
        using that ent by (intro arp_ok_upd [OF f2(1) e]) (auto simp: entry_ok_def)
      with Some raw arp_free [OF f2(1)] o2 assms(2) show ?thesis
        by (auto elim!: post_mono intro: cache_only_trans same_cache(6))
    next
      case None
      obtain r3 s3 where al: "arp_alloc_entry True s2 = (r3, s3)" by (metis surj_pair)
      note a3 = arp_alloc_entry_ok [OF f2(1) al]
      have o3: "cache_only s s3" by (rule cache_only_trans [OF o2 a3(1)])
      show ?thesis
      proof (cases r3)
        case r3: None
        with None al a3(2) f2(1) arp_free [OF f2(1)] o2 show ?thesis
          by (auto intro: cache_only_trans same_cache(6))
      next
        case (Some e)
        with arp_resolve_new [OF _ _ assms(2), where ?s0.0 = s0 and b = b and H = H and e = e and s = s3 and ip = "ipaddr_to_buf a" and addr = "Some a"] a3(3) o3 None al show ?thesis
          by (auto elim!: post_mono intro: cache_only_trans simp del: post_bind)
      qed
    qed
    with False show ?thesis
      unfolding arp_resolve_def Some f g Let_def prod.case option.case arp_set_entry_list
      by (cases r rule: option.exhaust; cases "the r") simp_all
  qed
qed

lemma arp_request_ok:
  assumes "arp_ok Q N s0 H s" and "e \<in> set (cache_list s)"
  shows "post (arp_make_request ops_of (ae_netif (cache_entries s e)) addr s) (\<lambda>(err, s'). arp_ok Q N s0 H s' \<and> same_above s s')"
proof -
  have "n \<in> N" if "ae_netif (cache_entries s e) = Some n" for n
    using arp_okD(6) [OF assms] that by (auto simp: entry_ok_def)
  from arp_make_request_keeps [OF arp_okD(2) [OF assms(1)] this arp_okD(5) [OF assms(1)]] show ?thesis
    by (rule post_pair) (auto intro: arp_ok_same [OF assms(1)])
qed

lemma arp_cache_tmo_loop_ok:
  assumes "arp_ok Q N s0 H s" and "distinct es" and "set es \<subseteq> set (cache_list s)"
  shows "post (arp_cache_tmo_loop ops_of es s) (\<lambda>s'. arp_ok Q N s0 H s' \<and> cache_only s s')"
  using assms
proof (induction es arbitrary: s)
  case (Cons e es)
  have upd: "arp_ok Q N s0 H (upd_entry e f s)"
    if "arp_ok Q N s0 H s" "e \<in> set (cache_list s)" "\<And>x. ae_buf_list (f x) = ae_buf_list x"
      "\<And>x. ae_state x \<noteq> NET_ARP_FREE \<Longrightarrow> ae_state (f x) \<noteq> NET_ARP_FREE" "\<And>x. ae_netif (f x) = ae_netif x"
      "\<And>x. ae_haddr (f x) = ae_haddr x" for f s
    using arp_okD(6) [OF that(1,2)] that by (intro arp_ok_upd [OF that(1,2)]) (auto simp: entry_ok_def)
  define s1 where "s1 = upd_entry e (\<lambda>x. x\<lparr>ae_tmo := ae_tmo x - 1\<rparr>) s"
  have e1: "e \<in> set (cache_list s1)" "set es \<subseteq> set (cache_list s1)" "cache_only s s1"
    using Cons.prems(3) by (simp_all add: s1_def)
  have ok1: "arp_ok Q N s0 H s1" unfolding s1_def using Cons.prems by (intro upd) simp_all
  have go: "post (arp_cache_tmo_loop ops_of es s') (\<lambda>s'. arp_ok Q N s0 H s' \<and> cache_only s s')"
    if "arp_ok Q N s0 H s'" "set es \<subseteq> set (cache_list s')" "cache_only s s'" for s'
    using Cons.IH [OF that(1) _ that(2)] Cons.prems(2) that(3) by (auto elim!: post_mono intro: cache_only_trans)
  have req: "post (arp_make_request ops_of (ae_netif (cache_entries s' e)) addr s') (\<lambda>x. post (case x of (_, s) \<Rightarrow>
      arp_cache_tmo_loop ops_of es s) (\<lambda>s'. arp_ok Q N s0 H s' \<and> cache_only s s'))"
    if "arp_ok Q N s0 H s'" "insert e (set es) \<subseteq> set (cache_list s')" "cache_only s s'" for s' addr
  proof (rule post_pair [OF arp_request_ok [OF that(1)]], goal_cases)
    case (2 err s2)
    then have sa: "same_above s' s2" "arp_ok Q N s0 H s2" by simp_all
    from same_cache(1) [OF sa(1)] that(2) cache_only_trans [OF that(3) same_cache(6) [OF sa(1)]] show ?case
      by (auto intro!: go [OF sa(2)])
  qed (use that in simp)
  have fr: "post (arp_cache_tmo_loop ops_of es (arp_free_entry (Some e) s')) (\<lambda>s'. arp_ok Q N s0 H s' \<and> cache_only s s')"
    if "arp_ok Q N s0 H s'" "insert e (set es) \<subseteq> set (cache_list s')" "cache_only s s'" for s'
    using that Cons.prems(2) arp_free_entry_ok [OF that(1), of e] by (intro go) (auto intro: cache_only_trans)
  have s1: "arp_ok Q N s0 H (upd_entry e f s1) \<and> insert e (set es) \<subseteq> set (cache_list (upd_entry e f s1)) \<and>
      cache_only s (upd_entry e f s1)"
    if "\<And>x. ae_buf_list (f x) = ae_buf_list x" "\<And>x. ae_state x \<noteq> NET_ARP_FREE \<Longrightarrow> ae_state (f x) \<noteq> NET_ARP_FREE"
      "\<And>x. ae_netif (f x) = ae_netif x" "\<And>x. ae_haddr (f x) = ae_haddr x" for f
    using upd [OF ok1 e1(1) that] e1 cache_only_trans [OF e1(3) cache_only_upd(1)] by simp
  define s2 where "s2 = upd_entry e (\<lambda>x. x\<lparr>ae_state := NET_ARP_WAITING, ae_tmo := arp_scan_count ARP_ENTRY_PENDING_TMO,
    ae_retry := ARP_ENTRY_RETRY_CNT\<rparr>) s1"
  define s3 where "s3 = upd_entry e (\<lambda>x. x\<lparr>ae_retry := ae_retry x - 1\<rparr>) s1"
  define s4 where "s4 = upd_entry e (\<lambda>x. x\<lparr>ae_tmo := arp_scan_count ARP_ENTRY_PENDING_TMO\<rparr>) s3"
  have ok2: "arp_ok Q N s0 H s2 \<and> insert e (set es) \<subseteq> set (cache_list s2) \<and> cache_only s s2"
    unfolding s2_def by (rule s1) simp_all
  have ok3: "arp_ok Q N s0 H s3 \<and> insert e (set es) \<subseteq> set (cache_list s3) \<and> cache_only s s3"
    unfolding s3_def by (rule s1) simp_all
  have ok4: "arp_ok Q N s0 H s4 \<and> insert e (set es) \<subseteq> set (cache_list s4) \<and> cache_only s s4"
    using ok3 cache_only_trans [OF _ cache_only_upd(1), of s s3] unfolding s4_def by (auto intro!: upd)
  have "arp_cache_tmo_loop ops_of (e # es) s =
     (let x = cache_entries s1 e
      in if ae_tmo x > 0 then arp_cache_tmo_loop ops_of es s1
         else if ae_state x = NET_ARP_RESOLVED then do {
           (_, s) \<leftarrow> arp_make_request ops_of (ae_netif (cache_entries s2 e)) (Some (ae_paddr x)) s2;
           arp_cache_tmo_loop ops_of es s
         } else if ae_state x = NET_ARP_WAITING then
           (if ae_retry (cache_entries s3 e) \<le> 0 then arp_cache_tmo_loop ops_of es (arp_free_entry (Some e) s3)
            else do {
              (_, s) \<leftarrow> arp_make_request ops_of (ae_netif (cache_entries s4 e)) (Some (ae_paddr x)) s4;
              arp_cache_tmo_loop ops_of es s
            })
         else arp_cache_tmo_loop ops_of es s1)"
    unfolding arp_cache_tmo_loop.simps Let_def s1_def [symmetric] s2_def [symmetric] s3_def [symmetric] s4_def [symmetric] by (rule refl)
  then show ?case
    using go [OF ok1 e1(2,3)] req [of s2] req [of s4] fr [of s3] ok2 ok3 ok4 by (simp add: Let_def)
qed simp

theorem arp_cache_tmo_ok:
  assumes "arp_ok Q N s0 H s"
  shows "post (arp_cache_tmo ops_of s) (\<lambda>s'. arp_ok Q N s0 H s' \<and> cache_only s s')"
  unfolding arp_cache_tmo_def using arp_okD(3) [OF assms] by (intro arp_cache_tmo_loop_ok [OF assms]) simp_all

end


section \<open>Clearing the cache of an interface\<close>

lemma arp_clear_loop_ok:
  assumes "arp_ok Q N s0 H s" and "distinct es" and "set es \<subseteq> set (cache_list s)"
  shows "arp_ok Q N s0 H (arp_clear_loop n es s) \<and> cache_only s (arp_clear_loop n es s) \<and>
    set (cache_list (arp_clear_loop n es s)) = {e \<in> set (cache_list s). e \<in> set es \<longrightarrow> ae_netif (cache_entries s e) \<noteq> Some n} \<and>
    (\<forall>e\<in>set (cache_list (arp_clear_loop n es s)). cache_entries (arp_clear_loop n es s) e = cache_entries s e)"
  using assms
proof (induction es arbitrary: s)
  case (Cons e es)
  show ?case
  proof (cases "ae_netif (cache_entries s e) = Some n")
    case False
    with Cons show ?thesis by auto
  next
    case True
    have e: "e \<in> set (cache_list s)" "e \<notin> set es" using Cons.prems by auto
    let ?s = "arp_free_entry (Some e) s"
    note f = arp_free_entry_ok [OF Cons.prems(1) e(1)]
    from Cons.prems e have "set es \<subseteq> set (cache_list ?s)" by (auto simp: f(3))
    with Cons.IH [OF f(1)] Cons.prems(2)
    have IH: "arp_ok Q N s0 H (arp_clear_loop n es ?s)" "cache_only ?s (arp_clear_loop n es ?s)"
      "set (cache_list (arp_clear_loop n es ?s)) = {x \<in> set (cache_list ?s). x \<in> set es \<longrightarrow> ae_netif (cache_entries ?s x) \<noteq> Some n}"
      "\<And>x. x \<in> set (cache_list (arp_clear_loop n es ?s)) \<Longrightarrow> cache_entries (arp_clear_loop n es ?s) x = cache_entries ?s x"
      by auto
    have "set (cache_list (arp_clear_loop n es ?s)) = {x \<in> set (cache_list s). x \<in> set (e # es) \<longrightarrow> ae_netif (cache_entries s x) \<noteq> Some n}"
      using True e(2) f(4) unfolding IH(3) f(3) by auto
    moreover have "\<forall>x\<in>set (cache_list (arp_clear_loop n es ?s)). cache_entries (arp_clear_loop n es ?s) x = cache_entries s x"
      using IH(4) f(4) IH(3) f(3) by fastforce
    ultimately show ?thesis
      using True IH(1) cache_only_trans [OF f(2) IH(2)] by simp
  qed
qed simp

theorem arp_clear_ok:
  assumes "arp_ok Q N s0 H s" and "arp_initialized s"
  shows "arp_ok Q N s0 H (arp_clear (Some n) s)" and "cache_only s (arp_clear (Some n) s)"
    and "\<And>e. e \<in> set (cache_list (arp_clear (Some n) s)) \<Longrightarrow> ae_netif (cache_entries (arp_clear (Some n) s) e) \<noteq> Some n"
  using arp_clear_loop_ok [OF assms(1) arp_okD(3) [OF assms(1)] order_refl, of n] assms(2)
  by (auto simp: arp_clear_def)

interpretation loop_arp: arp_devices "\<lambda>_. loop_ops" Q N for Q N
  by unfold_locales

lemma kernel_arp_devices: "\<forall>k. lets_send (sl k) \<Longrightarrow> arp_devices (kernel_ops env sl) Q N"
  unfolding arp_devices_def by (rule kernel_devices)

end
