(* ===== verification/Ipv4.thy ===== *)
theory Ipv4
  imports Arp
begin

text \<open>
  IPv4, \<^verbatim>\<open>kernel/src/net/ipv4.c\<close>. The table of protocol handlers has an entry for each of the 256 protocol
  numbers; the call through an entry, \<open>call_proto\<close>, is an argument of \<open>ipv4_in\<close>.

  The pointer \<^verbatim>\<open>header\<close> stays valid while \<^verbatim>\<open>ipv4_in\<close> uses it: the only operation in between that changes the
  chain, \<^verbatim>\<open>pktbuf_resize\<close>, cuts off bytes behind the header. So reading through it is reading the first block.
\<close>

record ipv4_state = arp_state +
  ipv4_handlers :: "u8 \<Rightarrow> nat option"
  next_packet_id :: u16

definition NET_VERSION_IPV4 :: u8 where "NET_VERSION_IPV4 = 4"
definition NET_IP_DEF_TTL :: u8 where "NET_IP_DEF_TTL = 64"
definition IPV4_HEADER_MIN :: nat where "IPV4_HEADER_MIN = 20"
definition IPV4_HEADER_MAX :: nat where "IPV4_HEADER_MAX = 60"
definition NET_PROTOCOL_ICMPV4 :: u8 where "NET_PROTOCOL_ICMPV4 = 0x01"
definition NET_PROTOCOL_UDP :: u8 where "NET_PROTOCOL_UDP = 0x11"
definition NET_PROTOCOL_TCP :: u8 where "NET_PROTOCOL_TCP = 0x06"

text \<open>The address of the function \<^verbatim>\<open>ipv4_in\<close>.\<close>

definition IPV4_IN :: nat where "IPV4_IN = 2"

definition ipv4_find_handler :: "u8 \<Rightarrow> 'a ipv4_state_scheme \<Rightarrow> nat option" where
  "ipv4_find_handler protocol s = ipv4_handlers s protocol"

definition ipv4_register_handler :: "u8 \<Rightarrow> nat option \<Rightarrow> 'a ipv4_state_scheme \<Rightarrow> net_err \<times> 'a ipv4_state_scheme" where
  "ipv4_register_handler protocol handler s =
     (if handler = None then (NET_ERR_PARAM, s)
      else if ipv4_handlers s protocol \<noteq> None then (NET_ERR_EXIST, s)
      else (NET_ERR_OK, s\<lparr>ipv4_handlers := (ipv4_handlers s)(protocol := handler)\<rparr>))"

definition ipv4_init :: "'a ipv4_state_scheme \<Rightarrow> net_err \<times> 'a ipv4_state_scheme" where
  "ipv4_init s = ether_register_handler NET_PROTOCOL_IPV4 (Some IPV4_IN)
     (s\<lparr>ipv4_handlers := (\<lambda>_. None), next_packet_id := 0\<rparr>)"

text \<open>The part of \<^verbatim>\<open>ipv4_in\<close> behind the test of version and header size.\<close>

definition ipv4_deliver ::
  "(nat \<Rightarrow> nat \<Rightarrow> ipaddr \<Rightarrow> ipaddr \<Rightarrow> nat \<Rightarrow> 'a ipv4_state_scheme \<Rightarrow> (net_err \<times> 'a ipv4_state_scheme) option) \<Rightarrow> nat \<Rightarrow> nat
   \<Rightarrow> nat \<Rightarrow> int \<Rightarrow> 'a ipv4_state_scheme \<Rightarrow> (net_err \<times> 'a ipv4_state_scheme) option" where
  "ipv4_deliver call_proto n b header_size tot s = do {
     len \<leftarrow> pktbuf_get b 2 2 s;
     let packet_size = x_ntohs (le16_at len 0);
     if packet_size < of_nat header_size \<or> uint packet_size > tot then Some (NET_ERR_SIZE, s)
     else do {
       (err, s) \<leftarrow> pktbuf_resize (Some b) (uint packet_size) s;
       if err \<noteq> NET_ERR_OK then Some (NET_ERR_SIZE, s)
       else do {
         let s = reset_acc b s;
         (sum, s) \<leftarrow> pktbuf_checksum16 (Some b) (int header_size) 0 True s;
         if sum \<noteq> 0 then Some (NET_ERR_CHKSUM, s)
         else do {
           frag \<leftarrow> pktbuf_get b 6 2 s;
           if x_ntohs (le16_at frag 0) AND 0x3fff \<noteq> 0 then Some (NET_ERR_NOT_SUPPORT, s)
           else do {
             src \<leftarrow> pktbuf_get b 12 IPV4_ADDR_SIZE s;
             dest \<leftarrow> pktbuf_get b 16 IPV4_ADDR_SIZE s;
             if \<not> ipaddr_is_match (Some (ipaddr_from_buf dest)) (Some (nif_ipaddr (netifs s n)))
                    (Some (nif_netmask (netifs s n)))
             then Some (NET_ERR_UNREACH, s)
             else do {
               proto \<leftarrow> pktbuf_get b 9 1 s;
               (case ipv4_find_handler (proto ! 0) s of
                  None \<Rightarrow> Some (NET_ERR_NOT_SUPPORT, s)
                | Some h \<Rightarrow> do {
                    (err, s) \<leftarrow> pktbuf_remove_header (Some b) (int header_size) s;
                    if err \<noteq> NET_ERR_OK then Some (NET_ERR_SIZE, s)
                    else call_proto h n (ipaddr_from_buf src) (ipaddr_from_buf dest) b (reset_acc b s)
                  })
             }
           }
         }
       }
     }
   }"

definition ipv4_in ::
  "(nat \<Rightarrow> nat \<Rightarrow> ipaddr \<Rightarrow> ipaddr \<Rightarrow> nat \<Rightarrow> 'a ipv4_state_scheme \<Rightarrow> (net_err \<times> 'a ipv4_state_scheme) option) \<Rightarrow> nat option
   \<Rightarrow> nat option \<Rightarrow> 'a ipv4_state_scheme \<Rightarrow> (net_err \<times> 'a ipv4_state_scheme) option" where
  "ipv4_in call_proto netif buf s =
     (case (netif, buf) of
        (Some n, Some b) \<Rightarrow>
          let tot = pktbuf_total b s
          in if tot < int IPV4_HEADER_MIN then Some (NET_ERR_SIZE, s)
             else do {
               (err, s) \<leftarrow> pktbuf_set_cont buf (int IPV4_HEADER_MIN) s;
               if err \<noteq> NET_ERR_OK \<or> pktbuf_data b s = None then Some (NET_ERR_SIZE, s)
               else do {
                 first \<leftarrow> pktbuf_get b 0 1 s;
                 let version = drop_bit 4 (first ! 0);
                 let header_size = unat (first ! 0 AND 0x0f) * 4;
                 if version \<noteq> NET_VERSION_IPV4 \<or> header_size < IPV4_HEADER_MIN \<or> header_size > IPV4_HEADER_MAX \<or>
                    int header_size > tot
                 then Some (NET_ERR_FORMAT, s)
                 else do {
                   (err, s) \<leftarrow> (if header_size > IPV4_HEADER_MIN then pktbuf_set_cont buf (int header_size) s
                               else Some (NET_ERR_OK, s));
                   if err \<noteq> NET_ERR_OK \<or> pktbuf_data b s = None then Some (NET_ERR_SIZE, s)
                   else ipv4_deliver call_proto n b header_size tot s
                 }
               }
             }
      | _ \<Rightarrow> Some (NET_ERR_PARAM, s))"

text \<open>The part of \<^verbatim>\<open>ipv4_out\<close> behind the test of \<^verbatim>\<open>pktbuf_data\<close>: the header is written and the packet goes to
  the interface.\<close>

definition ipv4_send ::
  "(nat \<Rightarrow> 'a ipv4_state_scheme netif_ops) \<Rightarrow> (nat \<Rightarrow> 'a ipv4_state_scheme link_out option) \<Rightarrow> nat \<Rightarrow> ipaddr \<Rightarrow> u8
   \<Rightarrow> int \<Rightarrow> nat \<Rightarrow> 'a ipv4_state_scheme \<Rightarrow> (net_err \<times> 'a ipv4_state_scheme) option" where
  "ipv4_send ops_of out_of n dest protocol payload_size b s = do {
     s \<leftarrow> pktbuf_put b 0 [push_bit 4 NET_VERSION_IPV4 OR 5] s;
     s \<leftarrow> pktbuf_put b 1 [0] s;
     s \<leftarrow> pktbuf_put b 2 (le16_bytes (x_htons (word_of_int (payload_size + int IPV4_HEADER_MIN)))) s;
     s \<leftarrow> pktbuf_put b 4 (le16_bytes (x_htons (next_packet_id s))) s;
     let s = s\<lparr>next_packet_id := next_packet_id s + 1\<rparr>;
     s \<leftarrow> pktbuf_put b 6 (le16_bytes (x_htons 0x4000)) s;
     s \<leftarrow> pktbuf_put b 8 [NET_IP_DEF_TTL] s;
     s \<leftarrow> pktbuf_put b 9 [protocol] s;
     s \<leftarrow> pktbuf_put b 10 (le16_bytes 0) s;
     s \<leftarrow> pktbuf_put b 12 (ipaddr_to_buf (nif_ipaddr (netifs s n))) s;
     s \<leftarrow> pktbuf_put b 16 (ipaddr_to_buf dest) s;
     header \<leftarrow> pktbuf_get b 0 IPV4_HEADER_MIN s;
     s \<leftarrow> pktbuf_put b 10 (le16_bytes (x_htons (checksum16 0 header (of_nat IPV4_HEADER_MIN) 0 True))) s;
     netif_out ops_of out_of (Some n) (Some dest) (Some b) s
   }"

definition ipv4_out ::
  "(nat \<Rightarrow> 'a ipv4_state_scheme netif_ops) \<Rightarrow> (nat \<Rightarrow> 'a ipv4_state_scheme link_out option) \<Rightarrow> nat option \<Rightarrow> ipaddr option \<Rightarrow> u8
   \<Rightarrow> nat option \<Rightarrow> 'a ipv4_state_scheme \<Rightarrow> (net_err \<times> 'a ipv4_state_scheme) option" where
  "ipv4_out ops_of out_of netif dest protocol buf s =
     (case buf of
        None \<Rightarrow> Some (NET_ERR_PARAM, s)
      | Some b \<Rightarrow>
          (case (netif, dest) of
             (Some n, Some d) \<Rightarrow>
               if nif_state (netifs s n) \<noteq> NETIF_ACTIVE then Some (NET_ERR_STATE, pktbuf_free buf s)
               else
                 let payload_size = pktbuf_total b s
                 in if payload_size \<le> 0 \<or> payload_size > nif_mtu (netifs s n) - int IPV4_HEADER_MIN
                    then Some (NET_ERR_SIZE, pktbuf_free buf s)
                    else do {
                      (err, s) \<leftarrow> pktbuf_add_header buf (int IPV4_HEADER_MIN) True s;
                      if is_err err then Some (err, pktbuf_free buf s)
                      else if pktbuf_data b s = None then Some (NET_ERR_SIZE, pktbuf_free buf s)
                      else ipv4_send ops_of out_of n d protocol payload_size b s
                    }
           | _ \<Rightarrow> Some (NET_ERR_PARAM, pktbuf_free buf s)))"

end
