(* ===== verification/Icmpv4.thy ===== *)
theory Icmpv4
  imports Ipv4
begin

text \<open>
  ICMP echo, \<^verbatim>\<open>kernel/src/net/icmpv4.c\<close>: requests are answered in place, replies are counted.
\<close>

record icmpv4_stats =
  echo_requests :: u32
  echo_replies :: u32
  last_reply_identifier :: u16
  last_reply_sequence :: u16

record icmpv4_state = ipv4_state +
  icmp_stats :: icmpv4_stats

definition ICMPV4_ECHO_REPLY :: u8 where "ICMPV4_ECHO_REPLY = 0"
definition ICMPV4_ECHO_REQUEST :: u8 where "ICMPV4_ECHO_REQUEST = 8"
definition ICMPV4_ECHO_CODE :: u8 where "ICMPV4_ECHO_CODE = 0"
definition ICMPV4_HDR_SIZE :: nat where "ICMPV4_HDR_SIZE = 8"

text \<open>The address of the function \<^verbatim>\<open>icmpv4_in\<close>.\<close>

definition ICMPV4_IN :: nat where "ICMPV4_IN = 1"

definition icmpv4_echo_reply ::
  "(nat \<Rightarrow> 'a icmpv4_state_scheme netif_ops) \<Rightarrow> (nat \<Rightarrow> 'a icmpv4_state_scheme link_out option) \<Rightarrow> nat \<Rightarrow> ipaddr \<Rightarrow> nat
   \<Rightarrow> 'a icmpv4_state_scheme \<Rightarrow> (net_err \<times> 'a icmpv4_state_scheme) option" where
  "icmpv4_echo_reply ops_of out_of n src b s = do {
     (err, s) \<leftarrow> pktbuf_set_cont (Some b) (int ICMPV4_HDR_SIZE) s;
     if err \<noteq> NET_ERR_OK \<or> pktbuf_data b s = None then Some (NET_ERR_SIZE, s)
     else do {
       s \<leftarrow> pktbuf_put b 0 [ICMPV4_ECHO_REPLY] s;
       s \<leftarrow> pktbuf_put b 1 [ICMPV4_ECHO_CODE] s;
       s \<leftarrow> pktbuf_put b 2 (le16_bytes 0) s;
       let s = reset_acc b s;
       (sum, s) \<leftarrow> pktbuf_checksum16 (Some b) (pktbuf_total b s) 0 True s;
       s \<leftarrow> pktbuf_put b 2 (le16_bytes (x_htons sum)) s;
       let s = pktbuf_inc_ref (Some b) s;
       (err, s) \<leftarrow> ipv4_out ops_of out_of (Some n) (Some src) NET_PROTOCOL_ICMPV4 (Some b) s;
       Some (err, if is_err err then s else pktbuf_free (Some b) s)
     }
   }"

definition icmpv4_init :: "'a icmpv4_state_scheme \<Rightarrow> net_err \<times> 'a icmpv4_state_scheme" where
  "icmpv4_init s = ipv4_register_handler NET_PROTOCOL_ICMPV4 (Some ICMPV4_IN)
     (s\<lparr>icmp_stats := \<lparr>echo_requests = 0, echo_replies = 0, last_reply_identifier = 0, last_reply_sequence = 0\<rparr>\<rparr>)"

definition icmpv4_get_stats :: "icmpv4_stats option \<Rightarrow> 'a icmpv4_state_scheme \<Rightarrow> icmpv4_stats option" where
  "icmpv4_get_stats stats s = map_option (\<lambda>_. icmp_stats s) stats"

definition icmpv4_in ::
  "(nat \<Rightarrow> 'a icmpv4_state_scheme netif_ops) \<Rightarrow> (nat \<Rightarrow> 'a icmpv4_state_scheme link_out option) \<Rightarrow> nat option \<Rightarrow> ipaddr option
   \<Rightarrow> ipaddr \<Rightarrow> nat option \<Rightarrow> 'a icmpv4_state_scheme \<Rightarrow> (net_err \<times> 'a icmpv4_state_scheme) option" where
  "icmpv4_in ops_of out_of netif src dest buf s =
     (case (netif, src, buf) of
        (Some n, Some a, Some b) \<Rightarrow>
          if pktbuf_total b s < int ICMPV4_HDR_SIZE then Some (NET_ERR_SIZE, s)
          else do {
            (err, s) \<leftarrow> pktbuf_set_cont buf (int ICMPV4_HDR_SIZE) s;
            if err \<noteq> NET_ERR_OK then Some (NET_ERR_SIZE, s)
            else do {
              let s = reset_acc b s;
              (sum, s) \<leftarrow> pktbuf_checksum16 buf (pktbuf_total b s) 0 True s;
              if sum \<noteq> 0 then Some (NET_ERR_CHKSUM, s)
              else if pktbuf_data b s = None then Some (NET_ERR_SIZE, s)
              else do {
                header \<leftarrow> pktbuf_get b 0 ICMPV4_HDR_SIZE s;
                if header ! 1 \<noteq> ICMPV4_ECHO_CODE then Some (NET_ERR_NOT_SUPPORT, s)
                else if header ! 0 = ICMPV4_ECHO_REPLY then
                  let s = s\<lparr>icmp_stats := (icmp_stats s)\<lparr>echo_replies := echo_replies (icmp_stats s) + 1,
                              last_reply_identifier := x_ntohs (le16_at header 4),
                              last_reply_sequence := x_ntohs (le16_at header 6)\<rparr>\<rparr>
                  in Some (NET_ERR_OK, pktbuf_free buf s)
                else if header ! 0 \<noteq> ICMPV4_ECHO_REQUEST then Some (NET_ERR_NOT_SUPPORT, s)
                else
                  let s = s\<lparr>icmp_stats := (icmp_stats s)\<lparr>echo_requests := echo_requests (icmp_stats s) + 1\<rparr>\<rparr>
                  in icmpv4_echo_reply ops_of out_of n a b s
              }
            }
          }
      | _ \<Rightarrow> Some (NET_ERR_PARAM, s))"

definition icmpv4_out_echo ::
  "(nat \<Rightarrow> 'a icmpv4_state_scheme netif_ops) \<Rightarrow> (nat \<Rightarrow> 'a icmpv4_state_scheme link_out option) \<Rightarrow> nat option \<Rightarrow> ipaddr option \<Rightarrow> u16
   \<Rightarrow> u16 \<Rightarrow> u8 list option \<Rightarrow> int \<Rightarrow> 'a icmpv4_state_scheme \<Rightarrow> (net_err \<times> 'a icmpv4_state_scheme) option" where
  "icmpv4_out_echo ops_of out_of netif dest identifier seq payload payload_len s =
     (case (netif, dest) of
        (Some n, Some _) \<Rightarrow>
          if payload_len < 0 \<or> (payload_len \<noteq> 0 \<and> payload = None) then Some (NET_ERR_PARAM, s)
          else if payload_len > nif_mtu (netifs s n) - int IPV4_HEADER_MIN - int ICMPV4_HDR_SIZE then Some (NET_ERR_SIZE, s)
          else
            (case pktbuf_alloc (int ICMPV4_HDR_SIZE + payload_len) s of
               (None, s) \<Rightarrow> Some (NET_ERR_MEM, s)
             | (Some b, s) \<Rightarrow> do {
                 s \<leftarrow> pktbuf_put b 0 [ICMPV4_ECHO_REQUEST] s;
                 s \<leftarrow> pktbuf_put b 1 [ICMPV4_ECHO_CODE] s;
                 s \<leftarrow> pktbuf_put b 2 (le16_bytes 0) s;
                 s \<leftarrow> pktbuf_put b 4 (le16_bytes (x_htons identifier)) s;
                 s \<leftarrow> pktbuf_put b 6 (le16_bytes (x_htons seq)) s;
                 (err, s) \<leftarrow> (if payload_len = 0 then Some (NET_ERR_OK, s)
                             else do {
                               let s = reset_acc b s;
                               (err, s) \<leftarrow> pktbuf_seek (Some b) (int ICMPV4_HDR_SIZE) s;
                               if err \<noteq> NET_ERR_OK then Some (err, s)
                               else pktbuf_write (Some b) payload payload_len s
                             });
                 if err \<noteq> NET_ERR_OK then Some (NET_ERR_SIZE, pktbuf_free (Some b) s)
                 else do {
                   let s = reset_acc b s;
                   (sum, s) \<leftarrow> pktbuf_checksum16 (Some b) (pktbuf_total b s) 0 True s;
                   s \<leftarrow> pktbuf_put b 2 (le16_bytes (x_htons sum)) s;
                   ipv4_out ops_of out_of netif dest NET_PROTOCOL_ICMPV4 (Some b) s
                 }
               })
      | _ \<Rightarrow> Some (NET_ERR_PARAM, s))"

end
