(* ===== verification/Ip_Own.thy ===== *)
theory Ip_Own
  imports Arp_Own Icmpv4
begin

text \<open>
  IPv4 and ICMP keep to the contracts of the layers below: output consumes the buffer, input leaves it to the caller
  exactly when it returns an error.
\<close>

section \<open>The contract of the link layers\<close>

locale ip_links = arp_devices ops_of Q N
  for ops_of :: "nat \<Rightarrow> 'a ipv4_state_scheme netif_ops" and Q N :: "nat set" +
  fixes out_of :: "nat \<Rightarrow> 'a ipv4_state_scheme link_out option"
  assumes out_consumes: "out_of l = Some out \<Longrightarrow> n \<in> N \<Longrightarrow> arp_ok Q N s0 (add_mset b H) s \<Longrightarrow>
    post (out n dest b s) (\<lambda>(e, s'). arp_ok Q N s0 H s' \<and> cache_only s s')"
begin

lemma netif_out_ok:
  assumes "arp_ok Q N s0 (add_mset b H) s" and "n \<in> N"
  shows "post (netif_out ops_of out_of (Some n) dest (Some b) s) (\<lambda>(e, s'). arp_ok Q N s0 H s' \<and> cache_only s s')"
proof (rule netif_out_consumes [OF _ assms(2)])
  show "keep Q N s0 (add_mset b (H + waits s)) s" using assms(1) by (simp add: arp_ok_def)
  show "arp_ok Q N s0 H s' \<and> cache_only s s'" if "keep Q N s0 (H + waits s) s'" "same_above s s'" for s'
    using arp_ok_same [OF assms(1) that(2,1)] same_cache(6) [OF that(2)] by simp
qed (use out_consumes [OF _ assms(2,1)] in auto)

end

text \<open>The link layer of Ethernet is the only one.\<close>

definition kernel_out :: "(nat \<Rightarrow> 'a arp_state_scheme netif_ops) \<Rightarrow> nat \<Rightarrow> 'a arp_state_scheme link_out option" where
  "kernel_out ops_of l = (if l = ETHER_LAYER then Some (ether_link_out ops_of) else None)"

lemma kernel_links: "arp_devices ops_of Q N \<Longrightarrow> ip_links ops_of Q N (kernel_out ops_of)"
  unfolding ip_links_def ip_links_axioms_def
  by (auto simp: kernel_out_def ether_link_out_def arp_devices.arp_resolve_consumes split: if_splits)

interpretation loop_links: ip_links "\<lambda>_. loop_ops" Q N "kernel_out (\<lambda>_. loop_ops)" for Q N
  by (rule kernel_links) unfold_locales


section \<open>Output\<close>

text \<open>The counter of the identifications is the only thing that \<^verbatim>\<open>ipv4_out\<close> changes above the cache.\<close>

definition ip_only :: "'a ipv4_state_scheme \<Rightarrow> 'a ipv4_state_scheme \<Rightarrow> bool" where
  "ip_only s s' \<longleftrightarrow> cache_only (s\<lparr>next_packet_id := next_packet_id s'\<rparr>) s'"

lemma ip_onlyD:
  assumes "ip_only s s'"
  shows "netifs s' = netifs s" "netif_list s' = netif_list s" "ether_handlers s' = ether_handlers s"
    "ipv4_handlers s' = ipv4_handlers s" "ipv4_state.more s' = ipv4_state.more s" "2 \<le> q mod 4 \<Longrightarrow> fixqs s' q = fixqs s q"
    "link_layers s' = link_layers s" "netif_default s' = netif_default s" "arp_initialized s' = arp_initialized s"
proof -
  note c = assms [unfolded ip_only_def]
  note d = cache_onlyD [OF c]
  from d(1-6) cache_only_queue [OF c]
  show "netifs s' = netifs s" "netif_list s' = netif_list s" "ether_handlers s' = ether_handlers s"
    "link_layers s' = link_layers s" "netif_default s' = netif_default s" "arp_initialized s' = arp_initialized s"
    "2 \<le> q mod 4 \<Longrightarrow> fixqs s' q = fixqs s q" by simp_all
  from d(7) show "ipv4_handlers s' = ipv4_handlers s" "ipv4_state.more s' = ipv4_state.more s"
    by (cases s; cases s'; simp)+
qed

lemma cache_ip_only:
  fixes s s' :: "'a ipv4_state_scheme"
  assumes "cache_only s s'"
  shows "ip_only s s'"
proof -
  from cache_onlyD(7) [OF assms] have "next_packet_id s' = next_packet_id s" by (cases s; cases s'; simp)
  with assms show ?thesis by (simp add: ip_only_def)
qed

lemma ip_only_refl [simp]: "ip_only s s"
  by (simp add: cache_ip_only)

lemma ip_only_trans: "ip_only s s1 \<Longrightarrow> ip_only s1 s2 \<Longrightarrow> ip_only s s2"
  unfolding ip_only_def cache_only_def upper_def by (cases s; cases s1; cases s2; simp)

lemma ip_only_free [simp]: "ip_only s (pktbuf_free b s') \<longleftrightarrow> ip_only s s'"
proof -
  have "next_packet_id (pktbuf_free b s') = next_packet_id s'"
    by (simp add: pktbuf_free_def Let_def split: option.split)
  then show ?thesis by (simp add: ip_only_def)
qed

lemma ip_only_upd [simp]: "ip_only s (s\<lparr>next_packet_id := i\<rparr>)"
  by (simp add: ip_only_def)

lemma arp_ok_upd_id [simp]: "arp_ok Q N s0 H (s\<lparr>next_packet_id := i\<rparr>) \<longleftrightarrow> arp_ok Q N s0 H s"
proof -
  have "keep Q N s0 K (s\<lparr>next_packet_id := i\<rparr>) = keep Q N s0 K s" for K by (rule keep_low) simp_all
  then show ?thesis by (simp add: arp_ok_def arp_wf_def hw_ok_def waits_in_def)
qed

context ip_links
begin

text \<open>From the point where the header is in place.\<close>

lemma ipv4_send_consumes:
  assumes "arp_ok Q N s0 (add_mset b H) s" and "contiguous IPV4_HEADER_MIN (pktbufs s b)" and "n \<in> N"
  shows "post (ipv4_send ops_of out_of n dest protocol len b s) (\<lambda>(e, s'). arp_ok Q N s0 H s' \<and> ip_only s s')"
proof -
  let ?H = "\<lambda>s. add_mset b H + waits s"
  have put: "post (pktbuf_put b off bs s') P"
    if "work Q N s0 (?H s1) b s1 s'" "contiguous IPV4_HEADER_MIN (pktbufs s' b)" "off + length bs \<le> IPV4_HEADER_MIN" "bs \<noteq> []"
      "\<And>s'. work Q N s0 (?H s1) b s1 s' \<Longrightarrow> contiguous IPV4_HEADER_MIN (pktbufs s' b) \<Longrightarrow> P s'" for off bs s1 s' P
    using w_put_any [OF that] .
  have fin: "post (netif_out ops_of out_of (Some n) (Some dest) (Some b) s') (\<lambda>(e, s'). arp_ok Q N s0 H s' \<and> ip_only s s')"
    if "work Q N s0 (?H s1) b s1 s'" "arp_ok Q N s0 (add_mset b H) s1" "ip_only s s1" for s1 s'
  proof -
    note w = arp_work [OF that(2,1)]
    have "ip_only s s'" using that(3) cache_ip_only [OF same_cache(6) [OF w(2)]] ip_only_trans by blast
    then show ?thesis
      by (intro post_pair [OF netif_out_ok [OF w(1) assms(3)]]) (auto dest: cache_ip_only intro: ip_only_trans)
  qed
  have start: "work Q N s0 (?H s1) b s1 s1" if "arp_ok Q N s0 (add_mset b H) s1" for s1
    by (rule workI [OF arp_okD(2) [OF that]]) simp
  have mid: "post (pktbuf_put b 6 (le16_bytes (x_htons 0x4000)) s2) (\<lambda>s. post (pktbuf_put b 8 [NET_IP_DEF_TTL] s)
      (\<lambda>s. post (pktbuf_put b 9 [protocol] s) (\<lambda>s. post (pktbuf_put b 10 (le16_bytes 0) s)
      (\<lambda>s. post (pktbuf_put b 12 (ipaddr_to_buf (nif_ipaddr (netifs s n))) s) (\<lambda>s. post (pktbuf_put b 16 (ipaddr_to_buf dest) s)
      (\<lambda>s. post (pktbuf_get b 0 IPV4_HEADER_MIN s) (\<lambda>header. post (pktbuf_put b 10
        (le16_bytes (x_htons (checksum16 0 header (of_nat IPV4_HEADER_MIN) 0 True))) s)
      (\<lambda>s. post (netif_out ops_of out_of (Some n) (Some dest) (Some b) s) R))))))))"
    if s2: "arp_ok Q N s0 (add_mset b H) s2" "contiguous IPV4_HEADER_MIN (pktbufs s2 b)" "ip_only s s2"
      and R: "R = (\<lambda>(e, s'). arp_ok Q N s0 H s' \<and> ip_only s s')" for s2 R
    unfolding R
    by (intro put [of s2] w_get [where ?s1.0 = s2 and n = IPV4_HEADER_MIN] fin [of s2])
      (use start [OF s2(1)] s2 in \<open>simp_all add: IPV4_HEADER_MIN_def\<close>)
  have up: "arp_ok Q N s0 (add_mset b H) (s'\<lparr>next_packet_id := i\<rparr>) \<and> ip_only s (s'\<lparr>next_packet_id := i\<rparr>)"
    if "work Q N s0 (?H s) b s s'" for s' i
    using arp_work [OF assms(1) that] ip_only_trans [OF cache_ip_only [OF same_cache(6)] ip_only_upd] by simp
  show ?thesis
    unfolding ipv4_send_def post_bind Let_def
    by (intro put [of s] mid) (use start [OF assms(1)] assms(2) up in \<open>simp_all add: IPV4_HEADER_MIN_def\<close>)
qed

theorem ipv4_out_consumes:
  assumes "arp_ok Q N s0 (add_mset b H) s" and "n \<in> N"
  shows "post (ipv4_out ops_of out_of (Some n) dest protocol (Some b) s) (\<lambda>(e, s'). arp_ok Q N s0 H s' \<and> ip_only s s')"
proof -
  have free: "arp_ok Q N s0 H (pktbuf_free (Some b) s') \<and> ip_only s (pktbuf_free (Some b) s')"
    if "work Q N s0 (add_mset b H + waits s) b s s'" for s'
  proof -
    note w = arp_work [OF assms(1) that]
    from arp_free [OF w(1)] cache_ip_only [OF same_cache(6) [OF w(2)]] show ?thesis by simp
  qed
  have w: "work Q N s0 (add_mset b H + waits s) b s s" by (rule workI [OF arp_okD(2) [OF assms(1)]]) simp
  have "post (pktbuf_add_header (Some b) (int IPV4_HEADER_MIN) True s) (\<lambda>x. post (case x of (err, s) \<Rightarrow>
      if is_err err then Some (err, pktbuf_free (Some b) s)
      else if pktbuf_data b s = None then Some (NET_ERR_SIZE, pktbuf_free (Some b) s)
      else ipv4_send ops_of out_of n d protocol len b s) (\<lambda>(e, s'). arp_ok Q N s0 H s' \<and> ip_only s s'))" for d len
  proof (rule w_add_header [OF w], goal_cases)
    case (3 e s1)
    note a = arp_work [OF assms(1) 3(1)]
    have o: "ip_only s s1" by (rule cache_ip_only [OF same_cache(6) [OF a(2)]])
    show ?case
    proof (cases "e = NET_ERR_OK \<and> pktbuf_data b s1 \<noteq> None")
      case True
      with 3 have "contiguous IPV4_HEADER_MIN (pktbufs s1 b)" by simp
      from ipv4_send_consumes [OF a(1) this assms(2), of d protocol len] o True show ?thesis
        by (auto elim!: post_mono intro: ip_only_trans)
    qed (use free [OF 3(1)] in auto)
  qed (simp_all add: IPV4_HEADER_MIN_def PKTBUF_BLK_SIZE_def)
  with free [OF w] show ?thesis
    by (simp add: ipv4_out_def Let_def split: option.split)
qed

end



section \<open>ICMP\<close>

text \<open>The work on a buffer in terms of the cache: from \<open>s1\<close> on only the buffer has changed.\<close>

lemma arp_workI:
  "arp_ok Q N s0 (add_mset b H) s \<Longrightarrow> work Q N s0 (add_mset b H + waits s) b s s"
  by (rule workI [OF arp_okD(2)]) simp_all

lemma w_put_checksum:
  assumes "work Q N s0 H b s1 s" and "contiguous n (pktbufs s b)" and "off + 2 \<le> n"
    and "\<And>s'. work Q N s0 H b s1 s' \<Longrightarrow> post (k s') P"
  shows "post (pktbuf_checksum16 (Some b) sz 0 True (reset_acc b s))
    (\<lambda>x. post (case x of (r, s) \<Rightarrow> pktbuf_put b off (le16_bytes (x_htons r)) s \<bind> k) P)"
proof (rule w_checksum [OF w_reset(1) [OF assms(1)]], goal_cases)
  case (2 r s')
  with assms(2) w_reset(3) [OF assms(1)] have "contiguous n (pktbufs s' b)" by simp
  then show ?case unfolding prod.case post_bind
    by (rule w_put_any [OF 2(1)]) (use assms(3,4) in simp_all)
qed simp

text \<open>The payload of a new packet is written behind the header.\<close>

lemma w_payload:
  assumes "work Q N s0 H b s1 s" and "contiguous n (pktbufs s b)" and "0 < sz \<Longrightarrow> src = None \<or> nat sz \<le> length (the src)"
    and "\<And>e s'. work Q N s0 H b s1 s' \<Longrightarrow> contiguous n (pktbufs s' b) \<Longrightarrow> P (e, s')"
  shows "post (pktbuf_seek (Some b) off (reset_acc b s))
    (\<lambda>x. post (case x of (err, s) \<Rightarrow> if err \<noteq> NET_ERR_OK then Some (err, s) else pktbuf_write (Some b) src sz s) P)"
proof (rule w_seek [OF w_reset(1) [OF assms(1)]], unfold prod.case, rule post_ifI, goal_cases)
  case (1 e s')
  with assms(2,4) w_reset(3) [OF assms(1)] contiguous_blks [OF 1(2)] show ?case by simp
next
  case (2 e s')
  then have "contiguous n (pktbufs s' b)" using assms(2) w_reset(3) [OF assms(1)] contiguous_blks [OF 2(2)] by simp
  with assms(4) show ?case by (intro w_write [OF 2(1) assms(3)]) simp_all
qed

lemma arp_alloc:
  assumes "arp_ok Q N s0 H s" and "pktbuf_alloc sz s = (r, s1)"
  shows "same_above s s1" and "r = None \<Longrightarrow> arp_ok Q N s0 H s1" and "r = Some b \<Longrightarrow> arp_ok Q N s0 (add_mset b H) s1"
proof -
  note k = keep_alloc [OF arp_okD(2) [OF assms(1)] assms(2)]
  show "same_above s s1" by (rule k(1))
  show "r = None \<Longrightarrow> arp_ok Q N s0 H s1" using k(2) by (intro arp_ok_same [OF assms(1) k(1)]) simp
  show "r = Some b \<Longrightarrow> arp_ok Q N s0 (add_mset b H) s1"
    using k(3) same_cache [OF k(1)] arp_okD(1) [OF assms(1)] by (simp add: arp_ok_def)
qed

lemma arp_inc_ref:
  assumes "arp_ok Q N s0 (add_mset b H) s"
  shows "arp_ok Q N (fst s0, pktbuf_inc_ref (Some b) s) (add_mset b (add_mset b H)) (pktbuf_inc_ref (Some b) s)"
    and "same_above s (pktbuf_inc_ref (Some b) s)"
proof -
  have "keep Q N s0 (add_mset b (H + waits s)) s" using assms by (simp add: arp_ok_def)
  note i = keep_inc_ref [OF this]
  from i(2) show "same_above s (pktbuf_inc_ref (Some b) s)" .
  from i(1) same_cache [OF i(2)] arp_okD(1) [OF assms]
  show "arp_ok Q N (fst s0, pktbuf_inc_ref (Some b) s) (add_mset b (add_mset b H)) (pktbuf_inc_ref (Some b) s)"
    by (simp add: arp_ok_def)
qed

lemma arp_inc_out_handled:
  assumes "arp_ok Q N s0 (add_mset b H) s" and "arp_ok Q N (fst s0, pktbuf_inc_ref (Some b) s) (add_mset b H) s'"
  shows "arp_handled Q N s0 H b e (if is_err e then s' else pktbuf_free (Some b) s')"
proof -
  have k: "keep Q N s0 (add_mset b (H + waits s)) s" "keep Q N (fst s0, pktbuf_inc_ref (Some b) s) (add_mset b (H + waits s')) s'"
    using assms by (simp_all add: arp_ok_def)
  note h = inc_out_handled [OF k]
  note c = same_cache [OF pktbuf_free_frame(1) [where s = s' and b = "Some b"]]
  from h c arp_okD(1) [OF assms(2)] show ?thesis by (cases "e = NET_ERR_OK") (auto simp: arp_handled_def)
qed

text \<open>Of the state above the buffers, ICMP changes what IPv4 changes and its own counters.\<close>

definition icmp_only :: "'a icmpv4_state_scheme \<Rightarrow> 'a icmpv4_state_scheme \<Rightarrow> bool" where
  "icmp_only s s' \<longleftrightarrow> ip_only (s\<lparr>icmp_stats := icmp_stats s'\<rparr>) s'"

lemma icmp_only_refl [simp]: "icmp_only s s"
  by (simp add: icmp_only_def)

lemma ip_icmp_only: 
  fixes s s' :: "'a icmpv4_state_scheme"
  assumes "ip_only s s'"
  shows "icmp_only s s'"
proof -
  from ip_onlyD(5) [OF assms] have "icmp_stats s' = icmp_stats s" by (cases s; cases s'; simp)
  with assms show ?thesis by (simp add: icmp_only_def)
qed

lemmas icmp_only_same = ip_icmp_only [OF cache_ip_only [OF same_cache(6)]]

lemma icmp_only_trans: "icmp_only s s1 \<Longrightarrow> icmp_only s1 s2 \<Longrightarrow> icmp_only s s2"
  unfolding icmp_only_def ip_only_def cache_only_def upper_def by (cases s; cases s1; cases s2; simp)

lemma icmp_only_upd [simp]: "icmp_only s (s\<lparr>icmp_stats := i\<rparr>)"
  by (simp add: icmp_only_def)

lemma icmp_only_free [simp]: "icmp_only s (pktbuf_free b s') \<longleftrightarrow> icmp_only s s'"
proof -
  have "icmp_stats (pktbuf_free b s') = icmp_stats s'"
    by (simp add: pktbuf_free_def Let_def split: option.split)
  then show ?thesis by (simp add: icmp_only_def)
qed

lemma arp_ok_upd_icmp [simp]: "arp_ok Q N s0 H (s\<lparr>icmp_stats := i\<rparr>) \<longleftrightarrow> arp_ok Q N s0 H s"
proof -
  have "keep Q N s0 K (s\<lparr>icmp_stats := i\<rparr>) = keep Q N s0 K s" for K by (rule keep_low) simp_all
  then show ?thesis by (simp add: arp_ok_def arp_wf_def hw_ok_def waits_in_def)
qed

locale icmp_links = ip_links ops_of Q N out_of
  for ops_of :: "nat \<Rightarrow> 'a icmpv4_state_scheme netif_ops" and Q N :: "nat set"
    and out_of :: "nat \<Rightarrow> 'a icmpv4_state_scheme link_out option"
begin

lemma icmpv4_echo_reply_handled:
  assumes "arp_ok Q N s0 (add_mset b H) s" and "n \<in> N"
  shows "post (icmpv4_echo_reply ops_of out_of n src b s) (\<lambda>(e, s'). arp_handled Q N s0 H b e s' \<and> ip_only s s')"
proof -
  let ?W = "work Q N s0 (add_mset b H + waits s) b s"
  note w = arp_work [OF assms(1)]
  have err: "arp_handled Q N s0 H b e s' \<and> ip_only s s'" if "?W s'" "e \<noteq> NET_ERR_OK" for e s'
    using arp_handled_err [OF w(1) [OF that(1)] that(2)] cache_ip_only [OF same_cache(6) [OF w(2) [OF that(1)]]] by simp
  have out: "post (ipv4_out ops_of out_of (Some n) (Some src) NET_PROTOCOL_ICMPV4 (Some b) (pktbuf_inc_ref (Some b) s2) \<bind>
      (\<lambda>(err, s). Some (err, if is_err err then s else pktbuf_free (Some b) s)))
      (\<lambda>(e, s'). arp_handled Q N s0 H b e s' \<and> ip_only s s')" if "?W s2" for s2
  proof -
    note a = w [OF that] and i = arp_inc_ref [OF w(1) [OF that]]
    have o: "ip_only s (pktbuf_inc_ref (Some b) s2)"
      using cache_ip_only [OF same_cache(6)] a(2) i(2) by metis
    show ?thesis unfolding post_bind
      by (rule post_pair [OF ipv4_out_consumes [OF i(1) assms(2)]])
        (use arp_inc_out_handled [OF a(1)] o in \<open>auto intro: ip_only_trans\<close>)
  qed
  show ?thesis
    unfolding icmpv4_echo_reply_def post_bind Let_def
  proof (rule w_set_cont [OF arp_workI [OF assms(1)]], goal_cases)
    case (1 e s1)
    show ?case
    proof (cases "e \<noteq> NET_ERR_OK \<or> pktbuf_data b s1 = None")
      case True
      with err [OF 1(1), of NET_ERR_SIZE] show ?thesis by simp
    next
      case False
      with 1 have c: "contiguous ICMPV4_HDR_SIZE (pktbufs s1 b)" by simp
      note put = w_put_any [where n = ICMPV4_HDR_SIZE and ?s1.0 = s]
      show ?thesis
        unfolding prod.case if_not_P [OF False] post_bind
        by (intro put w_put_checksum [where ?s1.0 = s and n = ICMPV4_HDR_SIZE] out)
          (use 1(1) c in \<open>simp_all add: ICMPV4_HDR_SIZE_def\<close>)
    qed
  qed
qed

lemma icmpv4_in_handled:
  assumes "arp_ok Q N s0 (add_mset b H) s" and "n \<in> N"
  shows "post (icmpv4_in ops_of out_of (Some n) src dest (Some b) s) (\<lambda>(e, s'). arp_handled Q N s0 H b e s' \<and> icmp_only s s')"
proof -
  let ?W = "work Q N s0 (add_mset b H + waits s) b s"
  note w = arp_work [OF assms(1)]
  have err: "arp_handled Q N s0 H b e s' \<and> icmp_only s s'" if "?W s'" "e \<noteq> NET_ERR_OK" for e s'
    using arp_handled_err [OF w(1) [OF that(1)] that(2)] icmp_only_same [OF w(2) [OF that(1)]] by simp
  have bye: "arp_handled Q N s0 H b NET_ERR_OK (pktbuf_free (Some b) (s'\<lparr>icmp_stats := x\<rparr>)) \<and>
      icmp_only s (pktbuf_free (Some b) (s'\<lparr>icmp_stats := x\<rparr>))" if "?W s'" for s' x
    using arp_free(1) [of Q N s0 b H "s'\<lparr>icmp_stats := x\<rparr>"] w(1) [OF that] icmp_only_trans [OF icmp_only_same [OF w(2) [OF that]] icmp_only_upd]
    by (auto simp: arp_handled_ok)
  have reply: "post (icmpv4_echo_reply ops_of out_of n a b (s'\<lparr>icmp_stats := x\<rparr>))
      (\<lambda>(e, s'). arp_handled Q N s0 H b e s' \<and> icmp_only s s')" if "?W s'" for s' x a
    using icmpv4_echo_reply_handled [of s0 b H "s'\<lparr>icmp_stats := x\<rparr>" n a] w(1) [OF that] assms(2)
      icmp_only_trans [OF icmp_only_same [OF w(2) [OF that]] icmp_only_upd]
    by (auto elim!: post_mono dest: ip_icmp_only intro: icmp_only_trans)
  show ?thesis
  proof (cases src)
    case (Some a)
    show ?thesis
      unfolding icmpv4_in_def Some prod.case option.case Let_def
    proof (intro post_ifI, goal_cases)
      case 1
      then show ?case using err [OF arp_workI [OF assms(1)]] by simp
    next
      case 2
      show ?case unfolding post_bind
      proof (rule w_set_cont [OF arp_workI [OF assms(1)]], unfold prod.case, intro post_ifI, goal_cases)
        case (2 e s1)
        then have c: "contiguous ICMPV4_HDR_SIZE (pktbufs s1 b)" by simp
        show ?case unfolding post_bind
        proof (rule w_checksum [OF w_reset(1) [OF 2(1)]], goal_cases)
          case (2 r s2)
          have "contiguous ICMPV4_HDR_SIZE (pktbufs s2 b)" using c 2(3) w_reset(3) [OF \<open>?W s1\<close>] by simp
          then have "\<exists>h. pktbuf_get b 0 ICMPV4_HDR_SIZE s2 = Some h"
            using w_get [OF 2(1), of ICMPV4_HDR_SIZE 0 ICMPV4_HDR_SIZE "\<lambda>_. True"] by (auto simp: ICMPV4_HDR_SIZE_def post_def split: option.splits)
          with err [OF 2(1)] bye [OF 2(1)] reply [OF 2(1)] icmp_only_same [OF w(2) [OF 2(1)]] show ?case by auto
        qed simp
      qed (use err in simp)
    qed
  qed (use err arp_workI [OF assms(1)] in \<open>simp add: icmpv4_in_def\<close>)
qed

theorem icmpv4_out_echo_keeps:
  assumes "arp_ok Q N s0 H s" and "\<And>n. netif = Some n \<Longrightarrow> n \<in> N"
    and "\<And>bytes. payload = Some bytes \<Longrightarrow> nat payload_len \<le> length bytes"
  shows "post (icmpv4_out_echo ops_of out_of netif dest identifier seq payload payload_len s)
    (\<lambda>(e, s'). arp_ok Q N s0 H s' \<and> ip_only s s')"
proof (cases "\<exists>n d. netif = Some n \<and> dest = Some d \<and> \<not> (payload_len < 0 \<or> (payload_len \<noteq> 0 \<and> payload = None)) \<and>
    \<not> payload_len > nif_mtu (netifs s n) - int IPV4_HEADER_MIN - int ICMPV4_HDR_SIZE")
  case False
  with assms(1) show ?thesis by (auto simp: icmpv4_out_echo_def split: option.split)
next
  case True
  then obtain n d where nd: "netif = Some n" "dest = Some d" and g: "\<not> (payload_len < 0 \<or> (payload_len \<noteq> 0 \<and> payload = None))"
    "\<not> payload_len > nif_mtu (netifs s n) - int IPV4_HEADER_MIN - int ICMPV4_HDR_SIZE" by blast
  obtain r s1 where al: "pktbuf_alloc (int ICMPV4_HDR_SIZE + payload_len) s = (r, s1)" by (metis surj_pair)
  note k = arp_alloc [OF assms(1) al]
  have g1: "(payload_len < 0 \<or> (payload_len \<noteq> 0 \<and> payload = None)) = False"
    "(payload_len > nif_mtu (netifs s n) - int IPV4_HEADER_MIN - int ICMPV4_HDR_SIZE) = False" using g by simp_all
  show ?thesis
  proof (cases r)
    case None
    then show ?thesis using nd al k(2) cache_ip_only [OF same_cache(6) [OF k(1)]] by (simp add: icmpv4_out_echo_def g1)
  next
    case (Some b)
    let ?W = "work Q N s0 (add_mset b H + waits s1) b s1"
    note ok1 = k(3) [OF Some]
    note w = arp_work [OF ok1]
    have c: "contiguous ICMPV4_HDR_SIZE (pktbufs s1 b)"
      using al Some g(1) by (intro pktbuf_alloc_contiguous) (auto simp: ICMPV4_HDR_SIZE_def PKTBUF_BLK_SIZE_def)
    note put = w_put_any [where Q = Q and N = N and ?s0.0 = s0 and H = "add_mset b H + waits s1" and b = b and ?s1.0 = s1 and n = ICMPV4_HDR_SIZE]
    have only: "ip_only s s'" if "?W s'" for s'
      using ip_only_trans cache_ip_only [OF same_cache(6) [OF k(1)]] cache_ip_only [OF same_cache(6) [OF w(2) [OF that]]] by blast
    have out: "post (ipv4_out ops_of out_of (Some n) (Some d) NET_PROTOCOL_ICMPV4 (Some b) s') (\<lambda>(e, s'). arp_ok Q N s0 H s' \<and> ip_only s s')"
      if "?W s'" for s'
      by (rule post_pair [OF ipv4_out_consumes [OF w(1) [OF that]]]) (use assms(2) nd only [OF that] in \<open>auto intro: ip_only_trans\<close>)
    have pay: "post (if payload_len = 0 then Some (NET_ERR_OK, s')
        else pktbuf_seek (Some b) (int ICMPV4_HDR_SIZE) (reset_acc b s') \<bind>
          (\<lambda>(err, s). if err \<noteq> NET_ERR_OK then Some (err, s) else pktbuf_write (Some b) payload payload_len s)) R"
      if "?W s'" "contiguous ICMPV4_HDR_SIZE (pktbufs s' b)"
        "\<And>e s'. ?W s' \<Longrightarrow> contiguous ICMPV4_HDR_SIZE (pktbufs s' b) \<Longrightarrow> R (e, s')" for s' R
      using that assms(3) g(1) by (intro post_ifI; (unfold post_bind)?; (intro w_payload [OF that(1,2)])?) auto
    have fin: "post (case (e, s') of (err, s) \<Rightarrow> if err \<noteq> NET_ERR_OK then Some (NET_ERR_SIZE, pktbuf_free (Some b) s)
        else pktbuf_checksum16 (Some b) (pktbuf_total b (reset_acc b s)) 0 True (reset_acc b s) \<bind>
          (\<lambda>(sum, s). pktbuf_put b 2 (le16_bytes (x_htons sum)) s \<bind>
            ipv4_out ops_of out_of (Some n) (Some d) NET_PROTOCOL_ICMPV4 (Some b))) (\<lambda>(e, s'). arp_ok Q N s0 H s' \<and> ip_only s s')"
      if "?W s'" "contiguous ICMPV4_HDR_SIZE (pktbufs s' b)" for e s'
      unfolding prod.case
      by (intro post_ifI; (unfold post_bind)?; (intro w_put_checksum [OF that] out)?)
        (use arp_free [OF w(1) [OF that(1)]] only [OF that(1)] in \<open>auto simp: ICMPV4_HDR_SIZE_def\<close>)
    show ?thesis
      unfolding icmpv4_out_echo_def nd al Some prod.case option.case g1 if_False Let_def
      by (unfold post_bind [of "pktbuf_put _ _ _ _"] post_bind [of "if _ then _ else _"], intro put pay fin)
        (use workI [OF arp_okD(2) [OF ok1]] c in \<open>simp_all add: ICMPV4_HDR_SIZE_def\<close>)
  qed
qed

end

end
