(* ===== verification/Input_Own.thy ===== *)
theory Input_Own
  imports Ip_Own
begin

text \<open>
  The input path: the handlers that \<^verbatim>\<open>ipv4_in\<close> and \<^verbatim>\<open>ether_in\<close> call take the packet or return an error and leave it
  to the caller (\<^verbatim>\<open>kernel/include/timeros/net/ether.h\<close>). A layer whose handlers do so does so itself.

  The layers above hold buffers too, \<open>holds s\<close> (UDP in its records), under an invariant of their own, \<open>inv s\<close>; the work
  of the layers below leaves both alone.
\<close>

section \<open>IPv4\<close>

locale ip_protocols =
  fixes call_proto :: "nat \<Rightarrow> nat \<Rightarrow> ipaddr \<Rightarrow> ipaddr \<Rightarrow> nat \<Rightarrow> 'a ipv4_state_scheme \<Rightarrow> (net_err \<times> 'a ipv4_state_scheme) option"
    and Q N :: "nat set" and holds :: "'a ipv4_state_scheme \<Rightarrow> nat multiset" and inv :: "'a ipv4_state_scheme \<Rightarrow> bool"
    and registered :: "nat set"
  assumes holds_same: "same_above s s' \<Longrightarrow> holds s' = holds s" and inv_same: "same_above s s' \<Longrightarrow> inv s \<Longrightarrow> inv s'"
    and inv_registered: "inv s \<Longrightarrow> ipv4_handlers s protocol = Some h \<Longrightarrow> h \<in> registered"
    and proto_handles: "h \<in> registered \<Longrightarrow> arp_ok Q N s0 (add_mset b (H + holds s)) s \<Longrightarrow> inv s \<Longrightarrow> n \<in> N \<Longrightarrow>
      post (call_proto h n src dest b s) (\<lambda>(e, s'). arp_handled Q N s0 (H + holds s') b e s' \<and> inv s')"
begin

lemma ipv4_deliver_handled:
  assumes "arp_ok Q N s0 (add_mset b (H + holds s)) s" and "inv s" and "n \<in> N"
    and "contiguous header_size (pktbufs s b)" and "IPV4_HEADER_MIN \<le> header_size" and "header_size < 2 ^ 16"
  shows "post (ipv4_deliver call_proto n b header_size tot s) (\<lambda>(e, s'). arp_handled Q N s0 (H + holds s') b e s' \<and> inv s')"
    (is "post _ ?P")
proof -
  let ?W = "work Q N s0 (add_mset b (H + holds s) + waits s) b s"
  note w = arp_work [OF assms(1)]
  have low: "holds s' = holds s" "inv s'" if "?W s'" for s'
    by (rule holds_same [OF w(2) [OF that]], rule inv_same [OF w(2) [OF that] assms(2)])
  have err: "post (Some (e, s')) ?P" if "?W s'" "e \<noteq> NET_ERR_OK" for e s'
    using arp_handled_err [OF w(1) [OF that(1)] that(2)] low [OF that(1)] by simp
  have get: "post (pktbuf_get b off k s') R"
    if "?W s'" "contiguous header_size (pktbufs s' b)" "off + k \<le> IPV4_HEADER_MIN" "0 < k" "\<And>x. R x" for off k s' R
    by (rule w_get [OF that(1,2)]) (use that(3-) assms(5) in auto)
  have call: "post (call_proto h n src dest b (reset_acc b s')) ?P" if "?W s'" "h \<in> registered" for h src dest s'
    using proto_handles [of h s0 b H "reset_acc b s'" n src dest] w(1) low w_reset(1) [OF that(1)] assms(3) that(2) by simp
  have last: "post (pktbuf_remove_header (Some b) (int header_size) s' \<bind> (\<lambda>(err, s). if err \<noteq> NET_ERR_OK then Some (NET_ERR_SIZE, s)
      else call_proto h n src dest b (reset_acc b s))) ?P" if "?W s'" "h \<in> registered" for h src dest s'
    unfolding post_bind by (rule w_remove_header [OF that(1)], unfold prod.case, rule post_ifI) (use err call that(2) in auto)
  have fin: "post (case ipv4_find_handler p s' of None \<Rightarrow> Some (NET_ERR_NOT_SUPPORT, s') | Some h \<Rightarrow>
      pktbuf_remove_header (Some b) (int header_size) s' \<bind> (\<lambda>(err, s). if err \<noteq> NET_ERR_OK then Some (NET_ERR_SIZE, s)
      else call_proto h n src dest b (reset_acc b s))) ?P" if "?W s'" for p src dest s'
    using err [OF that, of NET_ERR_NOT_SUPPORT] last [OF that] inv_registered [OF low(2) [OF that], of p]
    by (cases "ipv4_find_handler p s'") (simp_all add: ipv4_find_handler_def)
  have size: "header_size \<le> nat (uint ps)" if "\<not> (ps < of_nat header_size \<or> uint ps > tot)" for ps :: u16
    using that assms(6) by (simp add: word_less_nat_alt unat_of_nat take_bit_nat_eq_self)
  show ?thesis
    unfolding ipv4_deliver_def post_bind [of "pktbuf_get _ _ _ _"] Let_def
  proof (rule get [OF arp_workI [OF assms(1)] assms(4)], simp add: IPV4_HEADER_MIN_def, simp, rule post_ifI, goal_cases)
    case (1 x)
    show ?case by (rule err [OF arp_workI [OF assms(1)]]) simp
  next
    case (2 x)
    show ?case unfolding post_bind [of "pktbuf_resize _ _ _"]
    proof (rule w_resize [OF arp_workI [OF assms(1)]], unfold prod.case, rule post_ifI, goal_cases)
      case (2 e s1)
      then have c: "contiguous header_size (pktbufs s1 b)" using assms(4) size [OF \<open>\<not> (_ \<or> _)\<close>] by simp
      show ?case unfolding post_bind [of "pktbuf_checksum16 _ _ _ _ _"]
      proof (rule w_checksum [OF w_reset(1) [OF 2(1)]], simp, unfold prod.case, rule post_ifI, goal_cases)
        case (2 r s2)
        then have "contiguous header_size (pktbufs s2 b)" using c w_reset(3) [OF \<open>?W s1\<close>] by simp
        note g = get [OF 2(1) this]
        have gb: "post (pktbuf_get b off k s2 \<bind> f) ?P"
          if "off + k \<le> IPV4_HEADER_MIN" "0 < k" "\<And>x. post (f x) ?P" for off k f
          unfolding post_bind by (rule g [OF that])
        show ?case
          by (intro gb post_ifI fin [OF 2(1)] err [OF 2(1)]) (simp_all add: IPV4_HEADER_MIN_def IPV4_ADDR_SIZE_def)
      qed (rule err; simp)
    qed (rule err; simp)
  qed
qed

theorem ipv4_in_handled:
  assumes "arp_ok Q N s0 (add_mset b (H + holds s)) s" and "inv s" and "n \<in> N"
  shows "post (ipv4_in call_proto (Some n) (Some b) s) (\<lambda>(e, s'). arp_handled Q N s0 (H + holds s') b e s' \<and> inv s')"
    (is "post _ ?P")
proof -
  let ?W = "work Q N s0 (add_mset b (H + holds s) + waits s) b s"
  note w = arp_work [OF assms(1)]
  have low: "holds s' = holds s" "inv s'" if "?W s'" for s'
    by (rule holds_same [OF w(2) [OF that]], rule inv_same [OF w(2) [OF that] assms(2)])
  have err: "post (Some (e, s')) ?P" if "?W s'" "e \<noteq> NET_ERR_OK" for e s'
    using arp_handled_err [OF w(1) [OF that(1)] that(2)] low [OF that(1)] by simp
  have deliver: "post (ipv4_deliver call_proto n b hs tot s') ?P"
    if "?W s'" "contiguous hs (pktbufs s' b)" "IPV4_HEADER_MIN \<le> hs" "\<not> hs > IPV4_HEADER_MAX" for hs tot s'
    by (rule ipv4_deliver_handled)
      (use w(1) [OF that(1)] low [OF that(1)] assms(3) that(2-4) in \<open>simp_all add: IPV4_HEADER_MAX_def\<close>)
  have more: "post (if hs > IPV4_HEADER_MIN then pktbuf_set_cont (Some b) (int hs) s1 else Some (NET_ERR_OK, s1)) (\<lambda>x. post (case x of
      (err, s) \<Rightarrow> if err \<noteq> NET_ERR_OK \<or> pktbuf_data b s = None then Some (NET_ERR_SIZE, s)
      else ipv4_deliver call_proto n b hs tot s) ?P)"
    if "?W s1" "contiguous IPV4_HEADER_MIN (pktbufs s1 b)" "IPV4_HEADER_MIN \<le> hs" "\<not> hs > IPV4_HEADER_MAX" for hs tot s1
  proof (rule post_ifI, goal_cases)
    case 1
    show ?case
      by (rule w_set_cont [OF that(1)], unfold prod.case, rule post_ifI) (use err deliver that(3,4) in auto)
  next
    case 2
    with that(3) have "hs = IPV4_HEADER_MIN" by simp
    then show ?case using deliver [OF that(1)] that(2-4) err [OF that(1), of NET_ERR_SIZE] by simp
  qed
  show ?thesis
    unfolding ipv4_in_def prod.case option.case Let_def
  proof (rule post_ifI, goal_cases)
    case 1
    show ?case by (rule err [OF arp_workI [OF assms(1)]]) simp
  next
    case 2
    show ?case unfolding post_bind [of "pktbuf_set_cont _ _ _"]
    proof (rule w_set_cont [OF arp_workI [OF assms(1)]], unfold prod.case, rule post_ifI, goal_cases)
      case (1 e s1)
      show ?case by (rule err [OF 1(1)]) simp
    next
      case (2 e s1)
      then have c: "contiguous IPV4_HEADER_MIN (pktbufs s1 b)" by simp
      show ?case unfolding post_bind [of "pktbuf_get _ _ _ _"]
      proof (rule w_get [OF 2(1) c], simp add: IPV4_HEADER_MIN_def, simp, rule post_ifI)
      qed (rule err [OF 2(1)], simp, unfold post_bind [of "if _ then _ else _"], rule more [OF 2(1) c], simp_all)
    qed
  qed
qed

end



section \<open>Ethernet\<close>

locale ether_protocols =
  fixes call_handler :: "nat \<Rightarrow> nat \<Rightarrow> nat \<Rightarrow> 'a arp_state_scheme \<Rightarrow> (net_err \<times> 'a arp_state_scheme) option"
    and Q N :: "nat set" and holds :: "'a arp_state_scheme \<Rightarrow> nat multiset" and inv :: "'a arp_state_scheme \<Rightarrow> bool"
    and registered :: "nat set"
  assumes holds_same: "same_above s s' \<Longrightarrow> holds s' = holds s" and inv_same: "same_above s s' \<Longrightarrow> inv s \<Longrightarrow> inv s'"
    and inv_registered: "inv s \<Longrightarrow> x \<in> set (ether_handlers s) \<Longrightarrow> eh_handler x = Some h \<Longrightarrow> h \<in> registered"
    and handles: "h \<in> registered \<Longrightarrow> arp_ok Q N s0 (add_mset b (H + holds s)) s \<Longrightarrow> inv s \<Longrightarrow> n \<in> N \<Longrightarrow>
      ref (pktbufs s b) = Suc (count (fst s0) b) \<Longrightarrow>
      post (call_handler h n b s) (\<lambda>(e, s'). arp_handled Q N s0 (H + holds s') b e s' \<and> inv s')"
begin

theorem ether_in_handled:
  assumes "arp_ok Q N s0 (add_mset b (H + holds s)) s" and "inv s" and "n \<in> N" and "ref (pktbufs s b) = Suc (count (fst s0) b)"
  shows "post (ether_in call_handler (Some n) (Some b) s) (\<lambda>(e, s'). arp_handled Q N s0 (H + holds s') b e s' \<and> inv s')"
    (is "post _ ?P")
proof -
  let ?W = "work Q N s0 (add_mset b (H + holds s) + waits s) b s"
  note w = arp_work [OF assms(1)]
  have low: "holds s' = holds s" "inv s'" if "?W s'" for s'
    by (rule holds_same [OF w(2) [OF that]], rule inv_same [OF w(2) [OF that] assms(2)])
  have err: "post (Some (e, s')) ?P" if "?W s'" "e \<noteq> NET_ERR_OK" for e s'
    using arp_handled_err [OF w(1) [OF that(1)] that(2)] low [OF that(1)] by simp
  have call: "post (call_handler h n b s') ?P" if "?W s'" "h \<in> registered" for h s'
  proof (rule handles [OF that(2)])
    show "ref (pktbufs s' b) = Suc (count (fst s0) b)" using buf_onlyD(10) [OF workD(3) [OF that(1)]] assms(4) by simp
  qed (use w(1) [OF that(1)] low [OF that(1)] assms(3) in simp_all)
  have last: "post (pktbuf_remove_header (Some b) (int ETH_HDR_SIZE) s' \<bind> (\<lambda>(err, s). if err \<noteq> NET_ERR_OK then Some (NET_ERR_SIZE, s)
      else (case ether_find_handler p s' of None \<Rightarrow> Some (NET_ERR_NOT_SUPPORT, reset_acc b s)
        | Some h \<Rightarrow> call_handler (the (eh_handler h)) n b (reset_acc b s)))) ?P" if "?W s'" for p s'
    unfolding post_bind
  proof (rule w_remove_header [OF that], unfold prod.case, rule post_ifI, goal_cases)
    case (2 e s1)
    note w1 = w_reset(1) [OF 2(1)]
    have "the (eh_handler h) \<in> registered" if "ether_find_handler p s' = Some h" for h
    proof -
      from that have "h \<in> set (ether_handlers s') \<and> eh_handler h \<noteq> None"
        by (auto simp: ether_find_handler_def find_Some_iff)
      then show ?thesis using inv_registered [OF low(2) [OF \<open>?W s'\<close>], of h] by auto
    qed
    with call [OF w1] err [OF w1, of NET_ERR_NOT_SUPPORT] show ?case by (cases "ether_find_handler p s'") simp_all
  qed (rule err; simp)
  show ?thesis
    unfolding ether_in_def prod.case option.case Let_def
  proof (rule post_ifI, goal_cases)
    case 1
    show ?case by (rule err [OF arp_workI [OF assms(1)]]) simp
  next
    case 2
    show ?case unfolding post_bind [of "pktbuf_set_cont _ _ _"]
    proof (rule w_set_cont [OF arp_workI [OF assms(1)]], unfold prod.case, rule post_ifI, goal_cases)
      case (1 e s1)
      show ?case by (rule err [OF 1(1)]) simp
    next
      case (2 e s1)
      then have c: "contiguous ETH_HDR_SIZE (pktbufs s1 b)" by simp
      have gb: "post (pktbuf_get b off k s1 \<bind> f) ?P"
        if "off + k \<le> ETH_HDR_SIZE" "0 < k" "\<And>x. post (f x) ?P" for off k f
        unfolding post_bind by (rule w_get [OF 2(1) c that])
      show ?case
        by (intro gb post_ifI err [OF 2(1)] last [OF 2(1)]) (simp_all add: ETH_HDR_SIZE_def ETH_HWA_SIZE_def)
    qed
  qed
qed

end

end
