(* ===== verification/Udp.thy ===== *)
theory Udp
  imports Icmpv4
begin

text \<open>
  UDP, \<^verbatim>\<open>kernel/src/net/udp.c\<close>. A control block is named by its address; the table \<^verbatim>\<open>pcbs\<close> holds those that are
  open. A datagram that has arrived is noted in one of the records of the block's place in the table, and the
  address of the record is put into the receive queue of the block, \<open>UDP_Q p\<close>.

  A receiver may wait for a datagram while the network task works; what happens meanwhile is given by the list
  of sleeps (see \<open>Net_Sys\<close>). The lock \<^verbatim>\<open>state_locker\<close> makes its regions atomic.
\<close>

record udp_recv =
  ur_buf :: "nat option"
  ur_src :: ipaddr
  ur_port :: u16

record udp_pcb =
  up_local_port :: u16
  up_open :: bool
  up_close_done :: sys_sem_t
  up_recv_waiting :: bool

record udp_state = icmpv4_state +
  recv_records :: "nat \<Rightarrow> nat \<Rightarrow> udp_recv"
  udp_pcbs :: "nat option list"
  udp_mem :: "nat \<Rightarrow> udp_pcb"

definition UDP_HEADER_SIZE :: nat where "UDP_HEADER_SIZE = 8"
definition UDP_PCB_MAX :: nat where "UDP_PCB_MAX = 16"
definition UDP_RECV_MAX :: nat where "UDP_RECV_MAX = 8"

text \<open>The address of the function \<^verbatim>\<open>udp_in\<close>; the receive queue of a block; the addresses of a record and of a block.\<close>

definition UDP_IN :: nat where "UDP_IN = 2"
definition UDP_Q :: "nat \<Rightarrow> nat" where "UDP_Q p = 4 * p + 2"
definition REC_ADDR :: "nat \<Rightarrow> nat \<Rightarrow> addr" where "REC_ADDR i j = UDP_RECV_MAX * i + j"
definition PCB_ADDR :: "nat \<Rightarrow> addr" where "PCB_ADDR p = UDP_RECV_MAX * UDP_PCB_MAX + p"

definition upd_pcb :: "nat \<Rightarrow> (udp_pcb \<Rightarrow> udp_pcb) \<Rightarrow> 'a udp_state_scheme \<Rightarrow> 'a udp_state_scheme" where
  "upd_pcb p f s = s\<lparr>udp_mem := (udp_mem s)(p := f (udp_mem s p))\<rparr>"

definition record_at :: "addr \<Rightarrow> 'a udp_state_scheme \<Rightarrow> udp_recv" where
  "record_at a s = recv_records s (a div UDP_RECV_MAX) (a mod UDP_RECV_MAX)"

definition upd_record :: "addr \<Rightarrow> (udp_recv \<Rightarrow> udp_recv) \<Rightarrow> 'a udp_state_scheme \<Rightarrow> 'a udp_state_scheme" where
  "upd_record a f s =
     (let i = a div UDP_RECV_MAX; j = a mod UDP_RECV_MAX
      in s\<lparr>recv_records := (recv_records s)(i := (recv_records s i)(j := f (recv_records s i j)))\<rparr>)"


section \<open>The operations\<close>

definition udp_pseudo :: "ipaddr \<Rightarrow> ipaddr \<Rightarrow> u16 \<Rightarrow> u8 list" where
  "udp_pseudo src dest len =
     ipaddr_to_buf src @ ipaddr_to_buf dest @ [0, NET_PROTOCOL_UDP] @ le16_bytes (x_htons len)"

definition udp_checksum ::
  "nat \<Rightarrow> ipaddr \<Rightarrow> ipaddr \<Rightarrow> u16 \<Rightarrow> 'a pkt_state_scheme \<Rightarrow> (u16 \<times> 'a pkt_state_scheme) option" where
  "udp_checksum b src dest len s =
     (let pseudo = udp_pseudo src dest len;
          acc = checksum16 0 pseudo (of_nat (length pseudo)) 0 False
      in pktbuf_checksum16 (Some b) (uint len) (ucast acc) True (reset_acc b s))"

definition udp_init :: "'a udp_state_scheme \<Rightarrow> net_err \<times> 'a udp_state_scheme" where
  "udp_init s = ipv4_register_handler NET_PROTOCOL_UDP (Some UDP_IN) (s\<lparr>udp_pcbs := replicate UDP_PCB_MAX None\<rparr>)"

definition udp_find_slot :: "nat option \<Rightarrow> 'a udp_state_scheme \<Rightarrow> nat option" where
  "udp_find_slot pcb s = find_index (\<lambda>x. x = pcb) (udp_pcbs s)"

definition udp_open :: "nat option \<Rightarrow> 'a udp_state_scheme \<Rightarrow> net_err \<times> 'a udp_state_scheme" where
  "udp_open pcb s =
     (case pcb of
        None \<Rightarrow> (NET_ERR_PARAM, s)
      | Some p \<Rightarrow>
          if udp_find_slot pcb s \<noteq> None then (NET_ERR_PARAM, s)
          else case find_index (\<lambda>x. x = None) (udp_pcbs s) of
            None \<Rightarrow> (NET_ERR_MEM, s)
          | Some i \<Rightarrow>
              let s = upd_pcb p (\<lambda>x. x\<lparr>up_local_port := 0, up_open := True\<rparr>) s;
                  (err, s) = fixq_init (Some (UDP_Q p)) (Some (replicate UDP_RECV_MAX 0)) (int UDP_RECV_MAX) NLOCKER_THREAD s
              in if is_err err then (err, s)
                 else
                   let (sem, s) = sys_sem_create 0 s;
                       s = upd_pcb p (\<lambda>x. x\<lparr>up_close_done := sem\<rparr>) s
                   in if sem = None then (NET_ERR_MEM, fixq_destroy (Some (UDP_Q p)) s)
                      else
                        let s = upd_pcb p (\<lambda>x. x\<lparr>up_recv_waiting := False\<rparr>) s
                        in (NET_ERR_OK, s\<lparr>udp_pcbs := (udp_pcbs s)[i := pcb]\<rparr>))"

definition udp_bind :: "nat option \<Rightarrow> u16 \<Rightarrow> 'a udp_state_scheme \<Rightarrow> net_err \<times> 'a udp_state_scheme" where
  "udp_bind pcb port s =
     (case pcb of
        None \<Rightarrow> (NET_ERR_PARAM, s)
      | Some p \<Rightarrow>
          if \<not> up_open (udp_mem s p) \<or> udp_find_slot pcb s = None \<or> port = 0 then (NET_ERR_PARAM, s)
          else if list_ex (\<lambda>x. case x of None \<Rightarrow> False
                            | Some q \<Rightarrow> q \<noteq> p \<and> up_open (udp_mem s q) \<and> up_local_port (udp_mem s q) = port) (udp_pcbs s)
          then (NET_ERR_EXIST, s)
          else (NET_ERR_OK, upd_pcb p (\<lambda>x. x\<lparr>up_local_port := port\<rparr>) s))"

text \<open>The loop of \<^verbatim>\<open>udp_close\<close> that drops the datagrams nobody has received.\<close>

partial_function (option) udp_drain :: "nat \<Rightarrow> 'a udp_state_scheme \<Rightarrow> 'a udp_state_scheme option" where
  "udp_drain p s = do {
     (item, s) \<leftarrow> fixq_recv (Some (UDP_Q p)) (-1) [] s;
     case item of
       None \<Rightarrow> Some s
     | Some a \<Rightarrow>
         if a = PCB_ADDR p then udp_drain p s
         else
           let s = pktbuf_free (ur_buf (record_at a s)) s
           in udp_drain p (upd_record a (\<lambda>r. r\<lparr>ur_buf := None\<rparr>) s)
   }"

definition udp_close ::
  "nat option \<Rightarrow> 'a udp_state_scheme sleep list \<Rightarrow> 'a udp_state_scheme \<Rightarrow> (net_err \<times> 'a udp_state_scheme) option" where
  "udp_close pcb sleeps s =
     (case (udp_find_slot pcb s, pcb) of
        (Some slot, Some p) \<Rightarrow>
          if \<not> up_open (udp_mem s p) then Some (NET_ERR_PARAM, s)
          else do {
            let s = upd_pcb p (\<lambda>x. x\<lparr>up_open := False\<rparr>) s;
            s \<leftarrow> (if up_recv_waiting (udp_mem s p) then do {
                    let s = fixq_wake_receiver (Some (UDP_Q p)) s;
                    (_, s) \<leftarrow> sys_sem_wait (up_close_done (udp_mem s p)) 0 sleeps s;
                    Some s
                  } else Some s);
            s \<leftarrow> udp_drain p s;
            let s = fixq_destroy (Some (UDP_Q p)) s;
            let s = sys_sem_free (up_close_done (udp_mem s p)) s;
            let s = upd_pcb p (\<lambda>x. x\<lparr>up_local_port := 0\<rparr>) s;
            Some (NET_ERR_OK, s\<lparr>udp_pcbs := (udp_pcbs s)[slot := None]\<rparr>)
          }
      | _ \<Rightarrow> Some (NET_ERR_PARAM, s))"

definition udp_sendto ::
  "(nat \<Rightarrow> 'a udp_state_scheme netif_ops) \<Rightarrow> (nat \<Rightarrow> 'a udp_state_scheme link_out option) \<Rightarrow> nat option \<Rightarrow> nat option
   \<Rightarrow> ipaddr option \<Rightarrow> u16 \<Rightarrow> u8 list option \<Rightarrow> int \<Rightarrow> 'a udp_state_scheme \<Rightarrow> (net_err \<times> 'a udp_state_scheme) option" where
  "udp_sendto ops_of out_of pcb netif dest dest_port data sz s =
     (case (pcb, netif, dest) of
        (Some p, Some n, Some d) \<Rightarrow>
          if \<not> up_open (udp_mem s p) \<or> dest_port = 0 \<or> sz < 0 \<or> (sz \<noteq> 0 \<and> data = None) then Some (NET_ERR_PARAM, s)
          else
            (case pktbuf_alloc (int UDP_HEADER_SIZE + sz) s of
               (None, s) \<Rightarrow> Some (NET_ERR_MEM, s)
             | (Some b, s) \<Rightarrow> do {
                 let len = word_of_int (int UDP_HEADER_SIZE + sz);
                 s \<leftarrow> pktbuf_put b 0 (le16_bytes (x_htons (up_local_port (udp_mem s p)))) s;
                 s \<leftarrow> pktbuf_put b 2 (le16_bytes (x_htons dest_port)) s;
                 s \<leftarrow> pktbuf_put b 4 (le16_bytes (x_htons len)) s;
                 s \<leftarrow> pktbuf_put b 6 (le16_bytes 0) s;
                 (err, s) \<leftarrow> (if sz > 0 then do {
                               let s = reset_acc b s;
                               (err, s) \<leftarrow> pktbuf_seek (Some b) (int UDP_HEADER_SIZE) s;
                               if is_err err then Some (err, s) else pktbuf_write (Some b) data sz s
                             } else Some (NET_ERR_OK, s));
                 if is_err err then Some (NET_ERR_SIZE, pktbuf_free (Some b) s)
                 else do {
                   (checksum, s) \<leftarrow> udp_checksum b (nif_ipaddr (netifs s n)) d len s;
                   s \<leftarrow> pktbuf_put b 6 (le16_bytes (x_htons (if checksum = 0 then 0xffff else checksum))) s;
                   ipv4_out ops_of out_of netif dest NET_PROTOCOL_UDP (Some b) s
                 }
               })
      | _ \<Rightarrow> Some (NET_ERR_PARAM, s))"

definition udp_header_check :: "u8 list option \<Rightarrow> int \<Rightarrow> net_err" where
  "udp_header_check header sz =
     (case header of
        None \<Rightarrow> NET_ERR_SIZE
      | Some h \<Rightarrow>
          if sz < int UDP_HEADER_SIZE then NET_ERR_SIZE
          else if uint (x_ntohs (le16_at h 4)) < int UDP_HEADER_SIZE \<or> uint (x_ntohs (le16_at h 4)) > sz
          then NET_ERR_SIZE
          else NET_ERR_OK)"

text \<open>The delivery loop of \<^verbatim>\<open>udp_in\<close>: the first open block with the port gets the datagram.\<close>

definition udp_deliver ::
  "u16 \<Rightarrow> ipaddr \<Rightarrow> u16 \<Rightarrow> nat \<Rightarrow> 'a udp_state_scheme \<Rightarrow> (net_err \<times> 'a udp_state_scheme) option" where
  "udp_deliver port src src_port b s =
     (case find_index (\<lambda>x. case x of None \<Rightarrow> False
                         | Some p \<Rightarrow> up_open (udp_mem s p) \<and> up_local_port (udp_mem s p) = port) (udp_pcbs s) of
        None \<Rightarrow> Some (NET_ERR_UNREACH, s)
      | Some i \<Rightarrow>
          (case find_index (\<lambda>j. ur_buf (recv_records s i j) = None) [0..<UDP_RECV_MAX] of
             None \<Rightarrow> Some (NET_ERR_FULL, s)
           | Some j \<Rightarrow> do {
               let a = REC_ADDR i j;
               let s = upd_record a (\<lambda>_. \<lparr>ur_buf = Some b, ur_src = src, ur_port = src_port\<rparr>) s;
               (err, s) \<leftarrow> fixq_send (Some (UDP_Q (the (udp_pcbs s ! i)))) (Some a) (-1) [] s;
               if is_err err then Some (NET_ERR_FULL, upd_record a (\<lambda>r. r\<lparr>ur_buf := None\<rparr>) s)
               else Some (NET_ERR_OK, s)
             }))"

definition udp_in ::
  "nat option \<Rightarrow> ipaddr option \<Rightarrow> ipaddr \<Rightarrow> nat option \<Rightarrow> 'a udp_state_scheme \<Rightarrow> (net_err \<times> 'a udp_state_scheme) option" where
  "udp_in netif src dest buf s =
     (case (src, buf) of
        (Some a, Some b) \<Rightarrow> do {
          (err, s) \<leftarrow> pktbuf_set_cont buf (int UDP_HEADER_SIZE) s;
          if is_err err then Some (NET_ERR_SIZE, s)
          else do {
            header \<leftarrow> pktbuf_get b 0 UDP_HEADER_SIZE s;
            let err = udp_header_check (Some header) (pktbuf_total b s);
            if is_err err then Some (err, s)
            else do {
              let len = x_ntohs (le16_at header 4);
              (sum, s) \<leftarrow> (if le16_at header 6 \<noteq> 0 then udp_checksum b a dest len s else Some (0, s));
              if sum \<noteq> 0 then Some (NET_ERR_CHKSUM, s)
              else do {
                (err, s) \<leftarrow> pktbuf_resize buf (uint len) s;
                if is_err err then Some (NET_ERR_SIZE, s)
                else udp_deliver (x_ntohs (le16_at header 2)) a (x_ntohs (le16_at header 0)) b s
              }
            }
          }
        }
      | _ \<Rightarrow> Some (NET_ERR_SIZE, s))"

definition udp_recv_acquire :: "nat option \<Rightarrow> 'a udp_state_scheme \<Rightarrow> net_err \<times> 'a udp_state_scheme" where
  "udp_recv_acquire pcb s =
     (case pcb of
        None \<Rightarrow> (NET_ERR_PARAM, s)
      | Some p \<Rightarrow>
          if \<not> up_open (udp_mem s p) \<or> up_recv_waiting (udp_mem s p) then (NET_ERR_STATE, s)
          else (NET_ERR_OK, upd_pcb p (\<lambda>x. x\<lparr>up_recv_waiting := True\<rparr>) s))"

text \<open>The result, the bytes stored through \<^verbatim>\<open>data\<close>, and the sender's address and port as they are stored through
  those of \<^verbatim>\<open>src\<close> and \<^verbatim>\<open>src_port\<close> that are not null.\<close>

definition udp_recvfrom_acquired ::
  "nat option \<Rightarrow> bool \<Rightarrow> int \<Rightarrow> int \<Rightarrow> 'a udp_state_scheme sleep list \<Rightarrow> 'a udp_state_scheme
   \<Rightarrow> (int \<times> u8 list \<times> (ipaddr \<times> u16) option \<times> 'a udp_state_scheme) option" where
  "udp_recvfrom_acquired pcb data_null sz timeout_ms sleeps s =
     (case pcb of
        None \<Rightarrow> Some (net_err_code NET_ERR_PARAM, [], None, s)
      | Some p \<Rightarrow>
          if data_null \<or> sz < 0 then Some (net_err_code NET_ERR_PARAM, [], None, s)
          else do {
            (item, s) \<leftarrow> fixq_recv (Some (UDP_Q p)) timeout_ms sleeps s;
            let s = upd_pcb p (\<lambda>x. x\<lparr>up_recv_waiting := False\<rparr>) s;
            if \<not> up_open (udp_mem s p) then
              let s = (case item of
                         None \<Rightarrow> s
                       | Some a \<Rightarrow>
                           if a = PCB_ADDR p then s
                           else upd_record a (\<lambda>r. r\<lparr>ur_buf := None\<rparr>) (pktbuf_free (ur_buf (record_at a s)) s))
              in Some (net_err_code NET_ERR_STATE, [], None, sys_sem_notify (up_close_done (udp_mem s p)) s)
            else
              (case item of
                 None \<Rightarrow> Some (net_err_code (if timeout_ms < 0 then NET_ERR_NONE else NET_ERR_TMO), [], None, s)
               | Some a \<Rightarrow>
                   let buf = ur_buf (record_at a s);
                       drop_record = (\<lambda>s. upd_record a (\<lambda>r. r\<lparr>ur_buf := None\<rparr>) (pktbuf_free buf s))
                   in do {
                     (err, s) \<leftarrow> pktbuf_remove_header buf (int UDP_HEADER_SIZE) s;
                     if is_err err then Some (net_err_code NET_ERR_SIZE, [], None, drop_record s)
                     else do {
                       let tot = (case buf of None \<Rightarrow> 0 | Some b \<Rightarrow> pktbuf_total b s);
                       let copied = (if tot > sz then sz else tot);
                       let s = (case buf of None \<Rightarrow> s | Some b \<Rightarrow> reset_acc b s);
                       (err, bytes, s) \<leftarrow> pktbuf_read buf False copied s;
                       let r = record_at a s;
                       Some (if is_err err then net_err_code NET_ERR_SIZE else copied, bytes,
                             Some (ur_src r, ur_port r), drop_record s)
                     }
                   })
          })"

definition udp_recvfrom ::
  "nat option \<Rightarrow> bool \<Rightarrow> int \<Rightarrow> int \<Rightarrow> 'a udp_state_scheme sleep list \<Rightarrow> 'a udp_state_scheme
   \<Rightarrow> (int \<times> u8 list \<times> (ipaddr \<times> u16) option \<times> 'a udp_state_scheme) option" where
  "udp_recvfrom pcb data_null sz timeout_ms sleeps s =
     (if pcb = None \<or> data_null \<or> sz < 0 then Some (net_err_code NET_ERR_PARAM, [], None, s)
      else
        let (err, s) = udp_recv_acquire pcb s
        in if is_err err then Some (net_err_code NET_ERR_STATE, [], None, s)
           else udp_recvfrom_acquired pcb data_null sz timeout_ms sleeps s)"

end
