(* ===== verification/Udp_Own.thy ===== *)
theory Udp_Own
  imports Input_Own Udp
begin

text \<open>
  UDP holds the datagrams that nobody has received yet in its records. The invariant \<open>udp_ok\<close> ties the records to the
  receive queues: the queue of an open block holds the addresses of exactly those records of its place that hold a
  datagram, each once.
\<close>

section \<open>The records\<close>

definition rec_buf :: "udp_recv \<Rightarrow> nat multiset" where
  "rec_buf r = (case ur_buf r of None \<Rightarrow> {#} | Some b \<Rightarrow> {#b#})"

definition rec_bufs :: "'a udp_state_scheme \<Rightarrow> nat multiset" where
  "rec_bufs s = (\<Sum>a<UDP_PCB_MAX * UDP_RECV_MAX. rec_buf (record_at a s))"

text \<open>The addresses of the records of place \<open>i\<close> that hold a datagram.\<close>

definition full_recs :: "nat \<Rightarrow> 'a udp_state_scheme \<Rightarrow> nat set" where
  "full_recs i s = {a. a div UDP_RECV_MAX = i \<and> ur_buf (record_at a s) \<noteq> None}"

definition slot_ok :: "nat set \<Rightarrow> nat \<Rightarrow> nat option \<Rightarrow> 'a udp_state_scheme \<Rightarrow> bool" where
  "slot_ok Q i pcb s \<longleftrightarrow>
     (case pcb of
        None \<Rightarrow> full_recs i s = {}
      | Some p \<Rightarrow> UDP_Q p \<in> Q \<and> fq_size (fixqs s (UDP_Q p)) = UDP_RECV_MAX \<and> distinct (fixq_items (UDP_Q p) s) \<and>
          set (fixq_items (UDP_Q p) s) = full_recs i s)"

definition udp_ok :: "nat set \<Rightarrow> 'a udp_state_scheme \<Rightarrow> bool" where
  "udp_ok Q s \<longleftrightarrow> length (udp_pcbs s) = UDP_PCB_MAX \<and>
     (\<forall>i<UDP_PCB_MAX. \<forall>j<UDP_PCB_MAX. i \<noteq> j \<longrightarrow> udp_pcbs s ! i \<noteq> None \<longrightarrow> udp_pcbs s ! i \<noteq> udp_pcbs s ! j) \<and>
     (\<forall>i<UDP_PCB_MAX. slot_ok Q i (udp_pcbs s ! i) s)"

lemma udp_okD:
  assumes "udp_ok Q s"
  shows "length (udp_pcbs s) = UDP_PCB_MAX" "i < UDP_PCB_MAX \<Longrightarrow> slot_ok Q i (udp_pcbs s ! i) s"
    "i < UDP_PCB_MAX \<Longrightarrow> j < UDP_PCB_MAX \<Longrightarrow> udp_pcbs s ! i = Some p \<Longrightarrow> udp_pcbs s ! j = Some p \<Longrightarrow> i = j"
  using assms unfolding udp_ok_def by auto metis

lemma slot_pcb:
  assumes "udp_ok Q s" and "i < UDP_PCB_MAX" and "udp_pcbs s ! i = Some p"
  shows "UDP_Q p \<in> Q" "fq_size (fixqs s (UDP_Q p)) = UDP_RECV_MAX" "distinct (fixq_items (UDP_Q p) s)"
    "set (fixq_items (UDP_Q p) s) = full_recs i s"
  using udp_okD(2) [OF assms(1,2)] assms(3) by (simp_all add: slot_ok_def)

lemma rec_addr [simp]:
  "j < UDP_RECV_MAX \<Longrightarrow> REC_ADDR i j div UDP_RECV_MAX = i" "j < UDP_RECV_MAX \<Longrightarrow> REC_ADDR i j mod UDP_RECV_MAX = j"
  "i < UDP_PCB_MAX \<Longrightarrow> j < UDP_RECV_MAX \<Longrightarrow> REC_ADDR i j < UDP_PCB_MAX * UDP_RECV_MAX"
  by (simp_all add: REC_ADDR_def UDP_RECV_MAX_def UDP_PCB_MAX_def)

lemma record_at_upd [simp]: "record_at a' (upd_record a f s) = (if a' = a then f (record_at a s) else record_at a' s)"
proof -
  have "a' = a" if "a' div UDP_RECV_MAX = a div UDP_RECV_MAX" "a' mod UDP_RECV_MAX = a mod UDP_RECV_MAX"
    using that by (metis div_mult_mod_eq)
  then show ?thesis by (auto simp: record_at_def upd_record_def Let_def)
qed

lemma upd_record_frame [simp]:
  "udp_pcbs (upd_record a f s) = udp_pcbs s" "fixqs (upd_record a f s) = fixqs s" "udp_mem (upd_record a f s) = udp_mem s"
  "fixq_items q (upd_record a f s) = fixq_items q s" "pktbufs (upd_record a f s) = pktbufs s"
  by (simp_all add: upd_record_def fixq_items_def Let_def)

lemma rec_bufs_upd:
  assumes "a < UDP_PCB_MAX * UDP_RECV_MAX"
  shows "rec_bufs (upd_record a f s) + rec_buf (record_at a s) = rec_bufs s + rec_buf (f (record_at a s))"
  using assms by (simp add: rec_bufs_def sum.remove [of "{..<UDP_PCB_MAX * UDP_RECV_MAX}" a] ac_simps)

lemma full_recs_upd:
  "full_recs i (upd_record a f s) = (if a div UDP_RECV_MAX = i then
     (if ur_buf (f (record_at a s)) = None then full_recs i s - {a} else insert a (full_recs i s)) else full_recs i s)"
  by (auto simp: full_recs_def split: if_splits)

lemma finite_full_recs [simp]: "finite (full_recs i s)"
  by (rule finite_subset [of _ "{..<UDP_RECV_MAX * Suc i}"]) (auto simp: full_recs_def UDP_RECV_MAX_def)

lemma keep_upd_record [simp]:
  "keep Q N s0 H (upd_record a f s) \<longleftrightarrow> keep Q N s0 H s" "keep Q N s0 H (upd_pcb p g s) \<longleftrightarrow> keep Q N s0 H s"
  "keep Q N s0 H (s\<lparr>udp_pcbs := l\<rparr>) \<longleftrightarrow> keep Q N s0 H s"
  by (rule keep_low; simp add: upd_record_def upd_pcb_def Let_def)+

lemma arp_wf_udp [simp]:
  "arp_wf N (upd_record a f s) \<longleftrightarrow> arp_wf N s" "waits_in E (upd_record a f s) = waits_in E s" "cache_list (upd_record a f s) = cache_list s"
  "arp_wf N (upd_pcb p g s) \<longleftrightarrow> arp_wf N s" "waits_in E (upd_pcb p g s) = waits_in E s" "cache_list (upd_pcb p g s) = cache_list s"
  "arp_wf N (s\<lparr>udp_pcbs := l\<rparr>) \<longleftrightarrow> arp_wf N s" "waits_in E (s\<lparr>udp_pcbs := l\<rparr>) = waits_in E s"
  by (simp_all add: arp_wf_def hw_ok_def waits_in_def upd_record_def upd_pcb_def Let_def)

lemma arp_ok_upd_record [simp]:
  "arp_ok Q N s0 H (upd_record a f s) \<longleftrightarrow> arp_ok Q N s0 H s" "arp_ok Q N s0 H (upd_pcb p g s) \<longleftrightarrow> arp_ok Q N s0 H s"
  "arp_ok Q N s0 H (s\<lparr>udp_pcbs := l\<rparr>) \<longleftrightarrow> arp_ok Q N s0 H s"
  by (simp_all add: arp_ok_def)

text \<open>The layers below do not touch the records and the receive queues.\<close>

lemma UDP_Q_mod [simp]: "UDP_Q p mod 4 = 2" "UDP_Q p \<notin> nif_queues N" "UDP_Q p = UDP_Q p' \<longleftrightarrow> p = p'"
  by (auto simp: UDP_Q_def nif_queues_def IN_Q_def OUT_Q_def) presburger+

lemma udp_ok_frame:
  assumes "udp_pcbs s' = udp_pcbs s" and "recv_records s' = recv_records s" and "\<And>p. fixqs s' (UDP_Q p) = fixqs s (UDP_Q p)"
  shows "udp_ok Q s' \<longleftrightarrow> udp_ok Q s" and "rec_bufs s' = rec_bufs s"
proof -
  have r: "record_at a s' = record_at a s" for a using assms(2) by (simp add: record_at_def)
  show "rec_bufs s' = rec_bufs s" by (simp add: rec_bufs_def r)
  have "slot_ok Q i pcb s' = slot_ok Q i pcb s" for i pcb
    using assms(3) by (simp add: slot_ok_def full_recs_def r fixq_items_def split: option.split)
  with assms(1) show "udp_ok Q s' \<longleftrightarrow> udp_ok Q s" by (simp add: udp_ok_def)
qed

lemma icmp_onlyD:
  assumes "icmp_only s s'"
  shows "netifs s' = netifs s" "ether_handlers s' = ether_handlers s" "ipv4_handlers s' = ipv4_handlers s"
    "icmpv4_state.more s' = icmpv4_state.more s" "2 \<le> q mod 4 \<Longrightarrow> fixqs s' q = fixqs s q"
proof -
  note d = ip_onlyD [OF assms [unfolded icmp_only_def]]
  from d(1,3,4,6) show "netifs s' = netifs s" "ether_handlers s' = ether_handlers s" "ipv4_handlers s' = ipv4_handlers s"
    "2 \<le> q mod 4 \<Longrightarrow> fixqs s' q = fixqs s q" by simp_all
  from d(5) show "icmpv4_state.more s' = icmpv4_state.more s" by (cases s; cases s'; simp)
qed

lemma udp_ok_icmp_only:
  assumes "icmp_only s s'"
  shows "udp_ok Q s' \<longleftrightarrow> udp_ok Q s" and "rec_bufs s' = rec_bufs s"
proof -
  have e: "udp_pcbs s' = udp_pcbs s" "recv_records s' = recv_records s"
    using icmp_onlyD(4) [OF assms] by (cases s; cases s'; simp)+
  note f = udp_ok_frame [OF e, OF icmp_onlyD(5) [OF assms]]
  show "udp_ok Q s' \<longleftrightarrow> udp_ok Q s" "rec_bufs s' = rec_bufs s" by (rule f; simp)+
qed


section \<open>Input\<close>

lemma arp_ok_queue:
  assumes "arp_ok Q N s0 H s" and "queue_only q s s'" and "queues_ok Q s'" and "q \<notin> nif_queues N"
  shows "arp_ok Q N s0 H s'"
proof -
  from assms(2) have m: "fixq_state.more s' = fixq_state.more s" by (simp add: queue_only_def)
  then have "cache_list s' = cache_list s" "cache_blocks s' = cache_blocks s" "cache_entries s' = cache_entries s" "netifs s' = netifs s"
    by (cases s; cases s'; simp)+
  then have "arp_wf N s' = arp_wf N s" "waits s' = waits s" by (simp_all add: arp_wf_def hw_ok_def waits_in_def)
  with keep_queue_only [OF arp_okD(2) [OF assms(1)] assms(2-4)] arp_okD(1) [OF assms(1)] show ?thesis by (simp add: arp_ok_def)
qed

lemma arp_ok_queues: "arp_ok Q N s0 H s \<Longrightarrow> queues_ok Q s"
  by (simp add: arp_ok_def keep_def pool_ok_def)

lemma queue_only_udp:
  assumes "queue_only q s s'"
  shows "udp_pcbs s' = udp_pcbs s" "recv_records s' = recv_records s" "udp_mem s' = udp_mem s" "record_at a s' = record_at a s"
proof -
  from assms have "fixq_state.more s' = fixq_state.more s" by (simp add: queue_only_def)
  then show "udp_pcbs s' = udp_pcbs s" "recv_records s' = recv_records s" "udp_mem s' = udp_mem s" "record_at a s' = record_at a s"
    by (cases s; cases s'; simp add: record_at_def)+
qed

text \<open>The invariant after a change of one record of place \<open>i\<close> and of the queue of its block.\<close>

lemma udp_ok_change:
  assumes "udp_ok Q s" and "i < UDP_PCB_MAX" and "udp_pcbs s ! i = Some p" and "a div UDP_RECV_MAX = i"
    and "udp_pcbs s' = udp_pcbs s" and "\<And>x. record_at x s' = (if x = a then r else record_at x s)"
    and "\<And>p'. p' \<noteq> p \<Longrightarrow> fixqs s' (UDP_Q p') = fixqs s (UDP_Q p')" and "fq_size (fixqs s' (UDP_Q p)) = fq_size (fixqs s (UDP_Q p))"
    and "distinct (fixq_items (UDP_Q p) s')"
    and "set (fixq_items (UDP_Q p) s') = (if ur_buf r = None then full_recs i s - {a} else insert a (full_recs i s))"
  shows "udp_ok Q s'"
proof -
  note u = udp_okD [OF assms(1)]
  have "slot_ok Q j (udp_pcbs s ! j) s'" if j: "j < UDP_PCB_MAX" for j
  proof (cases "j = i")
    case True
    have "full_recs i s' = (if ur_buf r = None then full_recs i s - {a} else insert a (full_recs i s))"
      using assms(4) by (auto simp: full_recs_def assms(6) split: if_splits)
    with True assms(3,8,9,10) slot_pcb(1,2) [OF assms(1-3)] show ?thesis by (simp add: slot_ok_def)
  next
    case False
    have "full_recs j s' = full_recs j s" using False assms(4) by (auto simp: full_recs_def assms(6) split: if_splits)
    moreover have "fixqs s' (UDP_Q p') = fixqs s (UDP_Q p')" if "udp_pcbs s ! j = Some p'" for p'
      using u(3) [OF j assms(2) that] assms(3,7) False by (cases "p' = p") auto
    ultimately show ?thesis using u(2) [OF j] by (auto simp: slot_ok_def fixq_items_def split: option.splits)
  qed
  with assms(1,5) show ?thesis by (simp add: udp_ok_def)
qed

lemma queue_room:
  assumes "udp_ok Q s" and "i < UDP_PCB_MAX" and "udp_pcbs s ! i = Some p" and "j < UDP_RECV_MAX" and "ur_buf (recv_records s i j) = None"
  shows "length (fixq_items (UDP_Q p) s) < UDP_RECV_MAX" and "REC_ADDR i j \<notin> full_recs i s"
proof -
  show n: "REC_ADDR i j \<notin> full_recs i s" using assms(4,5) by (simp add: full_recs_def record_at_def)
  have sub: "full_recs i s \<subseteq> REC_ADDR i ` {..<UDP_RECV_MAX}"
  proof
    fix a
    assume "a \<in> full_recs i s"
    then have "a = REC_ADDR i (a mod UDP_RECV_MAX)" by (auto simp: full_recs_def REC_ADDR_def)
    then show "a \<in> REC_ADDR i ` {..<UDP_RECV_MAX}" by (rule image_eqI) (simp add: UDP_RECV_MAX_def)
  qed
  with n assms(4) have "full_recs i s \<subset> REC_ADDR i ` {..<UDP_RECV_MAX}" by blast
  then have "card (full_recs i s) < card (REC_ADDR i ` {..<UDP_RECV_MAX})" by (rule psubset_card_mono [rotated]) simp
  moreover have "card (REC_ADDR i ` {..<UDP_RECV_MAX}) \<le> UDP_RECV_MAX"
    using card_image_le [of "{..<UDP_RECV_MAX}" "REC_ADDR i"] by simp
  moreover have "length (fixq_items (UDP_Q p) s) = card (full_recs i s)"
    using slot_pcb(3,4) [OF assms(1-3)] distinct_card by metis
  ultimately show "length (fixq_items (UDP_Q p) s) < UDP_RECV_MAX" by simp
qed

lemma udp_deliver_handled:
  assumes "arp_ok Q N s0 (add_mset b (H + rec_bufs s)) s" and "udp_ok Q s"
  shows "post (udp_deliver port src src_port b s) (\<lambda>(e, s'). arp_handled Q N s0 (H + rec_bufs s') b e s' \<and> udp_ok Q s')"
    (is "post _ ?P")
proof -
  have err: "post (Some (e, s)) ?P" if "e \<noteq> NET_ERR_OK" for e
    using arp_handled_err [OF assms(1) that] assms(2) by simp
  show ?thesis
  proof (cases "find_index (\<lambda>x. case x of None \<Rightarrow> False
      | Some p \<Rightarrow> up_open (udp_mem s p) \<and> up_local_port (udp_mem s p) = port) (udp_pcbs s)")
    case None
    then show ?thesis using err [of NET_ERR_UNREACH] unfolding udp_deliver_def None option.case by simp
  next
    case i: (Some i)
    from find_index_SomeD [OF i] udp_okD(1) [OF assms(2)] obtain p where ip: "i < UDP_PCB_MAX" "udp_pcbs s ! i = Some p"
      by (auto split: option.splits)
    show ?thesis
    proof (cases "find_index (\<lambda>j. ur_buf (recv_records s i j) = None) [0..<UDP_RECV_MAX]")
      case None
      show ?thesis unfolding udp_deliver_def i None option.case by (rule err) simp
    next
      case j: (Some j)
      from find_index_SomeD [OF j] have j8: "j < UDP_RECV_MAX" and free: "ur_buf (recv_records s i j) = None" by simp_all
      let ?a = "REC_ADDR i j" and ?f = "\<lambda>_. \<lparr>ur_buf = Some b, ur_src = src, ur_port = src_port\<rparr>"
      let ?s1 = "upd_record ?a ?f s"
      note sp = slot_pcb [OF assms(2) ip] and room = queue_room [OF assms(2) ip j8 free]
      have a1: "arp_ok Q N s0 (add_mset b (H + rec_bufs s)) ?s1" using assms(1) by simp
      show ?thesis
        unfolding udp_deliver_def i j option.case Let_def post_bind
      proof (simp only: upd_record_frame ip option.sel, rule post_pair [OF queue_send [OF arp_ok_queues [OF a1] sp(1)]], goal_cases)
        case (2 e s2)
        then have e: "e = NET_ERR_OK" using room(1) sp(2) by (auto split: if_splits)
        with 2 have o: "queue_only (UDP_Q p) ?s1 s2" and it: "fixq_items (UDP_Q p) s2 = fixq_items (UDP_Q p) s @ [?a]" by simp_all
        note k = queue_only_udp [OF o]
        have "udp_ok Q s2"
        proof (rule udp_ok_change [OF assms(2) ip, of ?a])
          show "record_at x s2 = (if x = ?a then ?f undefined else record_at x s)" for x by (simp add: k)
          show "set (fixq_items (UDP_Q p) s2) = (if ur_buf (?f undefined) = None then full_recs i s - {?a} else insert ?a (full_recs i s))"
            using sp(4) by (simp add: it)
        qed (use o k(1) j8 sp(3,4) room(2) in \<open>auto simp: queue_only_def it\<close>)
        moreover have "arp_ok Q N s0 (H + rec_bufs s2) s2"
        proof -
          have "rec_bufs s2 = rec_bufs ?s1" by (simp add: rec_bufs_def k)
          also have "\<dots> = add_mset b (rec_bufs s)"
            using rec_bufs_upd [of ?a ?f s] rec_addr(3) [OF ip(1) j8] j8 free by (simp add: rec_buf_def record_at_def)
          finally show ?thesis using arp_ok_queue [OF a1 o] 2 by simp
        qed
        ultimately show ?case using e by (simp add: arp_handled_ok)
      qed simp
    qed
  qed
qed

lemma udp_acc_small: "unat (ucast (x :: u16) :: u32) \<le> 65535"
proof -
  have x: "unat x < 2 ^ 16" using unsigned_less [of x, where ?'a = nat] by simp
  then have "unat (ucast x :: u32) = unat x" by (simp add: unsigned_ucast_eq take_bit_nat_eq_self)
  with x show ?thesis by simp
qed

theorem udp_in_handled:
  assumes "arp_ok Q N s0 (add_mset b (H + rec_bufs s)) s" and "udp_ok Q s"
  shows "post (udp_in netif src dest (Some b) s) (\<lambda>(e, s'). arp_handled Q N s0 (H + rec_bufs s') b e s' \<and> udp_ok Q s')"
    (is "post _ ?P")
proof -
  let ?W = "work Q N s0 (add_mset b (H + rec_bufs s) + waits s) b s"
  note w = arp_work [OF assms(1)]
  have low: "rec_bufs s' = rec_bufs s" "udp_ok Q s'" if "?W s'" for s'
    using udp_ok_icmp_only [OF icmp_only_same [OF w(2) [OF that]]] assms(2) by simp_all
  have err: "post (Some (e, s')) ?P" if "?W s'" "e \<noteq> NET_ERR_OK" for e s'
    using arp_handled_err [OF w(1) [OF that(1)] that(2)] low [OF that(1)] by simp
  have deliver: "post (udp_deliver port a sp b s') ?P" if "?W s'" for port a sp s'
    by (rule udp_deliver_handled) (use w(1) [OF that] low [OF that] in simp_all)
  have cut: "post (pktbuf_resize (Some b) len s' \<bind> (\<lambda>(err, s). if is_err err then Some (NET_ERR_SIZE, s)
      else udp_deliver port a sp b s)) ?P" if "?W s'" for len port a sp s'
    unfolding post_bind by (rule w_resize [OF that], unfold prod.case, rule post_ifI) (use err deliver in auto)
  have sum: "post (if c then udp_checksum b a dest len s' else Some (0, s')) R"
    if "?W s'" "\<And>r s'. ?W s' \<Longrightarrow> R (r, s')" for c a len s' R
    unfolding udp_checksum_def Let_def
    by (intro post_ifI w_checksum [OF w_reset(1) [OF that(1)]]) (use that in \<open>simp_all add: udp_acc_small\<close>)
  show ?thesis
  proof (cases src)
    case None
    then show ?thesis using err [OF arp_workI [OF assms(1)], of NET_ERR_SIZE] by (simp add: udp_in_def)
  next
    case (Some a)
    show ?thesis
      unfolding udp_in_def Some prod.case option.case Let_def post_bind [of "pktbuf_set_cont _ _ _"]
    proof (rule w_set_cont [OF arp_workI [OF assms(1)]], unfold prod.case, rule post_ifI, goal_cases)
      case (1 e s1)
      show ?case by (rule err [OF 1(1)]) simp
    next
      case (2 e s1)
      then have c: "contiguous UDP_HEADER_SIZE (pktbufs s1 b)" by simp
      show ?case unfolding post_bind [of "pktbuf_get _ _ _ _"]
      proof (rule w_get [OF 2(1) c], simp, simp add: UDP_HEADER_SIZE_def, rule post_ifI, goal_cases)
        case 1
        then show ?case by (intro err [OF 2(1)]) simp
      next
        case 2
        show ?case unfolding post_bind [of "if _ then _ else _"]
          by (rule sum [OF \<open>?W s1\<close>], unfold prod.case, intro post_ifI err cut) simp_all
      qed
    qed
  qed
qed



section \<open>Output\<close>

locale udp_links = icmp_links ops_of Q N out_of
  for ops_of :: "nat \<Rightarrow> 'a udp_state_scheme netif_ops" and Q N :: "nat set"
    and out_of :: "nat \<Rightarrow> 'a udp_state_scheme link_out option"
begin

theorem udp_sendto_keeps:
  assumes "arp_ok Q N s0 H s" and "\<And>n. netif = Some n \<Longrightarrow> n \<in> N"
    and "\<And>bytes. data = Some bytes \<Longrightarrow> nat sz \<le> length bytes"
  shows "post (udp_sendto ops_of out_of pcb netif dest dest_port data sz s) (\<lambda>(e, s'). arp_ok Q N s0 H s' \<and> ip_only s s')"
proof (cases "\<exists>p n d. pcb = Some p \<and> netif = Some n \<and> dest = Some d \<and>
    \<not> (\<not> up_open (udp_mem s p) \<or> dest_port = 0 \<or> sz < 0 \<or> (sz \<noteq> 0 \<and> data = None))")
  case False
  with assms(1) show ?thesis by (auto simp: udp_sendto_def split: option.split)
next
  case True
  then obtain p n d where nd: "pcb = Some p" "netif = Some n" "dest = Some d"
    and g: "(\<not> up_open (udp_mem s p) \<or> dest_port = 0 \<or> sz < 0 \<or> (sz \<noteq> 0 \<and> data = None)) = False" by blast
  obtain r s1 where al: "pktbuf_alloc (int UDP_HEADER_SIZE + sz) s = (r, s1)" by (metis surj_pair)
  note k = arp_alloc [OF assms(1) al]
  show ?thesis
  proof (cases r)
    case None
    then show ?thesis using nd al k(2) cache_ip_only [OF same_cache(6) [OF k(1)]] assms(1) by (simp add: udp_sendto_def)
  next
    case (Some b)
    let ?W = "work Q N s0 (add_mset b H + waits s1) b s1"
    note ok1 = k(3) [OF Some]
    note w = arp_work [OF ok1]
    have c: "contiguous UDP_HEADER_SIZE (pktbufs s1 b)"
      using al Some g by (intro pktbuf_alloc_contiguous) (auto simp: UDP_HEADER_SIZE_def PKTBUF_BLK_SIZE_def)
    note put = w_put_any [where Q = Q and N = N and ?s0.0 = s0 and H = "add_mset b H + waits s1" and b = b and ?s1.0 = s1 and n = UDP_HEADER_SIZE]
    have only: "ip_only s s'" if "?W s'" for s'
      using ip_only_trans cache_ip_only [OF same_cache(6) [OF k(1)]] cache_ip_only [OF same_cache(6) [OF w(2) [OF that]]] by blast
    have out: "post (ipv4_out ops_of out_of (Some n) (Some d) NET_PROTOCOL_UDP (Some b) s') (\<lambda>(e, s'). arp_ok Q N s0 H s' \<and> ip_only s s')"
      if "?W s'" for s'
      by (rule post_pair [OF ipv4_out_consumes [OF w(1) [OF that]]]) (use assms(2) nd only [OF that] in \<open>auto intro: ip_only_trans\<close>)
    have pay: "post (if sz > 0 then pktbuf_seek (Some b) (int UDP_HEADER_SIZE) (reset_acc b s') \<bind>
          (\<lambda>(err, s). if is_err err then Some (err, s) else pktbuf_write (Some b) data sz s) else Some (NET_ERR_OK, s')) R"
      if "?W s'" "contiguous UDP_HEADER_SIZE (pktbufs s' b)"
        "\<And>e s'. ?W s' \<Longrightarrow> contiguous UDP_HEADER_SIZE (pktbufs s' b) \<Longrightarrow> R (e, s')" for s' R
      unfolding is_err_iff using that assms(3) g by (intro post_ifI; (unfold post_bind)?; (intro w_payload [OF that(1,2)])?) auto
    have fin: "post (case (e, s') of (err, s) \<Rightarrow> if is_err err then Some (NET_ERR_SIZE, pktbuf_free (Some b) s)
        else udp_checksum b (nif_ipaddr (netifs s n)) d len s \<bind>
          (\<lambda>(r, s). pktbuf_put b 6 (le16_bytes (x_htons (if r = 0 then 0xffff else r))) s \<bind>
            ipv4_out ops_of out_of (Some n) (Some d) NET_PROTOCOL_UDP (Some b))) (\<lambda>(e, s'). arp_ok Q N s0 H s' \<and> ip_only s s')"
      if "?W s'" "contiguous UDP_HEADER_SIZE (pktbufs s' b)" for e s' len
    proof (unfold prod.case, rule post_ifI, goal_cases)
      case 1
      then show ?case using arp_free [OF w(1) [OF that(1)]] only [OF that(1)] by simp
    next
      case 2
      show ?case unfolding udp_checksum_def Let_def post_bind
      proof (rule w_checksum [OF w_reset(1) [OF that(1)] udp_acc_small], unfold prod.case post_bind, goal_cases)
        case (1 r s2)
        then have "contiguous UDP_HEADER_SIZE (pktbufs s2 b)" using w_reset(3) [OF that(1)] that(2) by simp
        then show ?case by (rule put [OF 1(1)]) (use out in \<open>simp_all add: UDP_HEADER_SIZE_def\<close>)
      qed
    qed
    show ?thesis
      unfolding udp_sendto_def nd al Some prod.case option.case g if_False Let_def
      by (unfold post_bind [of "pktbuf_put _ _ _ _"] post_bind [of "if _ then _ else _"], intro put pay fin)
        (use workI [OF arp_okD(2) [OF ok1]] c in \<open>simp_all add: UDP_HEADER_SIZE_def\<close>)
  qed
qed

end

end
