(* ===== verification/Dns.thy ===== *)
theory Dns
  imports Ipaddr
begin

unbundle bit_operations_syntax

text \<open>
  The messages of the domain name system, \<^verbatim>\<open>kernel/src/net/dns.c\<close>. A C string is the list of its bytes without the
  terminating zero. Reading behind the end of a packet, and writing behind the end of the array of a query, is
  \<open>None\<close>.
\<close>

record dns_query =
  dq_id :: u16
  dq_bytes :: "u8 list"
  dq_length :: nat

definition DNS_HEADER_SIZE :: nat where "DNS_HEADER_SIZE = 12"
definition DNS_FLAG_RESPONSE :: u16 where "DNS_FLAG_RESPONSE = 0x8000"
definition DNS_FLAG_TRUNCATED :: u16 where "DNS_FLAG_TRUNCATED = 0x0200"
definition DNS_TYPE_A :: u16 where "DNS_TYPE_A = 1"
definition DNS_CLASS_IN :: u16 where "DNS_CLASS_IN = 1"

definition byte_at :: "u8 list \<Rightarrow> nat \<Rightarrow> u8 option" where
  "byte_at data i = (if i < length data then Some (data ! i) else None)"

definition bytes_at :: "u8 list \<Rightarrow> nat \<Rightarrow> nat \<Rightarrow> u8 list option" where
  "bytes_at data i n = (if i + n \<le> length data then Some (get_at i n data) else None)"

definition store_at :: "nat \<Rightarrow> u8 list \<Rightarrow> u8 list \<Rightarrow> u8 list option" where
  "store_at i bs data = (if i + length bs \<le> length data then Some (put_at i bs data) else None)"

definition read_u16 :: "u8 list \<Rightarrow> nat \<Rightarrow> u16 option" where
  "read_u16 data i = do {
     a \<leftarrow> byte_at data i;
     b \<leftarrow> byte_at data (i + 1);
     Some (push_bit 8 (ucast a) OR ucast b)
   }"

definition write_u16 :: "nat \<Rightarrow> u16 \<Rightarrow> u8 list \<Rightarrow> u8 list option" where
  "write_u16 i v data = store_at i [ucast (drop_bit 8 v), ucast v] data"

definition DOT :: u8 where "DOT = 0x2e"


section \<open>The query\<close>

lemma length_after_label: "cursor \<noteq> [] \<Longrightarrow> length (tl (dropWhile P cursor)) < length cursor"
  using length_dropWhile_le [of P cursor] by (cases cursor) (auto simp: less_Suc_eq_le le_diff_conv)

text \<open>The loop of \<^verbatim>\<open>append_name\<close> from \<open>cursor\<close> on: the error, the array and the length.\<close>

function append_name_loop :: "u8 list \<Rightarrow> nat \<Rightarrow> nat \<Rightarrow> u8 list \<Rightarrow> (net_err \<times> u8 list \<times> nat) option" where
  "append_name_loop packet len encoded cursor =
     (if cursor = [] then do {
        packet \<leftarrow> store_at len [0] packet;
        Some (NET_ERR_OK, packet, len + 1)
      }
      else
        let label = takeWhile (\<lambda>c. c \<noteq> DOT) cursor;
            cursor = dropWhile (\<lambda>c. c \<noteq> DOT) cursor;
            label_length = length label
        in if label_length = 0 \<or> label_length > 63 \<or> encoded + label_length + 1 > 255 then Some (NET_ERR_PARAM, packet, len)
           else do {
             packet \<leftarrow> store_at len [of_nat label_length] packet;
             packet \<leftarrow> store_at (len + 1) label packet;
             let len = len + 1 + label_length;
             let encoded = encoded + label_length + 1;
             if cursor = [] then append_name_loop packet len encoded []
             else if tl cursor = [] then Some (NET_ERR_PARAM, packet, len)
             else append_name_loop packet len encoded (tl cursor)
           })"
  by pat_completeness auto

termination
  by (relation "measure (\<lambda>(packet, len, encoded, cursor). length cursor)") (auto simp: length_after_label simp del: length_tl)

definition append_name :: "u8 list \<Rightarrow> nat \<Rightarrow> u8 list \<Rightarrow> (net_err \<times> u8 list \<times> nat) option" where
  "append_name packet len name = append_name_loop packet len 1 name"

text \<open>The result and the query; \<open>query_null\<close> is the nullness of the pointer to it.\<close>

definition dns_query_encode :: "bool \<Rightarrow> u16 \<Rightarrow> u8 list option \<Rightarrow> dns_query \<Rightarrow> (net_err \<times> dns_query) option" where
  "dns_query_encode query_null ident name query =
     (case name of
        None \<Rightarrow> Some (NET_ERR_PARAM, query)
      | Some nm \<Rightarrow>
          if query_null \<or> nm = [] then Some (NET_ERR_PARAM, query)
          else do {
            let packet = replicate 512 0;
            packet \<leftarrow> write_u16 0 ident packet;
            packet \<leftarrow> write_u16 2 0x0100 packet;
            packet \<leftarrow> write_u16 4 1 packet;
            (result, packet, len) \<leftarrow> append_name packet DNS_HEADER_SIZE nm;
            if is_err result then Some (result, \<lparr>dq_id = ident, dq_bytes = packet, dq_length = 0\<rparr>)
            else do {
              packet \<leftarrow> write_u16 len DNS_TYPE_A packet;
              packet \<leftarrow> write_u16 (len + 2) DNS_CLASS_IN packet;
              Some (NET_ERR_OK, \<lparr>dq_id = ident, dq_bytes = packet, dq_length = len + 4\<rparr>)
            }
          })"


section \<open>The response\<close>

text \<open>The loop of \<^verbatim>\<open>parse_name\<close>. \<open>out\<close> holds the bytes written to \<^verbatim>\<open>name\<close>, whose size is \<open>name_size\<close> (\<open>None\<close> if the pointer
  is null); \<open>nxt\<close> is \<^verbatim>\<open>*next\<close> once there has been a jump.\<close>

function parse_name_loop ::
  "u8 list \<Rightarrow> nat \<Rightarrow> nat option \<Rightarrow> nat \<Rightarrow> u8 list \<Rightarrow> nat option \<Rightarrow> nat \<Rightarrow> (net_err \<times> u8 list \<times> nat) option" where
  "parse_name_loop packet len name_size cursor out nxt jumps =
     (if cursor \<ge> len then Some (NET_ERR_SIZE, out, 0)
      else do {
        label \<leftarrow> byte_at packet cursor;
        let cursor = cursor + 1;
        if label = 0 then
          Some (case name_size of
                  Some n \<Rightarrow> if length out \<ge> n then (NET_ERR_SIZE, out, 0)
                            else (NET_ERR_OK, out, case nxt of None \<Rightarrow> cursor | Some i \<Rightarrow> i)
                | None \<Rightarrow> (NET_ERR_OK, out, case nxt of None \<Rightarrow> cursor | Some i \<Rightarrow> i))
        else if label AND 0xc0 = 0xc0 then
          (if cursor \<ge> len \<or> jumps + 1 > len then Some (NET_ERR_FORMAT, out, 0)
           else do {
             low \<leftarrow> byte_at packet cursor;
             let target = unat (label AND 0x3f) * 256 + unat low;
             let cursor = cursor + 1;
             if target \<ge> len then Some (NET_ERR_FORMAT, out, 0)
             else parse_name_loop packet len name_size target out (if nxt = None then Some cursor else nxt) (jumps + 1)
           })
        else if label AND 0xc0 \<noteq> 0 \<or> label > 63 \<or> cursor + unat label > len then Some (NET_ERR_FORMAT, out, 0)
        else
          (case name_size of
             None \<Rightarrow> parse_name_loop packet len name_size (cursor + unat label) out nxt jumps
           | Some n \<Rightarrow>
               if out \<noteq> [] \<and> length out + 1 \<ge> n then Some (NET_ERR_SIZE, out, 0)
               else
                 let out = (if out \<noteq> [] then out @ [DOT] else out)
                 in if length out + unat label \<ge> n then Some (NET_ERR_SIZE, out, 0)
                    else do {
                      bytes \<leftarrow> bytes_at packet cursor (unat label);
                      parse_name_loop packet len name_size (cursor + unat label) (out @ bytes) nxt jumps
                    })
      })"
  by pat_completeness auto

termination
  by (relation "measures [\<lambda>(packet, len, name_size, cursor, out, nxt, jumps). len - jumps,
                          \<lambda>(packet, len, name_size, cursor, out, nxt, jumps). len - cursor]") auto

text \<open>\<open>offset\<close> is not negative in any call; \<^verbatim>\<open>next\<close> is not null.\<close>

definition parse_name :: "u8 list \<Rightarrow> nat \<Rightarrow> nat \<Rightarrow> nat option \<Rightarrow> (net_err \<times> u8 list \<times> nat) option" where
  "parse_name packet len offset name_size =
     (if offset \<ge> len then Some (NET_ERR_SIZE, [], 0)
      else parse_name_loop packet len name_size offset [] None 0)"

text \<open>The loop over the answers.\<close>

fun answers_loop :: "u8 list \<Rightarrow> nat \<Rightarrow> nat \<Rightarrow> nat \<Rightarrow> (net_err \<times> ipaddr option) option" where
  "answers_loop packet len cursor 0 = Some (NET_ERR_NOT_SUPPORT, None)"
| "answers_loop packet len cursor (Suc answers) = do {
     (result, _, cursor) \<leftarrow> parse_name packet len cursor None;
     if is_err result then Some (result, None)
     else if cursor + 10 > len then Some (NET_ERR_SIZE, None)
     else do {
       typ \<leftarrow> read_u16 packet cursor;
       cls \<leftarrow> read_u16 packet (cursor + 2);
       data_length \<leftarrow> read_u16 packet (cursor + 8);
       let cursor = cursor + 10;
       if cursor + unat data_length > len then Some (NET_ERR_SIZE, None)
       else if typ = DNS_TYPE_A \<and> cls = DNS_CLASS_IN \<and> unat data_length = IPV4_ADDR_SIZE then do {
         addr \<leftarrow> bytes_at packet cursor IPV4_ADDR_SIZE;
         Some (NET_ERR_OK, Some (ipaddr_from_buf addr))
       }
       else answers_loop packet len (cursor + unat data_length) answers
     }
   }"

text \<open>The part behind the header: the question and the answers.\<close>

definition dns_body_parse :: "u8 list \<Rightarrow> nat \<Rightarrow> u8 list \<Rightarrow> nat \<Rightarrow> (net_err \<times> ipaddr option) option" where
  "dns_body_parse packet len name answers = do {
     (result, question, cursor) \<leftarrow> parse_name packet len DNS_HEADER_SIZE (Some 256);
     if is_err result then Some (result, None)
     else if takeWhile (\<lambda>c. c \<noteq> 0) question \<noteq> name then Some (NET_ERR_PARAM, None)
     else if cursor + 4 > len then Some (NET_ERR_NOT_SUPPORT, None)
     else do {
       typ \<leftarrow> read_u16 packet cursor;
       cls \<leftarrow> read_u16 packet (cursor + 2);
       if typ \<noteq> DNS_TYPE_A \<or> cls \<noteq> DNS_CLASS_IN then Some (NET_ERR_NOT_SUPPORT, None)
       else answers_loop packet len (cursor + 4) answers
     }
   }"

text \<open>The result, and the address if it has been stored.\<close>

definition dns_response_parse ::
  "u8 list option \<Rightarrow> int \<Rightarrow> u16 \<Rightarrow> u8 list option \<Rightarrow> bool \<Rightarrow> (net_err \<times> ipaddr option) option" where
  "dns_response_parse data len ident name address_null =
     (case (data, name) of
        (Some packet, Some nm) \<Rightarrow>
          if address_null then Some (NET_ERR_PARAM, None)
          else if len < int DNS_HEADER_SIZE then Some (NET_ERR_SIZE, None)
          else do {
            pid \<leftarrow> read_u16 packet 0;
            if pid \<noteq> ident then Some (NET_ERR_PARAM, None)
            else do {
              flags \<leftarrow> read_u16 packet 2;
              if flags AND DNS_FLAG_RESPONSE = 0 then Some (NET_ERR_FORMAT, None)
              else if flags AND DNS_FLAG_TRUNCATED \<noteq> 0 then Some (NET_ERR_SIZE, None)
              else if flags AND 0x000f \<noteq> 0 then Some (NET_ERR_UNREACH, None)
              else do {
                questions \<leftarrow> read_u16 packet 4;
                answers \<leftarrow> read_u16 packet 6;
                if questions \<noteq> 1 \<or> answers = 0 then Some (NET_ERR_FORMAT, None)
                else dns_body_parse packet (nat len) nm (unat answers)
              }
            }
          }
      | _ \<Rightarrow> Some (NET_ERR_PARAM, None))"

declare append_name_loop.simps [simp del] parse_name_loop.simps [simp del]

end
