(* ===== verification/Tcp.thy ===== *)
theory Tcp
  imports Udp
begin

text \<open>
  TCP, \<^verbatim>\<open>kernel/src/net/tcp.c\<close>. The control blocks are the elements of the array \<^verbatim>\<open>pcb_storage\<close>; a block is named
  by its index. The table \<^verbatim>\<open>pcbs\<close> holds those in use. A block has at most one segment that is not acknowledged, its
  \<^verbatim>\<open>outstanding\<close> buffer, of which copies are sent; received bytes are in a ring of \<open>TCP_RECV_MAX\<close> bytes.

  The locks \<^verbatim>\<open>table_locker\<close>, \<^verbatim>\<open>state_locker\<close> and \<^verbatim>\<open>recv_locker\<close> make the functions that hold the first of them from start
  to end atomic. The functions that wait (\<^verbatim>\<open>tcp_accept_peek_acquired\<close>, \<^verbatim>\<open>tcp_recv_bytes_acquired\<close>,
  \<^verbatim>\<open>tcp_wait_completion_acquired\<close>) do so between such sections; what happens meanwhile is given by the sleeps of
  their \<open>k\<close>-th wait, \<open>sl k\<close>. The marks of the self tests are left out.
\<close>

datatype tcp_status =
  TCP_STATE_CLOSED | TCP_STATE_LISTEN | TCP_STATE_SYN_SENT | TCP_STATE_SYN_RECEIVED | TCP_STATE_ESTABLISHED |
  TCP_STATE_FIN_WAIT_1 | TCP_STATE_FIN_WAIT_2 | TCP_STATE_TIME_WAIT

record tcp_pcb =
  tp_opened :: bool
  tp_netif :: "nat option"
  tp_local_ip :: ipaddr
  tp_remote_ip :: ipaddr
  tp_local_port :: u16
  tp_remote_port :: u16
  tp_state :: tcp_status
  tp_iss :: u32
  tp_snd_una :: u32
  tp_snd_nxt :: u32
  tp_rcv_nxt :: u32
  tp_peer_fin_seen :: bool
  tp_window :: u16
  tp_outstanding :: "nat option"
  tp_outstanding_end :: u32
  tp_retry_count :: int
  tp_recv_storage :: "u8 list"
  tp_recv_head :: nat
  tp_recv_count :: nat
  tp_connect_waiters :: int
  tp_recv_waiters :: int
  tp_close_waiters :: int
  tp_listener :: "nat option"
  tp_accept_queue :: "nat option list"
  tp_accept_head :: nat
  tp_accept_count :: nat
  tp_pending_count :: int
  tp_backlog :: int
  tp_accept_waiters :: int
  tp_accept_pins :: int
  tp_bound :: bool
  tp_passive :: bool
  tp_accepted :: bool
  tp_close_requested :: bool
  tp_release_pending :: bool
  tp_socket_attached :: bool
  tp_connect_done :: sys_sem_t
  tp_recv_done :: sys_sem_t
  tp_close_done :: sys_sem_t
  tp_accept_done :: sys_sem_t
  tp_error :: net_err
  tp_terminal_notified :: bool

record tcp_state = udp_state +
  tcp_mem :: "nat \<Rightarrow> tcp_pcb"
  tcp_pcbs :: "nat option list"
  detached_listeners :: "nat option list"
  next_ephemeral :: u16
  next_iss :: u32

definition TCP_HEADER_SIZE :: nat where "TCP_HEADER_SIZE = 20"
definition TCP_PCB_MAX :: nat where "TCP_PCB_MAX = 12"
definition TCP_RECV_MAX :: nat where "TCP_RECV_MAX = 2048"
definition TCP_MSS :: nat where "TCP_MSS = 512"
definition TCP_RETRANS_MS :: int where "TCP_RETRANS_MS = 500"
definition TCP_RETRY_MAX :: int where "TCP_RETRY_MAX = 5"
definition TCP_TIME_WAIT_MS :: int where "TCP_TIME_WAIT_MS = 1000"
definition TCP_ACCEPT_MAX :: nat where "TCP_ACCEPT_MAX = 4"
definition TCP_FLAG_FIN :: u8 where "TCP_FLAG_FIN = 0x01"
definition TCP_FLAG_SYN :: u8 where "TCP_FLAG_SYN = 0x02"
definition TCP_FLAG_PSH :: u8 where "TCP_FLAG_PSH = 0x08"
definition TCP_FLAG_ACK :: u8 where "TCP_FLAG_ACK = 0x10"

text \<open>The addresses of the function \<^verbatim>\<open>tcp_in\<close>, of the functions of the timers, and of the timers of a block and of a
  place of the table.\<close>

definition TCP_IN :: nat where "TCP_IN = 3"
definition TCP_TIMER_PROC :: nat where "TCP_TIMER_PROC = 2"
definition TCP_TIME_WAIT_PROC :: nat where "TCP_TIME_WAIT_PROC = 3"
definition TCP_RELEASE_PROC :: nat where "TCP_RELEASE_PROC = 4"
definition RETRANS_TIMER :: "nat \<Rightarrow> nat" where "RETRANS_TIMER p = 3 * p + 1"
definition TIME_WAIT_TIMER :: "nat \<Rightarrow> nat" where "TIME_WAIT_TIMER p = 3 * p + 2"
definition RELEASE_TIMER :: "nat \<Rightarrow> nat" where "RELEASE_TIMER i = 3 * i + 3"

definition tcp_pcb_zero :: tcp_pcb where
  "tcp_pcb_zero = \<lparr>tp_opened = False, tp_netif = None, tp_local_ip = 0, tp_remote_ip = 0,
     tp_local_port = 0, tp_remote_port = 0, tp_state = TCP_STATE_CLOSED, tp_iss = 0, tp_snd_una = 0, tp_snd_nxt = 0,
     tp_rcv_nxt = 0, tp_peer_fin_seen = False, tp_window = 0, tp_outstanding = None, tp_outstanding_end = 0,
     tp_retry_count = 0, tp_recv_storage = replicate TCP_RECV_MAX 0, tp_recv_head = 0, tp_recv_count = 0,
     tp_connect_waiters = 0, tp_recv_waiters = 0, tp_close_waiters = 0, tp_listener = None,
     tp_accept_queue = replicate TCP_ACCEPT_MAX None, tp_accept_head = 0, tp_accept_count = 0, tp_pending_count = 0,
     tp_backlog = 0, tp_accept_waiters = 0, tp_accept_pins = 0, tp_bound = False, tp_passive = False,
     tp_accepted = False, tp_close_requested = False, tp_release_pending = False, tp_socket_attached = False,
     tp_connect_done = None, tp_recv_done = None, tp_close_done = None, tp_accept_done = None, tp_error = NET_ERR_OK,
     tp_terminal_notified = False\<rparr>"

definition timer_zero :: net_timer where
  "timer_zero = \<lparr>tm_name = [], tm_flags = 0, tm_curr = 0, tm_reload = 0, tm_proc = 0, tm_arg = None\<rparr>"

abbreviation tcp_at :: "'a tcp_state_scheme \<Rightarrow> nat \<Rightarrow> tcp_pcb" where
  "tcp_at s p \<equiv> tcp_mem s p"

definition upd_tcp :: "nat \<Rightarrow> (tcp_pcb \<Rightarrow> tcp_pcb) \<Rightarrow> 'a tcp_state_scheme \<Rightarrow> 'a tcp_state_scheme" where
  "upd_tcp p f s = s\<lparr>tcp_mem := (tcp_mem s)(p := f (tcp_mem s p))\<rparr>"

text \<open>The loops that notify a semaphore \<open>n\<close> times.\<close>

definition sem_notify_times :: "int \<Rightarrow> sys_sem_t \<Rightarrow> 'a net_sys_state_scheme \<Rightarrow> 'a net_sys_state_scheme" where
  "sem_notify_times n sem s = (sys_sem_notify sem ^^ nat n) s"


section \<open>Helpers\<close>

definition tcp_listener_has_children_locked :: "nat \<Rightarrow> 'a tcp_state_scheme \<Rightarrow> bool" where
  "tcp_listener_has_children_locked l s \<longleftrightarrow>
     list_ex (\<lambda>i. (case tcp_pcbs s ! i of None \<Rightarrow> False | Some p \<Rightarrow> tp_listener (tcp_at s p) = Some l) \<or>
                  detached_listeners s ! i = Some l) [0..<TCP_PCB_MAX]"

definition tcp_find_slot :: "nat option \<Rightarrow> 'a tcp_state_scheme \<Rightarrow> nat option" where
  "tcp_find_slot pcb s = find_index (\<lambda>x. x = pcb) (tcp_pcbs s)"

definition tcp_clone :: "nat \<Rightarrow> 'a pkt_state_scheme \<Rightarrow> (nat option \<times> 'a pkt_state_scheme) option" where
  "tcp_clone source s =
     (let sz = pktbuf_total source s
      in case pktbuf_alloc sz s of
           (None, s) \<Rightarrow> Some (None, s)
         | (Some c, s) \<Rightarrow> do {
             let s = reset_acc c (reset_acc source s);
             (err, s) \<leftarrow> pktbuf_copy (Some c) (Some source) sz s;
             if is_err err then Some (None, reset_acc source (pktbuf_free (Some c) s))
             else Some (Some c, reset_acc c (reset_acc source s))
           })"

definition tcp_output_owned ::
  "(nat \<Rightarrow> 'a tcp_state_scheme netif_ops) \<Rightarrow> (nat \<Rightarrow> 'a tcp_state_scheme link_out option) \<Rightarrow> nat \<Rightarrow> 'a tcp_state_scheme
   \<Rightarrow> (net_err \<times> 'a tcp_state_scheme) option" where
  "tcp_output_owned ops_of out_of p s =
     (case tp_outstanding (tcp_at s p) of
        None \<Rightarrow> None
      | Some b \<Rightarrow> do {
          (copy, s) \<leftarrow> tcp_clone b s;
          if copy = None then Some (NET_ERR_MEM, s)
          else ipv4_out ops_of out_of (tp_netif (tcp_at s p)) (Some (tp_remote_ip (tcp_at s p))) NET_PROTOCOL_TCP copy s
        })"

definition tcp_pseudo :: "ipaddr \<Rightarrow> ipaddr \<Rightarrow> u16 \<Rightarrow> u8 list" where
  "tcp_pseudo src dest len =
     ipaddr_to_buf src @ ipaddr_to_buf dest @ [0, NET_PROTOCOL_TCP] @ le16_bytes (x_htons len)"

definition tcp_checksum ::
  "nat option \<Rightarrow> ipaddr option \<Rightarrow> ipaddr option \<Rightarrow> u16 \<Rightarrow> 'a pkt_state_scheme \<Rightarrow> (u16 \<times> 'a pkt_state_scheme) option" where
  "tcp_checksum buf src dest len s =
     (case (buf, src, dest) of
        (Some b, Some a, Some d) \<Rightarrow>
          let pseudo = tcp_pseudo a d len;
              acc = checksum16 0 pseudo (of_nat (length pseudo)) 0 False
          in pktbuf_checksum16 buf (uint len) (ucast acc) True (reset_acc b s)
      | _ \<Rightarrow> Some (0, s))"

text \<open>The part of \<^verbatim>\<open>tcp_make_segment\<close> that writes the header.\<close>

definition tcp_put_header ::
  "nat \<Rightarrow> nat \<Rightarrow> u32 \<Rightarrow> u32 \<Rightarrow> u8 \<Rightarrow> 'a tcp_state_scheme \<Rightarrow> 'a tcp_state_scheme option" where
  "tcp_put_header p b seq ack flags s = do {
     s \<leftarrow> pktbuf_put b 0 (replicate TCP_HEADER_SIZE 0) s;
     s \<leftarrow> pktbuf_put b 0 (le16_bytes (x_htons (tp_local_port (tcp_at s p)))) s;
     s \<leftarrow> pktbuf_put b 2 (le16_bytes (x_htons (tp_remote_port (tcp_at s p)))) s;
     s \<leftarrow> pktbuf_put b 4 (le32_bytes (x_htonl seq)) s;
     s \<leftarrow> pktbuf_put b 8 (le32_bytes (x_htonl ack)) s;
     s \<leftarrow> pktbuf_put b 12 [push_bit 4 5] s;
     s \<leftarrow> pktbuf_put b 13 [flags] s;
     let available = int TCP_RECV_MAX - int (tp_recv_count (tcp_at s p));
     pktbuf_put b 14 (le16_bytes (x_htons (word_of_int available))) s
   }"

definition tcp_make_segment ::
  "nat \<Rightarrow> u32 \<Rightarrow> u32 \<Rightarrow> u8 \<Rightarrow> u8 list option \<Rightarrow> nat \<Rightarrow> 'a tcp_state_scheme \<Rightarrow> (nat option \<times> 'a tcp_state_scheme) option" where
  "tcp_make_segment p seq ack flags data sz s =
     (case pktbuf_alloc (int (TCP_HEADER_SIZE + sz)) s of
        (None, s) \<Rightarrow> Some (None, s)
      | (Some b, s) \<Rightarrow> do {
          s \<leftarrow> tcp_put_header p b seq ack flags s;
          (err, s) \<leftarrow> (if sz > 0 then do {
                        let s = reset_acc b s;
                        (err, s) \<leftarrow> pktbuf_seek (Some b) (int TCP_HEADER_SIZE) s;
                        if is_err err then Some (err, s) else pktbuf_write (Some b) data (int sz) s
                      } else Some (NET_ERR_OK, s));
          if is_err err then Some (None, pktbuf_free (Some b) s)
          else do {
            (checksum, s) \<leftarrow> tcp_checksum (Some b) (Some (tp_local_ip (tcp_at s p))) (Some (tp_remote_ip (tcp_at s p)))
              (of_nat (TCP_HEADER_SIZE + sz)) s;
            s \<leftarrow> pktbuf_put b 16 (le16_bytes (x_htons (if checksum = 0 then 0xffff else checksum))) s;
            Some (Some b, reset_acc b s)
          }
        })"

definition tcp_send_ack ::
  "(nat \<Rightarrow> 'a tcp_state_scheme netif_ops) \<Rightarrow> (nat \<Rightarrow> 'a tcp_state_scheme link_out option) \<Rightarrow> nat \<Rightarrow> 'a tcp_state_scheme
   \<Rightarrow> (net_err \<times> 'a tcp_state_scheme) option" where
  "tcp_send_ack ops_of out_of p s = do {
     (ack, s) \<leftarrow> tcp_make_segment p (tp_snd_nxt (tcp_at s p)) (tp_rcv_nxt (tcp_at s p)) TCP_FLAG_ACK None 0 s;
     if ack = None then Some (NET_ERR_MEM, s)
     else ipv4_out ops_of out_of (tp_netif (tcp_at s p)) (Some (tp_remote_ip (tcp_at s p))) NET_PROTOCOL_TCP ack s
   }"

definition tcp_clear_outstanding :: "nat \<Rightarrow> 'a tcp_state_scheme \<Rightarrow> 'a tcp_state_scheme" where
  "tcp_clear_outstanding p s =
     (let s = net_timer_remove (Some (RETRANS_TIMER p)) s;
          s = (if tp_outstanding (tcp_at s p) \<noteq> None
               then upd_tcp p (\<lambda>x. x\<lparr>tp_outstanding := None\<rparr>) (pktbuf_free (tp_outstanding (tcp_at s p)) s) else s)
      in upd_tcp p (\<lambda>x. x\<lparr>tp_outstanding_end := 0\<rparr>) s)"

definition tcp_notify_terminal :: "nat \<Rightarrow> 'a tcp_state_scheme \<Rightarrow> 'a tcp_state_scheme" where
  "tcp_notify_terminal p s =
     (if tp_terminal_notified (tcp_at s p) then s
      else
        let s = upd_tcp p (\<lambda>x. x\<lparr>tp_terminal_notified := True\<rparr>) s;
            connect_waiters = tp_connect_waiters (tcp_at s p);
            recv_waiters = tp_recv_waiters (tcp_at s p);
            close_waiters = tp_close_waiters (tcp_at s p);
            s = sem_notify_times (if connect_waiters \<noteq> 0 then connect_waiters else 1) (tp_connect_done (tcp_at s p)) s;
            s = sem_notify_times recv_waiters (tp_recv_done (tcp_at s p)) s
        in sem_notify_times (if close_waiters \<noteq> 0 then close_waiters else 1) (tp_close_done (tcp_at s p)) s)"

text \<open>The connection of a block is cleared; its semaphores, its receive ring and its unacknowledged segment stay.\<close>

definition tcp_reset_connection :: "tcp_pcb \<Rightarrow> tcp_pcb" where
  "tcp_reset_connection x = x\<lparr>tp_netif := None, tp_local_ip := 0, tp_remote_ip := 0,
     tp_local_port := 0, tp_remote_port := 0, tp_state := TCP_STATE_CLOSED, tp_iss := 0, tp_snd_una := 0,
     tp_snd_nxt := 0, tp_rcv_nxt := 0, tp_peer_fin_seen := False, tp_window := 0, tp_outstanding_end := 0,
     tp_retry_count := 0, tp_listener := None, tp_accept_queue := replicate TCP_ACCEPT_MAX None, tp_accept_head := 0,
     tp_accept_count := 0, tp_pending_count := 0, tp_backlog := 0, tp_accept_waiters := 0, tp_accept_pins := 0,
     tp_bound := False, tp_passive := False, tp_accepted := False, tp_close_requested := False\<rparr>"



section \<open>Release\<close>

definition tcp_releasable :: "tcp_pcb \<Rightarrow> bool \<Rightarrow> bool" where
  "tcp_releasable x listener_children \<longleftrightarrow> tp_release_pending x \<and> \<not> tp_socket_attached x \<and> tp_listener x = None \<and>
     tp_accept_waiters x = 0 \<and> tp_connect_waiters x = 0 \<and> tp_recv_waiters x = 0 \<and> tp_close_waiters x = 0 \<and>
     \<not> listener_children \<and> tp_accept_pins x = 0"

text \<open>The part of \<^verbatim>\<open>tcp_release_now_locked\<close> behind the test: the block in place \<open>slot\<close> is given back.\<close>

definition tcp_release_pcb :: "nat \<Rightarrow> nat \<Rightarrow> 'a tcp_state_scheme \<Rightarrow> 'a tcp_state_scheme" where
  "tcp_release_pcb slot p s =
     (let s = upd_tcp p (\<lambda>x. x\<lparr>tp_opened := False\<rparr>) s;
          s = tcp_clear_outstanding p s;
          s = net_timer_remove (Some (TIME_WAIT_TIMER p)) s;
          s = net_timer_remove (Some (RELEASE_TIMER slot)) s;
          s = upd_tcp p (\<lambda>x. x\<lparr>tp_recv_head := 0, tp_recv_count := 0\<rparr>) s;
          s = upd_tcp p (\<lambda>x. (tcp_reset_connection x)\<lparr>tp_release_pending := False, tp_connect_waiters := 0,
                              tp_recv_waiters := 0, tp_close_waiters := 0\<rparr>) s;
          s = sys_sem_free (tp_accept_done (tcp_at s p)) s;
          s = sys_sem_free (tp_close_done (tcp_at s p)) s;
          s = sys_sem_free (tp_recv_done (tcp_at s p)) s;
          s = sys_sem_free (tp_connect_done (tcp_at s p)) s;
          s = upd_tcp p (\<lambda>x. x\<lparr>tp_accept_done := None, tp_close_done := None, tp_recv_done := None,
                              tp_connect_done := None\<rparr>) s
      in s\<lparr>detached_listeners := (detached_listeners s)[slot := None], tcp_pcbs := (tcp_pcbs s)[slot := None]\<rparr>)"

definition tcp_release_now_locked :: "nat option \<Rightarrow> 'a tcp_state_scheme \<Rightarrow> net_err \<times> 'a tcp_state_scheme" where
  "tcp_release_now_locked pcb s =
     (case pcb of
        None \<Rightarrow> (NET_ERR_PARAM, s)
      | Some p \<Rightarrow>
          (case tcp_find_slot pcb s of
             None \<Rightarrow> (NET_ERR_PARAM, s)
           | Some slot \<Rightarrow>
               if \<not> tcp_releasable (tcp_at s p) (tcp_listener_has_children_locked p s) then (NET_ERR_STATE, s)
               else (NET_ERR_OK, tcp_release_pcb slot p s)))"

definition tcp_request_release :: "nat \<Rightarrow> 'a tcp_state_scheme \<Rightarrow> net_err \<times> 'a tcp_state_scheme" where
  "tcp_request_release p s =
     (case tcp_find_slot (Some p) s of
        None \<Rightarrow> (NET_ERR_PARAM, s)
      | Some slot \<Rightarrow>
          let s = upd_tcp p (\<lambda>x. x\<lparr>tp_release_pending := True\<rparr>) s;
              (err, s) = net_timer_add (Some (RELEASE_TIMER slot)) (Some ''tcp-release'') (Some TCP_RELEASE_PROC) (Some p) 1
                           NET_TIMER_RELOAD s
          in (if err = NET_ERR_EXIST then NET_ERR_OK else err, s))"

text \<open>The queue of accepted connections is a ring of \<open>TCP_ACCEPT_MAX\<close> places; \<open>child\<close> is taken out of it and those
  behind it move up.\<close>

definition tcp_listener_remove_queued_locked :: "nat \<Rightarrow> tcp_pcb \<Rightarrow> bool \<times> tcp_pcb" where
  "tcp_listener_remove_queued_locked child x =
     (case find_index (\<lambda>i. tp_accept_queue x ! ((tp_accept_head x + i) mod TCP_ACCEPT_MAX) = Some child)
             [0..<tp_accept_count x] of
        None \<Rightarrow> (False, x)
      | Some found \<Rightarrow>
          let queue = fold (\<lambda>i q. let index = (tp_accept_head x + i) mod TCP_ACCEPT_MAX
                                  in q[index := q ! ((index + 1) mod TCP_ACCEPT_MAX)])
                        [found..<tp_accept_count x - 1] (tp_accept_queue x);
              tail = (tp_accept_head x + tp_accept_count x - 1) mod TCP_ACCEPT_MAX
          in (True, x\<lparr>tp_accept_queue := queue[tail := None], tp_accept_count := tp_accept_count x - 1\<rparr>))"

definition tcp_listener_detach_child_locked :: "nat \<Rightarrow> net_err \<Rightarrow> 'a tcp_state_scheme \<Rightarrow> 'a tcp_state_scheme" where
  "tcp_listener_detach_child_locked child error s =
     (case (tp_listener (tcp_at s child), tcp_find_slot (Some child) s) of
        (Some l, Some slot) \<Rightarrow>
          let s = upd_tcp l (\<lambda>x. snd (tcp_listener_remove_queued_locked child x)) s;
              s = upd_tcp l (\<lambda>x. if tp_pending_count x > 0 then x\<lparr>tp_pending_count := tp_pending_count x - 1\<rparr> else x) s;
              s = tcp_clear_outstanding child s;
              s = net_timer_remove (Some (TIME_WAIT_TIMER child)) s;
              s = upd_tcp child (\<lambda>x. x\<lparr>tp_listener := None, tp_error := error, tp_state := TCP_STATE_CLOSED,
                                      tp_close_requested := False, tp_release_pending := True\<rparr>) s;
              s = s\<lparr>detached_listeners := (detached_listeners s)[slot := Some l]\<rparr>;
              s = tcp_notify_terminal child s;
              (err, s) = tcp_request_release child s
          in if is_err err then snd (tcp_release_now_locked (Some child) s) else s
      | _ \<Rightarrow> s)"

definition tcp_listener_release_detached_locked :: "nat \<Rightarrow> 'a tcp_state_scheme \<Rightarrow> 'a tcp_state_scheme" where
  "tcp_listener_release_detached_locked l s =
     fold (\<lambda>i s. if tcp_pcbs s ! i \<noteq> None \<and> detached_listeners s ! i = Some l
                 then snd (tcp_release_now_locked (tcp_pcbs s ! i) s) else s) [0..<TCP_PCB_MAX] s"

definition tcp_listener_cleanup_locked :: "nat \<Rightarrow> 'a tcp_state_scheme \<Rightarrow> 'a tcp_state_scheme" where
  "tcp_listener_cleanup_locked l s =
     tcp_listener_release_detached_locked l
       (fold (\<lambda>i s. case tcp_pcbs s ! i of
                      None \<Rightarrow> s
                    | Some child \<Rightarrow>
                        if child \<noteq> l \<and> tp_listener (tcp_at s child) = Some l
                        then tcp_listener_detach_child_locked child NET_ERR_STATE s else s) [0..<TCP_PCB_MAX] s)"

definition tcp_fail :: "nat \<Rightarrow> net_err \<Rightarrow> 'a tcp_state_scheme \<Rightarrow> net_err \<times> 'a tcp_state_scheme" where
  "tcp_fail p error s =
     (let s = tcp_clear_outstanding p s;
          s = net_timer_remove (Some (TIME_WAIT_TIMER p)) s;
          s = upd_tcp p (\<lambda>x. x\<lparr>tp_error := error, tp_state := TCP_STATE_CLOSED, tp_close_requested := False\<rparr>) s;
          s = tcp_notify_terminal p s;
          s = (if tp_listener (tcp_at s p) \<noteq> None then tcp_listener_detach_child_locked p error s else s)
      in (error, s))"


section \<open>Timers\<close>

definition tcp_arm_timer :: "nat \<Rightarrow> 'a tcp_state_scheme \<Rightarrow> net_err \<times> 'a tcp_state_scheme" where
  "tcp_arm_timer p s =
     net_timer_add (Some (RETRANS_TIMER p)) (Some ''tcp-retrans'') (Some TCP_TIMER_PROC) (Some p) TCP_RETRANS_MS 0 s"

definition tcp_retransmit_due ::
  "(nat \<Rightarrow> 'a tcp_state_scheme netif_ops) \<Rightarrow> (nat \<Rightarrow> 'a tcp_state_scheme link_out option) \<Rightarrow> nat option \<Rightarrow> 'a tcp_state_scheme
   \<Rightarrow> (net_err \<times> 'a tcp_state_scheme) option" where
  "tcp_retransmit_due ops_of out_of pcb s =
     (case pcb of
        None \<Rightarrow> Some (NET_ERR_STATE, s)
      | Some p \<Rightarrow>
          if tcp_find_slot pcb s = None then Some (NET_ERR_STATE, s)
          else if \<not> (tp_opened (tcp_at s p) \<and> tp_outstanding (tcp_at s p) \<noteq> None) then Some (NET_ERR_STATE, s)
          else do {
            let s = net_timer_remove (Some (RETRANS_TIMER p)) s;
            (err, s) \<leftarrow> tcp_output_owned ops_of out_of p s;
            if is_err err then Some (tcp_fail p err s)
            else
              let s = upd_tcp p (\<lambda>x. x\<lparr>tp_retry_count := tp_retry_count x + 1\<rparr>) s
              in if tp_retry_count (tcp_at s p) \<ge> TCP_RETRY_MAX then Some (tcp_fail p NET_ERR_TMO s)
                 else
                   let (err, s) = tcp_arm_timer p s
                   in Some (if is_err err then tcp_fail p err s else (NET_ERR_OK, s))
          })"

definition tcp_timer_proc ::
  "(nat \<Rightarrow> 'a tcp_state_scheme netif_ops) \<Rightarrow> (nat \<Rightarrow> 'a tcp_state_scheme link_out option) \<Rightarrow> nat \<Rightarrow> nat option \<Rightarrow> 'a tcp_state_scheme
   \<Rightarrow> 'a tcp_state_scheme option" where
  "tcp_timer_proc ops_of out_of t arg s = map_option snd (tcp_retransmit_due ops_of out_of arg s)"

definition tcp_time_wait_proc :: "nat \<Rightarrow> nat option \<Rightarrow> 'a tcp_state_scheme \<Rightarrow> 'a tcp_state_scheme option" where
  "tcp_time_wait_proc t arg s =
     (case arg of
        None \<Rightarrow> None
      | Some p \<Rightarrow>
          if tp_opened (tcp_at s p) \<and> tp_state (tcp_at s p) = TCP_STATE_TIME_WAIT \<and> \<not> tp_release_pending (tcp_at s p) then
            let s = upd_tcp p (\<lambda>x. x\<lparr>tp_state := TCP_STATE_CLOSED, tp_error := NET_ERR_OK\<rparr>) s;
                close_waiters = tp_close_waiters (tcp_at s p);
                s = sem_notify_times (if close_waiters \<noteq> 0 then close_waiters else 1) (tp_close_done (tcp_at s p)) s
            in Some (snd (tcp_request_release p s))
          else Some s)"

definition tcp_release_proc :: "nat \<Rightarrow> nat option \<Rightarrow> 'a tcp_state_scheme \<Rightarrow> 'a tcp_state_scheme option" where
  "tcp_release_proc t arg s =
     (let stop = (\<lambda>s. s\<lparr>timers := (timers s)(t := (timers s t)\<lparr>tm_flags := 0\<rparr>)\<rparr>)
      in case tcp_find_slot arg s of
           None \<Rightarrow> Some (stop s)
         | Some slot \<Rightarrow>
             (case arg of
                None \<Rightarrow> None
              | Some p \<Rightarrow>
                  let clean_listener = (tp_opened (tcp_at s p) \<and> tp_release_pending (tcp_at s p) \<and>
                                        tp_state (tcp_at s p) = TCP_STATE_LISTEN \<and> tp_accept_waiters (tcp_at s p) = 0);
                      s = (if clean_listener then tcp_listener_cleanup_locked p s else s);
                      listener_children = (clean_listener \<and> tcp_listener_has_children_locked p s);
                      release = (tp_opened (tcp_at s p) \<and> tcp_releasable (tcp_at s p) listener_children)
                  in Some (if release then snd (tcp_release_now_locked arg (stop s)) else s)))"



section \<open>Opening\<close>

definition tcp_port_in_use :: "u16 \<Rightarrow> 'a tcp_state_scheme \<Rightarrow> bool" where
  "tcp_port_in_use port s \<longleftrightarrow>
     list_ex (\<lambda>x. case x of None \<Rightarrow> False | Some p \<Rightarrow> tp_opened (tcp_at s p) \<and> tp_local_port (tcp_at s p) = port) (tcp_pcbs s)"

fun tcp_choose_port_loop :: "nat \<Rightarrow> 'a tcp_state_scheme \<Rightarrow> u16 \<times> 'a tcp_state_scheme" where
  "tcp_choose_port_loop 0 s = (0, s)"
| "tcp_choose_port_loop (Suc n) s =
     (let port = next_ephemeral s;
          s = s\<lparr>next_ephemeral := next_ephemeral s + 1\<rparr>;
          s = (if next_ephemeral s < 49152 then s\<lparr>next_ephemeral := 49152\<rparr> else s)
      in if port \<noteq> 0 \<and> \<not> tcp_port_in_use port s then (port, s) else tcp_choose_port_loop n s)"

definition tcp_choose_port :: "'a tcp_state_scheme \<Rightarrow> u16 \<times> 'a tcp_state_scheme" where
  "tcp_choose_port s = tcp_choose_port_loop 16384 s"

partial_function (option) tcp_drain_sem :: "sys_sem_t \<Rightarrow> 'a net_sys_state_scheme \<Rightarrow> 'a net_sys_state_scheme option" where
  "tcp_drain_sem sem s = do {
     (err, s) \<leftarrow> sys_sem_wait sem (-1) [] s;
     if err = NET_ERR_OK then tcp_drain_sem sem s else Some s
   }"

definition tcp_start_outstanding ::
  "(nat \<Rightarrow> 'a tcp_state_scheme netif_ops) \<Rightarrow> (nat \<Rightarrow> 'a tcp_state_scheme link_out option) \<Rightarrow> nat \<Rightarrow> nat \<Rightarrow> u32 \<Rightarrow> 'a tcp_state_scheme
   \<Rightarrow> (net_err \<times> 'a tcp_state_scheme) option" where
  "tcp_start_outstanding ops_of out_of p segment seg_end s = do {
     let s = upd_tcp p (\<lambda>x. x\<lparr>tp_outstanding := Some segment, tp_outstanding_end := seg_end, tp_retry_count := 0\<rparr>) s;
     (err, s) \<leftarrow> tcp_output_owned ops_of out_of p s;
     let (err, s) = (if \<not> is_err err then tcp_arm_timer p s else (err, s));
     Some (err, if is_err err then tcp_clear_outstanding p s else s)
   }"

text \<open>Clearing the memory of a timer that is in a list would destroy the list.\<close>

definition tcp_init :: "'a tcp_state_scheme \<Rightarrow> (net_err \<times> 'a tcp_state_scheme) option" where
  "tcp_init s =
     (if list_ex (\<lambda>i. timer_is_scheduled (RETRANS_TIMER i) s \<or> timer_is_scheduled (TIME_WAIT_TIMER i) s \<or>
                      timer_is_scheduled (RELEASE_TIMER i) s) [0..<TCP_PCB_MAX] then None
      else Some (ipv4_register_handler NET_PROTOCOL_TCP (Some TCP_IN)
        (s\<lparr>tcp_mem := (\<lambda>p. if p < TCP_PCB_MAX then tcp_pcb_zero else tcp_mem s p),
           tcp_pcbs := replicate TCP_PCB_MAX None, detached_listeners := replicate TCP_PCB_MAX None,
           timers := (\<lambda>t. if 1 \<le> t \<and> t \<le> 3 * TCP_PCB_MAX then timer_zero else timers s t),
           next_ephemeral := 49152, next_iss := 1000\<rparr>)))"

text \<open>The semaphores of a new block; the first that cannot be created ends the attempt, and the block goes back.\<close>

definition tcp_create_sems :: "nat \<Rightarrow> 'a tcp_state_scheme \<Rightarrow> bool \<times> 'a tcp_state_scheme" where
  "tcp_create_sems p s =
     (let (sem, s) = sys_sem_create 0 s;
          s = upd_tcp p (\<lambda>x. x\<lparr>tp_connect_done := sem\<rparr>) s
      in if sem = None then (False, s)
         else
           let (sem, s) = sys_sem_create 0 s;
               s = upd_tcp p (\<lambda>x. x\<lparr>tp_recv_done := sem\<rparr>) s
           in if sem = None then (False, s)
              else
                let (sem, s) = sys_sem_create 0 s;
                    s = upd_tcp p (\<lambda>x. x\<lparr>tp_close_done := sem\<rparr>) s
                in (sem \<noteq> None, s))"

definition tcp_alloc_locked :: "bool \<Rightarrow> 'a tcp_state_scheme \<Rightarrow> (net_err \<times> nat option \<times> 'a tcp_state_scheme) option" where
  "tcp_alloc_locked socket_attached s =
     (case find_index (\<lambda>x. x = None) (tcp_pcbs s) of
        None \<Rightarrow> Some (NET_ERR_MEM, None, s)
      | Some p \<Rightarrow>
          if timer_is_scheduled (RETRANS_TIMER p) s \<or> timer_is_scheduled (TIME_WAIT_TIMER p) s then None
          else
            let s = s\<lparr>timers := (timers s)(RETRANS_TIMER p := timer_zero, TIME_WAIT_TIMER p := timer_zero)\<rparr>;
                s = upd_tcp p (\<lambda>_. tcp_pcb_zero) s;
                (ok, s) = tcp_create_sems p s
            in if \<not> ok then
                 let s = sys_sem_free (tp_close_done (tcp_at s p)) s;
                     s = sys_sem_free (tp_recv_done (tcp_at s p)) s;
                     s = sys_sem_free (tp_connect_done (tcp_at s p)) s
                 in Some (NET_ERR_MEM, None, upd_tcp p (\<lambda>_. tcp_pcb_zero) s)
               else
                 let s = upd_tcp p (\<lambda>x. x\<lparr>tp_accept_done := None, tp_opened := True, tp_state := TCP_STATE_CLOSED,
                                         tp_error := NET_ERR_OK, tp_socket_attached := socket_attached\<rparr>) s
                 in Some (NET_ERR_OK, Some p, s\<lparr>detached_listeners := (detached_listeners s)[p := None],
                                                tcp_pcbs := (tcp_pcbs s)[p := Some p]\<rparr>))"

text \<open>\<open>result_null\<close>: the pointer through which the block is returned is null.\<close>

definition tcp_open :: "bool \<Rightarrow> 'a tcp_state_scheme \<Rightarrow> (net_err \<times> nat option \<times> 'a tcp_state_scheme) option" where
  "tcp_open result_null s = (if result_null then Some (NET_ERR_PARAM, None, s) else tcp_alloc_locked False s)"

definition tcp_socket_open :: "bool \<Rightarrow> 'a tcp_state_scheme \<Rightarrow> (net_err \<times> nat option \<times> 'a tcp_state_scheme) option" where
  "tcp_socket_open result_null s = (if result_null then Some (NET_ERR_PARAM, None, s) else tcp_alloc_locked True s)"

definition tcp_bind ::
  "nat option \<Rightarrow> nat option \<Rightarrow> ipaddr option \<Rightarrow> u16 \<Rightarrow> 'a tcp_state_scheme \<Rightarrow> net_err \<times> 'a tcp_state_scheme" where
  "tcp_bind pcb netif addr port s =
     (case (pcb, netif, addr) of
        (Some p, Some n, Some a) \<Rightarrow>
          if port = 0 then (NET_ERR_PARAM, s)
          else if tcp_find_slot pcb s = None \<or> nif_state (netifs s n) \<noteq> NETIF_ACTIVE then (NET_ERR_STATE, s)
          else if \<not> ipaddr_is_any addr \<and> \<not> ipaddr_is_equal addr (Some (nif_ipaddr (netifs s n))) then (NET_ERR_PARAM, s)
          else if \<not> (tp_opened (tcp_at s p) \<and> \<not> tp_release_pending (tcp_at s p) \<and> tp_state (tcp_at s p) = TCP_STATE_CLOSED \<and>
                     tp_netif (tcp_at s p) = None \<and> tp_local_port (tcp_at s p) = 0) then (NET_ERR_STATE, s)
          else if list_ex (\<lambda>x. case x of None \<Rightarrow> False
                     | Some q \<Rightarrow> q \<noteq> p \<and> tp_opened (tcp_at s q) \<and> tp_local_port (tcp_at s q) = port \<and>
                         ipaddr_is_equal (Some (tp_local_ip (tcp_at s q))) (Some (nif_ipaddr (netifs s n)))) (tcp_pcbs s)
          then (NET_ERR_EXIST, s)
          else (NET_ERR_OK, upd_tcp p (\<lambda>x. x\<lparr>tp_netif := netif, tp_local_ip := nif_ipaddr (netifs s n),
                                            tp_local_port := port, tp_bound := True\<rparr>) s)
      | _ \<Rightarrow> (NET_ERR_PARAM, s))"

definition tcp_listen :: "nat option \<Rightarrow> int \<Rightarrow> 'a tcp_state_scheme \<Rightarrow> net_err \<times> 'a tcp_state_scheme" where
  "tcp_listen pcb blog s =
     (case pcb of
        None \<Rightarrow> (NET_ERR_PARAM, s)
      | Some p \<Rightarrow>
          if blog < 1 \<or> blog > int TCP_ACCEPT_MAX then (NET_ERR_PARAM, s)
          else if tcp_find_slot pcb s = None then (NET_ERR_STATE, s)
          else if \<not> (tp_opened (tcp_at s p) \<and> \<not> tp_release_pending (tcp_at s p) \<and> tp_state (tcp_at s p) = TCP_STATE_CLOSED \<and>
                     tp_netif (tcp_at s p) \<noteq> None \<and> tp_local_port (tcp_at s p) \<noteq> 0 \<and> tp_bound (tcp_at s p))
          then (NET_ERR_STATE, s)
          else if list_ex (\<lambda>x. case x of None \<Rightarrow> False
                     | Some q \<Rightarrow> q \<noteq> p \<and> tp_opened (tcp_at s q) \<and> tp_state (tcp_at s q) = TCP_STATE_LISTEN) (tcp_pcbs s)
          then (NET_ERR_EXIST, s)
          else
            let (sem, s) = sys_sem_create 0 s
            in if sem = None then (NET_ERR_MEM, s)
               else (NET_ERR_OK, upd_tcp p (\<lambda>x. x\<lparr>tp_accept_done := sem, tp_accept_queue := replicate TCP_ACCEPT_MAX None,
                       tp_accept_head := 0, tp_accept_count := 0, tp_pending_count := 0, tp_backlog := blog,
                       tp_accept_waiters := 0, tp_state := TCP_STATE_LISTEN\<rparr>) s))"



section \<open>Accepting\<close>

definition tcp_accept_acquire :: "nat option \<Rightarrow> 'a tcp_state_scheme \<Rightarrow> net_err \<times> 'a tcp_state_scheme" where
  "tcp_accept_acquire listener s =
     (case listener of
        None \<Rightarrow> (NET_ERR_PARAM, s)
      | Some l \<Rightarrow>
          if tcp_find_slot listener s = None then (NET_ERR_PARAM, s)
          else if \<not> tp_opened (tcp_at s l) \<or> tp_release_pending (tcp_at s l) \<or> tp_state (tcp_at s l) \<noteq> TCP_STATE_LISTEN
          then (NET_ERR_STATE, s)
          else (NET_ERR_OK, upd_tcp l (\<lambda>x. x\<lparr>tp_accept_waiters := tp_accept_waiters x + 1\<rparr>) s))"

text \<open>The loop of \<^verbatim>\<open>tcp_accept_peek_acquired\<close>. The result: the error, the child with its peer's address and port, and the
  state.\<close>

partial_function (option) tcp_accept_peek_loop ::
  "(nat \<Rightarrow> 'a tcp_state_scheme sleep list) \<Rightarrow> nat \<Rightarrow> nat \<Rightarrow> int \<Rightarrow> 'a tcp_state_scheme
   \<Rightarrow> (net_err \<times> (nat \<times> ipaddr \<times> u16) option \<times> 'a tcp_state_scheme) option" where
  "tcp_accept_peek_loop sl k l timeout_ms s =
     (if \<not> tp_opened (tcp_at s l) \<or> tp_state (tcp_at s l) \<noteq> TCP_STATE_LISTEN \<or> tp_release_pending (tcp_at s l)
      then Some (NET_ERR_STATE, None, s)
      else if tp_accept_waiters (tcp_at s l) \<le> 0 then Some (NET_ERR_STATE, None, s)
      else if tp_accept_count (tcp_at s l) \<noteq> 0 then
        (case tp_accept_queue (tcp_at s l) ! tp_accept_head (tcp_at s l) of
           None \<Rightarrow> None
         | Some h \<Rightarrow>
             if \<not> tp_opened (tcp_at s h) \<or> tp_release_pending (tcp_at s h) \<or> tp_listener (tcp_at s h) \<noteq> Some l \<or>
                tp_state (tcp_at s h) \<noteq> TCP_STATE_ESTABLISHED
             then Some (NET_ERR_STATE, None, s)
             else
               let s = upd_tcp h (\<lambda>x. x\<lparr>tp_accept_pins := tp_accept_pins x + 1\<rparr>) s
               in Some (NET_ERR_OK, Some (h, tp_remote_ip (tcp_at s h), tp_remote_port (tcp_at s h)), s))
      else do {
        (err, s) \<leftarrow> sys_sem_wait (tp_accept_done (tcp_at s l)) timeout_ms (sl k) s;
        if is_err err then Some (if timeout_ms < 0 \<and> err = NET_ERR_TMO then NET_ERR_NONE else err, None, s)
        else tcp_accept_peek_loop sl (Suc k) l timeout_ms s
      })"

definition tcp_accept_peek_acquired ::
  "(nat \<Rightarrow> 'a tcp_state_scheme sleep list) \<Rightarrow> nat option \<Rightarrow> bool \<Rightarrow> int \<Rightarrow> 'a tcp_state_scheme
   \<Rightarrow> (net_err \<times> (nat \<times> ipaddr \<times> u16) option \<times> 'a tcp_state_scheme) option" where
  "tcp_accept_peek_acquired sl listener child_null timeout_ms s =
     (case listener of
        None \<Rightarrow> Some (NET_ERR_PARAM, None, s)
      | Some l \<Rightarrow> if child_null then Some (NET_ERR_PARAM, None, s) else tcp_accept_peek_loop sl 0 l timeout_ms s)"

definition tcp_accept_commit_acquired :: "nat option \<Rightarrow> nat option \<Rightarrow> 'a tcp_state_scheme \<Rightarrow> net_err \<times> 'a tcp_state_scheme" where
  "tcp_accept_commit_acquired listener child s =
     (case (listener, child) of
        (Some l, Some c) \<Rightarrow>
          if tcp_find_slot listener s = None then (NET_ERR_PARAM, s)
          else
            (case tcp_find_slot child s of
               Some child_slot \<Rightarrow>
                 if tp_opened (tcp_at s l) \<and> \<not> tp_release_pending (tcp_at s l) \<and> tp_state (tcp_at s l) = TCP_STATE_LISTEN \<and>
                    tp_accept_waiters (tcp_at s l) > 0 \<and> tp_accept_count (tcp_at s l) > 0 \<and>
                    tp_accept_queue (tcp_at s l) ! tp_accept_head (tcp_at s l) = child \<and>
                    tp_opened (tcp_at s c) \<and> \<not> tp_release_pending (tcp_at s c) \<and> tp_listener (tcp_at s c) = listener \<and>
                    \<not> tp_socket_attached (tcp_at s c) \<and> tp_state (tcp_at s c) = TCP_STATE_ESTABLISHED \<and>
                    tp_accept_pins (tcp_at s c) > 0
                 then
                   let s = upd_tcp c (\<lambda>x. x\<lparr>tp_accept_pins := tp_accept_pins x - 1, tp_socket_attached := True,
                                            tp_accepted := True, tp_listener := None\<rparr>) s;
                       s = s\<lparr>detached_listeners := (detached_listeners s)[child_slot :=
                                (if tp_accept_pins (tcp_at s c) > 0 then listener else None)]\<rparr>
                   in (NET_ERR_OK, upd_tcp l (\<lambda>x. x\<lparr>tp_accept_queue := (tp_accept_queue x)[tp_accept_head x := None],
                         tp_accept_head := (tp_accept_head x + 1) mod TCP_ACCEPT_MAX,
                         tp_accept_count := tp_accept_count x - 1, tp_pending_count := tp_pending_count x - 1,
                         tp_accept_waiters := tp_accept_waiters x - 1\<rparr>) s)
                 else (NET_ERR_STATE, s)
             | None \<Rightarrow> (NET_ERR_STATE, s))
      | _ \<Rightarrow> (NET_ERR_PARAM, s))"

text \<open>The end of both release functions: the waiter is released, and wakes another if connections are left.\<close>

definition tcp_accept_leave :: "nat \<Rightarrow> 'a tcp_state_scheme \<Rightarrow> 'a tcp_state_scheme" where
  "tcp_accept_leave l s =
     (let s = upd_tcp l (\<lambda>x. x\<lparr>tp_accept_waiters := tp_accept_waiters x - 1\<rparr>) s
      in if tp_accept_count (tcp_at s l) \<noteq> 0 \<and> \<not> tp_release_pending (tcp_at s l)
         then sys_sem_notify (tp_accept_done (tcp_at s l)) s else s)"

definition tcp_accept_release_acquired :: "nat option \<Rightarrow> 'a tcp_state_scheme \<Rightarrow> net_err \<times> 'a tcp_state_scheme" where
  "tcp_accept_release_acquired listener s =
     (case listener of
        None \<Rightarrow> (NET_ERR_PARAM, s)
      | Some l \<Rightarrow>
          if tcp_find_slot listener s = None then (NET_ERR_PARAM, s)
          else if \<not> tp_opened (tcp_at s l) \<or> tp_accept_waiters (tcp_at s l) \<le> 0 \<or> tp_state (tcp_at s l) \<noteq> TCP_STATE_LISTEN
          then (NET_ERR_STATE, s)
          else (NET_ERR_OK, tcp_accept_leave l s))"

definition tcp_accept_release_child_acquired ::
  "nat option \<Rightarrow> nat option \<Rightarrow> 'a tcp_state_scheme \<Rightarrow> net_err \<times> 'a tcp_state_scheme" where
  "tcp_accept_release_child_acquired listener child s =
     (case (listener, child) of
        (Some l, Some c) \<Rightarrow>
          (case (tcp_find_slot listener s, tcp_find_slot child s) of
             (Some _, Some child_slot) \<Rightarrow>
               if \<not> tp_opened (tcp_at s l) \<or> tp_accept_waiters (tcp_at s l) \<le> 0 \<or> tp_state (tcp_at s l) \<noteq> TCP_STATE_LISTEN
               then (NET_ERR_STATE, s)
               else if \<not> tp_opened (tcp_at s c) \<or>
                  \<not> (tp_listener (tcp_at s c) = listener \<or> detached_listeners s ! child_slot = listener) \<or>
                  tp_accept_pins (tcp_at s c) \<le> 0
               then (NET_ERR_STATE, s)
               else
                 let s = upd_tcp c (\<lambda>x. x\<lparr>tp_accept_pins := tp_accept_pins x - 1\<rparr>) s;
                     s = (if tp_accept_pins (tcp_at s c) = 0 \<and> tp_socket_attached (tcp_at s c)
                          then s\<lparr>detached_listeners := (detached_listeners s)[child_slot := None]\<rparr> else s)
                 in (NET_ERR_OK, tcp_accept_leave l s)
           | _ \<Rightarrow> (NET_ERR_PARAM, s))
      | _ \<Rightarrow> (NET_ERR_PARAM, s))"


section \<open>Connecting and sending\<close>

definition tcp_connect_start ::
  "(nat \<Rightarrow> 'a tcp_state_scheme netif_ops) \<Rightarrow> (nat \<Rightarrow> 'a tcp_state_scheme link_out option) \<Rightarrow> nat option \<Rightarrow> nat option
   \<Rightarrow> ipaddr option \<Rightarrow> u16 \<Rightarrow> 'a tcp_state_scheme \<Rightarrow> (net_err \<times> 'a tcp_state_scheme) option" where
  "tcp_connect_start ops_of out_of pcb netif remote remote_port s =
     (case (pcb, netif, remote) of
        (Some p, Some n, Some r) \<Rightarrow>
          if remote_port = 0 then Some (NET_ERR_PARAM, s)
          else if tcp_find_slot pcb s = None then Some (NET_ERR_STATE, s)
          else if \<not> tp_opened (tcp_at s p) \<or> tp_release_pending (tcp_at s p) \<or> tp_connect_waiters (tcp_at s p) \<noteq> 0 \<or>
                  tp_recv_waiters (tcp_at s p) \<noteq> 0 \<or> tp_close_waiters (tcp_at s p) \<noteq> 0 \<or>
                  tp_state (tcp_at s p) \<noteq> TCP_STATE_CLOSED \<or> tp_bound (tcp_at s p) \<or> tp_outstanding (tcp_at s p) \<noteq> None
          then Some (NET_ERR_STATE, s)
          else if nif_state (netifs s n) \<noteq> NETIF_ACTIVE then Some (NET_ERR_STATE, s)
          else do {
            let (local_port, s) = tcp_choose_port s;
            if local_port = 0 then Some (NET_ERR_FULL, s)
            else do {
              s \<leftarrow> tcp_drain_sem (tp_connect_done (tcp_at s p)) s;
              s \<leftarrow> tcp_drain_sem (tp_recv_done (tcp_at s p)) s;
              s \<leftarrow> tcp_drain_sem (tp_close_done (tcp_at s p)) s;
              let s = upd_tcp p (\<lambda>x. x\<lparr>tp_recv_head := 0, tp_recv_count := 0\<rparr>) s;
              let s = upd_tcp p (\<lambda>x. (tcp_reset_connection x)\<lparr>tp_error := NET_ERR_OK, tp_terminal_notified := False,
                        tp_netif := netif, tp_local_ip := nif_ipaddr (netifs s n), tp_remote_ip := r,
                        tp_local_port := local_port, tp_remote_port := remote_port, tp_iss := next_iss s,
                        tp_snd_una := next_iss s, tp_snd_nxt := next_iss s + 1, tp_rcv_nxt := 0\<rparr>) s;
              let s = s\<lparr>next_iss := next_iss s + 64000\<rparr>;
              (syn, s) \<leftarrow> tcp_make_segment p (tp_iss (tcp_at s p)) 0 TCP_FLAG_SYN None 0 s;
              (case syn of
                 None \<Rightarrow> Some (NET_ERR_MEM, upd_tcp p tcp_reset_connection s)
               | Some b \<Rightarrow> do {
                   (err, s) \<leftarrow> tcp_start_outstanding ops_of out_of p b (tp_snd_nxt (tcp_at s p)) s;
                   Some (if is_err err then (err, upd_tcp p tcp_reset_connection s)
                         else (NET_ERR_OK, upd_tcp p (\<lambda>x. x\<lparr>tp_state := TCP_STATE_SYN_SENT\<rparr>) s))
                 })
            }
          }
      | _ \<Rightarrow> Some (NET_ERR_PARAM, s))"

definition tcp_send_start ::
  "(nat \<Rightarrow> 'a tcp_state_scheme netif_ops) \<Rightarrow> (nat \<Rightarrow> 'a tcp_state_scheme link_out option) \<Rightarrow> nat option \<Rightarrow> u8 list option \<Rightarrow> int
   \<Rightarrow> 'a tcp_state_scheme \<Rightarrow> (net_err \<times> 'a tcp_state_scheme) option" where
  "tcp_send_start ops_of out_of pcb data sz s =
     (case pcb of
        None \<Rightarrow> Some (NET_ERR_PARAM, s)
      | Some p \<Rightarrow>
          if data = None \<or> sz \<le> 0 \<or> sz > int TCP_MSS then Some (NET_ERR_PARAM, s)
          else if tcp_find_slot pcb s = None then Some (NET_ERR_STATE, s)
          else if \<not> (tp_opened (tcp_at s p) \<and> tp_state (tcp_at s p) = TCP_STATE_ESTABLISHED) then Some (NET_ERR_STATE, s)
          else if tp_outstanding (tcp_at s p) \<noteq> None then Some (NET_ERR_FULL, s)
          else if tp_window (tcp_at s p) = 0 \<or> tp_window (tcp_at s p) < word_of_int sz then Some (NET_ERR_FULL, s)
          else do {
            let seq = tp_snd_nxt (tcp_at s p);
            let seg_end = seq + word_of_int sz;
            (segment, s) \<leftarrow> tcp_make_segment p seq (tp_rcv_nxt (tcp_at s p)) (TCP_FLAG_PSH OR TCP_FLAG_ACK) data (nat sz) s;
            (case segment of
               None \<Rightarrow> Some (NET_ERR_MEM, s)
             | Some b \<Rightarrow> do {
                 (err, s) \<leftarrow> tcp_start_outstanding ops_of out_of p b seg_end s;
                 Some (if is_err err then (err, s)
                       else (NET_ERR_OK, upd_tcp p (\<lambda>x. x\<lparr>tp_snd_nxt := seg_end\<rparr>) s))
               })
          })"



section \<open>Waiting and receiving\<close>

definition tcp_add_waiter :: "bool \<Rightarrow> int \<Rightarrow> nat \<Rightarrow> 'a tcp_state_scheme \<Rightarrow> 'a tcp_state_scheme" where
  "tcp_add_waiter connect_wait d p s =
     upd_tcp p (\<lambda>x. if connect_wait then x\<lparr>tp_connect_waiters := tp_connect_waiters x + d\<rparr>
                    else x\<lparr>tp_close_waiters := tp_close_waiters x + d\<rparr>) s"

definition tcp_wait_completion_acquire :: "nat option \<Rightarrow> bool \<Rightarrow> 'a tcp_state_scheme \<Rightarrow> net_err \<times> 'a tcp_state_scheme" where
  "tcp_wait_completion_acquire pcb connect_wait s =
     (case pcb of
        None \<Rightarrow> (NET_ERR_PARAM, s)
      | Some p \<Rightarrow>
          let x = tcp_at s p
          in if tcp_find_slot pcb s = None then (NET_ERR_PARAM, s)
             else if \<not> tp_opened x \<or> (tp_release_pending x \<and>
                     (connect_wait \<or> (tp_state x \<noteq> TCP_STATE_CLOSED \<and> tp_state x \<noteq> TCP_STATE_LISTEN)))
             then (NET_ERR_STATE, s)
             else if \<not> connect_wait \<and> (tp_state x = TCP_STATE_CLOSED \<or> tp_state x = TCP_STATE_LISTEN) \<and> tp_release_pending x
             then (NET_ERR_OK, tcp_add_waiter connect_wait 1 p s)
             else if is_err (tp_error x) then (tp_error x, s)
             else if connect_wait \<and> tp_state x \<noteq> TCP_STATE_SYN_SENT \<and> tp_state x \<noteq> TCP_STATE_ESTABLISHED
             then (NET_ERR_STATE, s)
             else if \<not> connect_wait \<and> tp_state x \<noteq> TCP_STATE_FIN_WAIT_1 \<and> tp_state x \<noteq> TCP_STATE_FIN_WAIT_2 \<and>
                     tp_state x \<noteq> TCP_STATE_TIME_WAIT \<and> \<not> (tp_state x = TCP_STATE_ESTABLISHED \<and> tp_close_requested x) \<and>
                     \<not> (tp_state x = TCP_STATE_CLOSED \<and> tp_release_pending x)
             then (NET_ERR_STATE, s)
             else (NET_ERR_OK, tcp_add_waiter connect_wait 1 p s))"

definition tcp_wait_completion_acquired ::
  "nat option \<Rightarrow> int \<Rightarrow> bool \<Rightarrow> 'a tcp_state_scheme sleep list \<Rightarrow> 'a tcp_state_scheme \<Rightarrow> (net_err \<times> 'a tcp_state_scheme) option" where
  "tcp_wait_completion_acquired pcb timeout_ms connect_wait sleeps s =
     (case pcb of
        None \<Rightarrow> Some (NET_ERR_PARAM, s)
      | Some p \<Rightarrow>
          let x = tcp_at s p;
              sem = (if connect_wait then tp_connect_done x else tp_close_done x);
              immediate =
                (if \<not> tp_opened x then NET_ERR_STATE
                 else if \<not> connect_wait \<and> (tp_state x = TCP_STATE_CLOSED \<or> tp_state x = TCP_STATE_LISTEN) \<and>
                         tp_release_pending x then NET_ERR_OK
                 else if is_err (tp_error x) then tp_error x
                 else if connect_wait \<and> tp_state x = TCP_STATE_ESTABLISHED then NET_ERR_OK
                 else NET_ERR_NONE)
          in if immediate \<noteq> NET_ERR_NONE then Some (immediate, tcp_add_waiter connect_wait (-1) p s)
             else do {
               (err, s) \<leftarrow> sys_sem_wait sem timeout_ms sleeps s;
               let err = (if err = NET_ERR_OK \<and> is_err (tp_error (tcp_at s p)) then tp_error (tcp_at s p) else err);
               let s = tcp_add_waiter connect_wait (-1) p s;
               Some (if timeout_ms < 0 \<and> err = NET_ERR_TMO then NET_ERR_NONE else err, s)
             })"

definition tcp_wait_connect_acquire :: "nat option \<Rightarrow> 'a tcp_state_scheme \<Rightarrow> net_err \<times> 'a tcp_state_scheme" where
  "tcp_wait_connect_acquire pcb s = tcp_wait_completion_acquire pcb True s"

definition tcp_wait_connect_acquired ::
  "nat option \<Rightarrow> int \<Rightarrow> 'a tcp_state_scheme sleep list \<Rightarrow> 'a tcp_state_scheme \<Rightarrow> (net_err \<times> 'a tcp_state_scheme) option" where
  "tcp_wait_connect_acquired pcb timeout_ms sleeps s = tcp_wait_completion_acquired pcb timeout_ms True sleeps s"

definition tcp_wait_connect ::
  "nat option \<Rightarrow> int \<Rightarrow> 'a tcp_state_scheme sleep list \<Rightarrow> 'a tcp_state_scheme \<Rightarrow> (net_err \<times> 'a tcp_state_scheme) option" where
  "tcp_wait_connect pcb timeout_ms sleeps s =
     (let (err, s) = tcp_wait_connect_acquire pcb s
      in if is_err err then Some (err, s) else tcp_wait_connect_acquired pcb timeout_ms sleeps s)"

definition tcp_wait_close_acquire :: "nat option \<Rightarrow> 'a tcp_state_scheme \<Rightarrow> net_err \<times> 'a tcp_state_scheme" where
  "tcp_wait_close_acquire pcb s = tcp_wait_completion_acquire pcb False s"

definition tcp_wait_close_acquired ::
  "nat option \<Rightarrow> int \<Rightarrow> 'a tcp_state_scheme sleep list \<Rightarrow> 'a tcp_state_scheme \<Rightarrow> (net_err \<times> 'a tcp_state_scheme) option" where
  "tcp_wait_close_acquired pcb timeout_ms sleeps s = tcp_wait_completion_acquired pcb timeout_ms False sleeps s"

definition tcp_wait_close ::
  "nat option \<Rightarrow> int \<Rightarrow> 'a tcp_state_scheme sleep list \<Rightarrow> 'a tcp_state_scheme \<Rightarrow> (net_err \<times> 'a tcp_state_scheme) option" where
  "tcp_wait_close pcb timeout_ms sleeps s =
     (let (err, s) = tcp_wait_close_acquire pcb s
      in if is_err err then Some (err, s) else tcp_wait_close_acquired pcb timeout_ms sleeps s)"

definition tcp_recv_acquire :: "nat option \<Rightarrow> 'a tcp_state_scheme \<Rightarrow> net_err \<times> 'a tcp_state_scheme" where
  "tcp_recv_acquire pcb s =
     (case pcb of
        None \<Rightarrow> (NET_ERR_PARAM, s)
      | Some p \<Rightarrow>
          let x = tcp_at s p
          in if tcp_find_slot pcb s = None then (NET_ERR_PARAM, s)
             else if \<not> tp_opened x \<or> tp_release_pending x then (NET_ERR_STATE, s)
             else if tp_state x \<noteq> TCP_STATE_SYN_SENT \<and> tp_state x \<noteq> TCP_STATE_ESTABLISHED \<and>
                     tp_state x \<noteq> TCP_STATE_FIN_WAIT_1 \<and> tp_state x \<noteq> TCP_STATE_FIN_WAIT_2
             then (if is_err (tp_error x) then tp_error x else NET_ERR_STATE, s)
             else (NET_ERR_OK, upd_tcp p (\<lambda>x. x\<lparr>tp_recv_waiters := tp_recv_waiters x + 1\<rparr>) s))"

text \<open>The \<open>copied\<close> bytes at the front of the receive ring, copied in one or two pieces, and the block without them.\<close>

definition tcp_ring_take :: "nat \<Rightarrow> tcp_pcb \<Rightarrow> u8 list \<times> tcp_pcb" where
  "tcp_ring_take copied x =
     (let first = (if TCP_RECV_MAX - tp_recv_head x > copied then copied else TCP_RECV_MAX - tp_recv_head x);
          bytes = get_at (tp_recv_head x) first (tp_recv_storage x) @
                  (if first < copied then get_at 0 (copied - first) (tp_recv_storage x) else [])
      in (bytes, x\<lparr>tp_recv_head := (tp_recv_head x + copied) mod TCP_RECV_MAX, tp_recv_count := tp_recv_count x - copied\<rparr>))"

text \<open>The loop of \<^verbatim>\<open>tcp_recv_bytes_acquired\<close>.\<close>

partial_function (option) tcp_recv_loop ::
  "(nat \<Rightarrow> 'a tcp_state_scheme sleep list) \<Rightarrow> nat \<Rightarrow> nat \<Rightarrow> nat \<Rightarrow> int \<Rightarrow> 'a tcp_state_scheme
   \<Rightarrow> (int \<times> u8 list \<times> 'a tcp_state_scheme) option" where
  "tcp_recv_loop sl k p sz timeout_ms s =
     (if tp_recv_count (tcp_at s p) \<noteq> 0 then do {
        (_, s) \<leftarrow> sys_sem_wait (tp_recv_done (tcp_at s p)) (-1) [] s;
        let copied = (if sz < tp_recv_count (tcp_at s p) then sz else tp_recv_count (tcp_at s p));
        let (bytes, x) = tcp_ring_take copied (tcp_at s p);
        let s = upd_tcp p (\<lambda>_. x) s;
        let s = (if tp_recv_count (tcp_at s p) \<noteq> 0 then sys_sem_notify (tp_recv_done (tcp_at s p)) s else s);
        Some (int copied, bytes, s)
      }
      else if is_err (tp_error (tcp_at s p)) \<or> tp_release_pending (tcp_at s p) \<or> \<not> tp_opened (tcp_at s p) \<or>
              tp_state (tcp_at s p) = TCP_STATE_CLOSED \<or> tp_state (tcp_at s p) = TCP_STATE_TIME_WAIT then do {
        let terminal_error = (if is_err (tp_error (tcp_at s p)) then tp_error (tcp_at s p) else NET_ERR_STATE);
        (_, s) \<leftarrow> sys_sem_wait (tp_recv_done (tcp_at s p)) (-1) [] s;
        Some (net_err_code terminal_error, [], s)
      }
      else do {
        (err, s) \<leftarrow> sys_sem_wait (tp_recv_done (tcp_at s p)) timeout_ms (sl k) s;
        if is_err err then Some (net_err_code (if timeout_ms < 0 \<and> err = NET_ERR_TMO then NET_ERR_NONE else err), [], s)
        else tcp_recv_loop sl (Suc k) p sz timeout_ms s
      })"

definition tcp_recv_bytes_acquired ::
  "(nat \<Rightarrow> 'a tcp_state_scheme sleep list) \<Rightarrow> nat option \<Rightarrow> bool \<Rightarrow> int \<Rightarrow> int \<Rightarrow> 'a tcp_state_scheme
   \<Rightarrow> (int \<times> u8 list \<times> 'a tcp_state_scheme) option" where
  "tcp_recv_bytes_acquired sl pcb data_null sz timeout_ms s =
     (case pcb of
        None \<Rightarrow> Some (net_err_code NET_ERR_PARAM, [], s)
      | Some p \<Rightarrow>
          if data_null \<or> sz \<le> 0 then Some (net_err_code NET_ERR_PARAM, [], s)
          else do {
            (result, bytes, s) \<leftarrow> tcp_recv_loop sl 0 p (nat sz) timeout_ms s;
            Some (result, bytes, upd_tcp p (\<lambda>x. x\<lparr>tp_recv_waiters := tp_recv_waiters x - 1\<rparr>) s)
          })"

definition tcp_recv_bytes ::
  "(nat \<Rightarrow> 'a tcp_state_scheme sleep list) \<Rightarrow> nat option \<Rightarrow> bool \<Rightarrow> int \<Rightarrow> int \<Rightarrow> 'a tcp_state_scheme
   \<Rightarrow> (int \<times> u8 list \<times> 'a tcp_state_scheme) option" where
  "tcp_recv_bytes sl pcb data_null sz timeout_ms s =
     (if pcb = None \<or> data_null \<or> sz \<le> 0 then Some (net_err_code NET_ERR_PARAM, [], s)
      else
        let (err, s) = tcp_recv_acquire pcb s
        in if is_err err then Some (net_err_code err, [], s)
           else tcp_recv_bytes_acquired sl pcb data_null sz timeout_ms s)"


section \<open>Closing\<close>

definition tcp_socket_detach :: "nat option \<Rightarrow> 'a tcp_state_scheme \<Rightarrow> net_err \<times> 'a tcp_state_scheme" where
  "tcp_socket_detach pcb s =
     (case pcb of
        None \<Rightarrow> (NET_ERR_PARAM, s)
      | Some p \<Rightarrow>
          let x = tcp_at s p
          in if tcp_find_slot pcb s = None then (NET_ERR_PARAM, s)
             else if \<not> (tp_opened x \<and> tp_socket_attached x \<and> tp_release_pending x \<and> tp_listener x = None \<and>
                        tp_accept_waiters x = 0 \<and> tp_accept_pins x = 0 \<and> tp_connect_waiters x = 0 \<and> tp_recv_waiters x = 0 \<and>
                        tp_close_waiters x = 0 \<and> \<not> tcp_listener_has_children_locked p s)
             then (NET_ERR_STATE, s)
             else tcp_release_now_locked pcb (upd_tcp p (\<lambda>x. x\<lparr>tp_socket_attached := False\<rparr>) s))"

definition tcp_abort_and_release :: "nat \<Rightarrow> 'a tcp_state_scheme \<Rightarrow> net_err \<times> 'a tcp_state_scheme" where
  "tcp_abort_and_release p s =
     (let s = tcp_clear_outstanding p s;
          s = net_timer_remove (Some (TIME_WAIT_TIMER p)) s;
          s = upd_tcp p (\<lambda>x. x\<lparr>tp_error := NET_ERR_STATE, tp_state := TCP_STATE_CLOSED, tp_close_requested := False\<rparr>) s
      in tcp_request_release p (tcp_notify_terminal p s))"

text \<open>The segment with the flag FIN is sent and the block waits for its acknowledgement: the end of \<^verbatim>\<open>tcp_close\<close> and of
  \<^verbatim>\<open>tcp_start_local_fin\<close>.\<close>

definition tcp_send_fin ::
  "(nat \<Rightarrow> 'a tcp_state_scheme netif_ops) \<Rightarrow> (nat \<Rightarrow> 'a tcp_state_scheme link_out option) \<Rightarrow> nat \<Rightarrow> 'a tcp_state_scheme
   \<Rightarrow> (net_err \<times> 'a tcp_state_scheme) option" where
  "tcp_send_fin ops_of out_of p s = do {
     let seq = tp_snd_nxt (tcp_at s p);
     (fin, s) \<leftarrow> tcp_make_segment p seq (tp_rcv_nxt (tcp_at s p)) (TCP_FLAG_FIN OR TCP_FLAG_ACK) None 0 s;
     (case fin of
        None \<Rightarrow> Some (NET_ERR_MEM, s)
      | Some b \<Rightarrow> do {
          (err, s) \<leftarrow> tcp_start_outstanding ops_of out_of p b (seq + 1) s;
          Some (if is_err err then (err, s)
                else (NET_ERR_OK, upd_tcp p (\<lambda>x. x\<lparr>tp_snd_nxt := seq + 1, tp_state := TCP_STATE_FIN_WAIT_1\<rparr>) s))
        })
   }"

definition tcp_start_local_fin ::
  "(nat \<Rightarrow> 'a tcp_state_scheme netif_ops) \<Rightarrow> (nat \<Rightarrow> 'a tcp_state_scheme link_out option) \<Rightarrow> nat \<Rightarrow> 'a tcp_state_scheme
   \<Rightarrow> (net_err \<times> 'a tcp_state_scheme) option" where
  "tcp_start_local_fin ops_of out_of p s =
     (if \<not> tp_opened (tcp_at s p) \<or> tp_outstanding (tcp_at s p) \<noteq> None \<or> tp_state (tcp_at s p) \<noteq> TCP_STATE_ESTABLISHED
      then Some (NET_ERR_STATE, s) else tcp_send_fin ops_of out_of p s)"

text \<open>The branch of \<^verbatim>\<open>tcp_close\<close> for a listener.\<close>

definition tcp_close_listener :: "nat \<Rightarrow> 'a tcp_state_scheme \<Rightarrow> net_err \<times> 'a tcp_state_scheme" where
  "tcp_close_listener p s =
     (let s = upd_tcp p (\<lambda>x. x\<lparr>tp_close_requested := True, tp_release_pending := True\<rparr>) s;
          accept_waiters = tp_accept_waiters (tcp_at s p);
          close_waiters = tp_close_waiters (tcp_at s p);
          s = sem_notify_times accept_waiters (tp_accept_done (tcp_at s p)) s;
          s = sem_notify_times close_waiters (tp_close_done (tcp_at s p)) s;
          s = (if accept_waiters = 0 then tcp_listener_cleanup_locked p s else s)
      in tcp_request_release p s)"

definition tcp_close ::
  "(nat \<Rightarrow> 'a tcp_state_scheme netif_ops) \<Rightarrow> (nat \<Rightarrow> 'a tcp_state_scheme link_out option) \<Rightarrow> nat option \<Rightarrow> 'a tcp_state_scheme
   \<Rightarrow> (net_err \<times> 'a tcp_state_scheme) option" where
  "tcp_close ops_of out_of pcb s =
     (case pcb of
        None \<Rightarrow> Some (NET_ERR_PARAM, s)
      | Some p \<Rightarrow>
          let x = tcp_at s p
          in if tcp_find_slot pcb s = None then Some (NET_ERR_PARAM, s)
             else if \<not> tp_opened x then Some (NET_ERR_PARAM, s)
             else if tp_listener x \<noteq> None then Some (NET_ERR_OK, tcp_listener_detach_child_locked p NET_ERR_STATE s)
             else if tp_release_pending x then
               let releasable = (tp_connect_waiters x = 0 \<and> tp_recv_waiters x = 0 \<and> tp_close_waiters x = 0 \<and>
                                 tp_accept_waiters x = 0 \<and> tp_listener x = None \<and> tp_accept_pins x = 0 \<and>
                                 \<not> tp_socket_attached x);
                   s = (if tp_state x = TCP_STATE_LISTEN \<and> tp_accept_waiters x = 0 then tcp_listener_cleanup_locked p s else s)
               in Some (if releasable then tcp_release_now_locked pcb s else (NET_ERR_OK, s))
             else
               (case tp_state x of
                  TCP_STATE_TIME_WAIT \<Rightarrow> Some (NET_ERR_OK, s)
                | TCP_STATE_LISTEN \<Rightarrow> Some (tcp_close_listener p s)
                | TCP_STATE_ESTABLISHED \<Rightarrow>
                    if tp_outstanding x \<noteq> None
                    then Some (NET_ERR_OK, upd_tcp p (\<lambda>x. x\<lparr>tp_close_requested := True\<rparr>) s)
                    else tcp_send_fin ops_of out_of p s
                | _ \<Rightarrow> Some (tcp_abort_and_release p s)))"



section \<open>Input\<close>

definition tcp_header_check :: "u8 list option \<Rightarrow> int \<Rightarrow> net_err" where
  "tcp_header_check header sz =
     (case header of
        None \<Rightarrow> NET_ERR_SIZE
      | Some h \<Rightarrow>
          if sz < int TCP_HEADER_SIZE then NET_ERR_SIZE
          else
            let header_size = int (unat (drop_bit 4 (h ! 12)) * 4)
            in if header_size < int TCP_HEADER_SIZE \<or> header_size > sz then NET_ERR_SIZE
               else if h ! 12 AND 0x0f \<noteq> 0 then NET_ERR_FORMAT
               else NET_ERR_OK)"

definition tcp_sequence_in_window :: "u32 \<Rightarrow> u32 \<Rightarrow> u16 \<Rightarrow> bool" where
  "tcp_sequence_in_window sequence start window \<longleftrightarrow> window \<noteq> 0 \<and> sequence - start < ucast window"

definition tcp_state_accept_ack :: "tcp_status \<Rightarrow> u32 \<Rightarrow> u32 \<Rightarrow> net_err" where
  "tcp_state_accept_ack state ack expected_ack =
     (if state \<noteq> TCP_STATE_SYN_SENT \<or> ack \<noteq> expected_ack + 1 then NET_ERR_STATE else NET_ERR_OK)"

definition tcp_find_pcb :: "nat \<Rightarrow> ipaddr \<Rightarrow> ipaddr \<Rightarrow> u16 \<Rightarrow> u16 \<Rightarrow> 'a tcp_state_scheme \<Rightarrow> nat option" where
  "tcp_find_pcb n src dest src_port dest_port s =
     Option.bind (find (\<lambda>x. case x of None \<Rightarrow> False
         | Some p \<Rightarrow> tp_opened (tcp_at s p) \<and> tp_netif (tcp_at s p) = Some n \<and> tp_local_port (tcp_at s p) = dest_port \<and>
             tp_remote_port (tcp_at s p) = src_port \<and> tp_local_ip (tcp_at s p) = dest \<and> tp_remote_ip (tcp_at s p) = src)
       (tcp_pcbs s)) id"

definition tcp_find_listener :: "nat \<Rightarrow> ipaddr \<Rightarrow> u16 \<Rightarrow> 'a tcp_state_scheme \<Rightarrow> nat option" where
  "tcp_find_listener n dest dest_port s =
     Option.bind (find (\<lambda>x. case x of None \<Rightarrow> False
         | Some p \<Rightarrow> tp_opened (tcp_at s p) \<and> \<not> tp_release_pending (tcp_at s p) \<and> tp_state (tcp_at s p) = TCP_STATE_LISTEN \<and>
             tp_netif (tcp_at s p) = Some n \<and> tp_local_port (tcp_at s p) = dest_port \<and> tp_local_ip (tcp_at s p) = dest)
       (tcp_pcbs s)) id"

definition tcp_passive_syn ::
  "(nat \<Rightarrow> 'a tcp_state_scheme netif_ops) \<Rightarrow> (nat \<Rightarrow> 'a tcp_state_scheme link_out option) \<Rightarrow> nat \<Rightarrow> nat \<Rightarrow> ipaddr \<Rightarrow> u16 \<Rightarrow> u32 \<Rightarrow> u16
   \<Rightarrow> 'a tcp_state_scheme \<Rightarrow> (net_err \<times> 'a tcp_state_scheme) option" where
  "tcp_passive_syn ops_of out_of l n src src_port seq window s =
     (if tp_release_pending (tcp_at s l) \<or> tp_pending_count (tcp_at s l) \<ge> tp_backlog (tcp_at s l) then Some (NET_ERR_FULL, s)
      else do {
        (err, child, s) \<leftarrow> tcp_alloc_locked False s;
        (case child of
           None \<Rightarrow> Some (err, s)
         | Some c \<Rightarrow> do {
             let s = upd_tcp c (\<lambda>x. x\<lparr>tp_listener := Some l, tp_passive := True, tp_netif := Some n,
                       tp_local_ip := tp_local_ip (tcp_at s l), tp_remote_ip := src,
                       tp_local_port := tp_local_port (tcp_at s l), tp_remote_port := src_port,
                       tp_iss := next_iss s, tp_snd_una := next_iss s, tp_snd_nxt := next_iss s + 1,
                       tp_rcv_nxt := seq + 1, tp_window := window, tp_state := TCP_STATE_SYN_RECEIVED\<rparr>) s;
             let s = s\<lparr>next_iss := next_iss s + 64000\<rparr>;
             let s = upd_tcp l (\<lambda>x. x\<lparr>tp_pending_count := tp_pending_count x + 1\<rparr>) s;
             (syn_ack, s) \<leftarrow> tcp_make_segment c (tp_iss (tcp_at s c)) (tp_rcv_nxt (tcp_at s c))
               (TCP_FLAG_SYN OR TCP_FLAG_ACK) None 0 s;
             (case syn_ack of
                None \<Rightarrow> Some (NET_ERR_MEM, tcp_listener_detach_child_locked c NET_ERR_MEM s)
              | Some b \<Rightarrow> do {
                  (err, s) \<leftarrow> tcp_start_outstanding ops_of out_of c b (tp_snd_nxt (tcp_at s c)) s;
                  Some (if is_err err then (err, tcp_listener_detach_child_locked c err s) else (NET_ERR_OK, s))
                })
           })
      })"

text \<open>What an acknowledgement of the outstanding segment changes in the block.\<close>

definition tcp_acked :: "u32 \<Rightarrow> tcp_pcb \<Rightarrow> tcp_pcb" where
  "tcp_acked ack x =
     (let x = x\<lparr>tp_snd_una := ack,
                tp_close_requested := (if tp_close_requested x \<and> tp_state x = TCP_STATE_ESTABLISHED then False
                                       else tp_close_requested x)\<rparr>
      in if tp_state x = TCP_STATE_FIN_WAIT_1 then
           (if tp_peer_fin_seen x then x\<lparr>tp_state := TCP_STATE_TIME_WAIT, tp_peer_fin_seen := False\<rparr>
            else x\<lparr>tp_state := TCP_STATE_FIN_WAIT_2\<rparr>)
         else x)"

definition tcp_accept_ack ::
  "(nat \<Rightarrow> 'a tcp_state_scheme netif_ops) \<Rightarrow> (nat \<Rightarrow> 'a tcp_state_scheme link_out option) \<Rightarrow> nat \<Rightarrow> u32 \<Rightarrow> 'a tcp_state_scheme
   \<Rightarrow> (net_err \<times> 'a tcp_state_scheme) option" where
  "tcp_accept_ack ops_of out_of p ack s =
     (let x = tcp_at s p
      in if sint (ack - tp_snd_una x) < 0 \<or> sint (ack - tp_snd_nxt x) > 0 then Some (NET_ERR_STATE, s)
         else if tp_outstanding x \<noteq> None \<and> ack = tp_outstanding_end x then do {
           let start_fin = (tp_close_requested x \<and> tp_state x = TCP_STATE_ESTABLISHED);
           let s = tcp_clear_outstanding p (upd_tcp p (tcp_acked ack) s);
           if start_fin then do {
             (err, s) \<leftarrow> tcp_start_local_fin ops_of out_of p s;
             Some (if is_err err then tcp_fail p err s else (NET_ERR_OK, s))
           } else Some (NET_ERR_OK, s)
         } else Some (NET_ERR_OK, s))"

text \<open>Bytes are put into the receive ring in one or two pieces.\<close>

definition tcp_ring_put :: "u8 list \<Rightarrow> tcp_pcb \<Rightarrow> tcp_pcb" where
  "tcp_ring_put payload x =
     (let tail = (tp_recv_head x + tp_recv_count x) mod TCP_RECV_MAX;
          first = (if TCP_RECV_MAX - tail > length payload then length payload else TCP_RECV_MAX - tail);
          storage = put_at tail (take first payload) (tp_recv_storage x);
          storage = (if first < length payload then put_at 0 (drop first payload) storage else storage)
      in x\<lparr>tp_recv_storage := storage, tp_recv_count := tp_recv_count x + length payload\<rparr>)"

definition tcp_queue_data :: "nat \<Rightarrow> nat \<Rightarrow> int \<Rightarrow> int \<Rightarrow> 'a tcp_state_scheme \<Rightarrow> (net_err \<times> 'a tcp_state_scheme) option" where
  "tcp_queue_data p b header_size payload_size s =
     (if payload_size > int TCP_MSS then Some (NET_ERR_SIZE, s)
      else if payload_size > int TCP_RECV_MAX - int (tp_recv_count (tcp_at s p)) then Some (NET_ERR_FULL, s)
      else do {
        let was_empty = (tp_recv_count (tcp_at s p) = 0);
        (err, s) \<leftarrow> pktbuf_seek (Some b) header_size (reset_acc b s);
        if is_err err then Some (NET_ERR_SIZE, s)
        else do {
          (err, payload, s) \<leftarrow> pktbuf_read (Some b) False payload_size s;
          if is_err err then Some (NET_ERR_SIZE, s)
          else
            let s = upd_tcp p (tcp_ring_put payload) s
            in Some (NET_ERR_OK, if was_empty then sys_sem_notify (tp_recv_done (tcp_at s p)) s else s)
        }
      })"

definition tcp_add_time_wait :: "nat \<Rightarrow> 'a tcp_state_scheme \<Rightarrow> net_err \<times> 'a tcp_state_scheme" where
  "tcp_add_time_wait p s =
     (let s = net_timer_remove (Some (TIME_WAIT_TIMER p)) s
      in net_timer_add (Some (TIME_WAIT_TIMER p)) (Some ''tcp-time-wait'') (Some TCP_TIME_WAIT_PROC) (Some p) TCP_TIME_WAIT_MS 0 s)"

definition tcp_arm_time_wait :: "nat \<Rightarrow> 'a tcp_state_scheme \<Rightarrow> net_err \<times> 'a tcp_state_scheme" where
  "tcp_arm_time_wait p s =
     (if tp_state (tcp_at s p) \<noteq> TCP_STATE_TIME_WAIT then (NET_ERR_STATE, s)
      else
        let s = upd_tcp p (\<lambda>x. x\<lparr>tp_peer_fin_seen := False\<rparr>) s;
            recv_waiters = tp_recv_waiters (tcp_at s p);
            s = sem_notify_times recv_waiters (tp_recv_done (tcp_at s p)) s
        in tcp_add_time_wait p s)"


text \<open>The branches of \<^verbatim>\<open>tcp_in\<close>. An error is returned with the buffer left to the caller; otherwise the buffer is
  released.\<close>

definition tcp_in_done :: "nat \<Rightarrow> 'a tcp_state_scheme \<Rightarrow> (net_err \<times> 'a tcp_state_scheme) option" where
  "tcp_in_done b s = Some (NET_ERR_OK, pktbuf_free (Some b) s)"

definition tcp_in_no_pcb ::
  "(nat \<Rightarrow> 'a tcp_state_scheme netif_ops) \<Rightarrow> (nat \<Rightarrow> 'a tcp_state_scheme link_out option) \<Rightarrow> nat \<Rightarrow> ipaddr \<Rightarrow> ipaddr \<Rightarrow> nat \<Rightarrow> u16 \<Rightarrow> u16 \<Rightarrow> u32 \<Rightarrow> u8 \<Rightarrow> u16 \<Rightarrow> int
   \<Rightarrow> 'a tcp_state_scheme \<Rightarrow> (net_err \<times> 'a tcp_state_scheme) option" where
  "tcp_in_no_pcb ops_of out_of n src dest b src_port dest_port seq flags window payload_size s =
     (case tcp_find_listener n dest dest_port s of
        None \<Rightarrow> Some (NET_ERR_UNREACH, s)
      | Some l \<Rightarrow>
          if payload_size \<noteq> 0 \<or> flags \<noteq> TCP_FLAG_SYN then Some (NET_ERR_STATE, s)
          else do {
            (err, s) \<leftarrow> tcp_passive_syn ops_of out_of l n src src_port seq window s;
            Some (err, if \<not> is_err err then pktbuf_free (Some b) s else s)
          })"

definition tcp_in_time_wait ::
  "(nat \<Rightarrow> 'a tcp_state_scheme netif_ops) \<Rightarrow> (nat \<Rightarrow> 'a tcp_state_scheme link_out option) \<Rightarrow> nat \<Rightarrow> nat \<Rightarrow> u32 \<Rightarrow> u32 \<Rightarrow> u8 \<Rightarrow> int \<Rightarrow> 'a tcp_state_scheme
   \<Rightarrow> (net_err \<times> 'a tcp_state_scheme) option" where
  "tcp_in_time_wait ops_of out_of p b seq ack flags payload_size s =
     (let fin_seq = seq + word_of_int payload_size;
          rcv_nxt = tp_rcv_nxt (tcp_at s p)
      in if flags AND TCP_FLAG_FIN = 0 \<or> flags AND TCP_FLAG_ACK = 0 \<or> flags AND TCP_FLAG_SYN \<noteq> 0 \<or>
            (fin_seq \<noteq> rcv_nxt \<and> fin_seq + 1 \<noteq> rcv_nxt)
         then Some (NET_ERR_STATE, s)
         else do {
           (err, s) \<leftarrow> tcp_accept_ack ops_of out_of p ack s;
           if is_err err then Some (err, s)
           else do {
             (err, s) \<leftarrow> tcp_send_ack ops_of out_of p s;
             if is_err err then Some (err, s)
             else
               let (err, s) = tcp_add_time_wait p s
               in if is_err err then Some (tcp_fail p err s) else tcp_in_done b s
           }
         })"

definition tcp_in_syn_sent ::
  "(nat \<Rightarrow> 'a tcp_state_scheme netif_ops) \<Rightarrow> (nat \<Rightarrow> 'a tcp_state_scheme link_out option) \<Rightarrow> nat \<Rightarrow> nat \<Rightarrow> u32 \<Rightarrow> u32 \<Rightarrow> u8 \<Rightarrow> u16 \<Rightarrow> int \<Rightarrow> 'a tcp_state_scheme
   \<Rightarrow> (net_err \<times> 'a tcp_state_scheme) option" where
  "tcp_in_syn_sent ops_of out_of p b seq ack flags window payload_size s =
     (if payload_size \<noteq> 0 then Some (NET_ERR_FORMAT, s)
      else if flags \<noteq> (TCP_FLAG_SYN OR TCP_FLAG_ACK) \<or> is_err (tcp_state_accept_ack (tp_state (tcp_at s p)) ack (tp_iss (tcp_at s p)))
      then Some (NET_ERR_STATE, s)
      else do {
        let s = upd_tcp p (\<lambda>x. x\<lparr>tp_window := window, tp_snd_una := ack, tp_rcv_nxt := seq + 1\<rparr>) s;
        let s = tcp_clear_outstanding p s;
        (err, s) \<leftarrow> tcp_send_ack ops_of out_of p s;
        if is_err err then Some (tcp_fail p err s)
        else
          let s = upd_tcp p (\<lambda>x. x\<lparr>tp_state := TCP_STATE_ESTABLISHED\<rparr>) s;
              connect_waiters = tp_connect_waiters (tcp_at s p);
              s = sem_notify_times (if connect_waiters \<noteq> 0 then connect_waiters else 1) (tp_connect_done (tcp_at s p)) s
          in tcp_in_done b s
      })"

definition tcp_in_syn_received ::
  "(nat \<Rightarrow> 'a tcp_state_scheme netif_ops) \<Rightarrow> (nat \<Rightarrow> 'a tcp_state_scheme link_out option) \<Rightarrow> nat \<Rightarrow> nat \<Rightarrow> u32 \<Rightarrow> u32 \<Rightarrow> u8 \<Rightarrow> u16 \<Rightarrow> int \<Rightarrow> 'a tcp_state_scheme
   \<Rightarrow> (net_err \<times> 'a tcp_state_scheme) option" where
  "tcp_in_syn_received ops_of out_of p b seq ack flags window payload_size s =
     (let rcv_nxt = tp_rcv_nxt (tcp_at s p)
      in if payload_size \<noteq> 0 then Some (NET_ERR_FORMAT, s)
         else if flags = TCP_FLAG_SYN \<and> seq + 1 = rcv_nxt \<and> ack = 0 then do {
           (err, s) \<leftarrow> tcp_output_owned ops_of out_of p s;
           if is_err err then Some (tcp_fail p err s) else tcp_in_done b s
         }
         else if flags \<noteq> TCP_FLAG_ACK \<or> seq \<noteq> rcv_nxt \<or> ack \<noteq> tp_iss (tcp_at s p) + 1 then Some (NET_ERR_STATE, s)
         else
           let s = tcp_clear_outstanding p s;
               s = upd_tcp p (\<lambda>x. x\<lparr>tp_snd_una := ack, tp_window := window, tp_state := TCP_STATE_ESTABLISHED\<rparr>) s
           in case tp_listener (tcp_at s p) of
                None \<Rightarrow> Some (tcp_fail p NET_ERR_STATE s)
              | Some l \<Rightarrow>
                  if tp_release_pending (tcp_at s l) \<or> tp_accept_count (tcp_at s l) \<ge> TCP_ACCEPT_MAX
                  then Some (tcp_fail p NET_ERR_STATE s)
                  else
                    let s = upd_tcp l (\<lambda>x. x\<lparr>tp_accept_queue := (tp_accept_queue x)[(tp_accept_head x + tp_accept_count x) mod TCP_ACCEPT_MAX := Some p],
                                            tp_accept_count := tp_accept_count x + 1\<rparr>) s;
                        s = sys_sem_notify (tp_accept_done (tcp_at s l)) s
                    in tcp_in_done b s)"

definition tcp_in_fin ::
  "(nat \<Rightarrow> 'a tcp_state_scheme netif_ops) \<Rightarrow> (nat \<Rightarrow> 'a tcp_state_scheme link_out option) \<Rightarrow> nat \<Rightarrow> nat \<Rightarrow> u32 \<Rightarrow> int \<Rightarrow> 'a tcp_state_scheme \<Rightarrow> (net_err \<times> 'a tcp_state_scheme) option" where
  "tcp_in_fin ops_of out_of p b seq payload_size s =
     (if seq + word_of_int payload_size = tp_rcv_nxt (tcp_at s p) then do {
        let fin_state = tp_state (tcp_at s p);
        let s = upd_tcp p (\<lambda>x. x\<lparr>tp_rcv_nxt := tp_rcv_nxt x + 1\<rparr>) s;
        (err, s) \<leftarrow> tcp_send_ack ops_of out_of p s;
        if is_err err then Some (tcp_fail p err s)
        else if fin_state = TCP_STATE_FIN_WAIT_2 then
          let s = upd_tcp p (\<lambda>x. x\<lparr>tp_state := TCP_STATE_TIME_WAIT, tp_peer_fin_seen := False\<rparr>) s;
              (err, s) = tcp_arm_time_wait p s
          in if is_err err then Some (tcp_fail p err s) else tcp_in_done b s
        else if fin_state = TCP_STATE_ESTABLISHED then
          (if tp_listener (tcp_at s p) \<noteq> None then tcp_in_done b (tcp_listener_detach_child_locked p NET_ERR_STATE s)
           else
             let s = upd_tcp p (\<lambda>x. x\<lparr>tp_peer_fin_seen := True\<rparr>) s
             in if tp_outstanding (tcp_at s p) \<noteq> None
                then tcp_in_done b (upd_tcp p (\<lambda>x. x\<lparr>tp_close_requested := True\<rparr>) s)
                else do {
                  (err, s) \<leftarrow> tcp_start_local_fin ops_of out_of p s;
                  if is_err err then Some (tcp_fail p err s) else tcp_in_done b s
                })
        else if fin_state = TCP_STATE_FIN_WAIT_1 then tcp_in_done b (upd_tcp p (\<lambda>x. x\<lparr>tp_peer_fin_seen := True\<rparr>) s)
        else tcp_in_done b s
      }
      else if payload_size = 0 then do {
        (err, s) \<leftarrow> tcp_send_ack ops_of out_of p s;
        if is_err err then Some (err, s) else tcp_in_done b s
      }
      else tcp_in_done b s)"

definition tcp_in_data ::
  "(nat \<Rightarrow> 'a tcp_state_scheme netif_ops) \<Rightarrow> (nat \<Rightarrow> 'a tcp_state_scheme link_out option) \<Rightarrow> nat \<Rightarrow> nat \<Rightarrow> u32 \<Rightarrow> u8 \<Rightarrow> int \<Rightarrow> int \<Rightarrow> 'a tcp_state_scheme
   \<Rightarrow> (net_err \<times> 'a tcp_state_scheme) option" where
  "tcp_in_data ops_of out_of p b seq flags header_size payload_size s = do {
     (err, s) \<leftarrow> (if payload_size > 0 \<and> seq = tp_rcv_nxt (tcp_at s p) then do {
                   (err, s) \<leftarrow> tcp_queue_data p b header_size payload_size s;
                   Some (err, if is_err err then s
                              else upd_tcp p (\<lambda>x. x\<lparr>tp_rcv_nxt := tp_rcv_nxt x + word_of_int payload_size\<rparr>) s)
                 } else Some (NET_ERR_OK, s));
     if is_err err then Some (err, s)
     else do {
       (err, s) \<leftarrow> (if payload_size > 0 then tcp_send_ack ops_of out_of p s else Some (NET_ERR_OK, s));
       if is_err err then Some (err, s)
       else if flags AND TCP_FLAG_FIN \<noteq> 0 then tcp_in_fin ops_of out_of p b seq payload_size s
       else tcp_in_done b s
     }
   }"

definition tcp_in_open ::
  "(nat \<Rightarrow> 'a tcp_state_scheme netif_ops) \<Rightarrow> (nat \<Rightarrow> 'a tcp_state_scheme link_out option) \<Rightarrow> nat \<Rightarrow> nat \<Rightarrow> u32 \<Rightarrow> u32 \<Rightarrow> u8 \<Rightarrow> u16 \<Rightarrow> int \<Rightarrow> int \<Rightarrow> 'a tcp_state_scheme
   \<Rightarrow> (net_err \<times> 'a tcp_state_scheme) option" where
  "tcp_in_open ops_of out_of p b seq ack flags window header_size payload_size s =
     (if flags AND TCP_FLAG_ACK = 0 \<or> flags AND TCP_FLAG_SYN \<noteq> 0 then Some (NET_ERR_STATE, s)
      else do {
        (err, s) \<leftarrow> tcp_accept_ack ops_of out_of p ack s;
        if is_err err then Some (err, s)
        else if tp_state (tcp_at s p) = TCP_STATE_TIME_WAIT then
          let (err, s) = tcp_arm_time_wait p s
          in if is_err err then Some (tcp_fail p err s) else tcp_in_done b s
        else tcp_in_data ops_of out_of p b seq flags header_size payload_size (upd_tcp p (\<lambda>x. x\<lparr>tp_window := window\<rparr>) s)
      })"

definition tcp_in ::
  "(nat \<Rightarrow> 'a tcp_state_scheme netif_ops) \<Rightarrow> (nat \<Rightarrow> 'a tcp_state_scheme link_out option) \<Rightarrow> nat option \<Rightarrow> ipaddr option \<Rightarrow> ipaddr option \<Rightarrow> nat option
   \<Rightarrow> 'a tcp_state_scheme \<Rightarrow> (net_err \<times> 'a tcp_state_scheme) option" where
  "tcp_in ops_of out_of netif src dest buf s =
     (case (netif, src, dest, buf) of
        (Some n, Some a, Some d, Some b) \<Rightarrow>
          let tot = pktbuf_total b s
          in if tot < int TCP_HEADER_SIZE then Some (NET_ERR_SIZE, s)
             else do {
               (err, s) \<leftarrow> pktbuf_set_cont buf (int TCP_HEADER_SIZE) s;
               if is_err err then Some (NET_ERR_SIZE, s)
               else do {
                 header \<leftarrow> pktbuf_get b 0 TCP_HEADER_SIZE s;
                 let err = tcp_header_check (Some header) tot;
                 if is_err err then Some (err, s)
                 else
                   let header_size = int (unat (drop_bit 4 (header ! 12)) * 4);
                       flags = header ! 13
                   in if flags AND NOT (TCP_FLAG_FIN OR TCP_FLAG_SYN OR TCP_FLAG_PSH OR TCP_FLAG_ACK) \<noteq> 0
                      then Some (NET_ERR_NOT_SUPPORT, s)
                      else do {
                        (sum, s) \<leftarrow> tcp_checksum buf src dest (word_of_int tot) s;
                        if sum \<noteq> 0 then Some (NET_ERR_CHKSUM, s)
                        else
                          let src_port = x_ntohs (le16_at header 0);
                              dest_port = x_ntohs (le16_at header 2);
                              seq = x_ntohl (le32_at header 4);
                              ack = x_ntohl (le32_at header 8);
                              window = x_ntohs (le16_at header 14);
                              payload_size = tot - header_size
                          in case tcp_find_pcb n a d src_port dest_port s of
                               None \<Rightarrow> tcp_in_no_pcb ops_of out_of n a d b src_port dest_port seq flags window payload_size s
                             | Some p \<Rightarrow>
                                 (case tp_state (tcp_at s p) of
                                    TCP_STATE_TIME_WAIT \<Rightarrow> tcp_in_time_wait ops_of out_of p b seq ack flags payload_size s
                                  | TCP_STATE_SYN_SENT \<Rightarrow> tcp_in_syn_sent ops_of out_of p b seq ack flags window payload_size s
                                  | TCP_STATE_SYN_RECEIVED \<Rightarrow> tcp_in_syn_received ops_of out_of p b seq ack flags window payload_size s
                                  | TCP_STATE_ESTABLISHED \<Rightarrow> tcp_in_open ops_of out_of p b seq ack flags window header_size payload_size s
                                  | TCP_STATE_FIN_WAIT_1 \<Rightarrow> tcp_in_open ops_of out_of p b seq ack flags window header_size payload_size s
                                  | TCP_STATE_FIN_WAIT_2 \<Rightarrow> tcp_in_open ops_of out_of p b seq ack flags window header_size payload_size s
                                  | _ \<Rightarrow> Some (NET_ERR_STATE, s))
                      }
               }
             }
      | _ \<Rightarrow> Some (NET_ERR_PARAM, s))"

end
