(* ===== verification/Net_Exec.thy ===== *)
theory Net_Exec
  imports Tcp
begin

text \<open>
  Requests to the network task, \<^verbatim>\<open>kernel/src/net/net_exec.c\<close>: a task puts a procedure and its argument into one of the
  request records, sends the address of the record through a queue, and waits until the network task has run it.
  A procedure is named by its address; \<open>run f arg\<close> is the call of the procedure at \<open>f\<close>.
\<close>

record net_exec_req =
  rq_proc :: "nat option"
  rq_arg :: "nat option"
  rq_done :: sys_sem_t
  rq_completed :: bool
  rq_abandoned :: bool
  rq_started :: bool

record exec_state = tcp_state +
  requests :: "net_exec_req list"
  exec_initialized :: bool

definition NET_EXEC_QUEUE_SIZE :: nat where "NET_EXEC_QUEUE_SIZE = 8"

text \<open>The queue of requests; the address of a record is its index.\<close>

definition REQUEST_Q :: nat where "REQUEST_Q = 3"

definition upd_req :: "nat \<Rightarrow> (net_exec_req \<Rightarrow> net_exec_req) \<Rightarrow> 'a exec_state_scheme \<Rightarrow> 'a exec_state_scheme" where
  "upd_req i f s = s\<lparr>requests := (requests s)[i := f (requests s ! i)]\<rparr>"

text \<open>The loop of \<^verbatim>\<open>net_exec_init\<close> over the records from \<open>i\<close> on.\<close>

fun net_exec_init_loop :: "nat list \<Rightarrow> 'a exec_state_scheme \<Rightarrow> net_err \<times> 'a exec_state_scheme" where
  "net_exec_init_loop [] s = (NET_ERR_OK, s\<lparr>exec_initialized := True\<rparr>)"
| "net_exec_init_loop (i # is) s =
     (let (sem, s) = sys_sem_create 0 s;
          s = upd_req i (\<lambda>r. r\<lparr>rq_proc := None, rq_done := sem\<rparr>) s
      in if sem = None then (NET_ERR_MEM, s) else net_exec_init_loop is s)"

definition net_exec_init :: "'a exec_state_scheme \<Rightarrow> net_err \<times> 'a exec_state_scheme" where
  "net_exec_init s =
     (if exec_initialized s then (NET_ERR_EXIST, s)
      else
        let (err, s) = fixq_init (Some REQUEST_Q) (Some (replicate NET_EXEC_QUEUE_SIZE 0)) (int NET_EXEC_QUEUE_SIZE)
                         NLOCKER_THREAD s
        in if is_err err then (err, s) else net_exec_init_loop [0..<NET_EXEC_QUEUE_SIZE] s)"

text \<open>The sections of \<^verbatim>\<open>net_exec_submit\<close>: taking a record, giving it back when it could not be sent, and the decision
  after the wait.\<close>

definition exec_claim :: "nat \<Rightarrow> nat option \<Rightarrow> 'a exec_state_scheme \<Rightarrow> nat option \<times> 'a exec_state_scheme" where
  "exec_claim f arg s =
     (case find_index (\<lambda>r. rq_proc r = None) (requests s) of
        None \<Rightarrow> (None, s)
      | Some i \<Rightarrow> (Some i, upd_req i (\<lambda>r. r\<lparr>rq_proc := Some f, rq_arg := arg, rq_completed := False, rq_abandoned := False,
                                          rq_started := False\<rparr>) s))"

definition exec_finish :: "nat \<Rightarrow> net_err \<Rightarrow> 'a exec_state_scheme \<Rightarrow> (net_err \<times> 'a exec_state_scheme) option" where
  "exec_finish i err s =
     (if rq_completed (requests s ! i) then do {
        (_, s) \<leftarrow> (if is_err err then sys_sem_wait (rq_done (requests s ! i)) (-1) [] s else Some (err, s));
        Some (NET_ERR_OK, upd_req i (\<lambda>r. r\<lparr>rq_proc := None\<rparr>) s)
      } else Some (err, upd_req i (\<lambda>r. r\<lparr>rq_abandoned := True\<rparr>) s))"

definition net_exec_submit ::
  "(nat \<Rightarrow> 'a exec_state_scheme sleep list) \<Rightarrow> nat option \<Rightarrow> nat option \<Rightarrow> int \<Rightarrow> 'a exec_state_scheme
   \<Rightarrow> (net_err \<times> 'a exec_state_scheme) option" where
  "net_exec_submit sl proc arg timeout_ms s =
     (case proc of
        None \<Rightarrow> Some (NET_ERR_PARAM, s)
      | Some f \<Rightarrow>
          if \<not> exec_initialized s then Some (NET_ERR_PARAM, s)
          else
            (case exec_claim f arg s of
               (None, s) \<Rightarrow> Some (NET_ERR_FULL, s)
             | (Some i, s) \<Rightarrow> do {
                 (err, s) \<leftarrow> fixq_send (Some REQUEST_Q) (Some i) timeout_ms (sl 0) s;
                 if is_err err then Some (err, upd_req i (\<lambda>r. r\<lparr>rq_proc := None\<rparr>) s)
                 else do {
                   (err, s) \<leftarrow> sys_sem_wait (rq_done (requests s ! i)) timeout_ms (sl 1) s;
                   (err, s) \<leftarrow> (if is_err err \<and> rq_started (requests s ! i) \<and> \<not> rq_completed (requests s ! i)
                               then sys_sem_wait (rq_done (requests s ! i)) 0 (sl 2) s else Some (err, s));
                   exec_finish i err s
                 }
               }))"

text \<open>The sections of \<^verbatim>\<open>net_exec_run_once\<close>: a request is started unless its task has given up, and after the
  procedure has run its task is told.\<close>

definition exec_start :: "nat \<Rightarrow> 'a exec_state_scheme \<Rightarrow> bool \<times> 'a exec_state_scheme" where
  "exec_start i s =
     (if rq_abandoned (requests s ! i) then (False, upd_req i (\<lambda>r. r\<lparr>rq_proc := None\<rparr>) s)
      else (True, upd_req i (\<lambda>r. r\<lparr>rq_started := True\<rparr>) s))"

definition exec_complete :: "nat \<Rightarrow> 'a exec_state_scheme \<Rightarrow> 'a exec_state_scheme" where
  "exec_complete i s =
     (if rq_abandoned (requests s ! i) then upd_req i (\<lambda>r. r\<lparr>rq_proc := None\<rparr>) s
      else sys_sem_notify (rq_done (requests s ! i)) (upd_req i (\<lambda>r. r\<lparr>rq_completed := True\<rparr>) s))"

definition net_exec_run_once ::
  "(nat \<Rightarrow> nat option \<Rightarrow> 'a exec_state_scheme \<Rightarrow> 'a exec_state_scheme option) \<Rightarrow> 'a exec_state_scheme
   \<Rightarrow> (net_err \<times> 'a exec_state_scheme) option" where
  "net_exec_run_once run s =
     (if \<not> exec_initialized s then Some (NET_ERR_STATE, s)
      else do {
        (item, s) \<leftarrow> fixq_recv (Some REQUEST_Q) (-1) [] s;
        (case item of
           None \<Rightarrow> Some (NET_ERR_NONE, s)
         | Some i \<Rightarrow>
             let (go, s) = exec_start i s
             in if \<not> go then Some (NET_ERR_OK, s)
                else
                  (case rq_proc (requests s ! i) of
                     None \<Rightarrow> None
                   | Some f \<Rightarrow> do {
                       s \<leftarrow> run f (rq_arg (requests s ! i)) s;
                       Some (NET_ERR_OK, exec_complete i s)
                     }))
      })"

definition net_exec_pending :: "'a exec_state_scheme \<Rightarrow> int" where
  "net_exec_pending s = (if exec_initialized s then fixq_count (Some REQUEST_Q) s else 0)"

end
