(* ===== verification/Socket.thy ===== *)
theory Socket
  imports Net_Exec
begin

text \<open>
  Sockets, \<^verbatim>\<open>kernel/src/net/socket.c\<close>. A handle is the number of an entry of the table and the generation of the entry,
  which grows each time the entry is given back, so that an old handle does not name a new socket. The UDP block of an
  entry is part of it and has the entry's number as address; of a TCP socket the entry holds the address of the block.
\<close>

record socket_entry =
  se_tcp :: "nat option"
  se_generation :: u32
  se_used :: bool
  se_closing :: bool
  se_retired :: bool
  se_type :: int

record socket_state = exec_state +
  socket_entries :: "socket_entry list"

record net_socket_accept =
  sa_listener_handle :: int
  sa_listener :: "nat option"
  sa_child :: "nat option"
  sa_remote_ip :: ipaddr
  sa_remote_port :: u16
  sa_acquired :: bool

definition NET_SOCKET_TCP :: int where "NET_SOCKET_TCP = 1"
definition NET_SOCKET_UDP :: int where "NET_SOCKET_UDP = 2"
definition NET_SOCKET_MAX :: nat where "NET_SOCKET_MAX = 16"

definition upd_entry_sock :: "nat \<Rightarrow> (socket_entry \<Rightarrow> socket_entry) \<Rightarrow> 'a socket_state_scheme \<Rightarrow> 'a socket_state_scheme" where
  "upd_entry_sock i f s = s\<lparr>socket_entries := (socket_entries s)[i := f (socket_entries s ! i)]\<rparr>"

text \<open>A handle is a C \<^verbatim>\<open>int\<close>; \<open>word_of_int\<close> is its conversion to \<^verbatim>\<open>unsigned int\<close>.\<close>

definition socket_decode :: "int \<Rightarrow> (nat \<times> u32) option" where
  "socket_decode handle =
     (let index = take_bit 8 handle;
          val = drop_bit 8 (word_of_int handle :: u32)
      in if handle < 0 \<or> index \<ge> int NET_SOCKET_MAX \<or> val = 0 then None else Some (nat index, val))"

definition socket_handle :: "u32 \<Rightarrow> nat \<Rightarrow> int" where
  "socket_handle generation slot = sint (push_bit 8 generation OR of_nat slot)"

definition socket_find :: "int \<Rightarrow> 'a socket_state_scheme \<Rightarrow> nat option" where
  "socket_find handle s =
     (case socket_decode handle of
        None \<Rightarrow> None
      | Some (slot, generation) \<Rightarrow>
          let e = socket_entries s ! slot
          in if se_used e \<and> \<not> se_closing e \<and> se_generation e = generation then Some slot else None)"

definition socket_find_used :: "int \<Rightarrow> 'a socket_state_scheme \<Rightarrow> nat option" where
  "socket_find_used handle s =
     (case socket_decode handle of
        None \<Rightarrow> None
      | Some (slot, generation) \<Rightarrow>
          let e = socket_entries s ! slot in if se_used e \<and> se_generation e = generation then Some slot else None)"

definition socket_invalidate :: "socket_entry \<Rightarrow> socket_entry" where
  "socket_invalidate e =
     (let e = (if se_type e = NET_SOCKET_TCP then e\<lparr>se_tcp := None\<rparr> else e);
          e = e\<lparr>se_used := False, se_closing := False\<rparr>
      in if se_generation e = 0x7fffff then e\<lparr>se_retired := True\<rparr> else e\<lparr>se_generation := se_generation e + 1\<rparr>)"

definition socket_accept_clear :: net_socket_accept where
  "socket_accept_clear = \<lparr>sa_listener_handle = 0, sa_listener = None, sa_child = None, sa_remote_ip = 0, sa_remote_port = 0,
     sa_acquired = False\<rparr>"

definition socket_accept_abort_locked ::
  "net_socket_accept option \<Rightarrow> 'a socket_state_scheme \<Rightarrow> net_socket_accept option \<times> 'a socket_state_scheme" where
  "socket_accept_abort_locked accept s =
     (case accept of
        None \<Rightarrow> (None, s)
      | Some a \<Rightarrow>
          if \<not> sa_acquired a then (accept, s)
          else
            let (_, s) = (if sa_child a \<noteq> None then tcp_accept_release_child_acquired (sa_listener a) (sa_child a) s
                          else tcp_accept_release_acquired (sa_listener a) s)
            in (Some socket_accept_clear, s))"

definition socket_close_tcp ::
  "(nat \<Rightarrow> 'a socket_state_scheme netif_ops) \<Rightarrow> (nat \<Rightarrow> 'a socket_state_scheme link_out option) \<Rightarrow> nat \<Rightarrow> 'a socket_state_scheme
   \<Rightarrow> (net_err \<times> 'a socket_state_scheme) option" where
  "socket_close_tcp ops_of out_of i s =
     (let pcb = se_tcp (socket_entries s ! i)
      in if \<not> se_closing (socket_entries s ! i) then do {
           (err, s) \<leftarrow> tcp_close ops_of out_of pcb (upd_entry_sock i (\<lambda>e. e\<lparr>se_closing := True\<rparr>) s);
           Some (if is_err err then (err, upd_entry_sock i (\<lambda>e. e\<lparr>se_closing := False\<rparr>) s) else (NET_ERR_NONE, s))
         }
         else do {
           (err, s) \<leftarrow> tcp_close ops_of out_of pcb s;
           if is_err err then Some (err, s)
           else
             let (err, s) = tcp_socket_detach pcb s
             in Some (if err = NET_ERR_STATE then (NET_ERR_NONE, s)
                      else if is_err err then (err, s)
                      else (NET_ERR_OK, upd_entry_sock i socket_invalidate s))
         })"

text \<open>The type of an entry and the memory of its block are left as they are.\<close>

definition net_socket_init :: "'a socket_state_scheme \<Rightarrow> net_err \<times> 'a socket_state_scheme" where
  "net_socket_init s = (NET_ERR_OK, s\<lparr>socket_entries := map (\<lambda>e. e\<lparr>se_used := False, se_closing := False,
     se_retired := False, se_generation := 1, se_tcp := None\<rparr>) (socket_entries s)\<rparr>)"

definition net_socket_open :: "int \<Rightarrow> 'a socket_state_scheme \<Rightarrow> (int \<times> 'a socket_state_scheme) option" where
  "net_socket_open type s =
     (if type \<noteq> NET_SOCKET_UDP \<and> type \<noteq> NET_SOCKET_TCP then Some (net_err_code NET_ERR_NOT_SUPPORT, s)
      else case find_index (\<lambda>e. \<not> se_used e \<and> \<not> se_retired e) (socket_entries s) of
        None \<Rightarrow> Some (net_err_code NET_ERR_FULL, s)
      | Some i \<Rightarrow> do {
          (err, s) \<leftarrow> (if type = NET_SOCKET_UDP then Some (udp_open (Some i) s)
                      else do {
                        (err, pcb, s) \<leftarrow> tcp_socket_open False s;
                        Some (err, upd_entry_sock i (\<lambda>e. e\<lparr>se_tcp := pcb\<rparr>) s)
                      });
          if is_err err then Some (net_err_code err, s)
          else
            let s = upd_entry_sock i (\<lambda>e. e\<lparr>se_used := True, se_closing := False, se_type := type\<rparr>) s
            in Some (socket_handle (se_generation (socket_entries s ! i)) i, s)
        })"

definition net_socket_bind ::
  "int \<Rightarrow> nat option \<Rightarrow> ipaddr option \<Rightarrow> u16 \<Rightarrow> 'a socket_state_scheme \<Rightarrow> net_err \<times> 'a socket_state_scheme" where
  "net_socket_bind handle netif addr port s =
     (case socket_find handle s of
        None \<Rightarrow> (NET_ERR_PARAM, s)
      | Some i \<Rightarrow>
          if se_type (socket_entries s ! i) = NET_SOCKET_UDP then udp_bind (Some i) port s
          else tcp_bind (se_tcp (socket_entries s ! i)) netif addr port s)"

text \<open>The address of the TCP block of an open TCP socket.\<close>

definition socket_tcp :: "int \<Rightarrow> 'a socket_state_scheme \<Rightarrow> nat option option" where
  "socket_tcp handle s =
     (case socket_find handle s of
        None \<Rightarrow> None
      | Some i \<Rightarrow> if se_type (socket_entries s ! i) \<noteq> NET_SOCKET_TCP then None else Some (se_tcp (socket_entries s ! i)))"

definition net_socket_listen :: "int \<Rightarrow> int \<Rightarrow> 'a socket_state_scheme \<Rightarrow> net_err \<times> 'a socket_state_scheme" where
  "net_socket_listen handle blog s =
     (case socket_tcp handle s of None \<Rightarrow> (NET_ERR_PARAM, s) | Some pcb \<Rightarrow> tcp_listen pcb blog s)"

definition net_socket_accept_abort ::
  "net_socket_accept option \<Rightarrow> 'a socket_state_scheme \<Rightarrow> net_socket_accept option \<times> 'a socket_state_scheme" where
  "net_socket_accept_abort accept s =
     (case accept of
        None \<Rightarrow> (None, s)
      | Some a \<Rightarrow> if \<not> sa_acquired a then (accept, s) else socket_accept_abort_locked accept s)"

definition net_socket_accept_prepare ::
  "(nat \<Rightarrow> 'a socket_state_scheme sleep list) \<Rightarrow> int \<Rightarrow> net_socket_accept option \<Rightarrow> 'a socket_state_scheme
   \<Rightarrow> (net_err \<times> net_socket_accept option \<times> 'a socket_state_scheme) option" where
  "net_socket_accept_prepare sl handle accept s =
     (if accept = None then Some (NET_ERR_PARAM, None, s)
      else case socket_tcp handle s of
        None \<Rightarrow> Some (NET_ERR_PARAM, Some socket_accept_clear, s)
      | Some listener \<Rightarrow>
          let (err, s) = tcp_accept_acquire listener s
          in if is_err err then Some (err, Some socket_accept_clear, s)
             else do {
               let a = socket_accept_clear\<lparr>sa_listener_handle := handle, sa_listener := listener, sa_acquired := True\<rparr>;
               (err, child, s) \<leftarrow> tcp_accept_peek_acquired sl listener False 0 s;
               let a = (case child of None \<Rightarrow> a
                        | Some (c, ip, port) \<Rightarrow> a\<lparr>sa_child := Some c, sa_remote_ip := ip, sa_remote_port := port\<rparr>);
               Some (err, if is_err err then net_socket_accept_abort (Some a) s else (Some a, s))
             })"

definition net_socket_accept_commit ::
  "net_socket_accept option \<Rightarrow> 'a socket_state_scheme \<Rightarrow> int \<times> net_socket_accept option \<times> 'a socket_state_scheme" where
  "net_socket_accept_commit accept s =
     (case accept of
        None \<Rightarrow> (net_err_code NET_ERR_PARAM, accept, s)
      | Some a \<Rightarrow>
          if \<not> sa_acquired a \<or> sa_listener a = None \<or> sa_child a = None then (net_err_code NET_ERR_PARAM, accept, s)
          else if socket_tcp (sa_listener_handle a) s \<noteq> Some (sa_listener a)
          then (net_err_code NET_ERR_STATE, socket_accept_abort_locked accept s)
          else case find_index (\<lambda>e. \<not> se_used e \<and> \<not> se_retired e) (socket_entries s) of
            None \<Rightarrow> (net_err_code NET_ERR_FULL, socket_accept_abort_locked accept s)
          | Some slot \<Rightarrow>
              let (err, s) = tcp_accept_commit_acquired (sa_listener a) (sa_child a) s
              in if is_err err then (net_err_code err, socket_accept_abort_locked accept s)
                 else
                   let s = upd_entry_sock slot (\<lambda>e. e\<lparr>se_tcp := sa_child a, se_used := True, se_closing := False,
                                                     se_type := NET_SOCKET_TCP\<rparr>) s
                   in (socket_handle (se_generation (socket_entries s ! slot)) slot, Some socket_accept_clear, s))"

definition net_socket_close ::
  "(nat \<Rightarrow> 'a socket_state_scheme netif_ops) \<Rightarrow> (nat \<Rightarrow> 'a socket_state_scheme link_out option) \<Rightarrow> 'a socket_state_scheme sleep list
   \<Rightarrow> int \<Rightarrow> 'a socket_state_scheme \<Rightarrow> (net_err \<times> 'a socket_state_scheme) option" where
  "net_socket_close ops_of out_of sleeps handle s =
     (case socket_find_used handle s of
        None \<Rightarrow> Some (NET_ERR_PARAM, s)
      | Some i \<Rightarrow>
          if se_type (socket_entries s ! i) = NET_SOCKET_TCP then socket_close_tcp ops_of out_of i s
          else if se_closing (socket_entries s ! i) then Some (NET_ERR_PARAM, s)
          else do {
            (err, s) \<leftarrow> udp_close (Some i) sleeps (upd_entry_sock i (\<lambda>e. e\<lparr>se_closing := True\<rparr>) s);
            Some (if is_err err then (err, upd_entry_sock i (\<lambda>e. e\<lparr>se_closing := False\<rparr>) s)
                  else (NET_ERR_OK, upd_entry_sock i socket_invalidate s))
          })"

definition net_socket_connect_start ::
  "(nat \<Rightarrow> 'a socket_state_scheme netif_ops) \<Rightarrow> (nat \<Rightarrow> 'a socket_state_scheme link_out option) \<Rightarrow> int \<Rightarrow> nat option
   \<Rightarrow> ipaddr option \<Rightarrow> u16 \<Rightarrow> 'a socket_state_scheme \<Rightarrow> (net_err \<times> 'a socket_state_scheme) option" where
  "net_socket_connect_start ops_of out_of handle netif dest dest_port s =
     (case socket_tcp handle s of
        None \<Rightarrow> Some (NET_ERR_PARAM, s)
      | Some pcb \<Rightarrow> tcp_connect_start ops_of out_of pcb netif dest dest_port s)"

definition net_socket_wait_connect ::
  "int \<Rightarrow> int \<Rightarrow> 'a socket_state_scheme sleep list \<Rightarrow> 'a socket_state_scheme \<Rightarrow> (net_err \<times> 'a socket_state_scheme) option" where
  "net_socket_wait_connect handle timeout_ms sleeps s =
     (case socket_tcp handle s of
        None \<Rightarrow> Some (NET_ERR_PARAM, s)
      | Some pcb \<Rightarrow>
          let (err, s) = tcp_wait_connect_acquire pcb s
          in if is_err err then Some (err, s) else tcp_wait_connect_acquired pcb timeout_ms sleeps s)"

definition net_socket_send ::
  "(nat \<Rightarrow> 'a socket_state_scheme netif_ops) \<Rightarrow> (nat \<Rightarrow> 'a socket_state_scheme link_out option) \<Rightarrow> int \<Rightarrow> u8 list option \<Rightarrow> int
   \<Rightarrow> 'a socket_state_scheme \<Rightarrow> (net_err \<times> 'a socket_state_scheme) option" where
  "net_socket_send ops_of out_of handle data sz s =
     (case socket_tcp handle s of
        None \<Rightarrow> Some (NET_ERR_PARAM, s)
      | Some pcb \<Rightarrow> tcp_send_start ops_of out_of pcb data sz s)"

definition net_socket_recv ::
  "(nat \<Rightarrow> 'a socket_state_scheme sleep list) \<Rightarrow> int \<Rightarrow> bool \<Rightarrow> int \<Rightarrow> int \<Rightarrow> 'a socket_state_scheme
   \<Rightarrow> (int \<times> u8 list \<times> 'a socket_state_scheme) option" where
  "net_socket_recv sl handle data_null sz timeout_ms s =
     (if data_null \<or> sz \<le> 0 then Some (net_err_code NET_ERR_PARAM, [], s)
      else case socket_tcp handle s of
        None \<Rightarrow> Some (net_err_code NET_ERR_PARAM, [], s)
      | Some pcb \<Rightarrow>
          let (err, s) = tcp_recv_acquire pcb s
          in if is_err err then Some (net_err_code err, [], s)
             else tcp_recv_bytes_acquired sl pcb data_null sz timeout_ms s)"

definition net_socket_wait_close ::
  "int \<Rightarrow> int \<Rightarrow> 'a socket_state_scheme sleep list \<Rightarrow> 'a socket_state_scheme \<Rightarrow> (net_err \<times> 'a socket_state_scheme) option" where
  "net_socket_wait_close handle timeout_ms sleeps s =
     (case socket_find_used handle s of
        None \<Rightarrow> Some (NET_ERR_PARAM, s)
      | Some i \<Rightarrow>
          if se_type (socket_entries s ! i) \<noteq> NET_SOCKET_TCP \<or> \<not> se_closing (socket_entries s ! i) then Some (NET_ERR_PARAM, s)
          else
            let pcb = se_tcp (socket_entries s ! i);
                (err, s) = tcp_wait_close_acquire pcb s
            in if err = NET_ERR_PARAM then Some (NET_ERR_OK, s)
               else if is_err err then Some (err, s)
               else tcp_wait_close_acquired pcb timeout_ms sleeps s)"

definition net_socket_sendto ::
  "(nat \<Rightarrow> 'a socket_state_scheme netif_ops) \<Rightarrow> (nat \<Rightarrow> 'a socket_state_scheme link_out option) \<Rightarrow> int \<Rightarrow> nat option
   \<Rightarrow> ipaddr option \<Rightarrow> u16 \<Rightarrow> u8 list option \<Rightarrow> int \<Rightarrow> 'a socket_state_scheme \<Rightarrow> (net_err \<times> 'a socket_state_scheme) option" where
  "net_socket_sendto ops_of out_of handle netif dest dest_port data sz s =
     (case socket_find handle s of
        None \<Rightarrow> Some (NET_ERR_PARAM, s)
      | Some i \<Rightarrow>
          if se_type (socket_entries s ! i) \<noteq> NET_SOCKET_UDP then Some (NET_ERR_PARAM, s)
          else udp_sendto ops_of out_of (Some i) netif dest dest_port data sz s)"

definition net_socket_recvfrom ::
  "int \<Rightarrow> bool \<Rightarrow> int \<Rightarrow> int \<Rightarrow> 'a socket_state_scheme sleep list \<Rightarrow> 'a socket_state_scheme
   \<Rightarrow> (int \<times> u8 list \<times> (ipaddr \<times> u16) option \<times> 'a socket_state_scheme) option" where
  "net_socket_recvfrom handle data_null sz timeout_ms sleeps s =
     (if data_null \<or> sz < 0 then Some (net_err_code NET_ERR_PARAM, [], None, s)
      else case socket_find handle s of
        None \<Rightarrow> Some (net_err_code NET_ERR_PARAM, [], None, s)
      | Some i \<Rightarrow>
          if se_type (socket_entries s ! i) \<noteq> NET_SOCKET_UDP then Some (net_err_code NET_ERR_PARAM, [], None, s)
          else
            let (err, s) = udp_recv_acquire (Some i) s
            in if is_err err then Some (net_err_code NET_ERR_PARAM, [], None, s)
               else udp_recvfrom_acquired (Some i) data_null sz timeout_ms sleeps s)"

end
