(* ===== verification/Dns_Resolver.thy ===== *)
theory Dns_Resolver
  imports Dns Socket
begin

text \<open>
  The resolver, \<^verbatim>\<open>kernel/src/net/dns_resolver.c\<close>: it has the network task open a socket, send the query and close the
  socket, and receives the answer itself. The request is an object on the stack of the resolving task, named by its
  address.
\<close>

record dns_request =
  dr_netif :: "nat option"
  dr_server :: ipaddr
  dr_port :: u16
  dr_query :: dns_query
  dr_handle :: int
  dr_result :: int

record dns_state = socket_state +
  dns_requests :: "nat \<Rightarrow> dns_request"
  dns_next_id :: u16

text \<open>The addresses of \<^verbatim>\<open>dns_open\<close>, \<^verbatim>\<open>dns_send\<close> and \<^verbatim>\<open>dns_close\<close>.\<close>

definition DNS_OPEN :: nat where "DNS_OPEN = 1"
definition DNS_SEND :: nat where "DNS_SEND = 2"
definition DNS_CLOSE :: nat where "DNS_CLOSE = 3"

definition upd_dns :: "nat \<Rightarrow> (dns_request \<Rightarrow> dns_request) \<Rightarrow> 'a dns_state_scheme \<Rightarrow> 'a dns_state_scheme" where
  "upd_dns r f s = s\<lparr>dns_requests := (dns_requests s)(r := f (dns_requests s r))\<rparr>"

definition dns_open :: "nat \<Rightarrow> 'a dns_state_scheme \<Rightarrow> 'a dns_state_scheme option" where
  "dns_open r s = do {
     (handle, s) \<leftarrow> net_socket_open NET_SOCKET_UDP s;
     Some (upd_dns r (\<lambda>x. x\<lparr>dr_handle := handle, dr_result := (if handle < 0 then handle else net_err_code NET_ERR_OK)\<rparr>) s)
   }"

definition dns_send ::
  "(nat \<Rightarrow> 'a dns_state_scheme netif_ops) \<Rightarrow> (nat \<Rightarrow> 'a dns_state_scheme link_out option) \<Rightarrow> nat \<Rightarrow> 'a dns_state_scheme
   \<Rightarrow> 'a dns_state_scheme option" where
  "dns_send ops_of out_of r s = do {
     let x = dns_requests s r;
     (err, s) \<leftarrow> net_socket_sendto ops_of out_of (dr_handle x) (dr_netif x) (Some (dr_server x)) (dr_port x)
       (Some (dq_bytes (dr_query x))) (int (dq_length (dr_query x))) s;
     Some (upd_dns r (\<lambda>x. x\<lparr>dr_result := net_err_code err\<rparr>) s)
   }"

definition dns_close ::
  "(nat \<Rightarrow> 'a dns_state_scheme netif_ops) \<Rightarrow> (nat \<Rightarrow> 'a dns_state_scheme link_out option) \<Rightarrow> 'a dns_state_scheme sleep list \<Rightarrow> nat
   \<Rightarrow> 'a dns_state_scheme \<Rightarrow> 'a dns_state_scheme option" where
  "dns_close ops_of out_of sleeps r s = do {
     (err, s) \<leftarrow> net_socket_close ops_of out_of sleeps (dr_handle (dns_requests s r)) s;
     Some (upd_dns r (\<lambda>x. x\<lparr>dr_result := net_err_code err\<rparr>) s)
   }"

text \<open>What the network task does when it is asked to run one of the procedures of the resolver.\<close>

definition dns_run ::
  "(nat \<Rightarrow> 'a dns_state_scheme netif_ops) \<Rightarrow> (nat \<Rightarrow> 'a dns_state_scheme link_out option) \<Rightarrow> 'a dns_state_scheme sleep list \<Rightarrow> nat
   \<Rightarrow> nat option \<Rightarrow> 'a dns_state_scheme \<Rightarrow> 'a dns_state_scheme option" where
  "dns_run ops_of out_of sleeps f arg s =
     (case arg of
        None \<Rightarrow> None
      | Some r \<Rightarrow>
          if f = DNS_OPEN then dns_open r s
          else if f = DNS_SEND then dns_send ops_of out_of r s
          else if f = DNS_CLOSE then dns_close ops_of out_of sleeps r s
          else None)"

definition dns_submit ::
  "(nat \<Rightarrow> 'a dns_state_scheme sleep list) \<Rightarrow> nat \<Rightarrow> nat \<Rightarrow> 'a dns_state_scheme \<Rightarrow> (int \<times> 'a dns_state_scheme) option" where
  "dns_submit sl proc r s = do {
     (error, s) \<leftarrow> net_exec_submit sl (Some proc) (Some r) 0 s;
     Some (if is_err error then net_err_code error else dr_result (dns_requests s r), s)
   }"

text \<open>The part of \<^verbatim>\<open>dns_resolve_a\<close> between sending and closing: the answer is awaited and read. The result and the
  address if it has been stored.\<close>

definition dns_await ::
  "'a dns_state_scheme sleep list \<Rightarrow> nat \<Rightarrow> ipaddr \<Rightarrow> u16 \<Rightarrow> u16 \<Rightarrow> u8 list \<Rightarrow> int \<Rightarrow> 'a dns_state_scheme
   \<Rightarrow> (int \<times> ipaddr option \<times> 'a dns_state_scheme) option" where
  "dns_await sleeps r server port ident name timeout_ms s = do {
     (received, bytes, source, s) \<leftarrow> net_socket_recvfrom (dr_handle (dns_requests s r)) False 512 timeout_ms sleeps s;
     if received < 0 then Some (received, None, s)
     else (case source of
       None \<Rightarrow> None
     | Some (src, src_port) \<Rightarrow>
         if \<not> ipaddr_is_equal (Some src) (Some server) \<or> src_port \<noteq> port then Some (net_err_code NET_ERR_UNREACH, None, s)
         else do {
           (err, addr) \<leftarrow> dns_response_parse (Some bytes) received ident (Some name) False;
           Some (net_err_code err, addr, s)
         })
   }"

definition dns_resolve_a ::
  "(nat \<Rightarrow> nat \<Rightarrow> 'a dns_state_scheme sleep list) \<Rightarrow> nat \<Rightarrow> nat option \<Rightarrow> ipaddr option \<Rightarrow> u16 \<Rightarrow> u8 list option \<Rightarrow> bool \<Rightarrow> int
   \<Rightarrow> 'a dns_state_scheme \<Rightarrow> (int \<times> ipaddr option \<times> 'a dns_state_scheme) option" where
  "dns_resolve_a sl r netif server port name address_null timeout_ms s =
     (case (netif, server, name) of
        (Some n, Some a, Some nm) \<Rightarrow>
          if port = 0 \<or> address_null \<or> timeout_ms < 0 then Some (net_err_code NET_ERR_PARAM, None, s)
          else do {
            let ident = dns_next_id s;
            let s = s\<lparr>dns_next_id := ident + 1\<rparr>;
            (error, query) \<leftarrow> dns_query_encode False ident name \<lparr>dq_id = 0, dq_bytes = replicate 512 0, dq_length = 0\<rparr>;
            if is_err error then Some (net_err_code error, None, s)
            else do {
              let s = upd_dns r (\<lambda>_. \<lparr>dr_netif = netif, dr_server = a, dr_port = port, dr_query = query, dr_handle = -1,
                                     dr_result = 0\<rparr>) s;
              (error, s) \<leftarrow> dns_submit (sl 0) DNS_OPEN r s;
              if error < 0 then Some (error, None, s)
              else do {
                (error, s) \<leftarrow> dns_submit (sl 1) DNS_SEND r s;
                (error, addr, s) \<leftarrow> (if error < 0 then Some (error, None, s)
                                    else dns_await (sl 2 0) r a port ident nm timeout_ms s);
                (close_error, s) \<leftarrow> dns_submit (sl 3) DNS_CLOSE r s;
                Some (if error = 0 \<and> close_error < 0 then close_error else error, addr, s)
              }
            }
          }
      | _ \<Rightarrow> Some (net_err_code NET_ERR_PARAM, None, s))"

end
