(* ===== verification/Net_Stack.thy ===== *)
theory Net_Stack
  imports Dns_Resolver Netif_Virtio
begin

text \<open>
  The assembly of the stack and its task, \<^verbatim>\<open>kernel/src/net/net_stack.c\<close>. The tables of function pointers that the
  components leave open are filled in: the devices \<open>net_ops\<close>, the link layer of Ethernet \<open>net_layer\<close>, the protocols of
  Ethernet and IPv4 \<open>net_handler\<close> and \<open>net_proto\<close>, and the functions of the timers \<open>net_fire\<close>. A call through a pointer
  that none of them has is \<open>None\<close>. The probes of the self tests are left out.
\<close>

record stack_state = dns_state +
  stack_netif :: "nat option"
  stack_initialized :: bool

definition NET_STACK_RX_WAIT_MS :: nat where "NET_STACK_RX_WAIT_MS = 5000"


section \<open>The tables\<close>

definition net_ops ::
  "'e net_env_scheme \<Rightarrow> (nat \<Rightarrow> 'a loop_state_scheme sleep list) \<Rightarrow> nat \<Rightarrow> 'a loop_state_scheme netif_ops" where
  "net_ops env sl ot = (if ot = LOOP_OPS then loop_ops else if ot = VIRTIO_OPS then netif_virtio_ops env sl
     else \<lparr>ops_open = None, ops_close = None, ops_xmit = None\<rparr>)"

definition net_out :: "(nat \<Rightarrow> 'a arp_state_scheme netif_ops) \<Rightarrow> nat \<Rightarrow> 'a arp_state_scheme link_out option" where
  "net_out ops_of l = (if l = ETHER_LAYER then Some (ether_link_out ops_of) else None)"

definition net_proto ::
  "(nat \<Rightarrow> 'a tcp_state_scheme netif_ops) \<Rightarrow> nat \<Rightarrow> nat \<Rightarrow> ipaddr \<Rightarrow> ipaddr \<Rightarrow> nat \<Rightarrow> 'a tcp_state_scheme
   \<Rightarrow> (net_err \<times> 'a tcp_state_scheme) option" where
  "net_proto ops_of h n src dest b s =
     (if h = ICMPV4_IN then icmpv4_in ops_of (net_out ops_of) (Some n) (Some src) dest (Some b) s
      else if h = UDP_IN then udp_in (Some n) (Some src) dest (Some b) s
      else if h = TCP_IN then tcp_in ops_of (net_out ops_of) (Some n) (Some src) (Some dest) (Some b) s
      else None)"

definition net_handler ::
  "(nat \<Rightarrow> 'a tcp_state_scheme netif_ops) \<Rightarrow> nat \<Rightarrow> nat \<Rightarrow> nat \<Rightarrow> 'a tcp_state_scheme \<Rightarrow> (net_err \<times> 'a tcp_state_scheme) option" where
  "net_handler ops_of h n b s =
     (if h = ARP_IN then arp_in ops_of (Some n) (Some b) s
      else if h = IPV4_IN then ipv4_in (net_proto ops_of) (Some n) (Some b) s
      else None)"

definition net_layer :: "(nat \<Rightarrow> 'a tcp_state_scheme netif_ops) \<Rightarrow> nat \<Rightarrow> 'a tcp_state_scheme link_layer" where
  "net_layer ops_of l = (if l = ETHER_LAYER then ether_link_layer ops_of (net_handler ops_of)
     else \<lparr>ll_type = NETIF_TYPE_NONE, ll_open = None, ll_close = None, ll_in = None, ll_out = None\<rparr>)"

definition net_fire ::
  "(nat \<Rightarrow> 'a tcp_state_scheme netif_ops) \<Rightarrow> nat \<Rightarrow> 'a tcp_state_scheme \<Rightarrow> 'a tcp_state_scheme option" where
  "net_fire ops_of t s =
     (let f = tm_proc (timers s t); arg = tm_arg (timers s t)
      in if f = ARP_CACHE_TMO then arp_cache_tmo ops_of s
         else if f = TCP_TIMER_PROC then tcp_timer_proc ops_of (net_out ops_of) t arg s
         else if f = TCP_TIME_WAIT_PROC then tcp_time_wait_proc t arg s
         else if f = TCP_RELEASE_PROC then tcp_release_proc t arg s
         else None)"


section \<open>Initialisation\<close>

text \<open>A step of an initialisation that ends with the first error.\<close>

definition and_then :: "(net_err \<times> 's) option \<Rightarrow> ('s \<Rightarrow> (net_err \<times> 's) option) \<Rightarrow> (net_err \<times> 's) option" where
  "and_then m f = do { (err, s) \<leftarrow> m; if is_err err then Some (err, s) else f s }"

text \<open>The interface of the device and its address.\<close>

definition net_stack_open ::
  "(nat \<Rightarrow> 'a stack_state_scheme netif_ops) \<Rightarrow> 'a stack_state_scheme \<Rightarrow> (net_err \<times> 'a stack_state_scheme) option" where
  "net_stack_open ops_of s = do {
     (netif, s) \<leftarrow> netif_open ops_of (Some ''eth0'') (Some VIRTIO_OPS) None s;
     if netif = None then Some (NET_ERR_IO, s)
     else do {
       let (err, ip) = ipaddr_from_str (Some 0) (Some ''192.168.100.2'');
       let (err, mask) = (if err \<noteq> NET_ERR_OK then (err, Some 0) else ipaddr_from_str (Some 0) (Some ''255.255.255.0''));
       let (err, s) = (if err \<noteq> NET_ERR_OK then (err, s) else netif_set_addr netif ip mask None s);
       (err, s) \<leftarrow> (if err \<noteq> NET_ERR_OK then Some (err, s) else netif_set_active (net_layer ops_of) netif s);
       if err \<noteq> NET_ERR_OK then do {
         (_, s) \<leftarrow> netif_close ops_of netif s;
         Some (NET_ERR_IO, s)
       } else
         let s = netif_set_default netif s
         in Some (NET_ERR_OK, s\<lparr>stack_netif := netif, stack_initialized := True\<rparr>)
     }
   }"

text \<open>\<open>areas\<close> is what the memory of the blocks holds.\<close>

definition net_stack_init ::
  "(nat \<Rightarrow> u8 list) \<Rightarrow> (nat \<Rightarrow> 'a stack_state_scheme netif_ops) \<Rightarrow> 'a stack_state_scheme \<Rightarrow> (net_err \<times> 'a stack_state_scheme) option" where
  "net_stack_init areas ops_of s =
     (if stack_initialized s then Some (NET_ERR_STATE, s)
      else
        let m = Some (net_sys_init s);
            m = and_then m (\<lambda>s. Some (net_exec_init s));
            m = and_then m (\<lambda>s. Some (pktbuf_init areas s));
            m = and_then m (\<lambda>s. Some (net_timer_init s));
            m = and_then m (\<lambda>s. Some (netif_init s));
            m = and_then m (\<lambda>s. Some (ether_init s));
            m = and_then m (\<lambda>s. Some (arp_init s));
            m = and_then m (\<lambda>s. Some (ipv4_init s));
            m = and_then m tcp_init;
            m = and_then m (\<lambda>s. Some (icmpv4_init s));
            m = and_then m (\<lambda>s. Some (udp_init s));
            m = and_then m (\<lambda>s. Some (net_socket_init s));
            m = and_then m (loop_init ops_of (net_layer ops_of))
        in and_then m (net_stack_open ops_of))"

definition net_stack_default :: "'a stack_state_scheme \<Rightarrow> nat option" where
  "net_stack_default s = stack_netif s"


section \<open>The network task\<close>

definition net_stack_process_input ::
  "(nat \<Rightarrow> 'a tcp_state_scheme netif_ops) \<Rightarrow> nat option \<Rightarrow> 'a tcp_state_scheme \<Rightarrow> (net_err \<times> 'a tcp_state_scheme) option" where
  "net_stack_process_input ops_of netif s =
     (case netif of
        None \<Rightarrow> Some (NET_ERR_PARAM, s)
      | Some n \<Rightarrow>
          if nif_state (netifs s n) \<noteq> NETIF_ACTIVE then Some (NET_ERR_STATE, s)
          else do {
            (buf, s) \<leftarrow> netif_get_in netif (-1) s;
            (case buf of
               None \<Rightarrow> Some (NET_ERR_NONE, s)
             | Some b \<Rightarrow> do {
                 (err, s) \<leftarrow>
                   (if nif_type (netifs s n) = NETIF_TYPE_LOOP then ipv4_in (net_proto ops_of) netif buf s
                    else
                      (case (nif_type (netifs s n), Option.bind (nif_link_layer (netifs s n)) (\<lambda>l. ll_in (net_layer ops_of l))) of
                         (NETIF_TYPE_ETHER, Some link_in) \<Rightarrow> link_in n b s
                       | _ \<Rightarrow> Some (NET_ERR_NOT_SUPPORT, s)));
                 Some (err, if is_err err then pktbuf_free buf s else s)
               })
          })"

definition net_stack_poll_once ::
  "(nat \<Rightarrow> 'a tcp_state_scheme netif_ops) \<Rightarrow> nat option \<Rightarrow> u64 \<Rightarrow> 'a tcp_state_scheme sleep list \<Rightarrow> 'a tcp_state_scheme
   \<Rightarrow> (net_err \<times> 'a tcp_state_scheme) option" where
  "net_stack_poll_once ops_of netif deadline sleeps s =
     (case netif of
        None \<Rightarrow> Some (NET_ERR_PARAM, s)
      | Some n \<Rightarrow>
          if nif_state (netifs s n) \<noteq> NETIF_ACTIVE then Some (NET_ERR_STATE, s)
          else do {
            (err, s) \<leftarrow> netif_virtio_poll netif deadline sleeps s;
            if is_err err then Some (err, s) else net_stack_process_input ops_of netif s
          })"

text \<open>The loops in the body of \<^verbatim>\<open>net_stack_worker\<close>: the requests, the packets of the loopback device, the packets of the
  Ethernet device.\<close>

partial_function (option) worker_requests ::
  "(nat \<Rightarrow> nat option \<Rightarrow> 'a stack_state_scheme \<Rightarrow> 'a stack_state_scheme option) \<Rightarrow> 'a stack_state_scheme
   \<Rightarrow> 'a stack_state_scheme option" where
  "worker_requests run s = do {
     (err, s) \<leftarrow> net_exec_run_once run s;
     if err = NET_ERR_OK then worker_requests run s else Some s
   }"

partial_function (option) worker_loop_input ::
  "(nat \<Rightarrow> 'a tcp_state_scheme netif_ops) \<Rightarrow> nat option \<Rightarrow> 'a tcp_state_scheme \<Rightarrow> 'a tcp_state_scheme option" where
  "worker_loop_input ops_of netif s = do {
     (err, s) \<leftarrow> net_stack_process_input ops_of netif s;
     if err = NET_ERR_NONE then Some s
     else if is_err err then Some s
     else worker_loop_input ops_of netif s
   }"

partial_function (option) worker_poll ::
  "(nat \<Rightarrow> 'a tcp_state_scheme netif_ops) \<Rightarrow> nat option \<Rightarrow> (nat \<Rightarrow> 'a tcp_state_scheme sleep list) \<Rightarrow> nat \<Rightarrow> net_err
   \<Rightarrow> 'a tcp_state_scheme \<Rightarrow> 'a tcp_state_scheme option" where
  "worker_poll ops_of netif sl k poll_result s =
     (if poll_result = NET_ERR_OK then do {
        (poll_result, s) \<leftarrow> net_stack_poll_once ops_of netif (mtime s) (sl k) s;
        worker_poll ops_of netif sl (Suc k) poll_result s
      } else Some s)"

text \<open>One round of the endless loop; \<open>timer_time\<close> is the time up to which the timers have run.\<close>

definition net_stack_worker_round ::
  "(nat \<Rightarrow> 'a stack_state_scheme netif_ops) \<Rightarrow> (nat \<Rightarrow> nat option \<Rightarrow> 'a stack_state_scheme \<Rightarrow> 'a stack_state_scheme option)
   \<Rightarrow> nat option \<Rightarrow> (nat \<Rightarrow> 'a stack_state_scheme sleep list) \<Rightarrow> u64 \<Rightarrow> 'a stack_state_scheme \<Rightarrow> (u64 \<times> 'a stack_state_scheme) option" where
  "net_stack_worker_round ops_of run netif sl timer_time s = do {
     s \<leftarrow> worker_requests run s;
     let (ms, timer_time) = sys_time_goes timer_time s;
     (_, s) \<leftarrow> net_timer_check_tmo (net_fire ops_of) ms s;
     s \<leftarrow> worker_loop_input ops_of (loop_get_netif s) s;
     let (ms, timer_time) = sys_time_goes timer_time s;
     (_, s) \<leftarrow> net_timer_check_tmo (net_fire ops_of) ms s;
     let wait_ticks = of_nat NET_STACK_RX_WAIT_MS * NET_TIME_TICKS_PER_MS;
     let timer_ms = net_timer_first_tmo s;
     let wait_ticks = (if timer_ms > 0 \<and> word_of_int timer_ms * NET_TIME_TICKS_PER_MS < wait_ticks
                       then word_of_int timer_ms * NET_TIME_TICKS_PER_MS else wait_ticks);
     (poll_result, s) \<leftarrow> net_stack_poll_once ops_of netif (mtime s + wait_ticks) (sl 0) s;
     s \<leftarrow> worker_poll ops_of netif sl 1 poll_result s;
     Some (timer_time, s)
   }"

text \<open>What the task does in \<open>rounds\<close> rounds of its loop.\<close>

fun worker_rounds ::
  "(nat \<Rightarrow> 'a stack_state_scheme netif_ops) \<Rightarrow> (nat \<Rightarrow> nat option \<Rightarrow> 'a stack_state_scheme \<Rightarrow> 'a stack_state_scheme option)
   \<Rightarrow> nat option \<Rightarrow> (nat \<Rightarrow> nat \<Rightarrow> 'a stack_state_scheme sleep list) \<Rightarrow> nat \<Rightarrow> u64 \<Rightarrow> 'a stack_state_scheme
   \<Rightarrow> (u64 \<times> 'a stack_state_scheme) option" where
  "worker_rounds ops_of run netif sl 0 timer_time s = Some (timer_time, s)"
| "worker_rounds ops_of run netif sl (Suc rounds) timer_time s = do {
     (timer_time, s) \<leftarrow> worker_rounds ops_of run netif sl rounds timer_time s;
     net_stack_worker_round ops_of run netif (sl rounds) timer_time s
   }"

definition net_stack_worker ::
  "(nat \<Rightarrow> 'a stack_state_scheme netif_ops) \<Rightarrow> (nat \<Rightarrow> nat option \<Rightarrow> 'a stack_state_scheme \<Rightarrow> 'a stack_state_scheme option)
   \<Rightarrow> nat option \<Rightarrow> (nat \<Rightarrow> nat \<Rightarrow> 'a stack_state_scheme sleep list) \<Rightarrow> nat \<Rightarrow> 'a stack_state_scheme
   \<Rightarrow> (u64 \<times> 'a stack_state_scheme) option" where
  "net_stack_worker ops_of run arg sl rounds s =
     worker_rounds ops_of run (if arg = None then stack_netif s else arg) sl rounds (sys_time_curr s) s"

end
