(* ===== verification/Boot.thy ===== *)
theory Boot
  imports Net_Stack Pktbuf_Props
begin

text \<open>
  The memory of the kernel when it starts: static objects are zero, or what their initialisers say. The examples of the
  properties of the upper layers start from it.
\<close>

definition udp_pcb_zero :: udp_pcb where
  "udp_pcb_zero = \<lparr>up_local_port = 0, up_open = False, up_close_done = None, up_recv_waiting = False\<rparr>"

definition arp_zero :: arp_entry where
  "arp_zero = \<lparr>ae_paddr = 0, ae_haddr = replicate 6 0, ae_state = NET_ARP_FREE, ae_tmo = 0, ae_retry = 0, ae_netif = None,
     ae_buf_list = []\<rparr>"

definition boot :: stack_state where
  "boot = \<lparr>sem_pool = replicate NET_SYS_SEM_MAX \<lparr>sem_count = 0, sem_waiters = 0, sem_used = False\<rparr>, mtime = 0, wakes = [],
     vnet = virtio_net_zero, fixqs = (\<lambda>_. fixq_zero), block_list = [], pktbuf_list = [],
     pktbufs = (\<lambda>_. \<lparr>total_size = 0, blk_list = [], ref = 0, pos = 0, curr_blk = None, blk_offset = None\<rparr>),
     timer_list = [], pending_timers = [], timers = (\<lambda>_. timer_zero),
     netif_free = [], netif_list = [], netif_default = None, link_layers = replicate 3 None, netifs = (\<lambda>_. netif_zero),
     loop_netif = None, ether_handlers = replicate ETHER_HANDLER_MAX \<lparr>eh_protocol = 0, eh_handler = None\<rparr>,
     arp_initialized = False, cache_blocks = [], cache_list = [], cache_entries = (\<lambda>_. arp_zero),
     ipv4_handlers = (\<lambda>_. None), next_packet_id = 0,
     icmp_stats = \<lparr>echo_requests = 0, echo_replies = 0, last_reply_identifier = 0, last_reply_sequence = 0\<rparr>,
     recv_records = (\<lambda>_ _. \<lparr>ur_buf = None, ur_src = 0, ur_port = 0\<rparr>), udp_pcbs = replicate UDP_PCB_MAX None,
     udp_mem = (\<lambda>_. udp_pcb_zero), tcp_mem = (\<lambda>_. tcp_pcb_zero), tcp_pcbs = replicate TCP_PCB_MAX None,
     detached_listeners = replicate TCP_PCB_MAX None, next_ephemeral = 49152, next_iss = 1000,
     requests = replicate NET_EXEC_QUEUE_SIZE \<lparr>rq_proc = None, rq_arg = None, rq_done = None, rq_completed = False,
       rq_abandoned = False, rq_started = False\<rparr>, exec_initialized = False,
     socket_entries = replicate NET_SOCKET_MAX \<lparr>se_tcp = None, se_generation = 0, se_used = False, se_closing = False,
       se_retired = False, se_type = 0\<rparr>,
     dns_requests = (\<lambda>_. \<lparr>dr_netif = None, dr_server = 0, dr_port = 0,
       dr_query = \<lparr>dq_id = 0, dq_bytes = replicate 512 0, dq_length = 0\<rparr>, dr_handle = 0, dr_result = 0\<rparr>), dns_next_id = 0,
     stack_netif = None, stack_initialized = False\<rparr>"

lemma boot_tcp [simp]:
  "tcp_mem boot = (\<lambda>_. tcp_pcb_zero)" "tcp_pcbs boot = replicate TCP_PCB_MAX None" "next_ephemeral boot = 49152"
  by (simp_all add: boot_def)

text \<open>The state with initialised packet buffers, and with one buffer taken.\<close>

definition boot_pkt :: stack_state where
  "boot_pkt = snd (pktbuf_init (\<lambda>_. replicate PKTBUF_BLK_SIZE 0) boot)"

definition boot_buf :: "int \<Rightarrow> stack_state" where
  "boot_buf sz = snd (pktbuf_alloc sz boot_pkt)"

lemma boot_pkt: "pkt_inv boot_pkt" "pktbuf_list boot_pkt = 0 # [1..<PKTBUF_BUF_CNT]" "length (block_list boot_pkt) = PKTBUF_BLK_CNT"
  "live boot_pkt = {}"
proof -
  show "pkt_inv boot_pkt" unfolding boot_pkt_def by (rule pktbuf_init_inv) (simp add: PKTBUF_BLK_SIZE_def)
  have l: "pktbuf_list boot_pkt = [0..<PKTBUF_BUF_CNT]" by (simp add: boot_pkt_def pktbuf_init_def)
  show "length (block_list boot_pkt) = PKTBUF_BLK_CNT" by (simp add: boot_pkt_def pktbuf_init_def)
  show "live boot_pkt = {}" unfolding live_def l by auto
  show "pktbuf_list boot_pkt = 0 # [1..<PKTBUF_BUF_CNT]"
    unfolding l One_nat_def by (rule upt_conv_Cons) (simp add: PKTBUF_BUF_CNT_def)
qed

lemma boot_buf:
  assumes "0 \<le> sz" and "sz \<le> 1024"
  shows "pkt_inv (boot_buf sz)" "live (boot_buf sz) = {0}" "total_size (pktbufs (boot_buf sz) 0) = nat sz"
    "\<exists>x y z. boot_buf sz = boot\<lparr>pktbuf_list := x, block_list := y, pktbufs := z\<rparr>"
proof -
  have "blks_for (nat sz) \<le> 1"
    using assms(2) by (simp add: blks_for_def PKTBUF_BLK_SIZE_def)
  then have nf: "\<not> alloc_fails sz boot_pkt"
    using assms(1) by (simp add: alloc_fails_def boot_pkt PKTBUF_BLK_CNT_def)
  note a = alloc_next [OF boot_pkt(1) nf boot_pkt(2) boot_buf_def]
  from a show "pkt_inv (boot_buf sz)" "live (boot_buf sz) = {0}" "total_size (pktbufs (boot_buf sz) 0) = nat sz"
    by (simp_all add: boot_pkt(4))
  have "\<exists>x y z. boot_buf sz = boot_pkt\<lparr>pktbuf_list := x, block_list := y, pktbufs := z\<rparr>"
    unfolding boot_buf_def by (rule pktbuf_alloc_ok [OF boot_pkt(1) nf]) auto
  then show "\<exists>x y z. boot_buf sz = boot\<lparr>pktbuf_list := x, block_list := y, pktbufs := z\<rparr>"
    by (auto simp: boot_pkt_def pktbuf_init_def)
qed

end
