(* ===== verification/Tcp_Props.thy ===== *)
theory Tcp_Props
  imports Boot
begin

text \<open>
  The receive ring of a TCP control block as a stream of bytes, the choice of local ports, and the comparison of
  sequence numbers, which wrap around.
\<close>

section \<open>The receive ring\<close>

definition ring_ok :: "tcp_pcb \<Rightarrow> bool" where
  "ring_ok x \<longleftrightarrow> length (tp_recv_storage x) = TCP_RECV_MAX \<and> tp_recv_head x < TCP_RECV_MAX \<and> tp_recv_count x \<le> TCP_RECV_MAX"

text \<open>The bytes that have been received and not yet read.\<close>

definition recv_stream :: "tcp_pcb \<Rightarrow> u8 list" where
  "recv_stream x = ring_items (tp_recv_storage x) (tp_recv_head x) (tp_recv_count x) TCP_RECV_MAX"

lemma length_recv_stream [simp]: "length (recv_stream x) = tp_recv_count x"
  by (simp add: recv_stream_def)

lemma mod_wrap: "a < 2 * m \<Longrightarrow> a mod m = (if a < m then a else a - (m :: nat))"
  by (simp add: mod_if)

lemma nth_put_two:
  assumes "length xs = m" and "t < m" and "length bs \<le> m" and "k < m"
    and "first = min (length bs) (m - t)"
  shows "put_at 0 (drop first bs) (put_at t (take first bs) xs) ! k =
    (if t \<le> k \<and> k < t + length bs then bs ! (k - t)
     else if k + m < t + length bs then bs ! (k + m - t) else xs ! k)"
  using assms by (auto simp: nth_put_at min_def intro!: arg_cong [where f = "nth bs"])

lemma tcp_ring_put_ok:
  assumes "ring_ok x" and "tp_recv_count x + length bs \<le> TCP_RECV_MAX"
  shows "ring_ok (tcp_ring_put bs x)" "recv_stream (tcp_ring_put bs x) = recv_stream x @ bs"
proof -
  let ?m = "TCP_RECV_MAX" and ?h = "tp_recv_head x" and ?n = "tp_recv_count x"
  define t where "t = (?h + ?n) mod ?m"
  define first where "first = min (length bs) (?m - t)"
  have t: "t < ?m" by (simp add: t_def TCP_RECV_MAX_def)
  have put: "tcp_ring_put bs x = x\<lparr>tp_recv_storage := put_at 0 (drop first bs) (put_at t (take first bs) (tp_recv_storage x)),
    tp_recv_count := ?n + length bs\<rparr>"
    by (auto simp: tcp_ring_put_def first_def t_def Let_def min_def)
  with assms show "ring_ok (tcp_ring_put bs x)" using t by (auto simp: ring_ok_def first_def put_at_def)
  have w: "(?h + i) mod ?m = (if ?h + i < ?m then ?h + i else ?h + i - ?m)" if "i \<le> ?m" for i
    using that assms(1) by (intro mod_wrap) (simp add: ring_ok_def)
  show "recv_stream (tcp_ring_put bs x) = recv_stream x @ bs"
  proof (rule nth_equalityI)
    fix i
    assume "i < length (recv_stream (tcp_ring_put bs x))"
    then have i: "i < ?n + length bs" by (simp add: put)
    have k: "(?h + i) mod ?m < ?m" by (simp add: TCP_RECV_MAX_def)
    have "recv_stream (tcp_ring_put bs x) ! i =
      (let k = (?h + i) mod ?m in if t \<le> k \<and> k < t + length bs then bs ! (k - t)
        else if k + ?m < t + length bs then bs ! (k + ?m - t) else tp_recv_storage x ! k)"
      using nth_put_two [OF _ t _ k, of "tp_recv_storage x" bs first] assms i first_def
      by (simp add: recv_stream_def ring_items_def put ring_ok_def Let_def)
    then show "recv_stream (tcp_ring_put bs x) ! i = (recv_stream x @ bs) ! i"
      using assms i w [of i] w [of ?n, folded t_def]
      by (auto simp: nth_append recv_stream_def ring_items_def ring_ok_def Let_def split: if_splits intro!: arg_cong [where f = "nth bs"])
  qed (simp add: put)
qed

lemma tcp_ring_take_ok:
  assumes "ring_ok x" and "n \<le> tp_recv_count x" and "tcp_ring_take n x = (bs, x')"
  shows "bs = take n (recv_stream x)" "recv_stream x' = drop n (recv_stream x)" "ring_ok x'"
proof -
  let ?m = "TCP_RECV_MAX" and ?h = "tp_recv_head x"
  define first where "first = min n (?m - ?h)"
  have x': "x' = x\<lparr>tp_recv_head := (?h + n) mod ?m, tp_recv_count := tp_recv_count x - n\<rparr>"
    and bs: "bs = get_at ?h first (tp_recv_storage x) @ get_at 0 (n - first) (tp_recv_storage x)"
    using assms(3) by (auto simp: tcp_ring_take_def first_def Let_def min_def)
  have w: "(?h + i) mod ?m = (if ?h + i < ?m then ?h + i else ?h + i - ?m)" if "i \<le> ?m" for i
    using that assms(1) by (intro mod_wrap) (simp add: ring_ok_def)
  show "bs = take n (recv_stream x)"
  proof (rule nth_equalityI)
    show "length bs = length (take n (recv_stream x))" using assms by (auto simp: bs first_def ring_ok_def get_at_def)
  next
    fix i
    assume "i < length bs"
    then have i: "i < n" using assms by (auto simp: bs first_def ring_ok_def get_at_def)
    then show "bs ! i = take n (recv_stream x) ! i"
      using assms w [of i] by (auto simp: bs nth_append recv_stream_def ring_items_def first_def ring_ok_def min_def split: if_splits
        intro!: arg_cong [where f = "nth (tp_recv_storage x)"])
  qed
  show "recv_stream x' = drop n (recv_stream x)"
    by (rule nth_equalityI) (use assms in \<open>simp_all add: x' recv_stream_def ring_items_def mod_simps less_diff_conv ac_simps\<close>)
  show "ring_ok x'" using assms by (auto simp: x' ring_ok_def TCP_RECV_MAX_def)
qed


lemma tcp_mem_notify [simp]: "tcp_mem (sys_sem_notify x s) = tcp_mem s"
  by (simp add: sys_sem_notify_def upd_sem_def task_wake_def Let_def split: option.split)

lemma sem_poll_tcp_mem: "\<exists>e s'. sys_sem_wait x (-1) [] s = Some (e, s') \<and> tcp_mem s' = tcp_mem s"
  by (simp add: sys_sem_wait_def upd_sem_def split: option.split)

lemma tcp_mem_upd_tcp [simp]: "tcp_mem (upd_tcp p f s) = (tcp_mem s)(p := f (tcp_mem s p))"
  by (simp add: upd_tcp_def)

text \<open>A receive call that finds bytes takes as many as it asks for, from the front.\<close>

lemma tcp_recv_takes:
  assumes "ring_ok (tcp_mem s p)" and "tp_recv_count (tcp_mem s p) \<noteq> 0" and "0 < sz"
  shows "\<exists>s'. tcp_recv_bytes_acquired sl (Some p) False sz t s =
      Some (int (length (take (nat sz) (recv_stream (tcp_mem s p)))), take (nat sz) (recv_stream (tcp_mem s p)), s') \<and>
    recv_stream (tcp_mem s' p) = drop (nat sz) (recv_stream (tcp_mem s p)) \<and> ring_ok (tcp_mem s' p)"
proof -
  let ?x = "tcp_mem s p"
  define m where "m = nat sz"
  define n where "n = min m (tp_recv_count ?x)"
  obtain bs x' where take: "tcp_ring_take n ?x = (bs, x')" by (metis surj_pair)
  have n: "n \<le> tp_recv_count ?x" by (simp add: n_def)
  note t = tcp_ring_take_ok [OF assms(1) n take]
  obtain e s1 where s1: "sys_sem_wait (tp_recv_done ?x) (-1) [] s = Some (e, s1)" "tcp_mem s1 = tcp_mem s"
    using sem_poll_tcp_mem by blast
  have cut: "take n (recv_stream ?x) = take m (recv_stream ?x)" "drop n (recv_stream ?x) = drop m (recv_stream ?x)"
    by (simp_all add: n_def min_def)
  define s2 where "s2 = (let s = upd_tcp p (\<lambda>_. x') s1
    in if tp_recv_count (tcp_mem s p) \<noteq> 0 then sys_sem_notify (tp_recv_done (tcp_mem s p)) s else s)"
  have "tcp_recv_loop sl 0 p m t s = Some (int n, bs, s2)"
    using assms(2) take unfolding s2_def n_def
    by (subst tcp_recv_loop.simps) (cases "m < tp_recv_count ?x"; simp add: s1 Let_def min.absorb1 min.absorb2)
  moreover have "recv_stream (tcp_mem s2 p) = drop m (recv_stream ?x)" "ring_ok (tcp_mem s2 p)"
    using t(2,3) cut(2) by (simp_all add: s2_def Let_def)
  ultimately show ?thesis
    using assms(3) t(1) cut(1) n_def unfolding m_def [symmetric]
    by (simp add: tcp_recv_bytes_acquired_def m_def [symmetric] recv_stream_def ring_ok_def min.commute)
qed

text \<open>C27. The payload of a segment that fits is appended to the stream of received bytes, and a receive call returns the
  stream from its front: nothing is lost, repeated or reordered, wherever the ring wraps around.\<close>

theorem tcp_stream_roundtrip:
  assumes "pkt_inv s" and "b \<in> live s" and "ring_ok (tcp_mem s p)" and "0 < n" and "n \<le> TCP_MSS"
    and "tp_recv_count (tcp_mem s p) + n \<le> TCP_RECV_MAX" and "hs + n \<le> total_size (pktbufs s b)" and "0 < sz"
  shows "\<exists>s1 s2. let stream = recv_stream (tcp_mem s p) @ get_at hs n (buf_bytes (pktbufs s b)) in
    tcp_queue_data p b (int hs) (int n) s = Some (NET_ERR_OK, s1) \<and>
    tcp_recv_bytes_acquired sl (Some p) False sz t s1 = Some (int (length (take (nat sz) stream)), take (nat sz) stream, s2) \<and>
    recv_stream (tcp_mem s2 p) = drop (nat sz) stream \<and> ring_ok (tcp_mem s2 p)"
proof -
  let ?bs = "get_at hs n (buf_bytes (pktbufs s b))" and ?r = "reset_acc b s" and ?x = "tcp_mem s p"
  have keeps: "op_keeps (pktbufs s b) (block_list s) (pktbuf_reset_acc (pktbufs s b)) (block_list s)"
    using live_bufD [OF assms(1,2)] assms(1) by (intro op_keeps_reset) (simp_all add: buf_wf_def pkt_inv_def)
  have r: "pkt_inv ?r" "b \<in> live ?r" using pkt_inv_update [OF assms(1,2) keeps] assms(2) by (simp_all add: reset_acc_def live_def)
  have "hs \<le> total_size (pktbufs ?r b)" using assms(7) by (simp add: reset_acc_def)
  then obtain t1 where t: "pktbuf_seek (Some b) (int hs) ?r = Some (NET_ERR_OK, t1)" "pkt_inv t1" "live t1 = live ?r"
    "pos (pktbufs t1 b) = hs" "buf_bytes (pktbufs t1 b) = buf_bytes (pktbufs ?r b)"
    "total_size (pktbufs t1 b) = total_size (pktbufs ?r b)" "\<exists>x y. t1 = ?r\<lparr>pktbufs := x, block_list := y\<rparr>"
    by (rule pktbuf_seek_ok [OF r])
  have t1: "b \<in> live t1" "buf_bytes (pktbufs t1 b) = buf_bytes (pktbufs s b)" "tcp_mem t1 = tcp_mem s"
    using t r(2) by (auto simp: reset_acc_def)
  have "pos (pktbufs t1 b) + n \<le> total_size (pktbufs t1 b)" using assms(7) t(4,6) by (simp add: reset_acc_def)
  then obtain t2 where t2: "pktbuf_read (Some b) False (int n) t1 = Some (NET_ERR_OK, get_at (pos (pktbufs t1 b)) n (buf_bytes (pktbufs t1 b)), t2)"
    "\<exists>x. t2 = t1\<lparr>pktbufs := x\<rparr>"
    by (rule pktbuf_read_ok [OF t(2) t1(1) assms(4)])
  then have rd: "pktbuf_read (Some b) False (int n) t1 = Some (NET_ERR_OK, ?bs, t2)" "tcp_mem t2 = tcp_mem s"
    using t(4) t1 by auto
  define s1 where "s1 = (let s = upd_tcp p (tcp_ring_put ?bs) t2
    in if tp_recv_count ?x = 0 then sys_sem_notify (tp_recv_done (tcp_mem s p)) s else s)"
  have "tcp_queue_data p b (int hs) (int n) s = Some (NET_ERR_OK, s1)"
    using assms(5,6) by (simp add: tcp_queue_data_def t(1) rd(1) s1_def Let_def)
  moreover have l: "length ?bs = n"
    using assms(7) length_buf_bytes [OF live_bufD(1) [OF assms(1,2)]] by simp
  moreover have p: "ring_ok (tcp_mem s1 p)" "recv_stream (tcp_mem s1 p) = recv_stream ?x @ ?bs"
    using tcp_ring_put_ok [OF assms(3), of ?bs] assms(6) l rd(2) by (simp_all add: s1_def Let_def)
  moreover have "tp_recv_count (tcp_mem s1 p) \<noteq> 0"
    using p(2) l assms(4) length_recv_stream [of "tcp_mem s1 p"] by auto
  from tcp_recv_takes [OF p(1) this assms(8), of sl t] p(2) obtain s2 where
    "tcp_recv_bytes_acquired sl (Some p) False sz t s1 = Some (int (length (take (nat sz) (recv_stream ?x @ ?bs))), take (nat sz) (recv_stream ?x @ ?bs), s2)"
    "recv_stream (tcp_mem s2 p) = drop (nat sz) (recv_stream ?x @ ?bs)" "ring_ok (tcp_mem s2 p)" by auto
  ultimately show ?thesis unfolding Let_def by blast
qed

theorem tcp_stream_roundtrip_witness:
  "\<exists>s1 s2. tcp_queue_data 0 0 20 3 (boot_buf 23) = Some (NET_ERR_OK, s1) \<and>
    tcp_recv_bytes_acquired (\<lambda>_. []) (Some 0) False 100 0 s1 =
      Some (3, get_at 20 3 (buf_bytes (pktbufs (boot_buf 23) 0)), s2)"
proof -
  have m: "tcp_mem (boot_buf 23) = (\<lambda>_. tcp_pcb_zero)"
    using boot_buf(4) [of 23] by auto
  have b: "pkt_inv (boot_buf 23)" "0 \<in> live (boot_buf 23)" "20 + 3 \<le> total_size (pktbufs (boot_buf 23) 0)"
    using boot_buf [of 23] by simp_all
  have r: "ring_ok (tcp_mem (boot_buf 23) 0)" "tp_recv_count (tcp_mem (boot_buf 23) 0) + 3 \<le> TCP_RECV_MAX"
    "recv_stream (tcp_mem (boot_buf 23) 0) = []" by (simp_all add: m ring_ok_def tcp_pcb_zero_def TCP_RECV_MAX_def recv_stream_def)
  have l: "length (get_at 20 3 (buf_bytes (pktbufs (boot_buf 23) 0))) = 3"
    using length_buf_bytes [OF live_bufD(1) [OF b(1,2)]] b(3) by simp
  from tcp_stream_roundtrip [OF b(1,2) r(1) _ _ r(2) b(3), of 100 "\<lambda>_. []" 0] l r(3) show ?thesis
    by (simp add: TCP_MSS_def Let_def) blast
qed

section \<open>Sequence numbers\<close>

lemma sint_u32: "sint (w :: u32) = (if uint w < 2 ^ 31 then uint w else uint w - 2 ^ 32)"
proof -
  have u: "uint w = sint w mod 2 ^ 32" using uint_sint [of w] unfolding take_bit_eq_mod by simp
  have r: "- (2 ^ 31) \<le> sint w" "sint w < 2 ^ 31" using sint_ge [of w] sint_lt [of w] by simp_all
  show ?thesis
  proof (cases "sint w < 0")
    case True
    have "sint w mod 2 ^ 32 = (sint w + 2 ^ 32) mod 2 ^ 32" by simp
    also have "\<dots> = sint w + 2 ^ 32" using True r by (intro mod_pos_pos_trivial) simp_all
    finally show ?thesis using u r True by simp
  next
    case False
    with r have "sint w mod 2 ^ 32 = sint w" by (intro mod_pos_pos_trivial) simp_all
    with u r False show ?thesis by simp
  qed
qed

text \<open>Of two numbers at most \<open>k < 2 ^ 31\<close> apart, the comparison of differences as signed numbers is the order along the
  sequence, also where the numbers wrap around.\<close>

lemma ack_in_window:
  fixes una ack :: u32
  assumes "k < 2 ^ 31"
  shows "\<not> sint (ack - una) < 0 \<and> \<not> sint (ack - (una + of_nat k)) > 0 \<longleftrightarrow> (\<exists>j\<le>k. ack = una + of_nat j)"
proof -
  define d where "d = ack - una"
  have ack: "ack = una + d" by (simp add: d_def)
  have num: "uint (of_nat j :: u32) = int j" if "j \<le> k" for j
    using that assms by (simp add: unsigned_of_nat take_bit_nat_eq_self)
  define m where "m = uint d"
  have m: "m < 2 ^ 32" "0 \<le> m" using unsigned_less [of d, where ?'a = int] by (simp_all add: m_def)
  have "sint d = (if m < 2 ^ 31 then m else m - 2 ^ 32)"
    "sint (d - of_nat k) = (let x = if int k \<le> m then m - int k else m - int k + 2 ^ 32 in if x < 2 ^ 31 then x else x - 2 ^ 32)"
    using num [of k] by (simp_all add: sint_u32 uint_sub_if' m_def Let_def)
  then have "\<not> sint d < 0 \<and> \<not> sint (d - of_nat k) > 0 \<longleftrightarrow> uint d \<le> int k"
    using assms m by (auto simp: Let_def simp flip: m_def split: if_splits)
  also have "\<dots> \<longleftrightarrow> (\<exists>j\<le>k. d = of_nat j)"
  proof
    assume "uint d \<le> int k"
    then have "unat d \<le> k" using of_nat_le_iff [of "unat d" k, where ?'a = int] by simp
    then show "\<exists>j\<le>k. d = of_nat j" by (intro exI [of _ "unat d"]) simp
  qed (use num in auto)
  finally show ?thesis by (simp add: ack)
qed



section \<open>Local ports\<close>

definition next_port :: "u16 \<Rightarrow> u16" where
  "next_port e = (if e + 1 < 49152 then 49152 else e + 1)"

lemma unat_next_port: "49152 \<le> e \<Longrightarrow> unat (next_port e) = 49152 + (unat e - 49152 + 1) mod 16384 \<and> 49152 \<le> next_port e"
proof -
  assume e: "49152 \<le> e"
  then have "49152 \<le> unat e" "unat e < 65536"
    using unsigned_less [of e, where ?'a = nat] by (simp_all add: word_le_nat_alt)
  note b = this
  show ?thesis
  proof (cases "unat e = 65535")
    case True
    then have "e + 1 = 0" by (simp add: unat_arith_simps unat_word_ariths)
    with True show ?thesis by (simp add: next_port_def)
  next
    case False
    with b have u: "unat (e + 1) = unat e + 1" by (simp add: unat_word_ariths)
    with b have "\<not> e + 1 < 49152" by (simp add: word_less_nat_alt)
    moreover have "(unat e - 49152 + 1) mod 16384 = unat e - 49152 + 1" using b False by (intro mod_less) simp
    ultimately show ?thesis using u b by (simp add: next_port_def word_le_nat_alt)
  qed
qed

lemma unat_next_ports:
  "49152 \<le> e \<Longrightarrow> unat ((next_port ^^ k) e) = 49152 + (unat e - 49152 + k) mod 16384 \<and> 49152 \<le> (next_port ^^ k) e"
proof (induction k)
  case 0
  then show ?case using unsigned_less [of e, where ?'a = nat] by (simp add: word_le_nat_alt)
next
  case (Suc k)
  define a where "a = unat e - 49152"
  from Suc have ih: "unat ((next_port ^^ k) e) - 49152 = (a + k) mod 16384" "49152 \<le> (next_port ^^ k) e" by (simp_all add: a_def)
  have "((a + k) mod 16384 + 1) mod 16384 = (a + Suc k) mod 16384" using mod_add_left_eq [of "a + k" 16384 1] by simp
  with unat_next_port [OF ih(2), unfolded ih(1)] show ?case by (simp add: a_def)
qed

lemma next_ports_distinct: "49152 \<le> e \<Longrightarrow> inj_on (\<lambda>k. (next_port ^^ k) e) {..<16384}"
proof (rule inj_onI)
  fix i j
  assume e: "49152 \<le> e" "i \<in> {..<16384}" "j \<in> {..<16384}" "(next_port ^^ i) e = (next_port ^^ j) e"
  then have "(unat e - 49152 + i) mod 16384 = (unat e - 49152 + j) mod 16384"
    using unat_next_ports [of e i] unat_next_ports [of e j] by simp
  then show "i = j" using e(2,3) ring_index_distinct [of i j 16384] ring_index_distinct [of j i 16384] by (metis lessThan_iff linorder_neqE_nat)
qed

lemma choose_port_loop:
  "49152 \<le> next_ephemeral s \<Longrightarrow> tcp_choose_port_loop n s = (port, s') \<Longrightarrow>
    (\<exists>e. s' = s\<lparr>next_ephemeral := e\<rparr> \<and> 49152 \<le> e) \<and>
    (if port = 0 then \<forall>k<n. tcp_port_in_use ((next_port ^^ k) (next_ephemeral s)) s
     else 49152 \<le> port \<and> \<not> tcp_port_in_use port s)"
proof (induction n arbitrary: s)
  case (Suc n)
  let ?e = "next_ephemeral s" and ?s = "s\<lparr>next_ephemeral := next_port (next_ephemeral s)\<rparr>"
  have ns: "(let s = s\<lparr>next_ephemeral := ?e + 1\<rparr> in if next_ephemeral s < 49152 then s\<lparr>next_ephemeral := 49152\<rparr> else s) = ?s"
    by (simp add: next_port_def)
  have in_use: "tcp_port_in_use q (s\<lparr>next_ephemeral := x\<rparr>) = tcp_port_in_use q s" for q x
    by (simp add: tcp_port_in_use_def cong: option.case_cong)
  have e: "49152 \<le> next_port ?e" using unat_next_port Suc.prems(1) by blast
  have "?e \<noteq> 0" using Suc.prems(1) by auto
  with Suc.prems(2) ns have step: "(if \<not> tcp_port_in_use ?e s then (?e, ?s) else tcp_choose_port_loop n ?s) = (port, s')"
    by (simp add: in_use Let_def split: if_splits)
  show ?case
  proof (cases "tcp_port_in_use ?e s")
    case True
    with step have "tcp_choose_port_loop n ?s = (port, s')" by simp
    note Suc.IH [OF _ this]
    with e have ih: "\<exists>e. s' = s\<lparr>next_ephemeral := e\<rparr> \<and> 49152 \<le> e"
      "if port = 0 then \<forall>k<n. tcp_port_in_use ((next_port ^^ k) (next_port ?e)) s else 49152 \<le> port \<and> \<not> tcp_port_in_use port s"
      by (auto simp: in_use split: if_splits)
    have "tcp_port_in_use ((next_port ^^ k) ?e) s" if "port = 0" "k < Suc n" for k
      using that ih(2) True by (cases k) (simp_all add: funpow_swap1)
    with ih show ?thesis by auto
  next
    case False
    with step Suc.prems(1) \<open>?e \<noteq> 0\<close> e show ?thesis by auto
  qed
qed (auto intro!: exI [of _ "next_ephemeral _"])

lemma ports_in_use: "finite {q. tcp_port_in_use q s} \<and> card {q. tcp_port_in_use q s} \<le> length (tcp_pcbs s)"
proof -
  let ?P = "\<lambda>x. case x of None \<Rightarrow> 0 | Some p \<Rightarrow> tp_local_port (tcp_mem s p)"
  have sub: "{q. tcp_port_in_use q s} \<subseteq> set (map ?P (tcp_pcbs s))"
    by (force simp: tcp_port_in_use_def list_ex_iff split: option.splits)
  then show ?thesis
    using card_mono [OF _ sub] card_length [of "map ?P (tcp_pcbs s)"] by (auto intro: finite_subset)
qed

text \<open>C29. The search for a local port always finds one, in the dynamic range and not the port of any open block, since there are
  more ports than blocks; only the start of the next search changes, and it stays in the range.\<close>

theorem tcp_choose_port_finds:
  assumes "length (tcp_pcbs s) = TCP_PCB_MAX" and "49152 \<le> next_ephemeral s" and "tcp_choose_port s = (port, s')"
  shows "49152 \<le> port \<and> \<not> tcp_port_in_use port s \<and> (\<exists>e. s' = s\<lparr>next_ephemeral := e\<rparr> \<and> 49152 \<le> e)"
proof -
  note loop = choose_port_loop [OF assms(2) assms(3) [unfolded tcp_choose_port_def]]
  let ?U = "{q. tcp_port_in_use q s}" and ?f = "\<lambda>k. (next_port ^^ k) (next_ephemeral s)"
  have "port \<noteq> 0"
  proof
    assume "port = 0"
    with loop have sub: "?f ` {..<16384} \<subseteq> ?U" by auto
    have "(16384 :: nat) = card (?f ` {..<16384})"
      using card_image [OF next_ports_distinct [OF assms(2)]] by simp
    also have "\<dots> \<le> card ?U" using card_mono [OF _ sub] ports_in_use by blast
    also have "\<dots> \<le> TCP_PCB_MAX" using ports_in_use [of s] assms(1) by simp
    finally show False by (simp add: TCP_PCB_MAX_def)
  qed
  with loop show ?thesis by simp
qed

theorem tcp_choose_port_finds_witness:
  "let r = tcp_choose_port boot in 49152 \<le> fst r \<and> \<not> tcp_port_in_use (fst r) boot"
proof -
  have b: "length (tcp_pcbs boot) = TCP_PCB_MAX" "49152 \<le> next_ephemeral boot" by simp_all
  from tcp_choose_port_finds [OF b prod.collapse [symmetric]] show ?thesis unfolding Let_def by blast
qed

end
