(* ===== verification/Dns_Props.thy ===== *)
theory Dns_Props
  imports Dns
begin

text \<open>
  Reading a DNS message never leaves the message and always ends, whatever it contains; and the question of an encoded
  query is read back as the name it was made from.
\<close>

section \<open>Reading\<close>

lemma byte_at_Some: "i < length xs \<Longrightarrow> byte_at xs i = Some (xs ! i)"
  by (simp add: byte_at_def)

lemma read_u16_Some: "i + 2 \<le> length xs \<Longrightarrow> \<exists>v. read_u16 xs i = Some v"
  by (simp add: read_u16_def byte_at_def)

lemma post_byte_at: "i < length xs \<Longrightarrow> post (f (xs ! i)) P \<Longrightarrow> post (byte_at xs i \<bind> f) P"
  by (simp add: byte_at_def)

lemma post_bytes_at: "i + n \<le> length xs \<Longrightarrow> post (f (get_at i n xs)) P \<Longrightarrow> post (bytes_at xs i n \<bind> f) P"
  by (simp add: bytes_at_def)

lemma parse_name_loop_safe:
  "len \<le> length packet \<Longrightarrow> post (parse_name_loop packet len name_size cursor out nxt jumps) (\<lambda>_. True)"
proof (induction packet len name_size cursor out nxt jumps rule: parse_name_loop.induct)
  case (1 packet len name_size cursor out nxt jumps)
  have b: "i < length packet" if "i < len" for i using that "1.prems" by simp
  have ret: "post (Some x) (\<lambda>_. True)" for x :: "net_err \<times> u8 list \<times> nat" by simp
  show ?case
    apply (subst parse_name_loop.simps)
    apply (rule post_ifI, rule ret)
    apply (rule post_byte_at, rule b, simp)
    apply (unfold Let_def, rule post_ifI, rule ret)
    apply (rule post_ifI, rule post_ifI, rule ret)
     apply (rule post_byte_at, rule b, simp)
     apply (rule post_ifI, rule ret)
    subgoal by (rule "1.IH"(1)) (simp_all add: byte_at_def b "1.prems")
    apply (rule post_ifI, rule ret, rule post_option)
    subgoal by (rule "1.IH"(2)) (simp_all add: byte_at_def b "1.prems")
    apply (rule post_ifI, rule ret, rule post_ifI, rule ret)
    apply (rule post_bytes_at)
    subgoal using "1.prems" by simp
    subgoal using "1.prems" by (intro "1.IH"(3)) (auto simp: byte_at_def bytes_at_def)
    done
qed

lemma post_parse_name:
  assumes "len \<le> length packet" and "\<And>e q nxt. parse_name packet len off ns = Some (e, q, nxt) \<Longrightarrow> post (f e q nxt) P"
  shows "post (parse_name packet len off ns \<bind> (\<lambda>(e, q, nxt). f e q nxt)) P"
proof -
  have "post (parse_name packet len off ns) (\<lambda>_. True)"
    using parse_name_loop_safe [OF assms(1)] by (simp add: parse_name_def)
  then obtain e q nxt where r: "parse_name packet len off ns = Some (e, q, nxt)"
    by (rule postE) (metis surj_pair)
  from assms(2) [OF this] show ?thesis by (simp add: r)
qed

lemma post_read_u16:
  assumes "i + 2 \<le> length xs" and "\<And>v. read_u16 xs i = Some v \<Longrightarrow> post (f v) P"
  shows "post (read_u16 xs i \<bind> f) P"
  using read_u16_Some [OF assms(1)] assms(2) by auto

lemma answers_loop_safe:
  "len \<le> length packet \<Longrightarrow> post (answers_loop packet len cursor n) (\<lambda>(e, a). a \<noteq> None \<longleftrightarrow> e = NET_ERR_OK)"
proof (induction n arbitrary: cursor)
  case (Suc n)
  show ?case
    unfolding answers_loop.simps
    apply (rule post_parse_name [OF Suc.prems])
    apply (rule post_ifI, simp)
    apply (rule post_ifI, simp)
    subgoal for e q nxt
      apply (rule post_read_u16, use Suc.prems in simp)+
      apply (unfold Let_def, rule post_ifI, simp)
      apply (rule post_ifI, rule post_bytes_at)
      subgoal using Suc.prems by simp
      subgoal by simp
      subgoal by (rule Suc.IH [OF Suc.prems])
      done
    done
qed simp

text \<open>C30. Reading a response returns, whatever the packet contains, without reading behind its end. An address is returned
  exactly with success, and then the identifier of the packet is that of the query and the name in its question is the name
  asked for.\<close>

theorem dns_response_safe:
  assumes "len \<le> int (length packet)"
  shows "\<exists>e a. dns_response_parse (Some packet) len ident (Some name) False = Some (e, a) \<and> (a \<noteq> None \<longleftrightarrow> e = NET_ERR_OK) \<and>
    (e = NET_ERR_OK \<longrightarrow> read_u16 packet 0 = Some ident \<and> (\<exists>question nxt.
      parse_name packet (nat len) DNS_HEADER_SIZE (Some 256) = Some (NET_ERR_OK, question, nxt) \<and>
      takeWhile (\<lambda>c. c \<noteq> 0) question = name))"
proof -
  let ?Q = "\<lambda>(e, a). (a \<noteq> None \<longleftrightarrow> e = NET_ERR_OK) \<and> (e = NET_ERR_OK \<longrightarrow> read_u16 packet 0 = Some ident \<and> (\<exists>question nxt.
      parse_name packet (nat len) DNS_HEADER_SIZE (Some 256) = Some (NET_ERR_OK, question, nxt) \<and>
      takeWhile (\<lambda>c. c \<noteq> 0) question = name))"
  have len: "nat len \<le> length packet" using assms by simp
  have body: "post (dns_body_parse packet (nat len) name answers) ?Q" if "read_u16 packet 0 = Some ident" for answers
    unfolding dns_body_parse_def
    apply (rule post_parse_name [OF len])
    apply (rule post_ifI, simp)
    apply (rule post_ifI, simp)
    apply (rule post_ifI, simp)
    subgoal for e q nxt
      apply (rule post_read_u16, use len in simp)+
      apply (rule post_ifI, simp)
      subgoal using that by (intro post_mono [OF answers_loop_safe [OF len]]) auto
      done
    done
  have "post (dns_response_parse (Some packet) len ident (Some name) False) ?Q"
    unfolding dns_response_parse_def option.case prod.case
    apply (rule post_ifI, simp)
    apply (rule post_ifI, simp)
    subgoal premises h
    proof -
      from h(2) len have rd: "i + 2 \<le> length packet" if "i \<le> 6" for i using that by (simp add: DNS_HEADER_SIZE_def)
      show ?thesis
        by (intro post_read_u16 rd post_ifI body) simp_all
    qed
    done
  then show ?thesis by (rule postE) auto
qed


definition reply_bytes :: "u8 list" where
  "reply_bytes = [0x12, 0x34, 0x81, 0x80, 0, 1, 0, 1, 0, 0, 0, 0, 1, 97, 2, 98, 99, 0, 0, 1, 0, 1,
     0xc0, 12, 0, 1, 0, 1, 0, 0, 0, 60, 0, 4, 10, 0, 2, 15]"

lemma reply_parse: "dns_response_parse (Some reply_bytes) 38 0x1234 (Some [97, 46, 98, 99]) False = Some (NET_ERR_OK, Some 0x0a00020f)"
  by code_simp

theorem dns_response_safe_witness:
  "(38 :: int) \<le> int (length reply_bytes) \<and>
   dns_response_parse (Some reply_bytes) 38 0x1234 (Some [97, 46, 98, 99]) False = Some (NET_ERR_OK, Some 0x0a00020f) \<and>
   (\<exists>question nxt. parse_name reply_bytes 38 DNS_HEADER_SIZE (Some 256) = Some (NET_ERR_OK, question, nxt) \<and>
     takeWhile (\<lambda>c. c \<noteq> 0) question = [97, 46, 98, 99])"
proof -
  have l: "(38 :: int) \<le> int (length reply_bytes)" by (simp add: reply_bytes_def)
  show ?thesis using dns_response_safe [OF l, of "0x1234" "[97, 46, 98, 99]"] l reply_parse by auto
qed


section \<open>Names\<close>

text \<open>The bytes of an encoded name: each label with its length in front, and a zero.\<close>

function name_bytes :: "u8 list \<Rightarrow> u8 list" where
  "name_bytes cur = (if cur = [] then [0]
     else of_nat (length (takeWhile (\<lambda>c. c \<noteq> DOT) cur)) # takeWhile (\<lambda>c. c \<noteq> DOT) cur @
          name_bytes (tl (dropWhile (\<lambda>c. c \<noteq> DOT) cur)))"
  by pat_completeness auto
termination
  by (relation "measure length") (auto simp: length_after_label simp del: length_tl)

declare name_bytes.simps [simp del]

lemma name_bytes_simps [simp]:
  "name_bytes [] = [0]"
  "cur \<noteq> [] \<Longrightarrow> name_bytes cur = of_nat (length (takeWhile (\<lambda>c. c \<noteq> DOT) cur)) # takeWhile (\<lambda>c. c \<noteq> DOT) cur @
     name_bytes (tl (dropWhile (\<lambda>c. c \<noteq> DOT) cur))"
  by (subst name_bytes.simps, simp)+

text \<open>A name is legal behind \<open>encoded\<close> bytes if no label is empty or longer than 63 bytes, it does not end with a dot and it is not
  too long.\<close>

function legal_name :: "nat \<Rightarrow> u8 list \<Rightarrow> bool" where
  "legal_name encoded cur = (if cur = [] then True else
     (let n = length (takeWhile (\<lambda>c. c \<noteq> DOT) cur); rest = dropWhile (\<lambda>c. c \<noteq> DOT) cur
      in 0 < n \<and> n \<le> 63 \<and> encoded + n + 1 \<le> 255 \<and> (rest = [] \<or> tl rest \<noteq> []) \<and> legal_name (encoded + n + 1) (tl rest)))"
  by pat_completeness auto
termination
  by (relation "measure (length \<circ> snd)") (auto simp: length_after_label simp del: length_tl)

declare legal_name.simps [simp del]

lemma append_name_loop_spec:
  "len + 256 \<le> length packet + encoded \<Longrightarrow> encoded \<le> 255 \<Longrightarrow>
   \<exists>e packet' len'. append_name_loop packet len encoded cur = Some (e, packet', len') \<and> (e = NET_ERR_OK \<longleftrightarrow> legal_name encoded cur) \<and>
     (e = NET_ERR_OK \<longrightarrow> packet' = put_at len (name_bytes cur) packet \<and> len' = len + length (name_bytes cur) \<and>
        len' \<le> len + 256 - encoded)"
proof (induction cur arbitrary: packet len encoded rule: name_bytes.induct)
  case (1 cur)
  let ?label = "takeWhile (\<lambda>c. c \<noteq> DOT) cur" and ?rest = "dropWhile (\<lambda>c. c \<noteq> DOT) cur"
  let ?n = "length ?label"
  show ?case
  proof (cases "cur = [] \<or> ?n = 0 \<or> ?n > 63 \<or> encoded + ?n + 1 > 255")
    case True
    with "1.prems" show ?thesis
      by (subst append_name_loop.simps, subst legal_name.simps) (auto simp: store_at_def Let_def)
  next
    case False
    let ?p = "put_at (len + 1) ?label (put_at len [of_nat ?n] packet)"
    have st: "store_at len [of_nat ?n] packet = Some (put_at len [of_nat ?n] packet)"
      "store_at (len + 1) ?label (put_at len [of_nat ?n] packet) = Some ?p" "length ?p = length packet"
      using False "1.prems" by (simp_all add: store_at_def)
    have p: "?p = put_at len (of_nat ?n # ?label) packet"
      using put_at_put_at_append [of len "[of_nat ?n]" ?label packet] False "1.prems" by simp
    show ?thesis
    proof (cases "?rest \<noteq> [] \<and> tl ?rest = []")
      case True
      with False st show ?thesis
        by (subst append_name_loop.simps, subst legal_name.simps) (auto simp: Let_def)
    next
      case rest: False
      have step: "append_name_loop packet len encoded cur = append_name_loop ?p (len + 1 + ?n) (encoded + ?n + 1) (tl ?rest)"
        using False rest st
        by (subst append_name_loop.simps) (cases "?rest = []"; simp add: Let_def del: dropWhile_eq_Nil_conv)
      have legal: "legal_name encoded cur \<longleftrightarrow> legal_name (encoded + ?n + 1) (tl ?rest)"
        using False rest
        by (subst legal_name.simps) (cases "?rest = []"; simp add: Let_def del: dropWhile_eq_Nil_conv)
      have ih: "len + 1 + ?n + 256 \<le> length ?p + (encoded + ?n + 1)" "encoded + ?n + 1 \<le> 255" using st(3) "1.prems"(1) False by simp_all
      from "1.IH" [OF _ ih] False obtain e packet' len' where r:
        "append_name_loop ?p (len + 1 + ?n) (encoded + ?n + 1) (tl ?rest) = Some (e, packet', len')"
        "e = NET_ERR_OK \<longleftrightarrow> legal_name (encoded + ?n + 1) (tl ?rest)"
        "e = NET_ERR_OK \<Longrightarrow> packet' = put_at (len + 1 + ?n) (name_bytes (tl ?rest)) ?p \<and>
           len' = len + 1 + ?n + length (name_bytes (tl ?rest)) \<and> len' \<le> len + 1 + ?n + 256 - (encoded + ?n + 1)" by blast
      have "put_at (len + 1 + ?n) (name_bytes (tl ?rest)) ?p = put_at len (name_bytes cur) packet"
        if "e = NET_ERR_OK"
      proof -
        have "len + length (of_nat ?n # ?label) + length (name_bytes (tl ?rest)) \<le> length packet"
          using r(3) [OF that] "1.prems" False by auto
        from put_at_put_at_append [OF this] False show ?thesis unfolding p by simp
      qed
      with r step legal False show ?thesis by (auto simp: Suc_diff_le)
    qed
  qed
qed

lemma length_name_bytes: "cur \<noteq> [] \<Longrightarrow> legal_name e cur \<Longrightarrow> length (name_bytes cur) = length cur + 2"
proof (induction e cur rule: legal_name.induct)
  case (1 e cur)
  let ?label = "takeWhile (\<lambda>c. c \<noteq> DOT) cur" and ?rest = "dropWhile (\<lambda>c. c \<noteq> DOT) cur"
  have len: "length cur = length ?label + length ?rest" by (metis length_append takeWhile_dropWhile_id)
  have l: "?rest = [] \<or> tl ?rest \<noteq> []" "legal_name (e + length ?label + 1) (tl ?rest)"
    using "1.prems" by (subst (asm) legal_name.simps, simp add: Let_def)+
  show ?case
  proof (cases "?rest = []")
    case False
    with l "1.IH" "1.prems" len show ?thesis by (cases ?rest) (auto simp: Let_def)
  qed (use len "1.prems" in \<open>simp del: dropWhile_eq_Nil_conv\<close>)
qed

lemma get_at_split:
  assumes "get_at l (length (xs @ ys)) p = xs @ ys" and "l + length (xs @ ys) \<le> length p"
  shows "get_at l (length xs) p = xs" "get_at (l + length xs) (length ys) p = ys"
  using assms get_at_add [of l "length xs" "length ys" p] by simp_all

lemma name_bytes_ne [simp]: "name_bytes cur \<noteq> []"
  by (cases "cur = []") simp_all

lemma small_label: "0 < n \<Longrightarrow> n \<le> 63 \<Longrightarrow> (of_nat n :: u8) \<noteq> 0 \<and> (of_nat n :: u8) AND 0xc0 = 0 \<and>
    \<not> (of_nat n :: u8) > 63 \<and> unat (of_nat n :: u8) = n"
proof -
  have "list_all (\<lambda>n. n = 0 \<or> ((of_nat n :: u8) \<noteq> 0 \<and> (of_nat n :: u8) AND 0xc0 = 0 \<and> \<not> (of_nat n :: u8) > 63 \<and>
    unat (of_nat n :: u8) = n)) [0..<64]"
    by code_simp
  then show "0 < n \<Longrightarrow> n \<le> 63 \<Longrightarrow> ?thesis" by (auto simp: list_all_iff dest!: bspec [of _ _ n])
qed

text \<open>The bytes of a legal name are read back as the name, behind what has been read before.\<close>

lemma parse_name_bytes:
  "legal_name e cur \<Longrightarrow> get_at l (length (name_bytes cur)) packet = name_bytes cur \<Longrightarrow> l + length (name_bytes cur) \<le> len \<Longrightarrow>
   len \<le> length packet \<Longrightarrow> length out + (if out \<noteq> [] \<and> cur \<noteq> [] then 1 else 0) + length cur < n \<Longrightarrow>
   parse_name_loop packet len (Some n) l out None jumps =
     Some (NET_ERR_OK, if out \<noteq> [] \<and> cur \<noteq> [] then out @ [DOT] @ cur else out @ cur, l + length (name_bytes cur))"
proof (induction e cur arbitrary: l out rule: legal_name.induct)
  case (1 e cur)
  let ?label = "takeWhile (\<lambda>c. c \<noteq> DOT) cur" and ?rest = "dropWhile (\<lambda>c. c \<noteq> DOT) cur"
  let ?n = "length ?label"
  have l0: "l < len" "byte_at packet l = Some (hd (name_bytes cur))"
  proof -
    have p: "0 < length (name_bytes cur)" by simp
    with "1.prems"(3) show l: "l < len" by linarith
    have "name_bytes cur ! 0 = packet ! l"
      using "1.prems"(2-4) p nth_get_at [of 0 "length (name_bytes cur)" l packet] by simp
    with l p "1.prems"(4) show "byte_at packet l = Some (hd (name_bytes cur))" by (simp add: byte_at_def hd_conv_nth)
  qed
  show ?case
  proof (cases "cur = []")
    case True
    with "1.prems" l0 show ?thesis by (subst parse_name_loop.simps) simp
  next
    case False
    let ?nb = "name_bytes (tl ?rest)" and ?out = "if out \<noteq> [] then out @ [DOT] else out"
    have legal: "0 < ?n" "?n \<le> 63" "?rest = [] \<or> tl ?rest \<noteq> []" "legal_name (e + ?n + 1) (tl ?rest)"
      using False "1.prems"(1) by (subst (asm) legal_name.simps, simp add: Let_def)+
    note c = small_label [OF legal(1,2)]
    have nb: "name_bytes cur = of_nat ?n # ?label @ ?nb" using False by simp
    have parts: "get_at (l + 1) ?n packet = ?label" "get_at (l + 1 + ?n) (length ?nb) packet = ?nb"
      using "1.prems"(2-4) get_at_split [of l "[of_nat ?n]" "?label @ ?nb" packet] get_at_split [of "l + 1" ?label ?nb packet]
      by (simp_all add: nb)
    have r: "?rest = (if ?rest = [] then [] else DOT # tl ?rest)"
      using hd_dropWhile [of "\<lambda>c. c \<noteq> DOT" cur] by (cases ?rest) (simp_all del: dropWhile_eq_Nil_conv)
    have cur: "?label @ (if ?rest = [] then [] else DOT # tl ?rest) = cur" by (subst r [symmetric]) simp
    have lens: "length cur = ?n + (if ?rest = [] then 0 else Suc (length (tl ?rest)))"
      using arg_cong [OF cur, of length] by (simp del: dropWhile_eq_Nil_conv length_tl split: if_splits)
    have out: "length ?out = length out + (if out \<noteq> [] then 1 else 0)" by simp
    have len: "length ?out + ?n < n" using "1.prems"(5) lens False out by (simp split: if_splits)
    have len2: "length (?out @ ?label) + (if ?out @ ?label \<noteq> [] \<and> tl ?rest \<noteq> [] then 1 else 0) + length (tl ?rest) < n"
    proof (cases "?rest = []")
      case True
      with "1.prems"(5) lens False out show ?thesis by (simp del: dropWhile_eq_Nil_conv split: if_splits)
    next
      case rest: False
      with legal(3) have "tl ?rest \<noteq> []" by blast
      with rest "1.prems"(5) lens False out show ?thesis by (simp del: dropWhile_eq_Nil_conv length_tl split: if_splits)
    qed
    have "parse_name_loop packet len (Some n) l out None jumps =
        parse_name_loop packet len (Some n) (l + 1 + ?n) (?out @ ?label) None jumps"
      using l0 c len parts(1) "1.prems"(3,4) legal(1)
      by (subst parse_name_loop.simps) (simp add: nb Let_def bytes_at_def split: if_splits)
    also have "\<dots> = Some (NET_ERR_OK, if ?out @ ?label \<noteq> [] \<and> tl ?rest \<noteq> [] then (?out @ ?label) @ [DOT] @ tl ?rest
        else (?out @ ?label) @ tl ?rest, l + 1 + ?n + length ?nb)"
      by (rule "1.IH" [OF False refl refl legal(4)]) (use parts(2) "1.prems"(3,4) len2 nb in simp_all)
    finally have res: "parse_name_loop packet len (Some n) l out None jumps = \<dots>" .
    have "(if ?out @ ?label \<noteq> [] \<and> tl ?rest \<noteq> [] then (?out @ ?label) @ [DOT] @ tl ?rest else (?out @ ?label) @ tl ?rest) =
        (if out \<noteq> [] then out @ [DOT] else out) @ ?label @ (if ?rest = [] then [] else DOT # tl ?rest)"
      using legal(1,3) by (cases "?rest = []") (simp_all del: dropWhile_eq_Nil_conv)
    moreover have "length (name_bytes cur) = 1 + ?n + length ?nb" by (simp only: nb) simp
    ultimately show ?thesis using False by (simp only: res cur) simp
  qed
qed

lemma write_u16_Some: "i + 2 \<le> length xs \<Longrightarrow> write_u16 i v xs = Some (put_at i [ucast (drop_bit 8 v), ucast v] xs)"
  by (simp add: write_u16_def store_at_def)

lemma read_u16_put: "i + 2 \<le> length xs \<Longrightarrow> read_u16 (put_at i [ucast (drop_bit 8 v), ucast v] xs) i = Some v"
proof -
  assume i: "i + 2 \<le> length xs"
  have "(push_bit 8 (ucast (ucast (drop_bit 8 v) :: u8)) OR ucast (ucast v :: u8) :: u16) = v"
    by (rule bit_word_eqI) (auto simp: bit_simps)
  with i show ?thesis by (simp add: read_u16_def byte_at_def nth_put_at)
qed

lemma read_u16_put_other:
  "i + length bs \<le> length xs \<Longrightarrow> j + 2 \<le> i \<or> i + length bs \<le> j \<Longrightarrow> read_u16 (put_at i bs xs) j = read_u16 xs j"
  by (auto simp: read_u16_def byte_at_def nth_put_at)

text \<open>C31. Encoding a query returns for every name, without writing outside the array of 512 bytes, and succeeds exactly for legal
  names: labels of 1 to 63 bytes, separated by single dots, at most 255 bytes in all. Then the query holds the identifier, is not
  longer than 271 bytes, and its question is read back as the name, with type A and class IN behind it.\<close>

theorem dns_query_roundtrip:
  "\<exists>e q. dns_query_encode False ident (Some name) q0 = Some (e, q) \<and>
    (e = NET_ERR_OK \<longleftrightarrow> name \<noteq> [] \<and> legal_name 1 name) \<and>
    (e = NET_ERR_OK \<longrightarrow> length (dq_bytes q) = 512 \<and> dq_length q \<le> 271 \<and> read_u16 (dq_bytes q) 0 = Some ident \<and>
      parse_name (dq_bytes q) (dq_length q) DNS_HEADER_SIZE (Some 256) = Some (NET_ERR_OK, name, dq_length q - 4) \<and>
      read_u16 (dq_bytes q) (dq_length q - 4) = Some DNS_TYPE_A \<and> read_u16 (dq_bytes q) (dq_length q - 2) = Some DNS_CLASS_IN)"
proof (cases "name = []")
  case False
  let ?w = "\<lambda>i v. put_at i [ucast (drop_bit 8 (v :: u16)), ucast v]"
  define p1 :: "u8 list" where "p1 = ?w 4 1 (?w 2 0x0100 (?w 0 ident (replicate 512 0)))"
  have p1: "length p1 = 512" "read_u16 p1 0 = Some ident"
    by (simp_all add: p1_def read_u16_put_other read_u16_put)
  obtain e packet len where a: "append_name p1 DNS_HEADER_SIZE name = Some (e, packet, len)" "e = NET_ERR_OK \<longleftrightarrow> legal_name 1 name"
    "e = NET_ERR_OK \<Longrightarrow> packet = put_at 12 (name_bytes name) p1 \<and> len = 12 + length (name_bytes name) \<and> len \<le> 267"
    using append_name_loop_spec [of 12 p1 1 name] p1(1) by (auto simp: append_name_def DNS_HEADER_SIZE_def)
  have enc: "dns_query_encode False ident (Some name) q0 =
      (if e \<noteq> NET_ERR_OK then Some (e, \<lparr>dq_id = ident, dq_bytes = packet, dq_length = 0\<rparr>)
       else write_u16 len DNS_TYPE_A packet \<bind> (\<lambda>packet. write_u16 (len + 2) DNS_CLASS_IN packet \<bind>
         (\<lambda>packet. Some (NET_ERR_OK, \<lparr>dq_id = ident, dq_bytes = packet, dq_length = len + 4\<rparr>))))"
  proof -
    have z: "write_u16 0 ident (replicate 512 0) \<bind> (\<lambda>p. write_u16 2 0x0100 p \<bind> write_u16 4 1) = Some p1"
      by (simp add: write_u16_Some p1_def)
    have "dns_query_encode False ident (Some name) q0 =
        (write_u16 0 ident (replicate 512 0) \<bind> (\<lambda>p. write_u16 2 0x0100 p \<bind> write_u16 4 1)) \<bind>
          (\<lambda>p. append_name p DNS_HEADER_SIZE name \<bind> (\<lambda>(result, packet, len).
            if result \<noteq> NET_ERR_OK then Some (result, \<lparr>dq_id = ident, dq_bytes = packet, dq_length = 0\<rparr>)
            else write_u16 len DNS_TYPE_A packet \<bind> (\<lambda>packet. write_u16 (len + 2) DNS_CLASS_IN packet \<bind>
              (\<lambda>packet. Some (NET_ERR_OK, \<lparr>dq_id = ident, dq_bytes = packet, dq_length = len + 4\<rparr>)))))"
      using False by (simp add: dns_query_encode_def Let_def Option.bind_assoc)
    then show ?thesis by (simp add: z a(1))
  qed
  show ?thesis
  proof (cases "e = NET_ERR_OK")
    case True
    note ok = a(3) [OF True]
    define p2 where "p2 = ?w (len + 2) DNS_CLASS_IN (?w len DNS_TYPE_A packet)"
    have len: "length packet = 512" using ok p1(1) by simp
    have l2: "length p2 = 512" using len ok by (simp add: p2_def)
    have "get_at 12 (length (name_bytes name)) p2 = name_bytes name"
      using ok len p1(1) by (simp add: p2_def get_at_put_at_disjoint_before)
    then have "parse_name_loop p2 (len + 4) (Some 256) 12 [] None 0 = Some (NET_ERR_OK, name, len)"
      using parse_name_bytes [of 1 name 12 p2 "len + 4" "[]" 256 0] True a(2) ok l2 length_name_bytes [OF False, of 1] by simp
    moreover have "read_u16 p2 0 = Some ident" "read_u16 p2 len = Some DNS_TYPE_A" "read_u16 p2 (len + 2) = Some DNS_CLASS_IN"
      using ok len p1 by (simp_all add: p2_def read_u16_put_other read_u16_put)
    moreover have "12 < len" "len \<le> 267" using ok by simp_all
    moreover from this(2) have "dns_query_encode False ident (Some name) q0 =
        Some (NET_ERR_OK, \<lparr>dq_id = ident, dq_bytes = p2, dq_length = len + 4\<rparr>)"
      using True len enc by (simp add: write_u16_Some p2_def)
    ultimately show ?thesis using True a(2) False l2 by (simp add: parse_name_def DNS_HEADER_SIZE_def)
  qed (use a(2) enc in simp)
qed (simp add: dns_query_encode_def)

theorem dns_query_roundtrip_witness:
  "\<exists>q. dns_query_encode False 7 (Some [97, 46, 98, 99]) \<lparr>dq_id = 0, dq_bytes = [], dq_length = 0\<rparr> = Some (NET_ERR_OK, q) \<and>
     parse_name (dq_bytes q) (dq_length q) DNS_HEADER_SIZE (Some 256) = Some (NET_ERR_OK, [97, 46, 98, 99], dq_length q - 4)"
proof -
  have "legal_name 1 [97, 46, 98, 99]" by code_simp
  then show ?thesis
    using dns_query_roundtrip [of 7 "[97, 46, 98, 99]" "\<lparr>dq_id = 0, dq_bytes = [], dq_length = 0\<rparr>"] by auto
qed

end
