(* ===== verification/Exec_Props.thy ===== *)
theory Exec_Props
  imports Boot
begin

text \<open>
  The protocol between the tasks that call \<^verbatim>\<open>net_exec_submit\<close> and the network task in \<^verbatim>\<open>net_exec_run_once\<close>, as a step
  relation over the sections of both that run under \<^verbatim>\<open>request_locker\<close>, in any interleaving. Each call of
  \<^verbatim>\<open>net_exec_submit\<close> has a number. The queue of requests is the list of what it holds; that it is a first-in first-out
  queue under every interleaving is a property of \<open>Fixq\<close>.
\<close>

section \<open>Configurations and steps\<close>

text \<open>Where a call is: it has taken record \<open>i\<close>, has sent it, has returned from the wait with a result, waits again
  without a time limit, or has returned to its caller.\<close>

datatype call_pc = New | Claimed nat | Sent nat | Awake nat net_err | Forced nat | Returned net_err

text \<open>Where the network task is: it has taken record \<open>i\<close> from the queue, is about to call the procedure, or has
  called it.\<close>

datatype worker_pc = W_Idle | W_Got nat | W_Run nat | W_Ran nat

text \<open>\<open>ec_owner i\<close> is the last call that took record \<open>i\<close>, \<open>ec_log\<close> the calls whose procedures have been run.\<close>

record exec_conf =
  ec_sys :: stack_state
  ec_queue :: "nat list"
  ec_pc :: "nat \<Rightarrow> call_pc"
  ec_worker :: worker_pc
  ec_owner :: "nat \<Rightarrow> nat"
  ec_log :: "nat list"

definition done_of :: "stack_state \<Rightarrow> nat \<Rightarrow> nat" where
  "done_of s i = the (rq_done (requests s ! i))"

definition done_count :: "stack_state \<Rightarrow> nat \<Rightarrow> int" where
  "done_count s i = sem_count (sem_of s (done_of s i))"

text \<open>The records have different semaphores, all in use.\<close>

definition sems_ok :: "stack_state \<Rightarrow> bool" where
  "sems_ok s \<longleftrightarrow> sem_inv s \<and> length (requests s) = NET_EXEC_QUEUE_SIZE \<and>
     (\<forall>i<NET_EXEC_QUEUE_SIZE. rq_done (requests s ! i) \<noteq> None \<and> sys_sem_valid (rq_done (requests s ! i)) s) \<and>
     inj_on (done_of s) {..<NET_EXEC_QUEUE_SIZE}"

abbreviation wait_done :: "nat \<Rightarrow> stack_state \<Rightarrow> (net_err \<times> stack_state) option" where
  "wait_done i s \<equiv> sys_sem_wait (rq_done (requests s ! i)) (-1) [] s"

text \<open>\<open>other\<close> is whatever else happens in the system, the effect of the procedures included: it leaves the records and
  their semaphores alone.\<close>

inductive exec_step :: "exec_conf \<Rightarrow> exec_conf \<Rightarrow> bool" where
  other: "requests s = requests (ec_sys k) \<Longrightarrow> sems_ok s \<Longrightarrow>
    (\<forall>i<NET_EXEC_QUEUE_SIZE. done_count s i = done_count (ec_sys k) i) \<Longrightarrow> exec_step k (k\<lparr>ec_sys := s\<rparr>)"
| reject: "ec_pc k c = New \<Longrightarrow> exec_step k (k\<lparr>ec_pc := (ec_pc k)(c := Returned NET_ERR_PARAM)\<rparr>)"
| full: "ec_pc k c = New \<Longrightarrow> exec_claim f arg (ec_sys k) = (None, s) \<Longrightarrow>
    exec_step k (k\<lparr>ec_sys := s, ec_pc := (ec_pc k)(c := Returned NET_ERR_FULL)\<rparr>)"
| claim: "ec_pc k c = New \<Longrightarrow> exec_claim f arg (ec_sys k) = (Some i, s) \<Longrightarrow>
    exec_step k (k\<lparr>ec_sys := s, ec_pc := (ec_pc k)(c := Claimed i), ec_owner := (ec_owner k)(i := c)\<rparr>)"
| send: "ec_pc k c = Claimed i \<Longrightarrow> exec_step k (k\<lparr>ec_queue := ec_queue k @ [i], ec_pc := (ec_pc k)(c := Sent i)\<rparr>)"
| send_fails: "ec_pc k c = Claimed i \<Longrightarrow> is_err e \<Longrightarrow>
    exec_step k (k\<lparr>ec_sys := upd_req i (\<lambda>r. r\<lparr>rq_proc := None\<rparr>) (ec_sys k), ec_pc := (ec_pc k)(c := Returned e)\<rparr>)"
| wakes_up: "ec_pc k c = Sent i \<Longrightarrow> wait_done i (ec_sys k) = Some (NET_ERR_OK, s) \<Longrightarrow>
    exec_step k (k\<lparr>ec_sys := s, ec_pc := (ec_pc k)(c := Awake i NET_ERR_OK)\<rparr>)"
| times_out: "ec_pc k c = Sent i \<Longrightarrow> is_err e \<Longrightarrow> exec_step k (k\<lparr>ec_pc := (ec_pc k)(c := Awake i e)\<rparr>)"
| waits_on: "ec_pc k c = Awake i e \<Longrightarrow> is_err e \<Longrightarrow> rq_started (requests (ec_sys k) ! i) \<Longrightarrow>
    \<not> rq_completed (requests (ec_sys k) ! i) \<Longrightarrow> exec_step k (k\<lparr>ec_pc := (ec_pc k)(c := Forced i)\<rparr>)"
| forced: "ec_pc k c = Forced i \<Longrightarrow> wait_done i (ec_sys k) = Some (NET_ERR_OK, s) \<Longrightarrow>
    exec_step k (k\<lparr>ec_sys := s, ec_pc := (ec_pc k)(c := Awake i NET_ERR_OK)\<rparr>)"
| finish: "ec_pc k c = Awake i e \<Longrightarrow>
    \<not> (is_err e \<and> rq_started (requests (ec_sys k) ! i) \<and> \<not> rq_completed (requests (ec_sys k) ! i)) \<Longrightarrow>
    exec_finish i e (ec_sys k) = Some (r, s) \<Longrightarrow>
    exec_step k (k\<lparr>ec_sys := s, ec_pc := (ec_pc k)(c := Returned r)\<rparr>)"
| receive: "ec_worker k = W_Idle \<Longrightarrow> ec_queue k = i # q \<Longrightarrow> exec_step k (k\<lparr>ec_queue := q, ec_worker := W_Got i\<rparr>)"
| drop: "ec_worker k = W_Got i \<Longrightarrow> exec_start i (ec_sys k) = (False, s) \<Longrightarrow>
    exec_step k (k\<lparr>ec_sys := s, ec_worker := W_Idle\<rparr>)"
| start: "ec_worker k = W_Got i \<Longrightarrow> exec_start i (ec_sys k) = (True, s) \<Longrightarrow>
    exec_step k (k\<lparr>ec_sys := s, ec_worker := W_Run i\<rparr>)"
| run: "ec_worker k = W_Run i \<Longrightarrow> exec_step k (k\<lparr>ec_worker := W_Ran i, ec_log := ec_log k @ [ec_owner k i]\<rparr>)"
| complete: "ec_worker k = W_Ran i \<Longrightarrow>
    exec_step k (k\<lparr>ec_sys := exec_complete i (ec_sys k), ec_worker := W_Idle\<rparr>)"

definition exec_conf_init :: "stack_state \<Rightarrow> exec_conf" where
  "exec_conf_init s = \<lparr>ec_sys = s, ec_queue = [], ec_pc = (\<lambda>_. New), ec_worker = W_Idle, ec_owner = (\<lambda>_. 0), ec_log = []\<rparr>"


section \<open>The invariant\<close>

fun pc_on :: "call_pc \<Rightarrow> nat option" where
  "pc_on (Claimed i) = Some i"
| "pc_on (Sent i) = Some i"
| "pc_on (Awake i e) = Some i"
| "pc_on (Forced i) = Some i"
| "pc_on _ = None"

fun worker_on :: "worker_pc \<Rightarrow> nat option" where
  "worker_on W_Idle = None"
| "worker_on (W_Got i) = Some i"
| "worker_on (W_Run i) = Some i"
| "worker_on (W_Ran i) = Some i"

text \<open>What holds of a record \<open>r\<close> with \<open>n\<close> units in its semaphore and \<open>q\<close> places in the queue, when the network task is at
  \<open>w\<close> (\<open>W_Idle\<close> if it is not at this record), the call that owns the record is at \<open>p\<close> (\<open>None\<close> if it has returned) and
  \<open>has_run\<close> says whether the procedure of that call has been run.\<close>

definition waits_for_worker :: "nat \<Rightarrow> worker_pc \<Rightarrow> bool" where
  "waits_for_worker q w \<longleftrightarrow> (case w of W_Idle \<Rightarrow> q = 1 | W_Got _ \<Rightarrow> q = 0 | _ \<Rightarrow> False)"

definition rec_ok :: "net_exec_req \<Rightarrow> int \<Rightarrow> nat \<Rightarrow> worker_pc \<Rightarrow> call_pc option \<Rightarrow> bool \<Rightarrow> bool" where
  "rec_ok r n q w p has_run \<longleftrightarrow>
     (case p of
        None \<Rightarrow> n = 0 \<and> (if rq_proc r = None then q = 0 \<and> w = W_Idle else rq_abandoned r \<and> waits_for_worker q w)
      | Some pc \<Rightarrow> rq_proc r \<noteq> None \<and> \<not> rq_abandoned r \<and>
          (case pc of
             Claimed _ \<Rightarrow> n = 0 \<and> q = 0 \<and> w = W_Idle \<and> \<not> rq_started r \<and> \<not> rq_completed r \<and> \<not> has_run
           | _ \<Rightarrow>
             if rq_completed r then q = 0 \<and> w = W_Idle \<and> has_run \<and> n = (case pc of Awake _ e \<Rightarrow> if is_err e then 1 else 0 | _ \<Rightarrow> 1)
             else if rq_started r then n = 0 \<and> q = 0 \<and> (case w of W_Run _ \<Rightarrow> \<not> has_run | W_Ran _ \<Rightarrow> has_run | _ \<Rightarrow> False) \<and>
               (case pc of Awake _ e \<Rightarrow> is_err e | _ \<Rightarrow> True)
             else n = 0 \<and> \<not> has_run \<and> waits_for_worker q w \<and> (case pc of Awake _ e \<Rightarrow> is_err e | Forced _ \<Rightarrow> False | _ \<Rightarrow> True)))"

definition owner_pc :: "exec_conf \<Rightarrow> nat \<Rightarrow> call_pc option" where
  "owner_pc k i = (if pc_on (ec_pc k (ec_owner k i)) = Some i then Some (ec_pc k (ec_owner k i)) else None)"

definition worker_at :: "exec_conf \<Rightarrow> nat \<Rightarrow> worker_pc" where
  "worker_at k i = (if worker_on (ec_worker k) = Some i then ec_worker k else W_Idle)"

definition exec_inv :: "exec_conf \<Rightarrow> bool" where
  "exec_inv k \<longleftrightarrow> sems_ok (ec_sys k) \<and> set (ec_queue k) \<subseteq> {..<NET_EXEC_QUEUE_SIZE} \<and>
     (\<forall>i. worker_on (ec_worker k) = Some i \<longrightarrow> i < NET_EXEC_QUEUE_SIZE) \<and>
     (\<forall>c i. pc_on (ec_pc k c) = Some i \<longrightarrow> i < NET_EXEC_QUEUE_SIZE \<and> ec_owner k i = c) \<and>
     distinct (ec_log k) \<and> (\<forall>c. ec_pc k c = New \<longrightarrow> c \<notin> set (ec_log k)) \<and>
     (\<forall>c e. ec_pc k c = Returned e \<longrightarrow> (c \<in> set (ec_log k) \<longleftrightarrow> e = NET_ERR_OK)) \<and>
     (\<forall>i<NET_EXEC_QUEUE_SIZE. rec_ok (requests (ec_sys k) ! i) (done_count (ec_sys k) i) (count_list (ec_queue k) i)
        (worker_at k i) (owner_pc k i) (ec_owner k i \<in> set (ec_log k)))"


section \<open>The sections keep the semaphores apart\<close>

lemma upd_req_simps [simp]:
  "length (requests (upd_req i f s)) = length (requests s)"
  "i < length (requests s) \<Longrightarrow> requests (upd_req i f s) ! j = (if j = i then f (requests s ! i) else requests s ! j)"
  "sem_pool (upd_req i f s) = sem_pool s"
  by (simp_all add: upd_req_def)

lemma upd_req_done:
  assumes "sems_ok s" and "i < NET_EXEC_QUEUE_SIZE" and "\<And>r. rq_done (f r) = rq_done r"
  shows "sems_ok (upd_req i f s)" "done_count (upd_req i f s) j = done_count s j" "done_of (upd_req i f s) j = done_of s j"
proof -
  have r: "rq_done (requests (upd_req i f s) ! j) = rq_done (requests s ! j)" for j
    using assms by (simp add: sems_ok_def)
  then have d: "done_of (upd_req i f s) = done_of s" by (simp add: done_of_def fun_eq_iff)
  show "sems_ok (upd_req i f s)"
    using assms(1) unfolding sems_ok_def r d by (simp add: sem_inv_def sys_sem_valid_def)
  show "done_count (upd_req i f s) j = done_count s j" "done_of (upd_req i f s) j = done_of s j"
    by (simp_all add: done_count_def d)
qed

lemma upd_sem_done:
  assumes "sems_ok s" and "i < NET_EXEC_QUEUE_SIZE" and "s' = upd_sem (done_of s i) f (s\<lparr>wakes := w\<rparr>)" and "\<And>m. sem_used (f m) = sem_used m"
    and "0 \<le> sem_count (f (sem_of s (done_of s i)))" and "sem_count (f (sem_of s (done_of s i))) \<le> INT_MAX"
  shows "sems_ok s'" "requests s' = requests s"
    "j < NET_EXEC_QUEUE_SIZE \<Longrightarrow> done_count s' j = (if j = i then sem_count (f (sem_of s (done_of s i))) else done_count s j)"
proof -
  let ?t = "s\<lparr>wakes := w\<rparr>"
  have v: "done_of s i < length (sem_pool s)" if "i < NET_EXEC_QUEUE_SIZE" for i
    using assms(1) that by (auto simp: sems_ok_def done_of_def sys_sem_valid_Some)
  show req: "requests s' = requests s" by (simp add: assms(3) upd_sem_def)
  have d: "done_of s' = done_of s" by (simp add: done_of_def fun_eq_iff req)
  have inv: "sem_inv s'" unfolding assms(3)
    by (rule sem_inv_upd) (use assms in \<open>simp_all add: sems_ok_def sem_inv_def\<close>)
  have sem: "sem_of s' m = (if m = done_of s i then f (sem_of s m) else sem_of s m)" for m
    using v [OF assms(2)] by (simp add: assms(3) upd_sem_def)
  have valid: "sys_sem_valid (Some m) s' = sys_sem_valid (Some m) s" for m
    using assms(4) by (simp add: sys_sem_valid_Some sem)
  show "sems_ok s'"
    using assms(1) valid inv unfolding sems_ok_def req d by (metis option.exhaust_sel)
  show "done_count s' j = (if j = i then sem_count (f (sem_of s (done_of s i))) else done_count s j)"
    if "j < NET_EXEC_QUEUE_SIZE"
    using assms(1,2) that by (auto simp: done_count_def d sem sems_ok_def dest: inj_onD)
qed

lemma sems_okD:
  assumes "sems_ok s" and "i < NET_EXEC_QUEUE_SIZE"
  shows "rq_done (requests s ! i) = Some (done_of s i)" "sys_sem_valid (Some (done_of s i)) s" "sem_inv s"
    "0 \<le> done_count s i" "done_count s i \<le> INT_MAX"
proof -
  show d: "rq_done (requests s ! i) = Some (done_of s i)" using assms by (auto simp: sems_ok_def done_of_def)
  then show v: "sys_sem_valid (Some (done_of s i)) s" and inv: "sem_inv s" using assms by (metis sems_ok_def)+
  show "0 \<le> done_count s i" "done_count s i \<le> INT_MAX"
    using sem_inv_count [OF inv] v by (simp_all add: done_count_def sys_sem_valid_Some)
qed

lemma wait_done_ok:
  assumes "sems_ok s" and "i < NET_EXEC_QUEUE_SIZE"
  shows "if 0 < done_count s i
    then \<exists>s'. wait_done i s = Some (NET_ERR_OK, s') \<and> sems_ok s' \<and> requests s' = requests s \<and>
      (\<forall>j<NET_EXEC_QUEUE_SIZE. done_count s' j = (if j = i then done_count s i - 1 else done_count s j))
    else wait_done i s = Some (NET_ERR_TMO, s)"
proof -
  note ok = sems_okD [OF assms]
  have w: "wait_done i s = Some (if 0 < done_count s i then (NET_ERR_OK, upd_sem (done_of s i) dec_count s) else (NET_ERR_TMO, s))"
    unfolding ok(1) by (simp add: sys_sem_wait_poll [OF ok(2)] done_count_def)
  have s: "upd_sem (done_of s i) dec_count s = upd_sem (done_of s i) dec_count (s\<lparr>wakes := wakes s\<rparr>)" by simp
  show ?thesis
  proof (cases "0 < done_count s i")
    case True
    have c: "0 \<le> sem_count (dec_count (sem_of s (done_of s i)))" "sem_count (dec_count (sem_of s (done_of s i))) \<le> INT_MAX"
      using True ok(5) by (simp_all add: done_count_def)
    show ?thesis
      using True w upd_sem_done [OF assms s _ c] by (simp add: done_count_def)
  qed (simp add: w)
qed

lemma wait_done_elim:
  assumes "sems_ok s" and "i < NET_EXEC_QUEUE_SIZE" and "wait_done i s = Some (NET_ERR_OK, s')"
  shows "0 < done_count s i" "sems_ok s'" "requests s' = requests s"
    "j < NET_EXEC_QUEUE_SIZE \<Longrightarrow> done_count s' j = (if j = i then done_count s i - 1 else done_count s j)"
  using wait_done_ok [OF assms(1,2)] assms(3) by (auto split: if_splits)

lemma notify_done_ok:
  assumes "sems_ok s" and "i < NET_EXEC_QUEUE_SIZE" and "done_count s i < INT_MAX"
  shows "sems_ok (sys_sem_notify (rq_done (requests s ! i)) s)"
    "requests (sys_sem_notify (rq_done (requests s ! i)) s) = requests s"
    "j < NET_EXEC_QUEUE_SIZE \<Longrightarrow> done_count (sys_sem_notify (rq_done (requests s ! i)) s) j =
       (if j = i then done_count s i + 1 else done_count s j)"
proof -
  note ok = sems_okD [OF assms(1,2)]
  let ?f = "\<lambda>m. m\<lparr>sem_count := sem_count m + 1\<rparr>"
  obtain w where n: "sys_sem_notify (rq_done (requests s ! i)) s = upd_sem (done_of s i) ?f (s\<lparr>wakes := w\<rparr>)"
    using sys_sem_notify_used [OF ok(3,2)] assms(3) by (auto simp: ok(1) done_count_def)
  have c: "0 \<le> sem_count (?f (sem_of s (done_of s i)))" "sem_count (?f (sem_of s (done_of s i))) \<le> INT_MAX"
    using ok(4) assms(3) by (simp_all add: done_count_def)
  note u = upd_sem_done [OF assms(1,2) n _ c]
  show "sems_ok (sys_sem_notify (rq_done (requests s ! i)) s)"
    "requests (sys_sem_notify (rq_done (requests s ! i)) s) = requests s"
    "j < NET_EXEC_QUEUE_SIZE \<Longrightarrow> done_count (sys_sem_notify (rq_done (requests s ! i)) s) j =
       (if j = i then done_count s i + 1 else done_count s j)"
    using u by (simp_all add: done_count_def)
qed


section \<open>The invariant is kept\<close>

lemma exec_invD:
  assumes "exec_inv k"
  shows "sems_ok (ec_sys k)" "set (ec_queue k) \<subseteq> {..<NET_EXEC_QUEUE_SIZE}"
    "worker_on (ec_worker k) = Some i \<Longrightarrow> i < NET_EXEC_QUEUE_SIZE"
    "pc_on (ec_pc k c) = Some i \<Longrightarrow> i < NET_EXEC_QUEUE_SIZE \<and> ec_owner k i = c"
    "distinct (ec_log k)" "ec_pc k c = New \<Longrightarrow> c \<notin> set (ec_log k)"
    "ec_pc k c = Returned e \<Longrightarrow> (c \<in> set (ec_log k) \<longleftrightarrow> e = NET_ERR_OK)"
    "i < NET_EXEC_QUEUE_SIZE \<Longrightarrow> rec_ok (requests (ec_sys k) ! i) (done_count (ec_sys k) i) (count_list (ec_queue k) i)
       (worker_at k i) (owner_pc k i) (ec_owner k i \<in> set (ec_log k))"
  using assms by (auto simp: exec_inv_def)

text \<open>A step of the call that owns record \<open>i\<close>: it is enough to look at this record.\<close>

lemma call_step:
  assumes inv: "exec_inv k" and pc: "pc_on (ec_pc k c) = Some i" and p: "pc_on p = Some i \<or> (\<exists>e. p = Returned e \<and> (c \<in> set (ec_log k) \<longleftrightarrow> e = NET_ERR_OK))"
    and s: "sems_ok s" "\<And>j. j < NET_EXEC_QUEUE_SIZE \<Longrightarrow> j \<noteq> i \<Longrightarrow> requests s ! j = requests (ec_sys k) ! j \<and> done_count s j = done_count (ec_sys k) j"
    and q: "set q \<subseteq> {..<NET_EXEC_QUEUE_SIZE}" "\<And>j. j \<noteq> i \<Longrightarrow> count_list q j = count_list (ec_queue k) j"
    and rec: "rec_ok (requests s ! i) (done_count s i) (count_list q i) (worker_at k i) (if pc_on p = None then None else Some p) (c \<in> set (ec_log k))"
  shows "exec_inv (k\<lparr>ec_sys := s, ec_queue := q, ec_pc := (ec_pc k)(c := p)\<rparr>)"
proof -
  let ?k = "k\<lparr>ec_sys := s, ec_queue := q, ec_pc := (ec_pc k)(c := p)\<rparr>"
  note d = exec_invD [OF inv]
  have own: "ec_owner k i = c" using d(4) [OF pc] by simp
  have other: "owner_pc ?k j = owner_pc k j" if "j \<noteq> i" for j
  proof (cases "ec_owner k j = c")
    case True
    then show ?thesis using that pc p by (auto simp: owner_pc_def)
  qed (simp add: owner_pc_def)
  have at: "owner_pc ?k i = (if pc_on p = None then None else Some p)" using p by (auto simp: owner_pc_def own)
  have w: "worker_at ?k j = worker_at k j" for j by (simp add: worker_at_def)
  have "rec_ok (requests s ! j) (done_count s j) (count_list q j) (worker_at ?k j) (owner_pc ?k j) (ec_owner k j \<in> set (ec_log k))"
    if "j < NET_EXEC_QUEUE_SIZE" for j
    using rec d(8) [OF that] s(2) [OF that] q(2) [of j] own other [of j] at w by (cases "j = i") simp_all
  moreover have "p \<noteq> New" using p by auto
  ultimately show ?thesis
    using d(1-7) s(1) q(1) p pc unfolding exec_inv_def by (auto split: if_splits)
qed

text \<open>A step of the network task at record \<open>i\<close>.\<close>

lemma worker_step:
  assumes inv: "exec_inv k" and i: "i < NET_EXEC_QUEUE_SIZE" "worker_on (ec_worker k) \<in> {None, Some i}" "worker_on w \<in> {None, Some i}"
    and s: "sems_ok s" "\<And>j. j < NET_EXEC_QUEUE_SIZE \<Longrightarrow> j \<noteq> i \<Longrightarrow> requests s ! j = requests (ec_sys k) ! j \<and> done_count s j = done_count (ec_sys k) j"
    and q: "set q \<subseteq> {..<NET_EXEC_QUEUE_SIZE}" "\<And>j. j \<noteq> i \<Longrightarrow> count_list q j = count_list (ec_queue k) j"
    and log: "log = ec_log k \<or> log = ec_log k @ [ec_owner k i] \<and> pc_on (ec_pc k (ec_owner k i)) = Some i \<and> ec_owner k i \<notin> set (ec_log k)"
    and rec: "rec_ok (requests s ! i) (done_count s i) (count_list q i) (if worker_on w = None then W_Idle else w) (owner_pc k i) (ec_owner k i \<in> set log)"
  shows "exec_inv (k\<lparr>ec_sys := s, ec_queue := q, ec_worker := w, ec_log := log\<rparr>)"
proof -
  let ?k = "k\<lparr>ec_sys := s, ec_queue := q, ec_worker := w, ec_log := log\<rparr>"
  note d = exec_invD [OF inv]
  have other: "worker_at ?k j = worker_at k j" if "j \<noteq> i" for j using that i(2,3) by (auto simp: worker_at_def)
  have at: "worker_at ?k i = (if worker_on w = None then W_Idle else w)" using i(3) by (auto simp: worker_at_def)
  have o: "owner_pc ?k j = owner_pc k j" for j by (simp add: owner_pc_def)
  have ran: "rec_ok r n m w' (owner_pc k j) (ec_owner k j \<in> set log)"
    if "rec_ok r n m w' (owner_pc k j) (ec_owner k j \<in> set (ec_log k))" "j \<noteq> i" for j r n m w'
  proof (cases "log = ec_log k \<or> ec_owner k j \<noteq> ec_owner k i")
    case False
    with log that(2) have "owner_pc k j = None" by (auto simp: owner_pc_def)
    with that(1) show ?thesis by (simp add: rec_ok_def)
  qed (use that(1) log in auto)
  have "rec_ok (requests s ! j) (done_count s j) (count_list q j) (worker_at ?k j) (owner_pc ?k j) (ec_owner k j \<in> set log)"
    if "j < NET_EXEC_QUEUE_SIZE" for j
    using rec ran [OF d(8) [OF that]] s(2) [OF that] q(2) [of j] other [of j] at o by (cases "j = i") simp_all
  moreover have "distinct log" "ec_pc k c = New \<Longrightarrow> c \<notin> set log" for c
    using log d(5) d(6) [of c] by auto
  moreover have "ec_pc k c = Returned e \<Longrightarrow> (c \<in> set log \<longleftrightarrow> e = NET_ERR_OK)" for c e
    using log d(7) [of c e] by auto
  moreover have "worker_on w = Some j \<Longrightarrow> j < NET_EXEC_QUEUE_SIZE" for j using i by auto
  ultimately show ?thesis
    using d(4) s(1) q(1) unfolding exec_inv_def by simp
qed

lemmas rec_ok_simps = rec_ok_def waits_for_worker_def

lemma owner_pcI: "exec_inv k \<Longrightarrow> pc_on (ec_pc k c) = Some i \<Longrightarrow> owner_pc k i = Some (ec_pc k c) \<and> ec_owner k i = c \<and> i < NET_EXEC_QUEUE_SIZE"
  using exec_invD(4) [of k c i] by (simp add: owner_pc_def)

text \<open>The steps of a call, one by one.\<close>

lemma claim_inv:
  assumes "exec_inv k" and "ec_pc k c = New" and "exec_claim f arg (ec_sys k) = (Some i, s)"
  shows "exec_inv (k\<lparr>ec_sys := s, ec_pc := (ec_pc k)(c := Claimed i), ec_owner := (ec_owner k)(i := c)\<rparr>)"
proof -
  note d = exec_invD [OF assms(1)]
  let ?f = "\<lambda>r. r\<lparr>rq_proc := Some f, rq_arg := arg, rq_completed := False, rq_abandoned := False, rq_started := False\<rparr>"
  let ?k = "k\<lparr>ec_sys := s, ec_pc := (ec_pc k)(c := Claimed i), ec_owner := (ec_owner k)(i := c)\<rparr>"
  have len: "length (requests (ec_sys k)) = NET_EXEC_QUEUE_SIZE" using d(1) by (simp add: sems_ok_def)
  have i: "find_index (\<lambda>r. rq_proc r = None) (requests (ec_sys k)) = Some i" and s: "s = upd_req i ?f (ec_sys k)"
    using assms(3) by (auto simp: exec_claim_def split: option.splits)
  then have i8: "i < NET_EXEC_QUEUE_SIZE" "rq_proc (requests (ec_sys k) ! i) = None" using find_index_SomeD [OF i] len by simp_all
  have free: "owner_pc k i = None" "done_count (ec_sys k) i = 0" "count_list (ec_queue k) i = 0" "worker_at k i = W_Idle"
    using d(8) [OF i8(1)] i8(2) by (auto simp: rec_ok_def split: option.splits)
  have nobody: "pc_on (ec_pc k b) \<noteq> Some i" for b
    using d(4) [of b i] free(1) by (auto simp: owner_pc_def split: if_splits)
  have others: "owner_pc ?k j = owner_pc k j \<and> ec_owner ?k j = ec_owner k j" if "j \<noteq> i" for j
    using that assms(2) by (simp add: owner_pc_def)
  have "rec_ok (requests s ! j) (done_count s j) (count_list (ec_queue k) j) (worker_at ?k j) (owner_pc ?k j) (ec_owner ?k j \<in> set (ec_log k))"
    if "j < NET_EXEC_QUEUE_SIZE" for j
  proof (cases "j = i")
    case True
    then show ?thesis
      using free d(6) [OF assms(2)] i8 len upd_req_done(2) [OF d(1) i8(1), of ?f i]
      by (simp add: s rec_ok_def owner_pc_def worker_at_def split: if_splits)
  next
    case False
    then show ?thesis
      using d(8) [OF that] i8 len upd_req_done(2) [OF d(1) i8(1), of ?f j] others [OF False]
      by (simp add: s worker_at_def split: if_splits)
  qed
  moreover have "sems_ok s" using upd_req_done(1) [OF d(1) i8(1), of ?f] by (simp add: s)
  moreover have "\<forall>b j. pc_on (ec_pc ?k b) = Some j \<longrightarrow> j < NET_EXEC_QUEUE_SIZE \<and> ec_owner ?k j = b"
    using d(4) nobody i8(1) by auto
  ultimately show ?thesis using d(2,3,5,6,7) unfolding exec_inv_def by simp
qed

lemma send_inv:
  assumes "exec_inv k" and "ec_pc k c = Claimed i"
  shows "exec_inv (k\<lparr>ec_queue := ec_queue k @ [i], ec_pc := (ec_pc k)(c := Sent i)\<rparr>)"
proof -
  note o = owner_pcI [OF assms(1), of c i] exec_invD(8) [OF assms(1), of i]
  have "exec_inv (k\<lparr>ec_sys := ec_sys k, ec_queue := ec_queue k @ [i], ec_pc := (ec_pc k)(c := Sent i)\<rparr>)"
    by (rule call_step [OF assms(1), of c i]) (use assms(2) o exec_invD(1,2) [OF assms(1)] in \<open>auto simp: rec_ok_simps\<close>)
  then show ?thesis by simp
qed

text \<open>The steps that leave the queue alone: what holds of the record afterwards follows from what held before.\<close>

lemma call_inv:
  assumes "exec_inv k" and "pc_on (ec_pc k c) = Some i"
    and "pc_on p = Some i \<or> (\<exists>e. p = Returned e \<and> (c \<in> set (ec_log k) \<longleftrightarrow> e = NET_ERR_OK))"
    and "sems_ok s" and "\<And>j. j < NET_EXEC_QUEUE_SIZE \<Longrightarrow> j \<noteq> i \<Longrightarrow> requests s ! j = requests (ec_sys k) ! j \<and> done_count s j = done_count (ec_sys k) j"
    and "rec_ok (requests s ! i) (done_count s i) (count_list (ec_queue k) i) (worker_at k i) (if pc_on p = None then None else Some p) (c \<in> set (ec_log k))"
  shows "exec_inv (k\<lparr>ec_sys := s, ec_pc := (ec_pc k)(c := p)\<rparr>)"
proof -
  have "exec_inv (k\<lparr>ec_sys := s, ec_queue := ec_queue k, ec_pc := (ec_pc k)(c := p)\<rparr>)"
    by (rule call_step [OF assms(1-5)]) (use assms exec_invD(2) [OF assms(1)] in auto)
  then show ?thesis by simp
qed

lemma owner_rec:
  assumes "exec_inv k" and "pc_on (ec_pc k c) = Some i"
  shows "i < NET_EXEC_QUEUE_SIZE" "i < length (requests (ec_sys k))"
    "rec_ok (requests (ec_sys k) ! i) (done_count (ec_sys k) i) (count_list (ec_queue k) i) (worker_at k i) (Some (ec_pc k c))
       (c \<in> set (ec_log k))"
  using owner_pcI [OF assms] exec_invD(1) [OF assms(1)] exec_invD(8) [OF assms(1), of i] by (auto simp: sems_ok_def)

lemma send_fails_inv:
  assumes "exec_inv k" and "ec_pc k c = Claimed i" and "is_err e"
  shows "exec_inv (k\<lparr>ec_sys := upd_req i (\<lambda>r. r\<lparr>rq_proc := None\<rparr>) (ec_sys k), ec_pc := (ec_pc k)(c := Returned e)\<rparr>)"
proof -
  have on: "pc_on (ec_pc k c) = Some i" using assms(2) by simp
  note o = owner_rec [OF assms(1) on] upd_req_done [OF exec_invD(1) [OF assms(1)]]
  show ?thesis by (rule call_inv [OF assms(1) on]) (use assms(2,3) o in \<open>simp_all add: rec_ok_simps\<close>)
qed

lemma wakes_up_inv:
  assumes "exec_inv k" and "ec_pc k c = Sent i \<or> ec_pc k c = Forced i" and "wait_done i (ec_sys k) = Some (NET_ERR_OK, s)"
  shows "exec_inv (k\<lparr>ec_sys := s, ec_pc := (ec_pc k)(c := Awake i NET_ERR_OK)\<rparr>)"
proof -
  have on: "pc_on (ec_pc k c) = Some i" using assms(2) by auto
  note o = owner_rec [OF assms(1) on]
  note w = wait_done_elim [OF exec_invD(1) [OF assms(1)] o(1) assms(3)]
  show ?thesis by (rule call_inv [OF assms(1) on]) (use assms(2) o w in \<open>auto simp: rec_ok_simps split: if_splits\<close>)
qed

lemma times_out_inv:
  assumes "exec_inv k" and "ec_pc k c = Sent i" and "is_err e"
  shows "exec_inv (k\<lparr>ec_pc := (ec_pc k)(c := Awake i e)\<rparr>)"
proof -
  have on: "pc_on (ec_pc k c) = Some i" using assms(2) by simp
  have "exec_inv (k\<lparr>ec_sys := ec_sys k, ec_pc := (ec_pc k)(c := Awake i e)\<rparr>)"
    by (rule call_inv [OF assms(1) on]) (use assms(2,3) owner_rec [OF assms(1) on] exec_invD(1) [OF assms(1)] in
      \<open>auto simp: rec_ok_simps split: if_splits\<close>)
  then show ?thesis by simp
qed

lemma waits_on_inv:
  assumes "exec_inv k" and "ec_pc k c = Awake i e" and "is_err e" and "rq_started (requests (ec_sys k) ! i)"
    and "\<not> rq_completed (requests (ec_sys k) ! i)"
  shows "exec_inv (k\<lparr>ec_pc := (ec_pc k)(c := Forced i)\<rparr>)"
proof -
  have on: "pc_on (ec_pc k c) = Some i" using assms(2) by simp
  have "exec_inv (k\<lparr>ec_sys := ec_sys k, ec_pc := (ec_pc k)(c := Forced i)\<rparr>)"
    by (rule call_inv [OF assms(1) on]) (use assms(2-5) owner_rec [OF assms(1) on] exec_invD(1) [OF assms(1)] in
      \<open>auto simp: rec_ok_simps split: if_splits\<close>)
  then show ?thesis by simp
qed

lemma finish_inv:
  assumes "exec_inv k" and "ec_pc k c = Awake i e"
    and "\<not> (is_err e \<and> rq_started (requests (ec_sys k) ! i) \<and> \<not> rq_completed (requests (ec_sys k) ! i))"
    and "exec_finish i e (ec_sys k) = Some (r, s)"
  shows "exec_inv (k\<lparr>ec_sys := s, ec_pc := (ec_pc k)(c := Returned r)\<rparr>)"
proof -
  have on: "pc_on (ec_pc k c) = Some i" using assms(2) by simp
  note o = owner_rec [OF assms(1) on] and sems = exec_invD(1) [OF assms(1)]
  note w = wait_done_ok [OF sems o(1)]
  let ?free = "upd_req i (\<lambda>r. r\<lparr>rq_proc := None\<rparr>)"
  show ?thesis
  proof (cases "rq_completed (requests (ec_sys k) ! i)")
    case True
    then obtain t where t: "(if is_err e then wait_done i (ec_sys k) else Some (NET_ERR_OK, ec_sys k)) = Some (NET_ERR_OK, t)"
        "sems_ok t" "requests t = requests (ec_sys k)" "done_count t i = 0"
        "\<And>j. j < NET_EXEC_QUEUE_SIZE \<Longrightarrow> j \<noteq> i \<Longrightarrow> done_count t j = done_count (ec_sys k) j"
      using o(3) assms(2) w sems o(1) by (cases "is_err e") (auto simp: rec_ok_def)
    have rs: "r = NET_ERR_OK" "s = ?free t" using assms(4) True t(1) by (auto simp: exec_finish_def split: if_splits)
    note u = upd_req_done [OF t(2) o(1), of "\<lambda>r. r\<lparr>rq_proc := None\<rparr>"]
    show ?thesis unfolding rs
      by (rule call_inv [OF assms(1) on]) (use True assms(2) o t u in \<open>simp_all add: rec_ok_simps\<close>)
  next
    case False
    let ?s = "upd_req i (\<lambda>r. r\<lparr>rq_abandoned := True\<rparr>) (ec_sys k)"
    have rs: "r = e" "s = ?s" using assms(4) False by (simp_all add: exec_finish_def)
    note u = upd_req_done [OF sems o(1), of "\<lambda>r. r\<lparr>rq_abandoned := True\<rparr>"]
    show ?thesis unfolding rs
      by (rule call_inv [OF assms(1) on]) (use False assms(2,3) o u in \<open>auto simp: rec_ok_simps split: if_splits\<close>)
  qed
qed

text \<open>The steps of the network task.\<close>

lemma worker_inv:
  assumes "exec_inv k" and "worker_on (ec_worker k) = Some i" and "worker_on w \<in> {None, Some i}" and "sems_ok s"
    and "\<And>j. j < NET_EXEC_QUEUE_SIZE \<Longrightarrow> j \<noteq> i \<Longrightarrow> requests s ! j = requests (ec_sys k) ! j \<and> done_count s j = done_count (ec_sys k) j"
    and "rec_ok (requests s ! i) (done_count s i) (count_list (ec_queue k) i) (if worker_on w = None then W_Idle else w) (owner_pc k i)
      (ec_owner k i \<in> set (ec_log k))"
  shows "exec_inv (k\<lparr>ec_sys := s, ec_worker := w\<rparr>)"
proof -
  have "exec_inv (k\<lparr>ec_sys := s, ec_queue := ec_queue k, ec_worker := w, ec_log := ec_log k\<rparr>)"
    by (rule worker_step [OF assms(1) exec_invD(3) [OF assms(1,2)] _ assms(3,4,5)])
      (use assms exec_invD(2) [OF assms(1)] in auto)
  then show ?thesis by simp
qed

lemma worker_rec:
  assumes "exec_inv k" and "worker_on (ec_worker k) = Some i"
  shows "i < NET_EXEC_QUEUE_SIZE" "i < length (requests (ec_sys k))"
    "rec_ok (requests (ec_sys k) ! i) (done_count (ec_sys k) i) (count_list (ec_queue k) i) (ec_worker k) (owner_pc k i)
       (ec_owner k i \<in> set (ec_log k))"
  using exec_invD(1) [OF assms(1)] exec_invD(3) [OF assms] exec_invD(8) [OF assms(1), of i] assms(2)
  by (auto simp: sems_ok_def worker_at_def)

lemma receive_inv:
  assumes "exec_inv k" and "ec_worker k = W_Idle" and "ec_queue k = i # q"
  shows "exec_inv (k\<lparr>ec_queue := q, ec_worker := W_Got i\<rparr>)"
proof -
  note d = exec_invD [OF assms(1)]
  have i: "i < NET_EXEC_QUEUE_SIZE" using d(2) assms(3) by simp
  have "exec_inv (k\<lparr>ec_sys := ec_sys k, ec_queue := q, ec_worker := W_Got i, ec_log := ec_log k\<rparr>)"
  proof (rule worker_step [OF assms(1) i])
    show "rec_ok (requests (ec_sys k) ! i) (done_count (ec_sys k) i) (count_list q i)
        (if worker_on (W_Got i) = None then W_Idle else W_Got i) (owner_pc k i) (ec_owner k i \<in> set (ec_log k))"
      using d(8) [OF i] assms(2,3) by (auto simp: rec_ok_simps worker_at_def split: option.splits call_pc.splits if_splits)
  qed (use assms d(1,2) in auto)
  then show ?thesis by simp
qed

lemma drop_inv:
  assumes "exec_inv k" and "ec_worker k = W_Got i" and "exec_start i (ec_sys k) = (False, s)"
  shows "exec_inv (k\<lparr>ec_sys := s, ec_worker := W_Idle\<rparr>)"
proof -
  have on: "worker_on (ec_worker k) = Some i" using assms(2) by simp
  note o = worker_rec [OF assms(1) on]
  have s: "s = upd_req i (\<lambda>r. r\<lparr>rq_proc := None\<rparr>) (ec_sys k)" and ab: "rq_abandoned (requests (ec_sys k) ! i)"
    using assms(3) by (auto simp: exec_start_def split: if_splits)
  note u = upd_req_done [OF exec_invD(1) [OF assms(1)] o(1), of "\<lambda>r. r\<lparr>rq_proc := None\<rparr>"]
  show ?thesis unfolding s
    by (rule worker_inv [OF assms(1) on])
      (use assms(2) o u ab in \<open>auto simp: rec_ok_simps split: option.splits if_splits\<close>)
qed

lemma start_inv:
  assumes "exec_inv k" and "ec_worker k = W_Got i" and "exec_start i (ec_sys k) = (True, s)"
  shows "exec_inv (k\<lparr>ec_sys := s, ec_worker := W_Run i\<rparr>)"
proof -
  have on: "worker_on (ec_worker k) = Some i" using assms(2) by simp
  note o = worker_rec [OF assms(1) on]
  have s: "s = upd_req i (\<lambda>r. r\<lparr>rq_started := True\<rparr>) (ec_sys k)" and ab: "\<not> rq_abandoned (requests (ec_sys k) ! i)"
    using assms(3) by (auto simp: exec_start_def split: if_splits)
  note u = upd_req_done [OF exec_invD(1) [OF assms(1)] o(1), of "\<lambda>r. r\<lparr>rq_started := True\<rparr>"]
  show ?thesis unfolding s
    by (rule worker_inv [OF assms(1) on])
      (use assms(2) o u ab in \<open>auto simp: rec_ok_simps split: option.splits if_splits call_pc.splits\<close>)
qed

text \<open>While the network task runs a procedure, the call that asked for it waits.\<close>

lemma running_waits:
  assumes "exec_inv k" and "ec_worker k = W_Run i \<or> ec_worker k = W_Ran i"
  shows "pc_on (ec_pc k (ec_owner k i)) = Some i" "\<not> rq_abandoned (requests (ec_sys k) ! i)" "rq_proc (requests (ec_sys k) ! i) \<noteq> None"
    "ec_owner k i \<in> set (ec_log k) \<longleftrightarrow> ec_worker k = W_Ran i" "done_count (ec_sys k) i = 0"
    "rq_started (requests (ec_sys k) ! i)" "\<not> rq_completed (requests (ec_sys k) ! i)"
proof -
  have on: "worker_on (ec_worker k) = Some i" using assms(2) by auto
  note o = worker_rec(3) [OF assms(1) on]
  obtain pc where pc: "owner_pc k i = Some pc" using o assms(2) by (auto simp: rec_ok_simps split: option.splits if_splits)
  then show "pc_on (ec_pc k (ec_owner k i)) = Some i" by (simp add: owner_pc_def split: if_splits)
  show "\<not> rq_abandoned (requests (ec_sys k) ! i)" "rq_proc (requests (ec_sys k) ! i) \<noteq> None"
    "ec_owner k i \<in> set (ec_log k) \<longleftrightarrow> ec_worker k = W_Ran i" "done_count (ec_sys k) i = 0"
    "rq_started (requests (ec_sys k) ! i)" "\<not> rq_completed (requests (ec_sys k) ! i)"
    using o pc assms(2) by (cases pc; auto simp: rec_ok_simps split: if_splits)+
qed

lemma run_inv:
  assumes "exec_inv k" and "ec_worker k = W_Run i"
  shows "exec_inv (k\<lparr>ec_worker := W_Ran i, ec_log := ec_log k @ [ec_owner k i]\<rparr>)"
proof -
  have on: "worker_on (ec_worker k) = Some i" using assms(2) by simp
  note o = worker_rec [OF assms(1) on] and r = running_waits [OF assms(1) disjI1 [OF assms(2)]]
  have "exec_inv (k\<lparr>ec_sys := ec_sys k, ec_queue := ec_queue k, ec_worker := W_Ran i, ec_log := ec_log k @ [ec_owner k i]\<rparr>)"
    by (rule worker_step [OF assms(1) o(1)])
      (use assms(2) o(3) r exec_invD(1,2) [OF assms(1)] in \<open>auto simp: rec_ok_simps split: option.splits call_pc.splits\<close>)
  then show ?thesis by simp
qed

lemma complete_inv:
  assumes "exec_inv k" and "ec_worker k = W_Ran i"
  shows "exec_inv (k\<lparr>ec_sys := exec_complete i (ec_sys k), ec_worker := W_Idle\<rparr>)"
proof -
  have on: "worker_on (ec_worker k) = Some i" using assms(2) by simp
  note o = worker_rec [OF assms(1) on] and r = running_waits [OF assms(1) disjI2 [OF assms(2)]]
  let ?t = "upd_req i (\<lambda>r. r\<lparr>rq_completed := True\<rparr>) (ec_sys k)"
  have e: "exec_complete i (ec_sys k) = sys_sem_notify (rq_done (requests ?t ! i)) ?t"
    using r(2) o(2) by (simp add: exec_complete_def)
  note u = upd_req_done [OF exec_invD(1) [OF assms(1)] o(1), of "\<lambda>r. r\<lparr>rq_completed := True\<rparr>"]
  have n: "sems_ok (exec_complete i (ec_sys k))" "requests (exec_complete i (ec_sys k)) = requests ?t"
    "\<And>j. j < NET_EXEC_QUEUE_SIZE \<Longrightarrow> done_count (exec_complete i (ec_sys k)) j = (if j = i then 1 else done_count (ec_sys k) j)"
    unfolding e using notify_done_ok [OF u(1) o(1)] u(2) r(5) by (simp_all add: INT_MAX_def)
  have "rec_ok (requests ?t ! i) 1 (count_list (ec_queue k) i) W_Idle (owner_pc k i) (ec_owner k i \<in> set (ec_log k))"
    using o(2,3) r assms(2) by (auto simp: rec_ok_simps split: option.splits call_pc.splits)
  then show ?thesis
    by (intro worker_inv [OF assms(1) on]) (use o(1,2) n in simp_all)
qed

lemma return_inv:
  assumes "exec_inv k" and "ec_pc k c = New" and "is_err e"
  shows "exec_inv (k\<lparr>ec_pc := (ec_pc k)(c := Returned e)\<rparr>)"
proof -
  let ?k = "k\<lparr>ec_pc := (ec_pc k)(c := Returned e)\<rparr>"
  note d = exec_invD [OF assms(1)]
  have "owner_pc ?k i = owner_pc k i" "worker_at ?k i = worker_at k i" for i
    using assms(2) by (simp_all add: owner_pc_def worker_at_def)
  then have "\<forall>i<NET_EXEC_QUEUE_SIZE. rec_ok (requests (ec_sys ?k) ! i) (done_count (ec_sys ?k) i) (count_list (ec_queue ?k) i)
      (worker_at ?k i) (owner_pc ?k i) (ec_owner ?k i \<in> set (ec_log ?k))"
    using d(8) by simp
  moreover have "pc_on (ec_pc ?k b) = Some i \<Longrightarrow> i < NET_EXEC_QUEUE_SIZE \<and> ec_owner ?k i = b" for b i
    using d(4) [of b i] by (simp split: if_splits)
  moreover have "ec_pc ?k b = New \<Longrightarrow> b \<notin> set (ec_log ?k)" for b using d(6) [of b] by (simp split: if_splits)
  moreover have "ec_pc ?k b = Returned r \<Longrightarrow> (b \<in> set (ec_log ?k) \<longleftrightarrow> r = NET_ERR_OK)" for b r
    using d(6) [OF assms(2)] d(7) [of b r] assms(3) by (simp split: if_splits)
  ultimately show ?thesis unfolding exec_inv_def using d(1,2,3,5) by simp
qed

lemma full_inv:
  assumes "exec_inv k" and "ec_pc k c = New" and "exec_claim f arg (ec_sys k) = (None, s)"
  shows "exec_inv (k\<lparr>ec_sys := s, ec_pc := (ec_pc k)(c := Returned NET_ERR_FULL)\<rparr>)"
proof -
  have "s = ec_sys k" using assms(3) by (auto simp: exec_claim_def split: option.splits)
  then show ?thesis using return_inv [OF assms(1,2), of NET_ERR_FULL] by simp
qed

lemma other_inv:
  assumes "exec_inv k" and "requests s = requests (ec_sys k)" and "sems_ok s"
    and "\<forall>i<NET_EXEC_QUEUE_SIZE. done_count s i = done_count (ec_sys k) i"
  shows "exec_inv (k\<lparr>ec_sys := s\<rparr>)"
proof -
  have "owner_pc (k\<lparr>ec_sys := s\<rparr>) i = owner_pc k i" "worker_at (k\<lparr>ec_sys := s\<rparr>) i = worker_at k i" for i
    by (simp_all add: owner_pc_def worker_at_def)
  with assms show ?thesis by (simp add: exec_inv_def)
qed

lemma exec_step_inv: "exec_step k k' \<Longrightarrow> exec_inv k \<Longrightarrow> exec_inv k'"
proof (induction rule: exec_step.induct)
  case (reject k c)
  then show ?case by (intro return_inv) simp_all
qed (rule other_inv full_inv claim_inv send_inv send_fails_inv wakes_up_inv times_out_inv waits_on_inv finish_inv receive_inv
  drop_inv start_inv run_inv complete_inv; blast)+

lemma exec_steps_inv: "exec_step\<^sup>*\<^sup>* k k' \<Longrightarrow> exec_inv k \<Longrightarrow> exec_inv k'"
  by (induction rule: rtranclp_induct) (auto intro: exec_step_inv)


section \<open>Initialisation\<close>

text \<open>The records \<open>D\<close> have been given their semaphores.\<close>

definition sems_given :: "nat set \<Rightarrow> stack_state \<Rightarrow> bool" where
  "sems_given D s \<longleftrightarrow> sem_inv s \<and> length (requests s) = NET_EXEC_QUEUE_SIZE \<and> inj_on (done_of s) D \<and>
     (\<forall>i\<in>D. rq_proc (requests s ! i) = None \<and> rq_done (requests s ! i) \<noteq> None \<and> sys_sem_valid (rq_done (requests s ! i)) s \<and> done_count s i = 0)"

lemma sems_given_insert:
  assumes "sems_given D s" and "i < NET_EXEC_QUEUE_SIZE" and "i \<notin> D" and "sys_sem_create 0 s = (Some m, t)"
  shows "sems_given (insert i D) (upd_req i (\<lambda>r. r\<lparr>rq_proc := None, rq_done := Some m\<rparr>) t)"
proof -
  have inv: "sem_inv s" and len: "length (requests s) = NET_EXEC_QUEUE_SIZE" using assms(1) by (simp_all add: sems_given_def)
  note c = sys_sem_create_Some [OF inv _ assms(4)]
  let ?t = "upd_req i (\<lambda>r. r\<lparr>rq_proc := None, rq_done := Some m\<rparr>) t"
  have t: "m < NET_SYS_SEM_MAX" "\<not> sem_used (sem_of s m)" "sem_inv t"
      "t = upd_sem m (\<lambda>_. \<lparr>sem_count = 0, sem_waiters = 0, sem_used = True\<rparr>) s"
    using c by (simp_all add: INT_MAX_def)
  have req: "requests t = requests s" by (simp add: t(4) upd_sem_def)
  have d: "done_of ?t j = (if j = i then m else done_of s j)" for j using assms(2) len by (simp add: done_of_def req)
  have used: "done_of s j \<noteq> m" if "j \<in> D" for j
    using assms(1) that t(2) by (auto simp: sems_given_def done_of_def sys_sem_valid_Some)
  have sem: "sem_of t n = (if n = m then \<lparr>sem_count = 0, sem_waiters = 0, sem_used = True\<rparr> else sem_of s n)" for n
    using t(1) inv by (simp add: t(4))
  have "sem_inv ?t" using t(3) by (simp add: sem_inv_def)
  moreover have "inj_on (done_of ?t) (insert i D)"
    using assms(1,3) used by (auto simp: sems_given_def d inj_on_def)
  moreover have "done_count ?t j = 0" if "j \<in> insert i D" for j
    using assms(1,3) that used [of j] unfolding done_count_def d by (auto simp: sem sems_given_def done_count_def)
  moreover have "rq_proc (requests ?t ! j) = None \<and> rq_done (requests ?t ! j) \<noteq> None \<and> sys_sem_valid (rq_done (requests ?t ! j)) ?t"
    if j: "j \<in> insert i D" for j
  proof (cases "j = i")
    case True
    then show ?thesis using assms(2) len t(1) by (simp add: req sys_sem_valid_Some sem)
  next
    case False
    with j have "j \<in> D" by simp
    then show ?thesis
      using assms(1,2) False len used by (auto simp: sems_given_def req sys_sem_valid_Some sem done_of_def)
  qed
  ultimately show ?thesis using len by (simp add: sems_given_def req)
qed

lemma sems_given_initialized [simp]: "sems_given D (s\<lparr>exec_initialized := b\<rparr>) = sems_given D s"
proof -
  have "done_of (s\<lparr>exec_initialized := b\<rparr>) = done_of s" "done_count (s\<lparr>exec_initialized := b\<rparr>) = done_count s"
    by (simp_all add: done_of_def done_count_def fun_eq_iff)
  then show ?thesis by (simp add: sems_given_def sem_inv_def sys_sem_valid_def)
qed

lemma net_exec_init_loop_given:
  "net_exec_init_loop is s = (NET_ERR_OK, s') \<Longrightarrow> sems_given D s \<Longrightarrow> distinct is \<Longrightarrow> set is \<inter> D = {} \<Longrightarrow>
   set is \<subseteq> {..<NET_EXEC_QUEUE_SIZE} \<Longrightarrow> sems_given (D \<union> set is) s'"
proof (induction "is" arbitrary: D s)
  case (Cons i "is")
  obtain m t where m: "sys_sem_create 0 s = (Some m, t)"
    using Cons.prems(1) by (cases "sys_sem_create 0 s") (auto simp: Let_def split: if_splits)
  let ?t = "upd_req i (\<lambda>r. r\<lparr>rq_proc := None, rq_done := Some m\<rparr>) t"
  have "net_exec_init_loop is ?t = (NET_ERR_OK, s')" using Cons.prems(1) m by (simp add: Let_def)
  moreover have "sems_given (insert i D) ?t"
    using Cons.prems(2-5) by (intro sems_given_insert [OF _ _ _ m]) simp_all
  ultimately have "sems_given (insert i D \<union> set is) s'"
    using Cons.prems(3-5) by (intro Cons.IH [of ?t "insert i D"]) simp_all
  then show ?case by simp
qed auto

lemma fixq_init_sem_inv:
  assumes "fixq_init (Some q) (Some bf) n type s = (NET_ERR_OK, s')" and "sem_inv s" and "n \<le> INT_MAX"
  shows "sem_inv s'" "requests s' = requests (s :: stack_state)"
proof -
  let ?s = "upd_fixq q (\<lambda>_. \<lparr>fq_size = nat n, fq_buf = bf, fq_in = 0, fq_out = 0, fq_count = 0, fq_send_sem = None,
    fq_recv_sem = None, fq_locker_type = type\<rparr>) s"
  obtain m t where m: "sys_sem_create n ?s = (Some m, t)"
    using assms(1) by (cases "sys_sem_create n ?s") (auto simp: fixq_init_def Let_def split: if_splits)
  let ?t = "upd_fixq q (\<lambda>k. k\<lparr>fq_send_sem := Some m\<rparr>) t"
  obtain m' t' where m': "sys_sem_create 0 ?t = (Some m', t')"
    using assms(1) m by (cases "sys_sem_create 0 ?t") (auto simp: fixq_init_def Let_def split: if_splits)
  have s': "s' = upd_fixq q (\<lambda>k. k\<lparr>fq_recv_sem := Some m'\<rparr>) t'"
    using assms(1) m m' by (simp add: fixq_init_def Let_def split: if_splits)
  have inv: "sem_inv ?s" using assms(2) by (simp add: sem_inv_def upd_fixq_def)
  note c = sys_sem_create_Some [OF inv assms(3) m]
  have inv': "sem_inv ?t" using c(4) by (simp add: sem_inv_def upd_fixq_def)
  note c' = sys_sem_create_Some [OF inv' _ m']
  have c': "sem_inv t'" "t' = upd_sem m' (\<lambda>_. \<lparr>sem_count = 0, sem_waiters = 0, sem_used = True\<rparr>) ?t"
    using c' by (simp_all add: INT_MAX_def)
  show "sem_inv s'" using c'(1) by (simp add: s' sem_inv_def upd_fixq_def)
  show "requests s' = requests s" by (simp add: s' c'(2) c(3) upd_fixq_def upd_sem_def)
qed

lemma net_exec_init_inv:
  assumes "net_exec_init s = (NET_ERR_OK, s')" and "sem_inv s" and "length (requests s) = NET_EXEC_QUEUE_SIZE"
  shows "exec_inv (exec_conf_init s')"
proof -
  obtain t where t: "fixq_init (Some REQUEST_Q) (Some (replicate NET_EXEC_QUEUE_SIZE 0)) (int NET_EXEC_QUEUE_SIZE) NLOCKER_THREAD s = (NET_ERR_OK, t)"
      "net_exec_init_loop [0..<NET_EXEC_QUEUE_SIZE] t = (NET_ERR_OK, s')"
    using assms(1) by (auto simp: net_exec_init_def split: if_splits prod.splits)
  have "sems_given {} t"
    using fixq_init_sem_inv [OF t(1) assms(2)] assms(3) by (simp add: sems_given_def NET_EXEC_QUEUE_SIZE_def INT_MAX_def)
  from net_exec_init_loop_given [OF t(2) this] have "sems_given {..<NET_EXEC_QUEUE_SIZE} s'" by (simp add: atLeast0LessThan)
  then show ?thesis
    by (auto simp: exec_inv_def exec_conf_init_def sems_given_def sems_ok_def worker_at_def owner_pc_def rec_ok_def)
qed


section \<open>The property\<close>

text \<open>C32. In every interleaving of calls of \<^verbatim>\<open>net_exec_submit\<close> with the network task: a procedure is run at most once for each
  call, and only while its call has not returned, so that its argument is still there; a call that returns success has had
  its procedure run, and one that returns an error has not and will not; a record whose procedure is about to be called
  holds a procedure.\<close>

theorem net_exec_safe:
  assumes "net_exec_init s = (NET_ERR_OK, s')" and "sem_inv s" and "length (requests s) = NET_EXEC_QUEUE_SIZE"
    and "exec_step\<^sup>*\<^sup>* (exec_conf_init s') k"
  shows "distinct (ec_log k) \<and> (\<forall>c e. ec_pc k c = Returned e \<longrightarrow> (c \<in> set (ec_log k) \<longleftrightarrow> e = NET_ERR_OK)) \<and>
    (\<forall>i. ec_worker k = W_Run i \<or> ec_worker k = W_Ran i \<longrightarrow>
      pc_on (ec_pc k (ec_owner k i)) = Some i \<and> rq_proc (requests (ec_sys k) ! i) \<noteq> None)"
proof -
  have inv: "exec_inv k" using exec_steps_inv [OF assms(4)] net_exec_init_inv [OF assms(1-3)] by blast
  then show ?thesis using exec_invD(5,7) [OF inv] running_waits(1,3) [OF inv] by blast
qed

text \<open>One call, from its start to its return.\<close>

definition booted :: stack_state where "booted = snd (net_exec_init boot)"

lemma booted_init: "net_exec_init boot = (NET_ERR_OK, booted)"
proof -
  have "fst (net_exec_init boot) = NET_ERR_OK" by code_simp
  then show ?thesis by (simp add: booted_def prod_eq_iff)
qed

lemma booted_inv: "exec_inv (exec_conf_init booted)"
  by (rule net_exec_init_inv [OF booted_init]) (simp_all add: boot_def sem_inv_def NET_SYS_SEM_MAX_def INT_MAX_def NET_EXEC_QUEUE_SIZE_def)

lemma one_call:
  "\<exists>k. exec_step\<^sup>*\<^sup>* (exec_conf_init booted) k \<and> ec_pc k 0 = Sent 0 \<and> ec_worker k = W_Idle \<and> ec_queue k = [] \<and> ec_log k = [0]"
proof -
  let ?k0 = "exec_conf_init booted" and ?q = NET_EXEC_QUEUE_SIZE
  have q: "0 < ?q" by (simp add: NET_EXEC_QUEUE_SIZE_def)
  have "rq_proc (requests booted ! 0) = None" "length (requests booted) = ?q"
    using exec_invD(8) [OF booted_inv q] exec_invD(1) [OF booted_inv]
    by (auto simp: exec_conf_init_def rec_ok_simps owner_pc_def worker_at_def sems_ok_def split: if_splits)
  then have "find_index (\<lambda>r. rq_proc r = None) (requests booted) = Some 0" using q by (simp add: find_index_Some)
  then obtain s1 where s1: "exec_claim 2 None booted = (Some 0, s1)" by (simp add: exec_claim_def)
  define k1 where "k1 = ?k0\<lparr>ec_sys := s1, ec_pc := (ec_pc ?k0)(0 := Claimed 0), ec_owner := (ec_owner ?k0)(0 := 0)\<rparr>"
  define k2 where "k2 = k1\<lparr>ec_queue := ec_queue k1 @ [0], ec_pc := (ec_pc k1)(0 := Sent 0)\<rparr>"
  define k3 where "k3 = k2\<lparr>ec_queue := [], ec_worker := W_Got 0\<rparr>"
  have "exec_step ?k0 k1" unfolding k1_def by (rule claim [of _ _ 2 None]) (simp_all add: exec_conf_init_def s1)
  moreover have "exec_step k1 k2" unfolding k2_def by (rule send) (simp add: k1_def)
  moreover have "exec_step k2 k3" unfolding k3_def by (rule receive) (simp_all add: k2_def k1_def exec_conf_init_def)
  ultimately have k3: "exec_step\<^sup>*\<^sup>* ?k0 k3" by (meson rtranclp.rtrancl_refl rtranclp.rtrancl_into_rtrancl)
  have f3: "ec_pc k3 0 = Sent 0" "ec_owner k3 0 = 0" "ec_log k3 = []" "ec_worker k3 = W_Got 0" "ec_queue k3 = []"
    by (simp_all add: k3_def k2_def k1_def exec_conf_init_def)
  have "\<not> rq_abandoned (requests (ec_sys k3) ! 0)"
    using owner_rec(3) [OF exec_steps_inv [OF k3 booted_inv], of 0 0] f3(1) by (simp add: rec_ok_def)
  then obtain s4 where s4: "exec_start 0 (ec_sys k3) = (True, s4)" by (simp add: exec_start_def)
  define k4 where "k4 = k3\<lparr>ec_sys := s4, ec_worker := W_Run 0\<rparr>"
  define k5 where "k5 = k4\<lparr>ec_worker := W_Ran 0, ec_log := ec_log k4 @ [ec_owner k4 0]\<rparr>"
  define k6 where "k6 = k5\<lparr>ec_sys := exec_complete 0 (ec_sys k5), ec_worker := W_Idle\<rparr>"
  have "exec_step k3 k4" unfolding k4_def by (rule start [OF f3(4) s4])
  moreover have "exec_step k4 k5" unfolding k5_def by (rule run) (simp add: k4_def)
  moreover have "exec_step k5 k6" unfolding k6_def by (rule complete) (simp add: k5_def)
  ultimately have "exec_step\<^sup>*\<^sup>* ?k0 k6" using k3 by (meson rtranclp.rtrancl_into_rtrancl)
  then show ?thesis using f3 by (intro exI [of _ k6]) (simp add: k6_def k5_def k4_def)
qed

theorem net_exec_safe_witness:
  "\<exists>k. exec_step\<^sup>*\<^sup>* (exec_conf_init booted) k \<and> ec_pc k 0 = Returned NET_ERR_OK \<and> distinct (ec_log k) \<and> 0 \<in> set (ec_log k)"
proof -
  have pre: "sem_inv boot" "length (requests boot) = NET_EXEC_QUEUE_SIZE"
    by (simp_all add: boot_def sem_inv_def NET_SYS_SEM_MAX_def INT_MAX_def NET_EXEC_QUEUE_SIZE_def)
  obtain k where k: "exec_step\<^sup>*\<^sup>* (exec_conf_init booted) k" "ec_pc k 0 = Sent 0" "ec_worker k = W_Idle" "ec_queue k = []"
    using one_call by blast
  have inv: "exec_inv k" by (rule exec_steps_inv [OF k(1) booted_inv])
  note o = owner_rec [OF inv, of 0 0]
  have fin: "0 < done_count (ec_sys k) 0" "rq_completed (requests (ec_sys k) ! 0)"
    using o k by (auto simp: rec_ok_simps worker_at_def split: if_splits)
  then obtain s where s: "wait_done 0 (ec_sys k) = Some (NET_ERR_OK, s)" "requests s = requests (ec_sys k)"
    using wait_done_ok [OF exec_invD(1) [OF inv], of 0] o(1) k(2) by auto
  let ?k = "k\<lparr>ec_sys := s, ec_pc := (ec_pc k)(0 := Awake 0 NET_ERR_OK)\<rparr>"
  obtain t where t: "exec_finish 0 NET_ERR_OK s = Some (NET_ERR_OK, t)" using fin(2) s(2) by (simp add: exec_finish_def)
  let ?k' = "?k\<lparr>ec_sys := t, ec_pc := (ec_pc ?k)(0 := Returned NET_ERR_OK)\<rparr>"
  have "exec_step k ?k" by (rule wakes_up [OF k(2) s(1)])
  moreover have "exec_step ?k ?k'" by (rule finish [of _ _ 0 NET_ERR_OK]) (use t in simp_all)
  ultimately have "exec_step\<^sup>*\<^sup>* (exec_conf_init booted) ?k'" using k(1) by (meson rtranclp.rtrancl_into_rtrancl)
  with net_exec_safe [OF booted_init pre this] show ?thesis by (intro exI [of _ ?k']) simp
qed

end
