(* ===== verification/Cpu.thy ===== *)
theory Cpu
  imports Net_Prelude
begin

text \<open>
  The harts, \<^verbatim>\<open>kernel/src/cpu.c\<close>, and the spin locks, \<^verbatim>\<open>kernel/src/spinlock.c\<close>. \<open>self\<close> is the hart that runs the code
  (\<^verbatim>\<open>cpu_this\<close> reads its address from the register \<^verbatim>\<open>tp\<close>); \<open>hart_sie\<close> is the interrupt enable bit of each hart. A lock is
  named by its address; spinning is a step that does not happen until the lock is free, so that \<open>spin_lock\<close> has no result while
  another hart has the lock, and \<open>None\<close> is a panic.
\<close>

record cpu =
  cpu_hartid :: u64
  cpu_present :: bool
  cpu_started :: bool
  cpu_online :: bool
  cpu_noff :: int
  cpu_intena :: bool
  cpu_proc :: "nat option"
  cpu_idle :: bool
  cpu_need_resched :: bool
  cpu_timer_ticks :: u64
  cpu_timer_deadline :: u64

record spinlock =
  lk_locked :: bool
  lk_owner :: "nat option"

record cpu_state =
  cpus :: "cpu list"
  hart_sie :: "nat \<Rightarrow> bool"
  locks :: "nat \<Rightarrow> spinlock"

definition MAX_CPUS :: nat where "MAX_CPUS = 7"

definition upd_cpu :: "nat \<Rightarrow> (cpu \<Rightarrow> cpu) \<Rightarrow> 'a cpu_state_scheme \<Rightarrow> 'a cpu_state_scheme" where
  "upd_cpu i f s = s\<lparr>cpus := (cpus s)[i := f (cpus s ! i)]\<rparr>"

definition set_sie :: "nat \<Rightarrow> bool \<Rightarrow> 'a cpu_state_scheme \<Rightarrow> 'a cpu_state_scheme" where
  "set_sie self b s = s\<lparr>hart_sie := (hart_sie s)(self := b)\<rparr>"


section \<open>Harts\<close>

definition cpu_zero :: cpu where
  "cpu_zero = \<lparr>cpu_hartid = 0, cpu_present = False, cpu_started = False, cpu_online = False, cpu_noff = 0, cpu_intena = False,
     cpu_proc = None, cpu_idle = False, cpu_need_resched = False, cpu_timer_ticks = 0, cpu_timer_deadline = 0\<rparr>"

definition cpu_bind :: "u64 \<Rightarrow> 'a cpu_state_scheme \<Rightarrow> 'a cpu_state_scheme option" where
  "cpu_bind hartid s =
     (if unat hartid \<ge> MAX_CPUS then None else Some (upd_cpu (unat hartid) (\<lambda>c. c\<lparr>cpu_hartid := hartid\<rparr>) s))"

text \<open>The loop over the nodes of the device tree that describe enabled harts; \<open>regs\<close> are their hart numbers, \<open>None\<close> where the
  property is missing or too short.\<close>

fun cpu_discover_loop :: "u64 option list \<Rightarrow> nat \<Rightarrow> 'a cpu_state_scheme \<Rightarrow> (nat \<times> 'a cpu_state_scheme) option" where
  "cpu_discover_loop [] present_cpus s = Some (present_cpus, s)"
| "cpu_discover_loop (None # regs) present_cpus s = None"
| "cpu_discover_loop (Some hartid # regs) present_cpus s =
     (if unat hartid \<ge> MAX_CPUS then None
      else if cpu_present (cpus s ! unat hartid) then None
      else cpu_discover_loop regs (present_cpus + 1)
             (upd_cpu (unat hartid) (\<lambda>c. c\<lparr>cpu_hartid := hartid, cpu_present := True\<rparr>) s))"

definition cpu_discover :: "u64 option list \<Rightarrow> u64 \<Rightarrow> 'a cpu_state_scheme \<Rightarrow> (nat \<times> 'a cpu_state_scheme) option" where
  "cpu_discover regs boot_hartid s = do {
     (present_cpus, s) \<leftarrow> cpu_discover_loop regs 0 (s\<lparr>cpus := replicate MAX_CPUS cpu_zero\<rparr>);
     if present_cpus = 0 \<or> unat boot_hartid \<ge> MAX_CPUS \<or> \<not> cpu_present (cpus s ! unat boot_hartid) then None
     else do { s \<leftarrow> cpu_bind boot_hartid s; Some (present_cpus, s) }
   }"

definition cpu_publish_online :: "nat \<Rightarrow> 'a cpu_state_scheme \<Rightarrow> 'a cpu_state_scheme" where
  "cpu_publish_online self s = upd_cpu self (\<lambda>c. c\<lparr>cpu_started := True, cpu_online := True\<rparr>) s"


section \<open>Spin locks\<close>

definition push_off :: "nat \<Rightarrow> 'a cpu_state_scheme \<Rightarrow> 'a cpu_state_scheme" where
  "push_off self s =
     (let enabled = hart_sie s self;
          s = set_sie self False s;
          s = (if cpu_noff (cpus s ! self) = 0 then upd_cpu self (\<lambda>c. c\<lparr>cpu_intena := enabled\<rparr>) s else s)
      in upd_cpu self (\<lambda>c. c\<lparr>cpu_noff := cpu_noff c + 1\<rparr>) s)"

definition pop_off :: "nat \<Rightarrow> 'a cpu_state_scheme \<Rightarrow> 'a cpu_state_scheme option" where
  "pop_off self s =
     (if hart_sie s self \<or> cpu_noff (cpus s ! self) < 1 then None
      else
        let s = upd_cpu self (\<lambda>c. c\<lparr>cpu_noff := cpu_noff c - 1\<rparr>) s
        in Some (if cpu_noff (cpus s ! self) = 0 \<and> cpu_intena (cpus s ! self) then set_sie self True s else s))"

definition spin_init :: "nat \<Rightarrow> 'a cpu_state_scheme \<Rightarrow> 'a cpu_state_scheme" where
  "spin_init l s = s\<lparr>locks := (locks s)(l := \<lparr>lk_locked = False, lk_owner = None\<rparr>)\<rparr>"

definition spin_holding :: "nat \<Rightarrow> nat \<Rightarrow> 'a cpu_state_scheme \<Rightarrow> bool" where
  "spin_holding self l s \<longleftrightarrow> lk_locked (locks s l) \<and> lk_owner (locks s l) = Some self"

text \<open>The two halves of \<^verbatim>\<open>spin_lock\<close>: what precedes the loop, and the exchange that finds the lock free together with the
  store of the owner.\<close>

definition spin_enter :: "nat \<Rightarrow> nat \<Rightarrow> 'a cpu_state_scheme \<Rightarrow> 'a cpu_state_scheme option" where
  "spin_enter self l s = (let s = push_off self s in if spin_holding self l s then None else Some s)"

definition spin_take :: "nat \<Rightarrow> nat \<Rightarrow> 'a cpu_state_scheme \<Rightarrow> 'a cpu_state_scheme option" where
  "spin_take self l s =
     (if lk_locked (locks s l) then None
      else Some (s\<lparr>locks := (locks s)(l := \<lparr>lk_locked = True, lk_owner = Some self\<rparr>)\<rparr>))"

definition spin_unlock :: "nat \<Rightarrow> nat \<Rightarrow> 'a cpu_state_scheme \<Rightarrow> 'a cpu_state_scheme option" where
  "spin_unlock self l s =
     (if \<not> spin_holding self l s then None
      else pop_off self (s\<lparr>locks := (locks s)(l := \<lparr>lk_locked = False, lk_owner = None\<rparr>)\<rparr>))"


section \<open>Timer ticks\<close>

text \<open>\<^verbatim>\<open>kernel/src/timer.c\<close>; the deadline is also given to the firmware.\<close>

definition set_next_trigger :: "nat \<Rightarrow> u64 \<Rightarrow> 'a cpu_state_scheme \<Rightarrow> 'a cpu_state_scheme" where
  "set_next_trigger self now s = upd_cpu self (\<lambda>c. c\<lparr>cpu_timer_deadline := now + 100000\<rparr>) s"

definition timer_init_cpu :: "nat \<Rightarrow> u64 \<Rightarrow> 'a cpu_state_scheme \<Rightarrow> 'a cpu_state_scheme" where
  "timer_init_cpu self now s =
     set_sie self True (set_next_trigger self now
       (upd_cpu self (\<lambda>c. c\<lparr>cpu_timer_ticks := 0, cpu_timer_deadline := 0, cpu_need_resched := False\<rparr>) s))"

definition timer_tick :: "nat \<Rightarrow> u64 \<Rightarrow> 'a cpu_state_scheme \<Rightarrow> 'a cpu_state_scheme" where
  "timer_tick self now s =
     upd_cpu self (\<lambda>c. c\<lparr>cpu_need_resched := True\<rparr>)
       (set_next_trigger self now (upd_cpu self (\<lambda>c. c\<lparr>cpu_timer_ticks := cpu_timer_ticks c + 1\<rparr>) s))"

definition cpu_take_resched :: "nat \<Rightarrow> 'a cpu_state_scheme \<Rightarrow> bool \<times> 'a cpu_state_scheme" where
  "cpu_take_resched self s = (cpu_need_resched (cpus s ! self), upd_cpu self (\<lambda>c. c\<lparr>cpu_need_resched := False\<rparr>) s)"

end
