(* ===== verification/Address.thy ===== *)
theory Address
  imports Cpu
begin

text \<open>
  Physical frames and page tables, \<^verbatim>\<open>kernel/src/address.c\<close>. Physical memory is a function from the number of a page and the
  number of a 64-bit word in it to the word; everything in the file reads and writes whole pages or single entries of page
  tables. The free frames are linked through their first words, as in the code. An address or a page number is a structure
  with one member and modelled by that member. \<open>None\<close> is a panic, a failed assertion, or an access outside
  \<^verbatim>\<open>free_map\<close>; the lock of the allocator makes its operations atomic.
\<close>

unbundle bit_operations_syntax

section \<open>Addresses\<close>

type_synonym phys_addr = u64
type_synonym virt_addr = u64
type_synonym phys_page_num = u64
type_synonym virt_page_num = u64
type_synonym page_table_entry = u64

definition PAGE_SIZE :: u64 where "PAGE_SIZE = 0x1000"
definition KERNBASE :: u64 where "KERNBASE = 0x80200000"
definition PHYSTOP :: u64 where "PHYSTOP = 0x88200000"
definition MAXVA :: u64 where "MAXVA = 0x4000000000"
definition TRAMPOLINE :: u64 where "TRAMPOLINE = MAXVA - PAGE_SIZE"
definition TRAPFRAME :: u64 where "TRAPFRAME = TRAMPOLINE - PAGE_SIZE"
definition PTE_V :: u8 where "PTE_V = 1"
definition PTE_R :: u8 where "PTE_R = 2"
definition PTE_W :: u8 where "PTE_W = 4"
definition PTE_X :: u8 where "PTE_X = 8"
definition PTE_U :: u8 where "PTE_U = 16"

definition phys_addr_from_size_t :: "u64 \<Rightarrow> phys_addr" where "phys_addr_from_size_t v = v AND mask 56"

definition phys_page_num_from_size_t :: "u64 \<Rightarrow> phys_page_num" where "phys_page_num_from_size_t v = v AND mask 44"

definition phys_addr_from_phys_page_num :: "phys_page_num \<Rightarrow> phys_addr" where
  "phys_addr_from_phys_page_num ppn = push_bit 12 ppn"

definition virt_addr_from_size_t :: "u64 \<Rightarrow> virt_addr" where "virt_addr_from_size_t v = v AND mask 39"

definition virt_page_num_from_size_t :: "u64 \<Rightarrow> virt_page_num" where "virt_page_num_from_size_t v = v AND mask 27"

definition size_t_from_virt_addr :: "virt_addr \<Rightarrow> u64" where
  "size_t_from_virt_addr v = (if v \<ge> 0x4000000000 then v OR NOT (mask 39) else v)"

definition floor_phys :: "phys_addr \<Rightarrow> phys_page_num" where "floor_phys pa = pa div PAGE_SIZE"

definition ceil_phys :: "phys_addr \<Rightarrow> phys_page_num" where "ceil_phys pa = (pa + PAGE_SIZE - 1) div PAGE_SIZE"

definition floor_virts :: "virt_addr \<Rightarrow> virt_page_num" where "floor_virts va = va div PAGE_SIZE"

definition virt_page_num_from_virt_addr :: "virt_addr \<Rightarrow> virt_page_num" where
  "virt_page_num_from_virt_addr va = va div PAGE_SIZE"


section \<open>Page table entries\<close>

definition PageTableEntry_new :: "phys_page_num \<Rightarrow> u8 \<Rightarrow> page_table_entry" where
  "PageTableEntry_new ppn flags = push_bit 10 ppn OR ucast flags"

definition PageTableEntry_empty :: page_table_entry where "PageTableEntry_empty = 0"

definition PageTableEntry_ppn :: "page_table_entry \<Rightarrow> phys_page_num" where
  "PageTableEntry_ppn entry = drop_bit 10 entry AND mask 44"

definition PageTableEntry_flags :: "page_table_entry \<Rightarrow> u8" where
  "PageTableEntry_flags entry = ucast (entry AND 0xff)"

definition PageTableEntry_is_valid :: "page_table_entry \<Rightarrow> bool" where
  "PageTableEntry_is_valid entry \<longleftrightarrow> PageTableEntry_flags entry AND PTE_V \<noteq> 0"

text \<open>The macros \<^verbatim>\<open>PTE2PA\<close> and \<^verbatim>\<open>PTE_FLAGS\<close>; the flags are stored in a \<^verbatim>\<open>u8\<close>.\<close>

definition PTE2PA :: "page_table_entry \<Rightarrow> phys_addr" where "PTE2PA pte = push_bit 12 (drop_bit 10 pte)"

definition PTE_FLAGS :: "page_table_entry \<Rightarrow> u8" where "PTE_FLAGS pte = ucast (pte AND 0x3ff)"


section \<open>The frame allocator\<close>

record vm_state = cpu_state +
  pages :: "phys_page_num \<Rightarrow> nat \<Rightarrow> u64"
  fa_start :: u64
  fa_end :: u64
  fa_freelist :: phys_addr
  fa_free_pages :: u64
  fa_free_map :: "nat \<Rightarrow> u8"

definition ALLOCATOR_PAGE_COUNT :: nat where "ALLOCATOR_PAGE_COUNT = 32768"

text \<open>The index of a frame in \<^verbatim>\<open>free_map\<close>.\<close>

definition map_index :: "phys_page_num \<Rightarrow> nat" where "map_index ppn = unat (ppn - drop_bit 12 KERNBASE)"

definition set_free_map :: "phys_page_num \<Rightarrow> u8 \<Rightarrow> 'a vm_state_scheme \<Rightarrow> 'a vm_state_scheme option" where
  "set_free_map ppn v s =
     (if map_index ppn < ALLOCATOR_PAGE_COUNT then Some (s\<lparr>fa_free_map := (fa_free_map s)(map_index ppn := v)\<rparr>) else None)"

text \<open>\<^verbatim>\<open>page->next\<close>, the first word of the page at the address.\<close>

definition next_run :: "phys_addr \<Rightarrow> 'a vm_state_scheme \<Rightarrow> phys_addr" where
  "next_run page s = pages s (drop_bit 12 page) (unat (take_bit 12 page) div 8)"

definition set_next_run :: "phys_addr \<Rightarrow> phys_addr \<Rightarrow> 'a vm_state_scheme \<Rightarrow> 'a vm_state_scheme" where
  "set_next_run page nxt s =
     s\<lparr>pages := (pages s)(drop_bit 12 page := (pages s (drop_bit 12 page))(unat (take_bit 12 page) div 8 := nxt))\<rparr>"

definition StackFrameAllocator_new :: "'a vm_state_scheme \<Rightarrow> 'a vm_state_scheme" where
  "StackFrameAllocator_new s =
     s\<lparr>fa_start := 0, fa_end := 0, fa_freelist := 0, fa_free_pages := 0, fa_free_map := (\<lambda>_. 0)\<rparr>"

definition push_run :: "phys_page_num \<Rightarrow> 'a vm_state_scheme \<Rightarrow> 'a vm_state_scheme option" where
  "push_run ppn s =
     (let page = phys_addr_from_phys_page_num ppn;
          s = set_next_run page (fa_freelist s) s
      in set_free_map ppn 1 (s\<lparr>fa_freelist := page, fa_free_pages := fa_free_pages s + 1\<rparr>))"

function StackFrameAllocator_init_loop :: "u64 \<Rightarrow> u64 \<Rightarrow> 'a vm_state_scheme \<Rightarrow> 'a vm_state_scheme option" where
  "StackFrameAllocator_init_loop l v s =
     (if v > l then do { s \<leftarrow> push_run (v - 1) s; StackFrameAllocator_init_loop l (v - 1) s } else Some s)"
  by pat_completeness auto
termination
  by (relation "measure (\<lambda>(l, v, s). unat v)") (auto intro!: measure_unat)

definition StackFrameAllocator_init :: "phys_page_num \<Rightarrow> phys_page_num \<Rightarrow> 'a vm_state_scheme \<Rightarrow> 'a vm_state_scheme option" where
  "StackFrameAllocator_init l r s = StackFrameAllocator_init_loop l r (s\<lparr>fa_start := l, fa_end := r\<rparr>)"

definition StackFrameAllocator_alloc :: "'a vm_state_scheme \<Rightarrow> (phys_page_num \<times> 'a vm_state_scheme) option" where
  "StackFrameAllocator_alloc s =
     (let page = fa_freelist s
      in if page = 0 then Some (0, s)
         else do {
           let s = s\<lparr>fa_freelist := next_run page s, fa_free_pages := fa_free_pages s - 1\<rparr>;
           let ppn = floor_phys (phys_addr_from_size_t page);
           s \<leftarrow> set_free_map ppn 0 s;
           Some (if ppn = 0 then (ppn, s) else (ppn, s\<lparr>pages := (pages s)(ppn := (\<lambda>_. 0))\<rparr>))
         })"

definition StackFrameAllocator_dealloc :: "phys_page_num \<Rightarrow> 'a vm_state_scheme \<Rightarrow> 'a vm_state_scheme option" where
  "StackFrameAllocator_dealloc ppn s =
     (if ppn < fa_start s \<or> ppn \<ge> fa_end s then Some s
      else if map_index ppn \<ge> ALLOCATOR_PAGE_COUNT then None
      else if fa_free_map s (map_index ppn) \<noteq> 0 then Some s
      else push_run ppn s)"

text \<open>\<^verbatim>\<open>kernelend\<close> is the address behind the kernel, set by the linker.\<close>

definition frame_alloctor_init :: "u64 \<Rightarrow> 'a vm_state_scheme \<Rightarrow> 'a vm_state_scheme option" where
  "frame_alloctor_init kernelend s =
     StackFrameAllocator_init (ceil_phys (phys_addr_from_size_t kernelend)) (ceil_phys (phys_addr_from_size_t PHYSTOP))
       (StackFrameAllocator_new s)"

definition kalloc :: "'a vm_state_scheme \<Rightarrow> (phys_page_num \<times> 'a vm_state_scheme) option" where
  "kalloc s = StackFrameAllocator_alloc s"

definition kfree :: "phys_page_num \<Rightarrow> 'a vm_state_scheme \<Rightarrow> 'a vm_state_scheme option" where
  "kfree ppn s = StackFrameAllocator_dealloc ppn s"

definition free_page_count :: "'a vm_state_scheme \<Rightarrow> u64" where
  "free_page_count s = fa_free_pages s"


section \<open>Page tables\<close>

text \<open>A pointer to an entry is the number of the page of the table and the index in it.\<close>

type_synonym pte_ptr = "phys_page_num \<times> nat"

definition pte_at :: "pte_ptr \<Rightarrow> 'a vm_state_scheme \<Rightarrow> page_table_entry" where
  "pte_at p s = pages s (fst p) (snd p)"

definition set_pte :: "pte_ptr \<Rightarrow> page_table_entry \<Rightarrow> 'a vm_state_scheme \<Rightarrow> 'a vm_state_scheme" where
  "set_pte p e s = s\<lparr>pages := (pages s)(fst p := (pages s (fst p))(snd p := e))\<rparr>"

definition indexes :: "virt_page_num \<Rightarrow> nat list" where
  "indexes vpn = [unat (drop_bit 18 vpn AND 0x1ff), unat (drop_bit 9 vpn AND 0x1ff), unat (vpn AND 0x1ff)]"

fun find_pte_create_loop :: "phys_page_num \<Rightarrow> nat list \<Rightarrow> 'a vm_state_scheme \<Rightarrow> (pte_ptr \<times> 'a vm_state_scheme) option" where
  "find_pte_create_loop ppn [] s = None"
| "find_pte_create_loop ppn [i] s = Some ((ppn, i), s)"
| "find_pte_create_loop ppn (i # is) s = do {
     s \<leftarrow> (if PageTableEntry_is_valid (pte_at (ppn, i) s) then Some s
          else do {
            (frame, s) \<leftarrow> kalloc s;
            if frame = 0 then None else Some (set_pte (ppn, i) (PageTableEntry_new frame PTE_V) s)
          });
     find_pte_create_loop (PageTableEntry_ppn (pte_at (ppn, i) s)) is s
   }"

definition find_pte_create :: "phys_page_num \<Rightarrow> virt_page_num \<Rightarrow> 'a vm_state_scheme \<Rightarrow> (pte_ptr \<times> 'a vm_state_scheme) option" where
  "find_pte_create root vpn s = find_pte_create_loop root (indexes vpn) s"

fun find_pte_loop :: "phys_page_num \<Rightarrow> nat list \<Rightarrow> 'a vm_state_scheme \<Rightarrow> pte_ptr option" where
  "find_pte_loop ppn [] s = None"
| "find_pte_loop ppn (i # is) s =
     (if \<not> PageTableEntry_is_valid (pte_at (ppn, i) s) then None
      else if is = [] then Some (ppn, i)
      else find_pte_loop (PageTableEntry_ppn (pte_at (ppn, i) s)) is s)"

definition find_pte :: "phys_page_num \<Rightarrow> virt_page_num \<Rightarrow> 'a vm_state_scheme \<Rightarrow> pte_ptr option" where
  "find_pte root vpn s = find_pte_loop root (indexes vpn) s"

text \<open>The loop of \<^verbatim>\<open>PageTable_map\<close> from page \<open>vpn\<close> to page \<open>final\<close>.\<close>

function PageTable_map_loop ::
  "phys_page_num \<Rightarrow> virt_page_num \<Rightarrow> phys_page_num \<Rightarrow> virt_page_num \<Rightarrow> u8 \<Rightarrow> 'a vm_state_scheme \<Rightarrow> 'a vm_state_scheme option" where
  "PageTable_map_loop root vpn ppn final flags s = do {
     (pte, s) \<leftarrow> find_pte_create root vpn s;
     if PageTableEntry_is_valid (pte_at pte s) then None
     else do {
       let s = set_pte pte (PageTableEntry_new ppn (PTE_V OR flags)) s;
       if vpn = final then Some s else PageTable_map_loop root (vpn + 1) (ppn + 1) final flags s
     }
   }"
  by pat_completeness auto
termination
  by (relation "measure (\<lambda>(root, vpn, ppn, final, flags, s). unat (final - vpn))") (auto simp: diff_diff_add [symmetric] measure_unat)

definition PageTable_map ::
  "phys_page_num \<Rightarrow> virt_addr \<Rightarrow> phys_addr \<Rightarrow> u64 \<Rightarrow> u8 \<Rightarrow> 'a vm_state_scheme \<Rightarrow> 'a vm_state_scheme option" where
  "PageTable_map root va pa sz flags s =
     (if sz = 0 then None
      else PageTable_map_loop root (floor_virts va) (floor_phys pa) ((va + sz - 1) div PAGE_SIZE) flags s)"

text \<open>The loop of \<^verbatim>\<open>uvmcopy\<close> does not end if \<open>sz\<close> is within a page of the largest number.\<close>

partial_function (option) uvmcopy_loop ::
  "phys_page_num \<Rightarrow> phys_page_num \<Rightarrow> u64 \<Rightarrow> u64 \<Rightarrow> 'a vm_state_scheme \<Rightarrow> (int \<times> 'a vm_state_scheme) option" where
  "uvmcopy_loop old new i sz s =
     (if i > sz then Some (0, s)
      else case find_pte old (floor_virts (virt_addr_from_size_t i)) s of
        None \<Rightarrow> uvmcopy_loop old new (i + PAGE_SIZE) sz s
      | Some pte \<Rightarrow> do {
          let phyaddr = PTE2PA (pte_at pte s);
          let flags = PTE_FLAGS (pte_at pte s);
          (ppn, s) \<leftarrow> kalloc s;
          if ppn = 0 then Some (-1, s)
          else do {
            let paddr = phys_addr_from_phys_page_num ppn;
            let s = s\<lparr>pages := (pages s)(drop_bit 12 paddr := pages s (drop_bit 12 phyaddr))\<rparr>;
            s \<leftarrow> PageTable_map new (virt_addr_from_size_t i) (phys_addr_from_size_t paddr) PAGE_SIZE flags s;
            uvmcopy_loop old new (i + PAGE_SIZE) sz s
          }
        })"

definition uvmcopy :: "phys_page_num \<Rightarrow> phys_page_num \<Rightarrow> u64 \<Rightarrow> 'a vm_state_scheme \<Rightarrow> (int \<times> 'a vm_state_scheme) option" where
  "uvmcopy old new sz s = uvmcopy_loop old new 0 sz s"

function uvmunmap_loop :: "phys_page_num \<Rightarrow> u64 \<Rightarrow> u64 \<Rightarrow> bool \<Rightarrow> 'a vm_state_scheme \<Rightarrow> 'a vm_state_scheme option" where
  "uvmunmap_loop root a hi do_free s =
     (if a < hi then do {
        s \<leftarrow> (case find_pte root (virt_page_num_from_size_t a) s of
               None \<Rightarrow> Some s
             | Some pte \<Rightarrow> do {
                 s \<leftarrow> (if do_free then kfree (floor_phys (phys_addr_from_size_t (PTE2PA (pte_at pte s)))) s else Some s);
                 Some (set_pte pte PageTableEntry_empty s)
               });
        uvmunmap_loop root (a + 1) hi do_free s
      } else Some s)"
  by pat_completeness auto
termination
  by (relation "measure (\<lambda>(root, a, hi, do_free, s). unat (hi - a))")
    (auto simp: diff_diff_add [symmetric] measure_unat)

definition uvmunmap :: "phys_page_num \<Rightarrow> virt_page_num \<Rightarrow> u64 \<Rightarrow> bool \<Rightarrow> 'a vm_state_scheme \<Rightarrow> 'a vm_state_scheme option" where
  "uvmunmap root vpn npages do_free s = uvmunmap_loop root vpn (vpn + npages) do_free s"

text \<open>The entries of the table from \<open>i\<close> on. Nothing in the code bounds the depth.\<close>

partial_function (option) freewalk_loop :: "phys_page_num \<Rightarrow> nat \<Rightarrow> 'a vm_state_scheme \<Rightarrow> 'a vm_state_scheme option" where
  "freewalk_loop ppn i s =
     (if i \<ge> 512 then kfree ppn s
      else let e = pte_at (ppn, i) s
        in if e AND ucast PTE_V \<noteq> 0 \<and> e AND ucast (PTE_R OR PTE_W OR PTE_X) = 0 then do {
             s \<leftarrow> freewalk_loop (PageTableEntry_ppn e) 0 s;
             freewalk_loop ppn (i + 1) (set_pte (ppn, i) PageTableEntry_empty s)
           }
           else if e AND ucast PTE_V \<noteq> 0 then None
           else freewalk_loop ppn (i + 1) s)"

definition freewalk :: "phys_page_num \<Rightarrow> 'a vm_state_scheme \<Rightarrow> 'a vm_state_scheme option" where
  "freewalk ppn s = freewalk_loop ppn 0 s"

definition uvmfree :: "phys_page_num \<Rightarrow> u64 \<Rightarrow> 'a vm_state_scheme \<Rightarrow> 'a vm_state_scheme option" where
  "uvmfree root sz s = do {
     s \<leftarrow> (if sz > 0 then uvmunmap root (floor_virts (virt_addr_from_size_t 0)) (sz div PAGE_SIZE) True s else Some s);
     freewalk root s
   }"

text \<open>The harts that must drop their cached translations; \<open>rfence\<close> is whether the firmware reports success.\<close>

definition other_harts :: "nat \<Rightarrow> 'a vm_state_scheme \<Rightarrow> u64" where
  "other_harts self s =
     fold (\<lambda>i m. if i \<noteq> self \<and> cpu_present (cpus s ! i) \<and> cpu_online (cpus s ! i)
                  then m OR push_bit (unat (cpu_hartid (cpus s ! i))) 1 else m) [0..<MAX_CPUS] 0"

definition tlb_shootdown_all :: "nat \<Rightarrow> bool \<Rightarrow> 'a vm_state_scheme \<Rightarrow> 'a vm_state_scheme option" where
  "tlb_shootdown_all self rfence s = (if other_harts self s \<noteq> 0 \<and> \<not> rfence then None else Some s)"

definition proc_freepagetable :: "nat \<Rightarrow> bool \<Rightarrow> phys_page_num \<Rightarrow> u64 \<Rightarrow> 'a vm_state_scheme \<Rightarrow> 'a vm_state_scheme option" where
  "proc_freepagetable self rfence root sz s = do {
     s \<leftarrow> tlb_shootdown_all self rfence s;
     s \<leftarrow> uvmunmap root (floor_virts (virt_addr_from_size_t TRAMPOLINE)) 1 False s;
     s \<leftarrow> uvmunmap root (floor_virts (virt_addr_from_size_t TRAPFRAME)) 1 False s;
     uvmfree root sz s
   }"

end
