(* ===== verification/Address_Laws.thy ===== *)
theory Address_Laws
  imports Address
begin

text \<open>
  The laws of frames and page tables: the free frames are a linked list in memory (\<open>fa_ok\<close>), the tables of an address space
  a tree of three levels (\<open>tree_ok\<close>) that means a map from virtual pages to entries (\<open>lookup\<close>), and no table is a free frame
  (\<open>vm_ok\<close>). Each operation is described by what it does to these three.
\<close>

section \<open>Addresses and entries\<close>

lemma page_size_div: "(a :: u64) div PAGE_SIZE = drop_bit 12 a"
  by (simp add: PAGE_SIZE_def drop_bit_eq_div)

lemma floor_phys_page: "take_bit 44 p = p \<Longrightarrow> floor_phys (phys_addr_from_size_t (push_bit 12 p)) = p"
proof -
  have "floor_phys (phys_addr_from_size_t (push_bit 12 p)) = take_bit 44 p"
    unfolding floor_phys_def phys_addr_from_size_t_def page_size_div by (rule bit_word_eqI) (auto simp: bit_simps)
  then show "take_bit 44 p = p \<Longrightarrow> ?thesis" by simp
qed

lemma page_of_push: "take_bit 52 (p :: u64) = p \<Longrightarrow> drop_bit 12 (push_bit 12 p) = p"
proof -
  have "drop_bit 12 (push_bit 12 p) = take_bit 52 p" by (rule bit_word_eqI) (auto simp: bit_simps)
  then show "take_bit 52 p = p \<Longrightarrow> ?thesis" by simp
qed

lemma offset_of_push: "take_bit 12 (push_bit 12 (p :: u64)) = 0"
  by (rule bit_word_eqI) (auto simp: bit_simps)

lemma valid_iff: "PageTableEntry_is_valid e \<longleftrightarrow> bit e 0"
proof -
  have "ucast (e AND 0xff) AND 1 = (of_bool (bit e 0) :: u8)"
    by (rule bit_word_eqI) (auto simp: bit_simps)
  then show ?thesis by (simp add: PageTableEntry_is_valid_def PageTableEntry_flags_def PTE_V_def)
qed

lemma valid_zero [simp]: "\<not> PageTableEntry_is_valid 0"
  by (simp add: valid_iff)

lemma new_valid [simp]: "PageTableEntry_is_valid (PageTableEntry_new p (PTE_V OR f))" "PageTableEntry_is_valid (PageTableEntry_new p PTE_V)"
  by (simp_all add: valid_iff PageTableEntry_new_def PTE_V_def bit_simps)

lemma new_ppn: "take_bit 44 p = p \<Longrightarrow> PageTableEntry_ppn (PageTableEntry_new p f) = p"
proof -
  have "PageTableEntry_ppn (PageTableEntry_new p f) = take_bit 44 p"
    unfolding PageTableEntry_ppn_def PageTableEntry_new_def
    by (rule bit_word_eqI) (auto simp: bit_simps dest: bit_imp_le_length)
  then show "take_bit 44 p = p \<Longrightarrow> ?thesis" by simp
qed

lemma new_frame: "take_bit 44 p = p \<Longrightarrow> floor_phys (phys_addr_from_size_t (PTE2PA (PageTableEntry_new p f))) = p"
proof -
  have "floor_phys (phys_addr_from_size_t (PTE2PA (PageTableEntry_new p f))) = take_bit 44 p"
    unfolding floor_phys_def phys_addr_from_size_t_def page_size_div PTE2PA_def PageTableEntry_new_def
    by (rule bit_word_eqI) (auto simp: bit_simps dest: bit_imp_le_length)
  then show "take_bit 44 p = p \<Longrightarrow> ?thesis" by simp
qed

section \<open>The frame allocator\<close>

text \<open>The frames the allocator manages, and the list of the free ones as it is linked in memory.\<close>

definition managed :: "'a vm_state_scheme \<Rightarrow> phys_page_num set" where
  "managed s = {p. fa_start s \<le> p \<and> p < fa_end s}"

fun chain :: "'a vm_state_scheme \<Rightarrow> phys_addr \<Rightarrow> phys_page_num list \<Rightarrow> bool" where
  "chain s a [] \<longleftrightarrow> a = 0"
| "chain s a (p # ps) \<longleftrightarrow> a = phys_addr_from_phys_page_num p \<and> chain s (pages s p 0) ps"

definition fa_ok :: "phys_page_num list \<Rightarrow> 'a vm_state_scheme \<Rightarrow> bool" where
  "fa_ok xs s \<longleftrightarrow> chain s (fa_freelist s) xs \<and> distinct xs \<and> set xs \<subseteq> managed s \<and>
     0x80200 \<le> fa_start s \<and> fa_end s \<le> 0x88200 \<and>
     (\<forall>p\<in>managed s. fa_free_map s (map_index p) \<noteq> 0 \<longleftrightarrow> p \<in> set xs) \<and> fa_free_pages s = of_nat (length xs)"

lemma small_page:
  assumes "(p :: u64) < 0x88200"
  shows "take_bit 44 p = p" "take_bit 52 p = p"
proof -
  from assms have u: "uint p < 0x88200" by (simp add: word_less_def)
  then show "take_bit 44 p = p" "take_bit 52 p = p"
    by (simp_all add: word_uint_eq_iff unsigned_take_bit_eq take_bit_int_eq_self)
qed

lemma map_index_eq [simp]: "map_index p = map_index q \<longleftrightarrow> p = q"
  by (simp add: map_index_def word_unat_eq_iff [symmetric])

lemma managed_page:
  assumes "fa_ok xs s" and "p \<in> managed s"
  shows "p \<noteq> 0" "take_bit 44 p = p" "take_bit 52 p = p" "map_index p < ALLOCATOR_PAGE_COUNT"
proof -
  have b: "0x80200 \<le> p" "p < 0x88200" using assms by (auto simp: fa_ok_def managed_def)
  then show "p \<noteq> 0" by auto
  from small_page [OF b(2)] show "take_bit 44 p = p" "take_bit 52 p = p" .
  have "unat (p - 0x80200) = unat p - 0x80200" using unat_sub [OF b(1)] by simp
  moreover have "unat p < 0x88200" using b(2) by (simp add: word_less_nat_alt)
  ultimately show "map_index p < ALLOCATOR_PAGE_COUNT"
    by (simp add: map_index_def KERNBASE_def ALLOCATOR_PAGE_COUNT_def)
qed

lemma run_at_page:
  assumes "take_bit 52 p = p"
  shows "next_run (phys_addr_from_phys_page_num p) s = pages s p 0"
    "set_next_run (phys_addr_from_phys_page_num p) a s = s\<lparr>pages := (pages s)(p := (pages s p)(0 := a))\<rparr>"
  by (simp_all add: next_run_def set_next_run_def phys_addr_from_phys_page_num_def page_of_push [OF assms] offset_of_push)

lemma chain_cong: "\<forall>p\<in>set ps. pages s' p 0 = pages s p 0 \<Longrightarrow> chain s' a ps = chain s a ps"
  by (induction ps arbitrary: a) simp_all

text \<open>An allocation takes the first free frame and clears it; without a free frame it returns page 0.\<close>

lemma kalloc_empty: "fa_ok [] s \<Longrightarrow> kalloc s = Some (0, s)"
  by (simp add: kalloc_def StackFrameAllocator_alloc_def fa_ok_def)

lemma push_page_ne: "take_bit 52 p = p \<Longrightarrow> p \<noteq> 0 \<Longrightarrow> phys_addr_from_phys_page_num p \<noteq> 0"
  using page_of_push [of p] by (auto simp: phys_addr_from_phys_page_num_def)

lemma kalloc_ok:
  assumes "fa_ok (p # ps) s"
  shows "\<exists>s'. kalloc s = Some (p, s') \<and> fa_ok ps s' \<and> pages s' = (pages s)(p := (\<lambda>_. 0)) \<and> managed s' = managed s \<and>
    vm_state.more s' = vm_state.more s"
proof -
  have m: "p \<in> managed s" using assms by (simp add: fa_ok_def)
  note pg = managed_page [OF assms m]
  have a: "fa_freelist s = phys_addr_from_phys_page_num p" "chain s (pages s p 0) ps" "p \<notin> set ps" using assms by (simp_all add: fa_ok_def)
  let ?s = "s\<lparr>fa_freelist := pages s p 0, fa_free_pages := fa_free_pages s - 1, fa_free_map := (fa_free_map s)(map_index p := 0),
    pages := (pages s)(p := (\<lambda>_. 0))\<rparr>"
  have "kalloc s = Some (p, ?s)"
    using pg(1,4) push_page_ne [OF pg(3,1)]
    by (simp add: kalloc_def StackFrameAllocator_alloc_def a(1) Let_def run_at_page [OF pg(3)] set_free_map_def
      floor_phys_page [OF pg(2), folded phys_addr_from_phys_page_num_def])
  moreover have "chain ?s (pages s p 0) ps" using a(2,3) by (subst chain_cong [of _ _ s]) auto
  moreover have "managed ?s = managed s" by (simp add: managed_def)
  moreover have "\<forall>q\<in>managed s. fa_free_map ?s (map_index q) \<noteq> 0 \<longleftrightarrow> q \<in> set ps"
    using assms by (auto simp: fa_ok_def)
  ultimately show ?thesis using assms by (intro exI [of _ ?s]) (simp add: fa_ok_def)
qed

text \<open>Releasing a frame that is managed and not free puts it in front of the list; everything else is ignored.\<close>

lemma push_run_ok:
  assumes "fa_ok xs s" and "p \<in> managed s" and "p \<notin> set xs"
  shows "\<exists>s'. push_run p s = Some s' \<and> fa_ok (p # xs) s' \<and> pages s' = (pages s)(p := (pages s p)(0 := fa_freelist s)) \<and>
    managed s' = managed s \<and> vm_state.more s' = vm_state.more s"
proof -
  note pg = managed_page [OF assms(1,2)]
  let ?s = "s\<lparr>pages := (pages s)(p := (pages s p)(0 := fa_freelist s)), fa_freelist := phys_addr_from_phys_page_num p,
    fa_free_pages := fa_free_pages s + 1, fa_free_map := (fa_free_map s)(map_index p := 1)\<rparr>"
  have "push_run p s = Some ?s" using pg(4) by (simp add: push_run_def Let_def run_at_page [OF pg(3)] set_free_map_def)
  moreover have "chain ?s (fa_freelist s) xs" using assms by (subst chain_cong [of _ _ s]) (auto simp: fa_ok_def)
  moreover have "managed ?s = managed s" by (simp add: managed_def)
  moreover have "\<forall>q\<in>managed s. fa_free_map ?s (map_index q) \<noteq> 0 \<longleftrightarrow> q \<in> set (p # xs)"
    using assms by (auto simp: fa_ok_def)
  ultimately show ?thesis using assms by (intro exI [of _ ?s]) (simp add: fa_ok_def add.commute)
qed

lemma kfree_ok:
  assumes "fa_ok xs s"
  shows "if p \<in> managed s \<and> p \<notin> set xs
    then \<exists>s'. kfree p s = Some s' \<and> fa_ok (p # xs) s' \<and> pages s' = (pages s)(p := (pages s p)(0 := fa_freelist s)) \<and>
      managed s' = managed s \<and> vm_state.more s' = vm_state.more s
    else kfree p s = Some s"
proof (cases "p \<in> managed s")
  case True
  note pg = managed_page [OF assms True]
  have "fa_free_map s (map_index p) \<noteq> 0 \<longleftrightarrow> p \<in> set xs" using assms True by (simp add: fa_ok_def)
  then have k: "kfree p s = (if p \<in> set xs then Some s else push_run p s)"
    using True pg(4) by (simp add: kfree_def StackFrameAllocator_dealloc_def managed_def not_le [symmetric])
  show ?thesis
  proof (cases "p \<in> set xs")
    case False
    then show ?thesis using push_run_ok [OF assms True] True by (simp add: k)
  qed (simp add: k)
next
  case False
  then have "kfree p s = Some s" by (auto simp: kfree_def StackFrameAllocator_dealloc_def managed_def)
  with False show ?thesis by simp
qed


section \<open>The tree of tables\<close>

text \<open>\<open>node s r is\<close> is the table that the indices \<open>is\<close> lead to from the table \<open>r\<close>.\<close>

fun node :: "'a vm_state_scheme \<Rightarrow> phys_page_num \<Rightarrow> nat list \<Rightarrow> phys_page_num option" where
  "node s p [] = Some p"
| "node s p (i # is) = (if PageTableEntry_is_valid (pages s p i) then node s (PageTableEntry_ppn (pages s p i)) is else None)"

lemma node_append: "node s p (is @ js) = node s p is \<bind> (\<lambda>q. node s q js)"
  by (induction "is" arbitrary: p) simp_all

text \<open>The tables of a tree have three levels and are all different.\<close>

definition path :: "nat list \<Rightarrow> bool" where "path is \<longleftrightarrow> length is \<le> 2 \<and> (\<forall>i\<in>set is. i < 512)"

definition tables :: "'a vm_state_scheme \<Rightarrow> phys_page_num \<Rightarrow> phys_page_num set" where
  "tables s r = {p. \<exists>is. path is \<and> node s r is = Some p}"

definition pointer_entry :: "page_table_entry \<Rightarrow> bool" where
  "pointer_entry e \<longleftrightarrow> e AND ucast (PTE_R OR PTE_W OR PTE_X) = 0"

definition tree_ok :: "'a vm_state_scheme \<Rightarrow> phys_page_num \<Rightarrow> bool" where
  "tree_ok s r \<longleftrightarrow> (\<forall>is js p. path is \<longrightarrow> path js \<longrightarrow> node s r is = Some p \<longrightarrow> node s r js = Some p \<longrightarrow> is = js)"

definition pointers_ok :: "'a vm_state_scheme \<Rightarrow> phys_page_num \<Rightarrow> bool" where
  "pointers_ok s r \<longleftrightarrow>
     (\<forall>is i p. path (is @ [i]) \<longrightarrow> node s r is = Some p \<longrightarrow> PageTableEntry_is_valid (pages s p i) \<longrightarrow> pointer_entry (pages s p i))"

lemma new_pointer: "pointer_entry (PageTableEntry_new p PTE_V)"
proof -
  have "PTE_R OR PTE_W OR PTE_X = (14 :: u8)" by (simp add: PTE_R_def PTE_W_def PTE_X_def)
  moreover have "PageTableEntry_new p PTE_V AND (mask 4 AND NOT 1) = 0"
    by (rule bit_word_eqI) (auto simp: PageTableEntry_new_def PTE_V_def bit_simps)
  moreover have "mask 4 AND NOT 1 = (14 :: u64)" by (simp add: mask_eq_exp_minus_1)
  ultimately show ?thesis by (simp add: pointer_entry_def)
qed

lemma node_cong:
  assumes "\<And>ks k ls p. is = ks @ k # ls \<Longrightarrow> node s r ks = Some p \<Longrightarrow> pages s' p k = pages s p k"
  shows "node s' r is = node s r is"
  using assms
proof (induction "is" arbitrary: r)
  case (Cons i "is")
  have e: "pages s' r i = pages s r i" using Cons.prems [of "[]" i "is" r] by simp
  show ?case
  proof (cases "PageTableEntry_is_valid (pages s r i)")
    case True
    have "node s' (PageTableEntry_ppn (pages s r i)) is = node s (PageTableEntry_ppn (pages s r i)) is"
    proof (rule Cons.IH)
      fix ks k ls p assume "is = ks @ k # ls" "node s (PageTableEntry_ppn (pages s r i)) ks = Some p"
      then show "pages s' p k = pages s p k" using True by (intro Cons.prems [of "i # ks" k ls]) simp_all
    qed
    with True e show ?thesis by simp
  qed (simp add: e)
qed simp

lemma path_prefix: "path (is @ js) \<Longrightarrow> path is"
  by (auto simp: path_def)

text \<open>Writing outside the tree does not change it, nor does writing an entry of a table of the last level.\<close>

lemma node_frame: "path is \<Longrightarrow> \<forall>p\<in>tables s r. pages s' p = pages s p \<Longrightarrow> node s' r is = node s r is"
  by (rule node_cong) (auto simp: tables_def dest!: path_prefix)

lemma tables_frame: "\<forall>p\<in>tables s r. pages s' p = pages s p \<Longrightarrow> tables s' r = tables s r \<and> (tree_ok s' r \<longleftrightarrow> tree_ok s r)"
  using node_frame [of _ s r s'] by (auto simp: tables_def tree_ok_def)

lemma pointers_frame:
  assumes "pointers_ok s r" and "\<forall>p\<in>tables s r. pages s' p = pages s p"
  shows "pointers_ok s' r"
  unfolding pointers_ok_def
proof (intro allI impI)
  fix "is" i p assume "path (is @ [i])" "node s' r is = Some p" "PageTableEntry_is_valid (pages s' p i)"
  then have "node s r is = Some p" using node_frame [OF path_prefix [OF \<open>path (is @ [i])\<close>] assms(2)] by simp
  moreover from this have "p \<in> tables s r" using path_prefix [OF \<open>path (is @ [i])\<close>] by (auto simp: tables_def)
  ultimately show "pointer_entry (pages s' p i)" using assms \<open>path (is @ [i])\<close> \<open>PageTableEntry_is_valid (pages s' p i)\<close> by (simp add: pointers_ok_def)
qed

lemma node_set_leaf:
  assumes "tree_ok s r" and "node s r ls = Some t" and "path ls" and "length ls = 2" and "path is"
    and "\<forall>p. p \<noteq> t \<longrightarrow> pages s' p = pages s p"
  shows "node s' r is = node s r is"
proof (rule node_cong)
  fix ks k js p assume dec: "is = ks @ k # js" and p: "node s r ks = Some p"
  have "p \<noteq> t"
  proof
    assume "p = t"
    with p assms(1-3,5) dec have "ks = ls" unfolding tree_ok_def by (metis path_prefix)
    with dec assms(4,5) show False by (simp add: path_def)
  qed
  with assms(6) show "pages s' p k = pages s p k" by simp
qed

lemma tables_set_leaf:
  assumes "tree_ok s r" and "node s r ls = Some t" and "path ls" and "length ls = 2" and "\<forall>p. p \<noteq> t \<longrightarrow> pages s' p = pages s p"
  shows "tables s' r = tables s r" "tree_ok s' r"
  using assms(1) node_set_leaf [OF assms(1-4) _ assms(5)] by (auto simp: tables_def tree_ok_def)

lemma pointers_set_leaf:
  assumes "tree_ok s r" and "node s r ls = Some t" and "path ls" and "length ls = 2" and "\<forall>p. p \<noteq> t \<longrightarrow> pages s' p = pages s p"
    and "pointers_ok s r"
  shows "pointers_ok s' r"
  unfolding pointers_ok_def
proof (intro allI impI)
  fix "is" i p assume path: "path (is @ [i])" and p: "node s' r is = Some p" and v: "PageTableEntry_is_valid (pages s' p i)"
  have n: "node s r is = Some p" using p node_set_leaf [OF assms(1-4) path_prefix [OF path] assms(5)] by simp
  have "p \<noteq> t"
  proof
    assume "p = t"
    with n assms(1-3) path_prefix [OF path] have "is = ls" unfolding tree_ok_def by blast
    with path assms(4) show False by (simp add: path_def)
  qed
  with assms(5,6) n path v show "pointer_entry (pages s' p i)" by (simp add: pointers_ok_def)
qed

text \<open>Hanging a cleared page under a free entry.\<close>

lemma node_add_child:
  assumes ok: "tree_ok s r" and t: "node s r is = Some t" and p: "path (is @ [i])" and free: "\<not> PageTableEntry_is_valid (pages s t i)"
    and q: "q \<notin> tables s r" and e: "PageTableEntry_is_valid e" "PageTableEntry_ppn e = q"
    and pages: "pages s' = (pages s)(q := (\<lambda>_. 0), t := (pages s t)(i := e))" and js: "path js"
  shows "node s' r js = (if js = is @ [i] then Some q else node s r js)"
proof -
  have same: "node s' r ks = node s r ks" if ks: "path ks" "\<nexists>ls. ks = (is @ [i]) @ ls" for ks
  proof (rule node_cong)
    fix as a bs x assume a: "ks = as @ a # bs" and x: "node s r as = Some x"
    have as: "path as" using ks(1) a path_prefix by blast
    have "x \<noteq> q" using q x as by (auto simp: tables_def)
    moreover have "a \<noteq> i" if "x = t"
    proof
      assume "a = i"
      from ok x t as path_prefix [OF p] that have "as = is" unfolding tree_ok_def by blast
      with a ks(2) \<open>a = i\<close> show False by auto
    qed
    ultimately show "pages s' x a = pages s x a" by (auto simp: pages)
  qed
  have tq: "t \<noteq> q" using q t path_prefix [OF p] by (auto simp: tables_def)
  have at: "node s' r (is @ i # ls) = (if ls = [] then Some q else None)" for ls
  proof -
    have "node s' r is = Some t" using same [of "is"] t path_prefix [OF p] by simp
    then show ?thesis using e tq by (cases ls) (simp_all add: node_append pages)
  qed
  show ?thesis
  proof (cases "\<exists>ls. js = (is @ [i]) @ ls")
    case True
    then obtain ls where ls: "js = is @ i # ls" by auto
    have "node s r js = None" by (simp add: ls node_append t free)
    then show ?thesis using at [of ls] ls by auto
  next
    case False
    then show ?thesis using same [OF js False] by auto
  qed
qed

lemma pointers_add_child:
  assumes ok: "tree_ok s r" and t: "node s r is = Some t" and p: "path (is @ [i])" and free: "\<not> PageTableEntry_is_valid (pages s t i)"
    and q: "q \<notin> tables s r" and e: "PageTableEntry_is_valid e" "PageTableEntry_ppn e = q"
    and pages: "pages s' = (pages s)(q := (\<lambda>_. 0), t := (pages s t)(i := e))" and ptr: "pointers_ok s r" "pointer_entry e"
  shows "pointers_ok s' r"
  unfolding pointers_ok_def
proof (intro allI impI)
  fix js j x assume js: "path (js @ [j])" and x: "node s' r js = Some x" and v: "PageTableEntry_is_valid (pages s' x j)"
  note nd = node_add_child [OF ok t p free q e pages path_prefix [OF js]]
  have tq: "t \<noteq> q" using q t path_prefix [OF p] by (auto simp: tables_def)
  have "js \<noteq> is @ [i]" using nd x v tq by (auto simp: pages)
  then have n: "node s r js = Some x" using nd x by simp
  then have "x \<noteq> q" using q path_prefix [OF js] by (auto simp: tables_def)
  then show "pointer_entry (pages s' x j)"
    using v ptr n js by (cases "x = t \<and> j = i") (auto simp: pages pointers_ok_def split: if_splits)
qed


section \<open>Tables and frames together\<close>

text \<open>\<open>xs\<close> are the free frames; the tables are managed frames that are not free. \<open>lookup\<close> is what the tree means.\<close>

definition vm_ok :: "phys_page_num list \<Rightarrow> 'a vm_state_scheme \<Rightarrow> phys_page_num \<Rightarrow> bool" where
  "vm_ok xs s r \<longleftrightarrow> fa_ok xs s \<and> tree_ok s r \<and> pointers_ok s r \<and> tables s r \<subseteq> managed s - set xs"

definition lookup :: "'a vm_state_scheme \<Rightarrow> phys_page_num \<Rightarrow> virt_page_num \<Rightarrow> page_table_entry option" where
  "lookup s r vpn =
     (case node s r (take 2 (indexes vpn)) of
        None \<Rightarrow> None
      | Some t \<Rightarrow> let e = pages s t (indexes vpn ! 2) in if PageTableEntry_is_valid e then Some e else None)"

text \<open>What an operation that only extends the tree leaves unchanged: the meaning of the tree, and every page that is
  neither one of its tables nor one of the frames it took.\<close>

definition extends :: "phys_page_num \<Rightarrow> phys_page_num list \<Rightarrow> 'a vm_state_scheme \<Rightarrow> phys_page_num list \<Rightarrow> 'a vm_state_scheme \<Rightarrow> bool" where
  "extends r xs s ys s' \<longleftrightarrow> vm_ok ys s' r \<and> (\<exists>zs. xs = zs @ ys) \<and> managed s' = managed s \<and> vm_state.more s' = vm_state.more s \<and>
     tables s r \<subseteq> tables s' r \<and> tables s' r \<subseteq> tables s r \<union> (set xs - set ys) \<and>
     (\<forall>p. p \<notin> tables s' r \<longrightarrow> pages s' p = pages s p)"

lemma extends_refl: "vm_ok xs s r \<Longrightarrow> extends r xs s xs s"
  by (simp add: extends_def)

lemma extends_trans: "extends r xs s ys t \<Longrightarrow> extends r ys t zs u \<Longrightarrow> extends r xs s zs u"
  unfolding extends_def vm_ok_def fa_ok_def by (auto; fastforce)

lemma index_mask: "(x :: u64) AND 0x1ff = take_bit 9 x"
  by (simp add: take_bit_eq_mask mask_eq_exp_minus_1)

lemma index_lt [simp]: "unat ((x :: u64) AND 0x1ff) < 512"
  using take_bit_nat_less_exp [of 9 "unat x"] by (simp add: index_mask unsigned_take_bit_eq)

lemma indexes_path [simp]: "path (take 2 (indexes vpn))" "length (indexes vpn) = 3" "indexes vpn ! 2 < 512"
  by (simp_all add: indexes_def path_def)

lemma find_pte_lookup:
  "find_pte r vpn s =
    (case node s r (take 2 (indexes vpn)) of
       None \<Rightarrow> None
     | Some t \<Rightarrow> if PageTableEntry_is_valid (pages s t (indexes vpn ! 2)) then Some (t, indexes vpn ! 2) else None)"
  by (simp add: find_pte_def indexes_def pte_at_def)

text \<open>One level of \<^verbatim>\<open>find_pte_create\<close>.\<close>

definition grow :: "phys_page_num \<Rightarrow> nat \<Rightarrow> 'a vm_state_scheme \<Rightarrow> 'a vm_state_scheme option" where
  "grow t i s =
     (if PageTableEntry_is_valid (pte_at (t, i) s) then Some s
      else do {
        (frame, s) \<leftarrow> kalloc s;
        if frame = 0 then None else Some (set_pte (t, i) (PageTableEntry_new frame PTE_V) s)
      })"

lemma grow_ok:
  assumes ok: "vm_ok xs s r" and t: "node s r is = Some t" and p: "path (is @ [i])" and xs: "xs \<noteq> []"
  shows "\<exists>s' ys. grow t i s = Some s' \<and> extends r xs s ys s' \<and> length xs \<le> length ys + 1 \<and>
    node s' r (is @ [i]) = Some (PageTableEntry_ppn (pages s' t i)) \<and> (\<forall>v. lookup s' r v = lookup s r v)"
proof (cases "PageTableEntry_is_valid (pages s t i)")
  case True
  then show ?thesis
    using extends_refl [OF ok] t by (intro exI [of _ s] exI [of _ xs]) (simp add: grow_def pte_at_def node_append)
next
  case False
  obtain q ys where q: "xs = q # ys" using xs by (cases xs) auto
  have fa: "fa_ok (q # ys) s" and tree: "tree_ok s r" and ptr: "pointers_ok s r" and sub: "tables s r \<subseteq> managed s - set xs"
    using ok by (simp_all add: vm_ok_def q)
  obtain s1 where s1: "kalloc s = Some (q, s1)" "fa_ok ys s1" "pages s1 = (pages s)(q := (\<lambda>_. 0))" "managed s1 = managed s"
    "vm_state.more s1 = vm_state.more s" using kalloc_ok [OF fa] by blast
  have qm: "q \<in> managed s" using fa by (simp add: fa_ok_def)
  note pg = managed_page [OF fa qm]
  have qt: "q \<notin> tables s r" using sub q by auto
  have tt: "t \<in> tables s r" using t path_prefix [OF p] by (auto simp: tables_def)
  then have tq: "t \<noteq> q" "t \<notin> set ys" using qt sub q by auto
  define e where "e = PageTableEntry_new q PTE_V"
  define s' where "s' = set_pte (t, i) e s1"
  have e: "PageTableEntry_is_valid e" "PageTableEntry_ppn e = q" using new_ppn [OF pg(2)] by (simp_all add: e_def)
  have pages: "pages s' = (pages s)(q := (\<lambda>_. 0), t := (pages s t)(i := e))" using s1(3) tq by (simp add: s'_def set_pte_def)
  note nd = node_add_child [OF tree t p False qt e pages]
  have grow: "grow t i s = Some s'" using False s1(1) pg(1) by (simp add: grow_def pte_at_def s'_def e_def)
  have none: "node s r (is @ [i]) = None" using False t by (simp add: node_append)
  have tabs: "tables s' r = insert q (tables s r)"
  proof
    show "tables s' r \<subseteq> insert q (tables s r)" using nd by (auto simp: tables_def split: if_splits)
    have "node s' r js = Some x" if "path js" "node s r js = Some x" for js x using that nd none by auto
    then show "insert q (tables s r) \<subseteq> tables s' r" using nd [OF p] p by (auto simp: tables_def)
  qed
  have "tree_ok s' r" using tree nd qt unfolding tree_ok_def tables_def by (auto split: if_splits)
  moreover have "fa_ok ys s'"
  proof -
    have "chain s' (fa_freelist s1) ys" using s1(2) tq by (subst chain_cong [of _ _ s1]) (auto simp: fa_ok_def s'_def set_pte_def)
    moreover have "fa_freelist s' = fa_freelist s1" "fa_free_map s' = fa_free_map s1" "fa_free_pages s' = fa_free_pages s1"
      "fa_start s' = fa_start s1" "fa_end s' = fa_end s1" "managed s' = managed s1" by (simp_all add: s'_def set_pte_def managed_def)
    ultimately show ?thesis using s1(2) by (simp add: fa_ok_def)
  qed
  moreover have m: "managed s' = managed s" "vm_state.more s' = vm_state.more s"
    using s1(4,5) by (simp_all add: s'_def set_pte_def managed_def)
  moreover have "q \<notin> set ys" using fa by (simp add: fa_ok_def)
  moreover have "pointers_ok s' r"
    by (rule pointers_add_child [OF tree t p False qt e pages ptr]) (simp add: e_def new_pointer)
  ultimately have ext: "extends r xs s ys s'" using sub qm tt by (auto simp: extends_def vm_ok_def q tabs pages)
  have "lookup s' r v = lookup s r v" for v
  proof -
    let ?js = "take 2 (indexes v)"
    have "node s r ?js = Some u \<Longrightarrow> u \<noteq> q \<and> (u = t \<longrightarrow> is = ?js)" for u
      using tree t qt path_prefix [OF p] indexes_path(1) [of v] unfolding tree_ok_def tables_def by blast
    moreover have "is \<noteq> ?js" using p by (auto simp: path_def indexes_def)
    ultimately show ?thesis using nd [of ?js] none tq(1) by (auto simp: lookup_def pages split: option.splits)
  qed
  then show ?thesis using grow ext nd [OF p] e tq by (intro exI [of _ s'] exI [of _ ys]) (simp add: q pages)
qed

lemma find_pte_create_ok:
  assumes "vm_ok xs s r" and "2 \<le> length xs"
  shows "\<exists>t s' ys. find_pte_create r vpn s = Some ((t, indexes vpn ! 2), s') \<and> extends r xs s ys s' \<and> length xs \<le> length ys + 2 \<and>
    node s' r (take 2 (indexes vpn)) = Some t \<and> (\<forall>v. lookup s' r v = lookup s r v)"
proof -
  obtain i j k where ix: "indexes vpn = [i, j, k]" by (simp add: indexes_def)
  have lt: "i < 512" "j < 512" using indexes_path(1) [of vpn] by (simp_all add: ix path_def)
  have loop: "find_pte_create_loop p (a # b # is) s = grow p a s \<bind> (\<lambda>s. find_pte_create_loop (PageTableEntry_ppn (pages s p a)) (b # is) s)"
    for p a b "is" and s :: "'a vm_state_scheme" by (simp add: grow_def pte_at_def)
  obtain s1 ys1 where 1: "grow r i s = Some s1" "extends r xs s ys1 s1" "length xs \<le> length ys1 + 1"
      "node s1 r [i] = Some (PageTableEntry_ppn (pages s1 r i))" "\<forall>v. lookup s1 r v = lookup s r v"
    using grow_ok [OF assms(1), of "[]" r i] assms(2) lt by (fastforce simp: path_def)
  have "vm_ok ys1 s1 r" "ys1 \<noteq> []" using 1(2,3) assms(2) by (auto simp: extends_def)
  then obtain s2 ys2 where 2: "grow (PageTableEntry_ppn (pages s1 r i)) j s1 = Some s2" "extends r ys1 s1 ys2 s2" "length ys1 \<le> length ys2 + 1"
      "node s2 r [i, j] = Some (PageTableEntry_ppn (pages s2 (PageTableEntry_ppn (pages s1 r i)) j))" "\<forall>v. lookup s2 r v = lookup s1 r v"
    using grow_ok [OF _ 1(4), of ys1 j] lt by (fastforce simp: path_def)
  show ?thesis
    using 1 2 extends_trans [OF 1(2) 2(2)]
    by (intro exI [of _ "PageTableEntry_ppn (pages s2 (PageTableEntry_ppn (pages s1 r i)) j)"] exI [of _ s2] exI [of _ ys2])
      (simp add: find_pte_create_def ix loop del: find_pte_create_loop.simps(3))
qed


section \<open>Mapping and unmapping\<close>

text \<open>The three indices determine the page.\<close>

lemma indexes_inj:
  assumes "take_bit 27 v = v" and "take_bit 27 w = (w :: u64)" and "indexes v = indexes w"
  shows "v = w"
proof -
  have b: "bit v n = bit w n" if n: "n < 27" for n
  proof -
    have e: "take_bit 9 (drop_bit 18 v) = take_bit 9 (drop_bit 18 w)" "take_bit 9 (drop_bit 9 v) = take_bit 9 (drop_bit 9 w)"
      "take_bit 9 v = take_bit 9 w"
      using assms(3) by (simp_all add: indexes_def index_mask word_unat_eq_iff [symmetric])
    consider "n < 9" | m where "n = m + 9" "m < 9" | m where "n = m + 18" "m < 9"
      by atomize_elim (use n in presburger)
    then show ?thesis
    proof cases
      case 1
      then show ?thesis using arg_cong [OF e(3), of "\<lambda>x. bit x n"] by (simp add: bit_take_bit_iff)
    next
      case (2 m)
      then show ?thesis using arg_cong [OF e(2), of "\<lambda>x. bit x m"] by (simp add: bit_take_bit_iff bit_drop_bit_eq add.commute)
    next
      case (3 m)
      then show ?thesis using arg_cong [OF e(1), of "\<lambda>x. bit x m"] by (simp add: bit_take_bit_iff bit_drop_bit_eq add.commute)
    qed
  qed
  have "take_bit 27 v = take_bit 27 w" by (rule bit_word_eqI) (simp add: bit_take_bit_iff b cong: conj_cong)
  with assms(1,2) show ?thesis by metis
qed

text \<open>Writing the entry of a page changes the meaning of the tree at this page only.\<close>

lemma set_pte_lookup:
  assumes ok: "vm_ok xs s r" and t: "node s r (take 2 (indexes vpn)) = Some t" and v: "take_bit 27 vpn = vpn"
    and s'_def: "s' = set_pte (t, indexes vpn ! 2) e s"
  shows "vm_ok xs s' r" "tables s' r = tables s r" "managed s' = managed s" "vm_state.more s' = vm_state.more s"
    "take_bit 27 w = w \<Longrightarrow> lookup s' r w = (if w = vpn then if PageTableEntry_is_valid e then Some e else None else lookup s r w)"
    "p \<notin> tables s r \<Longrightarrow> pages s' p = pages s p"
proof -
  let ?ls = "take 2 (indexes vpn)"
  have tree: "tree_ok s r" and ptr: "pointers_ok s r" and fa: "fa_ok xs s" and sub: "tables s r \<subseteq> managed s - set xs" using ok by (simp_all add: vm_ok_def)
  have other: "\<forall>p. p \<noteq> t \<longrightarrow> pages s' p = pages s p" by (simp add: s'_def set_pte_def)
  have ls: "path ?ls" "length ?ls = 2" by (simp_all add: indexes_def path_def)
  have tt: "t \<in> tables s r" using t ls(1) unfolding tables_def by blast
  note tb = tables_set_leaf [OF tree t ls other]
  show "tables s' r = tables s r" by (rule tb(1))
  show m: "managed s' = managed s" "vm_state.more s' = vm_state.more s" by (simp_all add: s'_def set_pte_def managed_def)
  show "p \<notin> tables s r \<Longrightarrow> pages s' p = pages s p" using other tt by auto
  have "fa_ok xs s'"
  proof -
    have "chain s' (fa_freelist s) xs" using fa sub tt other by (subst chain_cong [of _ _ s]) (auto simp: fa_ok_def)
    then show ?thesis using fa m by (simp add: fa_ok_def s'_def set_pte_def)
  qed
  then show "vm_ok xs s' r" using tb sub m pointers_set_leaf [OF tree t ls other ptr] by (simp add: vm_ok_def)
  assume w: "take_bit 27 w = w"
  let ?js = "take 2 (indexes w)"
  have nd: "node s' r ?js = node s r ?js" by (rule node_set_leaf [OF tree t ls _ other]) simp
  have key: "?js = ?ls \<Longrightarrow> indexes w ! 2 = indexes vpn ! 2 \<Longrightarrow> w = vpn"
    by (rule indexes_inj [OF w v]) (simp add: indexes_def)
  show "lookup s' r w = (if w = vpn then if PageTableEntry_is_valid e then Some e else None else lookup s r w)"
  proof (cases "w = vpn")
    case True
    then show ?thesis using nd t by (simp add: lookup_def s'_def set_pte_def)
  next
    case False
    have "pages s' u (indexes w ! 2) = pages s u (indexes w ! 2)" if u: "node s r ?js = Some u" for u
    proof (cases "u = t")
      case True
      with tree t u ls(1) indexes_path(1) [of w] have "?js = ?ls" unfolding tree_ok_def by blast
      with key False show ?thesis by (auto simp: s'_def set_pte_def)
    qed (simp add: other)
    then show ?thesis using False nd by (simp add: lookup_def split: option.split)
  qed
qed

lemma set_pte_extends:
  assumes "vm_ok xs s r" and "node s r (take 2 (indexes vpn)) = Some t" and "take_bit 27 vpn = vpn"
  shows "extends r xs s xs (set_pte (t, indexes vpn ! 2) e s)"
  using set_pte_lookup(1,2,3,4) [OF assms refl, of e] set_pte_lookup(6) [OF assms refl, of _ e] by (simp add: extends_def)

text \<open>Mapping one page.\<close>

lemma map_page:
  assumes "vm_ok xs s r" and "2 \<le> length xs" and "take_bit 27 vpn = vpn" and "lookup s r vpn = None"
  shows "\<exists>s' ys. (find_pte_create r vpn s \<bind> (\<lambda>(pte, s). if PageTableEntry_is_valid (pte_at pte s) then None
        else Some (set_pte pte (PageTableEntry_new ppn (PTE_V OR f)) s))) = Some s' \<and>
      extends r xs s ys s' \<and> length xs \<le> length ys + 2 \<and>
      (\<forall>w. take_bit 27 w = w \<longrightarrow> lookup s' r w = (if w = vpn then Some (PageTableEntry_new ppn (PTE_V OR f)) else lookup s r w))"
proof -
  obtain t s1 ys where 1: "find_pte_create r vpn s = Some ((t, indexes vpn ! 2), s1)" "extends r xs s ys s1" "length xs \<le> length ys + 2"
      "node s1 r (take 2 (indexes vpn)) = Some t" "\<forall>v. lookup s1 r v = lookup s r v"
    using find_pte_create_ok [OF assms(1,2)] by blast
  have ok: "vm_ok ys s1 r" using 1(2) by (simp add: extends_def)
  have "lookup s1 r vpn = None" using 1(5) assms(4) by simp
  then have "\<not> PageTableEntry_is_valid (pages s1 t (indexes vpn ! 2))"
    using 1(4) by (simp add: lookup_def Let_def split: if_splits)
  moreover note set_pte_lookup(5) [OF ok 1(4) assms(3) refl, of _ "PageTableEntry_new ppn (PTE_V OR f)"]
  moreover note extends_trans [OF 1(2) set_pte_extends [OF ok 1(4) assms(3)]]
  ultimately show ?thesis
    using 1 by (intro exI [of _ "set_pte (t, indexes vpn ! 2) (PageTableEntry_new ppn (PTE_V OR f)) s1"] exI [of _ ys]) (simp add: pte_at_def)
qed

lemma PageTable_map_loop_unfold:
  "PageTable_map_loop root vpn ppn final flags s =
     (find_pte_create root vpn s \<bind> (\<lambda>(pte, s). if PageTableEntry_is_valid (pte_at pte s) then None
        else Some (set_pte pte (PageTableEntry_new ppn (PTE_V OR flags)) s))) \<bind>
     (\<lambda>s. if vpn = final then Some s else PageTable_map_loop root (vpn + 1) (ppn + 1) final flags s)"
  by (subst PageTable_map_loop.simps) (auto simp: Let_def split: Option.bind_splits prod.splits)

declare PageTable_map_loop.simps [simp del]

lemma page_lt: "take_bit 27 (v :: u64) = v \<longleftrightarrow> unat v < 2 ^ 27"
  by (simp add: word_unat_eq_iff unsigned_take_bit_eq take_bit_nat_eq_self_iff)

lemma unat_next: "unat v + Suc n < 2 ^ 27 \<Longrightarrow> unat ((v :: u64) + 1) = Suc (unat v)"
  by (simp add: unat_word_ariths)

text \<open>The pages from \<open>vpn\<close> on, \<open>n + 1\<close> of them.\<close>

definition page_range :: "virt_page_num \<Rightarrow> nat \<Rightarrow> virt_page_num set" where
  "page_range vpn n = {w. unat vpn \<le> unat w \<and> unat w \<le> unat vpn + n}"

lemma page_range_Suc:
  assumes "unat vpn + Suc n < 2 ^ 27"
  shows "w \<in> page_range vpn (Suc n) \<longleftrightarrow> w = vpn \<or> w \<in> page_range (vpn + 1) n" "vpn \<notin> page_range (vpn + 1) n"
  using unat_next [OF assms] by (auto simp: page_range_def word_unat_eq_iff)

lemma PageTable_map_loop_ok:
  "vm_ok xs s r \<Longrightarrow> 2 * Suc n \<le> length xs \<Longrightarrow> unat vpn + n < 2 ^ 27 \<Longrightarrow> \<forall>w\<in>page_range vpn n. lookup s r w = None \<Longrightarrow>
   \<exists>s' ys. PageTable_map_loop r vpn ppn (vpn + of_nat n) f s = Some s' \<and> extends r xs s ys s' \<and> length xs \<le> length ys + 2 * Suc n \<and>
     (\<forall>w. take_bit 27 w = w \<longrightarrow> lookup s' r w =
        (if w \<in> page_range vpn n then Some (PageTableEntry_new (ppn + (w - vpn)) (PTE_V OR f)) else lookup s r w))"
proof (induction n arbitrary: s xs vpn ppn)
  case 0
  have v: "take_bit 27 vpn = vpn" using "0.prems"(3) by (simp add: page_lt)
  have r: "w \<in> page_range vpn 0 \<longleftrightarrow> w = vpn" for w by (auto simp: page_range_def word_unat_eq_iff)
  obtain s' ys where "(find_pte_create r vpn s \<bind> (\<lambda>(pte, s). if PageTableEntry_is_valid (pte_at pte s) then None
        else Some (set_pte pte (PageTableEntry_new ppn (PTE_V OR f)) s))) = Some s'"
      "extends r xs s ys s'" "length xs \<le> length ys + 2"
      "\<forall>w. take_bit 27 w = w \<longrightarrow> lookup s' r w = (if w = vpn then Some (PageTableEntry_new ppn (PTE_V OR f)) else lookup s r w)"
    using map_page [OF "0.prems"(1) _ v] "0.prems"(2,4) r by auto blast
  then show ?case by (subst PageTable_map_loop_unfold) (auto simp: r)
next
  case (Suc n)
  have v: "take_bit 27 vpn = vpn" using Suc.prems(3) by (simp add: page_lt)
  note rg = page_range_Suc [OF Suc.prems(3)]
  have "lookup s r vpn = None" using Suc.prems(4) rg(1) by simp
  then obtain s1 ys where 1: "(find_pte_create r vpn s \<bind> (\<lambda>(pte, s). if PageTableEntry_is_valid (pte_at pte s) then None
        else Some (set_pte pte (PageTableEntry_new ppn (PTE_V OR f)) s))) = Some s1"
      "extends r xs s ys s1" "length xs \<le> length ys + 2"
      "\<forall>w. take_bit 27 w = w \<longrightarrow> lookup s1 r w = (if w = vpn then Some (PageTableEntry_new ppn (PTE_V OR f)) else lookup s r w)"
    using map_page [OF Suc.prems(1) _ v, of ppn f] Suc.prems(2) by auto
  have b: "unat (vpn + 1) + n < 2 ^ 27" using unat_next [OF Suc.prems(3)] Suc.prems(3) by simp
  have in27: "take_bit 27 w = w" if "w \<in> page_range (vpn + 1) n" for w using that b by (auto simp: page_range_def page_lt)
  have "\<forall>w\<in>page_range (vpn + 1) n. lookup s1 r w = None" using 1(4) Suc.prems(4) rg in27 by auto
  moreover have "vm_ok ys s1 r" using 1(2) by (simp add: extends_def)
  ultimately obtain s' zs where 2: "PageTable_map_loop r (vpn + 1) (ppn + 1) (vpn + 1 + of_nat n) f s1 = Some s'" "extends r ys s1 zs s'"
      "length ys \<le> length zs + 2 * Suc n"
      "\<forall>w. take_bit 27 w = w \<longrightarrow> lookup s' r w =
         (if w \<in> page_range (vpn + 1) n then Some (PageTableEntry_new (ppn + 1 + (w - (vpn + 1))) (PTE_V OR f)) else lookup s1 r w)"
    using Suc.IH [of ys s1 "vpn + 1" "ppn + 1"] Suc.prems(2) 1(3) b by auto
  have ne: "vpn \<noteq> vpn + of_nat (Suc n)" using Suc.prems(3) by (simp add: word_unat_eq_iff unat_word_ariths unat_of_nat)
  have "PageTable_map_loop r vpn ppn (vpn + of_nat (Suc n)) f s = Some s'"
    using 1(1) 2(1) ne by (subst PageTable_map_loop_unfold) (simp add: algebra_simps)
  moreover have "lookup s' r w = (if w \<in> page_range vpn (Suc n) then Some (PageTableEntry_new (ppn + (w - vpn)) (PTE_V OR f)) else lookup s r w)"
    if "take_bit 27 w = w" for w
    using 1(4) 2(4) that rg by (auto simp: algebra_simps)
  moreover note extends_trans [OF 1(2) 2(2)]
  ultimately show ?case using 1(3) 2(3) by (intro exI [of _ s'] exI [of _ zs]) simp
qed

text \<open>Releasing a frame that is not a table leaves the tree alone.\<close>

lemma lookup_frame: "\<forall>p\<in>tables s r. pages s' p = pages s p \<Longrightarrow> lookup s' r v = lookup s r v"
proof -
  assume f: "\<forall>p\<in>tables s r. pages s' p = pages s p"
  have "node s' r (take 2 (indexes v)) = node s r (take 2 (indexes v))" by (rule node_frame [OF _ f]) simp
  moreover have "node s r (take 2 (indexes v)) = Some t \<Longrightarrow> pages s' t = pages s t" for t
    using f indexes_path(1) [of v] unfolding tables_def by blast
  ultimately show ?thesis by (simp add: lookup_def split: option.split)
qed

lemma kfree_data:
  assumes "vm_ok xs s r" and "f \<in> managed s - set xs - tables s r"
  shows "\<exists>s'. kfree f s = Some s' \<and> vm_ok (f # xs) s' r \<and> tables s' r = tables s r \<and> managed s' = managed s \<and>
    vm_state.more s' = vm_state.more s \<and> (\<forall>v. lookup s' r v = lookup s r v) \<and> (\<forall>p. p \<noteq> f \<longrightarrow> pages s' p = pages s p)"
proof -
  have fa: "fa_ok xs s" using assms(1) by (simp add: vm_ok_def)
  obtain s' where s': "kfree f s = Some s'" "fa_ok (f # xs) s'" "pages s' = (pages s)(f := (pages s f)(0 := fa_freelist s))"
      "managed s' = managed s" "vm_state.more s' = vm_state.more s"
  proof -
    have "f \<in> managed s \<and> f \<notin> set xs" using assms(2) by blast
    from kfree_ok [OF fa, of f, unfolded if_P [OF this]] that show thesis by blast
  qed
  have same: "\<forall>p\<in>tables s r. pages s' p = pages s p" using s'(3) assms(2) by auto
  have "pointers_ok s' r" by (rule pointers_frame [OF _ same]) (use assms(1) in \<open>simp add: vm_ok_def\<close>)
  moreover have "tables s' r = tables s r" "tree_ok s' r" using assms(1) tables_frame [OF same] by (simp_all add: vm_ok_def)
  moreover have "tables s r \<subseteq> managed s - set (f # xs)" using assms by (auto simp: vm_ok_def)
  ultimately have "vm_ok (f # xs) s' r" using s'(2,4) by (simp add: vm_ok_def)
  with s' \<open>tables s' r = tables s r\<close> lookup_frame [OF same] show ?thesis by (intro exI [of _ s']) simp
qed

text \<open>The frame an entry maps.\<close>

definition frame_of :: "page_table_entry \<Rightarrow> phys_page_num" where
  "frame_of e = floor_phys (phys_addr_from_size_t (PTE2PA e))"

definition unmap_page :: "phys_page_num \<Rightarrow> virt_page_num \<Rightarrow> bool \<Rightarrow> 'a vm_state_scheme \<Rightarrow> 'a vm_state_scheme option" where
  "unmap_page root v do_free s =
     (case find_pte root v s of
        None \<Rightarrow> Some s
      | Some pte \<Rightarrow> do {
          s \<leftarrow> (if do_free then kfree (frame_of (pte_at pte s)) s else Some s);
          Some (set_pte pte PageTableEntry_empty s)
        })"

lemma uvmunmap_loop_unfold:
  "uvmunmap_loop root a hi do_free s =
     (if a < hi then unmap_page root (virt_page_num_from_size_t a) do_free s \<bind> uvmunmap_loop root (a + 1) hi do_free else Some s)"
  by (subst uvmunmap_loop.simps, unfold unmap_page_def frame_of_def, rule refl)

declare uvmunmap_loop.simps [simp del]

lemma unmap_page_ok:
  assumes ok: "vm_ok xs s r" and v: "take_bit 27 v = v"
    and f: "\<And>e. do_free \<Longrightarrow> lookup s r v = Some e \<Longrightarrow> frame_of e \<in> managed s - set xs - tables s r"
  shows "\<exists>s' fs. unmap_page r v do_free s = Some s' \<and>
    set fs = (case lookup s r v of None \<Rightarrow> {} | Some e \<Rightarrow> if do_free then {frame_of e} else {}) \<and> vm_ok (fs @ xs) s' r \<and>
    tables s' r = tables s r \<and> managed s' = managed s \<and> vm_state.more s' = vm_state.more s \<and>
    (\<forall>w. take_bit 27 w = w \<longrightarrow> lookup s' r w = (if w = v then None else lookup s r w)) \<and>
    (\<forall>p. p \<notin> tables s r \<longrightarrow> p \<notin> set fs \<longrightarrow> pages s' p = pages s p)"
proof (cases "lookup s r v")
  case None
  then have "find_pte r v s = None" by (auto simp: find_pte_lookup lookup_def Let_def split: option.splits if_splits)
  with None ok show ?thesis by (intro exI [of _ s] exI [of _ "[]"]) (simp add: unmap_page_def)
next
  case (Some e)
  then obtain t where t: "node s r (take 2 (indexes v)) = Some t" "e = pages s t (indexes v ! 2)" "PageTableEntry_is_valid e"
    by (auto simp: lookup_def Let_def split: option.splits if_splits)
  have pte: "find_pte r v s = Some (t, indexes v ! 2)" "pte_at (t, indexes v ! 2) s = e" using t by (simp_all add: find_pte_lookup pte_at_def)
  define fs where "fs = (if do_free then [frame_of e] else [])"
  obtain s1 where s1: "(if do_free then kfree (frame_of e) s else Some s) = Some s1" "vm_ok (fs @ xs) s1 r" "tables s1 r = tables s r"
      "managed s1 = managed s" "vm_state.more s1 = vm_state.more s" "\<forall>v. lookup s1 r v = lookup s r v"
      "\<forall>p. p \<notin> set fs \<longrightarrow> pages s1 p = pages s p"
  proof (cases do_free)
    case True
    then show thesis using kfree_data [OF ok f [OF True Some]] that by (auto simp: fs_def)
  qed (use that ok in \<open>simp add: fs_def\<close>)
  have "set fs \<inter> tables s r = {}" using f [OF _ Some] by (cases do_free) (simp_all add: fs_def)
  then have nf: "\<forall>p\<in>tables s r. pages s1 p = pages s p" using s1(7) by blast
  have t1: "node s1 r (take 2 (indexes v)) = Some t" using t(1) node_frame [OF indexes_path(1) nf] by simp
  let ?s = "set_pte (t, indexes v ! 2) 0 s1"
  have "unmap_page r v do_free s = Some ?s" using pte s1(1) by (simp add: unmap_page_def PageTableEntry_empty_def split: if_splits)
  moreover have "lookup ?s r w = (if w = v then None else lookup s r w)" if "take_bit 27 w = w" for w
    using set_pte_lookup(5) [OF s1(2) t1 v refl that, of 0] s1(6) by simp
  moreover have "pages ?s p = pages s p" if "p \<notin> tables s r" "p \<notin> set fs" for p
    using set_pte_lookup(6) [OF s1(2) t1 v refl, of p 0] s1(3,7) that by simp
  moreover have "set fs = (case lookup s r v of None \<Rightarrow> {} | Some e \<Rightarrow> if do_free then {frame_of e} else {})" using Some by (simp add: fs_def)
  moreover note set_pte_lookup(1-4) [OF s1(2) t1 v refl, of 0] s1(3-5)
  ultimately show ?thesis by (intro exI [of _ ?s] exI [of _ fs]) simp
qed

text \<open>The pages \<open>a\<close>, \<open>a + 1\<close>, \<dots>, \<open>n\<close> of them, and the frames they map.\<close>

definition span :: "virt_page_num \<Rightarrow> nat \<Rightarrow> virt_page_num set" where
  "span a n = {w. unat a \<le> unat w \<and> unat w < unat a + n}"

definition mapped :: "'a vm_state_scheme \<Rightarrow> phys_page_num \<Rightarrow> virt_page_num set \<Rightarrow> phys_page_num set" where
  "mapped s r W = {frame_of e |w e. w \<in> W \<and> lookup s r w = Some e}"

text \<open>Each page of \<open>W\<close> maps a managed frame of its own that is neither free nor a table.\<close>

definition owned :: "phys_page_num list \<Rightarrow> 'a vm_state_scheme \<Rightarrow> phys_page_num \<Rightarrow> virt_page_num set \<Rightarrow> bool" where
  "owned xs s r W \<longleftrightarrow> mapped s r W \<subseteq> managed s - set xs - tables s r \<and>
     (\<forall>v\<in>W. \<forall>w\<in>W. \<forall>d e. lookup s r v = Some d \<longrightarrow> lookup s r w = Some e \<longrightarrow> frame_of d = frame_of e \<longrightarrow> v = w)"

lemma span_Suc:
  assumes "unat a + Suc n \<le> 2 ^ 27"
  shows "span a (Suc n) = insert a (span (a + 1) n)" "a \<notin> span (a + 1) n"
proof -
  have u: "unat (a + 1) = Suc (unat a)" using assms by (simp add: unat_word_ariths)
  show "span a (Suc n) = insert a (span (a + 1) n)" "a \<notin> span (a + 1) n"
    by (auto simp: span_def u word_unat_eq_iff)
qed

lemma mapped_insert:
  "mapped s r (insert a W) = (case lookup s r a of None \<Rightarrow> {} | Some e \<Rightarrow> {frame_of e}) \<union> mapped s r W"
  by (auto simp: mapped_def split: option.splits)

lemma span_page: "unat a + n \<le> 2 ^ 27 \<Longrightarrow> w \<in> span a n \<Longrightarrow> take_bit 27 w = w"
  by (auto simp: span_def page_lt)

lemma uvmunmap_loop_ok:
  "vm_ok xs s r \<Longrightarrow> unat a + n \<le> 2 ^ 27 \<Longrightarrow> (do_free \<Longrightarrow> owned xs s r (span a n)) \<Longrightarrow>
   \<exists>s' fs. uvmunmap_loop r a (a + of_nat n) do_free s = Some s' \<and> set fs = (if do_free then mapped s r (span a n) else {}) \<and>
     vm_ok (fs @ xs) s' r \<and> tables s' r = tables s r \<and> managed s' = managed s \<and> vm_state.more s' = vm_state.more s \<and>
     (\<forall>w. take_bit 27 w = w \<longrightarrow> lookup s' r w = (if w \<in> span a n then None else lookup s r w)) \<and>
     (\<forall>p. p \<notin> tables s r \<longrightarrow> p \<notin> set fs \<longrightarrow> pages s' p = pages s p)"
proof (induction n arbitrary: a s xs)
  case 0
  have "span a 0 = {}" "mapped s r {} = {}" by (auto simp: span_def mapped_def)
  then show ?case using "0.prems"(1) by (intro exI [of _ s] exI [of _ "[]"]) (simp add: uvmunmap_loop_unfold [of r a])
next
  case (Suc n)
  note sp = span_Suc [OF Suc.prems(2)]
  have a: "take_bit 27 a = a" using Suc.prems(2) by (simp add: page_lt)
  have lt: "a < a + of_nat (Suc n)" using Suc.prems(2) by (simp add: word_less_nat_alt unat_word_ariths unat_of_nat)
  have v: "virt_page_num_from_size_t a = a" using a by (simp add: virt_page_num_from_size_t_def take_bit_eq_mask)
  have fr: "frame_of e \<in> managed s - set xs - tables s r" if "do_free" "lookup s r a = Some e" for e
    using Suc.prems(3) that unfolding owned_def sp(1) mapped_insert by auto
  obtain s1 fs1 where 1: "unmap_page r a do_free s = Some s1"
      "set fs1 = (case lookup s r a of None \<Rightarrow> {} | Some e \<Rightarrow> if do_free then {frame_of e} else {})" "vm_ok (fs1 @ xs) s1 r"
      "tables s1 r = tables s r" "managed s1 = managed s" "vm_state.more s1 = vm_state.more s"
      "\<forall>w. take_bit 27 w = w \<longrightarrow> lookup s1 r w = (if w = a then None else lookup s r w)"
      "\<forall>p. p \<notin> tables s r \<longrightarrow> p \<notin> set fs1 \<longrightarrow> pages s1 p = pages s p"
    using unmap_page_ok [OF Suc.prems(1) a fr] by blast
  have b: "unat (a + 1) + n \<le> 2 ^ 27" using Suc.prems(2) by (simp add: unat_word_ariths)
  have same: "lookup s1 r w = lookup s r w" if "w \<in> span (a + 1) n" for w
    using 1(7) span_page [OF b that] that sp(2) by auto
  then have mp: "mapped s1 r (span (a + 1) n) = mapped s r (span (a + 1) n)" by (simp add: mapped_def cong: conj_cong)
  have own: "owned (fs1 @ xs) s1 r (span (a + 1) n)" if do_free
  proof -
    note o = Suc.prems(3) [OF that, unfolded owned_def sp(1) mapped_insert]
    have "frame_of e \<notin> set fs1" if "w \<in> span (a + 1) n" "lookup s r w = Some e" for w e
      using o that sp(2) 1(2) by (auto split: option.splits if_splits)
    then have "mapped s r (span (a + 1) n) \<inter> set fs1 = {}" by (auto simp: mapped_def)
    with o show ?thesis unfolding owned_def mp 1(4,5) by (auto simp: same)
  qed
  obtain s' fs2 where 2: "uvmunmap_loop r (a + 1) (a + 1 + of_nat n) do_free s1 = Some s'"
      "set fs2 = (if do_free then mapped s1 r (span (a + 1) n) else {})" "vm_ok (fs2 @ fs1 @ xs) s' r"
      "tables s' r = tables s1 r" "managed s' = managed s1" "vm_state.more s' = vm_state.more s1"
      "\<forall>w. take_bit 27 w = w \<longrightarrow> lookup s' r w = (if w \<in> span (a + 1) n then None else lookup s1 r w)"
      "\<forall>p. p \<notin> tables s1 r \<longrightarrow> p \<notin> set fs2 \<longrightarrow> pages s' p = pages s1 p"
    using Suc.IH [OF 1(3) b own] by blast
  have "uvmunmap_loop r a (a + of_nat (Suc n)) do_free s = Some s'"
    using lt v 1(1) 2(1) by (subst uvmunmap_loop_unfold) (simp add: algebra_simps)
  moreover have "set (fs2 @ fs1) = (if do_free then mapped s r (span a (Suc n)) else {})"
    using 1(2) 2(2) unfolding sp(1) mapped_insert mp by (auto split: option.splits)
  moreover have "\<forall>w. take_bit 27 w = w \<longrightarrow> lookup s' r w = (if w \<in> span a (Suc n) then None else lookup s r w)"
    using 1(7) 2(7) unfolding sp(1) by auto
  moreover have "\<forall>p. p \<notin> tables s r \<longrightarrow> p \<notin> set (fs2 @ fs1) \<longrightarrow> pages s' p = pages s p" using 1(4,8) 2(8) by auto
  ultimately show ?case using 1(4-6) 2(3-6) by (intro exI [of _ s'] exI [of _ "fs2 @ fs1"]) simp
qed


section \<open>Releasing a tree\<close>

text \<open>The tables below \<open>t\<close>, children first, for a tree of depth \<open>d\<close>; the tree is barren if it maps no page.\<close>

fun subtabs :: "nat \<Rightarrow> 'a vm_state_scheme \<Rightarrow> phys_page_num \<Rightarrow> phys_page_num list" where
  "subtabs 0 s t = [t]"
| "subtabs (Suc d) s t =
     concat (map (\<lambda>i. if PageTableEntry_is_valid (pages s t i) then subtabs d s (PageTableEntry_ppn (pages s t i)) else []) [0..<512]) @ [t]"

fun barren :: "nat \<Rightarrow> 'a vm_state_scheme \<Rightarrow> phys_page_num \<Rightarrow> bool" where
  "barren 0 s t \<longleftrightarrow> (\<forall>i<512. \<not> PageTableEntry_is_valid (pages s t i))"
| "barren (Suc d) s t \<longleftrightarrow>
     (\<forall>i<512. PageTableEntry_is_valid (pages s t i) \<longrightarrow> pointer_entry (pages s t i) \<and> barren d s (PageTableEntry_ppn (pages s t i)))"

abbreviation kids :: "nat \<Rightarrow> 'a vm_state_scheme \<Rightarrow> phys_page_num \<Rightarrow> nat \<Rightarrow> phys_page_num list" where
  "kids d s t i \<equiv>
     concat (map (\<lambda>i. if PageTableEntry_is_valid (pages s t i) then subtabs d s (PageTableEntry_ppn (pages s t i)) else []) [i..<512])"

lemma subtabs_self [simp]: "t \<in> set (subtabs d s t)"
  by (cases d) simp_all

lemma subtabs_cong:
  "\<forall>p\<in>set (subtabs d s t). pages s' p = pages s p \<Longrightarrow> subtabs d s' t = subtabs d s t \<and> barren d s' t = barren d s t"
proof (induction d arbitrary: t)
  case (Suc d)
  have t: "pages s' t = pages s t" using Suc.prems by simp
  have c: "subtabs d s' (PageTableEntry_ppn (pages s t i)) = subtabs d s (PageTableEntry_ppn (pages s t i)) \<and>
      barren d s' (PageTableEntry_ppn (pages s t i)) = barren d s (PageTableEntry_ppn (pages s t i))"
    if "i < 512" "PageTableEntry_is_valid (pages s t i)" for i
    using Suc.prems that by (intro Suc.IH) auto
  have "kids d s' t 0 = kids d s t 0" using c by (intro arg_cong [of _ _ concat] map_cong) (auto simp: t)
  moreover have "barren (Suc d) s' t = barren (Suc d) s t" using c by (simp add: t cong: imp_cong conj_cong)
  ultimately show ?case by simp
qed simp

lemma fa_ok_set_pte: "t \<notin> set xs \<Longrightarrow> fa_ok xs (set_pte (t, i) e s) = fa_ok xs s"
proof -
  assume t: "t \<notin> set xs"
  have "chain (set_pte (t, i) e s) a xs = chain s a xs" for a by (rule chain_cong) (use t in \<open>auto simp: set_pte_def\<close>)
  then show ?thesis by (simp add: fa_ok_def set_pte_def managed_def)
qed

lemma managed_set_pte [simp]: "managed (set_pte p e s) = managed s" "vm_state.more (set_pte p e s) = vm_state.more s"
  by (simp_all add: managed_def set_pte_def)

lemma valid_flag: "e AND ucast PTE_V \<noteq> 0 \<longleftrightarrow> PageTableEntry_is_valid e"
proof -
  have "e AND 1 = of_bool (bit e 0)" by (rule bit_word_eqI) (auto simp: bit_simps)
  then show ?thesis by (simp add: valid_iff PTE_V_def)
qed

lemma freewalk_loop_unfold:
  "freewalk_loop t i s =
     (if i \<ge> 512 then kfree t s
      else if PageTableEntry_is_valid (pages s t i) then
        if pointer_entry (pages s t i)
        then freewalk_loop (PageTableEntry_ppn (pages s t i)) 0 s \<bind> (\<lambda>s. freewalk_loop t (i + 1) (set_pte (t, i) 0 s))
        else None
      else freewalk_loop t (i + 1) s)"
  by (subst freewalk_loop.simps) (simp add: Let_def valid_flag pointer_entry_def PageTableEntry_empty_def pte_at_def)

text \<open>What \<open>freewalk\<close> does on the tables \<open>T\<close>: it frees them and touches nothing else.\<close>

definition released :: "phys_page_num list \<Rightarrow> phys_page_num set \<Rightarrow> 'a vm_state_scheme \<Rightarrow> 'a vm_state_scheme option \<Rightarrow> bool" where
  "released xs T s r \<longleftrightarrow> (\<exists>s' ys. r = Some s' \<and> fa_ok (ys @ xs) s' \<and> set ys = T \<and> managed s' = managed s \<and>
     vm_state.more s' = vm_state.more s \<and> (\<forall>p. p \<notin> T \<longrightarrow> pages s' p = pages s p))"

lemma kfree_released:
  assumes "fa_ok xs s" and "t \<in> managed s - set xs"
  shows "released xs {t} s (kfree t s)"
proof -
  have "t \<in> managed s \<and> t \<notin> set xs" using assms(2) by blast
  from kfree_ok [OF assms(1), of t, unfolded if_P [OF this]] obtain s' where s': "kfree t s = Some s'" "fa_ok (t # xs) s'"
      "pages s' = (pages s)(t := (pages s t)(0 := fa_freelist s))" "managed s' = managed s" "vm_state.more s' = vm_state.more s" by blast
  then show ?thesis unfolding released_def by (intro exI [of _ s'] exI [of _ "[t]"]) simp
qed

lemma freewalk_leaf:
  "fa_ok xs s \<Longrightarrow> t \<in> managed s - set xs \<Longrightarrow> barren 0 s t \<Longrightarrow> i \<le> 512 \<Longrightarrow> released xs {t} s (freewalk_loop t i s)"
proof (induction "512 - i" arbitrary: i)
  case 0
  then show ?case using kfree_released [of xs s t] by (subst freewalk_loop_unfold) simp
next
  case (Suc n)
  then have "i < 512" "n = 512 - (i + 1)" by simp_all
  moreover from this Suc have "released xs {t} s (freewalk_loop t (i + 1) s)" by simp
  ultimately show ?case using Suc.prems(3) by (subst freewalk_loop_unfold) simp
qed

lemma released_trans:
  assumes "released xs S s (Some s1)" and "\<And>ys. fa_ok (ys @ xs) s1 \<Longrightarrow> set ys = S \<Longrightarrow> released (ys @ xs) T s1 r" and "S \<inter> T = {}"
  shows "released xs (S \<union> T) s r"
proof -
  obtain ys where 1: "fa_ok (ys @ xs) s1" "set ys = S" "managed s1 = managed s" "vm_state.more s1 = vm_state.more s"
      "\<forall>p. p \<notin> S \<longrightarrow> pages s1 p = pages s p"
    using assms(1) unfolding released_def by auto
  obtain s' zs where 2: "r = Some s'" "fa_ok (zs @ ys @ xs) s'" "set zs = T" "managed s' = managed s1" "vm_state.more s' = vm_state.more s1"
      "\<forall>p. p \<notin> T \<longrightarrow> pages s' p = pages s1 p"
    using assms(2) [OF 1(1,2)] unfolding released_def by auto
  show ?thesis
    unfolding released_def using 1 2 by (intro exI [of _ s'] exI [of _ "zs @ ys"]) auto
qed

text \<open>Clearing an entry of \<open>t\<close>, which will be released, does not matter.\<close>

lemma released_set_pte:
  assumes "released xs T (set_pte (t, i) e s) r" and "t \<in> T"
  shows "released xs T s r"
proof -
  have "pages (set_pte (t, i) e s) p = pages s p" if "p \<notin> T" for p using that assms(2) by (auto simp: set_pte_def)
  then show ?thesis using assms(1) by (auto simp: released_def set_pte_def managed_def)
qed

lemma freewalk_table:
  assumes IH: "\<And>xs s t. fa_ok xs s \<Longrightarrow> distinct (subtabs d s t) \<Longrightarrow> set (subtabs d s t) \<subseteq> managed s - set xs \<Longrightarrow> barren d s t \<Longrightarrow>
    released xs (set (subtabs d s t)) s (freewalk_loop t 0 (s :: 'a vm_state_scheme))"
  shows "fa_ok xs s \<Longrightarrow> distinct (kids d s t i @ [t]) \<Longrightarrow> set (kids d s t i @ [t]) \<subseteq> managed s - set xs \<Longrightarrow> i \<le> 512 \<Longrightarrow>
    (\<forall>j<512. i \<le> j \<longrightarrow> PageTableEntry_is_valid (pages s t j) \<longrightarrow> pointer_entry (pages s t j) \<and> barren d s (PageTableEntry_ppn (pages s t j))) \<Longrightarrow>
    released xs (set (kids d s t i @ [t])) s (freewalk_loop t i (s :: 'a vm_state_scheme))"
proof (induction "512 - i" arbitrary: i xs s)
  case 0
  then show ?case using kfree_released [of xs s t] by (subst freewalk_loop_unfold) simp
next
  case (Suc n)
  then have i: "i < 512" "n = 512 - (i + 1)" by simp_all
  have upt: "[i..<512] = i # [i + 1..<512]" using i by (simp add: upt_conv_Cons)
  show ?case
  proof (cases "PageTableEntry_is_valid (pages s t i)")
    case False
    then have k: "kids d s t i = kids d s t (i + 1)" by (simp add: upt del: upt_Suc)
    have "released xs (set (kids d s t (i + 1) @ [t])) s (freewalk_loop t (i + 1) s)"
      by (rule Suc.hyps(1) [OF i(2)]) (use Suc.prems i k in auto)
    then show ?thesis using False i by (subst freewalk_loop_unfold) (simp add: k)
  next
    case True
    let ?c = "PageTableEntry_ppn (pages s t i)"
    have k: "kids d s t i = subtabs d s ?c @ kids d s t (i + 1)" using True by (simp add: upt del: upt_Suc)
    have ptr: "pointer_entry (pages s t i)" "barren d s ?c" using Suc.prems(5) True i by auto
    have sub: "distinct (subtabs d s ?c)" "set (subtabs d s ?c) \<subseteq> managed s - set xs" "t \<notin> set (subtabs d s ?c)" "t \<notin> set xs"
      "set (subtabs d s ?c) \<inter> set (kids d s t (i + 1) @ [t]) = {}"
      using Suc.prems(2,3) k by auto
    have c: "released xs (set (subtabs d s ?c)) s (freewalk_loop ?c 0 s)" by (rule IH [OF Suc.prems(1) sub(1,2) ptr(2)])
    then obtain s1 where s1: "freewalk_loop ?c 0 s = Some s1" unfolding released_def by blast
    have pg: "pages s1 p = pages s p" if "p \<notin> set (subtabs d s ?c)" for p using c s1 that unfolding released_def by auto
    have mg: "managed s1 = managed s" using c s1 unfolding released_def by auto
    let ?s = "set_pte (t, i) 0 s1"
    have tj: "pages ?s t j = pages s t j" if "j \<noteq> i" for j using that pg sub(3) by (simp add: set_pte_def)
    have other: "subtabs d ?s (PageTableEntry_ppn (pages s t j)) = subtabs d s (PageTableEntry_ppn (pages s t j)) \<and>
        barren d ?s (PageTableEntry_ppn (pages s t j)) = barren d s (PageTableEntry_ppn (pages s t j))"
      if "i + 1 \<le> j" "j < 512" "PageTableEntry_is_valid (pages s t j)" for j
    proof (rule subtabs_cong, intro ballI)
      fix p assume "p \<in> set (subtabs d s (PageTableEntry_ppn (pages s t j)))"
      then have "p \<in> set (kids d s t (i + 1))" using that by auto
      then have "p \<notin> set (subtabs d s ?c)" "p \<noteq> t" using sub(5) Suc.prems(2) k by auto
      then show "pages ?s p = pages s p" using pg by (simp add: set_pte_def)
    qed
    have k': "kids d ?s t (i + 1) = kids d s t (i + 1)"
      using tj other by (intro arg_cong [of _ _ concat] map_cong) auto
    have rest: "released (ys @ xs) (set (kids d s t (i + 1) @ [t])) s1 (freewalk_loop t (i + 1) ?s)"
      if ys: "fa_ok (ys @ xs) s1" "set ys = set (subtabs d s ?c)" for ys
    proof (rule released_set_pte)
      have m: "managed ?s = managed s" by (simp add: mg)
      show "released (ys @ xs) (set (kids d s t (i + 1) @ [t])) ?s (freewalk_loop t (i + 1) ?s)"
        unfolding k' [symmetric]
      proof (rule Suc.hyps(1) [OF i(2)])
        show "fa_ok (ys @ xs) ?s" using ys sub by (simp add: fa_ok_set_pte)
        show "distinct (kids d ?s t (i + 1) @ [t])" using Suc.prems(2) unfolding k' k by auto
        show "set (kids d ?s t (i + 1) @ [t]) \<subseteq> managed ?s - set (ys @ xs)"
          using Suc.prems(2,3) ys(2) sub(5) unfolding k' m k by auto
        show "\<forall>j<512. i + 1 \<le> j \<longrightarrow> PageTableEntry_is_valid (pages ?s t j) \<longrightarrow>
            pointer_entry (pages ?s t j) \<and> barren d ?s (PageTableEntry_ppn (pages ?s t j))"
          using Suc.prems(5) tj other by auto
      qed (use i in simp)
    qed simp
    have "released xs (set (subtabs d s ?c) \<union> set (kids d s t (i + 1) @ [t])) s (freewalk_loop t (i + 1) ?s)"
      by (rule released_trans [OF c [unfolded s1] rest sub(5)])
    then show ?thesis using True ptr s1 i by (subst freewalk_loop_unfold) (simp add: k Un_assoc)
  qed
qed

lemma freewalk_ok:
  "fa_ok xs s \<Longrightarrow> distinct (subtabs d s t) \<Longrightarrow> set (subtabs d s t) \<subseteq> managed s - set xs \<Longrightarrow> barren d s t \<Longrightarrow>
   released xs (set (subtabs d s t)) s (freewalk_loop t 0 s)"
proof (induction d arbitrary: xs s t)
  case 0
  then show ?case using freewalk_leaf [of xs s t 0] by simp
next
  case (Suc d)
  show ?case using freewalk_table [OF Suc.IH, of xs s t 0] Suc.prems by simp
qed

text \<open>The tables of a well-formed tree, as a list.\<close>

definition short :: "nat \<Rightarrow> nat list \<Rightarrow> bool" where "short d is \<longleftrightarrow> length is \<le> d \<and> (\<forall>i\<in>set is. i < 512)"

lemma short_Cons: "short (Suc d) (i # is) \<longleftrightarrow> i < 512 \<and> short d is"
  by (auto simp: short_def)

lemma set_subtabs: "set (subtabs d s t) = {p. \<exists>is. short d is \<and> node s t is = Some p}"
proof (induction d arbitrary: t)
  case 0
  have "short 0 is \<longleftrightarrow> is = []" for "is" by (auto simp: short_def)
  then show ?case by auto
next
  case (Suc d)
  have "(\<exists>is. short (Suc d) is \<and> node s t is = Some p) \<longleftrightarrow>
      p = t \<or> (\<exists>i<512. PageTableEntry_is_valid (pages s t i) \<and> (\<exists>is. short d is \<and> node s (PageTableEntry_ppn (pages s t i)) is = Some p))" for p
  proof
    assume "\<exists>is. short (Suc d) is \<and> node s t is = Some p"
    then obtain "is" where *: "short (Suc d) is" "node s t is = Some p" by blast
    then show "p = t \<or> (\<exists>i<512. PageTableEntry_is_valid (pages s t i) \<and> (\<exists>is. short d is \<and> node s (PageTableEntry_ppn (pages s t i)) is = Some p))"
      by (cases "is") (auto simp: short_Cons split: if_splits)
  next
    assume "p = t \<or> (\<exists>i<512. PageTableEntry_is_valid (pages s t i) \<and> (\<exists>is. short d is \<and> node s (PageTableEntry_ppn (pages s t i)) is = Some p))"
    then show "\<exists>is. short (Suc d) is \<and> node s t is = Some p"
    proof (elim disjE exE conjE)
      assume "p = t"
      then show ?thesis by (intro exI [of _ "[]"]) (simp add: short_def)
    next
      fix i "is" assume "i < 512" "PageTableEntry_is_valid (pages s t i)" "short d is" "node s (PageTableEntry_ppn (pages s t i)) is = Some p"
      then show ?thesis by (intro exI [of _ "i # is"]) (simp add: short_Cons)
    qed
  qed
  then show ?case using Suc.IH by (auto split: if_splits)
qed

lemma distinct_concat_map:
  "distinct xs \<Longrightarrow> (\<And>x. x \<in> set xs \<Longrightarrow> distinct (f x)) \<Longrightarrow>
   (\<And>x y. x \<in> set xs \<Longrightarrow> y \<in> set xs \<Longrightarrow> x \<noteq> y \<Longrightarrow> set (f x) \<inter> set (f y) = {}) \<Longrightarrow> distinct (concat (map f xs))"
  by (induction xs) (auto; blast)+

lemma distinct_subtabs:
  "(\<And>is js p. short d is \<Longrightarrow> short d js \<Longrightarrow> node s t is = Some p \<Longrightarrow> node s t js = Some p \<Longrightarrow> is = js) \<Longrightarrow> distinct (subtabs d s t)"
proof (induction d arbitrary: t)
  case (Suc d)
  let ?c = "\<lambda>i. PageTableEntry_ppn (pages s t i)" and ?f = "\<lambda>i. if PageTableEntry_is_valid (pages s t i) then subtabs d s (PageTableEntry_ppn (pages s t i)) else []"
  have path: "\<exists>is. short (Suc d) (i # is) \<and> node s t (i # is) = Some p" if "p \<in> set (?f i)" "i < 512" for i p
    using that by (auto simp: set_subtabs short_Cons split: if_splits)
  have "distinct (kids d s t 0)"
  proof (rule distinct_concat_map)
    show "distinct (?f i)" if "i \<in> set [0..<512]" for i
    proof (cases "PageTableEntry_is_valid (pages s t i)")
      case True
      have "distinct (subtabs d s (?c i))"
      proof (rule Suc.IH)
        fix "is" js p assume "short d is" "short d js" "node s (?c i) is = Some p" "node s (?c i) js = Some p"
        then have "i # is = i # js" using that True by (intro Suc.prems [of _ _ p]) (simp_all add: short_Cons)
        then show "is = js" by simp
      qed
      with True show ?thesis by simp
    qed simp
    show "set (?f i) \<inter> set (?f j) = {}" if "i \<in> set [0..<512]" "j \<in> set [0..<512]" "i \<noteq> j" for i j
      using path [of _ i] path [of _ j] Suc.prems that by fastforce
  qed simp
  moreover have "t \<notin> set (kids d s t 0)"
  proof
    assume "t \<in> set (kids d s t 0)"
    then obtain i where "i < 512" "t \<in> set (?f i)" by auto
    with path obtain "is" where "short (Suc d) (i # is)" "node s t (i # is) = Some t" by blast
    with Suc.prems [of "[]" "i # is" t] show False by (simp add: short_def)
  qed
  ultimately show ?case by simp
qed simp

text \<open>Every triple of indices is that of a page.\<close>

lemma indexes_surj:
  assumes "i < 512" and "j < 512" and "k < 512"
  shows "\<exists>v. take_bit 27 v = v \<and> indexes v = [i, j, k]"
proof -
  define m where "m = i * 2 ^ 18 + j * 2 ^ 9 + k"
  define v :: u64 where "v = of_nat m"
  have "m < 2 ^ 27" using assms by (simp add: m_def)
  then have "unat v = m" by (simp add: v_def unat_of_nat)
  then have u: "unat v = i * 2 ^ 18 + j * 2 ^ 9 + k" "unat v < 2 ^ 27" using \<open>m < 2 ^ 27\<close> by (simp_all add: m_def)
  have s18: "(i * 2 ^ 18 + j * 2 ^ 9 + k) div 2 ^ 18 mod 2 ^ 9 = i" using assms by simp
  have s9: "(i * 2 ^ 18 + j * 2 ^ 9 + k) div 2 ^ 9 mod 2 ^ 9 = j"
  proof -
    have "i * 2 ^ 18 + j * 2 ^ 9 + k = (i * 512 + j) * 512 + k" by simp
    then have "(i * 2 ^ 18 + j * 2 ^ 9 + k) div 2 ^ 9 = i * 512 + j" using assms(3) by simp
    then show ?thesis using assms(2) by simp
  qed
  have "(i * 2 ^ 18 + j * 2 ^ 9 + k) mod 2 ^ 9 = ((i * 512 + j) * 512 + k) mod 512" by (simp add: algebra_simps)
  then have s0: "(i * 2 ^ 18 + j * 2 ^ 9 + k) mod 2 ^ 9 = k" using assms(3) by (simp only: mod_mult_self3 mod_less)
  have "indexes v = [i, j, k]"
    using s18 s9 s0 by (simp add: indexes_def index_mask take_bit_eq_mod drop_bit_eq_div unat_mod unat_div u(1))
  then show ?thesis using u(2) by (auto simp: page_lt)
qed

lemma path_short: "path is \<longleftrightarrow> short 2 is"
  by (simp add: path_def short_def)

lemma vm_ok_subtabs:
  assumes "vm_ok xs s r"
  shows "set (subtabs 2 s r) = tables s r" "distinct (subtabs 2 s r)"
  using assms unfolding vm_ok_def tree_ok_def
  by (auto simp: set_subtabs tables_def path_short intro!: distinct_subtabs)

lemma vm_ok_barren:
  assumes ok: "vm_ok xs s r" and none: "\<And>v. take_bit 27 v = v \<Longrightarrow> lookup s r v = None"
  shows "barren 2 s r"
proof -
  have ptr: "pointer_entry (pages s p i)" if "path (is @ [i])" "node s r is = Some p" "PageTableEntry_is_valid (pages s p i)" for "is" i p
    using ok that by (auto simp: vm_ok_def pointers_ok_def)
  have leaf: "\<not> PageTableEntry_is_valid (pages s t k)" if ijk: "i < 512" "j < 512" "k < 512" "node s r [i, j] = Some t" for i j k t
  proof -
    obtain v where v: "take_bit 27 v = v" "indexes v = [i, j, k]" using indexes_surj [OF ijk(1-3)] by blast
    show ?thesis using none [OF v(1)] ijk(4) by (simp add: lookup_def v(2) Let_def split: if_splits)
  qed
  have "barren (Suc (Suc 0)) s r"
    unfolding barren.simps
  proof (intro allI impI conjI)
    fix i assume i: "i < 512" "PageTableEntry_is_valid (pages s r i)"
    then show "pointer_entry (pages s r i)" by (intro ptr [of "[]"]) (simp_all add: path_def)
    fix j assume j: "j < 512" "PageTableEntry_is_valid (pages s (PageTableEntry_ppn (pages s r i)) j)"
    then show "pointer_entry (pages s (PageTableEntry_ppn (pages s r i)) j)"
      using i by (intro ptr [of "[i]"]) (simp_all add: path_def)
    fix k :: nat assume "k < 512"
    then show "\<not> PageTableEntry_is_valid (pages s (PageTableEntry_ppn (pages s (PageTableEntry_ppn (pages s r i)) j)) k)"
      using i j by (intro leaf [of i j k]) simp_all
  qed
  then show ?thesis by (simp add: numeral_2_eq_2)
qed

lemma freewalk_tree:
  assumes "vm_ok xs s r" and "\<And>v. take_bit 27 v = v \<Longrightarrow> lookup s r v = None"
  shows "released xs (tables s r) s (freewalk r s)"
  using freewalk_ok [of xs s 2 r] vm_ok_subtabs [OF assms(1)] vm_ok_barren [OF assms] assms(1)
  by (simp add: freewalk_def vm_ok_def)

end
