(* ===== verification/Address_Props.thy ===== *)
theory Address_Props
  imports Address_Laws
begin

text \<open>
  The properties of frames and page tables: the frame allocator gives out each free frame once, mapping refines the update of
  a map from virtual pages to entries, and releasing an address space gives all of its memory back.
\<close>

section \<open>Initialisation\<close>

lemma push_run_bounds: "push_run p s = Some s' \<Longrightarrow> fa_start s' = fa_start s \<and> fa_end s' = fa_end s"
  by (auto simp: push_run_def set_free_map_def set_next_run_def Let_def split: if_splits)

declare StackFrameAllocator_init_loop.simps [simp del]

lemma init_loop_ok:
  "fa_ok xs s \<Longrightarrow> set xs = {p. v \<le> p \<and> p < fa_end s} \<Longrightarrow> fa_start s \<le> v \<Longrightarrow> v \<le> fa_end s \<Longrightarrow>
   \<exists>s' ys. StackFrameAllocator_init_loop (fa_start s) v s = Some s' \<and> fa_ok ys s' \<and> set ys = managed s \<and> managed s' = managed s"
proof (induction "unat v" arbitrary: v s xs)
  case 0
  then have "v = 0" "fa_start s = 0" by (simp_all add: unat_eq_0)
  with 0 show ?case by (subst StackFrameAllocator_init_loop.simps) (auto simp: managed_def)
next
  case (Suc n)
  have v0: "v \<noteq> 0" using Suc.hyps(2) by auto
  have v: "v \<noteq> 0" "unat (v - 1) = n" using v0 Suc.hyps(2) unat_minus_one [OF v0] by simp_all
  show ?case
  proof (cases "v > fa_start s")
    case False
    then have "v = fa_start s" using Suc.prems(3) by simp
    then show ?thesis using Suc.prems by (subst StackFrameAllocator_init_loop.simps) (auto simp: managed_def)
  next
    case True
    have le: "fa_start s \<le> v - 1" using True v by (simp add: word_less_nat_alt word_le_nat_alt unat_minus_one)
    have lt: "v - 1 < v" using v(1) by (simp add: word_less_nat_alt measure_unat)
    have m: "v - 1 \<in> managed s" using le less_le_trans [OF lt Suc.prems(4)] by (simp add: managed_def)
    have nx: "v - 1 \<notin> set xs" using lt unfolding Suc.prems(2) mem_Collect_eq not_le [symmetric] by blast
    obtain s1 where s1: "push_run (v - 1) s = Some s1" "fa_ok ((v - 1) # xs) s1" "managed s1 = managed s"
      using push_run_ok [OF Suc.prems(1) m nx] by blast
    note b = push_run_bounds [OF s1(1)]
    have nxt: "p \<in> set ((v - 1) # xs) \<longleftrightarrow> v - 1 \<le> p \<and> p < fa_end s" for p
    proof -
      have "v - 1 \<le> p \<longleftrightarrow> p = v - 1 \<or> v \<le> p"
        using v Suc.hyps(2) by (auto simp: word_le_nat_alt word_unat_eq_iff)
      moreover have "v - 1 < fa_end s" by (rule less_le_trans [OF lt Suc.prems(4)])
      ultimately show ?thesis unfolding list.set Suc.prems(2) by blast
    qed
    have "\<exists>s' ys. StackFrameAllocator_init_loop (fa_start s1) (v - 1) s1 = Some s' \<and> fa_ok ys s' \<and> set ys = managed s1 \<and> managed s' = managed s1"
      by (rule Suc.hyps(1) [OF v(2) [symmetric] s1(2)]) (use b nxt le less_le_trans [OF lt Suc.prems(4)] in \<open>auto intro: less_imp_le\<close>)
    then show ?thesis using True s1 b by (subst StackFrameAllocator_init_loop.simps) simp
  qed
qed

lemma frame_alloctor_init_ok:
  assumes "KERNBASE \<le> kernelend" and "kernelend \<le> PHYSTOP"
  shows "\<exists>s' xs. frame_alloctor_init kernelend s = Some s' \<and> fa_ok xs s' \<and> set xs = managed s' \<and>
    managed s' = {p. unat p * 4096 < unat PHYSTOP \<and> unat kernelend \<le> unat p * 4096}"
proof -
  have u: "unat KERNBASE = 0x80200000" "unat PHYSTOP = 0x88200000" by (simp_all add: KERNBASE_def PHYSTOP_def)
  have k: "0x80200000 \<le> unat kernelend" "unat kernelend \<le> 0x88200000" using assms u by (simp_all add: word_le_nat_alt)
  have small: "phys_addr_from_size_t a = a" if "unat a \<le> 0x88200000" for a
  proof -
    have "take_bit 56 a = a" using that by (simp add: word_unat_eq_iff unsigned_take_bit_eq take_bit_nat_eq_self)
    then show ?thesis by (simp add: phys_addr_from_size_t_def take_bit_eq_mask)
  qed
  have up: "unat (ceil_phys a) = (unat a + 4095) div 4096" if "unat a \<le> 0x88200000" for a
  proof -
    have "unat (a + PAGE_SIZE - 1) = unat a + 4095" using that by (simp add: PAGE_SIZE_def unat_word_ariths)
    then show ?thesis by (simp add: ceil_phys_def PAGE_SIZE_def unat_div)
  qed
  let ?l = "ceil_phys (phys_addr_from_size_t kernelend)" and ?r = "ceil_phys (phys_addr_from_size_t PHYSTOP)"
  have l: "unat ?l = (unat kernelend + 4095) div 4096" and r: "unat ?r = 0x88200"
    using small [of kernelend] small [of PHYSTOP] up [of kernelend] up [of PHYSTOP] k(2) u by simp_all
  define t where "t = (StackFrameAllocator_new s)\<lparr>fa_start := ?l, fa_end := ?r\<rparr>"
  have "0x80200 \<le> (unat kernelend + 4095) div 4096" "(unat kernelend + 4095) div 4096 \<le> 0x88200" using k by simp_all
  then have lr: "0x80200 \<le> ?l" "?l \<le> ?r" "?r \<le> 0x88200" using l r by (simp_all add: word_le_nat_alt)
  have ok: "fa_ok [] t" using lr by (simp add: fa_ok_def t_def StackFrameAllocator_new_def)
  have "\<exists>s' ys. StackFrameAllocator_init_loop (fa_start t) ?r t = Some s' \<and> fa_ok ys s' \<and> set ys = managed t \<and> managed s' = managed t"
    by (rule init_loop_ok [OF ok]) (use lr in \<open>auto simp: t_def\<close>)
  then obtain s' ys where s': "StackFrameAllocator_init_loop ?l ?r t = Some s'" "fa_ok ys s'" "set ys = managed t" "managed s' = managed t"
    by (auto simp: t_def)
  have "?l \<le> p \<and> p < ?r \<longleftrightarrow> unat p * 4096 < unat PHYSTOP \<and> unat kernelend \<le> unat p * 4096" for p
    unfolding word_le_nat_alt word_less_nat_alt l r u by auto
  then have "managed t = {p. unat p * 4096 < unat PHYSTOP \<and> unat kernelend \<le> unat p * 4096}"
    by (simp add: managed_def t_def)
  then show ?thesis
    using s' by (intro exI [of _ s'] exI [of _ ys]) (simp add: frame_alloctor_init_def StackFrameAllocator_init_def t_def)
qed

text \<open>A cleared page is a tree that maps nothing.\<close>

lemma fresh_root:
  assumes "fa_ok (r # xs) s"
  shows "\<exists>s'. kalloc s = Some (r, s') \<and> vm_ok xs s' r \<and> tables s' r = {r} \<and> (\<forall>v. lookup s' r v = None)"
proof -
  obtain s' where s': "kalloc s = Some (r, s')" "fa_ok xs s'" "pages s' = (pages s)(r := (\<lambda>_. 0))" "managed s' = managed s"
    using kalloc_ok [OF assms] by blast
  have node: "node s' r is = (if is = [] then Some r else None)" for "is" by (cases "is") (simp_all add: s'(3))
  then have t: "tables s' r = {r}" by (auto simp: tables_def path_def)
  moreover have "vm_ok xs s' r"
    using s' assms t by (auto simp: vm_ok_def tree_ok_def pointers_ok_def node fa_ok_def split: if_splits)
  moreover have "lookup s' r v = None" for v
  proof -
    have "take 2 (indexes v) \<noteq> []" by (simp add: indexes_def)
    then show ?thesis by (simp add: lookup_def node)
  qed
  ultimately show ?thesis using s'(1) by blast
qed


section \<open>Properties\<close>

text \<open>Sequences of allocations and releases; \<open>held\<close> are the frames given out.\<close>

datatype frame_op = Alloc | Free phys_page_num

fun frame_run :: "frame_op list \<Rightarrow> phys_page_num list \<Rightarrow> 'a vm_state_scheme \<Rightarrow> (phys_page_num list \<times> 'a vm_state_scheme) option" where
  "frame_run [] held s = Some (held, s)"
| "frame_run (Alloc # ops) held s = do { (p, s) \<leftarrow> kalloc s; frame_run ops (if p = 0 then held else p # held) s }"
| "frame_run (Free p # ops) held s = do { s \<leftarrow> kfree p s; frame_run ops (removeAll p held) s }"

definition frames_ok :: "phys_page_num list \<Rightarrow> phys_page_num list \<Rightarrow> 'a vm_state_scheme \<Rightarrow> bool" where
  "frames_ok xs held s \<longleftrightarrow> fa_ok xs s \<and> distinct held \<and> set xs \<union> set held = managed s \<and> set xs \<inter> set held = {}"

lemma frames_alloc:
  assumes "frames_ok xs held s"
  shows "\<exists>p s' ys. kalloc s = Some (p, s') \<and> frames_ok ys (if p = 0 then held else p # held) s' \<and> managed s' = managed s \<and>
    (p = 0 \<longleftrightarrow> set held = managed s) \<and> (p \<noteq> 0 \<longrightarrow> p \<in> managed s - set held \<and> pages s' = (pages s)(p := (\<lambda>_. 0)))"
proof (cases xs)
  case Nil
  then show ?thesis using assms kalloc_empty [of s] by (auto simp: frames_ok_def)
next
  case (Cons p ys)
  then obtain s' where s': "kalloc s = Some (p, s')" "fa_ok ys s'" "pages s' = (pages s)(p := (\<lambda>_. 0))" "managed s' = managed s"
    using assms kalloc_ok [of p ys s] by (auto simp: frames_ok_def)
  have m: "p \<in> managed s" "p \<notin> set held" "p \<notin> set ys" using assms by (auto simp: frames_ok_def Cons fa_ok_def)
  have "p \<noteq> 0" using managed_page(1) [of xs s p] assms m(1) by (simp add: frames_ok_def)
  moreover have "frames_ok ys (p # held) s'" using assms s' m by (auto simp: frames_ok_def Cons)
  ultimately show ?thesis using s' m by (intro exI [of _ p] exI [of _ s'] exI [of _ ys]) auto
qed

lemma frames_free:
  assumes "frames_ok xs held s"
  shows "\<exists>s' ys. kfree p s = Some s' \<and> frames_ok ys (removeAll p held) s' \<and> managed s' = managed s"
proof (cases "p \<in> set held")
  case True
  then have c: "p \<in> managed s \<and> p \<notin> set xs" and fa: "fa_ok xs s" using assms by (auto simp: frames_ok_def)
  from kfree_ok [OF fa, of p, unfolded if_P [OF c]] obtain s' where "kfree p s = Some s'" "fa_ok (p # xs) s'" "managed s' = managed s" by blast
  then show ?thesis using assms True by (intro exI [of _ s'] exI [of _ "p # xs"]) (auto simp: frames_ok_def distinct_removeAll)
next
  case False
  then have c: "\<not> (p \<in> managed s \<and> p \<notin> set xs)" and fa: "fa_ok xs s" using assms by (auto simp: frames_ok_def)
  from kfree_ok [OF fa, of p, unfolded if_not_P [OF c]] show ?thesis using assms False by (auto simp: frames_ok_def)
qed

lemma frames_run:
  "frames_ok xs held s \<Longrightarrow> \<exists>held' s' ys. frame_run ops held s = Some (held', s') \<and> frames_ok ys held' s' \<and> managed s' = managed s"
proof (induction ops arbitrary: xs held s)
  case Nil
  then show ?case by auto
next
  case (Cons op ops)
  show ?case
  proof (cases op)
    case Alloc
    obtain p s1 ys where "kalloc s = Some (p, s1)" "frames_ok ys (if p = 0 then held else p # held) s1" "managed s1 = managed s"
      using frames_alloc [OF Cons.prems] by blast
    then show ?thesis using Cons.IH [of ys "if p = 0 then held else p # held" s1] Alloc by (simp del: fun_upd_apply)
  next
    case (Free p)
    obtain s1 ys where "kfree p s = Some s1" "frames_ok ys (removeAll p held) s1" "managed s1 = managed s"
      using frames_free [OF Cons.prems] by blast
    then show ?thesis using Cons.IH [of ys "removeAll p held" s1] Free by simp
  qed
qed

text \<open>C35. From initialisation on, under any sequence of allocations and releases - of frames that are held, that are free already, or
  that are not managed at all - the frames held are different, the number of free frames is right, and an allocation
  returns a cleared frame that nobody holds, touching no other page, or page 0 exactly when all frames are held.\<close>

theorem frames_conserved:
  assumes "KERNBASE \<le> kernelend" and "kernelend \<le> PHYSTOP"
  shows "\<exists>s0. frame_alloctor_init kernelend s = Some s0 \<and>
    managed s0 = {p. unat p * 4096 < unat PHYSTOP \<and> unat kernelend \<le> unat p * 4096} \<and>
    (\<forall>ops. \<exists>held s1 p s2. frame_run ops [] s0 = Some (held, s1) \<and> distinct held \<and> set held \<subseteq> managed s0 \<and>
      unat (free_page_count s1) + length held = card (managed s0) \<and> kalloc s1 = Some (p, s2) \<and>
      (p = 0 \<longleftrightarrow> set held = managed s0) \<and> (p \<noteq> 0 \<longrightarrow> p \<in> managed s0 - set held \<and> pages s2 = (pages s1)(p := (\<lambda>_. 0))))"
proof -
  obtain s0 xs where s0: "frame_alloctor_init kernelend s = Some s0" "fa_ok xs s0" "set xs = managed s0"
      "managed s0 = {p. unat p * 4096 < unat PHYSTOP \<and> unat kernelend \<le> unat p * 4096}"
    using frame_alloctor_init_ok [OF assms, of s] by blast
  have "\<exists>held s1 p s2. frame_run ops [] s0 = Some (held, s1) \<and> distinct held \<and> set held \<subseteq> managed s0 \<and>
      unat (free_page_count s1) + length held = card (managed s0) \<and> kalloc s1 = Some (p, s2) \<and>
      (p = 0 \<longleftrightarrow> set held = managed s0) \<and> (p \<noteq> 0 \<longrightarrow> p \<in> managed s0 - set held \<and> pages s2 = (pages s1)(p := (\<lambda>_. 0)))" for ops
  proof -
    have "frames_ok xs [] s0" using s0 by (simp add: frames_ok_def)
    then obtain held s1 ys where r: "frame_run ops [] s0 = Some (held, s1)" "frames_ok ys held s1" "managed s1 = managed s0"
      using frames_run by blast
    obtain p s2 where a: "kalloc s1 = Some (p, s2)" "p = 0 \<longleftrightarrow> set held = managed s1"
        "p \<noteq> 0 \<longrightarrow> p \<in> managed s1 - set held \<and> pages s2 = (pages s1)(p := (\<lambda>_. 0))"
      using frames_alloc [OF r(2)] by blast
    have "card (managed s1) = length ys + length held"
      using r(2) card_Un_disjoint [of "set ys" "set held"] by (simp add: frames_ok_def fa_ok_def distinct_card)
    moreover have "length ys \<le> 2 ^ 20"
    proof -
      have "unat ` set ys \<subseteq> {..<2 ^ 20}"
        using r(2) by (auto simp: frames_ok_def fa_ok_def managed_def word_less_nat_alt word_le_nat_alt)
      then have "card (unat ` set ys) \<le> 2 ^ 20" using card_mono [of "{..<2 ^ 20 :: nat}"] by simp
      moreover have "inj_on unat (set ys)" by (auto simp: inj_on_def word_unat_eq_iff)
      ultimately show ?thesis using r(2) by (simp add: card_image frames_ok_def fa_ok_def distinct_card)
    qed
    ultimately have "unat (free_page_count s1) + length held = card (managed s1)"
      using r(2) by (simp add: free_page_count_def frames_ok_def fa_ok_def unat_of_nat)
    with r a show ?thesis by (intro exI [of _ held] exI [of _ s1] exI [of _ p] exI [of _ s2]) (auto simp: frames_ok_def)
  qed
  with s0 show ?thesis by blast
qed

text \<open>C33. Mapping a range of virtual memory that is not mapped yet, with two free frames for each page of it, succeeds; afterwards
  \<^verbatim>\<open>find_pte\<close> finds exactly the new entries in the range, each with its frame and flags, and what it found before outside of it;
  no page of memory but the tables has changed.\<close>

theorem PageTable_map_refines:
  assumes "vm_ok xs s r" and "0 < sz" and "unat va + unat sz \<le> 2 ^ 39"
    and "n = (unat va + unat sz - 1) div 4096 - unat va div 4096" and "2 * Suc n \<le> length xs"
    and "\<forall>w\<in>page_range (floor_virts va) n. find_pte r w s = None"
  shows "\<exists>s' ys. PageTable_map r va pa sz f s = Some s' \<and> vm_ok ys s' r \<and> tables s r \<subseteq> tables s' r \<and>
    (\<forall>w. take_bit 27 w = w \<longrightarrow> map_option (\<lambda>p. pte_at p s') (find_pte r w s') =
      (if w \<in> page_range (floor_virts va) n then Some (PageTableEntry_new (floor_phys pa + (w - floor_virts va)) (PTE_V OR f))
       else map_option (\<lambda>p. pte_at p s) (find_pte r w s))) \<and>
    (\<forall>p. p \<notin> tables s' r \<longrightarrow> pages s' p = pages s p)"
proof -
  have lk: "map_option (\<lambda>p. pte_at p t) (find_pte r w t) = lookup t r w" for w and t :: "'a vm_state_scheme"
    by (simp add: find_pte_lookup lookup_def pte_at_def Let_def split: option.split)
  have none: "\<forall>w\<in>page_range (floor_virts va) n. lookup s r w = None" using assms(6) by (simp flip: lk)
  have div: "unat (a div PAGE_SIZE) = unat a div 4096" for a :: u64 by (simp add: PAGE_SIZE_def unat_div)
  have sum: "unat (va + sz - 1) = unat va + unat sz - 1"
  proof -
    have sz: "0 < unat sz" using assms(2) by (simp add: word_less_nat_alt)
    have e: "va + sz - 1 = of_nat (unat va + unat sz - 1)" using sz by (simp add: of_nat_diff)
    show ?thesis using assms(3) unfolding e by (simp add: unat_of_nat)
  qed
  have le: "unat va div 4096 \<le> (unat va + unat sz - 1) div 4096"
    using assms(2) by (intro div_le_mono) (simp add: word_less_nat_alt)
  have b: "unat (floor_virts va) + n < 2 ^ 27"
    using assms(2-4) le by (simp add: floor_virts_def div less_mult_imp_div_less)
  have f: "(va + sz - 1) div PAGE_SIZE = floor_virts va + of_nat n"
  proof (rule word_unat_eq_iff [THEN iffD2])
    have "unat (floor_virts va + of_nat n) = unat (floor_virts va) + n" using b by (simp add: unat_word_ariths unat_of_nat)
    then show "unat ((va + sz - 1) div PAGE_SIZE) = unat (floor_virts va + of_nat n)"
      using le assms(4) by (simp add: div sum floor_virts_def)
  qed
  obtain s' ys where "PageTable_map_loop r (floor_virts va) (floor_phys pa) (floor_virts va + of_nat n) f s = Some s'" "extends r xs s ys s'"
      "\<forall>w. take_bit 27 w = w \<longrightarrow> lookup s' r w =
        (if w \<in> page_range (floor_virts va) n then Some (PageTableEntry_new (floor_phys pa + (w - floor_virts va)) (PTE_V OR f)) else lookup s r w)"
    using PageTable_map_loop_ok [OF assms(1,5) b none] by blast
  then show ?thesis
    using assms(2) by (intro exI [of _ s'] exI [of _ ys]) (simp add: PageTable_map_def f lk extends_def)
qed

lemma span_one: "span a (Suc 0) = {a}"
  by (auto simp: span_def word_unat_eq_iff)

lemma uvmunmap_one:
  assumes "vm_ok xs s r" and "unat a < 2 ^ 27"
  shows "\<exists>s'. uvmunmap r a 1 False s = Some s' \<and> vm_ok xs s' r \<and> tables s' r = tables s r \<and> managed s' = managed s \<and>
    (\<forall>w. take_bit 27 w = w \<longrightarrow> lookup s' r w = (if w = a then None else lookup s r w)) \<and> (\<forall>p. p \<notin> tables s r \<longrightarrow> pages s' p = pages s p)"
  using uvmunmap_loop_ok [OF assms(1), of a 1 False] assms(2) by (auto simp: uvmunmap_def span_one)

text \<open>The unmapping in \<^verbatim>\<open>uvmfree\<close>.\<close>

lemma uvmunmap_size:
  assumes "vm_ok xs s r" and "unat (0 :: u64) + n \<le> 2 ^ 27" and "sz = of_nat n * PAGE_SIZE" and "owned xs s r (span 0 n)"
    and "\<And>w. take_bit 27 w = w \<Longrightarrow> w \<notin> span 0 n \<Longrightarrow> lookup s r w = None"
  shows "\<exists>s' fs. (if sz > 0 then uvmunmap r 0 (sz div PAGE_SIZE) True s else Some s) = Some s' \<and> set fs = mapped s r (span 0 n) \<and>
    vm_ok (fs @ xs) s' r \<and> tables s' r = tables s r \<and> (\<forall>w. take_bit 27 w = w \<longrightarrow> lookup s' r w = None) \<and>
    (\<forall>p. p \<notin> tables s r \<longrightarrow> p \<notin> set fs \<longrightarrow> pages s' p = pages s p)"
proof (cases "n = 0")
  case True
  then have "span 0 n = {}" "sz = 0" using assms(3) by (auto simp: span_def)
  then show ?thesis using assms(1,5) by (intro exI [of _ s] exI [of _ "[]"]) (simp add: mapped_def)
next
  case False
  have u: "unat (of_nat n * PAGE_SIZE) = n * 4096" using assms(2) by (simp add: PAGE_SIZE_def unat_word_ariths unat_of_nat)
  then have sz: "0 < sz" "sz div PAGE_SIZE = of_nat n" using False assms(2,3)
    by (simp_all add: word_less_nat_alt word_unat_eq_iff PAGE_SIZE_def unat_div unat_of_nat)
  obtain s' fs where "uvmunmap_loop r 0 (0 + of_nat n) True s = Some s'" "set fs = mapped s r (span 0 n)" "vm_ok (fs @ xs) s' r"
      "tables s' r = tables s r" "\<forall>w. take_bit 27 w = w \<longrightarrow> lookup s' r w = (if w \<in> span 0 n then None else lookup s r w)"
      "\<forall>p. p \<notin> tables s r \<longrightarrow> p \<notin> set fs \<longrightarrow> pages s' p = pages s p"
    using uvmunmap_loop_ok [OF assms(1,2), of True] assms(4) by auto
  then show ?thesis using sz assms(5) by (intro exI [of _ s'] exI [of _ fs]) (simp add: uvmunmap_def)
qed

text \<open>C34. Releasing the address space of a process whose pages below \<open>n\<close> each have a frame of their own, and which maps nothing
  else but the trampoline and the trap frame, succeeds and makes exactly these frames and all tables free again; no other
  page changes, and the frames of the trampoline and the trap frame stay with their owners.\<close>

theorem proc_freepagetable_releases:
  assumes "vm_ok xs s r" and "n \<le> 2 ^ 26 - 2" and "sz = of_nat n * PAGE_SIZE" and "owned xs s r (span 0 n)"
    and "\<forall>w. take_bit 27 w = w \<longrightarrow> lookup s r w \<noteq> None \<longrightarrow> w \<in> span 0 n \<or> w = floor_virts TRAMPOLINE \<or> w = floor_virts TRAPFRAME"
    and "rfence \<or> other_harts self s = 0"
  shows "\<exists>s' ys. proc_freepagetable self rfence r sz s = Some s' \<and> fa_ok ys s' \<and>
    set ys = set xs \<union> tables s r \<union> mapped s r (span 0 n) \<and> (\<forall>p. p \<notin> tables s r \<union> mapped s r (span 0 n) \<longrightarrow> pages s' p = pages s p)"
proof -
  have va: "floor_virts (virt_addr_from_size_t TRAMPOLINE) = 0x3ffffff" "floor_virts (virt_addr_from_size_t TRAPFRAME) = 0x3fffffe"
    "floor_virts TRAMPOLINE = 0x3ffffff" "floor_virts TRAPFRAME = 0x3fffffe" "floor_virts (virt_addr_from_size_t 0) = 0"
    by code_simp+
  have below: "w \<notin> span 0 n" if "w = 0x3ffffff \<or> w = 0x3fffffe" for w using that assms(2) by (auto simp: span_def)
  obtain s1 where 1: "uvmunmap r 0x3ffffff 1 False s = Some s1" "vm_ok xs s1 r" "tables s1 r = tables s r" "managed s1 = managed s"
      "\<forall>w. take_bit 27 w = w \<longrightarrow> lookup s1 r w = (if w = 0x3ffffff then None else lookup s r w)"
      "\<forall>p. p \<notin> tables s r \<longrightarrow> pages s1 p = pages s p"
    using uvmunmap_one [OF assms(1), of "0x3ffffff"] by auto
  obtain s2 where 2: "uvmunmap r 0x3fffffe 1 False s1 = Some s2" "vm_ok xs s2 r" "tables s2 r = tables s1 r" "managed s2 = managed s1"
      "\<forall>w. take_bit 27 w = w \<longrightarrow> lookup s2 r w = (if w = 0x3fffffe then None else lookup s1 r w)"
      "\<forall>p. p \<notin> tables s1 r \<longrightarrow> pages s2 p = pages s1 p"
    using uvmunmap_one [OF 1(2), of "0x3fffffe"] by auto
  have n: "unat (0 :: u64) + n \<le> 2 ^ 27" using assms(2) by simp
  have same: "lookup s2 r w = lookup s r w" if "w \<in> span 0 n" for w
    using 1(5) 2(5) below that span_page [OF n that] by auto
  then have mp: "mapped s2 r (span 0 n) = mapped s r (span 0 n)" by (simp add: mapped_def cong: conj_cong)
  have own: "owned xs s2 r (span 0 n)" using assms(4) unfolding owned_def mp 1(3,4) 2(3,4) by (auto simp: same)
  have none: "lookup s2 r w = None" if "take_bit 27 w = w" "w \<notin> span 0 n" for w
    using assms(5) 1(5) 2(5) that unfolding va by (auto split: if_splits)
  obtain s3 fs where 3: "(if sz > 0 then uvmunmap r 0 (sz div PAGE_SIZE) True s2 else Some s2) = Some s3"
      "set fs = mapped s r (span 0 n)" "vm_ok (fs @ xs) s3 r" "tables s3 r = tables s r"
      "\<forall>w. take_bit 27 w = w \<longrightarrow> lookup s3 r w = None" "\<forall>p. p \<notin> tables s r \<longrightarrow> p \<notin> set fs \<longrightarrow> pages s3 p = pages s p"
    using uvmunmap_size [OF 2(2) n assms(3) own none] mp 1(3,6) 2(3,6) by auto
  obtain s' ys where 4: "freewalk r s3 = Some s'" "fa_ok (ys @ fs @ xs) s'" "set ys = tables s r"
      "\<forall>p. p \<notin> tables s r \<longrightarrow> pages s' p = pages s3 p"
    using freewalk_tree [OF 3(3)] 3(4,5) by (auto simp: released_def)
  have "proc_freepagetable self rfence r sz s = Some s'"
    using assms(6) 1(1) 2(1) 3(1) 4(1) by (auto simp: proc_freepagetable_def tlb_shootdown_all_def uvmfree_def va)
  then show ?thesis
    using 3 4 by (intro exI [of _ s'] exI [of _ "ys @ fs @ xs"]) auto
qed


section \<open>Examples\<close>

definition vm_zero :: vm_state where
  "vm_zero = \<lparr>cpus = replicate MAX_CPUS cpu_zero, hart_sie = (\<lambda>_. False), locks = (\<lambda>_. \<lparr>lk_locked = False, lk_owner = None\<rparr>),
     pages = (\<lambda>_ _. 0), fa_start = 0, fa_end = 0, fa_freelist = 0, fa_free_pages = 0, fa_free_map = (\<lambda>_. 0)\<rparr>"

text \<open>A kernel that leaves sixteen frames.\<close>

lemma example_end: "KERNBASE \<le> 0x881f0000" "0x881f0000 \<le> PHYSTOP"
  by (simp_all add: KERNBASE_def PHYSTOP_def)

theorem frames_conserved_witness:
  "KERNBASE \<le> 0x881f0000 \<and> 0x881f0000 \<le> PHYSTOP \<and>
   (\<exists>s0. frame_alloctor_init 0x881f0000 vm_zero = Some s0 \<and>
     (\<exists>held s1. frame_run [Alloc, Free 3, Alloc] [] s0 = Some (held, s1) \<and> distinct held))"
  using frames_conserved [OF example_end, of vm_zero] example_end by blast

lemma example_frames:
  "\<exists>s0 xs. frame_alloctor_init 0x881f0000 vm_zero = Some s0 \<and> fa_ok xs s0 \<and> length xs = 16 \<and> cpus s0 = replicate MAX_CPUS cpu_zero"
proof -
  obtain s0 xs where s0: "frame_alloctor_init 0x881f0000 vm_zero = Some s0" "fa_ok xs s0" "set xs = managed s0"
      "managed s0 = {p. unat p * 4096 < unat PHYSTOP \<and> unat (0x881f0000 :: u64) \<le> unat p * 4096}"
    using frame_alloctor_init_ok [OF example_end, of vm_zero] by blast
  have "set xs = of_nat ` {0x881f0..<0x88200}"
  proof
    show "set xs \<subseteq> of_nat ` {0x881f0..<0x88200}"
    proof
      fix p assume "p \<in> set xs"
      then have "unat p \<in> {0x881f0..<0x88200}" unfolding s0(3,4) by (auto simp: PHYSTOP_def)
      then show "p \<in> of_nat ` {0x881f0..<0x88200}" by (intro image_eqI [of _ _ "unat p"]) simp_all
    qed
    show "of_nat ` {0x881f0..<0x88200} \<subseteq> set xs"
      unfolding s0(3,4) by (auto simp: PHYSTOP_def unat_of_nat)
  qed
  moreover have "inj_on (of_nat :: nat \<Rightarrow> u64) {0x881f0..<0x88200}"
    by (rule inj_on_inverseI [of _ unat]) (simp add: unat_of_nat)
  ultimately have "card (set xs) = 16" by (simp add: card_image)
  then have len: "length xs = 16" using s0(2) by (simp add: fa_ok_def distinct_card)
  have run: "push_run p s = Some s' \<Longrightarrow> cpus s' = cpus s" for p and s s' :: vm_state
    by (auto simp: push_run_def set_free_map_def set_next_run_def Let_def split: if_splits)
  have loop: "StackFrameAllocator_init_loop l v s = Some s' \<Longrightarrow> cpus s' = cpus s" for l v and s s' :: vm_state
    by (induction l v s rule: StackFrameAllocator_init_loop.induct, subst (asm) StackFrameAllocator_init_loop.simps)
      (auto split: if_splits Option.bind_splits dest: run)
  have "cpus s0 = replicate MAX_CPUS cpu_zero"
    using loop [OF s0(1) [unfolded frame_alloctor_init_def StackFrameAllocator_init_def]]
    by (simp add: StackFrameAllocator_new_def vm_zero_def)
  with s0 len show ?thesis by blast
qed

text \<open>A fresh tree, and a tree with one page.\<close>

lemma kalloc_data:
  assumes "vm_ok (p # xs) s r"
  shows "\<exists>s'. kalloc s = Some (p, s') \<and> vm_ok xs s' r \<and> tables s' r = tables s r \<and> p \<in> managed s' - set xs - tables s' r \<and>
    (\<forall>v. lookup s' r v = lookup s r v) \<and> managed s' = managed s"
proof -
  have fa: "fa_ok (p # xs) s" and sub: "tables s r \<subseteq> managed s - set (p # xs)" using assms by (simp_all add: vm_ok_def)
  obtain s' where s': "kalloc s = Some (p, s')" "fa_ok xs s'" "pages s' = (pages s)(p := (\<lambda>_. 0))" "managed s' = managed s"
    using kalloc_ok [OF fa] by blast
  have same: "\<forall>q\<in>tables s r. pages s' q = pages s q" using s'(3) sub by auto
  have ptr: "pointers_ok s' r" by (rule pointers_frame [OF _ same]) (use assms in \<open>simp add: vm_ok_def\<close>)
  have "tables s' r = tables s r" "tree_ok s' r" using assms tables_frame [OF same] by (simp_all add: vm_ok_def)
  moreover have "p \<in> managed s" "p \<notin> set xs" "p \<notin> tables s r" "tables s r \<subseteq> managed s - set xs" using fa sub by (auto simp: fa_ok_def)
  ultimately show ?thesis using s' ptr lookup_frame [OF same] by (intro exI [of _ s']) (simp add: vm_ok_def)
qed

lemma example_tree:
  "\<exists>xs s r. vm_ok xs (s :: vm_state) r \<and> length xs = 15 \<and> (\<forall>v. lookup s r v = None)"
proof -
  obtain s0 xs where "fa_ok xs (s0 :: vm_state)" "length xs = 16" using example_frames by blast
  then obtain r ys where "fa_ok (r # ys) s0" "length ys = 15" by (cases xs) auto
  with fresh_root [of r ys s0] show ?thesis by blast
qed

theorem PageTable_map_refines_witness:
  "\<exists>xs s r s'. vm_ok xs (s :: vm_state) r \<and> PageTable_map r 0x1234 0x80300000 0x1000 PTE_R s = Some s' \<and>
     map_option (\<lambda>p. pte_at p s') (find_pte r 2 s') = Some (PageTableEntry_new 0x80301 (PTE_V OR PTE_R)) \<and> find_pte r 3 s' = None"
proof -
  obtain xs r and s :: vm_state where s: "vm_ok xs s r" "length xs = 15" "\<And>v. lookup s r v = None" using example_tree by blast
  have none: "find_pte r w s = None" for w
    using s(3) [of w] by (auto simp: find_pte_lookup lookup_def Let_def split: option.splits if_splits)
  have n: "(1 :: nat) = (unat (0x1234 :: u64) + unat (0x1000 :: u64) - 1) div 4096 - unat (0x1234 :: u64) div 4096" by simp
  have v: "floor_virts 0x1234 = 1" "floor_phys 0x80300000 = 0x80300" by code_simp+
  have r: "2 \<in> page_range 1 1" "3 \<notin> page_range 1 1" by (simp_all add: page_range_def)
  obtain s' where s': "PageTable_map r 0x1234 0x80300000 0x1000 PTE_R s = Some s'"
      "\<forall>w. take_bit 27 w = w \<longrightarrow> map_option (\<lambda>p. pte_at p s') (find_pte r w s') =
        (if w \<in> page_range 1 1 then Some (PageTableEntry_new (0x80300 + (w - 1)) (PTE_V OR PTE_R)) else None)"
    using PageTable_map_refines [OF s(1), of "0x1000" "0x1234" 1 "0x80300000" PTE_R] s(2) none n by (auto simp: v)
  have "map_option (\<lambda>p. pte_at p s') (find_pte r 2 s') = Some (PageTableEntry_new 0x80301 (PTE_V OR PTE_R))" "find_pte r 3 s' = None"
    using s'(2) [rule_format, of 2] s'(2) [rule_format, of 3] r by simp_all
  with s(1) s'(1) show ?thesis by blast
qed

text \<open>A process with one page.\<close>

theorem proc_freepagetable_releases_witness:
  "\<exists>xs s r p ys s'. vm_ok xs (s :: vm_state) r \<and> lookup s r 0 = Some (PageTableEntry_new p (PTE_V OR PTE_R)) \<and> p \<notin> set xs \<and>
     proc_freepagetable 0 True r PAGE_SIZE s = Some s' \<and> fa_ok ys s' \<and> p \<in> set ys"
proof -
  obtain xs r and s :: vm_state where s: "vm_ok xs s r" "length xs = 15" "\<And>v. lookup s r v = None" using example_tree by blast
  then obtain p xs1 where xs1: "xs = p # xs1" "length xs1 = 14" by (cases xs) auto
  then obtain s1 :: vm_state where s1: "vm_ok xs1 s1 r" "p \<in> managed s1 - set xs1 - tables s1 r" "\<And>v. lookup s1 r v = None"
  proof -
    have "vm_ok (p # xs1) s r" using s(1) xs1(1) by simp
    from kalloc_data [OF this] obtain t where t: "kalloc s = Some (p, t) \<and> vm_ok xs1 t r \<and> tables t r = tables s r \<and>
      p \<in> managed t - set xs1 - tables t r \<and> (\<forall>v. lookup t r v = lookup s r v) \<and> managed t = managed s" ..
    then show thesis using s(3) by (intro that [of t]) auto
  qed
  have b: "unat (0 :: u64) + 0 < 2 ^ 27" by simp
  obtain s2 ys where s2: "extends r xs1 s1 ys (s2 :: vm_state)"
      "\<forall>w. take_bit 27 w = w \<longrightarrow> lookup s2 r w =
        (if w \<in> page_range 0 0 then Some (PageTableEntry_new (p + (w - 0)) (PTE_V OR PTE_R)) else lookup s1 r w)"
  proof -
    have "2 * Suc 0 \<le> length xs1" "\<forall>w\<in>page_range 0 0. lookup s1 r w = None" using xs1(2) s1(3) by simp_all
    from PageTable_map_loop_ok [OF s1(1) this(1) b this(2), of p PTE_R] that show thesis by blast
  qed
  have z: "w \<in> page_range 0 0 \<longleftrightarrow> w = 0" for w by (auto simp: page_range_def unat_eq_0)
  have lk: "take_bit 27 w = w \<Longrightarrow> lookup s2 r w = (if w = 0 then Some (PageTableEntry_new p (PTE_V OR PTE_R)) else None)" for w
    using s2(2) s1(3) by (simp add: z)
  have fa1: "fa_ok xs1 s1" using s1(1) by (simp add: vm_ok_def)
  have ok: "vm_ok ys s2 r" and sub: "set ys \<subseteq> set xs1" "tables s2 r \<subseteq> tables s1 r \<union> (set xs1 - set ys)" "managed s2 = managed s1"
    using s2(1) by (auto simp: extends_def)
  have fr: "frame_of (PageTableEntry_new p (PTE_V OR PTE_R)) = p"
    unfolding frame_of_def by (rule new_frame) (use managed_page(2) [OF fa1] s1(2) in blast)
  have mp: "mapped s2 r (span 0 1) = {p}" using lk [of 0] by (auto simp: mapped_def span_one fr)
  have own: "owned ys s2 r (span 0 1)" unfolding owned_def mp using sub s1(2) by (auto simp: span_one)
  have sz: "PAGE_SIZE = of_nat 1 * PAGE_SIZE" by simp
  have "\<forall>w. take_bit 27 w = w \<longrightarrow> lookup s2 r w \<noteq> None \<longrightarrow> w \<in> span 0 1 \<or> w = floor_virts TRAMPOLINE \<or> w = floor_virts TRAPFRAME"
    using lk by (auto simp: span_one split: if_splits)
  from proc_freepagetable_releases [OF ok _ sz own this, of True 0] obtain s' zs where
      "proc_freepagetable 0 True r PAGE_SIZE s2 = Some s'" "fa_ok zs s'" "set zs = set ys \<union> tables s2 r \<union> {p}"
    unfolding mp by auto
  moreover have "p \<notin> set ys" using sub(1) s1(2) by blast
  moreover have "lookup s2 r 0 = Some (PageTableEntry_new p (PTE_V OR PTE_R))" using lk [of 0] by simp
  ultimately show ?thesis using ok by blast
qed

end
