(* ===== verification/Spec2Isabelle.thy ===== *)
theory Spec2Isabelle
  imports Pktbuf_Props Base_Props Timer_Props Virtio_Props Udp_Own Tcp_Props Dns_Props Exec_Props Address_Props
begin

text \<open>
  A verification development of the network side of quard-star-riscv64-net, a small RISC-V kernel written in C
  (\<^verbatim>\<open>src/kernel\<close>): from the virtio queues shared with the device up to the sockets and the name resolver that the
  system calls use.

  \<^bold>\<open>The program.\<close> A frame the device has received is completed on a virtqueue (\<^verbatim>\<open>virtqueue.c\<close>), collected by the interrupt
  handler of the driver (\<^verbatim>\<open>virtio_net.c\<close>) into a ring of completed slots (\<^verbatim>\<open>virtio_net_completion.c\<close>), copied by the
  Ethernet device (\<^verbatim>\<open>netif_virtio.c\<close>) into a packet buffer (\<^verbatim>\<open>pktbuf.c\<close>) and queued at its interface (\<^verbatim>\<open>netif.c\<close>,
  \<^verbatim>\<open>fixq.c\<close>). The network task (\<^verbatim>\<open>net_stack.c\<close>) takes packets from the queues and passes them to \<^verbatim>\<open>ether.c\<close>, which calls
  \<^verbatim>\<open>arp.c\<close> or \<^verbatim>\<open>ipv4.c\<close>, which calls \<^verbatim>\<open>icmpv4.c\<close>, \<^verbatim>\<open>udp.c\<close> or \<^verbatim>\<open>tcp.c\<close>; it also runs the timers (\<^verbatim>\<open>timer.c\<close>) and the
  requests other tasks have sent it (\<^verbatim>\<open>net_exec.c\<close>). Output goes the same way down. Sockets (\<^verbatim>\<open>socket.c\<close>) give numbered
  handles to UDP and TCP control blocks, and the resolver (\<^verbatim>\<open>dns.c\<close>, \<^verbatim>\<open>dns_resolver.c\<close>) uses them. Below everything lie
  intrusive lists (\<^verbatim>\<open>nlist.h\<close>), block allocators (\<^verbatim>\<open>mblock.c\<close>), checksums and byte order (\<^verbatim>\<open>tools.c\<close>), and the
  semaphores and the clock of the kernel (\<^verbatim>\<open>net_sys.c\<close>, \<^verbatim>\<open>wait.c\<close>).

  \<^bold>\<open>The model.\<close> Each source file is a theory of the same name. Its static variables are a record that extends the record
  of the layer below (\<open>net_sys_state\<close>, \<open>fixq_state\<close>, \<open>pkt_state\<close>, \<open>timer_state\<close>, \<open>netif_state\<close>, \<open>loop_state\<close>, \<open>ether_state\<close>,
  \<open>arp_state\<close>, \<open>ipv4_state\<close>, \<open>icmpv4_state\<close>, \<open>udp_state\<close>, \<open>tcp_state\<close>, \<open>exec_state\<close>, \<open>socket_state\<close>, \<open>dns_state\<close>,
  \<open>stack_state\<close>), so that a layer's operations apply unchanged to the whole system. A C function is a definition of the same
  name; a part of a long function has the name of the function and what it does. C integers whose width matters are
  words, others \<open>int\<close> or \<open>nat\<close>; a pointer into a static array is its index, a pointer that may be null an \<open>option\<close>. The
  result is an \<open>option\<close> where the code can fail to return or leave the language: \<open>None\<close> is a panic, an access outside an
  object or a loop that does not end, and errors are values of \<open>net_err\<close>. Structures of function pointers
  (\<^verbatim>\<open>netif_ops_t\<close>, \<^verbatim>\<open>link_layer_t\<close>, protocol handlers, timer callbacks) are tables given to the operations that call through
  them; \<open>net_ops\<close>, \<open>net_layer\<close>, \<open>net_handler\<close>, \<open>net_proto\<close> and \<open>net_fire\<close> in \<open>Net_Stack\<close> are the tables the kernel fills.
  A blocking call takes the list of the sleeps it goes through, each a function that says what the others do
  meanwhile; \<open>Fixq\<close> has in addition the interleavings of its lock regions as a step relation.
  The device behind a virtqueue is arbitrary: whatever it writes into the shared memory is part of a step.

  \<^bold>\<open>Loops.\<close> Loops over lists and arrays are structural or have a \<open>termination\<close> proof. Where the C loop follows data that
  might be circular the definition is a \<open>partial_function (option)\<close>, and the theorems say that it returns. No operation has
  a fuel argument, except the network task itself: \<open>net_stack_worker\<close> runs for ever and is given the number of its rounds.

  \<^bold>\<open>The theories and what they show.\<close>
  \<^item> \<open>Net_Prelude\<close>: types, error codes, total correctness (\<open>post\<close>), lemmas on lists and words.
  \<^item> \<open>Net_Tools\<close>, \<open>Nlist\<close>, \<open>Net_Sys\<close>, \<open>Mblock\<close>, \<open>Ring\<close>, \<open>Fixq\<close>, \<open>Completion\<close>; properties in \<open>Base_Props\<close>: a checksum stored
    verifies and can be summed in pieces; linked lists at pointer level refine HOL lists; blocks are neither lost nor
    given out twice; the message queue and the completion ring are instances of one contract of bounded queues, and the
    queue stays one under every interleaving of its callers.
  \<^item> \<open>Pktbuf\<close>, \<open>Pktbuf_Laws\<close>, \<open>Headers\<close>; properties in \<open>Pktbuf_Props\<close>: a packet is the list of its bytes, whatever its blocks;
    each operation does on the bytes what its name says, returns, and neither loses nor shares a block.
  \<^item> \<open>Timer\<close>, \<open>Ipaddr\<close>; properties in \<open>Timer_Props\<close>: the list of differences refines a schedule with absolute deadlines;
    exactly the due timers run; the parser of addresses accepts exactly the dotted decimal strings.
  \<^item> \<open>Virtqueue\<close>, \<open>Virtio_Mmio\<close>, \<open>Virtio_Net\<close>, \<open>Virtio_Net_Inv\<close>, \<open>Virtio_Net_Sys\<close>; properties in \<open>Virtio_Props\<close>: against any
    device the driver keeps its invariant, reports each chain at most once, loses no buffer, and delivers what the
    device put into a buffer.
  \<^item> \<open>Netif\<close>, \<open>Loop\<close>, \<open>Netif_Virtio\<close>, \<open>Ether\<close>, \<open>Arp\<close>, \<open>Ipv4\<close>, \<open>Icmpv4\<close>, \<open>Udp\<close> and the theories \<open>Own\<close>, \<open>Link_Own\<close>, \<open>Arp_Own\<close>,
    \<open>Ip_Own\<close>, \<open>Input_Own\<close>, \<open>Udp_Own\<close>: who holds the references of the packet buffers. Output consumes the buffer on
    every path, input leaves it to the caller exactly when it returns an error, a waiting packet is held by exactly one
    queue, cache entry or record. The contracts between the layers are locales, interpreted on the layers' definitions.
  \<^item> \<open>Tcp\<close>; properties in \<open>Tcp_Props\<close>: the receive ring is a stream, an acknowledgement is accepted exactly inside the window
    across the wrap of the sequence numbers, and there is always a free local port. \<open>Boot\<close> is the memory of the kernel
    when it starts, from which examples are built.
  \<^item> \<open>Dns\<close>, \<open>Dns_Resolver\<close>; properties in \<open>Dns_Props\<close>: reading a message is safe and ends for every packet, and a query is
    read back as the name it was made for.
  \<^item> \<open>Net_Exec\<close>, \<open>Socket\<close>, \<open>Net_Stack\<close>: requests to the network task, sockets, and the assembly of the stack.

  \<^bold>\<open>Not modelled.\<close> The context switch, traps, page tables, system call copying and the scheduler: register-level code, of
  which only the effect of a sleep is in the model. Spin locks: the sections between lock and unlock are atomic steps. The
  block device, buffer cache, files and loader, which the network does not use; the FAT library they call is not part of
  the sources. The user programs. The trusted domain, a port of FreeRTOS. The POSIX half of \<^verbatim>\<open>net_sys.c\<close>, the marks and
  probes of the self tests (\<^verbatim>\<open>QS_..._TEST\<close>), and console output.
\<close>

end
